(* ===== verification/Kernel_Prelude.thy ===== *)
theory Kernel_Prelude
  imports Main "HOL-Library.Word"
begin

text \<open>
  What the components of this development share: the machine integer types of the C code, the
  kernel's error numbers, C strings and byte arrays as lists, bitmaps with their first-zero scan,
  and the lemma collections that the component proofs are run with.

  A C array of fixed size whose every index is checked before use is a function from \<open>nat\<close>; a byte
  or word buffer is a list. A C function that returns 0 or a negative error number has the type
  \<open>errno + unit\<close> (or \<open>errno + 'a\<close> where it also produces a result).
\<close>

unbundle bit_operations_syntax

section \<open>Types\<close>

type_synonym u8 = "8 word"
type_synonym u16 = "16 word"
type_synonym u32 = "32 word"
type_synonym u64 = "64 word"
type_synonym s32 = "32 word"
type_synonym s64 = "64 word"

text \<open>The error numbers the modelled code returns (always negated, as the kernel does).\<close>

datatype errno =
  EPERM | ENOENT | E2BIG | ENOMEM | EFAULT | EEXIST | EINVAL | ENODATA | ENOSR | EADV | EALREADY
| ETIMEDOUT | ENOTEMPTY | ECANCELED | EIO | ENOBUFS | ENODEV | EBADFD | ENOMSG

text \<open>
  The status codes of the WLAN host driver: the first ones of \<open>qdf_status.h\<close>, in their order, and
  the range error of the parsers. No modelled function returns another one.
\<close>

datatype qdf_status =
    QDF_STATUS_SUCCESS | QDF_STATUS_E_RESOURCES | QDF_STATUS_E_NOMEM | QDF_STATUS_E_AGAIN
  | QDF_STATUS_E_INVAL | QDF_STATUS_E_FAULT | QDF_STATUS_E_ALREADY | QDF_STATUS_E_BADMSG
  | QDF_STATUS_E_BUSY | QDF_STATUS_E_CANCELED | QDF_STATUS_E_ABORTED | QDF_STATUS_E_NOSUPPORT
  | QDF_STATUS_E_PERM | QDF_STATUS_E_EMPTY | QDF_STATUS_E_EXISTS | QDF_STATUS_E_TIMEOUT
  | QDF_STATUS_E_FAILURE | QDF_STATUS_E_RANGE

named_theorems frame_simps \<open>what an operation leaves unchanged\<close>
named_theorems inv_intros \<open>invariant preservation, one rule for each operation\<close>

lemma unat_inc: "Suc (unat (w :: 'a::len word)) < 2 ^ LENGTH('a) \<Longrightarrow> unat (w + 1) = Suc (unat w)"
  by (simp add: unat_word_ariths)

lemma sint_by_uint:
  "sint (w :: 'a::len word)
   = (if uint w < 2 ^ (LENGTH('a) - 1) then uint w else uint w - 2 ^ LENGTH('a))"
proof -
  have len: "Suc (LENGTH('a) - 1) = LENGTH('a)" by simp
  have two: "(2::int) ^ LENGTH('a) = 2 * 2 ^ (LENGTH('a) - 1)"
    by (metis len power_Suc)
  have u: "0 \<le> uint w" "uint w < 2 ^ LENGTH('a)"
    by (simp_all add: unsigned_less)
  have "sint w = (uint w + 2 ^ (LENGTH('a) - 1)) mod 2 ^ LENGTH('a) - 2 ^ (LENGTH('a) - 1)"
    by (simp add: sint_uint signed_take_bit_eq_take_bit_shift take_bit_eq_mod len)
  also have "\<dots> = (if uint w < 2 ^ (LENGTH('a) - 1) then uint w else uint w - 2 ^ LENGTH('a))"
  proof (cases "uint w < 2 ^ (LENGTH('a) - 1)")
    case True
    then show ?thesis using u two by simp
  next
    case False
    have "(uint w + 2 ^ (LENGTH('a) - 1)) mod 2 ^ LENGTH('a)
        = (uint w + 2 ^ (LENGTH('a) - 1) - 2 ^ LENGTH('a)) mod 2 ^ LENGTH('a)"
      by simp
    also have "\<dots> = uint w + 2 ^ (LENGTH('a) - 1) - 2 ^ LENGTH('a)"
      by (rule mod_pos_pos_trivial) (use False u two in auto)
    finally show ?thesis using False two by simp
  qed
  finally show ?thesis .
qed

lemma uint_neg_word: "uint (- w :: 'a::len word) = (if w = 0 then 0 else 2 ^ LENGTH('a) - uint w)"
proof (cases "w = 0")
  case False
  then have "0 < uint w" "uint w < 2 ^ LENGTH('a)"
    using unsigned_less [of w] by (auto simp: word_neq_0_conv word_less_def)
  then show ?thesis
    using False by (simp add: uint_word_ariths zmod_zminus1_eq_if mod_pos_pos_trivial)
qed simp

section \<open>C strings\<close>

text \<open>
  A C string is the list of its characters without the terminator, a pointer into it a position.
  Reading at the end gives the terminator.
\<close>

definition NUL :: char where
  "NUL = CHR 0x00"

definition str_at :: "string \<Rightarrow> nat \<Rightarrow> char" where
  "str_at s p = (case drop p s of [] \<Rightarrow> NUL | c # _ \<Rightarrow> c)"

text \<open>The kernel's \<open>isspace\<close>: tab to carriage return, space, and the Latin-1 no-break space.\<close>

definition is_space :: "char \<Rightarrow> bool" where
  "is_space c = (let n = (of_char c :: nat) in (9 \<le> n \<and> n \<le> 13) \<or> n = 32 \<or> n = 160)"

lemma is_space_NUL [simp]: "\<not> is_space NUL"
  by (simp add: is_space_def NUL_def)

lemma str_at_append [simp]: "str_at (pre @ s) (length pre) = (case s of [] \<Rightarrow> NUL | c # _ \<Rightarrow> c)"
  by (simp add: str_at_def)

lemma str_at_beyond: "length s \<le> p \<Longrightarrow> str_at s p = NUL"
  by (simp add: str_at_def)

lemma str_at_not_NUL: "str_at s p \<noteq> NUL \<Longrightarrow> p < length s"
  using str_at_beyond by (metis not_le)

lemma is_space_in_range: "is_space (str_at s p) \<Longrightarrow> p < length s"
  using is_space_NUL str_at_not_NUL by metis

section \<open>Byte arrays\<close>

text \<open>\<open>memmove\<close> inside one array and \<open>memset\<close> to zero of a part of it.\<close>

definition mem_move :: "'a list \<Rightarrow> nat \<Rightarrow> nat \<Rightarrow> nat \<Rightarrow> 'a list" where
  "mem_move xs to frm n = take to xs @ take n (drop frm xs) @ drop (to + n) xs"

definition mem_fill :: "'a \<Rightarrow> 'a list \<Rightarrow> nat \<Rightarrow> nat \<Rightarrow> 'a list" where
  "mem_fill z xs frm n = take frm xs @ replicate n z @ drop (frm + n) xs"

lemma length_mem_move [simp]:
  "to + n \<le> length xs \<Longrightarrow> frm + n \<le> length xs \<Longrightarrow> length (mem_move xs to frm n) = length xs"
  by (simp add: mem_move_def)

lemma length_mem_fill [simp]:
  "frm + n \<le> length xs \<Longrightarrow> length (mem_fill z xs frm n) = length xs"
  by (simp add: mem_fill_def)

text \<open>
  \<open>memcpy\<close> of \<open>n\<close> elements between two buffers, as cursors into them; \<open>None\<close> when it would leave one
  of the buffers.
\<close>

definition mem_copy :: "'a list \<Rightarrow> nat \<Rightarrow> 'a list \<Rightarrow> nat \<Rightarrow> nat \<Rightarrow> 'a list option" where
  "mem_copy dst to src frm n =
     (if to + n \<le> length dst \<and> frm + n \<le> length src
      then Some (take to dst @ take n (drop frm src) @ drop (to + n) dst) else None)"

lemma mem_copy_Some:
  "to + n \<le> length dst \<Longrightarrow> frm + n \<le> length src \<Longrightarrow>
   mem_copy dst to src frm n = Some (take to dst @ take n (drop frm src) @ drop (to + n) dst)"
  by (simp add: mem_copy_def)

lemma mem_copy_length: "mem_copy dst to src frm n = Some d \<Longrightarrow> length d = length dst"
  by (auto simp: mem_copy_def split: if_splits)

lemma mem_copy_nth:
  assumes "mem_copy dst to src frm n = Some d" "i < length dst"
  shows "d ! i = (if to \<le> i \<and> i < to + n then src ! (frm + (i - to)) else dst ! i)"
proof -
  have b: "to + n \<le> length dst" "frm + n \<le> length src"
    and d: "d = take to dst @ take n (drop frm src) @ drop (to + n) dst"
    using assms(1) by (auto simp: mem_copy_def split: if_splits)
  have lt: "length (take to dst) = to" and ls: "length (take n (drop frm src)) = n"
    using b by auto
  consider "i < to" | "to \<le> i" "i < to + n" | "to + n \<le> i" by linarith
  then show ?thesis
  proof cases
    case 1
    then show ?thesis using lt by (simp add: d nth_append)
  next
    case 2
    then have "i - to < n" by arith
    then show ?thesis using 2 b by (simp add: d nth_append lt ls)
  next
    case 3
    then have "\<not> i - to < n" "\<not> i < to" "to + n + (i - to - n) = i" by arith+
    then show ?thesis using 3 b assms(2) by (simp add: d nth_append lt ls)
  qed
qed

section \<open>Ring buffers\<close>

text \<open>The \<open>n\<close> elements of a ring buffer from index \<open>r\<close> on.\<close>

definition ring_slice :: "'a list \<Rightarrow> nat \<Rightarrow> nat \<Rightarrow> 'a list" where
  "ring_slice mem r n = map (\<lambda>k. mem ! ((r + k) mod length mem)) [0..<n]"

lemma length_ring_slice [simp]: "length (ring_slice mem r n) = n"
  by (simp add: ring_slice_def)

lemma ring_slice_0 [simp]: "ring_slice mem r 0 = []"
  by (simp add: ring_slice_def)

lemma nth_ring_slice [simp]: "k < n \<Longrightarrow> ring_slice mem r n ! k = mem ! ((r + k) mod length mem)"
  by (simp add: ring_slice_def)

lemma ring_slice_add:
  "ring_slice mem r (a + b) = ring_slice mem r a @ ring_slice mem ((r + a) mod length mem) b"
proof (rule nth_equalityI)
  fix i assume i: "i < length (ring_slice mem r (a + b))"
  show "ring_slice mem r (a + b) ! i = (ring_slice mem r a @ ring_slice mem ((r + a) mod length mem) b) ! i"
  proof (cases "i < a")
    case True
    then show ?thesis using i by (simp add: nth_append)
  next
    case False
    then obtain j where "i = a + j" by (metis le_add_diff_inverse not_le)
    then show ?thesis using i by (simp add: nth_append mod_simps add.assoc)
  qed
qed simp

lemma ring_slice_take: "a \<le> n \<Longrightarrow> take a (ring_slice mem r n) = ring_slice mem r a"
  by (simp add: ring_slice_def take_map)

lemma ring_slice_drop:
  "a \<le> n \<Longrightarrow> drop a (ring_slice mem r n) = ring_slice mem ((r + a) mod length mem) (n - a)"
  using ring_slice_add [of mem r a "n - a"] by (metis append_eq_conv_conj le_add_diff_inverse length_ring_slice)

lemma mod_sub_add: "(w :: nat) < W \<Longrightarrow> n \<le> W \<Longrightarrow> (w + n) mod W = (if w + n < W then w + n else w + n - W)"
  by (auto simp: le_mod_geq)

lemma ring_index_cases:
  "(w :: nat) < W \<Longrightarrow> i < W \<Longrightarrow> (i + W - w) mod W = (if w \<le> i then i - w else i + W - w)"
  by (auto simp: le_mod_geq)

lemma ring_back: "(r :: nat) < W \<Longrightarrow> k < W \<Longrightarrow> ((r + k) mod W + W - r) mod W = k"
  by (auto simp: mod_sub_add)

lemma ring_distance:
  assumes "(r :: nat) < W" "i < u" "u < W"
  shows "((r + i) mod W + W - (r + u) mod W) mod W = W + i - u"
proof -
  consider "r + u < W" | "r + i < W" "W \<le> r + u" | "W \<le> r + i" by linarith
  then show ?thesis
  proof cases
    case 1
    then show ?thesis using assms by simp
  next
    case 2
    then have m: "(r + u) mod W = r + u - W" using assms by (simp add: mod_sub_add)
    have "(r + i) mod W + W - (r + u) mod W = (W + i - u) + W"
      using 2 assms unfolding m by simp
    then have "((r + i) mod W + W - (r + u) mod W) mod W = (W + i - u) mod W" by (simp only: mod_add_self2)
    then show ?thesis using assms by simp
  next
    case 3
    then have "(r + u) mod W = r + u - W" "(r + i) mod W = r + i - W" using assms by (simp_all add: mod_sub_add)
    then show ?thesis using 3 assms by simp
  qed
qed

section \<open>Bitmaps\<close>

text \<open>\<open>find_first_zero_bit\<close>: the first clear bit, the size when every bit is set.\<close>

function ffz_from :: "(nat \<Rightarrow> bool) \<Rightarrow> nat \<Rightarrow> nat \<Rightarrow> nat" where
  "ffz_from bm n i = (if i < n \<and> bm i then ffz_from bm n (Suc i) else min i n)"
  by pat_completeness auto
termination
  by (relation "measure (\<lambda>(bm, n, i). n - i)") auto

declare ffz_from.simps [simp del]

definition find_first_zero_bit :: "(nat \<Rightarrow> bool) \<Rightarrow> nat \<Rightarrow> nat" where
  "find_first_zero_bit bm n = ffz_from bm n 0"

lemma ffz_from_props:
  "ffz_from bm n i \<le> n
   \<and> (ffz_from bm n i < n \<longrightarrow> \<not> bm (ffz_from bm n i))
   \<and> (\<forall>j. i \<le> j \<and> j < ffz_from bm n i \<longrightarrow> bm j)"
proof (induction bm n i rule: ffz_from.induct)
  case (1 bm n i)
  show ?case
  proof (cases "i < n \<and> bm i")
    case True
    then show ?thesis
      using 1 by (auto simp: ffz_from.simps [of bm n i] Suc_le_eq) (metis le_neq_implies_less)+
  next
    case False
    then show ?thesis
      by (auto simp: ffz_from.simps [of bm n i] min_def)
  qed
qed

lemma ffz_le [simp]: "find_first_zero_bit bm n \<le> n"
  using ffz_from_props [of bm n 0] by (simp add: find_first_zero_bit_def)

lemma ffz_clear: "find_first_zero_bit bm n < n \<Longrightarrow> \<not> bm (find_first_zero_bit bm n)"
  using ffz_from_props [of bm n 0] by (simp add: find_first_zero_bit_def)

lemma ffz_below: "j < find_first_zero_bit bm n \<Longrightarrow> bm j"
  using ffz_from_props [of bm n 0] by (auto simp: find_first_zero_bit_def)

lemma ffz_full_iff: "find_first_zero_bit bm n = n \<longleftrightarrow> (\<forall>j<n. bm j)"
  by (metis ffz_below ffz_clear ffz_le le_neq_implies_less)

lemma ffz_exists: "k < n \<Longrightarrow> \<not> bm k \<Longrightarrow> find_first_zero_bit bm n < n"
  by (metis ffz_full_iff ffz_le le_neq_implies_less)

end
