(* ===== verification/Qdf_Parse.thy ===== *)
theory Qdf_Parse
  imports Kernel_Prelude
begin

text \<open>
  The string parsers of the WLAN host driver, \<open>qdf/src/qdf_types.c\<close>: integers in four radices,
  booleans, MAC, IPv4 and IPv6 addresses and comma separated integer arrays.

  A \<open>const char **\<close> cursor is a position in the string it points into. The \<open>qdf_consume_*\<close>
  functions return the cursor as they leave it and \<open>None\<close> for QDF_STATUS_E_FAILURE (the only error
  they have), \<open>Some\<close> of the parsed item for QDF_STATUS_SUCCESS. A function that writes its result
  through an out pointer on success only returns \<open>Inr\<close> of it; the array parsers, which fill the
  caller's array as they go, return status and memory.
\<close>

section \<open>The parsers\<close>

abbreviation byte_of :: "char \<Rightarrow> u8" where
  "byte_of c \<equiv> of_char c"

subsection \<open>Consuming one item\<close>

function qdf_str_left_trim :: "string \<Rightarrow> nat \<Rightarrow> nat" where
  "qdf_str_left_trim s p = (if is_space (str_at s p) then qdf_str_left_trim s (Suc p) else p)"
  by pat_completeness auto
termination
  by (relation "measure (\<lambda>(s, p). length s - p)")
    (auto intro!: diff_less_mono2 dest: is_space_in_range)

declare qdf_str_left_trim.simps [simp del]

definition qdf_consume_char :: "char \<Rightarrow> string \<Rightarrow> nat \<Rightarrow> nat \<times> unit option" where
  "qdf_consume_char c s p = (if str_at s p \<noteq> c then (p, None) else (Suc p, Some ()))"

definition qdf_consume_dec :: "string \<Rightarrow> nat \<Rightarrow> nat \<times> u8 option" where
  "qdf_consume_dec s p = (let c = byte_of (str_at s p) in
     if byte_of (CHR ''0'') \<le> c \<and> c \<le> byte_of (CHR ''9'')
     then (Suc p, Some (c - byte_of (CHR ''0'')))
     else (p, None))"

definition qdf_consume_hex :: "string \<Rightarrow> nat \<Rightarrow> nat \<times> u8 option" where
  "qdf_consume_hex s p = (let c = byte_of (str_at s p) in
     if byte_of (CHR ''0'') \<le> c \<and> c \<le> byte_of (CHR ''9'')
     then (Suc p, Some (c - byte_of (CHR ''0'')))
     else if byte_of (CHR ''a'') \<le> c \<and> c \<le> byte_of (CHR ''f'')
     then (Suc p, Some (c - byte_of (CHR ''a'') + 10))
     else if byte_of (CHR ''A'') \<le> c \<and> c \<le> byte_of (CHR ''F'')
     then (Suc p, Some (c - byte_of (CHR ''A'') + 10))
     else (p, None))"

text \<open>The loop of \<open>qdf_consume_octet_dec\<close>: at most \<open>n\<close> decimal digits; \<open>len\<close> and \<open>octet\<close> of the C code.\<close>

fun qdf_octet_loop :: "string \<Rightarrow> nat \<Rightarrow> nat \<Rightarrow> u8 \<Rightarrow> u16 \<Rightarrow> nat \<times> u8 \<times> u16" where
  "qdf_octet_loop s p 0 len octet = (p, len, octet)"
| "qdf_octet_loop s p (Suc n) len octet =
     (case qdf_consume_dec s p of
        (p', None) \<Rightarrow> (p', len, octet)
      | (p', Some digit) \<Rightarrow> qdf_octet_loop s p' n (len + 1) (octet * 10 + ucast digit))"

definition qdf_consume_octet_dec :: "string \<Rightarrow> nat \<Rightarrow> nat \<times> u8 option" where
  "qdf_consume_octet_dec s p =
     (let (p', len, octet) = qdf_octet_loop s p 3 0 0 in
      if len = 0 then (p', None)
      else if octet > 255 then (p' - unat len, None)
      else (p', Some (ucast octet)))"

definition qdf_consume_hex_pair :: "string \<Rightarrow> nat \<Rightarrow> nat \<times> u8 option" where
  "qdf_consume_hex_pair s p =
     (case qdf_consume_hex s p of
        (p1, None) \<Rightarrow> (p1, None)
      | (p1, Some hi) \<Rightarrow>
          (case qdf_consume_hex s p1 of
             (p2, None) \<Rightarrow> (p2 - 1, None)
           | (p2, Some low) \<Rightarrow> (p2, Some (push_bit 4 hi OR low))))"

fun qdf_hextet_loop :: "string \<Rightarrow> nat \<Rightarrow> nat \<Rightarrow> u8 \<Rightarrow> u16 \<Rightarrow> nat \<times> u8 \<times> u16" where
  "qdf_hextet_loop s p 0 len hextet = (p, len, hextet)"
| "qdf_hextet_loop s p (Suc n) len hextet =
     (case qdf_consume_hex s p of
        (p', None) \<Rightarrow> (p', len, hextet)
      | (p', Some digit) \<Rightarrow> qdf_hextet_loop s p' n (len + 1) (push_bit 4 hextet + ucast digit))"

definition qdf_consume_hextet :: "string \<Rightarrow> nat \<Rightarrow> nat \<times> u16 option" where
  "qdf_consume_hextet s p =
     (let (p', len, hextet) = qdf_hextet_loop s p 4 0 0 in
      if len = 0 then (p', None) else (p', Some hextet))"

definition qdf_consume_radix :: "string \<Rightarrow> nat \<Rightarrow> nat \<times> u8 option" where
  "qdf_consume_radix s p =
     (if str_at s p = CHR ''0'' then
        (if str_at s (Suc p) = CHR ''b'' then (p + 2, Some 2)
         else if str_at s (Suc p) = CHR ''o'' then (p + 2, Some 8)
         else if str_at s (Suc p) = CHR ''x'' then (p + 2, Some 16)
         else (p, Some 10))
      else if byte_of (CHR ''0'') \<le> byte_of (str_at s p) \<and> byte_of (str_at s p) \<le> byte_of (CHR ''9'')
        then (p, Some 10)
      else (p, None))"

subsection \<open>Integers\<close>

lemma consume_hex_Some_less:
  "qdf_consume_hex s p = (p', Some d) \<Longrightarrow> p' = Suc p \<and> p < length s"
  by (cases "p < length s")
    (auto simp: qdf_consume_hex_def Let_def str_at_beyond NUL_def split: if_splits)

text \<open>The digit loop of \<open>__qdf_int_parse_lazy\<close>; \<open>acc\<close> is the C variable \<open>value\<close>.\<close>

function qdf_digits_loop :: "string \<Rightarrow> nat \<Rightarrow> u8 \<Rightarrow> u64 \<Rightarrow> qdf_status + nat \<times> u64" where
  "qdf_digits_loop s p radix acc =
     (case qdf_consume_hex s p of
        (p', None) \<Rightarrow> Inr (p', acc)
      | (p', Some digit) \<Rightarrow>
          if radix \<le> digit then Inl QDF_STATUS_E_FAILURE
          else let nxt = acc * ucast radix + ucast digit in
            if nxt < acc then Inl QDF_STATUS_E_RANGE
            else qdf_digits_loop s p' radix nxt)"
  by pat_completeness auto
termination
  by (relation "measure (\<lambda>(s, p, radix, acc). length s - p)")
    (auto dest!: consume_hex_Some_less [OF sym] intro!: diff_less_mono2)

declare qdf_digits_loop.simps [simp del]

definition qdf_int_parse_lazy :: "string \<Rightarrow> nat \<Rightarrow> qdf_status + nat \<times> u64 \<times> bool" where
  "qdf_int_parse_lazy s p0 =
     (let p1 = qdf_str_left_trim s p0;
          (p2, minus) = qdf_consume_char (CHR ''-'') s p1;
          negate = (minus \<noteq> None);
          p3 = (if negate then p2 else fst (qdf_consume_char (CHR ''+'') s p2))
      in case qdf_consume_radix s p3 of
           (_, None) \<Rightarrow> Inl QDF_STATUS_E_FAILURE
         | (p4, Some radix) \<Rightarrow>
             (case qdf_digits_loop s p4 radix 0 of
                Inl e \<Rightarrow> Inl e
              | Inr (p5, v) \<Rightarrow> Inr (p5, v, negate)))"

definition qdf_int_parse :: "string option \<Rightarrow> bool \<Rightarrow> qdf_status + u64 \<times> bool" where
  "qdf_int_parse int_str out_ok =
     (case int_str of
        None \<Rightarrow> Inl QDF_STATUS_E_INVAL
      | Some s \<Rightarrow>
          if \<not> out_ok then Inl QDF_STATUS_E_INVAL
          else case qdf_int_parse_lazy s 0 of
              Inl e \<Rightarrow> Inl e
            | Inr (p, v, negate) \<Rightarrow>
                if str_at s (qdf_str_left_trim s p) \<noteq> NUL then Inl QDF_STATUS_E_FAILURE
                else Inr (v, negate))"

definition qdf_int64_parse :: "string option \<Rightarrow> qdf_status + s64" where
  "qdf_int64_parse int_str =
     (case qdf_int_parse int_str True of
        Inl e \<Rightarrow> Inl e
      | Inr (v, negate) \<Rightarrow>
          if negate then
            (let sv = - v in if sint sv > 0 then Inl QDF_STATUS_E_RANGE else Inr sv)
          else
            (if sint v < 0 then Inl QDF_STATUS_E_RANGE else Inr v))"

definition qdf_uint64_parse :: "string option \<Rightarrow> qdf_status + u64" where
  "qdf_uint64_parse int_str =
     (case qdf_int_parse int_str True of
        Inl e \<Rightarrow> Inl e
      | Inr (v, negate) \<Rightarrow> if negate then Inl QDF_STATUS_E_RANGE else Inr v)"

definition qdf_int32_parse :: "string option \<Rightarrow> qdf_status + s32" where
  "qdf_int32_parse int_str =
     (case qdf_int64_parse int_str of
        Inl e \<Rightarrow> Inl e
      | Inr v \<Rightarrow> if scast (scast v :: s32) \<noteq> v then Inl QDF_STATUS_E_RANGE else Inr (scast v))"

definition qdf_uint32_parse :: "string option \<Rightarrow> qdf_status + u32" where
  "qdf_uint32_parse int_str =
     (case qdf_uint64_parse int_str of
        Inl e \<Rightarrow> Inl e
      | Inr v \<Rightarrow> if ucast (ucast v :: u32) \<noteq> v then Inl QDF_STATUS_E_RANGE else Inr (ucast v))"

definition qdf_uint16_parse :: "string option \<Rightarrow> qdf_status + u16" where
  "qdf_uint16_parse int_str =
     (case qdf_uint64_parse int_str of
        Inl e \<Rightarrow> Inl e
      | Inr v \<Rightarrow> if ucast (ucast v :: u16) \<noteq> v then Inl QDF_STATUS_E_RANGE else Inr (ucast v))"

definition qdf_uint8_parse :: "string option \<Rightarrow> qdf_status + u8" where
  "qdf_uint8_parse int_str =
     (case qdf_uint64_parse int_str of
        Inl e \<Rightarrow> Inl e
      | Inr v \<Rightarrow> if ucast (ucast v :: u8) \<noteq> v then Inl QDF_STATUS_E_RANGE else Inr (ucast v))"

definition qdf_bool_parse :: "string option \<Rightarrow> bool \<Rightarrow> qdf_status + bool" where
  "qdf_bool_parse bool_str out_ok =
     (case bool_str of
        None \<Rightarrow> Inl QDF_STATUS_E_INVAL
      | Some s \<Rightarrow>
          if \<not> out_ok then Inl QDF_STATUS_E_INVAL
          else let p = qdf_str_left_trim s 0; c = str_at s p in
            if c \<in> {CHR ''1'', CHR ''y'', CHR ''Y''} then
              (if str_at s (qdf_str_left_trim s (Suc p)) \<noteq> NUL then Inl QDF_STATUS_E_FAILURE
               else Inr True)
            else if c \<in> {CHR ''0'', CHR ''n'', CHR ''N''} then
              (if str_at s (qdf_str_left_trim s (Suc p)) \<noteq> NUL then Inl QDF_STATUS_E_FAILURE
               else Inr False)
            else Inl QDF_STATUS_E_FAILURE)"

subsection \<open>Addresses\<close>

text \<open>
  The parsers fill an uninitialised local \<open>addr\<close> first and copy it out at the end: \<open>addr\<close> is an
  argument here, the unspecified contents of that local.
\<close>

definition QDF_MAC_ADDR_SIZE :: nat where "QDF_MAC_ADDR_SIZE = 6"

definition QDF_IPV4_ADDR_SIZE :: nat where "QDF_IPV4_ADDR_SIZE = 4"

definition QDF_IPV6_ADDR_HEXTET_COUNT :: nat where "QDF_IPV6_ADDR_HEXTET_COUNT = 8"

function qdf_mac_loop :: "string \<Rightarrow> nat \<Rightarrow> bool \<Rightarrow> nat \<Rightarrow> u8 list \<Rightarrow> (nat \<times> u8 list) option" where
  "qdf_mac_loop s p colons i addr =
     (if i < QDF_MAC_ADDR_SIZE then
        (let (p1, sep) = (if colons then qdf_consume_char (CHR '':'') s p else (p, Some ())) in
         case sep of
           None \<Rightarrow> None
         | Some _ \<Rightarrow>
             (case qdf_consume_hex_pair s p1 of
                (_, None) \<Rightarrow> None
              | (p2, Some b) \<Rightarrow> qdf_mac_loop s p2 colons (Suc i) (addr[i := b])))
      else Some (p, addr))"
  by pat_completeness auto
termination
  by (relation "measure (\<lambda>(s, p, colons, i, addr). QDF_MAC_ADDR_SIZE - i)") auto

declare qdf_mac_loop.simps [simp del]

definition qdf_mac_parse :: "u8 list \<Rightarrow> string option \<Rightarrow> bool \<Rightarrow> qdf_status + u8 list" where
  "qdf_mac_parse addr mac_str out_ok =
     (case mac_str of
        None \<Rightarrow> Inl QDF_STATUS_E_INVAL
      | Some s \<Rightarrow>
          if \<not> out_ok then Inl QDF_STATUS_E_INVAL
          else case qdf_consume_hex_pair s (qdf_str_left_trim s 0) of
              (_, None) \<Rightarrow> Inl QDF_STATUS_E_FAILURE
            | (p, Some b) \<Rightarrow>
                (case qdf_mac_loop s p (str_at s p = CHR '':'') 1 (addr[0 := b]) of
                   None \<Rightarrow> Inl QDF_STATUS_E_FAILURE
                 | Some (p', addr') \<Rightarrow>
                     if str_at s (qdf_str_left_trim s p') \<noteq> NUL then Inl QDF_STATUS_E_FAILURE
                     else Inr addr'))"

function qdf_ipv4_loop :: "string \<Rightarrow> nat \<Rightarrow> nat \<Rightarrow> u8 list \<Rightarrow> (nat \<times> u8 list) option" where
  "qdf_ipv4_loop s p i addr =
     (if i < QDF_IPV4_ADDR_SIZE then
        (case qdf_consume_char (CHR ''.'') s p of
           (_, None) \<Rightarrow> None
         | (p1, Some _) \<Rightarrow>
             (case qdf_consume_octet_dec s p1 of
                (_, None) \<Rightarrow> None
              | (p2, Some b) \<Rightarrow> qdf_ipv4_loop s p2 (Suc i) (addr[i := b])))
      else Some (p, addr))"
  by pat_completeness auto
termination
  by (relation "measure (\<lambda>(s, p, i, addr). QDF_IPV4_ADDR_SIZE - i)") auto

declare qdf_ipv4_loop.simps [simp del]

definition qdf_ipv4_parse :: "u8 list \<Rightarrow> string option \<Rightarrow> bool \<Rightarrow> qdf_status + u8 list" where
  "qdf_ipv4_parse addr ipv4_str out_ok =
     (case ipv4_str of
        None \<Rightarrow> Inl QDF_STATUS_E_INVAL
      | Some s \<Rightarrow>
          if \<not> out_ok then Inl QDF_STATUS_E_INVAL
          else case qdf_consume_octet_dec s (qdf_str_left_trim s 0) of
              (_, None) \<Rightarrow> Inl QDF_STATUS_E_FAILURE
            | (p, Some b) \<Rightarrow>
                (case qdf_ipv4_loop s p 1 (addr[0 := b]) of
                   None \<Rightarrow> Inl QDF_STATUS_E_FAILURE
                 | Some (p', addr') \<Rightarrow>
                     if str_at s (qdf_str_left_trim s p') \<noteq> NUL then Inl QDF_STATUS_E_FAILURE
                     else Inr addr'))"

definition qdf_ipv6_apply_zero_comp :: "u8 list \<Rightarrow> nat \<Rightarrow> nat \<Rightarrow> u8 list" where
  "qdf_ipv6_apply_zero_comp addr hextets zero_comp_index =
     (let zero_comp_size = (QDF_IPV6_ADDR_HEXTET_COUNT - hextets) * 2;
          bytes_to_move = (hextets - zero_comp_index) * 2;
          frm = zero_comp_index * 2;
          to = frm + zero_comp_size;
          addr1 = (if bytes_to_move \<noteq> 0 then mem_move addr to frm bytes_to_move else addr)
      in mem_fill 0 addr1 frm (to - frm))"

text \<open>
  The loop of \<open>qdf_ipv6_parse\<close>: \<open>zero_comp\<close> is the int8 of the C code (\<open>-1\<close> for none), \<open>found\<close>
  its \<open>hextets_found\<close>.
\<close>

function qdf_ipv6_loop ::
  "string \<Rightarrow> nat \<Rightarrow> u8 list \<Rightarrow> int \<Rightarrow> nat \<Rightarrow> (nat \<times> u8 list \<times> int \<times> nat) option" where
  "qdf_ipv6_loop s p addr zero_comp found =
     (if found < QDF_IPV6_ADDR_HEXTET_COUNT then
        (case qdf_consume_hextet s p of
           (p1, None) \<Rightarrow>
             if int found \<noteq> zero_comp then None else Some (p1, addr, zero_comp, found)
         | (p1, Some hextet) \<Rightarrow>
             (let addr' = addr[found * 2 := ucast (drop_bit 8 hextet), found * 2 + 1 := ucast hextet];
                  found' = found + 1
              in case qdf_consume_char (CHR '':'') s p1 of
                   (p2, None) \<Rightarrow> Some (p2, addr', zero_comp, found')
                 | (p2, Some _) \<Rightarrow>
                     (case qdf_consume_char (CHR '':'') s p2 of
                        (p3, None) \<Rightarrow> qdf_ipv6_loop s p3 addr' zero_comp found'
                      | (p3, Some _) \<Rightarrow>
                          if 0 \<le> zero_comp then None
                          else qdf_ipv6_loop s p3 addr' (int found') found')))
      else Some (p, addr, zero_comp, found))"
  by pat_completeness auto
termination
  by (relation "measure (\<lambda>(s, p, addr, zero_comp, found). QDF_IPV6_ADDR_HEXTET_COUNT - found)") auto

declare qdf_ipv6_loop.simps [simp del]

definition qdf_ipv6_parse :: "u8 list \<Rightarrow> string option \<Rightarrow> bool \<Rightarrow> qdf_status + u8 list" where
  "qdf_ipv6_parse addr ipv6_str out_ok =
     (case ipv6_str of
        None \<Rightarrow> Inl QDF_STATUS_E_INVAL
      | Some s \<Rightarrow>
          if \<not> out_ok then Inl QDF_STATUS_E_INVAL
          else let p = qdf_str_left_trim s 0;
                 (p1, colon1) = qdf_consume_char (CHR '':'') s p;
                 (p2, colon2) = qdf_consume_char (CHR '':'') s p1
            in if colon1 \<noteq> None \<and> colon2 = None then Inl QDF_STATUS_E_FAILURE
               else case qdf_ipv6_loop s (if colon1 = None then p else p2) addr
                           (if colon1 = None then - 1 else 0) 0 of
                   None \<Rightarrow> Inl QDF_STATUS_E_FAILURE
                 | Some (q, addr', zero_comp, found) \<Rightarrow>
                     if str_at s (qdf_str_left_trim s q) \<noteq> NUL then Inl QDF_STATUS_E_FAILURE
                     else if found < QDF_IPV6_ADDR_HEXTET_COUNT then
                       (if zero_comp < 0 then Inl QDF_STATUS_E_FAILURE
                        else Inr (qdf_ipv6_apply_zero_comp addr' found (nat zero_comp)))
                     else if - 1 < zero_comp then Inl QDF_STATUS_E_FAILURE
                     else Inr addr')"

subsection \<open>Integer arrays\<close>

text \<open>
  \<open>n\<close> is the C variable \<open>size\<close>. The state of an array parser is the caller's array and the caller's size variable. A separator
  other than a comma or the end fails; so does an array that is full before the end.
\<close>

function qdf_int32_array_loop ::
  "string \<Rightarrow> nat \<Rightarrow> s32 list \<Rightarrow> nat \<Rightarrow> nat \<Rightarrow> nat \<Rightarrow> qdf_status \<times> s32 list \<times> nat" where
  "qdf_int32_array_loop s p out n array_size out_size =
     (if n < array_size then
        (case qdf_int_parse_lazy s p of
           Inl e \<Rightarrow> (e, out, out_size)
         | Inr (p1, v, negate) \<Rightarrow>
             (let signed_value = (if negate then - v else v);
                  p2 = qdf_str_left_trim s p1
              in if (if negate then 0 < sint signed_value else sint signed_value < 0)
                 then (QDF_STATUS_E_RANGE, out, out_size)
                 else if str_at s p2 = CHR '','' then
                   qdf_int32_array_loop s (Suc p2) (out[n := scast signed_value]) (Suc n)
                     array_size out_size
                 else if str_at s p2 = NUL then
                   (QDF_STATUS_SUCCESS, out[n := scast signed_value], Suc n)
                 else (QDF_STATUS_E_FAILURE, out, out_size)))
      else (QDF_STATUS_E_FAILURE, out, out_size))"
  by pat_completeness auto
termination
  by (relation "measure (\<lambda>(s, p, out, n, array_size, out_size). array_size - n)") auto

declare qdf_int32_array_loop.simps [simp del]

definition qdf_int32_array_parse ::
  "string option \<Rightarrow> s32 list option \<Rightarrow> nat \<Rightarrow> nat option \<Rightarrow> qdf_status \<times> s32 list option \<times> nat option" where
  "qdf_int32_array_parse in_str out array_size out_size =
     (case (in_str, out, out_size) of
        (Some s, Some xs, Some k) \<Rightarrow>
          (let (st, xs', k') = qdf_int32_array_loop s 0 xs 0 array_size k
           in (st, Some xs', Some k'))
      | _ \<Rightarrow> (QDF_STATUS_E_INVAL, out, out_size))"

text \<open>
  The three unsigned parsers have one text but for the element type: the loop is stated once, for
  any width, and instantiated at the three types.
\<close>

function qdf_uint_array_loop ::
  "string \<Rightarrow> nat \<Rightarrow> 'a::len word list \<Rightarrow> nat \<Rightarrow> nat \<Rightarrow> nat \<Rightarrow> qdf_status \<times> 'a word list \<times> nat" where
  "qdf_uint_array_loop s p out n array_size out_size =
     (if n < array_size then
        (case qdf_int_parse_lazy s p of
           Inl e \<Rightarrow> (e, out, out_size)
         | Inr (p1, v, negate) \<Rightarrow>
             (let p2 = qdf_str_left_trim s p1
              in if ucast (ucast v :: 'a word) \<noteq> v \<or> negate then (QDF_STATUS_E_RANGE, out, out_size)
                 else if str_at s p2 = CHR '','' then
                   qdf_uint_array_loop s (Suc p2) (out[n := ucast v]) (Suc n)
                     array_size out_size
                 else if str_at s p2 = NUL then
                   (QDF_STATUS_SUCCESS, out[n := ucast v], Suc n)
                 else (QDF_STATUS_E_FAILURE, out, out_size)))
      else (QDF_STATUS_E_FAILURE, out, out_size))"
  by pat_completeness auto
termination
  by (relation "measure (\<lambda>(s, p, out, n, array_size, out_size). array_size - n)") auto

declare qdf_uint_array_loop.simps [simp del]

definition qdf_uint32_array_parse ::
  "string option \<Rightarrow> u32 list option \<Rightarrow> nat \<Rightarrow> nat option \<Rightarrow> qdf_status \<times> u32 list option \<times> nat option" where
  "qdf_uint32_array_parse in_str out array_size out_size =
     (case (in_str, out, out_size) of
        (Some s, Some xs, Some k) \<Rightarrow>
          (let (st, xs', k') = qdf_uint_array_loop s 0 xs 0 array_size k
           in (st, Some xs', Some k'))
      | _ \<Rightarrow> (QDF_STATUS_E_INVAL, out, out_size))"

definition qdf_uint16_array_parse ::
  "string option \<Rightarrow> u16 list option \<Rightarrow> nat \<Rightarrow> nat option \<Rightarrow> qdf_status \<times> u16 list option \<times> nat option" where
  "qdf_uint16_array_parse in_str out array_size out_size =
     (case (in_str, out, out_size) of
        (Some s, Some xs, Some k) \<Rightarrow>
          (let (st, xs', k') = qdf_uint_array_loop s 0 xs 0 array_size k
           in (st, Some xs', Some k'))
      | _ \<Rightarrow> (QDF_STATUS_E_INVAL, out, out_size))"

definition qdf_uint8_array_parse ::
  "string option \<Rightarrow> u8 list option \<Rightarrow> nat \<Rightarrow> nat option \<Rightarrow> qdf_status \<times> u8 list option \<times> nat option" where
  "qdf_uint8_array_parse in_str out array_size out_size =
     (case (in_str, out, out_size) of
        (Some s, Some xs, Some k) \<Rightarrow>
          (let (st, xs', k') = qdf_uint_array_loop s 0 xs 0 array_size k
           in (st, Some xs', Some k'))
      | _ \<Rightarrow> (QDF_STATUS_E_INVAL, out, out_size))"

end
