(* ===== verification/Qdf_Ini.thy ===== *)
theory Qdf_Ini
  imports Qdf_Parse
begin

text \<open>
  The ini parser of the WLAN host driver, \<open>wlan/qca-wifi-host-cmn/qdf/src/qdf_parse.c\<close>.

  The parser works in place: it ends keys, values and section names by writing terminators into the file's buffer,
  and hands out pointers into it. The buffer is a list of characters, a pointer a position, the C string at
  a position the characters before the next terminator (\<open>c_str\<close>); behind the list there is one.
\<close>

section \<open>Strings in a buffer\<close>

definition c_str :: "string \<Rightarrow> nat \<Rightarrow> string" where
  "c_str b p = takeWhile (\<lambda>c. c \<noteq> NUL) (drop p b)"

text \<open>
  \<open>qdf_str_trim\<close> is the kernel's \<open>strim\<close>: the string that starts at the position, however long it is, loses
  its trailing white space by a terminator; the result is the position behind the leading white space.
\<close>

fun trim_end :: "string \<Rightarrow> nat \<Rightarrow> nat" where
  "trim_end s 0 = 0"
| "trim_end s (Suc n) = (if is_space (s ! n) then trim_end s n else Suc n)"

definition qdf_str_trim :: "string \<Rightarrow> nat \<Rightarrow> string \<times> nat" where
  "qdf_str_trim b p =
     (let s = c_str b p in
      if s = [] then (b, p)
      else let b' = b[p + trim_end s (length s) := NUL] in (b', qdf_str_left_trim b' p))"

lemma trim_length [simp]: "length (fst (qdf_str_trim b p)) = length b"
  by (simp add: qdf_str_trim_def Let_def)

section \<open>Lines\<close>

definition CR :: char where "CR = CHR 0x0D"
definition LF :: char where "LF = CHR 0x0A"

text \<open>
  The scan of a line, from a position, with the value found so far and whether a comment has started. The value is
  trimmed when its \<open>=\<close> is met, before the end of the line has been found.
\<close>

function ini_line_loop :: "string \<Rightarrow> nat \<Rightarrow> nat option \<Rightarrow> bool \<Rightarrow> string \<times> nat \<times> nat option" where
  "ini_line_loop b p val_pos comment =
     (let c = str_at b p in
      if c = CR \<or> c = LF then (b[p := NUL], Suc p, val_pos)
      else if c = NUL then (b, p, val_pos)
      else if c = CHR ''='' then
        (if val_pos = None \<and> \<not> comment
         then let (b1, v) = qdf_str_trim b (Suc p) in ini_line_loop (b1[p := NUL]) (Suc p) (Some v) comment
         else ini_line_loop b (Suc p) val_pos comment)
      else if c = CHR ''#'' then ini_line_loop (b[p := NUL]) (Suc p) val_pos True
      else ini_line_loop b (Suc p) val_pos comment)"
  by pat_completeness auto
termination
proof (relation "measure (\<lambda>(b, p, _). length b - p)", simp_all, goal_cases)
  case (1 b p)
  then have "p < length b" using str_at_not_NUL by blast
  moreover have "length (fst (qdf_str_trim b (Suc p))) = length b" by simp
  ultimately show ?case using 1 by (metis diff_less_mono2 fst_conv lessI)
qed (use str_at_not_NUL in \<open>blast intro: diff_less_mono2\<close>)+

declare ini_line_loop.simps [simp del]

lemma line_loop_progress:
  "ini_line_loop b p val_pos comment = (b', q, val_pos') \<Longrightarrow> length b' = length b \<and> p \<le> q \<and> (str_at b p \<noteq> NUL \<longrightarrow> p < q)"
proof (induction b p val_pos comment arbitrary: b' q val_pos' rule: ini_line_loop.induct)
  case (1 b p v cm)
  let ?c = "str_at b p"
  consider "?c = CR \<or> ?c = LF \<or> ?c = NUL" | (val) "\<not> (?c = CR \<or> ?c = LF)" "?c \<noteq> NUL" "?c = CHR ''=''" "v = None \<and> \<not> cm"
    | (eq) "\<not> (?c = CR \<or> ?c = LF)" "?c \<noteq> NUL" "?c = CHR ''=''" "\<not> (v = None \<and> \<not> cm)"
    | (hash) "\<not> (?c = CR \<or> ?c = LF)" "?c \<noteq> NUL" "?c \<noteq> CHR ''=''" "?c = CHR ''#''"
    | (other) "\<not> (?c = CR \<or> ?c = LF)" "?c \<noteq> NUL" "?c \<noteq> CHR ''=''" "?c \<noteq> CHR ''#''"
    by blast
  then show ?case
  proof cases
    case val
    obtain b1 w where t: "qdf_str_trim b (Suc p) = (b1, w)" by fastforce
    have "ini_line_loop (b1[p := NUL]) (Suc p) (Some w) cm = (b', q, val_pos')"
      using 1(5) val t by (subst (asm) ini_line_loop.simps) simp
    from 1(1) [OF refl val(1-4) t [symmetric] refl this] show ?thesis
      using trim_length [of b "Suc p"] t by simp
  next
    case eq
    have no: "(v = None \<and> \<not> cm) = False" using eq(4) by blast
    have "ini_line_loop b (Suc p) v cm = (b', q, val_pos')"
      using 1(5) by (subst (asm) ini_line_loop.simps) (simp add: Let_def eq(3) no CR_def LF_def NUL_def)
    from 1(2) [OF refl eq this] show ?thesis by simp
  next
    case hash
    have "ini_line_loop (b[p := NUL]) (Suc p) v True = (b', q, val_pos')" using 1(5) hash by (subst (asm) ini_line_loop.simps) simp
    from 1(3) [OF refl hash this] show ?thesis by simp
  next
    case other
    have "ini_line_loop b (Suc p) v cm = (b', q, val_pos')" using 1(5) other by (subst (asm) ini_line_loop.simps) simp
    from 1(4) [OF refl other this] show ?thesis by simp
  qed (use 1(5) in \<open>auto simp: ini_line_loop.simps [of b p v cm] Let_def split: if_splits\<close>)
qed

text \<open>What a line holds: positions of key and value, or of a section's name, or the end mark.\<close>

datatype ini_read = INI_ITEM nat nat | INI_SECTION nat | INI_END nat

function skip_eol :: "string \<Rightarrow> nat \<Rightarrow> nat" where
  "skip_eol b p = (if str_at b p = LF \<or> str_at b p = CR then skip_eol b (Suc p) else p)"
  by pat_completeness auto
termination
  by (relation "measure (\<lambda>(b, p). length b - p)")
    (auto simp: CR_def LF_def NUL_def intro!: diff_less_mono2 str_at_not_NUL)

declare skip_eol.simps [simp del]

lemma skip_eol_le: "p \<le> skip_eol b p"
  by (induction b p rule: skip_eol.induct) (subst skip_eol.simps, auto dest: Suc_leD)

text \<open>
  One call of \<open>qdf_ini_read_values\<close>: lines are scanned until one holds something. The cursor is moved only
  on success.
\<close>

function ini_values_loop :: "string \<Rightarrow> nat \<Rightarrow> string \<times> (qdf_status + nat \<times> ini_read)" where
  "ini_values_loop b p =
     (if str_at b p = NUL then (b, Inl QDF_STATUS_E_FAILURE)
      else
        let (b1, q, val_pos) = ini_line_loop b p None False; (b2, key) = qdf_str_trim b1 p in
        case val_pos of
          Some v \<Rightarrow> (b2, Inr (q, INI_ITEM key v))
        | None \<Rightarrow>
            if str_at b2 key = CHR ''[''
            then
              let len = length (c_str b2 key) in
              if str_at b2 (key + len - 1) \<noteq> CHR '']'' then (b2, Inl QDF_STATUS_E_INVAL)
              else (b2[key + len - 1 := NUL], Inr (q, INI_SECTION (Suc key)))
            else if str_at b2 key \<noteq> NUL
            then
              if c_str b2 key = ''END'' then (b2[key + 3 := NUL], Inr (q, INI_END key))
              else (b2, Inl QDF_STATUS_E_INVAL)
            else ini_values_loop b2 (skip_eol b2 q))"
  by pat_completeness auto
termination
proof (relation "measure (\<lambda>(b, p). length b - p)", simp, goal_cases)
  case (1 b p l b1 x q val_pos t b2 key)
  have l: "ini_line_loop b p None False = (b1, q, val_pos)" using 1(2-4) by simp
  have "length b1 = length b" "p < q" using line_loop_progress [OF l] 1(1) by auto
  moreover have "length b2 = length b1" using trim_length [of b1 p] 1(5,6) by (metis fst_conv)
  moreover have "q \<le> skip_eol b2 q" by (rule skip_eol_le)
  moreover have "p < length b" using str_at_not_NUL [OF 1(1)] .
  ultimately show ?case by simp
qed

declare ini_values_loop.simps [simp del]

definition qdf_ini_read_values :: "string \<Rightarrow> nat \<Rightarrow> string \<times> nat \<times> (qdf_status + ini_read)" where
  "qdf_ini_read_values b main_cursor =
     (case ini_values_loop b main_cursor of
        (b', Inl st) \<Rightarrow> (b', main_cursor, Inl st)
      | (b', Inr (q, r)) \<Rightarrow> (b', q, Inr r))"

lemma values_loop_progress:
  "ini_values_loop b p = (b', Inr (q, r)) \<Longrightarrow> length b' = length b \<and> p < q \<and> p < length b"
proof (induction b p rule: ini_values_loop.induct)
  case (1 b p)
  obtain b1 e v where l: "ini_line_loop b p None False = (b1, e, v)" using prod_cases3 by blast
  obtain b2 k where t: "qdf_str_trim b1 p = (b2, k)" by fastforce
  note eqs = 1(2) [unfolded ini_values_loop.simps [of b p] l t Let_def prod.case]
  have c: "str_at b p \<noteq> NUL" using eqs by (auto split: if_splits)
  have len: "length b2 = length b" "p < e" "p < length b"
    using line_loop_progress [OF l] trim_length [of b1 p] t c str_at_not_NUL [OF c] by simp_all
  show ?case
  proof (cases "v = None \<and> str_at b2 k \<noteq> CHR ''['' \<and> str_at b2 k = NUL")
    case True
    then have v: "v = None" and k: "str_at b2 k = NUL" by simp_all
    have "ini_values_loop b2 (skip_eol b2 e) = (b', Inr (q, r))" using eqs c v k True by (simp add: NUL_def)
    from 1(1) [OF c l [symmetric] refl refl t [symmetric] refl v _ _ this] True len skip_eol_le [of e b2]
    show ?thesis by (simp add: NUL_def)
  next
    case False
    then show ?thesis using eqs c len by (auto split: if_splits option.splits)
  qed
qed

lemma read_values_progress:
  "qdf_ini_read_values b p = (b', q, Inr r) \<Longrightarrow> length b' = length b \<and> p < q \<and> p < length b"
  by (auto simp: qdf_ini_read_values_def dest: values_loop_progress split: prod.splits sum.splits)

section \<open>The file\<close>

text \<open>
  The handler of items and the handler of the raw buffer work on a state of their own. \<open>stop_at_section\<close> is how the driver was
  configured: whether a section header ends the reading of a file or is passed over. The handler for
  section headers that callers give is not called anywhere. The count of items is an \<open>int\<close>; no
  file has so many lines.
\<close>

type_synonym 's item_cb = "'s \<Rightarrow> string \<Rightarrow> string \<Rightarrow> 's \<times> qdf_status"

function ini_parse_loop :: "'s item_cb \<Rightarrow> bool \<Rightarrow> string \<Rightarrow> nat \<Rightarrow> 's \<Rightarrow> nat \<Rightarrow> 's \<times> nat" where
  "ini_parse_loop item_cb stop_at_section b cursor s n =
     (case qdf_ini_read_values b cursor of
        (_, _, Inl _) \<Rightarrow> (s, n)
      | (b', q, Inr r) \<Rightarrow>
          (case r of
             INI_END _ \<Rightarrow> (s, n)
           | INI_ITEM k v \<Rightarrow>
               if c_str b' k = ''END'' then (s, n)
               else
                 (case item_cb s (c_str b' k) (c_str b' v) of
                    (s', st) \<Rightarrow>
                      if st \<noteq> QDF_STATUS_SUCCESS then (s', n)
                      else ini_parse_loop item_cb stop_at_section b' q s' (Suc n))
           | INI_SECTION k \<Rightarrow>
               if c_str b' k = ''END'' \<or> stop_at_section then (s, n)
               else ini_parse_loop item_cb stop_at_section b' q s n))"
  by pat_completeness auto
termination
  by (relation "measure (\<lambda>(_, _, b, p, _, _). length b - p)")
    (auto dest!: read_values_progress sym [of _ "qdf_ini_read_values _ _"] intro: diff_less_mono2)

declare ini_parse_loop.simps [simp del]

text \<open>
  The file is read by the kernel's firmware loader; memory for a copy of it is allocated or not. The copy has one byte more than the
  file, for a terminator, and that is the size given back, an \<open>unsigned int\<close>. The file of the module's parameters is read into memory
  of another kind and without a size.
\<close>

definition qdf_file_read :: "bool \<Rightarrow> string option \<Rightarrow> qdf_status + string \<times> u32" where
  "qdf_file_read mem fw =
     (case fw of
        None \<Rightarrow> Inl QDF_STATUS_E_FAILURE
      | Some data \<Rightarrow> if \<not> mem then Inl QDF_STATUS_E_NOMEM else Inr (data, of_nat (length data) + 1))"

definition qdf_module_param_file_read :: "bool \<Rightarrow> string option \<Rightarrow> qdf_status + string" where
  "qdf_module_param_file_read mem fw =
     (case fw of
        None \<Rightarrow> Inl QDF_STATUS_E_FAILURE
      | Some data \<Rightarrow> if \<not> mem then Inl QDF_STATUS_E_NOMEM else Inr data)"

text \<open>How each parser opens its file.\<close>

definition ini_file_read :: "bool \<Rightarrow> bool \<Rightarrow> string option \<Rightarrow> qdf_status + string" where
  "ini_file_read module_params mem fw =
     (if module_params then qdf_module_param_file_read mem fw
      else (case qdf_file_read mem fw of Inl st \<Rightarrow> Inl st | Inr (b, _) \<Rightarrow> Inr b))"

text \<open>The raw buffer is handed out with its size before it is parsed, unless it is the one of the module's parameters.\<close>

definition qdf_ini_parse ::
    "bool \<Rightarrow> bool \<Rightarrow> bool \<Rightarrow> string option \<Rightarrow> 's item_cb \<Rightarrow> ('s \<Rightarrow> string \<Rightarrow> u32 \<Rightarrow> 's) option \<Rightarrow> 's \<Rightarrow> 's \<times> qdf_status" where
  "qdf_ini_parse stop_at_section module_params mem fw item_cb ini_buf_cb s =
     (let s1 =
        (if module_params then s
         else
           case (ini_buf_cb, qdf_file_read mem fw) of
             (Some f, Inr (b, sz)) \<Rightarrow> f s b sz
           | _ \<Rightarrow> s) in
      case ini_file_read module_params mem fw of
        Inl st \<Rightarrow> (s1, st)
      | Inr b \<Rightarrow>
          (case ini_parse_loop item_cb stop_at_section b 0 s1 0 of
             (s2, n) \<Rightarrow> (s2, if n \<noteq> 0 then QDF_STATUS_SUCCESS else QDF_STATUS_E_INVAL)))"

text \<open>The items of one section. The outcome is success whatever was found.\<close>

function ini_section_loop ::
    "'s item_cb \<Rightarrow> string \<Rightarrow> bool \<Rightarrow> bool \<Rightarrow> string \<Rightarrow> nat \<Rightarrow> 's \<Rightarrow> 's" where
  "ini_section_loop item_cb section_name section_found section_complete b cursor s =
     (case qdf_ini_read_values b cursor of
        (_, _, Inl _) \<Rightarrow> s
      | (b', q, Inr r) \<Rightarrow>
          (case r of
             INI_END _ \<Rightarrow> s
           | INI_SECTION k \<Rightarrow>
               if c_str b' k = ''END'' then s
               else if c_str b' k = section_name
               then ini_section_loop item_cb section_name True False b' q s
               else ini_section_loop item_cb section_name False (section_complete \<or> section_found) b' q s
           | INI_ITEM k v \<Rightarrow>
               if c_str b' k = ''END'' then s
               else if section_found
               then
                 (case item_cb s (c_str b' k) (c_str b' v) of
                    (s', st) \<Rightarrow>
                      if st \<noteq> QDF_STATUS_SUCCESS then s'
                      else ini_section_loop item_cb section_name section_found section_complete b' q s')
               else if section_complete then s
               else ini_section_loop item_cb section_name section_found section_complete b' q s))"
  by pat_completeness auto
termination
  by (relation "measure (\<lambda>(_, _, _, _, b, p, _). length b - p)")
    (auto dest!: read_values_progress sym [of _ "qdf_ini_read_values _ _"] intro: diff_less_mono2)

declare ini_section_loop.simps [simp del]

definition qdf_ini_section_parse ::
    "bool \<Rightarrow> bool \<Rightarrow> string option \<Rightarrow> 's item_cb \<Rightarrow> string \<Rightarrow> 's \<Rightarrow> 's \<times> qdf_status" where
  "qdf_ini_section_parse module_params mem fw item_cb section_name s =
     (case ini_file_read module_params mem fw of
        Inl st \<Rightarrow> (s, st)
      | Inr b \<Rightarrow> (ini_section_loop item_cb section_name False False b 0 s, QDF_STATUS_SUCCESS))"

section \<open>The check of a file\<close>

definition in_range :: "char \<Rightarrow> char \<Rightarrow> char \<Rightarrow> bool" where
  "in_range a z c \<longleftrightarrow> byte_of a \<le> byte_of c \<and> byte_of c \<le> byte_of z"

definition ascii_alnum :: "char \<Rightarrow> bool" where
  "ascii_alnum c \<longleftrightarrow> in_range (CHR ''a'') (CHR ''z'') c \<or> in_range (CHR ''A'') (CHR ''Z'') c \<or> in_range (CHR ''0'') (CHR ''9'') c"

definition qdf_validate_key :: "string \<Rightarrow> qdf_status" where
  "qdf_validate_key key =
     (if list_all (\<lambda>c. ascii_alnum c \<or> c = CHR ''_'') key then QDF_STATUS_SUCCESS else QDF_STATUS_E_INVAL)"

definition qdf_validate_value :: "string \<Rightarrow> qdf_status" where
  "qdf_validate_value val =
     (if list_all (\<lambda>c. ascii_alnum c \<or> c \<in> set '',:-+&|'') val then QDF_STATUS_SUCCESS else QDF_STATUS_E_INVAL)"

text \<open>The kernel's \<open>isalnum\<close>, with the letters of Latin-1.\<close>

definition kernel_isalnum :: "char \<Rightarrow> bool" where
  "kernel_isalnum c \<longleftrightarrow> ascii_alnum c \<or> byte_of c \<ge> 192 \<and> byte_of c \<noteq> 215 \<and> byte_of c \<noteq> 247"

definition ini_char_ok :: "char \<Rightarrow> bool" where
  "ini_char_ok c \<longleftrightarrow> c = CR \<or> c = LF \<or> c \<in> set ''=#][_- :,'' \<or> kernel_isalnum c"

function ini_check_loop :: "string \<Rightarrow> nat \<Rightarrow> bool" where
  "ini_check_loop b cursor =
     (case qdf_ini_read_values b cursor of
        (_, _, Inl st) \<Rightarrow> st = QDF_STATUS_E_FAILURE
      | (b', q, Inr r) \<Rightarrow>
          (case r of
             INI_SECTION _ \<Rightarrow> ini_check_loop b' q
           | INI_END _ \<Rightarrow> True
           | INI_ITEM k v \<Rightarrow>
               if c_str b' k = ''END'' then True
               else if qdf_validate_key (c_str b' k) \<noteq> QDF_STATUS_SUCCESS then False
               else if qdf_validate_value (c_str b' v) \<noteq> QDF_STATUS_SUCCESS then False
               else ini_check_loop b' q))"
  by pat_completeness auto
termination
  by (relation "measure (\<lambda>(b, p). length b - p)")
    (auto dest!: read_values_progress sym [of _ "qdf_ini_read_values _ _"] intro: diff_less_mono2)

declare ini_check_loop.simps [simp del]

definition qdf_check_ini_validity :: "string \<Rightarrow> nat \<Rightarrow> bool" where
  "qdf_check_ini_validity b main_cursor \<longleftrightarrow>
     list_all ini_char_ok (c_str b main_cursor) \<and> ini_check_loop b main_cursor"

definition qdf_valid_ini_check :: "bool \<Rightarrow> bool \<Rightarrow> string option \<Rightarrow> bool" where
  "qdf_valid_ini_check module_params mem fw =
     (case ini_file_read module_params mem fw of Inl _ \<Rightarrow> False | Inr b \<Rightarrow> qdf_check_ini_validity b 0)"

end
