(* ===== verification/Qdf_Ini_Correct.thy ===== *)
theory Qdf_Ini_Correct
  imports Qdf_Ini
begin

text \<open>
  The ini parser against a reading of the text: what one call of \<open>qdf_ini_read_values\<close> delivers is a
  function (\<open>ini_next\<close>) of the characters between the cursor and the end of the file, and of nothing that was left in the buffer
  by earlier calls. The parsers are then functions of the list of things a file holds.
\<close>

section \<open>The text\<close>

abbreviation is_eol :: "char \<Rightarrow> bool" where
  "is_eol c \<equiv> c = CR \<or> c = LF"

definition rtrim :: "string \<Rightarrow> string" where
  "rtrim s = rev (dropWhile is_space (rev s))"

definition trim :: "string \<Rightarrow> string" where
  "trim s = dropWhile is_space (rtrim s)"

datatype ini_out = OUT_ITEM string string | OUT_SECTION string | OUT_END

text \<open>
  The next thing in a text and the text behind it. An item's value reaches to the end of its line or to a comment, unless
  nothing but white space follows the \<open>=\<close> on the line: then it is all the rest of the file. After an item,
  white space at the end of the file is gone.
\<close>

function ini_next :: "string \<Rightarrow> qdf_status + ini_out \<times> string" where
  "ini_next R =
     (if R = [] then Inl QDF_STATUS_E_FAILURE
      else
        let line = takeWhile (\<lambda>c. \<not> is_eol c) R; rest = drop (Suc (length line)) R;
            body = takeWhile (\<lambda>c. c \<noteq> CHR ''#'') line in
        if CHR ''='' \<in> set body
        then
          let name = takeWhile (\<lambda>c. c \<noteq> CHR ''='') body;
              after = rtrim (drop (Suc (length name)) R);
              line2 = takeWhile (\<lambda>c. \<not> is_eol c) after;
              val = dropWhile is_space after in
          Inr (OUT_ITEM (trim name)
                 (if list_all is_space line2 then val else takeWhile (\<lambda>c. \<not> is_eol c \<and> c \<noteq> CHR ''#'') val),
               drop (Suc (length line2)) after)
        else
          let t = trim body in
          if t = [] then ini_next (dropWhile is_eol rest)
          else if hd t = CHR ''['' then
            (if last t = CHR '']'' then Inr (OUT_SECTION (butlast (tl t)), rest) else Inl QDF_STATUS_E_INVAL)
          else if t = ''END'' then Inr (OUT_END, rest)
          else Inl QDF_STATUS_E_INVAL)"
  by pat_completeness auto
termination
proof (relation "measure length", simp, goal_cases)
  case (1 R)
  have "length (dropWhile is_eol (drop (Suc (length (takeWhile (\<lambda>c. \<not> is_eol c) R))) R)) \<le> length (drop 1 R)"
    by (rule le_trans [OF length_dropWhile_le]) simp
  then show ?case using 1 by (cases R) simp_all
qed

declare ini_next.simps [simp del]

section \<open>Terminated pieces of the buffer\<close>

definition ends :: "string \<Rightarrow> bool" where
  "ends s \<longleftrightarrow> s = [] \<or> hd s = NUL"

fun put_NUL :: "string \<Rightarrow> string" where
  "put_NUL [] = []"
| "put_NUL (_ # s) = NUL # s"

abbreviation no_NUL :: "string \<Rightarrow> bool" where
  "no_NUL s \<equiv> NUL \<notin> set s"

lemma ends_put_NUL [simp]: "ends (put_NUL s @ t) \<longleftrightarrow> s \<noteq> [] \<or> ends t"
  by (cases s) (auto simp: ends_def)

lemma ends_Nil [simp]: "ends []" and ends_NUL [simp]: "ends (NUL # s)"
  by (simp_all add: ends_def)

lemma length_put_NUL [simp]: "length (put_NUL s) = length s"
  by (cases s) simp_all

lemma take_NUL: "no_NUL s \<Longrightarrow> ends t \<Longrightarrow> takeWhile (\<lambda>c. c \<noteq> NUL) (s @ t) = s"
  by (cases t) (auto simp: ends_def takeWhile_tail)

lemma c_str_at: "c_str (pre @ x) (length pre + n) = takeWhile (\<lambda>c. c \<noteq> NUL) (drop n x)"
  by (simp add: c_str_def)

lemma c_str_at0: "c_str (pre @ x) (length pre) = takeWhile (\<lambda>c. c \<noteq> NUL) x"
  by (simp add: c_str_def)

lemma buffer_split:
  assumes "p \<le> length b"
  obtains pre suf where "b = pre @ c_str b p @ suf" "length pre = p" "ends suf" "no_NUL (c_str b p)"
proof
  show "b = take p b @ c_str b p @ dropWhile (\<lambda>c. c \<noteq> NUL) (drop p b)" by (simp add: c_str_def)
  show "ends (dropWhile (\<lambda>c. c \<noteq> NUL) (drop p b))"
    using hd_dropWhile [of "\<lambda>c. c \<noteq> NUL" "drop p b"] by (auto simp: ends_def)
qed (use assms in \<open>auto simp: c_str_def dest: set_takeWhileD\<close>)

lemma str_at_c_str: "str_at b p = (case c_str b p of [] \<Rightarrow> NUL | c # _ \<Rightarrow> c)"
  by (auto simp: str_at_def c_str_def split: list.splits)

section \<open>Trimming\<close>

lemma trim_end_rtrim: "n \<le> length s \<Longrightarrow> trim_end s n = length (rtrim (take n s))"
proof (induction n)
  case (Suc n)
  then show ?case by (simp add: rtrim_def take_Suc_conv_app_nth)
qed (simp add: rtrim_def)

lemma left_trim_length: "qdf_str_left_trim b p = p + length (takeWhile is_space (drop p b))"
proof (induction b p rule: qdf_str_left_trim.induct)
  case (1 b p)
  show ?case
  proof (cases "is_space (str_at b p)")
    case True
    then have "drop p b = str_at b p # drop (Suc p) b"
      using is_space_in_range [OF True] by (simp add: str_at_def Cons_nth_drop_Suc [symmetric])
    then show ?thesis using 1 True by (subst qdf_str_left_trim.simps) simp
  next
    case False
    then have "takeWhile is_space (drop p b) = []" by (cases "drop p b") (simp_all add: str_at_def)
    then show ?thesis using False by (subst qdf_str_left_trim.simps) simp
  qed
qed

lemma rtrim_prefix: "rtrim s @ drop (length (rtrim s)) s = s"
proof -
  have "s = rtrim s @ rev (takeWhile is_space (rev s))"
    by (simp add: rtrim_def flip: rev_append)
  then show ?thesis by (metis append_eq_conv_conj)
qed

lemma rtrim_le: "length (rtrim s) \<le> length s"
  by (metis rtrim_prefix length_append le_add1)

lemma rtrim_no_NUL: "no_NUL s \<Longrightarrow> no_NUL (rtrim s)"
  by (metis rtrim_prefix Un_iff set_append)

lemma no_NUL_dropWhile: "no_NUL s \<Longrightarrow> no_NUL (dropWhile P s)"
  by (auto dest: set_dropWhileD)

lemma takeWhile_space_ends: "ends t \<Longrightarrow> takeWhile is_space (s @ t) = takeWhile is_space s"
  by (cases t) (auto simp: ends_def takeWhile_append takeWhile_eq_all_conv [THEN iffD2])

lemma str_trim_split:
  assumes "no_NUL s" "ends suf"
  shows "qdf_str_trim (pre @ s @ suf) (length pre) =
    (pre @ rtrim s @ put_NUL (drop (length (rtrim s)) s) @ suf, length pre + length (takeWhile is_space (rtrim s)))"
proof -
  let ?n = "length (rtrim s)" and ?d = "drop (length (rtrim s)) s"
  have c: "c_str (pre @ s @ suf) (length pre) = s" by (simp add: c_str_at0 take_NUL assms)
  have n: "trim_end s (length s) = ?n" by (simp add: trim_end_rtrim)
  have sd: "s = rtrim s @ ?d" by (simp add: rtrim_prefix)
  have up: "(?d @ suf)[0 := NUL] = put_NUL ?d @ suf"
    using assms(2) by (cases ?d; cases suf) (auto simp: ends_def)
  have "(pre @ s @ suf)[length pre + ?n := NUL] = (pre @ rtrim s @ (?d @ suf))[length pre + ?n := NUL]"
    using sd by (metis append.assoc)
  also have "\<dots> = pre @ rtrim s @ (?d @ suf)[0 := NUL]" by (simp add: list_update_append)
  finally have b: "(pre @ s @ suf)[length pre + ?n := NUL] = pre @ rtrim s @ put_NUL ?d @ suf" by (simp add: up)
  show ?thesis
  proof (cases "s = []")
    case True
    then show ?thesis by (simp add: qdf_str_trim_def c_str_at0 take_NUL [of "[]", simplified] assms(2) rtrim_def)
  next
    case False
    have "ends (put_NUL ?d @ suf)" using assms(2) by simp
    then have "takeWhile is_space (rtrim s @ put_NUL ?d @ suf) = takeWhile is_space (rtrim s)"
      by (rule takeWhile_space_ends)
    then show ?thesis using False by (simp add: qdf_str_trim_def c n b left_trim_length Let_def)
  qed
qed


section \<open>The scan of a line\<close>

lemma line_char_simps [simp]: "CHR ''='' \<noteq> CR" "CHR ''='' \<noteq> LF" "CHR ''='' \<noteq> NUL" "CHR ''#'' \<noteq> CR"
  "CHR ''#'' \<noteq> LF" "CHR ''#'' \<noteq> NUL" "CR \<noteq> NUL" "LF \<noteq> NUL" "NUL \<noteq> CR" "NUL \<noteq> LF" "NUL \<noteq> CHR ''=''" "NUL \<noteq> CHR ''#''"
  "CR \<noteq> CHR ''=''" "LF \<noteq> CHR ''=''" "CR \<noteq> CHR ''#''" "LF \<noteq> CHR ''#''"
  by (simp_all add: CR_def LF_def NUL_def)

text \<open>At a position of the buffer, by the character there.\<close>

lemma line_loop_at:
  "ends suf \<Longrightarrow> ini_line_loop (pre @ suf) (length pre) v cm = (pre @ suf, length pre, v)"
  "is_eol c \<Longrightarrow> ini_line_loop (pre @ c # R) (length pre) v cm = (pre @ NUL # R, Suc (length pre), v)"
  "ini_line_loop (pre @ CHR ''#'' # R) (length pre) v cm = ini_line_loop ((pre @ [NUL]) @ R) (length (pre @ [NUL])) v True"
  "v \<noteq> None \<or> cm \<Longrightarrow> ini_line_loop (pre @ CHR ''='' # R) (length pre) v cm =
    ini_line_loop ((pre @ [CHR ''='']) @ R) (length (pre @ [CHR ''=''])) v cm"
  "c \<notin> {CR, LF, NUL, CHR ''='', CHR ''#''} \<Longrightarrow> ini_line_loop (pre @ c # R) (length pre) v cm =
    ini_line_loop ((pre @ [c]) @ R) (length (pre @ [c])) v cm"
proof -
  show "ends suf \<Longrightarrow> ini_line_loop (pre @ suf) (length pre) v cm = (pre @ suf, length pre, v)"
    by (cases suf; subst ini_line_loop.simps) (auto simp: ends_def Let_def str_at_beyond)
  show "is_eol c \<Longrightarrow> ini_line_loop (pre @ c # R) (length pre) v cm = (pre @ NUL # R, Suc (length pre), v)"
    by (subst ini_line_loop.simps) (auto simp: Let_def)
  show "ini_line_loop (pre @ CHR ''#'' # R) (length pre) v cm = ini_line_loop ((pre @ [NUL]) @ R) (length (pre @ [NUL])) v True"
    by (subst ini_line_loop.simps) (simp add: Let_def list_update_append)
  show "v \<noteq> None \<or> cm \<Longrightarrow> ini_line_loop (pre @ CHR ''='' # R) (length pre) v cm =
    ini_line_loop ((pre @ [CHR ''='']) @ R) (length (pre @ [CHR ''=''])) v cm"
    by (subst ini_line_loop.simps) (auto simp: Let_def)
  show "c \<notin> {CR, LF, NUL, CHR ''='', CHR ''#''} \<Longrightarrow> ini_line_loop (pre @ c # R) (length pre) v cm =
    ini_line_loop ((pre @ [c]) @ R) (length (pre @ [c])) v cm"
    by (subst ini_line_loop.simps) (simp add: Let_def)
qed

lemma line_loop_equals:
  assumes "qdf_str_trim ((pre @ [CHR ''='']) @ R) (length (pre @ [CHR ''=''])) = ((pre @ [CHR ''='']) @ R', v)"
  shows "ini_line_loop (pre @ CHR ''='' # R) (length pre) None False =
    ini_line_loop ((pre @ [NUL]) @ R') (length (pre @ [NUL])) (Some v) False"
  using assms by (subst ini_line_loop.simps) (simp add: Let_def list_update_append)

abbreviation line_of :: "string \<Rightarrow> string" where
  "line_of R \<equiv> takeWhile (\<lambda>c. \<not> is_eol c) R"

definition cut_comment :: "string \<Rightarrow> string" where
  "cut_comment = map (\<lambda>c. if c = CHR ''#'' then NUL else c)"

lemma line_loop_rest:
  assumes "v \<noteq> None \<or> cm" "no_NUL R" "ends suf"
  shows "ini_line_loop (pre @ R @ suf) (length pre) v cm =
    (pre @ cut_comment (line_of R) @ put_NUL (drop (length (line_of R)) R) @ suf,
     length pre + min (Suc (length (line_of R))) (length R), v)"
  using assms
proof (induction R arbitrary: pre cm)
  case Nil
  then show ?case by (simp add: line_loop_at(1) cut_comment_def)
next
  case (Cons c R)
  show ?case
  proof (cases "is_eol c")
    case True
    then show ?thesis by (cases "c = CR") (simp_all add: line_loop_at(2) cut_comment_def)
  next
    case False
    have "ini_line_loop (pre @ c # R @ suf) (length pre) v cm =
      ini_line_loop ((pre @ cut_comment [c]) @ R @ suf) (length (pre @ cut_comment [c])) v (cm \<or> c = CHR ''#'')"
      using False Cons.prems line_loop_at(3) [of pre "R @ suf" v cm] line_loop_at(4) [of v cm pre "R @ suf"] line_loop_at(5) [of c pre "R @ suf" v cm]
      by (cases "c = CHR ''#''"; cases "c = CHR ''=''") (auto simp: cut_comment_def)
    also have "\<dots> = ((pre @ cut_comment [c]) @ cut_comment (line_of R) @ put_NUL (drop (length (line_of R)) R) @ suf,
        length (pre @ cut_comment [c]) + min (Suc (length (line_of R))) (length R), v)"
      by (rule Cons.IH) (use Cons.prems in auto)
    finally show ?thesis using False by (simp add: cut_comment_def)
  qed
qed

lemma line_loop_plain:
  assumes "set s \<inter> {CR, LF, NUL, CHR ''='', CHR ''#''} = {}"
  shows "ini_line_loop (pre @ s @ x) (length pre) v cm = ini_line_loop ((pre @ s) @ x) (length (pre @ s)) v cm"
  using assms
proof (induction s arbitrary: pre)
  case (Cons c s)
  have "ini_line_loop (pre @ (c # s) @ x) (length pre) v cm = ini_line_loop ((pre @ [c]) @ s @ x) (length (pre @ [c])) v cm"
    using Cons.prems line_loop_at(5) [of c pre "s @ x" v cm] by auto
  also have "\<dots> = ini_line_loop (((pre @ [c]) @ s) @ x) (length ((pre @ [c]) @ s)) v cm"
    by (rule Cons.IH) (use Cons.prems in auto)
  finally show ?case by simp
qed simp


lemma rest_at:
  assumes "no_NUL R" "ends suf" "n \<le> length R" "q = length front + min 1 (length R - n)"
  shows "c_str (front @ put_NUL (drop n R) @ suf) q = drop (Suc n) R"
proof (cases "drop n R")
  case Nil
  then show ?thesis using assms take_NUL [of "[]" suf] c_str_at0 [of front suf] by simp
next
  case (Cons c R')
  then have d: "drop (Suc n) R = R'" by (metis drop_Suc list.sel(3) tl_drop)
  have "n < length R" using Cons by (metis drop_all list.distinct(1) not_le)
  then have q: "q = length front + 1" using assms(4) by simp
  have "no_NUL R'" using assms(1) d by (auto dest: in_set_dropD)
  then show ?thesis using Cons d q assms(2) c_str_at [of front "NUL # R' @ suf" 1] by (simp add: take_NUL)
qed

abbreviation body_of :: "string \<Rightarrow> string" where
  "body_of R \<equiv> takeWhile (\<lambda>c. c \<noteq> CHR ''#'') (line_of R)"

lemma line_split: "R = line_of R @ drop (length (line_of R)) R"
  by (metis takeWhile_eq_take append_take_drop_id)

lemma body_split:
  obtains d where "line_of R = body_of R @ d" "ends (cut_comment d)"
proof
  show "line_of R = body_of R @ dropWhile (\<lambda>c. c \<noteq> CHR ''#'') (line_of R)" by simp
  show "ends (cut_comment (dropWhile (\<lambda>c. c \<noteq> CHR ''#'') (line_of R)))"
    using hd_dropWhile [of "\<lambda>c. c \<noteq> CHR ''#''" "line_of R"] by (auto simp: ends_def cut_comment_def hd_map)
qed

lemma set_body: "c \<in> set (body_of R) \<Longrightarrow> c \<in> set R \<and> \<not> is_eol c \<and> c \<noteq> CHR ''#''"
  by (auto dest!: set_takeWhileD)

lemma cut_comment_body [simp]: "CHR ''#'' \<notin> set s \<Longrightarrow> cut_comment (s @ t) = s @ cut_comment t"
  by (auto simp: cut_comment_def intro: map_idI)

lemma line_loop_no_item:
  assumes "no_NUL R" "ends suf" "CHR ''='' \<notin> set (body_of R)"
  shows "ini_line_loop (pre @ R @ suf) (length pre) None False =
    (pre @ cut_comment (line_of R) @ put_NUL (drop (length (line_of R)) R) @ suf,
     length pre + min (Suc (length (line_of R))) (length R), None)"
  using assms
proof (induction R arbitrary: pre)
  case Nil
  then show ?case using line_loop_at(1) [of suf pre None False] by (simp add: cut_comment_def)
next
  case (Cons c R)
  consider "is_eol c" | "c = CHR ''#''" | (other) "c \<notin> {CR, LF, NUL, CHR ''='', CHR ''#''}"
    using Cons.prems by force
  then show ?case
  proof cases
    case 1
    then show ?thesis using line_loop_at(2) [of c pre "R @ suf" None False]
      by (cases "c = CR") (simp_all add: cut_comment_def)
  next
    case 2
    have "ini_line_loop (pre @ (c # R) @ suf) (length pre) None False
      = ini_line_loop ((pre @ [NUL]) @ R @ suf) (length (pre @ [NUL])) None True"
      using line_loop_at(3) [of pre "R @ suf" None False] 2 by simp
    also note line_loop_rest [of None True R suf "pre @ [NUL]"]
    finally show ?thesis using 2 Cons.prems by (simp add: cut_comment_def)
  next
    case other
    have "ini_line_loop (pre @ (c # R) @ suf) (length pre) None False
      = ini_line_loop ((pre @ [c]) @ R @ suf) (length (pre @ [c])) None False"
      using line_loop_at(5) [OF other, of pre "R @ suf" None False] by simp
    also have "\<dots> = ((pre @ [c]) @ cut_comment (line_of R) @ put_NUL (drop (length (line_of R)) R) @ suf,
        length (pre @ [c]) + min (Suc (length (line_of R))) (length R), None)"
      by (rule Cons.IH) (use Cons.prems other in auto)
    finally show ?thesis using other by (simp add: cut_comment_def)
  qed
qed


text \<open>The key is trimmed in place.\<close>

lemma trim_front:
  assumes "no_NUL s" "ends Y" "length pre = p"
  obtains front k where "qdf_str_trim (pre @ s @ Y) p = (front @ Y, k)" "length front = p + length s"
    "c_str (front @ Y) k = trim s" "k + length (trim s) \<le> p + length s"
proof -
  let ?t = "rtrim s" and ?z = "put_NUL (drop (length (rtrim s)) s)"
  let ?k = "p + length (takeWhile is_space ?t)"
  have "qdf_str_trim (pre @ s @ Y) p = ((pre @ ?t @ ?z) @ Y, ?k)"
    using str_trim_split [OF assms(1,2), of pre] assms(3) by simp
  moreover have "length (pre @ ?t @ ?z) = p + length s" using rtrim_le [of s] assms(3) by simp
  moreover have "c_str ((pre @ ?t @ ?z) @ Y) ?k = trim s"
  proof -
    have "drop (length (takeWhile is_space ?t)) (?t @ ?z @ Y) = dropWhile is_space ?t @ ?z @ Y"
      by (metis append.assoc append_eq_conv_conj takeWhile_dropWhile_id)
    then show ?thesis
      using c_str_at [of pre "?t @ ?z @ Y" "length (takeWhile is_space ?t)"] rtrim_no_NUL [OF assms(1)] assms(2,3)
      by (simp add: take_NUL no_NUL_dropWhile trim_def)
  qed
  moreover have "length (takeWhile is_space ?t) + length (trim s) = length ?t"
    by (metis length_append takeWhile_dropWhile_id trim_def)
  then have "?k + length (trim s) \<le> p + length s" using rtrim_le [of s] by simp
  ultimately show thesis by (rule that)
qed

text \<open>A line without an item.\<close>

lemma scan_no_item:
  assumes R: "c_str b p = R" and eq: "CHR ''='' \<notin> set (body_of R)" and ne: "R \<noteq> []"
  obtains b1 q b2 k where "ini_line_loop b p None False = (b1, q, None)" "qdf_str_trim b1 p = (b2, k)"
    "c_str b2 k = trim (body_of R)" "c_str b2 q = drop (Suc (length (line_of R))) R"
    "k + length (trim (body_of R)) \<le> q"
proof -
  have "p \<le> length b" using ne R by (cases "p \<le> length b") (auto simp: c_str_def)
  then obtain pre suf where b: "b = pre @ R @ suf" "length pre = p" "ends suf" "no_NUL R"
    using buffer_split R by metis
  let ?line = "line_of R" and ?body = "body_of R"
  obtain d where d: "?line = ?body @ d" "ends (cut_comment d)" by (rule body_split)
  have nb: "no_NUL ?body" "CHR ''#'' \<notin> set ?body" using b(4) set_body [of _ R] by blast+
  define Y where "Y = cut_comment d @ put_NUL (drop (length ?line) R) @ suf"
  define q where "q = p + min (Suc (length ?line)) (length R)"
  have cc: "cut_comment ?line = ?body @ cut_comment d"
    using arg_cong [OF d(1), of cut_comment] cut_comment_body [OF nb(2), of d] by (rule trans)
  have ll: "length ?line \<le> length R" by (simp add: length_takeWhile_le)
  have "cut_comment d = [] \<Longrightarrow> ends Y" using b(3) by (simp add: Y_def)
  then have Y: "ends Y" using d(2) by (cases "cut_comment d") (auto simp: ends_def Y_def)
  have l: "ini_line_loop b p None False = (pre @ ?body @ Y, q, None)"
    using line_loop_no_item [OF b(4,3) eq, of pre] b(1,2) cc by (simp add: Y_def q_def)
  obtain front k where f: "qdf_str_trim (pre @ ?body @ Y) p = (front @ Y, k)" "length front = p + length ?body"
    "c_str (front @ Y) k = trim ?body" "k + length (trim ?body) \<le> p + length ?body"
    by (rule trim_front [OF nb(1) Y b(2)])
  have dl: "length ?body + length d = length ?line" using d(1) by (metis length_append)
  have len: "length (front @ cut_comment d) = p + length ?line"
    using f(2) dl by (simp add: cut_comment_def)
  have "c_str ((front @ cut_comment d) @ put_NUL (drop (length ?line) R) @ suf) q = drop (Suc (length ?line)) R"
    by (rule rest_at [OF b(4,3) ll]) (use ll in \<open>simp only: len q_def min_def, arith\<close>)
  then have "c_str (front @ Y) q = drop (Suc (length ?line)) R" by (simp add: Y_def)
  moreover have "k + length (trim ?body) \<le> q" using f(4) dl ll by (simp add: q_def)
  ultimately show thesis by (rule that [OF l f(1,3)])
qed

text \<open>The text of a value, behind the marks that the scan of its line has left.\<close>

lemma value_text:
  assumes "no_NUL after" "ends S"
  shows "takeWhile (\<lambda>c. c \<noteq> NUL) (drop (length (takeWhile is_space after))
      (cut_comment (line_of after) @ put_NUL (drop (length (line_of after)) after) @ S)) =
    (if list_all is_space (line_of after) then dropWhile is_space after
     else takeWhile (\<lambda>c. \<not> is_eol c \<and> c \<noteq> CHR ''#'') (dropWhile is_space after))"
proof -
  define l where "l = line_of after"
  define r where "r = drop (length l) after"
  have lr: "after = l @ r" using line_split [of after] by (simp add: l_def r_def)
  have eolr: "r = [] \<or> is_eol (hd r)"
    using hd_dropWhile [of "\<lambda>c. \<not> is_eol c" after] unfolding l_def r_def by (metis dropWhile_eq_drop)
  have l: "\<not> is_eol c" if "c \<in> set l" for c using that unfolding l_def by (auto dest: set_takeWhileD)
  have n: "no_NUL l" "no_NUL r" using assms(1) lr by simp_all
  have sp: "is_space CR" "is_space LF" by (simp_all add: is_space_def CR_def LF_def)
  have cl: "length (cut_comment s) = length s" for s by (simp add: cut_comment_def)
  have "takeWhile (\<lambda>c. c \<noteq> NUL) (drop (length (takeWhile is_space (l @ r))) (cut_comment l @ put_NUL r @ S)) =
    (if list_all is_space l then dropWhile is_space (l @ r)
     else takeWhile (\<lambda>c. \<not> is_eol c \<and> c \<noteq> CHR ''#'') (dropWhile is_space (l @ r)))"
  proof (cases "list_all is_space l")
    case True
    then have all: "\<forall>c\<in>set l. is_space c" by (simp add: list_all_iff)
    show ?thesis
    proof (cases r)
      case Nil
      have "dropWhile is_space l = [] \<and> takeWhile is_space l = l" using all by (simp add: takeWhile_eq_all_conv)
      with Nil True show ?thesis using take_NUL [of "[]" S] assms(2)
        by (simp add: cl del: takeWhile_eq_all_conv dropWhile_eq_Nil_conv)
    next
      case (Cons c r')
      then have "is_space c" using eolr sp by auto
      have "drop (length (takeWhile is_space r')) (r' @ S) = dropWhile is_space r' @ S"
        by (metis append.assoc append_eq_conv_conj takeWhile_dropWhile_id)
      moreover have "takeWhile is_space (l @ r) = l @ c # takeWhile is_space r'" "dropWhile is_space (l @ r) = dropWhile is_space r'"
        using Cons all \<open>is_space c\<close> by (simp_all add: takeWhile_append dropWhile_append)
      moreover have "takeWhile (\<lambda>c. c \<noteq> NUL) (dropWhile is_space r' @ S) = dropWhile is_space r'"
        using n(2) Cons by (intro take_NUL assms(2) no_NUL_dropWhile) simp
      ultimately show ?thesis using Cons True by (simp add: cl)
    qed
  next
    case False
    define t where "t = dropWhile is_space l"
    have l2: "l = takeWhile is_space l @ t" by (simp add: t_def)
    have c1: "takeWhile is_space (l @ r) = takeWhile is_space l" "dropWhile is_space (l @ r) = t @ r"
      using False by (auto simp: list_all_iff t_def takeWhile_append dropWhile_append)
    have "cut_comment l = cut_comment (takeWhile is_space l) @ cut_comment t"
      using l2 by (metis cut_comment_def map_append)
    then have c2: "drop (length (takeWhile is_space l)) (cut_comment l @ x) = cut_comment t @ x" for x
      by (simp add: cl)
    have t: "no_NUL t" "\<not> is_eol c" if "c \<in> set t" for c using n(1) l that by (auto simp: t_def dest: set_dropWhileD)
    have "takeWhile (\<lambda>c. c \<noteq> NUL) (cut_comment t @ put_NUL r @ S) = takeWhile (\<lambda>c. \<not> is_eol c \<and> c \<noteq> CHR ''#'') (t @ r)"
      using t
    proof (induction t)
      case Nil
      then show ?case using assms(2) eolr by (cases r; cases S) (auto simp: cut_comment_def ends_def)
    next
      case (Cons c t)
      then show ?case by (auto simp: cut_comment_def)
    qed
    then show ?thesis using False c1 by (simp add: c2 del: drop_append)
  qed
  then show ?thesis unfolding lr [symmetric] unfolding r_def unfolding l_def .
qed

text \<open>A line with an item: what comes behind its \<open>=\<close> is trimmed before it is scanned.\<close>

lemma scan_item:
  assumes R: "c_str b p = R" and eq: "CHR ''='' \<in> set (body_of R)"
    and name: "name = takeWhile (\<lambda>c. c \<noteq> CHR ''='') (body_of R)"
    and after: "after = rtrim (drop (Suc (length name)) R)"
  obtains b1 q b2 k v where "ini_line_loop b p None False = (b1, q, Some v)" "qdf_str_trim b1 p = (b2, k)"
    "c_str b2 k = trim name" "c_str b2 q = drop (Suc (length (line_of after))) after"
    "c_str b2 v = (if list_all is_space (line_of after) then dropWhile is_space after
       else takeWhile (\<lambda>c. \<not> is_eol c \<and> c \<noteq> CHR ''#'') (dropWhile is_space after))"
proof -
  have "p \<le> length b" using eq R by (cases "p \<le> length b") (auto simp: c_str_def)
  then obtain pre suf where b: "b = pre @ R @ suf" "length pre = p" "ends suf" "no_NUL R"
    using buffer_split R by metis
  define x where "x = drop (Suc (length name)) R"
  have nm: "CHR ''='' \<notin> set name" "set name \<subseteq> set (body_of R)"
    unfolding name by (auto dest: set_takeWhileD)
  have Rx: "R = name @ CHR ''='' # x"
  proof -
    obtain ys where ys: "body_of R = name @ CHR ''='' # ys"
      using split_list_first [OF eq] name by (auto simp: takeWhile_append)
    moreover obtain d where "line_of R = body_of R @ d" by (rule body_split)
    ultimately have "R = name @ CHR ''='' # ys @ d @ drop (length (line_of R)) R"
      using line_split [of R] by (metis append.assoc append_Cons)
    then show ?thesis unfolding x_def by (metis append_eq_conv_conj append_Cons append_Nil append.assoc length_append_singleton)
  qed
  have nx: "no_NUL x" "no_NUL name" using b(4) Rx by (metis Un_iff set_append list.set_intros(2))+
  have plain: "set name \<inter> {CR, LF, NUL, CHR ''='', CHR ''#''} = {}"
    using nm nx(2) set_body [of _ R] by blast
  let ?z = "put_NUL (drop (length after) x)" and ?lead = "length (takeWhile is_space after)"
  let ?line = "line_of after"
  define S where "S = ?z @ suf"
  have S: "ends S" using b(3) by (simp add: S_def)
  define v where "v = p + length name + 1 + ?lead"
  define q where "q = p + length name + 1 + min (Suc (length ?line)) (length after)"
  have na: "no_NUL after" using rtrim_no_NUL [OF nx(1)] after x_def by simp
  have tr: "qdf_str_trim (((pre @ name) @ [CHR ''='']) @ x @ suf) (length ((pre @ name) @ [CHR ''='']))
    = (((pre @ name) @ [CHR ''='']) @ after @ S, length ((pre @ name) @ [CHR ''='']) + ?lead)"
    using str_trim_split [OF nx(1) b(3), of "(pre @ name) @ [CHR ''='']"] by (simp add: after x_def S_def)
  have "ini_line_loop b p None False = ini_line_loop ((pre @ name) @ CHR ''='' # x @ suf) (length (pre @ name)) None False"
    using line_loop_plain [OF plain, of pre "CHR ''='' # x @ suf" None False] b(1,2) Rx by simp
  also have "\<dots> = ini_line_loop ((pre @ name @ [NUL]) @ after @ S) (length (pre @ name @ [NUL])) (Some v) False"
    using line_loop_equals [OF tr] b(2) by (simp add: v_def)
  also have "\<dots> = ((pre @ name @ [NUL]) @ cut_comment ?line @ put_NUL (drop (length ?line) after) @ S, q, Some v)"
    using line_loop_rest [of "Some v" False after S "pre @ name @ [NUL]"] na S b(2) by (simp add: q_def)
  finally have l: "ini_line_loop b p None False =
      (pre @ name @ NUL # cut_comment ?line @ put_NUL (drop (length ?line) after) @ S, q, Some v)" by simp
  define Y where "Y = NUL # cut_comment ?line @ put_NUL (drop (length ?line) after) @ S"
  have Y: "ends Y" by (simp add: Y_def)
  obtain front k where f: "qdf_str_trim (pre @ name @ Y) p = (front @ Y, k)" "length front = p + length name"
    "c_str (front @ Y) k = trim name"
    by (rule trim_front [OF nx(2) Y b(2)])
  have ll: "length ?line \<le> length after" by (simp add: length_takeWhile_le)
  have len: "length (front @ NUL # cut_comment ?line) = p + length name + 1 + length ?line"
    using f(2) by (simp add: cut_comment_def)
  have "c_str ((front @ NUL # cut_comment ?line) @ put_NUL (drop (length ?line) after) @ S) q = drop (Suc (length ?line)) after"
    by (rule rest_at [OF na S ll]) (use ll in \<open>simp only: len q_def min_def, arith\<close>)
  then have "c_str (front @ Y) q = drop (Suc (length ?line)) after" by (simp add: Y_def)
  moreover have "c_str (front @ Y) v = (if list_all is_space ?line then dropWhile is_space after
       else takeWhile (\<lambda>c. \<not> is_eol c \<and> c \<noteq> CHR ''#'') (dropWhile is_space after))"
    using c_str_at [of "front @ [NUL]" _ ?lead] value_text [OF na S] f(2) by (simp add: v_def Y_def)
  moreover have "ini_line_loop b p None False = (pre @ name @ Y, q, Some v)" using l by (simp add: Y_def)
  ultimately show thesis using that f(1,3) by blast
qed


section \<open>One call\<close>

lemma skip_eol_c_str: "c_str b (skip_eol b p) = dropWhile is_eol (c_str b p)"
proof (induction b p rule: skip_eol.induct)
  case (1 b p)
  show ?case
  proof (cases "is_eol (str_at b p)")
    case True
    then have "str_at b p \<noteq> NUL" by auto
    then have "drop p b = str_at b p # drop (Suc p) b"
      using str_at_not_NUL by (simp add: str_at_def Cons_nth_drop_Suc [symmetric])
    then have "c_str b p = str_at b p # c_str b (Suc p)" using \<open>str_at b p \<noteq> NUL\<close> by (simp add: c_str_def)
    then show ?thesis using 1 True by (subst skip_eol.simps) auto
  next
    case False
    then show ?thesis by (subst skip_eol.simps) (auto simp: str_at_c_str split: list.splits)
  qed
qed

lemma c_str_update: "i < q \<Longrightarrow> c_str (b[i := c]) q = c_str b q"
  by (simp add: c_str_def drop_update_cancel)

lemma update_NUL: "str_at b p = NUL \<Longrightarrow> b[p := NUL] = b"
  by (cases "p < length b") (auto simp: str_at_def list_update_beyond simp flip: Cons_nth_drop_Suc intro: list_update_same_conv [THEN iffD2])

lemma str_at_in: "i \<le> length (c_str b p) \<Longrightarrow> str_at b (p + i) = str_at (c_str b p) i"
proof (cases "p \<le> length b")
  case True
  assume i: "i \<le> length (c_str b p)"
  obtain pre suf where b: "b = pre @ c_str b p @ suf" "length pre = p" "ends suf" by (rule buffer_split [OF True])
  have "str_at b (p + i) = str_at (c_str b p @ suf) i" by (subst b(1)) (simp add: str_at_def flip: b(2))
  also have "\<dots> = str_at (c_str b p) i"
    using i b(3) by (cases "drop i (c_str b p)"; cases suf) (auto simp: str_at_def ends_def)
  finally show ?thesis .
qed (simp add: c_str_def str_at_beyond)

lemma c_str_no_NUL: "no_NUL (c_str b p)"
  by (auto simp: c_str_def dest: set_takeWhileD)

lemma c_str_cut:
  assumes "i < length (c_str b p)"
  shows "c_str (b[p + i := NUL]) p = take i (c_str b p)"
proof -
  have "p \<le> length b" using assms by (cases "p \<le> length b") (auto simp: c_str_def)
  then obtain pre suf where b: "b = pre @ c_str b p @ suf" "length pre = p" "no_NUL (c_str b p)" by (rule buffer_split)
  define s where "s = c_str b p"
  have i: "i < length s" and n: "no_NUL (take i s)" using assms b(3) by (auto simp: s_def dest: in_set_takeD)
  have "b[p + i := NUL] = pre @ s[i := NUL] @ suf"
    using i b(2) by (subst b(1)) (simp add: list_update_append flip: s_def)
  also have "\<dots> = pre @ take i s @ NUL # drop (Suc i) s @ suf" using i by (simp add: upd_conv_take_nth_drop)
  finally show ?thesis using n c_str_at0 [of pre] b(2) by (simp add: take_NUL s_def)
qed

lemma c_str_Suc: "c_str b p = c # s \<Longrightarrow> c_str b (Suc p) = s"
proof -
  assume "c_str b p = c # s"
  moreover have "drop (Suc p) b = tl (drop p b)" by (simp add: drop_Suc tl_drop)
  ultimately show ?thesis by (cases "drop p b") (auto simp: c_str_def split: if_splits)
qed

fun read_out :: "string \<Rightarrow> ini_read \<Rightarrow> ini_out" where
  "read_out b (INI_ITEM k v) = OUT_ITEM (c_str b k) (c_str b v)"
| "read_out b (INI_SECTION k) = OUT_SECTION (c_str b k)"
| "read_out b (INI_END k) = OUT_END"

fun out_of :: "string \<times> (qdf_status + nat \<times> ini_read) \<Rightarrow> qdf_status + ini_out \<times> string" where
  "out_of (b, Inl st) = Inl st"
| "out_of (b, Inr (q, r)) = Inr (read_out b r, c_str b q)"


lemma values_loop_spec: "out_of (ini_values_loop b p) = ini_next (c_str b p)"
proof (induction b p rule: ini_values_loop.induct)
  case (1 b p)
  let ?R = "c_str b p" let ?body = "body_of (c_str b p)"
  show ?case
  proof (cases "?R = []")
    case True
    then show ?thesis
      by (subst ini_values_loop.simps, subst ini_next.simps) (simp add: str_at_c_str)
  next
    case False
    then have c: "str_at b p \<noteq> NUL" using c_str_no_NUL [of b p] by (auto simp: str_at_c_str split: list.splits)
    show ?thesis
    proof (cases "CHR ''='' \<in> set ?body")
      case True
      obtain b1 q b2 k v where s: "ini_line_loop b p None False = (b1, q, Some v)" "qdf_str_trim b1 p = (b2, k)"
        "c_str b2 k = trim (takeWhile (\<lambda>c. c \<noteq> CHR ''='') ?body)"
        "c_str b2 q = drop (Suc (length (line_of (rtrim (drop (Suc (length (takeWhile (\<lambda>c. c \<noteq> CHR ''='') ?body))) ?R)))))
          (rtrim (drop (Suc (length (takeWhile (\<lambda>c. c \<noteq> CHR ''='') ?body))) ?R))"
        "c_str b2 v = (if list_all is_space (line_of (rtrim (drop (Suc (length (takeWhile (\<lambda>c. c \<noteq> CHR ''='') ?body))) ?R)))
           then dropWhile is_space (rtrim (drop (Suc (length (takeWhile (\<lambda>c. c \<noteq> CHR ''='') ?body))) ?R))
           else takeWhile (\<lambda>c. \<not> is_eol c \<and> c \<noteq> CHR ''#'')
             (dropWhile is_space (rtrim (drop (Suc (length (takeWhile (\<lambda>c. c \<noteq> CHR ''='') ?body))) ?R))))"
        by (rule scan_item [OF refl True refl refl])
      have "ini_values_loop b p = (b2, Inr (q, INI_ITEM k v))"
        using c s(1,2) by (subst ini_values_loop.simps) simp
      moreover have "ini_next ?R = Inr (OUT_ITEM (c_str b2 k) (c_str b2 v), c_str b2 q)"
        unfolding s(3-5) using False True by (subst ini_next.simps) (simp only: Let_def if_True if_False)
      ultimately show ?thesis by simp
    next
      case noeq: False
      define t where "t = trim ?body"
      define rest where "rest = drop (Suc (length (line_of ?R))) ?R"
      obtain b1 q b2 k where s: "ini_line_loop b p None False = (b1, q, None)" "qdf_str_trim b1 p = (b2, k)"
        "c_str b2 k = t" "c_str b2 q = rest" "k + length t \<le> q"
        by (rule scan_no_item [OF refl noeq False, folded t_def rest_def])
      have nx: "ini_next ?R = (if t = [] then ini_next (dropWhile is_eol rest)
          else if hd t = CHR ''['' then
            (if last t = CHR '']'' then Inr (OUT_SECTION (butlast (tl t)), rest) else Inl QDF_STATUS_E_INVAL)
          else if t = ''END'' then Inr (OUT_END, rest)
          else Inl QDF_STATUS_E_INVAL)"
        unfolding t_def rest_def using False noeq by (subst ini_next.simps) (simp only: Let_def if_True if_False)
      have at: "str_at b2 k = (case t of [] \<Rightarrow> NUL | c # _ \<Rightarrow> c)" by (simp add: str_at_c_str s(3))
      have vl: "ini_values_loop b p =
          (if str_at b2 k = CHR ''['' then
             if str_at b2 (k + length t - 1) \<noteq> CHR '']'' then (b2, Inl QDF_STATUS_E_INVAL)
             else (b2[k + length t - 1 := NUL], Inr (q, INI_SECTION (Suc k)))
           else if str_at b2 k \<noteq> NUL then
             if t = ''END'' then (b2[k + 3 := NUL], Inr (q, INI_END k))
             else (b2, Inl QDF_STATUS_E_INVAL)
           else ini_values_loop b2 (skip_eol b2 q))"
        using c s(1,2,3) by (subst ini_values_loop.simps) (simp add: Let_def)
      have "NUL \<notin> set t" unfolding s(3) [symmetric] by (rule c_str_no_NUL)
      then consider "t = []" | (sec) u where "t = CHR ''['' # u" | (oth) x u where "t = x # u" "x \<noteq> CHR ''[''" "x \<noteq> NUL"
        by (cases t) auto
      then show ?thesis
      proof cases
        case 1
        then have at0: "str_at b2 k = NUL" using at by simp
        have "out_of (ini_values_loop b2 (skip_eol b2 q)) = ini_next (c_str b2 (skip_eol b2 q))"
          by (rule "1.IH" [OF c s(1) [symmetric] refl refl s(2) [symmetric] refl refl])
            (simp_all add: at0 NUL_def)
        then show ?thesis using 1 by (simp add: vl nx at0 skip_eol_c_str s(4) NUL_def)
      next
        case sec
        have lst: "str_at b2 (k + length t - 1) = last t"
          using str_at_in [of "length u" b2 k] s(3) by (simp add: sec str_at_def last_conv_nth flip: Cons_nth_drop_Suc)
        have "u \<noteq> []" if "last t = CHR '']''" using that sec by auto
        then have cut: "c_str (b2[k + length t - 1 := NUL]) (Suc k) = butlast (tl t)" if "last t = CHR '']''"
          using that c_str_cut [of "length u - 1" b2 "Suc k"] c_str_Suc [of b2 k "CHR ''[''" u] s(3) sec
          by (simp add: butlast_conv_take)
        have "c_str (b2[k + length t - 1 := NUL]) q = rest"
          using c_str_update [of "k + length t - 1" q] s(4,5) sec by simp
        then show ?thesis using cut lst sec by (simp add: vl nx at)
      next
        case oth
        then have "(t = ''END'') = True \<Longrightarrow> str_at b2 (k + 3) = NUL"
          using str_at_in [of 3 b2 k] by (simp add: s(3) str_at_beyond)
        then have "t = ''END'' \<Longrightarrow> b2[k + 3 := NUL] = b2" by (simp add: update_NUL)
        then show ?thesis using oth by (auto simp: vl nx at s(4))
      qed
    qed
  qed
qed


lemma read_values_spec:
  "qdf_ini_read_values b p = (b', q, Inl st) \<Longrightarrow> q = p \<and> ini_next (c_str b p) = Inl st"
  "qdf_ini_read_values b p = (b', q, Inr r) \<Longrightarrow> ini_next (c_str b p) = Inr (read_out b' r, c_str b' q)"
  using values_loop_spec [of b p] by (auto simp: qdf_ini_read_values_def split: prod.splits sum.splits)

text \<open>
  C18: A call of qdf_ini_read_values reads the text between its cursor and the end of the file, and nothing else of
  the buffer: the key, value or section name it hands out, and the text that the moved cursor leaves, are those of
  ini_next; on an error the cursor stays.
\<close>

theorem ini_read_refines:
  "(case qdf_ini_read_values b p of
      (b', q, Inl st) \<Rightarrow> q = p \<and> ini_next (c_str b p) = Inl st
    | (b', q, Inr r) \<Rightarrow> ini_next (c_str b p) = Inr (read_out b' r, c_str b' q))"
  using read_values_spec [of b p] by (auto split: prod.splits sum.splits)

section \<open>Files as lists of things\<close>

lemma rest_shorter: "ini_next R = Inr (x, R') \<Longrightarrow> length R' < length R"
proof (induction R rule: ini_next.induct)
  case (1 R)
  let ?line = "line_of R" and ?body = "body_of R"
  have ne: "R \<noteq> []" using 1(2) by (subst (asm) ini_next.simps) auto
  then have d: "length (drop (Suc n) R) < length R" for n by (cases R) auto
  show ?case
  proof (cases "CHR ''='' \<in> set ?body")
    case True
    let ?a = "rtrim (drop (Suc (length (takeWhile (\<lambda>c. c \<noteq> CHR ''='') ?body))) R)"
    have "R' = drop (Suc (length (line_of ?a))) ?a"
      using 1(2) ne True by (subst (asm) ini_next.simps) (simp only: Let_def if_True if_False sum.inject prod.inject)
    then have "length R' \<le> length ?a" by simp
    also have "\<dots> < length R" using d rtrim_le le_less_trans by blast
    finally show ?thesis .
  next
    case False
    define t where "t = trim ?body"
    have nx: "ini_next R = (if t = [] then ini_next (dropWhile is_eol (drop (Suc (length ?line)) R))
          else if hd t = CHR ''['' then
            (if last t = CHR '']'' then Inr (OUT_SECTION (butlast (tl t)), drop (Suc (length ?line)) R) else Inl QDF_STATUS_E_INVAL)
          else if t = ''END'' then Inr (OUT_END, drop (Suc (length ?line)) R)
          else Inl QDF_STATUS_E_INVAL)"
      unfolding t_def using ne False by (subst ini_next.simps) (simp only: Let_def if_True if_False)
    show ?thesis
    proof (cases "t = []")
      case True
      have "length R' < length (dropWhile is_eol (drop (Suc (length ?line)) R))"
        using "1.IH" [OF ne refl refl refl False refl] True 1(2) nx by (simp add: t_def)
      then show ?thesis using length_dropWhile_le d by (meson less_le_trans less_trans not_le)
    next
      case False
      then have "R' = drop (Suc (length ?line)) R" using 1(2) nx by (auto split: if_splits)
      then show ?thesis using d by blast
    qed
  qed
qed

text \<open>All a file holds, and the status at which the reading of it ends.\<close>

function things :: "string \<Rightarrow> ini_out list \<times> qdf_status" where
  "things R = (case ini_next R of Inl st \<Rightarrow> ([], st) | Inr (x, R') \<Rightarrow> (case things R' of (xs, st) \<Rightarrow> (x # xs, st)))"
  by pat_completeness auto
termination
  by (relation "measure length") (auto dest: rest_shorter)

declare things.simps [simp del]

text \<open>What \<open>qdf_ini_parse\<close> makes of them.\<close>

fun parse_things :: "'s item_cb \<Rightarrow> bool \<Rightarrow> ini_out list \<Rightarrow> 's \<Rightarrow> nat \<Rightarrow> 's \<times> nat" where
  "parse_things cb stop [] s n = (s, n)"
| "parse_things cb stop (OUT_END # xs) s n = (s, n)"
| "parse_things cb stop (OUT_ITEM k v # xs) s n =
     (if k = ''END'' then (s, n)
      else case cb s k v of (s', st) \<Rightarrow>
        if st \<noteq> QDF_STATUS_SUCCESS then (s', n) else parse_things cb stop xs s' (Suc n))"
| "parse_things cb stop (OUT_SECTION k # xs) s n =
     (if k = ''END'' \<or> stop then (s, n) else parse_things cb stop xs s n)"

fun section_things :: "'s item_cb \<Rightarrow> string \<Rightarrow> bool \<Rightarrow> bool \<Rightarrow> ini_out list \<Rightarrow> 's \<Rightarrow> 's" where
  "section_things cb name found complete [] s = s"
| "section_things cb name found complete (OUT_END # xs) s = s"
| "section_things cb name found complete (OUT_SECTION k # xs) s =
     (if k = ''END'' then s
      else if k = name then section_things cb name True False xs s
      else section_things cb name False (complete \<or> found) xs s)"
| "section_things cb name found complete (OUT_ITEM k v # xs) s =
     (if k = ''END'' then s
      else if found then
        (case cb s k v of (s', st) \<Rightarrow>
          if st \<noteq> QDF_STATUS_SUCCESS then s' else section_things cb name found complete xs s')
      else if complete then s else section_things cb name found complete xs s)"

fun check_things :: "ini_out list \<Rightarrow> qdf_status \<Rightarrow> bool" where
  "check_things [] st \<longleftrightarrow> st = QDF_STATUS_E_FAILURE"
| "check_things (OUT_END # xs) st \<longleftrightarrow> True"
| "check_things (OUT_SECTION k # xs) st \<longleftrightarrow> check_things xs st"
| "check_things (OUT_ITEM k v # xs) st \<longleftrightarrow>
     k = ''END'' \<or> qdf_validate_key k = QDF_STATUS_SUCCESS \<and> qdf_validate_value v = QDF_STATUS_SUCCESS \<and> check_things xs st"

lemma things_Inl: "ini_next R = Inl st \<Longrightarrow> things R = ([], st)"
  by (simp add: things.simps [of R])

lemma things_Inr: "ini_next R = Inr (x, R') \<Longrightarrow> things R = (x # fst (things R'), snd (things R'))"
  by (simp add: things.simps [of R] split: prod.splits)

lemma parse_loop_things:
  "ini_parse_loop cb stop b p s n = parse_things cb stop (fst (things (c_str b p))) s n"
proof (induction cb stop b p s n rule: ini_parse_loop.induct)
  case (1 cb stop b p s n)
  obtain b' q r where e: "qdf_ini_read_values b p = (b', q, r)" using prod_cases3 by blast
  show ?case
  proof (cases r)
    case (Inl st)
    then show ?thesis using read_values_spec(1) [of b p b' q st] e
      by (simp add: ini_parse_loop.simps [of cb stop b p] things_Inl)
  next
    case (Inr a)
    note nx = things_Inr [OF read_values_spec(2) [OF e [unfolded Inr]]]
    show ?thesis
    proof (cases a)
      case (INI_ITEM k v)
      then show ?thesis using 1(1) [OF e [symmetric] _ Inr INI_ITEM] nx e Inr
        by (auto simp: ini_parse_loop.simps [of cb stop b p] split: prod.splits)
    next
      case (INI_SECTION k)
      then show ?thesis using 1(2) [OF e [symmetric] _ Inr INI_SECTION] nx e Inr
        by (auto simp: ini_parse_loop.simps [of cb stop b p])
    next
      case (INI_END k)
      then show ?thesis using nx e Inr by (simp add: ini_parse_loop.simps [of cb stop b p])
    qed
  qed
qed


lemma section_loop_things:
  "ini_section_loop cb name found complete b p s = section_things cb name found complete (fst (things (c_str b p))) s"
proof (induction cb name found complete b p s rule: ini_section_loop.induct)
  case (1 cb name found complete b p s)
  obtain b' q r where e: "qdf_ini_read_values b p = (b', q, r)" using prod_cases3 by blast
  note unfold = ini_section_loop.simps [of cb name found complete b p]
  show ?case
  proof (cases r)
    case (Inl st)
    then show ?thesis using read_values_spec(1) [of b p b' q st] e by (simp add: unfold things_Inl)
  next
    case (Inr a)
    note nx = things_Inr [OF read_values_spec(2) [OF e [unfolded Inr]]]
    show ?thesis
    proof (cases a)
      case (INI_ITEM k v)
      then show ?thesis using 1(1,2) [OF e [symmetric] _ Inr INI_ITEM] nx e Inr
        by (auto simp: unfold split: prod.splits)
    next
      case (INI_SECTION k)
      then show ?thesis using 1(3,4) [OF e [symmetric] _ Inr INI_SECTION] nx e Inr by (auto simp: unfold)
    next
      case (INI_END k)
      then show ?thesis using nx e Inr by (simp add: unfold)
    qed
  qed
qed

lemma check_loop_things:
  "ini_check_loop b p = (case things (c_str b p) of (xs, st) \<Rightarrow> check_things xs st)"
proof (induction b p rule: ini_check_loop.induct)
  case (1 b p)
  obtain b' q r where e: "qdf_ini_read_values b p = (b', q, r)" using prod_cases3 by blast
  show ?case
  proof (cases r)
    case (Inl st)
    then show ?thesis using read_values_spec(1) [of b p b' q st] e by (simp add: ini_check_loop.simps [of b p] things_Inl)
  next
    case (Inr a)
    note nx = things_Inr [OF read_values_spec(2) [OF e [unfolded Inr]]]
    show ?thesis
    proof (cases a)
      case (INI_ITEM k v)
      then show ?thesis using 1(1) [OF e [symmetric] _ Inr INI_ITEM] nx e Inr
        by (auto simp: ini_check_loop.simps [of b p] split: prod.splits)
    next
      case (INI_SECTION k)
      then show ?thesis using 1(2) [OF e [symmetric] _ Inr INI_SECTION] nx e Inr
        by (auto simp: ini_check_loop.simps [of b p] split: prod.splits)
    next
      case (INI_END k)
      then show ?thesis using nx e Inr by (simp add: ini_check_loop.simps [of b p])
    qed
  qed
qed

end
