(* ===== verification/Qdf_Ini_Props.thy ===== *)
theory Qdf_Ini_Props
  imports Qdf_Ini_Correct
begin

text \<open>
  Properties of whole files: what is written as items, sections and notes is read back as such, by each of the
  parsers; and the texts that are read as something else.
\<close>

section \<open>White space at the end\<close>

lemma rtrim_spaces: "list_all is_space w \<Longrightarrow> rtrim (s @ w) = rtrim s"
  by (simp add: rtrim_def list_all_iff dropWhile_append)

lemma trim_spaces: "list_all is_space w \<Longrightarrow> trim (s @ w) = trim s"
  by (simp add: trim_def rtrim_spaces)

lemma trim_all_space: "list_all is_space w \<Longrightarrow> trim w = []"
  using trim_spaces [of w "[]"] by (simp add: trim_def rtrim_def)

lemma rtrim_split: obtains w where "s = rtrim s @ w" "list_all is_space w"
proof
  show "s = rtrim s @ rev (takeWhile is_space (rev s))" by (simp add: rtrim_def flip: rev_append)
qed (auto simp: list_all_iff dest: set_takeWhileD)

lemma space_marks [simp]: "is_space CR" "is_space LF" "\<not> is_space (CHR ''='')" "\<not> is_space (CHR ''#'')"
  by (simp_all add: is_space_def CR_def LF_def)

text \<open>A text up to white space at the end of what is left of it.\<close>

fun trim_rest :: "qdf_status + ini_out \<times> string \<Rightarrow> qdf_status + ini_out \<times> string" where
  "trim_rest (Inl st) = Inl st"
| "trim_rest (Inr (x, R)) = Inr (x, rtrim R)"

lemma ini_next_no_item:
  "R \<noteq> [] \<Longrightarrow> CHR ''='' \<notin> set (body_of R) \<Longrightarrow> t = trim (body_of R) \<Longrightarrow> rest = drop (Suc (length (line_of R))) R \<Longrightarrow>
   ini_next R = (if t = [] then ini_next (dropWhile is_eol rest)
          else if hd t = CHR ''['' then
            (if last t = CHR '']'' then Inr (OUT_SECTION (butlast (tl t)), rest) else Inl QDF_STATUS_E_INVAL)
          else if t = ''END'' then Inr (OUT_END, rest)
          else Inl QDF_STATUS_E_INVAL)"
  by (subst ini_next.simps) (simp only: Let_def if_True if_False)

lemma ini_next_item:
  "CHR ''='' \<in> set (body_of R) \<Longrightarrow> name = takeWhile (\<lambda>c. c \<noteq> CHR ''='') (body_of R) \<Longrightarrow>
   after = rtrim (drop (Suc (length name)) R) \<Longrightarrow>
   ini_next R = Inr (OUT_ITEM (trim name)
      (if list_all is_space (line_of after) then dropWhile is_space after
       else takeWhile (\<lambda>c. \<not> is_eol c \<and> c \<noteq> CHR ''#'') (dropWhile is_space after)),
      drop (Suc (length (line_of after))) after)"
  by (cases "R = []", simp) (subst ini_next.simps, simp only: Let_def if_True if_False)

lemma ini_next_space: "list_all is_space w \<Longrightarrow> ini_next w = Inl QDF_STATUS_E_FAILURE"
proof (induction w rule: length_induct)
  case (1 w)
  show ?case
  proof (cases "w = []")
    case True
    then show ?thesis by (simp add: ini_next.simps)
  next
    case False
    let ?r = "dropWhile is_eol (drop (Suc (length (line_of w))) w)"
    have sub: "set (body_of w) \<subseteq> set w" by (auto dest!: set_takeWhileD)
    have b: "list_all is_space (body_of w)" "CHR ''='' \<notin> set (body_of w)"
      using 1(2) sub space_marks(3) unfolding list_all_iff by blast+
    have "length ?r \<le> length (drop (Suc (length (line_of w))) w)" by (rule length_dropWhile_le)
    then have "length ?r < length w" using False by (cases w) auto
    moreover have "list_all is_space ?r" using 1(2) by (auto simp: list_all_iff dest!: set_dropWhileD in_set_dropD)
    ultimately have "ini_next ?r = Inl QDF_STATUS_E_FAILURE" using 1(1) by blast
    then show ?thesis using ini_next_no_item [OF False b(2) refl refl] trim_all_space [OF b(1)] by simp
  qed
qed

lemma set_body_of: "set (body_of R) \<subseteq> set R"
  by (auto dest!: set_takeWhileD)

lemma drop_space_end: "list_all is_space w \<Longrightarrow> list_all is_space (drop n w)"
  by (auto simp: list_all_iff dest: in_set_dropD)

lemma dropWhile_space_end: "list_all is_space w \<Longrightarrow> list_all is_space (dropWhile P w)"
  by (auto simp: list_all_iff dest: set_dropWhileD)

lemma rtrim_drop_spaces: "list_all is_space w \<Longrightarrow> rtrim (drop n (T @ w)) = rtrim (drop n T)"
  by (simp add: rtrim_spaces drop_space_end)

lemma rtrim_space: "list_all is_space w \<Longrightarrow> rtrim w = []"
  using rtrim_spaces [of w "[]"] by (simp add: rtrim_def)

lemma body_of_spaces:
  assumes "list_all is_space w"
  obtains u where "body_of (T @ w) = body_of T @ u" "list_all is_space u"
    "u = [] \<or> line_of T = T \<and> CHR ''#'' \<notin> set T"
proof (cases "line_of T = T \<and> CHR ''#'' \<notin> set T")
  case True
  then have T: "\<forall>c\<in>set T. c \<noteq> CR \<and> c \<noteq> LF \<and> c \<noteq> CHR ''#''" by (auto simp: takeWhile_eq_all_conv)
  then have "line_of (T @ w) = T @ line_of w" "takeWhile (\<lambda>c. c \<noteq> CHR ''#'') (T @ line_of w) = T @ body_of w"
    by (simp_all add: takeWhile_append)
  moreover have "body_of T = T"
    unfolding conjunct1 [OF True] using T by (subst takeWhile_eq_all_conv) simp
  ultimately have "body_of (T @ w) = body_of T @ body_of w" by simp
  moreover have "list_all is_space (body_of w)" using assms set_body_of [of w] by (auto simp: list_all_iff)
  ultimately show thesis using that True by blast
next
  case False
  then have "body_of (T @ w) = body_of T"
  proof (cases "line_of T = T")
    case True
    then have "\<forall>c\<in>set T. c \<noteq> CR \<and> c \<noteq> LF" "CHR ''#'' \<in> set T" using False by (auto simp: takeWhile_eq_all_conv)
    then have a: "line_of (T @ w) = T @ line_of w" and b: "takeWhile (\<lambda>c. c \<noteq> CHR ''#'') (T @ line_of w) = takeWhile (\<lambda>c. c \<noteq> CHR ''#'') T"
      by (simp_all add: takeWhile_append2 takeWhile_append1 [of "CHR ''#''"])
    show ?thesis unfolding a unfolding True by (rule b)
  next
    case False
    then have "\<exists>c\<in>set T. is_eol c" by (auto simp: takeWhile_eq_all_conv)
    then have "line_of (T @ w) = line_of T" by (auto simp: takeWhile_append)
    then show ?thesis by simp
  qed
  then show thesis using that [of "[]"] by simp
qed

lemma rest_of_spaces:
  assumes "list_all is_space w"
  obtains u where "drop (Suc (length (line_of (T @ w)))) (T @ w) = drop (Suc (length (line_of T))) T @ u" "list_all is_space u"
proof (cases "line_of T = T")
  case True
  then have "\<forall>c\<in>set T. \<not> is_eol c" by (auto simp: takeWhile_eq_all_conv)
  then have "line_of (T @ w) = T @ line_of w" by (simp add: takeWhile_append)
  then have "drop (Suc (length (line_of (T @ w)))) (T @ w) = drop (Suc (length (line_of w))) w" by simp
  moreover have "drop (Suc (length (line_of T))) T = []" unfolding True by simp
  ultimately show thesis using that [of "drop (Suc (length (line_of w))) w"] drop_space_end [OF assms] by simp
next
  case False
  then have "\<exists>c\<in>set T. is_eol c" by (auto simp: takeWhile_eq_all_conv)
  then have "line_of (T @ w) = line_of T" by (auto simp: takeWhile_append)
  moreover have "length (line_of T) < length T" using False
    by (metis length_takeWhile_le le_neq_implies_less takeWhile_eq_take take_all order_refl)
  ultimately show thesis using that [of w] assms by simp
qed

lemma ini_next_spaces: "list_all is_space w \<Longrightarrow> trim_rest (ini_next (T @ w)) = trim_rest (ini_next T)"
proof (induction T arbitrary: w rule: length_induct)
  case (1 T)
  show ?case
  proof (cases "T = []")
    case True
    then show ?thesis using ini_next_space [OF 1(2)] by (simp add: ini_next_space)
  next
    case False
    obtain u where u: "body_of (T @ w) = body_of T @ u" "list_all is_space u" "u = [] \<or> line_of T = T \<and> CHR ''#'' \<notin> set T"
      by (rule body_of_spaces [OF 1(2)])
    have nou: "CHR ''='' \<notin> set u" using u(2) space_marks(3) unfolding list_all_iff by blast
    show ?thesis
    proof (cases "CHR ''='' \<in> set (body_of T)")
      case True
      then have "takeWhile (\<lambda>c. c \<noteq> CHR ''='') (body_of (T @ w)) = takeWhile (\<lambda>c. c \<noteq> CHR ''='') (body_of T)"
        unfolding u(1) by (auto simp: takeWhile_append)
      moreover have "CHR ''='' \<in> set (body_of (T @ w))" using True u(1) by simp
      ultimately have "ini_next (T @ w) = ini_next T"
        using ini_next_item [OF True refl refl] ini_next_item [of "T @ w", OF _ refl refl]
        by (simp only: rtrim_drop_spaces [OF 1(2)])
      then show ?thesis by simp
    next
      case noeq: False
      define t where "t = trim (body_of T)"
      define rest where "rest = drop (Suc (length (line_of T))) T"
      obtain v where v: "drop (Suc (length (line_of (T @ w)))) (T @ w) = rest @ v" "list_all is_space v"
        unfolding rest_def by (rule rest_of_spaces [OF 1(2)])
      have t: "trim (body_of (T @ w)) = t" unfolding u(1) t_def by (rule trim_spaces [OF u(2)])
      have noeq2: "CHR ''='' \<notin> set (body_of (T @ w))" "T @ w \<noteq> []" using noeq nou False unfolding u(1) by simp_all
      note nx = ini_next_no_item [OF False noeq t_def rest_def]
        ini_next_no_item [OF noeq2(2,1) t [symmetric] v(1) [symmetric]]
      show ?thesis
      proof (cases "t = []")
        case True
        let ?r = "dropWhile is_eol rest"
        have "length rest < length T" using False by (cases T) (auto simp: rest_def)
        then have len: "length ?r < length T" by (meson length_dropWhile_le le_less_trans)
        have "trim_rest (ini_next (dropWhile is_eol (rest @ v))) = trim_rest (ini_next ?r)"
        proof (cases "\<forall>c\<in>set rest. is_eol c")
          case True
          then have e: "?r = []" "dropWhile is_eol (rest @ v) = dropWhile is_eol v" by (auto simp: dropWhile_append)
          show ?thesis unfolding e using ini_next_space [OF dropWhile_space_end [OF v(2)]] by (simp add: ini_next_space)
        next
          case False
          then have "dropWhile is_eol (rest @ v) = ?r @ v" by (auto simp: dropWhile_append)
          then show ?thesis using 1(1) len v(2) by simp
        qed
        then show ?thesis using nx True by simp
      next
        case False
        then show ?thesis using nx rtrim_spaces [OF v(2), of rest] by simp
      qed
    qed
  qed
qed

lemma things_spaces: "list_all is_space w \<Longrightarrow> things (T @ w) = things T"
proof (induction T arbitrary: w rule: length_induct)
  case (1 T)
  note same = ini_next_spaces [OF 1(2), of T]
  show ?case
  proof (cases "ini_next T")
    case (Inl st)
    then have "ini_next (T @ w) = Inl st" using same by (cases "ini_next (T @ w)") auto
    then show ?thesis using Inl by (simp add: things_Inl)
  next
    case (Inr a)
    then obtain x R2 where T: "ini_next T = Inr (x, R2)" by (cases a) auto
    then obtain R1 where Tw: "ini_next (T @ w) = Inr (x, R1)" "rtrim R1 = rtrim R2"
      using same by (cases "ini_next (T @ w)") auto
    have len: "length (rtrim R2) < length T" using rest_shorter [OF T] rtrim_le le_less_trans by blast
    obtain w1 w2 where "R1 = rtrim R2 @ w1" "list_all is_space w1" "R2 = rtrim R2 @ w2" "list_all is_space w2"
      using rtrim_split [of R1] rtrim_split [of R2] Tw(2) by metis
    then have "things R1 = things R2" using 1(1) len by metis
    then show ?thesis using things_Inr [OF T] things_Inr [OF Tw(1)] by simp
  qed
qed

lemma things_rtrim: "things (rtrim R) = things R"
  using rtrim_split [of R] things_spaces by metis


section \<open>Written files\<close>

text \<open>
  Lines as they are written: an item, a section header, or a note of white space, each with a comment or without.
\<close>

datatype doc_line = ITEM_LINE string string string | SECTION_LINE string string | NOTE_LINE string string

fun line_text :: "doc_line \<Rightarrow> string" where
  "line_text (ITEM_LINE k v c) = k @ CHR ''='' # v @ c"
| "line_text (SECTION_LINE n c) = CHR ''['' # n @ CHR '']'' # c"
| "line_text (NOTE_LINE w c) = w @ c"

definition file_text :: "doc_line list \<Rightarrow> string" where
  "file_text ds = concat (map (\<lambda>d. line_text d @ [LF]) ds)"

definition comment_ok :: "string \<Rightarrow> bool" where
  "comment_ok c \<longleftrightarrow> (c = [] \<or> hd c = CHR ''#'') \<and> set c \<inter> {CR, LF, NUL} = {}"

definition plain :: "string \<Rightarrow> bool" where
  "plain s \<longleftrightarrow> set s \<inter> {CR, LF, NUL, CHR ''#''} = {}"

fun line_ok :: "doc_line \<Rightarrow> bool" where
  "line_ok (ITEM_LINE k v c) \<longleftrightarrow>
     plain k \<and> CHR ''='' \<notin> set k \<and> trim k = k \<and> plain v \<and> v \<noteq> [] \<and> trim v = v \<and> comment_ok c"
| "line_ok (SECTION_LINE n c) \<longleftrightarrow> plain n \<and> CHR ''='' \<notin> set n \<and> comment_ok c"
| "line_ok (NOTE_LINE w c) \<longleftrightarrow> plain w \<and> list_all is_space w \<and> comment_ok c"

fun line_outs :: "doc_line \<Rightarrow> ini_out list" where
  "line_outs (ITEM_LINE k v c) = [OUT_ITEM k v]"
| "line_outs (SECTION_LINE n c) = [OUT_SECTION n]"
| "line_outs (NOTE_LINE w c) = []"

lemma line_with_comment:
  assumes "plain x" "comment_ok c"
  shows "line_of (x @ c @ LF # R) = x @ c" "body_of (x @ c @ LF # R) = x"
proof -
  have "set (x @ c) \<inter> {CR, LF} = {}" using assms by (auto simp: plain_def comment_ok_def)
  then have "\<forall>a\<in>set (x @ c). \<not> is_eol a" by blast
  then have "line_of ((x @ c) @ LF # R) = x @ c" by (subst takeWhile_append2) simp_all
  then show l: "line_of (x @ c @ LF # R) = x @ c" by simp
  have "\<forall>a\<in>set x. a \<noteq> CHR ''#''" using assms(1) by (auto simp: plain_def)
  then have "takeWhile (\<lambda>a. a \<noteq> CHR ''#'') (x @ c) = x @ takeWhile (\<lambda>a. a \<noteq> CHR ''#'') c" by (simp add: takeWhile_append)
  also have "takeWhile (\<lambda>a. a \<noteq> CHR ''#'') c = []" using assms(2) by (cases c) (auto simp: comment_ok_def)
  finally show "body_of (x @ c @ LF # R) = x" unfolding l by simp
qed

lemma rtrim_solid: "s \<noteq> [] \<Longrightarrow> \<not> is_space (last s) \<Longrightarrow> rtrim (s @ y) = s @ rtrim y"
  by (cases s rule: rev_cases) (simp_all add: rtrim_def dropWhile_append dropWhile_eq_Nil_conv [THEN iffD2])

lemma trim_self:
  assumes "trim v = v"
  shows "rtrim v = v" "dropWhile is_space v = v" "v \<noteq> [] \<Longrightarrow> \<not> is_space (hd v)" "v \<noteq> [] \<Longrightarrow> \<not> is_space (last v)"
proof -
  have "length v \<le> length (rtrim v)" using assms length_dropWhile_le [of is_space "rtrim v"] by (simp add: trim_def)
  then show r: "rtrim v = v" using rtrim_prefix [of v] rtrim_le [of v] by (metis append_Nil2 drop_all)
  then show "dropWhile is_space v = v" using assms by (simp add: trim_def)
  then show "v \<noteq> [] \<Longrightarrow> \<not> is_space (hd v)" by (metis hd_dropWhile)
  have "dropWhile is_space (rev v) = rev v" using r by (simp add: rtrim_def rev_swap)
  then show "v \<noteq> [] \<Longrightarrow> \<not> is_space (last v)" using hd_dropWhile [of is_space "rev v"] by (simp add: hd_rev)
qed

lemma ini_next_eol: "ini_next (dropWhile is_eol R) = ini_next R"
proof (cases R)
  case (Cons c R')
  have "ini_next R = ini_next (dropWhile is_eol R')" if "is_eol c"
  proof -
    have "line_of R = []" using that Cons by simp
    then have "body_of R = []" "drop (Suc (length (line_of R))) R = R'" "R \<noteq> []" using Cons by simp_all
    then have "ini_next R = (if [] = [] then ini_next (dropWhile is_eol R') else ini_next R)"
      by (subst ini_next_no_item [of R "[]" R']) (simp_all add: trim_def rtrim_def)
    then show ?thesis by simp
  qed
  then show ?thesis using Cons by auto
qed simp

lemma things_eol: "things (dropWhile is_eol R) = things R"
  by (simp add: things.simps [of R] things.simps [of "dropWhile is_eol R"] ini_next_eol)

lemma rtrim_before:
  assumes "s \<noteq> [] \<and> \<not> is_space (last s) \<or> \<not> list_all is_space y"
  shows "rtrim (s @ y) = s @ rtrim y"
proof (cases "list_all is_space y")
  case True
  then show ?thesis using assms rtrim_solid by blast
next
  case False
  then show ?thesis by (auto simp: rtrim_def list_all_iff dropWhile_append)
qed

text \<open>
  The value of an item: what is written behind its leading blanks. Blanks at the end of it stay, unless nothing but white space
  follows in the file.
\<close>

lemma ini_next_value_line:
  assumes k: "plain k" "CHR ''='' \<notin> set k" "trim k = k" and v: "plain v" "v \<noteq> []" "\<not> is_space (hd v)" and c: "comment_ok c"
    and solid: "\<not> is_space (last v) \<or> \<not> list_all is_space (c @ LF # R)"
  obtains R' where "ini_next (k @ CHR ''='' # v @ c @ LF # R) = Inr (OUT_ITEM k v, R')" "things R' = things R"
proof -
  let ?T = "(k @ CHR ''='' # v) @ c @ LF # R" and ?y = "c @ LF # R"
  have body: "body_of ?T = k @ CHR ''='' # v" using assms
    by (intro line_with_comment) (auto simp: plain_def CR_def LF_def NUL_def)
  have name: "takeWhile (\<lambda>a. a \<noteq> CHR ''='') (body_of ?T) = k" unfolding body using k(2) by (auto simp: takeWhile_append)
  have after: "rtrim (drop (Suc (length k)) ?T) = v @ rtrim ?y"
    using rtrim_before [of v ?y] v(2) solid by simp
  obtain w where w: "?y = rtrim ?y @ w" "list_all is_space w" by (rule rtrim_split)
  obtain u where u: "drop (Suc (length (line_of (rtrim ?y @ w)))) (rtrim ?y @ w)
      = drop (Suc (length (line_of (rtrim ?y)))) (rtrim ?y) @ u" "list_all is_space u"
    by (rule rest_of_spaces [OF w(2)])
  define R' where "R' = drop (Suc (length (line_of (rtrim ?y)))) (rtrim ?y)"
  have "line_of ?y = c" using line_with_comment(1) [of "[]" c R] c by (simp add: plain_def)
  then have "R = R' @ u" using u(1) unfolding w(1) [symmetric] R'_def [symmetric] by simp
  then have R': "things R' = things R" using things_spaces [OF u(2)] by simp
  have noeol: "\<forall>a\<in>set v. \<not> is_eol a \<and> a \<noteq> CHR ''#''" using v(1) by (auto simp: plain_def)
  have line: "line_of (v @ rtrim ?y) = v @ line_of (rtrim ?y)" using noeol by (simp add: takeWhile_append)
  have "rtrim ?y = [] \<or> hd (rtrim ?y) = hd ?y" using w(1) by (metis hd_append2)
  moreover have "hd ?y = CHR ''#'' \<or> hd ?y = LF" using c by (cases c) (auto simp: comment_ok_def)
  ultimately have "takeWhile (\<lambda>a. \<not> is_eol a \<and> a \<noteq> CHR ''#'') (rtrim ?y) = []" by (cases "rtrim ?y") auto
  then have tw: "takeWhile (\<lambda>a. \<not> is_eol a \<and> a \<noteq> CHR ''#'') (v @ rtrim ?y) = v" using noeol by (subst takeWhile_append2) simp_all
  have dw: "dropWhile is_space (v @ rtrim ?y) = v @ rtrim ?y" using v(2,3) by (cases v) simp_all
  have nsp: "\<not> list_all is_space (line_of (v @ rtrim ?y))" unfolding line using v(2,3) by (cases v) simp_all
  have "CHR ''='' \<in> set (body_of ?T)" unfolding body by simp
  from ini_next_item [OF this name [symmetric] after [symmetric]]
  have "ini_next ?T = Inr (OUT_ITEM (trim k) v, drop (Suc (length (line_of (v @ rtrim ?y)))) (v @ rtrim ?y))"
    using nsp dw tw by simp
  also have "drop (Suc (length (line_of (v @ rtrim ?y)))) (v @ rtrim ?y) = R'" unfolding line R'_def by simp
  finally show thesis using that R' k(3) by simp
qed

lemma things_line:
  assumes "line_ok d"
  shows "things (line_text d @ LF # R) = (line_outs d @ fst (things R), snd (things R))"
proof (cases d)
  case (ITEM_LINE k v c)
  obtain R' where "ini_next (line_text d @ LF # R) = Inr (OUT_ITEM k v, R')" "things R' = things R"
    using assms ITEM_LINE trim_self [of v] by (auto intro: ini_next_value_line [of k v c R])
  then show ?thesis using ITEM_LINE things_Inr by fastforce
next
  case (SECTION_LINE n c)
  let ?x = "CHR ''['' # n @ '']''" and ?T = "(CHR ''['' # n @ '']'') @ c @ LF # R"
  have ok: "plain ?x" "comment_ok c" "CHR ''='' \<notin> set ?x" using assms SECTION_LINE
    by (auto simp: plain_def CR_def LF_def NUL_def)
  have "trim ?x = ?x" by (simp add: trim_def rtrim_def is_space_def)
  moreover have "drop (Suc (length (line_of ?T))) ?T = R" unfolding line_with_comment(1) [OF ok(1,2)] by simp
  ultimately have "ini_next ?T = Inr (OUT_SECTION n, R)"
    using ini_next_no_item [of ?T ?x R] ok(3) unfolding line_with_comment(2) [OF ok(1,2)] by (simp add: butlast_append)
  then show ?thesis using SECTION_LINE things_Inr by fastforce
next
  case (NOTE_LINE w c)
  let ?T = "w @ c @ LF # R"
  have ok: "plain w" "comment_ok c" "list_all is_space w" using assms NOTE_LINE by auto
  have "CHR ''='' \<notin> set w" using ok(3) space_marks(3) unfolding list_all_iff by blast
  moreover have "drop (Suc (length (line_of ?T))) ?T = R" unfolding line_with_comment(1) [OF ok(1,2)] by simp
  ultimately have "ini_next ?T = ini_next (dropWhile is_eol R)"
    using ini_next_no_item [of ?T "[]" R] trim_all_space [OF ok(3)] unfolding line_with_comment(2) [OF ok(1,2)] by simp
  then have "things ?T = things R" by (simp add: things.simps [of ?T] things.simps [of R] ini_next_eol)
  then show ?thesis using NOTE_LINE by simp
qed

theorem things_file:
  "list_all line_ok ds \<Longrightarrow> things (file_text ds @ R) = (concat (map line_outs ds) @ fst (things R), snd (things R))"
proof (induction ds)
  case (Cons d ds)
  then show ?case using things_line [of d "file_text ds @ R"] by (simp add: file_text_def)
qed (simp add: file_text_def)


section \<open>The parsers on written files\<close>

lemma ini_file_read_Some: "ini_file_read module_params True (Some b) = Inr b"
  by (simp add: ini_file_read_def qdf_file_read_def qdf_module_param_file_read_def)

fun items_of :: "doc_line list \<Rightarrow> (string \<times> string) list" where
  "items_of [] = []"
| "items_of (ITEM_LINE k v c # ds) = (k, v) # items_of ds"
| "items_of (_ # ds) = items_of ds"

fun is_section :: "doc_line \<Rightarrow> bool" where
  "is_section (SECTION_LINE n c) = True"
| "is_section _ = False"

text \<open>No line is read as the mark of the end.\<close>

fun no_end :: "doc_line \<Rightarrow> bool" where
  "no_end (ITEM_LINE k v c) \<longleftrightarrow> k \<noteq> ''END''"
| "no_end (SECTION_LINE n c) \<longleftrightarrow> n \<noteq> ''END''"
| "no_end (NOTE_LINE w c) \<longleftrightarrow> True"

text \<open>Items handed to the caller one after the other, up to the first that it fails; and the number it took.\<close>

fun deliver :: "'s item_cb \<Rightarrow> (string \<times> string) list \<Rightarrow> 's \<Rightarrow> 's \<times> nat" where
  "deliver cb [] s = (s, 0)"
| "deliver cb ((k, v) # xs) s =
     (case cb s k v of (s', st) \<Rightarrow>
        if st \<noteq> QDF_STATUS_SUCCESS then (s', 0)
        else (case deliver cb xs s' of (s2, n) \<Rightarrow> (s2, Suc n)))"

abbreviation outs_of :: "doc_line list \<Rightarrow> ini_out list" where
  "outs_of ds \<equiv> concat (map line_outs ds)"

lemma parse_things_deliver:
  "list_all no_end ds \<Longrightarrow> parse_things cb False (outs_of ds) s n =
    (case deliver cb (items_of ds) s of (s', m) \<Rightarrow> (s', n + m))"
proof (induction ds arbitrary: s n)
  case (Cons d ds)
  then show ?case by (cases d) (auto split: prod.splits)
qed simp

lemma parse_things_stop:
  "list_all no_end ds \<Longrightarrow> parse_things cb True (outs_of ds) s n =
    parse_things cb False (outs_of (takeWhile (\<lambda>d. \<not> is_section d) ds)) s n"
proof (induction ds arbitrary: s n)
  case (Cons d ds)
  then show ?case by (cases d) (auto split: prod.splits)
qed simp

lemma line_text_no_NUL: "line_ok d \<Longrightarrow> no_NUL (line_text d)"
  by (cases d) (auto simp: plain_def comment_ok_def NUL_def)

lemma file_text_no_NUL: "list_all line_ok ds \<Longrightarrow> no_NUL (file_text ds)"
  by (auto simp: file_text_def list_all_iff line_text_no_NUL)

lemma c_str_file: "list_all line_ok ds \<Longrightarrow> c_str (file_text ds @ R) 0 = file_text ds @ c_str R 0"
  using file_text_no_NUL [of ds] by (auto simp: c_str_def takeWhile_append)

lemma things_nothing: "things [] = ([], QDF_STATUS_E_FAILURE)"
  by (simp add: things_Inl ini_next_space)

lemma things_file_only: "list_all line_ok ds \<Longrightarrow> things (c_str (file_text ds) 0) = (outs_of ds, QDF_STATUS_E_FAILURE)"
  using things_file [of ds "[]"] c_str_file [of ds "[]"] by (simp add: things_nothing c_str_def [of "[]"])

definition items_read :: "bool \<Rightarrow> doc_line list \<Rightarrow> (string \<times> string) list" where
  "items_read stop_at_section ds = items_of (if stop_at_section then takeWhile (\<lambda>d. \<not> is_section d) ds else ds)"

lemma takeWhile_all: "list_all P xs \<Longrightarrow> list_all P (takeWhile Q xs)"
  by (auto simp: list_all_iff dest: set_takeWhileD)

lemma parse_things_items:
  "list_all no_end ds \<Longrightarrow> parse_things cb stop (outs_of ds) s 0 = deliver cb (items_read stop ds) s"
  by (cases stop) (simp_all add: items_read_def parse_things_stop parse_things_deliver takeWhile_all)

text \<open>
  C17: Round trip of qdf_ini_parse: the items of a file that was written line by line - with comments, blank lines and
  section headers between them - come to the caller's handler in their order, with the keys and values that were
  written, up to the first one that the handler fails; the result is success if the handler took one.
\<close>

theorem ini_parse_roundtrip:
  assumes "list_all line_ok ds" "list_all no_end ds"
  shows "qdf_ini_parse stop_at_section module_params True (Some (file_text ds)) item_cb None s =
    (case deliver item_cb (items_read stop_at_section ds) s of
       (s', n) \<Rightarrow> (s', if n = 0 then QDF_STATUS_E_INVAL else QDF_STATUS_SUCCESS))"
  using assms
  by (simp add: qdf_ini_parse_def ini_file_read_Some parse_loop_things things_file_only parse_things_items Let_def split: prod.splits)

definition log_item :: "(string \<times> string) list item_cb" where
  "log_item s k v = (s @ [(k, v)], if k = ''gBad'' then QDF_STATUS_E_INVAL else QDF_STATUS_SUCCESS)"

theorem ini_parse_roundtrip_witness:
  "qdf_ini_parse False False True
     (Some (file_text [NOTE_LINE [] ''# radio'', ITEM_LINE ''gA'' ''1,2'' '''', SECTION_LINE ''wlan'' ''#s'',
        NOTE_LINE '' '' '''', ITEM_LINE ''gB'' ''x=y'' ''#c'', ITEM_LINE ''gBad'' ''0'' '''', ITEM_LINE ''gC'' ''7'' '''']))
     log_item None [] =
   ([(''gA'', ''1,2''), (''gB'', ''x=y''), (''gBad'', ''0'')], QDF_STATUS_SUCCESS)"
  by (subst ini_parse_roundtrip) code_simp+

text \<open>The lines of one section.\<close>

fun not_section :: "string \<Rightarrow> doc_line \<Rightarrow> bool" where
  "not_section name (SECTION_LINE n c) \<longleftrightarrow> n \<noteq> name"
| "not_section name _ \<longleftrightarrow> True"

lemma section_things_before:
  "list_all no_end pre \<Longrightarrow> list_all (not_section name) pre \<Longrightarrow>
   section_things cb name False False (outs_of pre @ xs) s = section_things cb name False False xs s"
proof (induction pre)
  case (Cons d ds)
  then show ?case by (cases d) auto
qed simp

lemma section_things_after:
  "list_all (not_section name) suf \<Longrightarrow> section_things cb name False complete (outs_of suf) s = s"
proof (induction suf arbitrary: complete)
  case (Cons d ds)
  then show ?case by (cases d) auto
qed simp

lemma section_things_body:
  assumes "list_all no_end body" "\<forall>d\<in>set body. \<not> is_section d"
    and "list_all (not_section name) suf" "suf = [] \<or> is_section (hd suf)"
  shows "section_things cb name True complete (outs_of body @ outs_of suf) s = fst (deliver cb (items_of body) s)"
  using assms(1,2)
proof (induction body arbitrary: s)
  case Nil
  then show ?case
  proof (cases suf)
    case (Cons d ds)
    then obtain n c where "d = SECTION_LINE n c" using assms(4) by (cases d) auto
    then show ?thesis using Cons assms(3) section_things_after [of name ds cb True s] by simp
  qed simp
next
  case (Cons d ds)
  then show ?case by (cases d) (auto split: prod.splits)
qed

text \<open>
  C25: qdf_ini_section_parse hands out the items of the section it was asked for and no others, in their order,
  up to the first that the caller fails, for a well-formed file that has a section of this name once; for one that
  has none, it hands out nothing. When the file is read, the result is success in every case. When it cannot be
  read, or when there is no memory for it, nothing is handed out and the result is an error.
\<close>

theorem ini_section_parse_section:
  assumes "list_all line_ok (pre @ SECTION_LINE name c # body @ suf)" "list_all no_end (pre @ SECTION_LINE name c # body)"
    and "list_all (not_section name) (pre @ suf)" "\<forall>d\<in>set body. \<not> is_section d" "suf = [] \<or> is_section (hd suf)"
  shows "qdf_ini_section_parse module_params True (Some (file_text (pre @ SECTION_LINE name c # body @ suf))) item_cb name s =
      (fst (deliver item_cb (items_of body) s), QDF_STATUS_SUCCESS) \<and>
    qdf_ini_section_parse module_params True (Some (file_text pre)) item_cb name s = (s, QDF_STATUS_SUCCESS) \<and>
    snd (qdf_ini_section_parse module_params True (Some any_text) item_cb name s) = QDF_STATUS_SUCCESS \<and>
    (\<exists>err. err \<noteq> QDF_STATUS_SUCCESS \<and> qdf_ini_section_parse module_params mem None item_cb name s = (s, err)) \<and>
    (\<exists>err. err \<noteq> QDF_STATUS_SUCCESS \<and> qdf_ini_section_parse module_params False file item_cb name s = (s, err))"
proof (intro conjI)
  have "section_things item_cb name True False (outs_of body @ outs_of suf) s = fst (deliver item_cb (items_of body) s)"
    by (rule section_things_body) (use assms in auto)
  then show "qdf_ini_section_parse module_params True (Some (file_text (pre @ SECTION_LINE name c # body @ suf))) item_cb name s =
      (fst (deliver item_cb (items_of body) s), QDF_STATUS_SUCCESS)"
    using assms(2,3) by (simp add: qdf_ini_section_parse_def ini_file_read_Some section_loop_things things_file_only [OF assms(1)]
      section_things_before)
  show "qdf_ini_section_parse module_params True (Some (file_text pre)) item_cb name s = (s, QDF_STATUS_SUCCESS)"
    using assms section_things_before [of pre name item_cb "[]" s]
    by (simp add: qdf_ini_section_parse_def ini_file_read_Some section_loop_things things_file_only)
  show "snd (qdf_ini_section_parse module_params True (Some any_text) item_cb name s) = QDF_STATUS_SUCCESS"
    by (simp add: qdf_ini_section_parse_def ini_file_read_Some)
  show "\<exists>err. err \<noteq> QDF_STATUS_SUCCESS \<and> qdf_ini_section_parse module_params mem None item_cb name s = (s, err)"
    by (auto simp: qdf_ini_section_parse_def ini_file_read_def qdf_module_param_file_read_def qdf_file_read_def)
  show "\<exists>err. err \<noteq> QDF_STATUS_SUCCESS \<and> qdf_ini_section_parse module_params False file item_cb name s = (s, err)"
    by (auto simp: qdf_ini_section_parse_def ini_file_read_def qdf_module_param_file_read_def qdf_file_read_def split: option.splits)
qed

theorem ini_section_parse_section_witness:
  "qdf_ini_section_parse False True (Some (file_text ([ITEM_LINE ''gA'' ''1'' ''''] @ SECTION_LINE ''wlan0'' '''' #
      [ITEM_LINE ''gB'' ''2'' ''#c'', NOTE_LINE '''' '''', ITEM_LINE ''gC'' ''3'' ''''] @
      [SECTION_LINE ''wlan1'' '''', ITEM_LINE ''gD'' ''4'' '''']))) log_item ''wlan0'' [] =
    ([(''gB'', ''2''), (''gC'', ''3'')], QDF_STATUS_SUCCESS)"
  by (subst conjunct1 [OF ini_section_parse_section]) code_simp+

section \<open>Texts that are read as something else\<close>

text \<open>
  C32: A line that is no item, no section header and no note ends the reading, and nobody is told: the parse of the file
  gives what it gives for the lines before, the status included.
\<close>

theorem ini_parse_ignores_bad_line:
  assumes "list_all line_ok ds" "plain bad" "CHR ''='' \<notin> set bad" "trim bad \<noteq> []" "hd (trim bad) \<noteq> CHR ''[''" "trim bad \<noteq> ''END''"
  shows "qdf_ini_parse stop_at_section module_params True (Some (file_text ds @ bad @ LF # R)) item_cb None s =
    qdf_ini_parse stop_at_section module_params True (Some (file_text ds)) item_cb None s"
proof -
  have nz: "no_NUL bad" using assms(2) by (auto simp: plain_def)
  have "c_str (bad @ LF # R) 0 = bad @ [] @ LF # c_str R 0"
    using nz by (auto simp: c_str_def takeWhile_append)
  moreover have "ini_next (bad @ [] @ LF # c_str R 0) = Inl QDF_STATUS_E_INVAL"
  proof -
    have "comment_ok []" by (simp add: comment_ok_def)
    note b = line_with_comment [OF assms(2) this, of "c_str R 0"]
    have "CHR ''='' \<notin> set (body_of (bad @ [] @ LF # c_str R 0))" unfolding b(2) by (rule assms(3))
    then show ?thesis using ini_next_no_item [of "bad @ [] @ LF # c_str R 0" "trim bad", OF _ _ _ refl] assms(4-6)
      unfolding b(2) by simp
  qed
  ultimately have "things (c_str (file_text ds @ bad @ LF # R) 0) = (outs_of ds, QDF_STATUS_E_INVAL)"
    using c_str_file [OF assms(1), of "bad @ LF # R"] things_file [OF assms(1)] by (simp add: things_Inl)
  then show ?thesis by (simp add: qdf_ini_parse_def ini_file_read_Some parse_loop_things things_file_only [OF assms(1)])
qed

theorem ini_parse_ignores_bad_line_witness:
  "qdf_ini_parse False False True (Some (file_text [ITEM_LINE ''gA'' ''1'' ''''] @ ''gB:2'' @ LF # ''gC=3'')) log_item None [] =
     ([(''gA'', ''1'')], QDF_STATUS_SUCCESS)"
  by (subst ini_parse_ignores_bad_line) code_simp+


lemma rtrim_nonempty: "\<not> list_all is_space s \<Longrightarrow> rtrim s \<noteq> []"
  using rtrim_split [of s] by (metis append_Nil)

lemma trim_leading: "list_all is_space w \<Longrightarrow> dropWhile is_space (rtrim (w @ s)) = trim s"
proof (cases "list_all is_space s")
  case True
  assume "list_all is_space w"
  then show ?thesis using True rtrim_space [of "w @ s"] by (simp add: trim_all_space)
next
  case False
  assume "list_all is_space w"
  then show ?thesis using rtrim_before [of w s] False by (auto simp: trim_def list_all_iff dropWhile_append)
qed

lemma file_text_append: "file_text (a @ b) = file_text a @ file_text b"
  by (simp add: file_text_def)

lemma ini_next_empty_value:
  assumes "plain k" "CHR ''='' \<notin> set k" "trim k = k" "list_all is_space w" "plain w"
  obtains R' where "ini_next (k @ CHR ''='' # w @ LF # R) = Inr (OUT_ITEM k (trim R), R')" "things R' = things R"
proof -
  let ?T = "(k @ CHR ''='' # w) @ [] @ LF # R" and ?y = "w @ LF # R"
  have body: "body_of ?T = k @ CHR ''='' # w"
    using assms by (intro line_with_comment) (auto simp: plain_def comment_ok_def CR_def LF_def NUL_def)
  have name: "takeWhile (\<lambda>a. a \<noteq> CHR ''='') (body_of ?T) = k" unfolding body using assms(2) by (auto simp: takeWhile_append)
  have after: "rtrim (drop (Suc (length k)) ?T) = rtrim ?y" by simp
  have sp: "list_all is_space (w @ [LF])" using assms(4) by simp
  have line_y: "line_of ?y = w" using line_with_comment(1) [of w "[]" R] assms(5) by (simp add: comment_ok_def)
  obtain u where u: "?y = rtrim ?y @ u" "list_all is_space u" by (rule rtrim_split)
  obtain u2 where u2: "drop (Suc (length (line_of (rtrim ?y @ u)))) (rtrim ?y @ u)
      = drop (Suc (length (line_of (rtrim ?y)))) (rtrim ?y) @ u2" "list_all is_space u2"
    by (rule rest_of_spaces [OF u(2)])
  define R' where "R' = drop (Suc (length (line_of (rtrim ?y)))) (rtrim ?y)"
  have "R = R' @ u2" using u2(1) unfolding u(1) [symmetric] R'_def [symmetric] line_y by simp
  then have R': "things R' = things R" using things_spaces [OF u2(2)] by simp
  have "set (line_of (rtrim ?y)) \<subseteq> set w"
  proof (cases "list_all is_space R")
    case True
    then have "rtrim ?y = []" using assms(4) by (intro rtrim_space) simp
    then show ?thesis by simp
  next
    case False
    then have "rtrim ((w @ [LF]) @ R) = (w @ [LF]) @ rtrim R" by (intro rtrim_before) simp
    then have "rtrim ?y = w @ [] @ LF # rtrim R" by simp
    then show ?thesis using line_with_comment(1) [of w "[]" "rtrim R"] assms(5) by (simp add: comment_ok_def)
  qed
  then have all: "list_all is_space (line_of (rtrim ?y))" using assms(4) by (auto simp: list_all_iff)
  have val: "dropWhile is_space (rtrim ?y) = trim R"
    using trim_leading [OF sp, of R] by simp
  have "CHR ''='' \<in> set (body_of ?T)" unfolding body by simp
  from ini_next_item [OF this name [symmetric] after [symmetric]]
  have "ini_next ?T = Inr (OUT_ITEM (trim k) (trim R), R')" using all val by (simp add: R'_def)
  then show thesis using that R' assms(3) by simp
qed

text \<open>
  C31: An item without a value - nothing, or blanks, between its equals sign and the end of the line - is handed out with
  all the rest of the file as its value; the lines it has swallowed are then read again as items of their own.
\<close>

theorem ini_empty_value_swallows_file:
  assumes "list_all line_ok (ds @ ds2)" "list_all no_end (ds @ ds2)" "plain k" "CHR ''='' \<notin> set k" "trim k = k" "k \<noteq> ''END''"
    and "list_all is_space w" "plain w"
  shows "qdf_ini_parse False module_params True (Some (file_text ds @ k @ CHR ''='' # w @ LF # file_text ds2)) item_cb None s =
    (case deliver item_cb (items_of ds @ (k, trim (file_text ds2)) # items_of ds2) s of
       (s', n) \<Rightarrow> (s', if n = 0 then QDF_STATUS_E_INVAL else QDF_STATUS_SUCCESS))"
proof -
  let ?T = "k @ CHR ''='' # w @ LF # file_text ds2"
  have ok: "list_all line_ok ds" "list_all line_ok ds2" using assms(1) by simp_all
  obtain R' where R': "ini_next ?T = Inr (OUT_ITEM k (trim (file_text ds2)), R')" "things R' = things (file_text ds2)"
    by (rule ini_next_empty_value [OF assms(3-5,7,8)])
  have "no_NUL ?T" using assms(3,8) file_text_no_NUL [OF ok(2)] by (auto simp: plain_def)
  then have "c_str ?T 0 = ?T" using take_NUL [of ?T "[]"] by (simp add: c_str_def)
  then have "things (c_str (file_text ds @ ?T) 0) = (outs_of ds @ OUT_ITEM k (trim (file_text ds2)) # outs_of ds2, QDF_STATUS_E_FAILURE)"
    using things_file [OF ok(1), of ?T] c_str_file [OF ok(1), of ?T] things_Inr [OF R'(1)] R'(2)
      things_file [OF ok(2), of "[]"] by (simp add: things_nothing)
  moreover have "parse_things item_cb False (outs_of ds @ OUT_ITEM k v # outs_of ds2) s 0 =
      deliver item_cb (items_of ds @ (k, v) # items_of ds2) s" for v
  proof -
    let ?ds = "ds @ ITEM_LINE k v [] # ds2"
    have "items_of (a @ b) = items_of a @ items_of b" for a b by (induction a rule: items_of.induct) simp_all
    then show ?thesis using parse_things_deliver [of ?ds item_cb s 0] assms(2,6) by simp
  qed
  ultimately show ?thesis by (simp add: qdf_ini_parse_def ini_file_read_Some parse_loop_things Let_def split: prod.splits)
qed

theorem ini_empty_value_swallows_file_witness:
  "qdf_ini_parse False False True (Some (file_text [ITEM_LINE ''gA'' ''1'' ''''] @ ''gName'' @ CHR ''='' # '' '' @ LF #
      file_text [NOTE_LINE '''' '''', ITEM_LINE ''gB'' ''2'' '''', ITEM_LINE ''gC'' ''3'' ''''])) log_item None [] =
   ([(''gA'', ''1''), (''gName'', ''gB=2'' @ LF # ''gC=3''), (''gB'', ''2''), (''gC'', ''3'')], QDF_STATUS_SUCCESS)"
  by (subst ini_empty_value_swallows_file) code_simp+

section \<open>The check\<close>

lemma check_things_items:
  "list_all no_end ds \<Longrightarrow> check_things (outs_of ds) st \<longleftrightarrow>
    st = QDF_STATUS_E_FAILURE \<and> list_all (\<lambda>(k, v). qdf_validate_key k = QDF_STATUS_SUCCESS \<and> qdf_validate_value v = QDF_STATUS_SUCCESS) (items_of ds)"
proof (induction ds)
  case (Cons d ds)
  then show ?case by (cases d) auto
qed simp

text \<open>
  qdf_valid_ini_check accepts a file that was written line by line if and only if every character of it, comments included, is
  one of the allowed ones and every item has a key of letters, digits and underscores and a value of letters, digits
  and the allowed punctuation.
\<close>

theorem ini_check_written_file:
  assumes "list_all line_ok ds" "list_all no_end ds"
  shows "qdf_valid_ini_check module_params True (Some (file_text ds)) \<longleftrightarrow>
    list_all ini_char_ok (file_text ds) \<and>
    list_all (\<lambda>(k, v). qdf_validate_key k = QDF_STATUS_SUCCESS \<and> qdf_validate_value v = QDF_STATUS_SUCCESS) (items_of ds)"
  using c_str_file [OF assms(1), of "[]"] things_file [OF assms(1), of "[]"]
  by (simp add: qdf_valid_ini_check_def ini_file_read_Some qdf_check_ini_validity_def check_loop_things things_nothing
      check_things_items [OF assms(2)] c_str_def [of "[]"])

theorem ini_check_written_file_witness:
  "qdf_valid_ini_check False True (Some (file_text [NOTE_LINE '''' ''# radio'', ITEM_LINE ''gA'' ''1,2'' '''', SECTION_LINE ''wlan'' ''''])) \<and>
   \<not> qdf_valid_ini_check False True (Some (file_text [ITEM_LINE ''gA'' ''-1'' '''', ITEM_LINE ''g-B'' ''2'' '''']))"
  by (subst (1 2) ini_check_written_file) code_simp+

text \<open>Three characters pass the check of the values and not that of the file.\<close>

lemma ini_check_no_plus:
  "qdf_validate_value ''+&|'' = QDF_STATUS_SUCCESS \<and> list_all (\<lambda>c. \<not> ini_char_ok c) ''+&|''"
  by code_simp

lemma is_space_chars:
  "is_space c \<Longrightarrow> c \<in> {CHR 0x09, CHR 0x0A, CHR 0x0B, CHR 0x0C, CHR 0x0D, CHR '' '', CHR 0xA0}"
proof -
  assume "is_space c"
  moreover have "n \<in> {9, 10, 11, 12, 13, 32, 160}" if "(9 \<le> n \<and> n \<le> 13) \<or> n = 32 \<or> n = 160" for n :: nat
    using that by (simp, arith)
  ultimately have "of_char c \<in> {9, 10, 11, 12, 13, 32, 160 :: nat}" by (simp add: is_space_def Let_def)
  then have "c \<in> char_of ` {9, 10, 11, 12, 13, 32, 160 :: nat}" by (metis char_of_char image_eqI)
  then show ?thesis by (simp add: char_of_def bit_simps)
qed

lemma value_no_space: "qdf_validate_value v = QDF_STATUS_SUCCESS \<Longrightarrow> c \<in> set v \<Longrightarrow> \<not> is_space c"
proof
  assume "qdf_validate_value v = QDF_STATUS_SUCCESS" "c \<in> set v" "is_space c"
  then have "ascii_alnum c \<or> c \<in> set '',:-+&|''" and "c \<in> {CHR 0x09, CHR 0x0A, CHR 0x0B, CHR 0x0C, CHR 0x0D, CHR '' '', CHR 0xA0}"
    using is_space_chars by (auto simp: qdf_validate_value_def list_all_iff split: if_splits)
  then show False by (auto simp: ascii_alnum_def in_range_def)
qed

text \<open>
  A comment that is set off from a value by blanks leaves the blanks in the value, and such a file fails the check: so
  does the example in the header of \<open>qdf_parse.h\<close>.
\<close>

lemma ini_blanks_before_comment:
  assumes "plain k" "CHR ''='' \<notin> set k" "trim k = k" "k \<noteq> ''END''"
    and "plain v" "v \<noteq> []" "\<not> is_space (hd v)" "is_space (last v)" "comment_ok c" "c \<noteq> []"
  shows "qdf_ini_parse False module_params True (Some (k @ CHR ''='' # v @ c @ [LF])) item_cb None s =
      (case deliver item_cb [(k, v)] s of
         (s', n) \<Rightarrow> (s', if n = 0 then QDF_STATUS_E_INVAL else QDF_STATUS_SUCCESS)) \<and>
    \<not> qdf_valid_ini_check module_params True (Some (k @ CHR ''='' # v @ c @ [LF]))"
proof -
  let ?T = "k @ CHR ''='' # v @ c @ [LF]"
  have "\<not> list_all is_space (c @ [LF])" using assms(9,10) by (cases c) (auto simp: comment_ok_def)
  then obtain R' where "ini_next ?T = Inr (OUT_ITEM k v, R')" "things R' = things []"
    using ini_next_value_line [OF assms(1-3,5-7,9), of "[]"] by blast
  then have th: "things ?T = ([OUT_ITEM k v], QDF_STATUS_E_FAILURE)" using things_Inr by (fastforce simp: things_nothing)
  have "no_NUL ?T" using assms(1,5,9) by (auto simp: plain_def comment_ok_def)
  then have c: "c_str ?T 0 = ?T" using take_NUL [of ?T "[]"] by (simp add: c_str_def)
  have "qdf_validate_value v \<noteq> QDF_STATUS_SUCCESS" using value_no_space [of v "last v"] assms(6,8) by auto
  then have "\<not> qdf_valid_ini_check module_params True (Some ?T)"
    using th assms(4) by (simp add: qdf_valid_ini_check_def ini_file_read_Some qdf_check_ini_validity_def check_loop_things c)
  moreover have "qdf_ini_parse False module_params True (Some ?T) item_cb None s =
      (case deliver item_cb [(k, v)] s of (s', n) \<Rightarrow> (s', if n = 0 then QDF_STATUS_E_INVAL else QDF_STATUS_SUCCESS))"
    using th assms(4) by (simp add: qdf_ini_parse_def ini_file_read_Some parse_loop_things c split: prod.splits)
  ultimately show ?thesis by blast
qed

lemma ini_documented_comment:
  "qdf_ini_parse False False True (Some (''someKey2'' @ CHR ''='' # ''someValue2 '' @ ''# this is also a comment'' @ [LF])) log_item None [] =
     ([(''someKey2'', ''someValue2 '')], QDF_STATUS_SUCCESS) \<and>
   \<not> qdf_valid_ini_check False True (Some (''someKey2'' @ CHR ''='' # ''someValue2 '' @ ''# this is also a comment'' @ [LF]))"
proof -
  have p: "plain ''someKey2'' \<and> CHR ''='' \<notin> set ''someKey2'' \<and> trim ''someKey2'' = ''someKey2'' \<and> ''someKey2'' \<noteq> ''END'' \<and>
    plain ''someValue2 '' \<and> ''someValue2 '' \<noteq> [] \<and> \<not> is_space (hd ''someValue2 '') \<and> is_space (last ''someValue2 '') \<and>
    comment_ok ''# this is also a comment'' \<and> ''# this is also a comment'' \<noteq> []" by code_simp
  have d: "(case deliver log_item [(''someKey2'', ''someValue2 '')] [] of
      (s', n) \<Rightarrow> (s', if n = 0 then QDF_STATUS_E_INVAL else QDF_STATUS_SUCCESS)) = ([(''someKey2'', ''someValue2 '')], QDF_STATUS_SUCCESS)"
    by code_simp
  from p show ?thesis unfolding d [symmetric]
    by (elim conjE) (rule ini_blanks_before_comment; assumption)
qed

end
