(* ===== verification/Qdf_Parse_Correct.thy ===== *)
theory Qdf_Parse_Correct
  imports Qdf_Parse
begin

text \<open>
  Correctness of the string parsers: the cursor discipline every \<open>qdf_consume_*\<close> obeys (the locale
  \<open>cursor_consumer\<close>, interpreted for each of them), the value the digit loop computes, round trips
  against the printed forms, ranges, and what reaches the caller on errors.
\<close>

section \<open>The cursor discipline\<close>

text \<open>
  A consumer leaves the cursor alone when it fails; when it succeeds it moves forward and does not
  pass the terminator.
\<close>

locale cursor_consumer =
  fixes consume :: "string \<Rightarrow> nat \<Rightarrow> nat \<times> 'a option"
  assumes fail_restores: "consume s p = (q, None) \<Longrightarrow> q = p"
    and ok_advances: "consume s p = (q, Some x) \<Longrightarrow> p < q \<and> q \<le> length s"
begin

lemma cursor_in_string: "consume s p = (q, r) \<Longrightarrow> p \<le> length s \<Longrightarrow> p \<le> q \<and> q \<le> length s"
  using fail_restores ok_advances by (cases r) (fastforce dest: less_imp_le)+

lemma fst_in_string: "p \<le> length s \<Longrightarrow> p \<le> fst (consume s p) \<and> fst (consume s p) \<le> length s"
  using cursor_in_string by (metis prod.collapse)

lemma at_end_fails: "length s \<le> p \<Longrightarrow> consume s p = (p, None)"
  using fail_restores ok_advances
  by (metis linorder_not_less not_None_eq order.strict_trans1 prod.exhaust_sel)

end

lemma consume_dec_Some_less:
  "qdf_consume_dec s p = (p', Some d) \<Longrightarrow> p' = Suc p \<and> p < length s"
  by (cases "p < length s")
    (auto simp: qdf_consume_dec_def Let_def str_at_beyond NUL_def split: if_splits)

lemma octet_loop_cursor:
  "qdf_octet_loop s p n len octet = (q, len', octet') \<Longrightarrow> n + unat len < 256 \<Longrightarrow>
   q = p + (unat len' - unat len) \<and> unat len \<le> unat len' \<and> unat len' \<le> unat len + n
   \<and> (p < q \<longrightarrow> q \<le> length s)"
proof (induction s p n len octet rule: qdf_octet_loop.induct)
  case (2 s p n len octet)
  show ?case
  proof (cases "qdf_consume_dec s p")
    case (Pair p1 r)
    show ?thesis
    proof (cases r)
      case None
      then have "p1 = p"
        using Pair by (auto simp: qdf_consume_dec_def Let_def split: if_splits)
      then show ?thesis using 2 Pair None by simp
    next
      case (Some d)
      have p1: "p1 = Suc p" "p < length s"
        using Pair Some consume_dec_Some_less by auto
      have len1: "unat (len + 1) = Suc (unat len)"
        using "2.prems"(2) by (intro unat_inc) simp
      show ?thesis
        using "2.IH" [OF Pair [symmetric] Some] "2.prems" Pair Some p1 len1 by auto
    qed
  qed
qed auto

lemma consume_char_Some_less:
  "qdf_consume_char c s p = (q, Some x) \<Longrightarrow> c \<noteq> NUL \<Longrightarrow> q = Suc p \<and> p < length s"
  using str_at_not_NUL [of s p] by (auto simp: qdf_consume_char_def split: if_splits)

lemma consume_None:
  "qdf_consume_char c s p = (q, None) \<Longrightarrow> q = p"
  "qdf_consume_dec s p = (q, None) \<Longrightarrow> q = p"
  "qdf_consume_hex s p = (q, None) \<Longrightarrow> q = p"
  by (auto simp: qdf_consume_char_def qdf_consume_dec_def qdf_consume_hex_def Let_def
      split: if_splits)

lemma consume_hex_pair_None: "qdf_consume_hex_pair s p = (q, None) \<Longrightarrow> q = p"
  by (auto simp: qdf_consume_hex_pair_def dest!: consume_None(3) consume_hex_Some_less
      split: prod.splits option.splits)

lemma consume_octet_dec_None: "qdf_consume_octet_dec s p = (q, None) \<Longrightarrow> q = p"
  using octet_loop_cursor [of s p 3 0 0]
  by (auto simp: qdf_consume_octet_dec_def split: prod.splits if_splits)

lemma consume_octet_dec_Some:
  "qdf_consume_octet_dec s p = (q, Some x) \<Longrightarrow> p < q \<and> q \<le> length s"
  using octet_loop_cursor [of s p 3 0 0]
  by (auto simp: qdf_consume_octet_dec_def unat_gt_0 split: prod.splits if_splits)

lemma hextet_loop_cursor:
  "qdf_hextet_loop s p n len hextet = (q, len', hextet') \<Longrightarrow> n + unat len < 256 \<Longrightarrow>
   q = p + (unat len' - unat len) \<and> unat len \<le> unat len' \<and> unat len' \<le> unat len + n
   \<and> (p < q \<longrightarrow> q \<le> length s)"
proof (induction s p n len hextet rule: qdf_hextet_loop.induct)
  case (2 s p n len hextet)
  show ?case
  proof (cases "qdf_consume_hex s p")
    case (Pair p1 r)
    show ?thesis
    proof (cases r)
      case None
      then show ?thesis using 2 Pair consume_None(3) by fastforce
    next
      case (Some d)
      have p1: "p1 = Suc p" "p < length s"
        using Pair Some consume_hex_Some_less by auto
      have len1: "unat (len + 1) = Suc (unat len)"
        using "2.prems"(2) by (intro unat_inc) simp
      show ?thesis
        using "2.IH" [OF Pair [symmetric] Some] "2.prems" Pair Some p1 len1 by auto
    qed
  qed
qed auto

lemma consume_hextet_None: "qdf_consume_hextet s p = (q, None) \<Longrightarrow> q = p"
  using hextet_loop_cursor [of s p 4 0 0]
  by (auto simp: qdf_consume_hextet_def split: prod.splits if_splits)

lemma consume_hextet_Some: "qdf_consume_hextet s p = (q, Some x) \<Longrightarrow> p < q \<and> q \<le> length s"
  using hextet_loop_cursor [of s p 4 0 0]
  by (auto simp: qdf_consume_hextet_def unat_gt_0 split: prod.splits if_splits)

lemmas consume_facts =
  consume_None consume_hex_pair_None consume_octet_dec_None consume_hextet_None
  consume_dec_Some_less consume_hex_Some_less consume_octet_dec_Some consume_hextet_Some

interpretation colon: cursor_consumer "qdf_consume_char (CHR '':'')"
  by unfold_locales (auto simp: NUL_def dest: consume_None consume_char_Some_less)

interpretation dot: cursor_consumer "qdf_consume_char (CHR ''.'')"
  by unfold_locales (auto simp: NUL_def dest: consume_None consume_char_Some_less)

interpretation dec: cursor_consumer qdf_consume_dec
  by unfold_locales (auto dest: consume_facts)

interpretation hex: cursor_consumer qdf_consume_hex
  by unfold_locales (auto dest: consume_facts)

interpretation octet_dec: cursor_consumer qdf_consume_octet_dec
  by unfold_locales (auto dest: consume_facts)

interpretation hex_pair: cursor_consumer qdf_consume_hex_pair
  by unfold_locales
    (auto dest: consume_hex_pair_None,
     auto simp: qdf_consume_hex_pair_def dest!: consume_hex_Some_less
       split: prod.splits option.splits)

interpretation hextet: cursor_consumer qdf_consume_hextet
  by unfold_locales (auto dest: consume_facts)

lemma left_trim_bounds:
  "p \<le> length s \<Longrightarrow> p \<le> qdf_str_left_trim s p \<and> qdf_str_left_trim s p \<le> length s"
proof (induction s p rule: qdf_str_left_trim.induct)
  case (1 s p)
  then show ?case
    by (cases "is_space (str_at s p)")
      (auto simp: qdf_str_left_trim.simps [of s p] dest: is_space_in_range)
qed

lemma consume_radix_cursor:
  "qdf_consume_radix s p = (q, Some r) \<Longrightarrow> p \<le> q \<and> q \<le> length s \<and> p < length s"
  using str_at_not_NUL [of s p] str_at_not_NUL [of s "Suc p"] str_at_beyond [of s p]
  by (cases "p < length s") (auto simp: qdf_consume_radix_def NUL_def split: if_splits)

lemma digits_loop_cursor:
  "qdf_digits_loop s p radix acc = Inr (q, v) \<Longrightarrow> p \<le> length s \<Longrightarrow> p \<le> q \<and> q \<le> length s"
proof (induction s p radix acc rule: qdf_digits_loop.induct)
  case (1 s p radix acc)
  show ?case
  proof (cases "qdf_consume_hex s p")
    case (Pair p1 r)
    show ?thesis
    proof (cases r)
      case None
      then show ?thesis
        using 1 Pair hex.cursor_in_string [OF Pair] by (simp add: qdf_digits_loop.simps [of s p])
    next
      case (Some d)
      then show ?thesis
        using 1 Pair hex.cursor_in_string [OF Pair]
        by (fastforce simp: qdf_digits_loop.simps [of s p] Let_def split: if_splits)
    qed
  qed
qed

lemma digits_loop_stops:
  "qdf_digits_loop s p radix acc = Inr (q, v) \<Longrightarrow> snd (qdf_consume_hex s q) = None"
proof (induction s p radix acc rule: qdf_digits_loop.induct)
  case (1 s p radix acc)
  show ?case
  proof (cases "qdf_consume_hex s p")
    case (Pair p1 r)
    then show ?thesis
      using 1 consume_None(3) [of s p p1]
      by (cases r) (auto simp: qdf_digits_loop.simps [of s p] Let_def split: if_splits)
  qed
qed

lemma int_parse_lazy_progress:
  assumes ok: "qdf_int_parse_lazy s p = Inr (q, v, neg)" and p: "p \<le> length s"
  shows "p < q \<and> q \<le> length s \<and> snd (qdf_consume_hex s q) = None"
proof -
  let ?p1 = "qdf_str_left_trim s p"
  have p1: "p \<le> ?p1" "?p1 \<le> length s"
    using p left_trim_bounds by auto
  obtain p2 minus where m: "qdf_consume_char (CHR ''-'') s ?p1 = (p2, minus)"
    by (cases "qdf_consume_char (CHR ''-'') s ?p1")
  define p3 where "p3 = (if minus \<noteq> None then p2 else fst (qdf_consume_char (CHR ''+'') s p2))"
  obtain p4 radix where r: "qdf_consume_radix s p3 = (p4, Some radix)"
    and d: "qdf_digits_loop s p4 radix 0 = Inr (q, v)"
    using ok m
    by (auto simp: qdf_int_parse_lazy_def Let_def p3_def split: prod.splits option.splits sum.splits)
  have p3: "?p1 \<le> p3"
    using m by (auto simp: p3_def qdf_consume_char_def split: if_splits)
  note p4 = consume_radix_cursor [OF r]
  have q: "p4 \<le> q" "q \<le> length s"
    using digits_loop_cursor [OF d] p4 by auto
  have "p3 < q"
  proof (rule ccontr)
    assume "\<not> p3 < q"
    then have "p4 = p3" "q = p3" using p4 q by auto
    then have "snd (qdf_consume_hex s p3) = None"
      using digits_loop_stops [OF d] by simp
    then show False
      using r \<open>p4 = p3\<close>
      by (auto simp: qdf_consume_radix_def qdf_consume_hex_def Let_def split: if_splits)
  qed
  then show ?thesis
    using p1 p3 q digits_loop_stops [OF d] by auto
qed

section \<open>Printed numbers\<close>

text \<open>What the printing side (\<open>%llu\<close>, \<open>%x\<close>, \<open>%d.%d.%d.%d\<close>) produces: digits, most significant first.\<close>

definition digit_char :: "nat \<Rightarrow> char" where
  "digit_char d = char_of (if d < 10 then 48 + d else 87 + d)"

fun digits_of :: "nat \<Rightarrow> nat \<Rightarrow> nat list" where
  "digits_of r n = (if n < r \<or> r < 2 then [n] else digits_of r (n div r) @ [n mod r])"

declare digits_of.simps [simp del]

definition num_str :: "nat \<Rightarrow> nat \<Rightarrow> string" where
  "num_str r n = map digit_char (digits_of r n)"

definition digits_val :: "nat \<Rightarrow> nat \<Rightarrow> nat list \<Rightarrow> nat" where
  "digits_val r acc ds = foldl (\<lambda>a d. a * r + d) acc ds"

lemma digits_val_simps [simp]:
  "digits_val r acc [] = acc"
  "digits_val r acc (d # ds) = digits_val r (acc * r + d) ds"
  "digits_val r acc (ds @ ds') = digits_val r (digits_val r acc ds) ds'"
  by (simp_all add: digits_val_def)

lemma digits_val_of: "2 \<le> r \<Longrightarrow> digits_val r 0 (digits_of r n) = n"
proof (induction r n rule: digits_of.induct)
  case (1 r n)
  then show ?case
    by (cases "n < r") (simp_all add: digits_of.simps [of r n])
qed

lemma digits_of_less: "2 \<le> r \<Longrightarrow> d \<in> set (digits_of r n) \<Longrightarrow> d < r"
proof (induction r n rule: digits_of.induct)
  case (1 r n)
  then show ?case
    by (cases "n < r") (auto simp: digits_of.simps [of r n])
qed

lemma digits_of_nonempty [simp]: "digits_of r n \<noteq> []"
  by (simp add: digits_of.simps [of r n])

lemma digits_val_mono: "1 \<le> r \<Longrightarrow> acc \<le> digits_val r acc ds"
proof (induction ds arbitrary: acc)
  case (Cons d ds)
  have "acc \<le> acc * r + d" using Cons.prems by (simp add: trans_le_add1)
  also have "\<dots> \<le> digits_val r (acc * r + d) ds" by (rule Cons.IH) (rule Cons.prems)
  finally show ?case by simp
qed simp

lemma byte_of_digit_char: "d < 16 \<Longrightarrow> byte_of (digit_char d) = of_nat (if d < 10 then 48 + d else 87 + d)"
proof -
  assume "d < 16"
  then have "(of_char (digit_char d) :: nat) = (if d < 10 then 48 + d else 87 + d)"
    by (simp add: digit_char_def)
  then show ?thesis
    by (metis of_nat_of_char)
qed

lemma word8_of_nat_le:
  "m < 256 \<Longrightarrow> n < 256 \<Longrightarrow> (of_nat m :: u8) \<le> of_nat n \<longleftrightarrow> m \<le> n"
  by (simp add: word_le_nat_alt unat_of_nat)

lemma str_at_append_Cons [simp]: "str_at (pre @ c # rest) (length pre) = c"
  by (simp add: str_at_def)

lemma hex_consume_digit:
  assumes "d < 16"
  shows "qdf_consume_hex (pre @ digit_char d # rest) (length pre)
    = (Suc (length pre), Some (of_nat d))"
  using assms word8_of_nat_le [of 48 "48 + d"] word8_of_nat_le [of "48 + d" 57]
    word8_of_nat_le [of "87 + d" 57] word8_of_nat_le [of 97 "87 + d"] word8_of_nat_le [of "87 + d" 102]
  by (auto simp: qdf_consume_hex_def Let_def byte_of_digit_char)

lemma dec_consume_digit:
  assumes "d < 10"
  shows "qdf_consume_dec (pre @ digit_char d # rest) (length pre)
    = (Suc (length pre), Some (of_nat d))"
  using assms word8_of_nat_le [of 48 "48 + d"] word8_of_nat_le [of "48 + d" 57]
  by (auto simp: qdf_consume_dec_def Let_def byte_of_digit_char)

lemma nat_of_digit_char: "d < 16 \<Longrightarrow> (of_char (digit_char d) :: nat) = (if d < 10 then 48 + d else 87 + d)"
  by (simp add: digit_char_def)

lemma digit_char_neq:
  "d < 16 \<Longrightarrow>
   (of_char c :: nat) < 48 \<or> 57 < (of_char c :: nat) \<and> (of_char c :: nat) < 97 \<or> 102 < (of_char c :: nat) \<Longrightarrow>
   digit_char d \<noteq> c"
  using nat_of_digit_char [of d] by (auto split: if_splits)

lemma digit_char_not_space [simp]: "d < 16 \<Longrightarrow> \<not> is_space (digit_char d)"
  by (auto simp: is_space_def Let_def nat_of_digit_char)

lemma str_at_shift: "str_at (pre @ s) (length pre + k) = str_at s k"
  by (simp add: str_at_def)

lemma consume_hex_shift:
  "qdf_consume_hex (pre @ s) (length pre)
   = (length pre + fst (qdf_consume_hex s 0), snd (qdf_consume_hex s 0))"
  using str_at_shift [of pre s 0] by (simp add: qdf_consume_hex_def Let_def)

lemma digits_loop_val:
  assumes "2 \<le> r" "r \<le> 16" "\<forall>d\<in>set ds. d < r" "digits_val r acc ds < 2 ^ 64"
    and stop: "snd (qdf_consume_hex rest 0) = None"
  shows "qdf_digits_loop (pre @ map digit_char ds @ rest) (length pre) (of_nat r) (of_nat acc)
    = Inr (length pre + length ds, of_nat (digits_val r acc ds))"
  using assms(3,4)
proof (induction ds arbitrary: pre acc)
  case Nil
  have "fst (qdf_consume_hex rest 0) = 0"
    using stop consume_None(3) [of rest 0] by (cases "qdf_consume_hex rest 0") simp
  then show ?case
    using stop by (simp add: qdf_digits_loop.simps consume_hex_shift)
next
  case (Cons d ds)
  let ?s = "pre @ map digit_char (d # ds) @ rest"
  have d: "d < r" "d < 16" using Cons.prems assms(2) by auto
  have le: "acc * r + d < 2 ^ 64"
    using Cons.prems digits_val_mono [of r "acc * r + d" ds] assms(1) by simp
  have mono: "acc \<le> acc * r + d"
    using assms(1) by (simp add: trans_le_add1)
  have nxt: "(of_nat acc :: u64) * ucast (of_nat r :: u8) + ucast (of_nat d :: u8) = of_nat (acc * r + d)"
    using d assms(2) by (simp add: unsigned_of_nat take_bit_nat_eq_self)
  have no_ovf: "\<not> (of_nat (acc * r + d) :: u64) < of_nat acc"
    using le mono by (simp add: word_less_nat_alt unat_of_nat del: of_nat_add of_nat_mult)
  have no_rad: "\<not> (of_nat r :: u8) \<le> of_nat d"
    using d assms(2) word8_of_nat_le [of r d] by simp
  have c: "qdf_consume_hex ?s (length pre) = (Suc (length pre), Some (of_nat d))"
    using hex_consume_digit [OF d(2), of pre "map digit_char ds @ rest"] by simp
  have "qdf_digits_loop ?s (length pre) (of_nat r) (of_nat acc)
      = qdf_digits_loop ?s (Suc (length pre)) (of_nat r) (of_nat (acc * r + d))"
    by (subst qdf_digits_loop.simps)
      (simp only: c prod.case option.case Let_def nxt no_ovf no_rad if_False)
  also have "\<dots> = Inr (Suc (length pre) + length ds, of_nat (digits_val r (acc * r + d) ds))"
    using Cons.IH [of "acc * r + d" "pre @ [digit_char d]"] Cons.prems by simp
  finally show ?case by simp
qed

definition blank :: "string \<Rightarrow> bool" where
  "blank ws \<longleftrightarrow> (\<forall>c\<in>set ws. is_space c)"

lemma left_trim_blank:
  "blank ws \<Longrightarrow> \<not> is_space (str_at rest 0) \<Longrightarrow>
   qdf_str_left_trim (pre @ ws @ rest) (length pre) = length pre + length ws"
proof (induction ws arbitrary: pre)
  case Nil
  then show ?case
    using str_at_shift [of pre rest 0] by (simp add: qdf_str_left_trim.simps)
next
  case (Cons c ws)
  have "qdf_str_left_trim (pre @ (c # ws) @ rest) (length pre)
      = qdf_str_left_trim ((pre @ [c]) @ ws @ rest) (length (pre @ [c]))"
    using Cons.prems by (subst qdf_str_left_trim.simps) (simp add: blank_def)
  also have "\<dots> = length (pre @ [c]) + length ws"
    using Cons.prems by (intro Cons.IH) (auto simp: blank_def)
  finally show ?case by simp
qed

lemma left_trim_blank_end: "blank ws \<Longrightarrow> qdf_str_left_trim (pre @ ws) (length pre) = length (pre @ ws)"
  using left_trim_blank [of ws "[]" pre] by (simp add: str_at_def)

lemma blank_no_hex: "blank ws \<Longrightarrow> snd (qdf_consume_hex ws 0) = None"
proof (cases ws)
  case (Cons c cs)
  assume "blank ws"
  then have n: "(9 \<le> (of_char c :: nat) \<and> (of_char c :: nat) \<le> 13) \<or> (of_char c :: nat) = 32 \<or> (of_char c :: nat) = 160"
    using Cons by (simp add: blank_def is_space_def Let_def)
  have b: "byte_of c = of_nat (of_char c)"
    by (rule of_nat_of_char [symmetric])
  show ?thesis
    using n word8_of_nat_le [of 48 "of_char c"] word8_of_nat_le [of 65 "of_char c"]
      word8_of_nat_le [of "of_char c" 102] word8_of_nat_le [of 97 "of_char c"]
    unfolding qdf_consume_hex_def Let_def Cons
    by (simp add: str_at_def b del: of_nat_of_char) auto
qed (simp add: qdf_consume_hex_def str_at_def NUL_def)

subsection \<open>Numbers with sign and radix prefix\<close>

definition radix_prefix :: "nat \<Rightarrow> string" where
  "radix_prefix r = (if r = 2 then ''0b'' else if r = 8 then ''0o'' else if r = 16 then ''0x'' else '''')"

lemma digits_of_hd_pos: "0 < n \<Longrightarrow> hd (digits_of 10 n) \<noteq> 0"
proof (induction "10::nat" n rule: digits_of.induct)
  case (1 n)
  then show ?case
    by (cases "n < 10") (simp_all add: digits_of.simps [of 10 n] div_greater_zero_iff)
qed

lemma str_at_num_str:
  "str_at (num_str r n @ rest) 0 = digit_char (hd (digits_of r n))"
  "str_at (pre @ num_str r n @ rest) (length pre) = digit_char (hd (digits_of r n))"
  by (cases "digits_of r n"; simp add: num_str_def str_at_def)+

lemma hd_digits_less: "2 \<le> r \<Longrightarrow> hd (digits_of r n) < r"
  using digits_of_less [of r "hd (digits_of r n)" n] by simp

lemma digit_char_0: "digit_char 0 = CHR ''0''"
  by code_simp

lemma digit_char_0_iff:
  assumes "d < 16"
  shows "digit_char d = CHR ''0'' \<longleftrightarrow> d = 0"
proof -
  have "digit_char d = CHR ''0'' \<longleftrightarrow> (of_char (digit_char d) :: nat) = of_char (CHR ''0'')"
    by (simp only: of_char_eq_iff)
  then show ?thesis
    using nat_of_digit_char [OF assms] by simp
qed

lemma consume_radix_num:
  assumes "r \<in> {2, 8, 10, 16}" "blank rest"
  shows "qdf_consume_radix (pre @ radix_prefix r @ num_str r n @ rest) (length pre)
    = (length pre + length (radix_prefix r), Some (of_nat r))"
proof (cases "r = 10")
  case False
  have "str_at (pre @ CHR ''0'' # c # xs) (Suc (length pre)) = c" for c xs
    using str_at_shift [of pre "CHR ''0'' # c # xs" 1] by (simp add: str_at_def)
  then show ?thesis
    using assms False by (auto simp: qdf_consume_radix_def radix_prefix_def)
next
  case True
  have r: "radix_prefix r = []" using True by (simp add: radix_prefix_def)
  let ?d = "hd (digits_of 10 n)"
  have d: "?d < 10" using hd_digits_less [of 10 n] by simp
  have at: "str_at (pre @ num_str 10 n @ rest) (length pre) = digit_char ?d"
    by (rule str_at_num_str)
  have byte: "byte_of (digit_char ?d) = of_nat (48 + ?d)"
    using d byte_of_digit_char [of ?d] by simp
  have range: "byte_of (CHR ''0'') \<le> byte_of (digit_char ?d)" "byte_of (digit_char ?d) \<le> byte_of (CHR ''9'')"
    using d word8_of_nat_le [of 48 "48 + ?d"] word8_of_nat_le [of "48 + ?d" 57]
    unfolding byte by simp_all
  show ?thesis
  proof (cases "n = 0")
    case True
    have c: "str_at (pre @ CHR ''0'' # rest) (Suc (length pre)) = str_at rest 0"
      using str_at_shift [of pre "CHR ''0'' # rest" 1] by (simp add: str_at_def)
    have "str_at rest 0 = NUL \<or> is_space (str_at rest 0)"
      using assms(2) by (cases rest) (auto simp: blank_def str_at_def)
    then have "str_at rest 0 \<notin> {CHR ''b'', CHR ''o'', CHR ''x''}"
      by (auto simp: NUL_def is_space_def Let_def)
    then show ?thesis
      using r c range True at \<open>r = 10\<close>
      by (simp add: qdf_consume_radix_def num_str_def digits_of.simps [of 10 0] digit_char_0)
  next
    case False
    then have "digit_char ?d \<noteq> CHR ''0''"
      using digits_of_hd_pos digit_char_0_iff d by simp
    then show ?thesis
      using r range at \<open>r = 10\<close> by (simp add: qdf_consume_radix_def)
  qed
qed

lemma int_parse_num:
  assumes r: "r \<in> {2, 8, 10, 16}" and n: "n < 2 ^ 64" and ws: "blank ws" "blank ws'"
    and sg: "sg \<in> {'''', ''-'', ''+''}"
  shows "qdf_int_parse (Some (ws @ sg @ radix_prefix r @ num_str r n @ ws')) True
    = Inr (of_nat n, sg = ''-'')"
proof -
  let ?num = "radix_prefix r @ num_str r n @ ws'"
  let ?s = "ws @ sg @ ?num"
  have first: "\<exists>d<16. str_at ?num 0 = digit_char d"
  proof (cases "r = 10")
    case True
    then show ?thesis
      using str_at_num_str(1) [of 10 n ws'] hd_digits_less [of 10 n]
      by (auto simp: radix_prefix_def intro!: exI [of _ "hd (digits_of 10 n)"])
  next
    case False
    then show ?thesis
      using r by (auto simp: radix_prefix_def str_at_def digit_char_0 intro!: exI [of _ 0])
  qed
  then have num0: "\<not> is_space (str_at ?num 0)" "str_at ?num 0 \<noteq> CHR ''-''" "str_at ?num 0 \<noteq> CHR ''+''"
    using digit_char_neq [of _ "CHR ''-''"] digit_char_neq [of _ "CHR ''+''"] by fastforce+
  have trim: "qdf_str_left_trim ?s 0 = length ws"
    using left_trim_blank [of ws "sg @ ?num" "[]"] ws sg num0
    by (auto simp: str_at_def is_space_def)
  have num_at: "str_at (ws @ ?num) (length ws) = str_at ?num 0"
    using str_at_shift [of ws ?num 0] by simp
  have "qdf_consume_char (CHR ''-'') ?s (length ws)
      = (if sg = ''-'' then (Suc (length ws), Some ()) else (length ws, None))"
    using sg num0 num_at by (auto simp: qdf_consume_char_def)
  moreover have "sg \<noteq> ''-'' \<Longrightarrow> fst (qdf_consume_char (CHR ''+'') ?s (length ws)) = length ws + length sg"
    using sg num0 num_at by (auto simp: qdf_consume_char_def)
  moreover have "qdf_consume_radix ?s (length ws + length sg)
      = (length ws + length sg + length (radix_prefix r), Some (of_nat r))"
    using consume_radix_num [OF r ws(2), of "ws @ sg" n] by simp
  moreover have "qdf_digits_loop ?s (length ws + length sg + length (radix_prefix r)) (of_nat r) 0
      = Inr (length (ws @ sg @ radix_prefix r @ num_str r n), of_nat n)"
    using digits_loop_val [of r "digits_of r n" 0 ws' "ws @ sg @ radix_prefix r"] r n
      digits_val_of [of r n] digits_of_less [of r _ n] blank_no_hex [OF ws(2)]
    by (auto simp: num_str_def add.assoc)
  ultimately have "qdf_int_parse_lazy ?s 0
      = Inr (length (ws @ sg @ radix_prefix r @ num_str r n), of_nat n, sg = ''-'')"
    using sg by (auto simp: qdf_int_parse_lazy_def trim Let_def)
  moreover have "str_at ?s (qdf_str_left_trim ?s (length (ws @ sg @ radix_prefix r @ num_str r n))) = NUL"
    using left_trim_blank_end [OF ws(2), of "ws @ sg @ radix_prefix r @ num_str r n"]
    by (simp add: str_at_beyond)
  ultimately show ?thesis
    by (simp add: qdf_int_parse_def)
qed

section \<open>Properties of the integer parsers\<close>

lemma scast_32_64_eq:
  "scast (scast (v :: s64) :: s32) = v \<longleftrightarrow> - (2 ^ 31) \<le> sint v \<and> sint v < 2 ^ 31"
proof -
  have "scast (scast v :: s32) = v \<longleftrightarrow> sint (scast (scast v :: s32) :: s64) = sint v"
    by (metis signed_word_eqI)
  also have "sint (scast (scast v :: s32) :: s64) = signed_take_bit 31 (sint v)"
    by (subst signed_scast_eq, subst signed_scast_eq) simp
  also have "signed_take_bit 31 (sint v) = sint v \<longleftrightarrow> - (2 ^ 31) \<le> sint v \<and> sint v < 2 ^ 31"
    by (rule signed_take_bit_int_eq_self_iff)
  finally show ?thesis .
qed

lemma ucast_narrow_eq:
  "ucast (ucast (v :: u64) :: 'a::len word) = v \<longleftrightarrow> unat v < 2 ^ LENGTH('a)" if "LENGTH('a) \<le> 64"
proof -
  have "ucast (ucast v :: 'a word) = v \<longleftrightarrow> unat (ucast (ucast v :: 'a word) :: u64) = unat v"
    by (simp add: word_unat_eq_iff)
  also have "unat (ucast (ucast v :: 'a word) :: u64) = take_bit LENGTH('a) (unat v)"
    using that by (simp add: unsigned_ucast_eq take_bit_take_bit unsigned_take_bit_eq)
  also have "take_bit LENGTH('a) (unat v) = unat v \<longleftrightarrow> unat v < 2 ^ LENGTH('a)"
    by (rule take_bit_nat_eq_self_iff)
  finally show ?thesis .
qed

lemma narrow_result_iff:
  fixes v :: u64 and w :: "'a::len word"
  assumes that: "LENGTH('a) \<le> 64"
  shows "(if ucast (ucast v :: 'a word) \<noteq> v then Inl e else Inr (ucast v)) = Inr w \<longleftrightarrow> unat v = unat w"
proof (cases "unat v < 2 ^ LENGTH('a)")
  case True
  then have "unat (ucast v :: 'a word) = unat v"
    by (simp add: unsigned_ucast_eq take_bit_nat_eq_self)
  then show ?thesis
    using True ucast_narrow_eq [OF that, of v] by (auto simp: word_unat_eq_iff)
next
  case False
  then show ?thesis
    using ucast_narrow_eq [OF that, of v] unsigned_less [of w] by auto
qed

text \<open>The value a parsed magnitude and sign stand for.\<close>

definition signed_val :: "u64 \<Rightarrow> bool \<Rightarrow> int" where
  "signed_val v neg = (if neg then - uint v else uint v)"

lemma int64_range_check:
  "(if neg then 0 < sint (- v :: s64) else sint v < 0)
   \<longleftrightarrow> \<not> (- (2 ^ 63) \<le> signed_val v neg \<and> signed_val v neg < 2 ^ 63)"
  using uint_lt2p [of v]
  by (auto simp: signed_val_def sint_by_uint uint_neg_word; use uint_ge_0 [of v] in linarith)

lemma int64_of_signed: "(if neg then - v else v) = word_of_int (signed_val v neg)"
  by (simp add: signed_val_def)

lemma qdf_int64_parse_spec:
  "qdf_int64_parse str = (case qdf_int_parse str True of
     Inl e \<Rightarrow> Inl e
   | Inr (v, neg) \<Rightarrow>
       if - (2 ^ 63) \<le> signed_val v neg \<and> signed_val v neg < 2 ^ 63
       then Inr (word_of_int (signed_val v neg)) else Inl QDF_STATUS_E_RANGE)"
proof (cases "qdf_int_parse str True")
  case (Inr a)
  obtain v neg where a: "a = (v, neg)" by (cases a)
  show ?thesis
    using int64_range_check [of neg v] int64_of_signed [of neg v] Inr a
    by (cases neg) (simp_all add: qdf_int64_parse_def Let_def)
qed (simp add: qdf_int64_parse_def)

lemma signed_val_word:
  "- (2 ^ 63) \<le> signed_val v neg \<Longrightarrow> signed_val v neg < 2 ^ 63 \<Longrightarrow>
   sint (word_of_int (signed_val v neg) :: s64) = signed_val v neg"
  by (simp add: signed_of_int signed_take_bit_int_eq_self)

text \<open>
  qdf_int64_parse and qdf_int32_parse accept exactly the numbers that fit: with the sign and the
  magnitude the common parser reads, each succeeds when the signed number is in the range of its
  type, with that very number, and answers QDF_STATUS_E_RANGE otherwise; the parser's own errors are
  passed on.
\<close>

theorem qdf_signed_parse_ranges:
  "qdf_int64_parse str = (case qdf_int_parse str True of
     Inl e \<Rightarrow> Inl e
   | Inr (v, neg) \<Rightarrow>
       if - (2 ^ 63) \<le> signed_val v neg \<and> signed_val v neg < 2 ^ 63
       then Inr (word_of_int (signed_val v neg)) else Inl QDF_STATUS_E_RANGE)
   \<and> qdf_int32_parse str = (case qdf_int_parse str True of
     Inl e \<Rightarrow> Inl e
   | Inr (v, neg) \<Rightarrow>
       if - (2 ^ 31) \<le> signed_val v neg \<and> signed_val v neg < 2 ^ 31
       then Inr (word_of_int (signed_val v neg)) else Inl QDF_STATUS_E_RANGE)"
proof
  show "qdf_int32_parse str = (case qdf_int_parse str True of
     Inl e \<Rightarrow> Inl e
   | Inr (v, neg) \<Rightarrow>
       if - (2 ^ 31) \<le> signed_val v neg \<and> signed_val v neg < 2 ^ 31
       then Inr (word_of_int (signed_val v neg)) else Inl QDF_STATUS_E_RANGE)"
    using scast_32_64_eq [of "word_of_int (signed_val v neg)" for v neg] signed_val_word
    by (auto simp: qdf_int32_parse_def qdf_int64_parse_spec signed_of_int split: sum.splits prod.splits)
qed (rule qdf_int64_parse_spec)

text \<open>
  C40: qdf_uint8_parse, qdf_uint16_parse and qdf_uint32_parse return a number exactly when the 64 bit
  parser returns that number: what they hand out is never a truncated value.
\<close>

theorem qdf_unsigned_parse_exact:
  "(qdf_uint32_parse str = Inr w32 \<longleftrightarrow> (\<exists>v. qdf_uint64_parse str = Inr v \<and> unat v = unat w32))
   \<and> (qdf_uint16_parse str = Inr w16 \<longleftrightarrow> (\<exists>v. qdf_uint64_parse str = Inr v \<and> unat v = unat w16))
   \<and> (qdf_uint8_parse str = Inr w8 \<longleftrightarrow> (\<exists>v. qdf_uint64_parse str = Inr v \<and> unat v = unat w8))"
proof (cases "qdf_uint64_parse str")
  case (Inr v)
  have l: "LENGTH(32) \<le> 64" "LENGTH(16) \<le> 64" "LENGTH(8) \<le> 64" by simp_all
  show ?thesis
    unfolding qdf_uint32_parse_def qdf_uint16_parse_def qdf_uint8_parse_def Inr sum.case
      narrow_result_iff [OF l(1)] narrow_result_iff [OF l(2)] narrow_result_iff [OF l(3)]
    by simp
qed (simp add: qdf_uint32_parse_def qdf_uint16_parse_def qdf_uint8_parse_def)

text \<open>
  C38: what is printed is parsed back: a number below \<open>2 ^ 64\<close>, written in any of the four radices
  with its prefix and surrounded by any white space, is returned by qdf_uint64_parse.
\<close>

theorem qdf_uint64_parse_roundtrip:
  assumes "r \<in> {2, 8, 10, 16}" "n < 2 ^ 64" "blank ws" "blank ws'"
  shows "qdf_uint64_parse (Some (ws @ radix_prefix r @ num_str r n @ ws')) = Inr (of_nat n)"
  using int_parse_num [OF assms, of "[]"] by (simp add: qdf_uint64_parse_def)

theorem qdf_uint64_parse_roundtrip_witness:
  "qdf_uint64_parse (Some ('' '' @ radix_prefix 16 @ num_str 16 48879 @ ''  '')) = Inr 48879"
  using qdf_uint64_parse_roundtrip [of 16 48879 "'' ''" "''  ''"]
  by (simp add: blank_def is_space_def)

lemma digit_char_3: "digit_char 3 = CHR ''3''"
  by code_simp

text \<open>
  the overflow check of the digit loop compares the new value with the old one only, which does
  not detect every wrap of a multiplication by the radix: there are decimal numbers beyond 64 bits
  that are accepted, with a wrong value, and not refused with QDF_STATUS_E_RANGE.
\<close>

theorem qdf_uint64_parse_accepts_overflow:
  "\<exists>n v. 2 ^ 64 \<le> n \<and> qdf_uint64_parse (Some (num_str 10 n)) = Inr v \<and> unat v \<noteq> n"
proof -
  have "digits_of 10 30000000000000000000 = [3, 0, 0, 0, 0, 0, 0, 0, 0, 0, 0, 0, 0, 0, 0, 0, 0, 0, 0, 0]"
    by (simp add: digits_of.simps)
  then have s: "num_str 10 30000000000000000000 = ''30000000000000000000''"
    by (simp add: num_str_def digit_char_0 digit_char_3)
  have p: "qdf_uint64_parse (Some ''30000000000000000000'') = Inr 11553255926290448384"
    by code_simp
  show ?thesis
    by (rule exI [of _ 30000000000000000000], rule exI [of _ 11553255926290448384])
      (simp add: s p)
qed

section \<open>Addresses\<close>

lemma digits_of_length: "2 \<le> r \<Longrightarrow> 0 < k \<Longrightarrow> n < r ^ k \<Longrightarrow> length (digits_of r n) \<le> k"
proof (induction r n arbitrary: k rule: digits_of.induct)
  case (1 r n)
  show ?case
  proof (cases "n < r")
    case True
    then show ?thesis using 1 by (simp add: digits_of.simps [of r n])
  next
    case False
    obtain j where k: "k = Suc j" using 1 by (cases k) auto
    have "0 < j" using 1 False k by (cases j) auto
    moreover have "n div r < r ^ j"
      using "1.prems" k by (simp add: less_mult_imp_div_less mult.commute)
    ultimately show ?thesis
      using 1 False k by (simp add: digits_of.simps [of r n])
  qed
qed

lemma ucast_of_nat_digit: "d < 16 \<Longrightarrow> (ucast (of_nat d :: u8) :: u16) = of_nat d"
  by (simp add: unsigned_of_nat take_bit_nat_eq_self)

lemma consume_dec_shift:
  "qdf_consume_dec (pre @ s) (length pre)
   = (length pre + fst (qdf_consume_dec s 0), snd (qdf_consume_dec s 0))"
  using str_at_shift [of pre s 0] by (simp add: qdf_consume_dec_def Let_def)

lemma no_hex_no_dec: "snd (qdf_consume_hex s p) = None \<Longrightarrow> snd (qdf_consume_dec s p) = None"
  by (auto simp: qdf_consume_hex_def qdf_consume_dec_def Let_def split: if_splits)

lemma octet_loop_val:
  assumes "length ds \<le> k" "\<forall>d\<in>set ds. d < 10" and stop: "snd (qdf_consume_dec rest 0) = None"
  shows "qdf_octet_loop (pre @ map digit_char ds @ rest) (length pre) k len (of_nat acc)
    = (length pre + length ds, len + of_nat (length ds), of_nat (digits_val 10 acc ds))"
  using assms(1,2)
proof (induction ds arbitrary: pre k len acc)
  case Nil
  have "fst (qdf_consume_dec rest 0) = 0"
    using stop consume_None(2) [of rest 0] by (cases "qdf_consume_dec rest 0") simp
  then show ?case
    using stop by (cases k) (simp_all add: consume_dec_shift)
next
  case (Cons d ds)
  obtain j where k: "k = Suc j" using Cons.prems by (cases k) auto
  have d: "d < 10" using Cons.prems by simp
  have "(of_nat acc :: u16) * 10 + ucast (of_nat d :: u8) = of_nat (acc * 10 + d)"
    using d by (simp add: ucast_of_nat_digit)
  then show ?case
    using Cons.IH [of j "pre @ [digit_char d]" "len + 1" "acc * 10 + d"] Cons.prems k
      dec_consume_digit [OF d, of pre "map digit_char ds @ rest"]
    by (simp add: algebra_simps)
qed

lemma hextet_loop_val:
  assumes "length ds \<le> k" "\<forall>d\<in>set ds. d < 16" and stop: "snd (qdf_consume_hex rest 0) = None"
  shows "qdf_hextet_loop (pre @ map digit_char ds @ rest) (length pre) k len (of_nat acc)
    = (length pre + length ds, len + of_nat (length ds), of_nat (digits_val 16 acc ds))"
  using assms(1,2)
proof (induction ds arbitrary: pre k len acc)
  case Nil
  have "fst (qdf_consume_hex rest 0) = 0"
    using stop consume_None(3) [of rest 0] by (cases "qdf_consume_hex rest 0") simp
  then show ?case
    using stop by (cases k) (simp_all add: consume_hex_shift)
next
  case (Cons d ds)
  obtain j where k: "k = Suc j" using Cons.prems by (cases k) auto
  have d: "d < 16" using Cons.prems by simp
  have "push_bit 4 (of_nat acc :: u16) + ucast (of_nat d :: u8) = of_nat (acc * 16 + d)"
    using d by (simp add: ucast_of_nat_digit push_bit_eq_mult)
  then show ?case
    using Cons.IH [of j "pre @ [digit_char d]" "len + 1" "acc * 16 + d"] Cons.prems k
      hex_consume_digit [OF d, of pre "map digit_char ds @ rest"]
    by (simp add: algebra_simps)
qed

lemma consume_octet_num:
  assumes "n < 256" "snd (qdf_consume_dec rest 0) = None"
  shows "qdf_consume_octet_dec (pre @ num_str 10 n @ rest) (length pre)
    = (length (pre @ num_str 10 n), Some (of_nat n))"
proof -
  have len: "length (digits_of 10 n) \<le> 3" "0 < length (digits_of 10 n)"
    using digits_of_length [of 10 3 n] assms(1) by simp_all
  have "qdf_octet_loop (pre @ num_str 10 n @ rest) (length pre) 3 0 0
      = (length (pre @ num_str 10 n), of_nat (length (digits_of 10 n)), of_nat n)"
    using octet_loop_val [of "digits_of 10 n" 3 rest pre 0 0] len digits_of_less [of 10 _ n]
      digits_val_of [of 10 n] assms(2)
    by (simp add: num_str_def)
  moreover have "(of_nat (length (digits_of 10 n)) :: u8) \<noteq> 0"
    using len by (auto simp: word_unat_eq_iff unat_of_nat)
  moreover have "\<not> (of_nat n :: u16) > 255"
    using assms(1) by (simp add: word_less_nat_alt unat_of_nat)
  moreover have "(ucast (of_nat n :: u16) :: u8) = of_nat n"
    using assms(1) by (simp add: unsigned_of_nat take_bit_nat_eq_self)
  ultimately show ?thesis
    by (simp add: qdf_consume_octet_dec_def)
qed

lemma consume_hextet_num:
  assumes "n < 65536" "snd (qdf_consume_hex rest 0) = None"
  shows "qdf_consume_hextet (pre @ num_str 16 n @ rest) (length pre)
    = (length (pre @ num_str 16 n), Some (of_nat n))"
proof -
  have len: "length (digits_of 16 n) \<le> 4" "0 < length (digits_of 16 n)"
    using digits_of_length [of 16 4 n] assms(1) by simp_all
  have "qdf_hextet_loop (pre @ num_str 16 n @ rest) (length pre) 4 0 0
      = (length (pre @ num_str 16 n), of_nat (length (digits_of 16 n)), of_nat n)"
    using hextet_loop_val [of "digits_of 16 n" 4 rest pre 0 0] len digits_of_less [of 16 _ n]
      digits_val_of [of 16 n] assms(2)
    by (simp add: num_str_def)
  moreover have "(of_nat (length (digits_of 16 n)) :: u8) \<noteq> 0"
    using len by (auto simp: word_unat_eq_iff unat_of_nat)
  ultimately show ?thesis
    by (simp add: qdf_consume_hextet_def)
qed

lemma blank_str_at: "blank ws \<Longrightarrow> str_at ws 0 = NUL \<or> is_space (str_at ws 0)"
  by (cases ws) (simp_all add: blank_def str_at_def)

lemma blank_not_char: "blank ws \<Longrightarrow> c \<noteq> NUL \<Longrightarrow> \<not> is_space c \<Longrightarrow> str_at ws 0 \<noteq> c"
  using blank_str_at by metis

lemma consume_char_hit [simp]:
  "qdf_consume_char c (pre @ c # rest) (length pre) = (Suc (length pre), Some ())"
  by (simp add: qdf_consume_char_def)

lemma consume_char_miss:
  "str_at rest 0 \<noteq> c \<Longrightarrow> qdf_consume_char c (pre @ rest) (length pre) = (length pre, None)"
  using str_at_shift [of pre rest 0] by (simp add: qdf_consume_char_def)

subsection \<open>IPv4\<close>

fun dotted :: "nat list \<Rightarrow> string" where
  "dotted [] = ''''"
| "dotted (b # bs) = ''.'' @ num_str 10 b @ dotted bs"

text \<open>The format \<open>%d.%d.%d.%d\<close> of \<open>QDF_IPV4_ADDR_STR\<close>.\<close>

definition ipv4_str :: "u8 list \<Rightarrow> string" where
  "ipv4_str bs = tl (dotted (map unat bs))"

lemma dotted_no_dec: "snd (qdf_consume_dec rest 0) = None \<Longrightarrow> snd (qdf_consume_dec (dotted bs @ rest) 0) = None"
  by (cases bs) (simp_all add: qdf_consume_dec_def Let_def str_at_def)

lemma ipv4_loop_dotted:
  assumes "snd (qdf_consume_dec rest 0) = None"
  shows "i + length bs = 4 \<Longrightarrow> length addr = 4 \<Longrightarrow>
    qdf_ipv4_loop (pre @ dotted (map unat bs) @ rest) (length pre) i addr
    = Some (length (pre @ dotted (map unat bs)), take i addr @ bs)"
proof (induction bs arbitrary: pre i addr)
  case Nil
  then show ?case by (simp add: qdf_ipv4_loop.simps QDF_IPV4_ADDR_SIZE_def)
next
  case (Cons b bs)
  let ?num = "num_str 10 (unat b)"
  let ?rest = "dotted (map unat bs) @ rest"
  have b: "unat b < 256" using unsigned_less [of b] by simp
  have c: "qdf_consume_octet_dec ((pre @ ''.'') @ ?num @ ?rest) (length (pre @ ''.''))
      = (length ((pre @ ''.'') @ ?num), Some b)"
    using consume_octet_num [OF b dotted_no_dec [OF assms], of "pre @ ''.''"] by simp
  have "qdf_ipv4_loop (pre @ dotted (map unat (b # bs)) @ rest) (length pre) i addr
      = qdf_ipv4_loop (((pre @ ''.'') @ ?num) @ ?rest) (length ((pre @ ''.'') @ ?num)) (Suc i) (addr[i := b])"
    using Cons.prems c by (subst qdf_ipv4_loop.simps) (simp add: QDF_IPV4_ADDR_SIZE_def)
  also have "\<dots> = Some (length ((pre @ ''.'' @ ?num) @ dotted (map unat bs)), take (Suc i) (addr[i := b]) @ bs)"
    using Cons.IH [of "Suc i" "addr[i := b]" "pre @ ''.'' @ ?num"] Cons.prems by simp
  also have "take (Suc i) (addr[i := b]) @ bs = take i addr @ b # bs"
    using Cons.prems by (simp add: take_Suc_conv_app_nth)
  finally show ?case by simp
qed

text \<open>
  an IPv4 address printed with the driver's format is parsed back to the same four bytes,
  whatever white space surrounds it and whatever the uninitialised local buffer held.
\<close>

theorem qdf_ipv4_parse_roundtrip:
  assumes "length bs = 4" "length addr = 4" "blank ws" "blank ws'"
  shows "qdf_ipv4_parse addr (Some (ws @ ipv4_str bs @ ws')) True = Inr bs"
proof -
  obtain b bs' where bs: "bs = b # bs'" and l: "length bs' = 3"
    using assms(1) by (cases bs) auto
  let ?num = "num_str 10 (unat b)"
  let ?tail = "dotted (map unat bs')"
  have str: "ipv4_str bs = ?num @ ?tail"
    by (simp add: ipv4_str_def bs)
  have stop: "snd (qdf_consume_dec ws' 0) = None"
    using assms(4) blank_no_hex no_hex_no_dec by blast
  have b: "unat b < 256" using unsigned_less [of b] by simp
  have trim: "qdf_str_left_trim (ws @ ?num @ ?tail @ ws') 0 = length ws"
    using left_trim_blank [OF assms(3), of "?num @ ?tail @ ws'" "[]"] hd_digits_less [of 10 "unat b"]
    by (simp add: str_at_num_str)
  have c: "qdf_consume_octet_dec (ws @ ?num @ ?tail @ ws') (length ws) = (length (ws @ ?num), Some b)"
    using consume_octet_num [OF b dotted_no_dec [OF stop], of ws] by simp
  have lp: "qdf_ipv4_loop (ws @ ?num @ ?tail @ ws') (length (ws @ ?num)) 1 (addr[0 := b])
      = Some (length (ws @ ?num @ ?tail), bs)"
    using ipv4_loop_dotted [OF stop, of 1 bs' "addr[0 := b]" "ws @ ?num"] l assms(2) bs
    by (cases addr) (simp_all add: add.assoc)
  have "qdf_str_left_trim (ws @ ?num @ ?tail @ ws') (length (ws @ ?num @ ?tail))
      = length (ws @ ?num @ ?tail @ ws')"
    using left_trim_blank_end [OF assms(4), of "ws @ ?num @ ?tail"] by (simp add: add.assoc)
  then show ?thesis
    using trim c lp by (simp add: qdf_ipv4_parse_def str str_at_beyond)
qed

theorem qdf_ipv4_parse_roundtrip_witness:
  "qdf_ipv4_parse [1, 2, 3, 4] (Some (ipv4_str [192, 168, 0, 1] @ '' '')) True = Inr [192, 168, 0, 1]"
  using qdf_ipv4_parse_roundtrip [of "[192, 168, 0, 1]" "[1, 2, 3, 4]" "[]" "'' ''"]
  by (simp add: blank_def is_space_def)

subsection \<open>MAC\<close>

text \<open>The format \<open>%02x\<close> of one byte.\<close>

definition hex2 :: "u8 \<Rightarrow> string" where
  "hex2 b = [digit_char (unat b div 16), digit_char (unat b mod 16)]"

fun mac_tail :: "string \<Rightarrow> u8 list \<Rightarrow> string" where
  "mac_tail sep [] = ''''"
| "mac_tail sep (b # bs) = sep @ hex2 b @ mac_tail sep bs"

definition mac_str :: "string \<Rightarrow> u8 list \<Rightarrow> string" where
  "mac_str sep bs = hex2 (hd bs) @ mac_tail sep (tl bs)"

lemma nibbles_join:
  assumes "h < 16" "l < 16"
  shows "push_bit 4 (of_nat h :: u8) OR of_nat l = of_nat (h * 16 + l)"
proof -
  have "push_bit 4 h OR l = push_bit 4 h + (l :: nat)"
  proof (rule disjunctive_add [symmetric])
    fix n
    show "\<not> bit (push_bit 4 h) n \<or> \<not> bit l n"
    proof (cases "n < 4")
      case False
      then have "(2::nat) ^ 4 \<le> 2 ^ n" by (intro power_increasing) auto
      then have "l < 2 ^ n" using assms(2) by simp
      then show ?thesis by (simp add: bit_nat_def bit_iff_odd)
    qed (simp add: bit_push_bit_iff)
  qed
  then have "(of_nat (push_bit 4 h OR l) :: u8) = of_nat (h * 16 + l)"
    by (simp add: push_bit_eq_mult)
  then show ?thesis
    by (simp add: of_nat_or_eq push_bit_of_nat)
qed

lemma consume_hex_pair_hex2:
  "qdf_consume_hex_pair (pre @ hex2 b @ rest) (length pre) = (length (pre @ hex2 b), Some b)"
proof -
  have b: "unat b < 256" using unsigned_less [of b] by simp
  have l: "unat b mod 16 < 16" by simp
  have h: "unat b div 16 < 16" using b by (simp add: less_mult_imp_div_less)
  have "push_bit 4 (of_nat (unat b div 16) :: u8) OR of_nat (unat b mod 16) = of_nat (unat b div 16 * 16 + unat b mod 16)"
    by (rule nibbles_join [OF h l])
  also have "\<dots> = b"
    by (simp only: div_mult_mod_eq) simp
  finally have j: "push_bit 4 (of_nat (unat b div 16) :: u8) OR of_nat (unat b mod 16) = b" .
  have "qdf_consume_hex (pre @ hex2 b @ rest) (length pre)
      = (Suc (length pre), Some (of_nat (unat b div 16)))"
    using hex_consume_digit [OF h] by (simp add: hex2_def)
  moreover have "qdf_consume_hex (pre @ hex2 b @ rest) (Suc (length pre))
      = (Suc (Suc (length pre)), Some (of_nat (unat b mod 16)))"
    using hex_consume_digit [OF l, of "pre @ [digit_char (unat b div 16)]" rest] by (simp add: hex2_def)
  ultimately show ?thesis
    by (simp add: qdf_consume_hex_pair_def hex2_def j)
qed

lemma str_at_hex2: "str_at (hex2 b @ rest) 0 = digit_char (unat b div 16)"
  by (simp add: hex2_def str_at_def)

lemma unat_div_16: "unat (b :: u8) div 16 < 16"
proof -
  have "unat b < 256" using unsigned_less [of b] by simp
  then show ?thesis by (simp add: less_mult_imp_div_less)
qed

lemma mac_loop_tail:
  assumes "sep = (if colons then '':'' else '''')"
  shows "i + length bs = 6 \<Longrightarrow> length addr = 6 \<Longrightarrow>
    qdf_mac_loop (pre @ mac_tail sep bs @ rest) (length pre) colons i addr
    = Some (length (pre @ mac_tail sep bs), take i addr @ bs)"
proof (induction bs arbitrary: pre i addr)
  case Nil
  then show ?case by (simp add: qdf_mac_loop.simps QDF_MAC_ADDR_SIZE_def)
next
  case (Cons b bs)
  have c: "qdf_consume_hex_pair ((pre @ sep) @ hex2 b @ mac_tail sep bs @ rest) (length (pre @ sep))
      = (length ((pre @ sep) @ hex2 b), Some b)"
    by (rule consume_hex_pair_hex2)
  have "qdf_mac_loop (pre @ mac_tail sep (b # bs) @ rest) (length pre) colons i addr
      = qdf_mac_loop (((pre @ sep) @ hex2 b) @ mac_tail sep bs @ rest) (length ((pre @ sep) @ hex2 b))
          colons (Suc i) (addr[i := b])"
    using Cons.prems c assms
    by (cases colons; subst qdf_mac_loop.simps; simp add: QDF_MAC_ADDR_SIZE_def)
  also have "\<dots> = Some (length ((pre @ sep @ hex2 b) @ mac_tail sep bs), take (Suc i) (addr[i := b]) @ bs)"
    using Cons.IH [of "Suc i" "addr[i := b]" "pre @ sep @ hex2 b"] Cons.prems by simp
  also have "take (Suc i) (addr[i := b]) @ bs = take i addr @ b # bs"
    using Cons.prems by (simp add: take_Suc_conv_app_nth)
  finally show ?case by simp
qed

text \<open>
  a MAC address printed as six two-digit hexadecimal bytes, with colons between them or with
  nothing between them, is parsed back to the same six bytes.
\<close>

theorem qdf_mac_parse_roundtrip:
  assumes "length bs = 6" "length addr = 6" "sep \<in> {'':'', ''''}" "blank ws" "blank ws'"
  shows "qdf_mac_parse addr (Some (ws @ mac_str sep bs @ ws')) True = Inr bs"
proof -
  obtain b bs' where bs: "bs = b # bs'" and l: "length bs' = 5"
    using assms(1) by (cases bs) auto
  let ?tail = "mac_tail sep bs'"
  let ?colons = "sep = '':''"
  let ?s = "ws @ hex2 b @ ?tail @ ws'"
  have str: "mac_str sep bs = hex2 b @ ?tail"
    by (simp add: mac_str_def bs)
  have trim: "qdf_str_left_trim ?s 0 = length ws"
    using left_trim_blank [OF assms(4), of "hex2 b @ ?tail @ ws'" "[]"] unat_div_16 [of b]
    by (simp add: str_at_hex2)
  have c: "qdf_consume_hex_pair ?s (length ws) = (length (ws @ hex2 b), Some b)"
    by (rule consume_hex_pair_hex2)
  have "str_at (?tail @ ws') 0 = CHR '':'' \<longleftrightarrow> ?colons"
    using l assms(3) digit_char_neq [OF unat_div_16, of "CHR '':''"]
    by (cases bs') (auto simp: str_at_hex2 str_at_def hex2_def)
  then have colons: "str_at ?s (length (ws @ hex2 b)) = CHR '':'' \<longleftrightarrow> ?colons"
    using str_at_shift [of "ws @ hex2 b" "?tail @ ws'" 0] by (simp add: add.assoc)
  have lp: "qdf_mac_loop ?s (length (ws @ hex2 b)) ?colons 1 (addr[0 := b])
      = Some (length (ws @ hex2 b @ ?tail), bs)"
    using mac_loop_tail [of sep ?colons 1 bs' "addr[0 := b]" "ws @ hex2 b" ws'] l assms(2,3) bs
    by (cases addr) (auto simp add: add.assoc)
  have "qdf_str_left_trim ?s (length (ws @ hex2 b @ ?tail)) = length ?s"
    using left_trim_blank_end [OF assms(5), of "ws @ hex2 b @ ?tail"] by (simp add: add.assoc)
  then show ?thesis
    using trim c lp colons by (simp add: qdf_mac_parse_def str str_at_beyond)
qed

theorem qdf_mac_parse_roundtrip_witness:
  "qdf_mac_parse [0, 0, 0, 0, 0, 0] (Some (mac_str '':'' [18, 52, 86, 120, 144, 171])) True
   = Inr [18, 52, 86, 120, 144, 171]"
  using qdf_mac_parse_roundtrip [of "[18, 52, 86, 120, 144, 171]" "[0, 0, 0, 0, 0, 0]" "'':''" "[]" "[]"]
  by (simp add: blank_def)

subsection \<open>IPv6\<close>

definition hextet_bytes :: "u16 \<Rightarrow> u8 list" where
  "hextet_bytes h = [ucast (drop_bit 8 h), ucast h]"

definition hextets_bytes :: "u16 list \<Rightarrow> u8 list" where
  "hextets_bytes hs = concat (map hextet_bytes hs)"

lemma hextets_bytes_simps [simp]:
  "hextets_bytes [] = []"
  "hextets_bytes (h # hs) = hextet_bytes h @ hextets_bytes hs"
  "hextets_bytes (hs @ hs') = hextets_bytes hs @ hextets_bytes hs'"
  "length (hextets_bytes hs) = 2 * length hs"
  by (simp_all add: hextets_bytes_def) (induction hs; simp add: hextet_bytes_def)

fun hextets_tail :: "u16 list \<Rightarrow> string" where
  "hextets_tail [] = ''''"
| "hextets_tail (h # hs) = '':'' @ num_str 16 (unat h) @ hextets_tail hs"

text \<open>Hextets in hexadecimal, without leading zeros, joined by colons.\<close>

definition hextets_str :: "u16 list \<Rightarrow> string" where
  "hextets_str hs = tl (hextets_tail hs)"

lemma hextets_str_Cons: "hextets_str (h # hs) = num_str 16 (unat h) @ hextets_tail hs"
  by (simp add: hextets_str_def)

text \<open>What storing one hextet does to the buffer.\<close>

lemma store_hextet:
  "2 * k + 2 \<le> length addr \<Longrightarrow>
   addr[k * 2 := x, k * 2 + 1 := y] = take (2 * k) addr @ [x, y] @ drop (2 * k + 2) addr"
proof (rule nth_equalityI)
  assume len: "2 * k + 2 \<le> length addr"
  show "length (addr[k * 2 := x, k * 2 + 1 := y]) = length (take (2 * k) addr @ [x, y] @ drop (2 * k + 2) addr)"
    using len by simp
  fix i
  assume i: "i < length (addr[k * 2 := x, k * 2 + 1 := y])"
  consider "i < 2 * k" | "i = 2 * k" | "i = 2 * k + 1" | j where "i = 2 * k + 2 + j"
    by (metis add_2_eq_Suc' le_Suc_ex less_Suc_eq not_less plus_1_eq_Suc add.commute)
  then show "addr[k * 2 := x, k * 2 + 1 := y] ! i = (take (2 * k) addr @ [x, y] @ drop (2 * k + 2) addr) ! i"
    using len i by cases (auto simp: nth_append mult.commute)
qed

lemma zero_comp_eq:
  assumes "zc \<le> h" "h \<le> 8" "length addr = 16"
  shows "qdf_ipv6_apply_zero_comp addr h zc
    = take (2 * zc) addr @ replicate (2 * (8 - h)) 0 @ take (2 * (h - zc)) (drop (2 * zc) addr)"
proof -
  have n: "2 * zc + 2 * (8 - h) + 2 * (h - zc) = 16" using assms by simp
  have e: "(8 - h) * 2 = 2 * (8 - h)" "(h - zc) * 2 = 2 * (h - zc)" "zc * 2 = 2 * zc" by simp_all
  show ?thesis
  proof (cases "h = zc")
    case True
    then show ?thesis
      using assms n unfolding qdf_ipv6_apply_zero_comp_def Let_def e QDF_IPV6_ADDR_HEXTET_COUNT_def
      by (simp add: mem_fill_def)
  next
    case False
    have "drop 16 addr = []" using assms by simp
    then have m: "mem_move addr (2 * zc + 2 * (8 - h)) (2 * zc) (2 * (h - zc))
        = take (2 * zc + 2 * (8 - h)) addr @ take (2 * (h - zc)) (drop (2 * zc) addr)"
      using n by (simp add: mem_move_def)
    have l: "length (take (2 * zc + 2 * (8 - h)) addr) = 2 * zc + 2 * (8 - h)"
      using assms n by simp
    show ?thesis
      using False assms n l
      unfolding qdf_ipv6_apply_zero_comp_def Let_def e QDF_IPV6_ADDR_HEXTET_COUNT_def m
      by (simp add: mem_fill_def m min_def)
  qed
qed

text \<open>Two runs of the loop that differ in the unwritten part of the buffer only.\<close>

definition same_run :: "(nat \<times> u8 list \<times> int \<times> nat) option \<Rightarrow> (nat \<times> u8 list \<times> int \<times> nat) option \<Rightarrow> bool" where
  "same_run r r' = (case (r, r') of
     (None, None) \<Rightarrow> True
   | (Some (p, a, zc, k), Some (p', b, zc', k')) \<Rightarrow>
       p = p' \<and> zc = zc' \<and> k = k' \<and> k \<le> 8 \<and> zc \<le> int k \<and> length a = 16 \<and> length b = 16
       \<and> take (2 * k) a = take (2 * k) b
   | _ \<Rightarrow> False)"

lemma ipv6_loop_same_run:
  "length a = 16 \<Longrightarrow> length b = 16 \<Longrightarrow> k \<le> 8 \<Longrightarrow> zc \<le> int k \<Longrightarrow> take (2 * k) a = take (2 * k) b \<Longrightarrow>
   same_run (qdf_ipv6_loop s p a zc k) (qdf_ipv6_loop s p b zc k)"
proof (induction s p a zc k arbitrary: b rule: qdf_ipv6_loop.induct)
  case (1 s p a zc k)
  show ?case
  proof (cases "k < 8")
    case False
    then show ?thesis
      using 1 by (simp add: qdf_ipv6_loop.simps QDF_IPV6_ADDR_HEXTET_COUNT_def same_run_def)
  next
    case True
    obtain p1 r where c: "qdf_consume_hextet s p = (p1, r)"
      by (cases "qdf_consume_hextet s p")
    show ?thesis
    proof (cases r)
      case None
      then show ?thesis
        using 1 True c
        by (simp add: qdf_ipv6_loop.simps QDF_IPV6_ADDR_HEXTET_COUNT_def same_run_def)
    next
      case (Some h)
      let ?upd = "\<lambda>x :: u8 list. x[k * 2 := ucast (drop_bit 8 h), k * 2 + 1 := ucast h]"
      have upd: "take (2 * (k + 1)) (?upd a) = take (2 * (k + 1)) (?upd b)"
        using "1.prems" True store_hextet [of k a] store_hextet [of k b] by simp
      obtain p2 r2 where c2: "qdf_consume_char (CHR '':'') s p1 = (p2, r2)"
        by (cases "qdf_consume_char (CHR '':'') s p1")
      obtain p3 r3 where c3: "qdf_consume_char (CHR '':'') s p2 = (p3, r3)"
        by (cases "qdf_consume_char (CHR '':'') s p2")
      have lens: "length (?upd a) = 16" "length (?upd b) = 16" using "1.prems" by simp_all
      note unfold = qdf_ipv6_loop.simps [of s p _ zc k] QDF_IPV6_ADDR_HEXTET_COUNT_def
      show ?thesis
      proof (cases r2)
        case None
        then show ?thesis
          using "1.prems" True c Some c2 lens upd by (simp add: unfold same_run_def)
      next
        case r2: (Some u)
        show ?thesis
        proof (cases r3)
          case None
          have "same_run (qdf_ipv6_loop s p3 (?upd a) zc (k + 1)) (qdf_ipv6_loop s p3 (?upd b) zc (k + 1))"
            using "1.IH"(1) [OF _ c [symmetric] Some _ _ c2 [symmetric] r2 c3 [symmetric] None, of "?upd a" "k + 1" "?upd b"]
              True lens upd "1.prems" by (simp add: QDF_IPV6_ADDR_HEXTET_COUNT_def)
          then show ?thesis
            using True c Some c2 r2 c3 None by (simp add: unfold)
        next
          case r3: (Some u')
          show ?thesis
          proof (cases "0 \<le> zc")
            case True
            then show ?thesis
              using \<open>k < 8\<close> c Some c2 r2 c3 r3 by (simp add: unfold same_run_def)
          next
            case False
            have "same_run (qdf_ipv6_loop s p3 (?upd a) (int (k + 1)) (k + 1)) (qdf_ipv6_loop s p3 (?upd b) (int (k + 1)) (k + 1))"
              using "1.IH"(2) [OF _ c [symmetric] Some _ _ c2 [symmetric] r2 c3 [symmetric] r3 False, of "?upd a" "k + 1" "?upd b"]
                True lens upd "1.prems" by (simp add: QDF_IPV6_ADDR_HEXTET_COUNT_def)
            then show ?thesis
              using True c Some c2 r2 c3 r3 False by (simp add: unfold)
          qed
        qed
      qed
    qed
  qed
qed

text \<open>
  no uninitialised stack byte reaches the caller: the address qdf_ipv6_parse returns, and whether
  it returns one, does not depend on what its local buffer held before.
\<close>

theorem qdf_ipv6_parse_no_leak:
  assumes "length a = 16" "length b = 16"
  shows "qdf_ipv6_parse a str out_ok = qdf_ipv6_parse b str out_ok"
proof (cases "str = None \<or> \<not> out_ok")
  case True
  then show ?thesis by (auto simp: qdf_ipv6_parse_def split: option.split)
next
  case False
  then obtain s where s: "str = Some s" and ok: "out_ok" by auto
  let ?p = "qdf_str_left_trim s 0"
  obtain p1 c1 where c1: "qdf_consume_char (CHR '':'') s ?p = (p1, c1)"
    by (cases "qdf_consume_char (CHR '':'') s ?p")
  obtain p2 c2 where c2: "qdf_consume_char (CHR '':'') s p1 = (p2, c2)"
    by (cases "qdf_consume_char (CHR '':'') s p1")
  let ?q = "if c1 = None then ?p else p2" and ?zc = "if c1 = None then - 1 else (0::int)"
  have "same_run (qdf_ipv6_loop s ?q a ?zc 0) (qdf_ipv6_loop s ?q b ?zc 0)"
    using assms by (intro ipv6_loop_same_run) auto
  then consider "qdf_ipv6_loop s ?q a ?zc 0 = None" "qdf_ipv6_loop s ?q b ?zc 0 = None"
    | q a' b' zc k where "qdf_ipv6_loop s ?q a ?zc 0 = Some (q, a', zc, k)"
        "qdf_ipv6_loop s ?q b ?zc 0 = Some (q, b', zc, k)" "k \<le> 8" "zc \<le> int k"
        "length a' = 16" "length b' = 16" "take (2 * k) a' = take (2 * k) b'"
    by (auto simp: same_run_def split: option.splits)
  then show ?thesis
  proof cases
    case 1
    then show ?thesis
      using s ok c1 c2 by (simp add: qdf_ipv6_parse_def Let_def)
  next
    case (2 q a' b' zc k)
    have full: "k = 8 \<Longrightarrow> a' = b'" using 2 by simp
    have comp: "0 \<le> zc \<Longrightarrow> qdf_ipv6_apply_zero_comp a' k (nat zc) = qdf_ipv6_apply_zero_comp b' k (nat zc)"
    proof -
      assume "0 \<le> zc"
      then have zk: "nat zc \<le> k" using 2 by simp
      then have "take (2 * nat zc) a' = take (2 * nat zc) b'"
        using 2(7) by (metis min.absorb1 mult_le_mono2 take_take)
      moreover have "take (2 * (k - nat zc)) (drop (2 * nat zc) a') = take (2 * (k - nat zc)) (drop (2 * nat zc) b')"
        using arg_cong [OF 2(7), of "drop (2 * nat zc)"] by (simp add: drop_take diff_mult_distrib2)
      ultimately show ?thesis
        using zk 2 by (simp add: zero_comp_eq)
    qed
    show ?thesis
      using s ok c1 c2 2 full comp
      by (simp add: qdf_ipv6_parse_def Let_def QDF_IPV6_ADDR_HEXTET_COUNT_def)
  qed
qed

theorem qdf_ipv6_parse_no_leak_witness:
  "qdf_ipv6_parse (replicate 16 9) (Some ''900a:ae7::6'') True
   = Inr [144, 10, 10, 231, 0, 0, 0, 0, 0, 0, 0, 0, 0, 0, 0, 6]"
proof -
  have "qdf_ipv6_parse (replicate 16 0) (Some ''900a:ae7::6'') True
      = Inr [144, 10, 10, 231, 0, 0, 0, 0, 0, 0, 0, 0, 0, 0, 0, 6]"
    by code_simp
  then show ?thesis
    using qdf_ipv6_parse_no_leak [of "replicate 16 9" "replicate 16 0" "Some ''900a:ae7::6''" True]
    by simp
qed

text \<open>
  the loop of qdf_ipv6_parse stops after eight hextets having already consumed a colon after the
  eighth one: an address with a dangling colon at its end is accepted, although eight
  colon-delimited hextets leave no place for it.
\<close>

theorem qdf_ipv6_parse_accepts_trailing_colon:
  "qdf_ipv6_parse (replicate 16 0) (Some ''1:2:3:4:5:6:7:8:'') True
   = qdf_ipv6_parse (replicate 16 0) (Some ''1:2:3:4:5:6:7:8'') True
   \<and> qdf_ipv6_parse (replicate 16 0) (Some ''1:2:3:4:5:6:7:8'') True
   = Inr [0, 1, 0, 2, 0, 3, 0, 4, 0, 5, 0, 6, 0, 7, 0, 8]"
  by (rule conjI; code_simp)

lemma unat_u16_less: "unat (h :: u16) < 65536"
  using unsigned_less [of h] by simp

lemma hextets_tail_no_hex:
  "snd (qdf_consume_hex rest 0) = None \<Longrightarrow> snd (qdf_consume_hex (hextets_tail t @ rest) 0) = None"
  by (cases t) (simp_all add: qdf_consume_hex_def Let_def str_at_def)

lemma num16_not_colon: "str_at (num_str 16 n @ rest) 0 \<noteq> CHR '':''"
  using digit_char_neq [of "hd (digits_of 16 n)" "CHR '':''"] hd_digits_less [of 16 n]
  by (simp add: str_at_num_str)

lemma str_at_num16:
  "str_at (num_str 16 n @ rest) 0 \<noteq> CHR '':''" "\<not> is_space (str_at (num_str 16 n @ rest) 0)"
  using num16_not_colon hd_digits_less [of 16 n] by (simp_all add: str_at_num_str)

lemma colon_colon_no_hex: "snd (qdf_consume_hex (CHR '':'' # rest) 0) = None"
  by (simp add: qdf_consume_hex_def Let_def str_at_def)

text \<open>One round of the loop on a printed hextet.\<close>

lemma ipv6_loop_hextet:
  fixes h :: u16
  assumes "k < 8" "length addr = 16" "snd (qdf_consume_hex rest 0) = None"
  defines "addr' \<equiv> take (2 * k) addr @ hextet_bytes h @ drop (2 * k + 2) addr"
  shows "qdf_ipv6_loop (pre @ num_str 16 (unat h) @ rest) (length pre) addr zc k
    = (let s = pre @ num_str 16 (unat h) @ rest; q = length (pre @ num_str 16 (unat h)) in
       if str_at rest 0 \<noteq> CHR '':'' then Some (q, addr', zc, k + 1)
       else if str_at rest 1 \<noteq> CHR '':'' then qdf_ipv6_loop s (Suc q) addr' zc (k + 1)
       else if 0 \<le> zc then None
       else qdf_ipv6_loop s (q + 2) addr' (int (k + 1)) (k + 1))"
proof -
  let ?s = "pre @ num_str 16 (unat h) @ rest"
  let ?q = "length (pre @ num_str 16 (unat h))"
  have c: "qdf_consume_hextet ?s (length pre) = (?q, Some h)"
    using consume_hextet_num [OF unat_u16_less assms(3), of pre h] by simp
  have st: "addr[k * 2 := ucast (drop_bit 8 h), k * 2 + 1 := ucast h] = addr'"
    using assms store_hextet [of k addr] by (simp add: hextet_bytes_def)
  have at: "str_at ?s ?q = str_at rest 0" "str_at ?s (Suc ?q) = str_at rest 1"
    using str_at_shift [of "pre @ num_str 16 (unat h)" rest 0]
      str_at_shift [of "pre @ num_str 16 (unat h)" rest 1] by (simp_all add: add.assoc)
  show ?thesis
    using assms(1)
    by (subst qdf_ipv6_loop.simps)
      (simp add: c st [unfolded Suc_eq_plus1 [symmetric]] at QDF_IPV6_ADDR_HEXTET_COUNT_def qdf_consume_char_def Let_def
        del: length_append)
qed

lemma drop_after_hextet:
  assumes "2 * k + 2 \<le> length addr"
  shows "drop (2 * (k + Suc m)) (take (2 * k) addr @ hextet_bytes h @ drop (2 * k + 2) addr)
    = drop (2 * (k + Suc m)) addr"
proof -
  have e: "2 * (k + Suc m) = 2 * m + (2 * k + 2)" by simp
  have "drop (2 * k + 2) (take (2 * k) addr @ hextet_bytes h @ drop (2 * k + 2) addr) = drop (2 * k + 2) addr"
    using assms by (simp add: hextet_bytes_def)
  then show ?thesis
    unfolding e by (metis drop_drop)
qed

lemma ipv6_loop_hextets:
  assumes "snd (qdf_consume_hex rest 0) = None" "str_at rest 0 \<noteq> CHR '':''"
  shows "k + Suc (length t) \<le> 8 \<Longrightarrow> length addr = 16 \<Longrightarrow>
    qdf_ipv6_loop (pre @ num_str 16 (unat h) @ hextets_tail t @ rest) (length pre) addr zc k
    = Some (length (pre @ num_str 16 (unat h) @ hextets_tail t),
        take (2 * k) addr @ hextets_bytes (h # t) @ drop (2 * (k + Suc (length t))) addr,
        zc, k + Suc (length t))"
proof (induction t arbitrary: pre addr k h)
  case Nil
  then show ?case
    using assms ipv6_loop_hextet [of k addr rest pre h zc] by (simp add: Let_def)
next
  case (Cons h' t)
  let ?addr = "take (2 * k) addr @ hextet_bytes h @ drop (2 * k + 2) addr"
  let ?pre = "pre @ num_str 16 (unat h) @ '':''"
  have l: "length ?addr = 16" using Cons.prems by (simp add: hextet_bytes_def)
  have "qdf_ipv6_loop (pre @ num_str 16 (unat h) @ hextets_tail (h' # t) @ rest) (length pre) addr zc k
      = qdf_ipv6_loop (?pre @ num_str 16 (unat h') @ hextets_tail t @ rest) (length ?pre) ?addr zc (k + 1)"
    using ipv6_loop_hextet [of k addr "hextets_tail (h' # t) @ rest" pre h zc] Cons.prems
      colon_colon_no_hex str_at_num16(1) [of "unat h'" "hextets_tail t @ rest"]
      str_at_shift [of "'':''" "num_str 16 (unat h') @ hextets_tail t @ rest" 0]
    by (simp add: Let_def) (simp add: str_at_def)
  also have "\<dots> = Some (length (?pre @ num_str 16 (unat h') @ hextets_tail t),
        take (2 * (k + 1)) ?addr @ hextets_bytes (h' # t) @ drop (2 * (k + 1 + Suc (length t))) ?addr,
        zc, k + 1 + Suc (length t))"
    using Cons.IH [of "k + 1" ?addr ?pre h'] Cons.prems l by simp
  also have "take (2 * (k + 1)) ?addr = take (2 * k) addr @ hextet_bytes h"
    using Cons.prems by (simp add: hextet_bytes_def)
  also have "drop (2 * (k + 1 + Suc (length t))) ?addr = drop (2 * (k + Suc (length (h' # t)))) addr"
    using Cons.prems drop_after_hextet [of k addr "Suc (length t)" h] by simp
  finally show ?case by simp
qed

lemma ipv6_loop_hextets_comp:
  "k + Suc (length t) \<le> 8 \<Longrightarrow> length addr = 16 \<Longrightarrow> zc < 0 \<Longrightarrow>
    qdf_ipv6_loop (pre @ num_str 16 (unat h) @ hextets_tail t @ ''::'' @ rest) (length pre) addr zc k
    = qdf_ipv6_loop ((pre @ num_str 16 (unat h) @ hextets_tail t @ ''::'') @ rest)
        (length (pre @ num_str 16 (unat h) @ hextets_tail t @ ''::''))
        (take (2 * k) addr @ hextets_bytes (h # t) @ drop (2 * (k + Suc (length t))) addr)
        (int (k + Suc (length t))) (k + Suc (length t))"
proof (induction t arbitrary: pre addr k h)
  case Nil
  then show ?case
    using ipv6_loop_hextet [of k addr "''::'' @ rest" pre h zc] colon_colon_no_hex
    by (simp add: Let_def str_at_def)
next
  case (Cons h' t)
  let ?addr = "take (2 * k) addr @ hextet_bytes h @ drop (2 * k + 2) addr"
  let ?pre = "pre @ num_str 16 (unat h) @ '':''"
  have l: "length ?addr = 16" using Cons.prems by (simp add: hextet_bytes_def)
  have "qdf_ipv6_loop (pre @ num_str 16 (unat h) @ hextets_tail (h' # t) @ ''::'' @ rest) (length pre) addr zc k
      = qdf_ipv6_loop (?pre @ num_str 16 (unat h') @ hextets_tail t @ ''::'' @ rest) (length ?pre) ?addr zc (k + 1)"
    using ipv6_loop_hextet [of k addr "hextets_tail (h' # t) @ ''::'' @ rest" pre h zc] Cons.prems
      colon_colon_no_hex str_at_num16(1) [of "unat h'" "hextets_tail t @ ''::'' @ rest"]
      str_at_shift [of "'':''" "num_str 16 (unat h') @ hextets_tail t @ ''::'' @ rest" 0]
    by (simp add: Let_def) (simp add: str_at_def)
  also have "\<dots> = qdf_ipv6_loop ((?pre @ num_str 16 (unat h') @ hextets_tail t @ ''::'') @ rest)
        (length (?pre @ num_str 16 (unat h') @ hextets_tail t @ ''::''))
        (take (2 * (k + 1)) ?addr @ hextets_bytes (h' # t) @ drop (2 * (k + 1 + Suc (length t))) ?addr)
        (int (k + 1 + Suc (length t))) (k + 1 + Suc (length t))"
    by (rule Cons.IH [of "k + 1" ?addr ?pre h']) (use Cons.prems l in simp_all)
  also have "take (2 * (k + 1)) ?addr = take (2 * k) addr @ hextet_bytes h"
    using Cons.prems by (simp add: hextet_bytes_def)
  also have "drop (2 * (k + 1 + Suc (length t))) ?addr = drop (2 * (k + Suc (length (h' # t)))) addr"
    using Cons.prems drop_after_hextet [of k addr "Suc (length t)" h] by simp
  finally show ?case by simp
qed

lemma ipv6_loop_stop:
  assumes "k < 8" "blank ws"
  shows "qdf_ipv6_loop (pre @ ws) (length pre) addr (int k) k = Some (length pre, addr, int k, k)"
proof -
  have stop: "snd (qdf_hextet_loop (pre @ ws) (length pre) 4 0 0) = (0, 0)"
    "fst (qdf_hextet_loop (pre @ ws) (length pre) 4 0 0) = length pre"
    using hextet_loop_val [of "[]" 4 ws pre 0 0] blank_no_hex [OF assms(2)] by simp_all
  then have "qdf_consume_hextet (pre @ ws) (length pre) = (length pre, None)"
    by (simp add: qdf_consume_hextet_def case_prod_unfold)
  then show ?thesis
    using assms(1) by (simp add: qdf_ipv6_loop.simps QDF_IPV6_ADDR_HEXTET_COUNT_def)
qed

lemma hextets_start:
  "hs \<noteq> [] \<Longrightarrow> str_at (hextets_str hs @ rest) 0 \<noteq> CHR '':'' \<and> \<not> is_space (str_at (hextets_str hs @ rest) 0)"
  using str_at_num16 by (cases hs) (simp_all add: hextets_str_Cons)

lemma ipv6_loop_tail:
  assumes "k + length b < 8" "length addr = 16" "blank ws"
  shows "qdf_ipv6_loop (pre @ hextets_str b @ ws) (length pre) addr (int k) k
    = Some (length (pre @ hextets_str b),
        take (2 * k) addr @ hextets_bytes b @ drop (2 * (k + length b)) addr, int k, k + length b)"
proof (cases b)
  case Nil
  then show ?thesis using assms ipv6_loop_stop [of k ws pre addr] by (simp add: hextets_str_def)
next
  case (Cons h t)
  then show ?thesis
    using assms ipv6_loop_hextets [of ws k t addr pre h "int k"] blank_no_hex [of ws]
      blank_not_char [of ws "CHR '':''"]
    by (simp add: hextets_str_Cons NUL_def is_space_def)
qed

lemma ipv6_comp_run:
  assumes "length a + length b < 8" "length addr = 16" "blank ws" "blank ws'"
  defines "s \<equiv> ws @ hextets_str a @ ''::'' @ hextets_str b @ ws'"
  shows "qdf_str_left_trim s 0 = length ws"
    and "a \<noteq> [] \<Longrightarrow> str_at s (length ws) \<noteq> CHR '':''"
    and "a = [] \<Longrightarrow> str_at s (length ws) = CHR '':'' \<and> str_at s (Suc (length ws)) = CHR '':''"
    and "qdf_ipv6_loop s (if a = [] then length ws + 2 else length ws) addr (if a = [] then 0 else - 1) 0
      = Some (length (ws @ hextets_str a @ ''::'' @ hextets_str b),
          hextets_bytes a @ hextets_bytes b @ drop (2 * (length a + length b)) addr,
          int (length a), length a + length b)"
proof -
  have start: "\<not> is_space (str_at (hextets_str a @ ''::'' @ hextets_str b @ ws') 0)"
    using hextets_start [of a "''::'' @ hextets_str b @ ws'"]
    by (cases "a = []") (auto simp: hextets_str_def str_at_def is_space_def)
  then show "qdf_str_left_trim s 0 = length ws"
    using left_trim_blank [OF assms(3), of "hextets_str a @ ''::'' @ hextets_str b @ ws'" "[]"]
    by (simp add: s_def)
  show "a \<noteq> [] \<Longrightarrow> str_at s (length ws) \<noteq> CHR '':''"
    using hextets_start [of a "''::'' @ hextets_str b @ ws'"]
      str_at_shift [of ws "hextets_str a @ ''::'' @ hextets_str b @ ws'" 0] by (simp add: s_def)
  show "a = [] \<Longrightarrow> str_at s (length ws) = CHR '':'' \<and> str_at s (Suc (length ws)) = CHR '':''"
    using str_at_shift [of ws "''::'' @ hextets_str b @ ws'" 1]
    by (simp add: s_def hextets_str_def) (simp add: str_at_def)
  show "qdf_ipv6_loop s (if a = [] then length ws + 2 else length ws) addr (if a = [] then 0 else - 1) 0
      = Some (length (ws @ hextets_str a @ ''::'' @ hextets_str b),
          hextets_bytes a @ hextets_bytes b @ drop (2 * (length a + length b)) addr,
          int (length a), length a + length b)"
  proof (cases a)
    case Nil
    then show ?thesis
      using ipv6_loop_tail [of 0 b addr ws' "ws @ ''::''"] assms by (simp add: s_def hextets_str_def)
  next
    case (Cons h t)
    let ?addr = "hextets_bytes a @ drop (2 * length a) addr"
    have "qdf_ipv6_loop s (length ws) addr (- 1) 0
        = qdf_ipv6_loop ((ws @ hextets_str a @ ''::'') @ hextets_str b @ ws')
            (length (ws @ hextets_str a @ ''::'')) ?addr (int (length a)) (length a)"
      using ipv6_loop_hextets_comp [of 0 t addr "- 1" ws h "hextets_str b @ ws'"] assms Cons
      by (simp add: s_def hextets_str_Cons)
    also have "\<dots> = Some (length ((ws @ hextets_str a @ ''::'') @ hextets_str b),
        take (2 * length a) ?addr @ hextets_bytes b @ drop (2 * (length a + length b)) ?addr,
        int (length a), length a + length b)"
      by (rule ipv6_loop_tail) (use assms in simp_all)
    also have "drop (2 * (length a + length b)) ?addr = drop (2 * (length a + length b)) addr"
      by (simp add: add.commute)
    also have "take (2 * length a) ?addr = hextets_bytes a"
      by simp
    finally show ?thesis
      unfolding append_assoc using Cons by (simp del: hextets_bytes_simps(2))
  qed
qed

text \<open>
  C34: IPv6 addresses parse to what they denote: hextets before and after one zero compression give
  those hextets with the missing ones filled in as zeros between them, and eight hextets without a
  compression give themselves; white space around the address is ignored.
\<close>

theorem qdf_ipv6_parse_roundtrip:
  assumes "length a + length b < 8" "length hs = 8" "length addr = 16" "blank ws" "blank ws'"
  shows "qdf_ipv6_parse addr (Some (ws @ hextets_str a @ ''::'' @ hextets_str b @ ws')) True
      = Inr (hextets_bytes (a @ replicate (8 - (length a + length b)) 0 @ b))
    \<and> qdf_ipv6_parse addr (Some (ws @ hextets_str hs @ ws')) True = Inr (hextets_bytes hs)"
proof
  let ?s = "ws @ hextets_str a @ ''::'' @ hextets_str b @ ws'"
  let ?q = "length (ws @ hextets_str a @ ''::'' @ hextets_str b)"
  let ?addr = "hextets_bytes a @ hextets_bytes b @ drop (2 * (length a + length b)) addr"
  note run = ipv6_comp_run [OF assms(1,3,4,5)]
  have trim: "str_at ?s (qdf_str_left_trim ?s ?q) = NUL"
    using left_trim_blank_end [OF assms(5), of "ws @ hextets_str a @ ''::'' @ hextets_str b"]
    by (simp add: str_at_beyond)
  have "hextets_bytes (replicate n 0) = replicate (2 * n) 0" for n
    by (induction n) (simp_all add: hextet_bytes_def)
  then have bytes: "qdf_ipv6_apply_zero_comp ?addr (length a + length b) (length a)
      = hextets_bytes (a @ replicate (8 - (length a + length b)) 0 @ b)"
    using assms by (subst zero_comp_eq) auto
  show "qdf_ipv6_parse addr (Some ?s) True
      = Inr (hextets_bytes (a @ replicate (8 - (length a + length b)) 0 @ b))"
    using run trim bytes assms(1)
    by (cases "a = []")
      (simp_all add: qdf_ipv6_parse_def qdf_consume_char_def QDF_IPV6_ADDR_HEXTET_COUNT_def Let_def)
next
  obtain h t where hs: "hs = h # t" and t: "length t = 7"
    using assms(2) by (cases hs) auto
  let ?s = "ws @ hextets_str hs @ ws'"
  have start: "str_at ?s (length ws) \<noteq> CHR '':''" "qdf_str_left_trim ?s 0 = length ws"
    using hextets_start [of hs ws'] hs str_at_shift [of ws "hextets_str hs @ ws'" 0]
      left_trim_blank [OF assms(4), of "hextets_str hs @ ws'" "[]"] by auto
  have run: "qdf_ipv6_loop ?s (length ws) addr (- 1) 0
      = Some (length (ws @ hextets_str hs), hextets_bytes hs, - 1, 8)"
    using ipv6_loop_hextets [of ws' 0 t addr ws h "- 1"] blank_no_hex [OF assms(5)]
      blank_not_char [OF assms(5), of "CHR '':''"] assms hs t
    by (simp add: hextets_str_Cons NUL_def is_space_def)
  have "str_at ?s (qdf_str_left_trim ?s (length (ws @ hextets_str hs))) = NUL"
    using left_trim_blank_end [OF assms(5), of "ws @ hextets_str hs"] by (simp add: str_at_beyond)
  then show "qdf_ipv6_parse addr (Some ?s) True = Inr (hextets_bytes hs)"
    using start run
    by (simp add: qdf_ipv6_parse_def qdf_consume_char_def QDF_IPV6_ADDR_HEXTET_COUNT_def Let_def)
qed

theorem qdf_ipv6_parse_roundtrip_witness:
  "qdf_ipv6_parse (replicate 16 255) (Some (hextets_str [1, 2] @ ''::'' @ hextets_str [3] @ '' '')) True
   = Inr (hextets_bytes [1, 2, 0, 0, 0, 0, 0, 3])"
  using qdf_ipv6_parse_roundtrip [of "[1, 2]" "[3]" "[1, 2, 3, 4, 5, 6, 7, 8]" "replicate 16 255" "[]" "'' ''"]
  by (simp add: blank_def is_space_def numeral_eq_Suc)

section \<open>Integer arrays\<close>

lemma digits_loop_error: "qdf_digits_loop s p radix acc = Inl e \<Longrightarrow> e \<noteq> QDF_STATUS_SUCCESS"
proof (induction s p radix acc rule: qdf_digits_loop.induct)
  case (1 s p radix acc)
  then show ?case
    by (auto simp: qdf_digits_loop.simps [of s p] Let_def split: prod.splits option.splits if_splits)
qed

lemma lazy_error: "qdf_int_parse_lazy s p = Inl e \<Longrightarrow> e \<noteq> QDF_STATUS_SUCCESS"
  by (auto simp: qdf_int_parse_lazy_def Let_def dest: digits_loop_error
      split: prod.splits option.splits sum.splits)

lemma array_frame_step:
  assumes "length out' = length (out[n := x])" "take (Suc n) out' = take (Suc n) (out[n := x])"
    "drop cap out' = drop cap (out[n := x])" "n < cap"
    "if ok then Suc n < k' \<and> k' \<le> cap else k' = k"
  shows "length out' = length out \<and> take n out' = take n out \<and> drop cap out' = drop cap out
    \<and> (if ok then n < k' \<and> k' \<le> cap else k' = k)"
proof -
  have "take n out' = take n (take (Suc n) out')" by (simp add: min_def)
  also have "\<dots> = take n out" unfolding assms(2) by (simp add: min_def)
  finally show ?thesis using assms by (auto split: if_splits)
qed

lemma uint_array_loop_frame:
  assumes "qdf_uint_array_loop s p out n cap k = (st, out', k')"
  shows "length out' = length out \<and> take n out' = take n out \<and> drop cap out' = drop cap out
    \<and> (if st = QDF_STATUS_SUCCESS then n < k' \<and> k' \<le> cap else k' = k)"
  using assms
proof (induction s p out n cap k arbitrary: out' rule: qdf_uint_array_loop.induct)
  case (1 s p out n cap k)
  note simp = qdf_uint_array_loop.simps [of s p out n cap k]
  show ?case
  proof (cases "n < cap")
    case False
    then show ?thesis using 1 by (auto simp: simp)
  next
    case True
    show ?thesis
    proof (cases "qdf_int_parse_lazy s p")
      case (Inl e)
      then show ?thesis using 1 True lazy_error [OF Inl] by (auto simp: simp)
    next
      case (Inr a)
      obtain p1 v neg where a: "a = (p1, v, neg)" by (cases a)
      let ?p2 = "qdf_str_left_trim s p1"
      let ?out = "out[n := ucast v]"
      show ?thesis
      proof (cases "\<not> (ucast (ucast v :: 'a word) \<noteq> v \<or> neg) \<and> str_at s ?p2 = CHR '',''")
        case False
        then show ?thesis
          using 1 True Inr a by (auto simp: simp Let_def split: if_splits)
      next
        case comma: True
        have "qdf_uint_array_loop s (Suc ?p2) ?out (Suc n) cap k = (st, out', k')"
          using 1 True Inr a comma by (simp add: simp Let_def)
        then have "length out' = length ?out \<and> take (Suc n) out' = take (Suc n) ?out
            \<and> drop cap out' = drop cap ?out
            \<and> (if st = QDF_STATUS_SUCCESS then Suc n < k' \<and> k' \<le> cap else k' = k)"
          using "1.IH" [OF True Inr a [symmetric] refl refl] comma by simp
        then show ?thesis
          using True by (intro array_frame_step [where x = "ucast v"]) auto
      qed
    qed
  qed
qed
lemma int32_array_loop_frame:
  assumes "qdf_int32_array_loop s p out n cap k = (st, out', k')"
  shows "length out' = length out \<and> take n out' = take n out \<and> drop cap out' = drop cap out
    \<and> (if st = QDF_STATUS_SUCCESS then n < k' \<and> k' \<le> cap else k' = k)"
  using assms
proof (induction s p out n cap k arbitrary: out' rule: qdf_int32_array_loop.induct)
  case (1 s p out n cap k)
  note simp = qdf_int32_array_loop.simps [of s p out n cap k]
  show ?case
  proof (cases "n < cap")
    case False
    then show ?thesis using 1 by (auto simp: simp)
  next
    case True
    show ?thesis
    proof (cases "qdf_int_parse_lazy s p")
      case (Inl e)
      then show ?thesis using 1 True lazy_error [OF Inl] by (auto simp: simp)
    next
      case (Inr a)
      obtain p1 v neg where a: "a = (p1, v, neg)" by (cases a)
      let ?sv = "if neg then - v else v"
      let ?p2 = "qdf_str_left_trim s p1"
      let ?out = "out[n := scast ?sv]"
      show ?thesis
      proof (cases "\<not> (if neg then 0 < sint ?sv else sint ?sv < 0) \<and> str_at s ?p2 = CHR '',''")
        case False
        then show ?thesis
          using 1 True Inr a by (auto simp: simp Let_def split: if_splits)
      next
        case comma: True
        have "qdf_int32_array_loop s (Suc ?p2) ?out (Suc n) cap k = (st, out', k')"
          using "1.prems" True Inr a comma by (simp add: simp Let_def split: if_splits)
        then have "length out' = length ?out \<and> take (Suc n) out' = take (Suc n) ?out
            \<and> drop cap out' = drop cap ?out
            \<and> (if st = QDF_STATUS_SUCCESS then Suc n < k' \<and> k' \<le> cap else k' = k)"
          using "1.IH" [OF True Inr a [symmetric] refl refl refl] comma by simp
        then show ?thesis
          using True by (intro array_frame_step [where x = "scast ?sv"]) auto
      qed
    qed
  qed
qed

text \<open>
  What a caller keeps of its array and its size variable: nothing at or past \<open>array_size\<close> changes, and the size is
  set on success only. A call with a null pointer leaves everything alone.
\<close>

definition array_kept ::
    "nat \<Rightarrow> string option \<Rightarrow> 'a list option \<Rightarrow> nat option \<Rightarrow> qdf_status \<times> 'a list option \<times> nat option \<Rightarrow> bool" where
  "array_kept cap in_str out sz res =
     (case (in_str, out, sz, res) of
        (Some s, Some xs, Some k, st, Some xs', Some k') \<Rightarrow>
          length xs' = length xs \<and> drop cap xs' = drop cap xs \<and>
          (if st = QDF_STATUS_SUCCESS then 0 < k' \<and> k' \<le> cap else k' = k)
      | (Some s, Some xs, Some k, _) \<Rightarrow> False
      | _ \<Rightarrow> res = (QDF_STATUS_E_INVAL, out, sz))"

lemma array_kept_loop:
  assumes "\<And>s xs k st xs' k'. loop s xs k = (st, xs', k') \<Longrightarrow>
      length xs' = length xs \<and> take 0 xs' = take 0 xs \<and> drop cap xs' = drop cap xs \<and>
      (if st = QDF_STATUS_SUCCESS then 0 < k' \<and> k' \<le> cap else k' = k)"
  shows "array_kept cap in_str out sz
    (case (in_str, out, sz) of
       (Some s, Some xs, Some k) \<Rightarrow> (let (st, xs', k') = loop s xs k in (st, Some xs', Some k'))
     | _ \<Rightarrow> (QDF_STATUS_E_INVAL, out, sz))"
proof (cases "in_str = None \<or> out = None \<or> sz = None")
  case True
  then show ?thesis by (auto simp: array_kept_def split: option.splits)
next
  case False
  then obtain s xs k where o: "in_str = Some s" "out = Some xs" "sz = Some k" by (auto simp: not_None_eq)
  obtain st xs' k' where "loop s xs k = (st, xs', k')" by (cases "loop s xs k") auto
  then show ?thesis using assms [of s xs k st xs' k'] by (simp add: array_kept_def o)
qed

text \<open>
  C39: all four array parsers respect the caller's memory: whatever the input, the array keeps its length
  and nothing at or past \<open>array_size\<close> is written; the size variable is set on success only, to a
  number of elements between one and \<open>array_size\<close>, and untouched by every error. A null pointer for the text, the
  array or the size is QDF_STATUS_E_INVAL and changes nothing.
\<close>

theorem qdf_array_parse_in_bounds:
  "array_kept cap in_str bytes sz (qdf_uint8_array_parse in_str bytes cap sz) \<and>
   array_kept cap in_str halves sz (qdf_uint16_array_parse in_str halves cap sz) \<and>
   array_kept cap in_str words sz (qdf_uint32_array_parse in_str words cap sz) \<and>
   array_kept cap in_str ints sz (qdf_int32_array_parse in_str ints cap sz)"
  unfolding qdf_uint8_array_parse_def qdf_uint16_array_parse_def qdf_uint32_array_parse_def qdf_int32_array_parse_def
  by (rule conjI [OF _ conjI [OF _ conjI]]; rule array_kept_loop; erule uint_array_loop_frame int32_array_loop_frame)

theorem qdf_array_parse_in_bounds_witness:
  "qdf_uint8_array_parse (Some ''1,2,300'') (Some [7, 8, 9, 10]) 3 (Some 0)
     = (QDF_STATUS_E_RANGE, Some [1, 2, 9, 10], Some 0)
   \<and> array_kept 3 (Some ''1,2,300'') (Some [7, 8, 9, 10]) (Some 0) (QDF_STATUS_E_RANGE, Some [1, 2, 9, 10 :: u8], Some 0)"
proof -
  have 1: "qdf_uint8_array_parse (Some ''1,2,300'') (Some [7, 8, 9, 10]) 3 (Some 0)
     = (QDF_STATUS_E_RANGE, Some [1, 2, 9, 10], Some 0)" by code_simp
  show ?thesis
    using 1 conjunct1 [OF qdf_array_parse_in_bounds, of 3 "Some ''1,2,300''" "Some [7, 8, 9, 10]" "Some 0"] by simp
qed

text \<open>
  qdf_int32_array_parse checks its elements against the 64 bit range only and stores them
  truncated: an element that qdf_int32_parse refuses with QDF_STATUS_E_RANGE is accepted, as a
  different number. (The unsigned array parsers do check the width of their elements.)
\<close>

theorem qdf_int32_array_parse_truncates:
  "qdf_int32_array_parse (Some ''4294967297'') (Some [0]) 1 (Some 0) = (QDF_STATUS_SUCCESS, Some [1], Some 1)
   \<and> qdf_int32_parse (Some ''4294967297'') = Inl QDF_STATUS_E_RANGE
   \<and> qdf_uint32_array_parse (Some ''4294967297'') (Some [0]) 1 (Some 0) = (QDF_STATUS_E_RANGE, Some [0], Some 0)"
  by (intro conjI; code_simp)

end
