(* ===== verification/Vidc_Queue.thy ===== *)
theory Vidc_Queue
  imports Kernel_Prelude
begin

text \<open>
  The interface queues between the video driver and its firmware, after \<open>venus_hfi_queue.c\<close>: the ring
  buffers of 32 bit words in shared memory (\<open>__write_queue\<close>, \<open>__read_queue\<close>), the command, message and
  debug queues of the core, and their set-up and tear-down.

  A pointer into a queue's array is its byte offset from the start of the array, and the array is the
  list of its words (\<open>None\<close> for a NULL pointer). The indices in the header are written by the firmware
  too, so nothing is assumed of them: they stay 32 bit words, every shift and subtraction wraps as in
  C, and a \<open>memcpy\<close> or a read that would leave a buffer makes the whole operation \<open>None\<close>. The packet
  dumps that the debug mask enables are not modelled.
\<close>

section \<open>Constants and data\<close>

definition VIDC_IFACEQ_NUMQ :: nat where "VIDC_IFACEQ_NUMQ = 3"
definition VIDC_IFACEQ_CMDQ_IDX :: nat where "VIDC_IFACEQ_CMDQ_IDX = 0"
definition VIDC_IFACEQ_MSGQ_IDX :: nat where "VIDC_IFACEQ_MSGQ_IDX = 1"
definition VIDC_IFACEQ_DBGQ_IDX :: nat where "VIDC_IFACEQ_DBGQ_IDX = 2"
definition VIDC_IFACEQ_DFLT_QHDR :: u32 where "VIDC_IFACEQ_DFLT_QHDR = 0x01010000"
definition HFI_Q_ID_HOST_TO_CTRL_CMD_Q :: u32 where "HFI_Q_ID_HOST_TO_CTRL_CMD_Q = 0"
definition HFI_Q_ID_CTRL_TO_HOST_MSG_Q :: u32 where "HFI_Q_ID_CTRL_TO_HOST_MSG_Q = 1"
definition HFI_Q_ID_CTRL_TO_HOST_DEBUG_Q :: u32 where "HFI_Q_ID_CTRL_TO_HOST_DEBUG_Q = 2"
definition VIDC_IFACEQ_VAR_HUGE_PKT_SIZE :: u32 where "VIDC_IFACEQ_VAR_HUGE_PKT_SIZE = 1024 * 4"

text \<open>
  Sizes in bytes: \<open>VIDC_IFACEQ_MAX_PKT_SIZE\<close> (1024) times \<open>VIDC_IFACEQ_MAX_BUF_COUNT\<close> (50) times
  \<open>VIDC_IFACE_MAX_PARALLEL_CLNTS\<close> (16); the table header has six words, a pointer and a name of 256
  bytes, a queue header fourteen words.
\<close>

definition VIDC_IFACEQ_QUEUE_SIZE :: u32 where "VIDC_IFACEQ_QUEUE_SIZE = 1024 * 50 * 16"
definition sizeof_hfi_queue_table_header :: u32 where "sizeof_hfi_queue_table_header = 288"
definition sizeof_hfi_queue_header :: u32 where "sizeof_hfi_queue_header = 56"
definition VIDC_IFACEQ_TABLE_SIZE :: u32 where
  "VIDC_IFACEQ_TABLE_SIZE = sizeof_hfi_queue_table_header + sizeof_hfi_queue_header * of_nat VIDC_IFACEQ_NUMQ"
definition ALIGNED_SFR_SIZE :: u32 where "ALIGNED_SFR_SIZE = 4096"

record hfi_queue_header =
  qhdr_status :: u32
  qhdr_start_addr :: u32
  qhdr_type :: u32
  qhdr_q_size :: u32
  qhdr_pkt_size :: u32
  qhdr_pkt_drop_cnt :: u32
  qhdr_rx_wm :: u32
  qhdr_tx_wm :: u32
  qhdr_rx_req :: u32
  qhdr_tx_req :: u32
  qhdr_rx_irq_status :: u32
  qhdr_tx_irq_status :: u32
  qhdr_read_idx :: u32
  qhdr_write_idx :: u32

record hfi_queue_table_header =
  qtbl_version :: u32
  qtbl_size :: u32
  qtbl_qhdr0_offset :: u32
  qtbl_qhdr_size :: u32
  qtbl_num_q :: u32
  qtbl_num_active_q :: u32
  qtbl_name :: string

text \<open>
  \<open>msm_vidc_iface_q_info\<close> with its \<open>q_array\<close>: the header it points to, the words of the array, its
  size in bytes and its address for the firmware.
\<close>

record iface_q_info =
  q_hdr :: "hfi_queue_header option"
  q_array :: "u32 list option"
  q_mem_size :: u32
  q_device_addr :: u32

section \<open>The ring buffer\<close>

definition set_queue_hdr_defaults :: "hfi_queue_header \<Rightarrow> hfi_queue_header" where
  "set_queue_hdr_defaults h = h
     \<lparr>qhdr_status := 1, qhdr_type := VIDC_IFACEQ_DFLT_QHDR, qhdr_q_size := VIDC_IFACEQ_QUEUE_SIZE div 4,
      qhdr_pkt_size := 0, qhdr_rx_wm := 1, qhdr_tx_wm := 1, qhdr_rx_req := 1, qhdr_tx_req := 0,
      qhdr_rx_irq_status := 0, qhdr_tx_irq_status := 0, qhdr_read_idx := 0, qhdr_write_idx := 0\<rparr>"

text \<open>The number of words a C expression \<open>w << 2\<close>, in bytes, covers; the shift wraps.\<close>

definition words_of_bytes :: "u32 \<Rightarrow> nat" where
  "words_of_bytes w = unat (push_bit 2 w) div 4"

text \<open>The two branches that copy a packet into the ring, and the new write index.\<close>

definition ring_store :: "u32 list \<Rightarrow> u32 \<Rightarrow> u32 \<Rightarrow> u32 list \<Rightarrow> u32 \<Rightarrow> (u32 list \<times> u32) option" where
  "ring_store mem mem_words write_idx pkt n =
     (let new_write_idx = write_idx + n in
      if new_write_idx < mem_words then
        (case mem_copy mem (words_of_bytes write_idx) pkt 0 (words_of_bytes n) of
           None \<Rightarrow> None
         | Some mem' \<Rightarrow> Some (mem', new_write_idx))
      else
        (let new_write_idx = new_write_idx - mem_words in
         case mem_copy mem (words_of_bytes write_idx) pkt 0 (words_of_bytes (n - new_write_idx)) of
           None \<Rightarrow> None
         | Some mem' \<Rightarrow>
             (case mem_copy mem' 0 pkt (words_of_bytes (n - new_write_idx)) (words_of_bytes new_write_idx) of
                None \<Rightarrow> None
              | Some mem'' \<Rightarrow> Some (mem'', new_write_idx))))"

text \<open>
  \<open>__write_queue\<close>: the queue, whether \<open>*rx_req_is_set\<close> was set, and the return code.
\<close>

definition write_queue :: "iface_q_info \<Rightarrow> u32 list option \<Rightarrow> (iface_q_info \<times> bool \<times> (errno + unit)) option" where
  "write_queue qinfo packet =
     (case packet of None \<Rightarrow> Some (qinfo, False, Inl EINVAL) | Some pkt \<Rightarrow>
      (case q_array qinfo of None \<Rightarrow> Some (qinfo, False, Inl EINVAL) | Some mem \<Rightarrow>
      (case q_hdr qinfo of None \<Rightarrow> Some (qinfo, False, Inl ENOENT) | Some queue \<Rightarrow>
      (case pkt of [] \<Rightarrow> None | pkt_size # _ \<Rightarrow>
       (let n = drop_bit 2 pkt_size; mem_words = drop_bit 2 (q_mem_size qinfo) in
        if n = 0 \<or> mem_words < n then Some (qinfo, False, Inl ENODATA)
        else
         (let read_idx = qhdr_read_idx queue; write_idx = qhdr_write_idx queue;
              empty_space = (if read_idx \<le> write_idx then mem_words - (write_idx - read_idx)
                             else read_idx - write_idx) in
          if empty_space \<le> n then
            Some (qinfo\<lparr>q_hdr := Some (queue\<lparr>qhdr_tx_req := 1\<rparr>)\<rparr>, False, Inl ENOTEMPTY)
          else
           (let queue = queue\<lparr>qhdr_tx_req := 0\<rparr> in
            if q_mem_size qinfo < push_bit 2 write_idx then
              Some (qinfo\<lparr>q_hdr := Some queue\<rparr>, False, Inl ENODATA)
            else
             (case ring_store mem mem_words write_idx pkt n of
                None \<Rightarrow> None
              | Some (mem', new_write_idx) \<Rightarrow>
                  Some (qinfo\<lparr>q_array := Some mem', q_hdr := Some (queue\<lparr>qhdr_write_idx := new_write_idx\<rparr>)\<rparr>,
                        True, Inr ())))))))))"

text \<open>The two branches that copy a packet out of the ring.\<close>

definition ring_fetch :: "u32 list \<Rightarrow> u32 \<Rightarrow> u32 \<Rightarrow> u32 list \<Rightarrow> u32 \<Rightarrow> (u32 list \<times> u32) option" where
  "ring_fetch mem mem_words read_idx pkt n =
     (let new_read_idx = read_idx + n in
      if new_read_idx < mem_words then
        (case mem_copy pkt 0 mem (words_of_bytes read_idx) (words_of_bytes n) of
           None \<Rightarrow> None
         | Some pkt' \<Rightarrow> Some (pkt', new_read_idx))
      else
        (let new_read_idx = new_read_idx - mem_words in
         case mem_copy pkt 0 mem (words_of_bytes read_idx) (words_of_bytes (n - new_read_idx)) of
           None \<Rightarrow> None
         | Some pkt' \<Rightarrow>
             (case mem_copy pkt' (words_of_bytes (n - new_read_idx)) mem 0 (words_of_bytes new_read_idx) of
                None \<Rightarrow> None
              | Some pkt'' \<Rightarrow> Some (pkt'', new_read_idx))))"

text \<open>
  \<open>__read_queue\<close>: the queue, the caller's packet buffer, \<open>*pb_tx_req_is_set\<close> (\<open>tx\<close> is its old value)
  and the return code. The packet buffer pointer and the flag pointer are \<open>None\<close> for NULL.
\<close>

definition read_queue ::
    "iface_q_info \<Rightarrow> u32 list option \<Rightarrow> u32 option
     \<Rightarrow> (iface_q_info \<times> u32 list option \<times> u32 option \<times> (errno + unit)) option" where
  "read_queue qinfo packet tx =
     (case (packet, tx) of
        (Some pkt, Some _) \<Rightarrow>
       (case q_array qinfo of None \<Rightarrow> Some (qinfo, packet, tx, Inl EINVAL) | Some mem \<Rightarrow>
        (case q_hdr qinfo of None \<Rightarrow> Some (qinfo, packet, tx, Inl ENOMEM) | Some queue \<Rightarrow>
         (let receive_request = (if qhdr_type queue AND HFI_Q_ID_CTRL_TO_HOST_MSG_Q \<noteq> 0 then 1 else 0);
              read_idx = qhdr_read_idx queue; write_idx = qhdr_write_idx queue;
              mem_words = drop_bit 2 (q_mem_size qinfo) in
          if read_idx = write_idx then
            Some (qinfo\<lparr>q_hdr := Some (queue\<lparr>qhdr_rx_req := receive_request\<rparr>)\<rparr>, packet, Some 0, Inl ENODATA)
          else if unat (q_mem_size qinfo) < unat (push_bit 2 read_idx) + 4 then
            Some (qinfo, packet, tx, Inl ENODATA)
          else if length mem \<le> words_of_bytes read_idx then None
          else
           (let n = drop_bit 2 (mem ! words_of_bytes read_idx) in
            if n = 0 then Some (qinfo, packet, tx, Inl ENODATA)
            else
             (case (if push_bit 2 n \<le> VIDC_IFACEQ_VAR_HUGE_PKT_SIZE \<and> read_idx \<le> mem_words
                    then map_option (\<lambda>(p, i). (p, i, Inr ())) (ring_fetch mem mem_words read_idx pkt n)
                    else Some (pkt, write_idx, Inl ENODATA)) of
                None \<Rightarrow> None
              | Some (pkt', new_read_idx, rc) \<Rightarrow>
                  Some (qinfo\<lparr>q_hdr := Some (queue\<lparr>qhdr_rx_req := receive_request,
                                                  qhdr_read_idx := new_read_idx\<rparr>)\<rparr>,
                        Some pkt', Some (if qhdr_tx_req queue = 1 then 1 else 0), rc))))))
      | _ \<Rightarrow> Some (qinfo, packet, tx, Inl EINVAL))"

section \<open>The queues of the core\<close>

datatype msm_vidc_core_state = MSM_VIDC_CORE_DEINIT | MSM_VIDC_CORE_INIT_WAIT | MSM_VIDC_CORE_INIT

text \<open>\<open>msm_vidc_mem_addr\<close>; of the virtual address only whether it is set matters here.\<close>

record vidc_mem_addr =
  align_device_addr :: u32
  align_virtual_addr :: bool
  mem_size :: u32

text \<open>
  The part of \<open>msm_vidc_core\<close> these operations use; \<open>interrupts\<close> counts the calls of the
  \<open>raise_interrupt\<close> operation, \<open>sfr_word0\<close> is the first word of the SFR buffer.
\<close>

record msm_vidc_core =
  core_lock :: bool
  core_state :: msm_vidc_core_state
  is_hw_virt :: bool
  iface_q_table :: vidc_mem_addr
  q_tbl_hdr :: "hfi_queue_table_header option"
  iface_queues :: "nat \<Rightarrow> iface_q_info"
  sfr :: vidc_mem_addr
  sfr_word0 :: u32
  interrupts :: nat

definition strict_check :: "msm_vidc_core \<Rightarrow> errno + unit" where
  "strict_check core = (let fatal = (\<not> core_lock core) in if fatal then Inl EINVAL else Inr ())"

definition core_in_valid_state :: "msm_vidc_core \<Rightarrow> bool" where
  "core_in_valid_state core \<longleftrightarrow> core_state core \<noteq> MSM_VIDC_CORE_DEINIT"

definition set_queue :: "nat \<Rightarrow> iface_q_info \<Rightarrow> msm_vidc_core \<Rightarrow> msm_vidc_core" where
  "set_queue i q core = core\<lparr>iface_queues := (iface_queues core)(i := q)\<rparr>"

definition iface_cmdq_write_relaxed ::
    "msm_vidc_core \<Rightarrow> u32 list option \<Rightarrow> (msm_vidc_core \<times> bool \<times> (errno + unit)) option" where
  "iface_cmdq_write_relaxed core pkt =
     (if pkt = None then Some (core, False, Inl EINVAL)
      else
       (let rc = strict_check core in
        case rc of
          Inl e \<Rightarrow> Some (core, False, rc)
        | Inr _ \<Rightarrow>
           (if \<not> core_in_valid_state core then Some (core, False, Inl EINVAL)
            else
             (let q_info = iface_queues core VIDC_IFACEQ_CMDQ_IDX in
              if q_array q_info = None then Some (core, False, Inl ENODATA)
              else
               (case write_queue q_info pkt of
                  None \<Rightarrow> None
                | Some (q_info', irq, Inr _) \<Rightarrow> Some (set_queue VIDC_IFACEQ_CMDQ_IDX q_info' core, irq, Inr ())
                | Some (q_info', irq, Inl _) \<Rightarrow> Some (set_queue VIDC_IFACEQ_CMDQ_IDX q_info' core, irq, rc))))))"

definition venus_hfi_queue_cmd_write_intr ::
    "msm_vidc_core \<Rightarrow> u32 list option \<Rightarrow> bool \<Rightarrow> (msm_vidc_core \<times> (errno + unit)) option" where
  "venus_hfi_queue_cmd_write_intr core pkt allow_intr =
     (case iface_cmdq_write_relaxed core pkt of
        None \<Rightarrow> None
      | Some (core', needs_interrupt, rc) \<Rightarrow>
          Some (if rc = Inr () \<and> allow_intr \<and> needs_interrupt
                then core'\<lparr>interrupts := Suc (interrupts core')\<rparr> else core', rc))"

definition venus_hfi_queue_cmd_write ::
    "msm_vidc_core \<Rightarrow> u32 list option \<Rightarrow> (msm_vidc_core \<times> (errno + unit)) option" where
  "venus_hfi_queue_cmd_write core pkt =
     (case iface_cmdq_write_relaxed core pkt of
        None \<Rightarrow> None
      | Some (core', needs_interrupt, rc) \<Rightarrow>
          Some (if rc = Inr () \<and> needs_interrupt
                then core'\<lparr>interrupts := Suc (interrupts core')\<rparr> else core', rc))"

text \<open>The common tail of the two read functions: \<open>__read_queue\<close> on queue \<open>idx\<close>.\<close>

definition queue_read_from ::
    "nat \<Rightarrow> msm_vidc_core \<Rightarrow> u32 list option \<Rightarrow> (msm_vidc_core \<times> u32 list option \<times> (errno + unit)) option" where
  "queue_read_from idx core pkt =
     (let q_info = iface_queues core idx in
      if q_array q_info = None then Some (core, pkt, Inl ENODATA)
      else
       (case read_queue q_info pkt (Some 0) of
          None \<Rightarrow> None
        | Some (q_info', pkt', tx_req, Inr _) \<Rightarrow>
            Some (set_queue idx q_info' core, pkt',
                  if tx_req \<noteq> Some 0 then Inl EINVAL else Inr ())
        | Some (q_info', pkt', tx_req, Inl _) \<Rightarrow> Some (set_queue idx q_info' core, pkt', Inl ENODATA)))"

definition venus_hfi_queue_msg_read ::
    "msm_vidc_core \<Rightarrow> u32 list option \<Rightarrow> (msm_vidc_core \<times> u32 list option \<times> (errno + unit)) option" where
  "venus_hfi_queue_msg_read core pkt =
     (if pkt = None then Some (core, pkt, Inl EINVAL)
      else if \<not> core_in_valid_state core then Some (core, pkt, Inl EINVAL)
      else queue_read_from VIDC_IFACEQ_MSGQ_IDX core pkt)"

definition venus_hfi_queue_dbg_read ::
    "msm_vidc_core \<Rightarrow> u32 list option \<Rightarrow> (msm_vidc_core \<times> u32 list option \<times> (errno + unit)) option" where
  "venus_hfi_queue_dbg_read core pkt =
     (if pkt = None then Some (core, pkt, Inl EINVAL)
      else queue_read_from VIDC_IFACEQ_DBGQ_IDX core pkt)"

section \<open>Set-up and tear-down\<close>

definition venus_hfi_queue_deinit :: "msm_vidc_core \<Rightarrow> msm_vidc_core" where
  "venus_hfi_queue_deinit core =
     (if \<not> align_virtual_addr (iface_q_table core) then core
      else
       (let core = core\<lparr>iface_queues := (\<lambda>i. if i < VIDC_IFACEQ_NUMQ
                          then (iface_queues core i)\<lparr>q_hdr := None, q_array := None, q_device_addr := 0\<rparr>
                          else iface_queues core i)\<rparr>;
            core = core\<lparr>iface_q_table := (iface_q_table core)\<lparr>align_virtual_addr := False, align_device_addr := 0\<rparr>\<rparr>
        in if \<not> is_hw_virt core
           then core\<lparr>sfr := (sfr core)\<lparr>align_virtual_addr := False, align_device_addr := 0\<rparr>\<rparr> else core))"

text \<open>The queue-specific part of a header: start address, identity, and no receive request for debug.\<close>

definition set_queue_identity :: "nat \<Rightarrow> u32 \<Rightarrow> hfi_queue_header \<Rightarrow> hfi_queue_header" where
  "set_queue_identity i addr h =
     (if i = VIDC_IFACEQ_CMDQ_IDX then
        h\<lparr>qhdr_start_addr := addr, qhdr_type := qhdr_type h OR HFI_Q_ID_HOST_TO_CTRL_CMD_Q\<rparr>
      else if i = VIDC_IFACEQ_MSGQ_IDX then
        h\<lparr>qhdr_start_addr := addr, qhdr_type := qhdr_type h OR HFI_Q_ID_CTRL_TO_HOST_MSG_Q\<rparr>
      else if i = VIDC_IFACEQ_DBGQ_IDX then
        h\<lparr>qhdr_start_addr := addr, qhdr_type := qhdr_type h OR HFI_Q_ID_CTRL_TO_HOST_DEBUG_Q, qhdr_rx_req := 0\<rparr>
      else h)"

definition venus_hfi_reset_queue_header :: "msm_vidc_core \<Rightarrow> (msm_vidc_core \<times> (errno + unit)) option" where
  "venus_hfi_reset_queue_header core =
     (if \<exists>i \<in> set [0..<VIDC_IFACEQ_NUMQ]. q_hdr (iface_queues core i) = None then None
      else Some (core\<lparr>iface_queues := (\<lambda>i. if i < VIDC_IFACEQ_NUMQ
              then (iface_queues core i)\<lparr>q_hdr := map_option
                     (\<lambda>h. set_queue_identity i (q_device_addr (iface_queues core i)) (set_queue_hdr_defaults h))
                     (q_hdr (iface_queues core i))\<rparr>
              else iface_queues core i)\<rparr>, Inr ()))"

text \<open>
  What the memory operations answer during \<open>venus_hfi_queue_init\<close>: the allocation (and what the fresh
  memory holds where the headers and the arrays will be, unless its address is NULL), the mapping and
  the device address it gives, and the same for the SFR buffer.
\<close>

record vidc_mem_results =
  queue_alloc :: "errno + ((nat \<Rightarrow> hfi_queue_header) \<times> (nat \<Rightarrow> u32 list)) option"
  queue_map :: "errno + u32"
  sfr_alloc :: "errno + bool"
  sfr_map :: "errno + u32"

definition venus_hfi_queue_init ::
    "bool \<Rightarrow> vidc_mem_results \<Rightarrow> msm_vidc_core \<Rightarrow> (msm_vidc_core \<times> (errno + unit)) option" where
  "venus_hfi_queue_init mem_ops_populated env core =
     (if \<not> mem_ops_populated then Some (core, Inl EINVAL)
      else if align_virtual_addr (iface_q_table core) then
        map_option (\<lambda>(core', _). (core', Inr ())) (venus_hfi_reset_queue_header core)
      else
       (case queue_alloc env of
          Inl _ \<Rightarrow> Some (core, Inl ENOMEM)
        | Inr kvaddr \<Rightarrow>
         (let core = core\<lparr>iface_q_table := (iface_q_table core)\<lparr>align_virtual_addr := (kvaddr \<noteq> None)\<rparr>\<rparr> in
          case queue_map env of
            Inl _ \<Rightarrow> Some (core, Inl ENOMEM)
          | Inr device_addr \<Rightarrow>
           (case kvaddr of None \<Rightarrow> None | Some (hdrs, arrays) \<Rightarrow>
            (let core = core\<lparr>iface_q_table := (iface_q_table core)
                               \<lparr>align_device_addr := device_addr, mem_size := VIDC_IFACEQ_TABLE_SIZE\<rparr>,
                  iface_queues := (\<lambda>i. if i < VIDC_IFACEQ_NUMQ then
                      (let addr = device_addr + (VIDC_IFACEQ_TABLE_SIZE + of_nat i * VIDC_IFACEQ_QUEUE_SIZE) in
                       \<lparr>q_hdr = Some (set_queue_identity i addr (set_queue_hdr_defaults (hdrs i))),
                        q_array = Some (arrays i), q_mem_size = VIDC_IFACEQ_QUEUE_SIZE, q_device_addr = addr\<rparr>)
                      else iface_queues core i),
                  q_tbl_hdr := Some \<lparr>qtbl_version = 0, qtbl_size = VIDC_IFACEQ_TABLE_SIZE,
                      qtbl_qhdr0_offset = sizeof_hfi_queue_table_header, qtbl_qhdr_size = sizeof_hfi_queue_header,
                      qtbl_num_q = of_nat VIDC_IFACEQ_NUMQ, qtbl_num_active_q = of_nat VIDC_IFACEQ_NUMQ,
                      qtbl_name = ''msm_v4l2_vidc''\<rparr>\<rparr> in
             if is_hw_virt core then Some (core, Inr ())
             else
              (case sfr_alloc env of
                 Inl _ \<Rightarrow> Some (core, Inl ENOMEM)
               | Inr kv \<Rightarrow>
                  (if \<not> kv then Some (core, Inl ENOMEM)
                   else
                    (let core = core\<lparr>sfr := (sfr core)\<lparr>align_virtual_addr := True\<rparr>\<rparr> in
                     case sfr_map env of
                       Inl _ \<Rightarrow> Some (core, Inl ENOMEM)
                     | Inr sfr_addr \<Rightarrow>
                         Some (core\<lparr>sfr := \<lparr>align_device_addr = sfr_addr, align_virtual_addr = True,
                                          mem_size = ALIGNED_SFR_SIZE\<rparr>,
                                    sfr_word0 := ALIGNED_SFR_SIZE\<rparr>, Inr ())))))))))"

end
