(* ===== verification/Fifo_Spec.thy ===== *)
theory Fifo_Spec
  imports Kernel_Prelude
begin

text \<open>
  The interface of a bounded first-in first-out queue of packets. \<open>rep q ps\<close> says that the concrete
  queue \<open>q\<close> holds the packets \<open>ps\<close>, oldest first. Putting a packet in answers whether it was accepted;
  \<open>None\<close> stands for a memory fault, which the laws exclude. What a client gets from the laws: over any
  interleaving of the two operations no packet is lost, duplicated, altered or reordered.
\<close>

datatype 'p fifo_op = Put 'p | Get

text \<open>
  Run the operations in order: the final queue, the packets that were accepted and the packets that
  came out.
\<close>

fun fifo_run ::
    "('p \<Rightarrow> 'q \<Rightarrow> ('q \<times> bool) option) \<Rightarrow> ('q \<Rightarrow> ('q \<times> 'p option) option)
     \<Rightarrow> 'q \<Rightarrow> 'p fifo_op list \<Rightarrow> ('q \<times> 'p list \<times> 'p list) option" where
  "fifo_run enq deq q [] = Some (q, [], [])"
| "fifo_run enq deq q (Put p # ops) =
     (case enq p q of None \<Rightarrow> None
      | Some (q', b) \<Rightarrow>
          map_option (\<lambda>(q'', acc, out). (q'', if b then p # acc else acc, out)) (fifo_run enq deq q' ops))"
| "fifo_run enq deq q (Get # ops) =
     (case deq q of None \<Rightarrow> None
      | Some (q', x) \<Rightarrow>
          map_option (\<lambda>(q'', acc, out). (q'', acc, case x of None \<Rightarrow> out | Some p \<Rightarrow> p # out))
            (fifo_run enq deq q' ops))"

locale fifo =
  fixes rep :: "'q \<Rightarrow> 'p list \<Rightarrow> bool"
    and ok :: "'p \<Rightarrow> bool"
    and enq :: "'p \<Rightarrow> 'q \<Rightarrow> ('q \<times> bool) option"
    and deq :: "'q \<Rightarrow> ('q \<times> 'p option) option"
  assumes enq_law: "rep q ps \<Longrightarrow> ok p \<Longrightarrow>
      \<exists>q' b. enq p q = Some (q', b) \<and> rep q' (if b then ps @ [p] else ps)"
    and deq_empty: "rep q [] \<Longrightarrow> \<exists>q'. deq q = Some (q', None) \<and> rep q' []"
    and deq_front: "rep q (p # ps) \<Longrightarrow> \<exists>q'. deq q = Some (q', Some p) \<and> rep q' ps"
begin

lemma run_in_order:
  assumes "rep q ps" "\<forall>p. Put p \<in> set ops \<longrightarrow> ok p"
  shows "\<exists>q' acc out rest. fifo_run enq deq q ops = Some (q', acc, out)
           \<and> ps @ acc = out @ rest \<and> rep q' rest"
  using assms
proof (induction ops arbitrary: q ps)
  case Nil
  then show ?case by auto
next
  case (Cons a ops)
  show ?case
  proof (cases a)
    case (Put p)
    then obtain q1 b where 1: "enq p q = Some (q1, b)" "rep q1 (if b then ps @ [p] else ps)"
      using enq_law [OF Cons.prems(1)] Cons.prems(2) by fastforce
    with Cons.IH [OF 1(2)] Cons.prems(2) obtain q2 acc out rest where
      2: "fifo_run enq deq q1 ops = Some (q2, acc, out)"
         "(if b then ps @ [p] else ps) @ acc = out @ rest" "rep q2 rest"
      by auto
    show ?thesis
      using Put 1(1) 2 by (cases b) auto
  next
    case Get
    show ?thesis
    proof (cases ps)
      case Nil
      then obtain q1 where 1: "deq q = Some (q1, None)" "rep q1 []"
        using deq_empty Cons.prems(1) by blast
      with Cons.IH [OF 1(2)] Cons.prems(2) show ?thesis
        using Get Nil by auto
    next
      case (Cons p ps')
      then obtain q1 where 1: "deq q = Some (q1, Some p)" "rep q1 ps'"
        using deq_front Cons.prems(1) by blast
      with Cons.IH [OF 1(2)] Cons.prems(2) obtain q2 acc out rest where
        "fifo_run enq deq q1 ops = Some (q2, acc, out)" "ps' @ acc = out @ rest" "rep q2 rest"
        by auto
      then show ?thesis
        using Get Cons 1(1) by auto
    qed
  qed
qed

end

end
