(* ===== verification/Vidc_Queue_Correct.thy ===== *)
theory Vidc_Queue_Correct
  imports Vidc_Queue Fifo_Spec
begin

text \<open>
  Correctness of the video driver's interface queues: the ring arithmetic on words, the refinement of a
  first-in first-out queue of packets (the locale \<open>fifo\<close>, interpreted on \<open>__write_queue\<close> and
  \<open>__read_queue\<close>), memory safety against indices written by the firmware, and the set-up of the queues.
\<close>

section \<open>The ring in natural numbers\<close>

lemma words_of_bytes_small: "unat w < 2 ^ 30 \<Longrightarrow> words_of_bytes w = unat w"
proof -
  assume "unat w < 2 ^ 30"
  moreover have "unat (push_bit 2 w) = unat w * 4 mod 2 ^ 32"
    by (simp add: push_bit_eq_mult unat_word_ariths mult.commute)
  ultimately show ?thesis by (simp add: words_of_bytes_def)
qed

lemma unat_drop2: "unat (drop_bit 2 (w :: u32)) = unat w div 4"
  by (simp add: drop_bit_eq_div unat_div)

lemma unat_drop2_less: "unat (drop_bit 2 (w :: u32)) < 2 ^ 30"
proof -
  have "unat w < 2 ^ 32" using unsigned_less [of w, where 'a = nat] by simp
  then show ?thesis by (simp add: unat_drop2 less_mult_imp_div_less)
qed

lemma unat_push2: "unat (push_bit 2 (w :: u32)) = (4 * unat w) mod 2 ^ 32"
  by (simp add: push_bit_eq_mult unat_word_ariths mult.commute)

lemma ring_store_spec:
  fixes mem pkt :: "u32 list"
  assumes W: "length mem = unat mw" "unat mw < 2 ^ 30"
    and b: "unat w < unat mw" "unat n \<le> unat mw" "unat n \<le> length pkt"
  obtains mem' w' where "ring_store mem mw w pkt n = Some (mem', w')"
    "unat w' = (unat w + unat n) mod unat mw" "length mem' = length mem"
    "\<And>i. i < unat mw \<Longrightarrow> mem' ! i = (let k = (i + unat mw - unat w) mod unat mw in
        if k < unat n then pkt ! k else mem ! i)"
proof -
  have sum: "unat (w + n) = unat w + unat n"
    using W b by (simp add: unat_word_ariths)
  have wb: "words_of_bytes w = unat w" "words_of_bytes n = unat n"
    using W b by (auto intro!: words_of_bytes_small)
  show thesis
  proof (cases "w + n < mw")
    case True
    then have lt: "unat w + unat n < unat mw" by (simp add: word_less_nat_alt sum)
    obtain d where d: "mem_copy mem (unat w) pkt 0 (unat n) = Some d"
      using lt W b by (simp add: mem_copy_def)
    show thesis
    proof (rule that [of d "w + n"])
      show "ring_store mem mw w pkt n = Some (d, w + n)"
        using True d by (simp add: ring_store_def wb)
      show "unat (w + n) = (unat w + unat n) mod unat mw"
        using lt sum by simp
      show "length d = length mem"
        by (rule mem_copy_length [OF d])
      show "d ! i = (let k = (i + unat mw - unat w) mod unat mw in if k < unat n then pkt ! k else mem ! i)"
        if "i < unat mw" for i
        using that b lt W(1) by (auto simp: mem_copy_nth [OF d] ring_index_cases Let_def)
    qed
  next
    case False
    then have ge: "unat mw \<le> unat w + unat n" by (simp add: word_less_nat_alt sum)
    define v where "v = w + n - mw"
    have v: "unat v = unat w + unat n - unat mw"
      unfolding v_def using False ge sum by (simp add: unat_sub_if' word_less_nat_alt)
    have nv: "unat (n - v) = unat mw - unat w"
      using v ge b by (simp add: unat_sub_if')
    have wb2: "words_of_bytes v = unat v" "words_of_bytes (n - v) = unat mw - unat w"
      using W b v nv words_of_bytes_small [of v] words_of_bytes_small [of "n - v"] by auto
    obtain d where d: "mem_copy mem (unat w) pkt 0 (unat mw - unat w) = Some d"
    proof -
      have "unat mw - unat w \<le> length pkt" using b ge by linarith
      then show thesis using W b that by (simp add: mem_copy_def)
    qed
    have ld: "length d = unat mw" using mem_copy_length [OF d] W by simp
    obtain d' where d': "mem_copy d 0 pkt (unat mw - unat w) (unat v) = Some d'"
    proof -
      have "unat v \<le> unat mw" "unat mw - unat w + unat v \<le> length pkt" using b ge v by linarith+
      then show thesis using ld that by (simp add: mem_copy_def)
    qed
    show thesis
    proof (rule that [of d' v])
      show "ring_store mem mw w pkt n = Some (d', v)"
        using False d d' by (simp add: ring_store_def wb wb2 Let_def flip: v_def)
      show "unat v = (unat w + unat n) mod unat mw"
        using v ge b by (simp add: mod_sub_add)
      show "length d' = length mem"
        using mem_copy_length [OF d'] ld W by simp
      show "d' ! i = (let k = (i + unat mw - unat w) mod unat mw in if k < unat n then pkt ! k else mem ! i)"
        if "i < unat mw" for i
        using that b ge v ld W(1)
        by (auto simp: mem_copy_nth [OF d'] mem_copy_nth [OF d] ring_index_cases Let_def) (simp_all add: add.commute)
    qed
  qed
qed

lemma ring_fetch_spec:
  fixes mem buf :: "u32 list"
  assumes W: "length mem = unat mw" "unat mw < 2 ^ 30"
    and b: "unat r < unat mw" "unat n \<le> unat mw" "unat n \<le> length buf"
  obtains buf' r' where "ring_fetch mem mw r buf n = Some (buf', r')"
    "unat r' = (unat r + unat n) mod unat mw"
    "buf' = ring_slice mem (unat r) (unat n) @ drop (unat n) buf"
proof -
  have sum: "unat (r + n) = unat r + unat n"
    using W b by (simp add: unat_word_ariths)
  have wb: "words_of_bytes r = unat r" "words_of_bytes n = unat n"
    using W b by (auto intro!: words_of_bytes_small)
  have slice: "buf' = ring_slice mem (unat r) (unat n) @ drop (unat n) buf"
    if "length buf' = length buf"
      "\<And>i. i < length buf \<Longrightarrow> buf' ! i = (if i < unat n then mem ! ((unat r + i) mod unat mw) else buf ! i)"
    for buf'
    using that b W(1) by (intro nth_equalityI) (auto simp: nth_append)
  show thesis
  proof (cases "r + n < mw")
    case True
    then have lt: "unat r + unat n < unat mw" by (simp add: word_less_nat_alt sum)
    obtain d where d: "mem_copy buf 0 mem (unat r) (unat n) = Some d"
      using lt W b by (simp add: mem_copy_def)
    show thesis
    proof (rule that [of d "r + n"])
      show "ring_fetch mem mw r buf n = Some (d, r + n)"
        using True d by (simp add: ring_fetch_def wb)
      show "unat (r + n) = (unat r + unat n) mod unat mw"
        using lt sum by simp
      show "d = ring_slice mem (unat r) (unat n) @ drop (unat n) buf"
        using lt by (intro slice mem_copy_length [OF d]) (auto simp: mem_copy_nth [OF d])
    qed
  next
    case False
    then have ge: "unat mw \<le> unat r + unat n" by (simp add: word_less_nat_alt sum)
    define v where "v = r + n - mw"
    have v: "unat v = unat r + unat n - unat mw"
      unfolding v_def using False ge sum by (simp add: unat_sub_if' word_less_nat_alt)
    have nv: "unat (n - v) = unat mw - unat r"
      using v ge b by (simp add: unat_sub_if')
    have wb2: "words_of_bytes v = unat v" "words_of_bytes (n - v) = unat mw - unat r"
      using W b v nv words_of_bytes_small [of v] words_of_bytes_small [of "n - v"] by auto
    have le: "unat mw - unat r \<le> length buf" "unat v \<le> unat mw" "unat mw - unat r + unat v = unat n"
      using b ge v by linarith+
    obtain d where d: "mem_copy buf 0 mem (unat r) (unat mw - unat r) = Some d"
      using le(1) b(1) W(1) unfolding mem_copy_def by fastforce
    have ld: "length d = length buf" using mem_copy_length [OF d] .
    obtain d' where d': "mem_copy d (unat mw - unat r) mem 0 (unat v) = Some d'"
      using le(2,3) b(3) W(1) ld unfolding mem_copy_def by fastforce
    show thesis
    proof (rule that [of d' v])
      show "ring_fetch mem mw r buf n = Some (d', v)"
        using False d d' by (simp add: ring_fetch_def wb wb2 Let_def flip: v_def)
      show "unat v = (unat r + unat n) mod unat mw"
        using v ge b by (simp add: mod_sub_add)
      show "d' = ring_slice mem (unat r) (unat n) @ drop (unat n) buf"
      proof (rule slice)
        show "length d' = length buf" using mem_copy_length [OF d'] ld by simp
        show "d' ! i = (if i < unat n then mem ! ((unat r + i) mod unat mw) else buf ! i)"
          if "i < length buf" for i
        proof -
          have "(unat r + i) mod unat mw = (if i < unat mw - unat r then unat r + i else i - (unat mw - unat r))"
            if "i < unat n"
            using that b by (auto simp: le_mod_geq)
          then show ?thesis
            using that le ld
            by (auto simp: mem_copy_nth [OF d'] mem_copy_nth [OF d])
        qed
      qed
    qed
  qed
qed

section \<open>Well-formed queues and what they hold\<close>

definition ring_words :: "iface_q_info \<Rightarrow> nat" where
  "ring_words q = unat (drop_bit 2 (q_mem_size q))"

lemma ring_words_less: "ring_words q < 2 ^ 30"
  unfolding ring_words_def by (rule unat_drop2_less)

text \<open>The header is present and its indices lie inside the array, which has the size the driver set.\<close>

definition queue_wf :: "iface_q_info \<Rightarrow> bool" where
  "queue_wf q = (case (q_array q, q_hdr q) of
     (Some mem, Some h) \<Rightarrow> length mem = ring_words q
       \<and> unat (qhdr_read_idx h) < ring_words q \<and> unat (qhdr_write_idx h) < ring_words q
   | _ \<Rightarrow> False)"

definition queue_used :: "iface_q_info \<Rightarrow> nat" where
  "queue_used q = (let h = the (q_hdr q) in
     (unat (qhdr_write_idx h) + ring_words q - unat (qhdr_read_idx h)) mod ring_words q)"

definition queue_content :: "iface_q_info \<Rightarrow> u32 list" where
  "queue_content q = ring_slice (the (q_array q)) (unat (qhdr_read_idx (the (q_hdr q)))) (queue_used q)"

text \<open>A packet announces its own size, in bytes, in its first word; none is larger than a read takes.\<close>

definition packet_ok :: "u32 list \<Rightarrow> bool" where
  "packet_ok p \<longleftrightarrow> p \<noteq> [] \<and> unat (drop_bit 2 (hd p)) = length p \<and> length p \<le> 1024"

definition queue_holds :: "iface_q_info \<Rightarrow> u32 list list \<Rightarrow> bool" where
  "queue_holds q ps \<longleftrightarrow> queue_wf q \<and> queue_content q = concat ps \<and> (\<forall>p \<in> set ps. packet_ok p)"

lemma queue_wfE:
  assumes "queue_wf q"
  obtains mem h where "q_array q = Some mem" "q_hdr q = Some h" "length mem = ring_words q"
    "unat (qhdr_read_idx h) < ring_words q" "unat (qhdr_write_idx h) < ring_words q"
  using assms by (auto simp: queue_wf_def split: option.splits)

lemma queue_used_less: "queue_wf q \<Longrightarrow> queue_used q < ring_words q"
  by (erule queue_wfE) (simp add: queue_used_def)

lemma queue_used_alt:
  "queue_wf q \<Longrightarrow> q_hdr q = Some h \<Longrightarrow>
   queue_used q = (if unat (qhdr_read_idx h) \<le> unat (qhdr_write_idx h)
                   then unat (qhdr_write_idx h) - unat (qhdr_read_idx h)
                   else unat (qhdr_write_idx h) + ring_words q - unat (qhdr_read_idx h))"
  by (erule queue_wfE) (simp add: queue_used_def ring_index_cases)

lemma write_idx_from_used:
  "queue_wf q \<Longrightarrow> q_hdr q = Some h \<Longrightarrow>
   unat (qhdr_write_idx h) = (unat (qhdr_read_idx h) + queue_used q) mod ring_words q"
  by (subst queue_used_alt, assumption, assumption)
    (erule queue_wfE, auto simp: le_mod_geq)

section \<open>Writing\<close>

definition empty_space :: "u32 \<Rightarrow> u32 \<Rightarrow> u32 \<Rightarrow> u32" where
  "empty_space mw r w = (if r \<le> w then mw - (w - r) else r - w)"

lemma write_queue_unfold:
  assumes "q_array q = Some mem" "q_hdr q = Some h" "pkt \<noteq> []"
  shows "write_queue q (Some pkt) =
    (let n = drop_bit 2 (hd pkt); mw = drop_bit 2 (q_mem_size q) in
     if n = 0 \<or> mw < n then Some (q, False, Inl ENODATA)
     else if empty_space mw (qhdr_read_idx h) (qhdr_write_idx h) \<le> n then
       Some (q\<lparr>q_hdr := Some (h\<lparr>qhdr_tx_req := 1\<rparr>)\<rparr>, False, Inl ENOTEMPTY)
     else if q_mem_size q < push_bit 2 (qhdr_write_idx h) then
       Some (q\<lparr>q_hdr := Some (h\<lparr>qhdr_tx_req := 0\<rparr>)\<rparr>, False, Inl ENODATA)
     else (case ring_store mem mw (qhdr_write_idx h) pkt n of None \<Rightarrow> None
       | Some (mem', w') \<Rightarrow>
           Some (q\<lparr>q_array := Some mem', q_hdr := Some (h\<lparr>qhdr_tx_req := 0, qhdr_write_idx := w'\<rparr>)\<rparr>, True, Inr ())))"
  using assms by (cases pkt) (simp_all add: write_queue_def Let_def empty_space_def cong: if_cong)

lemma empty_space_eq:
  assumes "unat r < unat mw" "unat w < unat mw"
  shows "unat (empty_space mw r w)
       = unat mw - (if unat r \<le> unat w then unat w - unat r else unat w + unat mw - unat r)"
proof (cases "r \<le> w")
  case True
  then have wr: "unat (w - r) = unat w - unat r" by (simp add: unat_sub word_le_nat_alt)
  have "unat (mw - (w - r)) = unat mw - unat (w - r)"
    using assms wr by (intro unat_sub) (simp add: word_le_nat_alt)
  with True wr show ?thesis by (simp add: empty_space_def word_le_nat_alt)
next
  case False
  then have "unat (r - w) = unat r - unat w" by (simp add: unat_sub word_le_nat_alt)
  then show ?thesis using False assms by (simp add: empty_space_def word_le_nat_alt)
qed

lemma index_in_array:
  fixes w sz :: u32
  assumes "unat w < unat (drop_bit 2 sz)"
  shows "unat (push_bit 2 w) = 4 * unat w" "4 * unat w + 4 \<le> unat sz"
proof -
  have "unat w * 4 + 4 \<le> (unat sz div 4) * 4"
    using assms by (simp add: unat_drop2)
  then show le: "4 * unat w + 4 \<le> unat sz" by simp
  have "unat sz < 2 ^ 32" using unsigned_less [of sz, where 'a = nat] by simp
  with le show "unat (push_bit 2 w) = 4 * unat w" unfolding unat_push2 by simp
qed

text \<open>Storing \<open>n\<close> words behind the content appends them to it.\<close>

lemma ring_append:
  fixes mem mem' pkt :: "'a list"
  assumes r: "r < W" and room: "u + n < W" and n: "n \<le> length pkt"
    and l: "length mem = W" "length mem' = W" and w: "w = (r + u) mod W"
    and nth: "\<And>i. i < W \<Longrightarrow> mem' ! i = (let k = (i + W - w) mod W in if k < n then pkt ! k else mem ! i)"
  shows "ring_slice mem' r (u + n) = ring_slice mem r u @ take n pkt"
    and "((w + n) mod W + W - r) mod W = u + n"
proof -
  have wW: "w < W" using r w by simp
  have "ring_slice mem' r u = ring_slice mem r u"
  proof (rule nth_equalityI)
    fix i assume "i < length (ring_slice mem' r u)"
    then have i: "i < u" by simp
    have "\<not> ((r + i) mod W + W - w) mod W < n"
      using ring_distance [OF r i] i room by (simp add: w)
    then show "ring_slice mem' r u ! i = ring_slice mem r u ! i"
      using i l r nth [of "(r + i) mod W"] by (simp add: Let_def)
  qed simp
  moreover have "ring_slice mem' w n = take n pkt"
  proof (rule nth_equalityI)
    fix i assume "i < length (ring_slice mem' w n)"
    then have i: "i < n" by simp
    have "((w + i) mod W + W - w) mod W = i"
      using i room wW by (auto simp: mod_sub_add ring_index_cases)
    then show "ring_slice mem' w n ! i = take n pkt ! i"
      using i l r nth [of "(w + i) mod W"] by (simp add: Let_def)
  qed (use n in simp)
  ultimately show "ring_slice mem' r (u + n) = ring_slice mem r u @ take n pkt"
    using l by (simp add: ring_slice_add flip: w)
  show "((w + n) mod W + W - r) mod W = u + n"
  proof -
    have "(w + n) mod W = (r + (u + n)) mod W" by (simp add: w mod_simps add.assoc)
    then show ?thesis using ring_back [OF r room] by simp
  qed
qed

text \<open>
  What \<open>__write_queue\<close> does on a well-formed queue: too large a packet, no room (one word always stays
  free), or the packet is appended.
\<close>

lemma write_queue_appends:
  assumes wf: "queue_wf q" and n: "0 < n" "n = unat (drop_bit 2 (hd pkt))" "n \<le> length pkt"
    and room: "queue_used q + n < ring_words q"
  shows "\<exists>q' mem' w'. write_queue q (Some pkt) = Some (q', True, Inr ()) \<and> queue_wf q'
    \<and> queue_content q' = queue_content q @ take n pkt
    \<and> q' = q\<lparr>q_array := Some mem', q_hdr := Some ((the (q_hdr q))\<lparr>qhdr_tx_req := 0, qhdr_write_idx := w'\<rparr>)\<rparr>"
proof -
  obtain mem h where q: "q_array q = Some mem" "q_hdr q = Some h" "length mem = ring_words q"
    "unat (qhdr_read_idx h) < ring_words q" "unat (qhdr_write_idx h) < ring_words q"
    by (rule queue_wfE [OF wf])
  let ?mw = "drop_bit 2 (q_mem_size q)" and ?n = "drop_bit 2 (hd pkt)"
    and ?r = "qhdr_read_idx h" and ?w = "qhdr_write_idx h"
  have mw: "unat ?mw = ring_words q" by (simp add: ring_words_def)
  obtain mem' w' where st: "ring_store mem ?mw ?w pkt ?n = Some (mem', w')"
    and w': "unat w' = (unat ?w + n) mod ring_words q" and l: "length mem' = length mem"
    and nth: "\<And>i. i < ring_words q \<Longrightarrow> mem' ! i = (let k = (i + ring_words q - unat ?w) mod ring_words q in
        if k < n then pkt ! k else mem ! i)"
    using ring_store_spec [of mem ?mw ?w ?n pkt] q mw room n unat_drop2_less [of "q_mem_size q"] by auto
  define q' where "q' = q\<lparr>q_array := Some mem', q_hdr := Some (h\<lparr>qhdr_tx_req := 0, qhdr_write_idx := w'\<rparr>)\<rparr>"
  have c: "?n \<noteq> 0" "\<not> ?mw < ?n" "pkt \<noteq> []" "\<not> q_mem_size q < push_bit 2 ?w"
    using n room mw index_in_array [of ?w "q_mem_size q"] q(5) by (auto simp: word_less_nat_alt)
  have "\<not> empty_space ?mw ?r ?w \<le> ?n"
    using room q mw n queue_used_alt [OF wf q(2)] empty_space_eq [of ?r ?mw ?w]
    by (auto simp: word_le_nat_alt split: if_splits)
  then have run: "write_queue q (Some pkt) = Some (q', True, Inr ())"
    using c st by (simp add: write_queue_unfold [OF q(1,2)] Let_def q'_def)
  have W': "ring_words q' = ring_words q" by (simp add: q'_def ring_words_def)
  have w: "unat ?w = (unat ?r + queue_used q) mod ring_words q"
    by (rule write_idx_from_used [OF wf q(2)])
  note app = ring_append [of "unat ?r" "ring_words q" "queue_used q" n pkt mem mem' "unat ?w",
      OF q(4) room n(3) q(3) _ w nth]
  have "queue_wf q'" using q l w' W' by (simp add: queue_wf_def q'_def)
  moreover have "queue_used q' = queue_used q + n"
    using app(2) l q w' W' by (simp add: queue_used_def q'_def)
  moreover have "ring_slice mem' (unat ?r) (queue_used q + n) = ring_slice mem (unat ?r) (queue_used q) @ take n pkt"
    using app(1) l q(3) by simp
  ultimately show ?thesis
    using run q by (auto simp: queue_content_def q'_def)
qed

lemma write_queue_zero:
  assumes "queue_wf q" "drop_bit 2 (hd pkt) = 0" "pkt \<noteq> []"
  shows "write_queue q (Some pkt) = Some (q, False, Inl ENODATA)"
  by (rule queue_wfE [OF assms(1)]) (use assms(2,3) in \<open>simp add: write_queue_unfold\<close>)

lemma write_queue_refuses:
  assumes wf: "queue_wf q" and n: "0 < n" "n = unat (drop_bit 2 (hd pkt))" "pkt \<noteq> []"
    and full: "ring_words q \<le> queue_used q + n"
  shows "write_queue q (Some pkt)
    = Some (if ring_words q < n then (q, False, Inl ENODATA)
            else (q\<lparr>q_hdr := map_option (\<lambda>h. h\<lparr>qhdr_tx_req := 1\<rparr>) (q_hdr q)\<rparr>, False, Inl ENOTEMPTY))"
proof -
  obtain mem h where q: "q_array q = Some mem" "q_hdr q = Some h" "length mem = ring_words q"
    "unat (qhdr_read_idx h) < ring_words q" "unat (qhdr_write_idx h) < ring_words q"
    by (rule queue_wfE [OF wf])
  let ?mw = "drop_bit 2 (q_mem_size q)" and ?n = "drop_bit 2 (hd pkt)"
  have mw: "unat ?mw = ring_words q" by (simp add: ring_words_def)
  have c: "?n \<noteq> 0" "?mw < ?n \<longleftrightarrow> ring_words q < n"
    using n mw by (auto simp: word_less_nat_alt)
  have "empty_space ?mw (qhdr_read_idx h) (qhdr_write_idx h) \<le> ?n"
    using full q mw n queue_used_alt [OF wf q(2)] empty_space_eq [of "qhdr_read_idx h" ?mw "qhdr_write_idx h"]
    by (auto simp: word_le_nat_alt split: if_splits)
  then show ?thesis
    using c q(2) by (simp add: write_queue_unfold [OF q(1,2) n(3)] Let_def)
qed

lemma tx_req_keeps_content:
  fixes x :: u32
  assumes "queue_wf q"
  defines "q' \<equiv> q\<lparr>q_hdr := map_option (\<lambda>h. h\<lparr>qhdr_tx_req := x\<rparr>) (q_hdr q)\<rparr>"
  shows "queue_wf q'" "queue_content q' = queue_content q"
  using assms(1)
  by (auto simp: q'_def queue_wf_def queue_content_def queue_used_def ring_words_def split: option.splits)

lemma rx_req_keeps_content:
  fixes x :: u32
  assumes "queue_wf q" "q_hdr q = Some h"
  defines "q' \<equiv> q\<lparr>q_hdr := Some (h\<lparr>qhdr_rx_req := x\<rparr>)\<rparr>"
  shows "queue_wf q'" "queue_content q' = queue_content q"
  using assms(1,2)
  by (auto simp: q'_def queue_wf_def queue_content_def queue_used_def ring_words_def split: option.splits)

section \<open>Reading\<close>

definition rx_request :: "hfi_queue_header \<Rightarrow> u32" where
  "rx_request h = (if qhdr_type h AND HFI_Q_ID_CTRL_TO_HOST_MSG_Q \<noteq> 0 then 1 else 0)"

lemma read_queue_unfold:
  assumes "q_array q = Some mem" "q_hdr q = Some h"
  shows "read_queue q (Some buf) (Some tx) =
    (let r = qhdr_read_idx h; mw = drop_bit 2 (q_mem_size q) in
     if r = qhdr_write_idx h then
       Some (q\<lparr>q_hdr := Some (h\<lparr>qhdr_rx_req := rx_request h\<rparr>)\<rparr>, Some buf, Some 0, Inl ENODATA)
     else if unat (q_mem_size q) < unat (push_bit 2 r) + 4 then Some (q, Some buf, Some tx, Inl ENODATA)
     else if length mem \<le> words_of_bytes r then None
     else (let n = drop_bit 2 (mem ! words_of_bytes r) in
       if n = 0 then Some (q, Some buf, Some tx, Inl ENODATA)
       else (case (if push_bit 2 n \<le> VIDC_IFACEQ_VAR_HUGE_PKT_SIZE \<and> r \<le> mw
                   then map_option (\<lambda>(p, i). (p, i, Inr ())) (ring_fetch mem mw r buf n)
                   else Some (buf, qhdr_write_idx h, Inl ENODATA)) of
               None \<Rightarrow> None
             | Some (buf', r', rc) \<Rightarrow>
                 Some (q\<lparr>q_hdr := Some (h\<lparr>qhdr_rx_req := rx_request h, qhdr_read_idx := r'\<rparr>)\<rparr>,
                       Some buf', Some (if qhdr_tx_req h = 1 then 1 else 0), rc))))"
  unfolding read_queue_def Let_def rx_request_def assms option.case prod.case by (rule refl)

lemma huge_packet: "push_bit 2 (drop_bit 2 (z :: u32)) \<le> VIDC_IFACEQ_VAR_HUGE_PKT_SIZE \<longleftrightarrow> unat (drop_bit 2 z) \<le> 1024"
proof -
  have "unat (push_bit 2 (drop_bit 2 z)) = 4 * unat (drop_bit 2 z)"
    using unat_drop2_less [of z] unfolding unat_push2 by simp
  then show ?thesis by (simp add: VIDC_IFACEQ_VAR_HUGE_PKT_SIZE_def word_le_nat_alt)
qed

lemma queue_empty_iff:
  "queue_wf q \<Longrightarrow> q_hdr q = Some h \<Longrightarrow> queue_used q = 0 \<longleftrightarrow> qhdr_read_idx h = qhdr_write_idx h"
  by (subst queue_used_alt, assumption, assumption) (erule queue_wfE, auto simp: word_unat_eq_iff)

lemma read_queue_empty:
  assumes "queue_wf q" "queue_content q = []"
  obtains q' where "read_queue q (Some buf) (Some tx) = Some (q', Some buf, Some 0, Inl ENODATA)"
    "queue_wf q'" "queue_content q' = []"
proof -
  obtain mem h where q: "q_array q = Some mem" "q_hdr q = Some h"
    by (rule queue_wfE [OF assms(1)])
  have "queue_used q = 0"
    using assms(2) by (metis length_ring_slice list.size(3) queue_content_def)
  then have "qhdr_read_idx h = qhdr_write_idx h"
    using queue_empty_iff [OF assms(1) q(2)] by simp
  then show thesis
    using that rx_req_keeps_content [OF assms(1) q(2)] assms(2)
    by (simp add: read_queue_unfold [OF q])
qed

lemma read_queue_front:
  assumes wf: "queue_wf q" and c: "queue_content q = p @ rest" and p: "packet_ok p" "length buf = 1024"
  obtains q' where "read_queue q (Some buf) (Some tx)
      = Some (q', Some (p @ drop (length p) buf), Some (if qhdr_tx_req (the (q_hdr q)) = 1 then 1 else 0), Inr ())"
    "queue_wf q'" "queue_content q' = rest"
proof -
  obtain mem h where q: "q_array q = Some mem" "q_hdr q = Some h" "length mem = ring_words q"
    "unat (qhdr_read_idx h) < ring_words q" "unat (qhdr_write_idx h) < ring_words q"
    by (rule queue_wfE [OF wf])
  let ?mw = "drop_bit 2 (q_mem_size q)" and ?r = "qhdr_read_idx h"
  let ?n = "drop_bit 2 (mem ! unat ?r)"
  have mw: "unat ?mw = ring_words q" by (simp add: ring_words_def)
  have content: "ring_slice mem (unat ?r) (queue_used q) = p @ rest"
    using c q by (simp add: queue_content_def)
  have used: "queue_used q = length p + length rest"
    using arg_cong [OF content, of length] by simp
  have p0: "0 < length p" using p by (auto simp: packet_ok_def)
  have hd: "mem ! unat ?r = hd p"
    using arg_cong [OF content, of "\<lambda>xs. xs ! 0"] used p0 q by (simp add: nth_append hd_conv_nth)
  have n: "unat ?n = length p" using p hd by (simp add: packet_ok_def)
  have W: "length p + length rest < ring_words q" using queue_used_less [OF wf] used by simp
  obtain buf' r' where f: "ring_fetch mem ?mw ?r buf ?n = Some (buf', r')"
    and r': "unat r' = (unat ?r + length p) mod ring_words q"
    and b': "buf' = ring_slice mem (unat ?r) (length p) @ drop (length p) buf"
    using ring_fetch_spec [of mem ?mw ?r ?n buf] q mw n W p unat_drop2_less [of "q_mem_size q"]
    by (auto simp: packet_ok_def)
  have sl: "ring_slice mem (unat ?r) (length p) = p"
    using content used ring_slice_take [of "length p" "queue_used q" mem "unat ?r"] by simp
  have ne: "?r \<noteq> qhdr_write_idx h" using queue_empty_iff [OF wf q(2)] used p0 by auto
  have wb: "words_of_bytes ?r = unat ?r"
    using q ring_words_less [of q] by (intro words_of_bytes_small) simp
  have g: "\<not> unat (q_mem_size q) < unat (push_bit 2 ?r) + 4" "?r \<le> ?mw" "?n \<noteq> 0"
    using index_in_array [of ?r "q_mem_size q"] q mw n p0 p
    by (auto simp: word_le_nat_alt packet_ok_def)
  have g': "push_bit 2 ?n \<le> VIDC_IFACEQ_VAR_HUGE_PKT_SIZE"
    using n p by (simp add: huge_packet packet_ok_def)
  define q' where "q' = q\<lparr>q_hdr := Some (h\<lparr>qhdr_rx_req := rx_request h, qhdr_read_idx := r'\<rparr>)\<rparr>"
  have run: "read_queue q (Some buf) (Some tx)
      = Some (q', Some (p @ drop (length p) buf), Some (if qhdr_tx_req (the (q_hdr q)) = 1 then 1 else 0), Inr ())"
    using ne g g' f q b' sl by (simp add: read_queue_unfold [OF q(1,2)] wb Let_def q'_def)
  have W': "ring_words q' = ring_words q" by (simp add: q'_def ring_words_def)
  have wf': "queue_wf q'" using q r' W' by (simp add: queue_wf_def q'_def)
  have "unat (qhdr_write_idx h) = (unat ?r + queue_used q) mod ring_words q"
    by (rule write_idx_from_used [OF wf q(2)])
  then have "unat (qhdr_write_idx h) = (unat r' + length rest) mod ring_words q"
    by (simp add: r' used mod_simps add.assoc)
  then have used': "queue_used q' = length rest"
    using ring_back [of "unat r'" "ring_words q" "length rest"] r' W q W'
    by (simp add: queue_used_def q'_def)
  have "ring_slice mem (unat r') (length rest) = rest"
    using ring_slice_drop [of "length p" "queue_used q" mem "unat ?r"] content used q r' by simp
  then have "queue_content q' = rest"
    using q unfolding queue_content_def used' by (simp add: q'_def)
  with run wf' show thesis by (rule that)
qed

section \<open>The queue is a first-in first-out queue of packets\<close>

text \<open>
  The two operations as a client sees them: a packet is put in with \<open>__write_queue\<close>; it is taken out
  with \<open>__read_queue\<close> into the response buffer of \<open>VIDC_IFACEQ_VAR_HUGE_PKT_SIZE\<close> bytes.
\<close>

definition vidc_enq :: "u32 list \<Rightarrow> iface_q_info \<Rightarrow> (iface_q_info \<times> bool) option" where
  "vidc_enq p q = map_option (\<lambda>(q', irq, rc). (q', rc = Inr ())) (write_queue q (Some p))"

definition packet_in :: "u32 list \<Rightarrow> u32 list" where
  "packet_in buf = take (unat (drop_bit 2 (hd buf))) buf"

definition vidc_deq :: "iface_q_info \<Rightarrow> (iface_q_info \<times> u32 list option) option" where
  "vidc_deq q = map_option (\<lambda>(q', buf, tx, rc).
       (q', if rc = Inr () then map_option packet_in buf else None))
     (read_queue q (Some (replicate 1024 0)) (Some 0))"

lemma packet_in_append: "packet_ok p \<Longrightarrow> packet_in (p @ xs) = p"
  by (cases p) (auto simp: packet_ok_def packet_in_def)

lemma packet_ok_size:
  assumes "packet_ok p"
  shows "0 < length p" "length p = unat (drop_bit 2 (hd p))" "p \<noteq> []"
  using assms by (auto simp: packet_ok_def)

lemma write_queue_room:
  assumes wf: "queue_wf q" and p: "packet_ok p" and room: "queue_used q + length p < ring_words q"
  obtains q' where "write_queue q (Some p) = Some (q', True, Inr ())" "queue_wf q'"
    "queue_content q' = queue_content q @ p"
  using write_queue_appends [OF wf packet_ok_size(1,2) [OF p] order_refl room] by auto

lemma write_queue_full:
  assumes wf: "queue_wf q" and p: "packet_ok p" and full: "\<not> queue_used q + length p < ring_words q"
  obtains q' where "write_queue q (Some p)
      = Some (q', False, Inl (if ring_words q < length p then ENODATA else ENOTEMPTY))"
    "queue_wf q'" "queue_content q' = queue_content q" "q_array q' = q_array q"
proof (cases "ring_words q < length p")
  case True
  then have "write_queue q (Some p) = Some (q, False, Inl ENODATA)"
    using write_queue_refuses [OF wf packet_ok_size [OF p]] full by simp
  then show thesis using that [of q] True wf by simp
next
  case False
  let ?q' = "q\<lparr>q_hdr := map_option (\<lambda>h. h\<lparr>qhdr_tx_req := 1\<rparr>) (q_hdr q)\<rparr>"
  have "write_queue q (Some p) = Some (?q', False, Inl ENOTEMPTY)"
    using False write_queue_refuses [OF wf packet_ok_size [OF p]] full by simp
  then show thesis
    using that [of ?q'] False tx_req_keeps_content [OF wf, of 1] by simp
qed

interpretation vq: fifo queue_holds packet_ok vidc_enq vidc_deq
proof unfold_locales
  fix q ps p
  assume h: "queue_holds q ps" and p: "packet_ok p"
  have wf: "queue_wf q" using h by (simp add: queue_holds_def)
  show "\<exists>q' b. vidc_enq p q = Some (q', b) \<and> queue_holds q' (if b then ps @ [p] else ps)"
  proof (cases "queue_used q + length p < ring_words q")
    case True
    then obtain q' where "write_queue q (Some p) = Some (q', True, Inr ())" "queue_wf q'"
      "queue_content q' = queue_content q @ p"
      using write_queue_room [OF wf p] by metis
    then show ?thesis using h p by (auto simp: vidc_enq_def queue_holds_def)
  next
    case False
    then obtain q' e where "write_queue q (Some p) = Some (q', False, Inl e)" "queue_wf q'"
      "queue_content q' = queue_content q"
      using write_queue_full [OF wf p] by metis
    then show ?thesis using h by (auto simp: vidc_enq_def queue_holds_def)
  qed
next
  fix q
  assume "queue_holds q []"
  then have wf: "queue_wf q" and e: "queue_content q = []" by (simp_all add: queue_holds_def)
  obtain q' where "read_queue q (Some (replicate 1024 0)) (Some 0)
      = Some (q', Some (replicate 1024 0), Some 0, Inl ENODATA)" "queue_wf q'" "queue_content q' = []"
    by (rule read_queue_empty [OF wf e])
  then show "\<exists>q'. vidc_deq q = Some (q', None) \<and> queue_holds q' []"
    by (auto simp: vidc_deq_def queue_holds_def)
next
  fix q p ps
  assume h: "queue_holds q (p # ps)"
  then have wf: "queue_wf q" and c: "queue_content q = p @ concat ps" and p: "packet_ok p"
    by (simp_all add: queue_holds_def)
  obtain q' where "read_queue q (Some (replicate 1024 0)) (Some 0)
      = Some (q', Some (p @ drop (length p) (replicate 1024 0)),
              Some (if qhdr_tx_req (the (q_hdr q)) = 1 then 1 else 0), Inr ())"
    "queue_wf q'" "queue_content q' = concat ps"
    by (rule read_queue_front [OF wf c p, of "replicate 1024 0"]) auto
  then show "\<exists>q'. vidc_deq q = Some (q', Some p) \<and> queue_holds q' ps"
    using h p by (auto simp: vidc_deq_def queue_holds_def packet_in_append)
qed

text \<open>
  C1: The ring buffer is a first-in first-out queue of packets. Take a well-formed queue and any sequence of reads and writes, the packets -
  those in the queue and those written - each having the size that its first word announces and being at most 1024 words long, the
  most that a read hands out. Then no operation leaves the array, and the packets that come out, followed by those still in the queue, are
  exactly those that were in it at first followed by those that were accepted, word for word and in order, wrap-around included.
\<close>

theorem vidc_queue_is_fifo:
  assumes "queue_holds q ps" "\<forall>p. Put p \<in> set ops \<longrightarrow> packet_ok p"
  shows "\<exists>q' acc out rest. fifo_run vidc_enq vidc_deq q ops = Some (q', acc, out)
           \<and> ps @ acc = out @ rest \<and> queue_holds q' rest"
  using assms by (rule vq.run_in_order)

definition small_queue :: "u32 list \<Rightarrow> u32 \<Rightarrow> u32 \<Rightarrow> iface_q_info" where
  "small_queue mem r w = \<lparr>q_hdr = Some \<lparr>qhdr_status = 1, qhdr_start_addr = 0, qhdr_type = 0, qhdr_q_size = 0,
      qhdr_pkt_size = 0, qhdr_pkt_drop_cnt = 0, qhdr_rx_wm = 1, qhdr_tx_wm = 1, qhdr_rx_req = 1,
      qhdr_tx_req = 0, qhdr_rx_irq_status = 0, qhdr_tx_irq_status = 0, qhdr_read_idx = r, qhdr_write_idx = w\<rparr>,
    q_array = Some mem, q_mem_size = 4 * of_nat (length mem), q_device_addr = 0\<rparr>"

lemma small_queue_empty: "queue_holds (small_queue [0, 0, 0, 0] 3 3) []"
  by (simp add: queue_holds_def queue_wf_def queue_content_def queue_used_def small_queue_def ring_words_def)

theorem vidc_queue_is_fifo_witness:
  "\<exists>q' acc out rest. fifo_run vidc_enq vidc_deq (small_queue [0, 0, 0, 0] 3 3) [Put [12, 7, 9], Put [8, 5], Get]
       = Some (q', acc, out) \<and> [] @ acc = out @ rest \<and> queue_holds q' rest"
  by (rule vidc_queue_is_fifo [OF small_queue_empty]) (auto simp: packet_ok_def)

text \<open>
  C16: A write to a well-formed queue, of a packet whose first word announces a size of \<open>n\<close> words that the packet has, either appends these \<open>n\<close>
  words or leaves everything that can be read as it is. It is accepted exactly when \<open>n\<close> is not 0 and at least one word stays free; then the
  interrupt flag is set, the transmit request is cleared, and of the header only that request and the write index change. A packet that is
  empty or larger than the array is refused with ENODATA and changes nothing at all; any other is refused with ENOTEMPTY, and only the transmit
  request is raised.
\<close>

theorem vidc_write_queue_outcome:
  assumes "queue_wf q" "p \<noteq> []" "n = unat (drop_bit 2 (hd p))" "n \<le> length p"
  shows "\<exists>q' irq rc. write_queue q (Some p) = Some (q', irq, rc) \<and> queue_wf q'
    \<and> (rc = Inr () \<longleftrightarrow> 0 < n \<and> queue_used q + n < ring_words q) \<and> irq = (rc = Inr ())
    \<and> queue_content q' = (if rc = Inr () then queue_content q @ take n p else queue_content q)
    \<and> (rc = Inr () \<longrightarrow> (\<exists>mem' w'. q' = q\<lparr>q_array := Some mem',
           q_hdr := Some ((the (q_hdr q))\<lparr>qhdr_tx_req := 0, qhdr_write_idx := w'\<rparr>)\<rparr>))
    \<and> (rc \<noteq> Inr () \<longrightarrow>
         (if n = 0 \<or> ring_words q < n then rc = Inl ENODATA \<and> q' = q
          else rc = Inl ENOTEMPTY \<and> q' = q\<lparr>q_hdr := Some ((the (q_hdr q))\<lparr>qhdr_tx_req := 1\<rparr>)\<rparr>))"
proof (cases "0 < n \<and> queue_used q + n < ring_words q")
  case True
  then obtain q' mem' w' where "write_queue q (Some p) = Some (q', True, Inr ())" "queue_wf q'"
    "queue_content q' = queue_content q @ take n p"
    "q' = q\<lparr>q_array := Some mem', q_hdr := Some ((the (q_hdr q))\<lparr>qhdr_tx_req := 0, qhdr_write_idx := w'\<rparr>)\<rparr>"
    using write_queue_appends [OF assms(1) _ assms(3,4)] by blast
  then show ?thesis using True by auto
next
  case False
  obtain h where h: "q_hdr q = Some h" by (rule queue_wfE [OF assms(1)])
  show ?thesis
  proof (cases "n = 0")
    case True
    then have "drop_bit 2 (hd p) = 0" using assms(3) by (simp add: unat_eq_0)
    then show ?thesis using True write_queue_zero [OF assms(1) _ assms(2)] assms(1) by auto
  next
    case n: False
    then have "write_queue q (Some p) = Some (if ring_words q < n then (q, False, Inl ENODATA)
        else (q\<lparr>q_hdr := map_option (\<lambda>h. h\<lparr>qhdr_tx_req := 1\<rparr>) (q_hdr q)\<rparr>, False, Inl ENOTEMPTY))"
      using write_queue_refuses [OF assms(1) _ assms(3,2)] False by simp
    then show ?thesis using n False tx_req_keeps_content [OF assms(1), of 1] assms(1) h by (cases "ring_words q < n") auto
  qed
qed

theorem vidc_write_queue_outcome_witness:
  "(\<exists>q' irq rc. write_queue (small_queue [0, 0, 0, 0] 3 3) (Some [12, 7, 9]) = Some (q', irq, rc) \<and> rc = Inr ()
     \<and> queue_content q' = [12, 7, 9]) \<and>
   (\<exists>q' irq. write_queue (small_queue [8, 5, 0, 0] 0 2) (Some [12, 7, 9]) = Some (q', irq, Inl ENOTEMPTY)
     \<and> qhdr_tx_req (the (q_hdr q')) = 1)"
proof
  let ?e = "small_queue [0, 0, 0, 0] 3 3" and ?q = "small_queue [8, 5, 0, 0] 0 2"
  have p: "[12, 7, 9 :: u32] \<noteq> []" "3 = unat (drop_bit 2 (hd [12, 7, 9 :: u32]))" "3 \<le> length [12, 7, 9 :: u32]" by simp_all
  have e: "queue_wf ?e" "queue_used ?e = 0" "ring_words ?e = 4" "queue_content ?e = []"
    using small_queue_empty by (simp_all add: queue_used_def ring_words_def small_queue_def queue_holds_def)
  obtain q' irq rc where "write_queue ?e (Some [12, 7, 9]) = Some (q', irq, rc)"
    "rc = Inr () \<longleftrightarrow> 0 < (3 :: nat) \<and> queue_used ?e + 3 < ring_words ?e"
    "queue_content q' = (if rc = Inr () then queue_content ?e @ take 3 [12, 7, 9] else queue_content ?e)"
    using vidc_write_queue_outcome [OF e(1) p] by blast
  then show "\<exists>q' irq rc. write_queue ?e (Some [12, 7, 9]) = Some (q', irq, rc) \<and> rc = Inr () \<and> queue_content q' = [12, 7, 9]"
    using e by simp
  have q: "queue_wf ?q" "queue_used ?q = 2" "ring_words ?q = 4"
    by (simp_all add: small_queue_def queue_wf_def queue_used_def ring_words_def)
  obtain q' irq rc where "write_queue ?q (Some [12, 7, 9]) = Some (q', irq, rc)"
    "rc = Inr () \<longleftrightarrow> 0 < (3 :: nat) \<and> queue_used ?q + 3 < ring_words ?q"
    "rc \<noteq> Inr () \<longrightarrow> (if (3 :: nat) = 0 \<or> ring_words ?q < 3 then rc = Inl ENODATA \<and> q' = ?q
      else rc = Inl ENOTEMPTY \<and> q' = ?q\<lparr>q_hdr := Some ((the (q_hdr ?q))\<lparr>qhdr_tx_req := 1\<rparr>)\<rparr>)"
    using vidc_write_queue_outcome [OF q(1) p] by blast
  then show "\<exists>q' irq. write_queue ?q (Some [12, 7, 9]) = Some (q', irq, Inl ENOTEMPTY) \<and> qhdr_tx_req (the (q_hdr q')) = 1"
    using q by simp
qed

section \<open>Indices written by the firmware\<close>

text \<open>
  C15: reading is memory safe whatever the firmware writes into the shared header and the shared array:
  with an array of the size the driver allocated (at least one largest packet) and a response buffer of
  \<open>VIDC_IFACEQ_VAR_HUGE_PKT_SIZE\<close> bytes, \<open>__read_queue\<close> never touches a word outside either of them, and
  it does not write to the array.
\<close>

theorem vidc_read_queue_memory_safe:
  assumes "q_array q = Some mem" "length mem = ring_words q" "1024 \<le> ring_words q" "length buf = 1024"
  shows "\<exists>q' buf' tx' rc. read_queue q (Some buf) (Some tx) = Some (q', Some buf', Some tx', rc)
           \<and> length buf' = 1024 \<and> q_array q' = Some mem"
proof (cases "q_hdr q")
  case None
  then show ?thesis using assms by (simp add: read_queue_def)
next
  case (Some h)
  let ?mw = "drop_bit 2 (q_mem_size q)" and ?r = "qhdr_read_idx h"
  let ?z = "mem ! words_of_bytes ?r"
  have W: "unat ?mw = ring_words q" by (simp add: ring_words_def)
  have off: "words_of_bytes ?r < length mem" if "unat (push_bit 2 ?r) + 4 \<le> unat (q_mem_size q)"
  proof -
    have "(unat (push_bit 2 ?r) + 4) div 4 \<le> unat (q_mem_size q) div 4"
      using that by (rule div_le_mono)
    then show ?thesis
      using assms(2) by (simp add: words_of_bytes_def ring_words_def unat_drop2)
  qed
  have fetch: "\<exists>buf' r'. ring_fetch mem ?mw ?r buf (drop_bit 2 ?z) = Some (buf', r') \<and> length buf' = 1024"
    if "push_bit 2 (drop_bit 2 ?z) \<le> VIDC_IFACEQ_VAR_HUGE_PKT_SIZE" "?r \<le> ?mw"
      "unat (push_bit 2 ?r) + 4 \<le> unat (q_mem_size q)"
  proof -
    have "unat (drop_bit 2 ?z) \<le> 1024" using that(1) by (simp only: huge_packet)
    moreover have "unat ?r < unat ?mw"
    proof -
      have "unat ?r \<noteq> unat ?mw"
      proof
        assume "unat ?r = unat ?mw"
        then have "unat (push_bit 2 ?r) = 4 * (unat (q_mem_size q) div 4)"
          using unat_drop2_less [of "q_mem_size q"] unfolding unat_push2 by (simp add: unat_drop2)
        with that(3) show False by presburger
      qed
      then show ?thesis using that(2) by (simp add: word_le_nat_alt)
    qed
    moreover from calculation have "unat (drop_bit 2 ?z) \<le> unat ?mw" "unat (drop_bit 2 ?z) \<le> length buf"
      using assms W by simp_all
    moreover have "length mem = unat ?mw" "unat ?mw < 2 ^ 30"
      using assms(2) W unat_drop2_less [of "q_mem_size q"] by simp_all
    ultimately obtain buf' r' where "ring_fetch mem ?mw ?r buf (drop_bit 2 ?z) = Some (buf', r')"
      "buf' = ring_slice mem (unat ?r) (unat (drop_bit 2 ?z)) @ drop (unat (drop_bit 2 ?z)) buf"
      using ring_fetch_spec [of mem ?mw ?r "drop_bit 2 ?z" buf] by metis
    then show ?thesis using assms(4) \<open>unat (drop_bit 2 ?z) \<le> 1024\<close> by auto
  qed
  show ?thesis
  proof (cases "unat (push_bit 2 ?r) + 4 \<le> unat (q_mem_size q)
      \<and> push_bit 2 (drop_bit 2 ?z) \<le> VIDC_IFACEQ_VAR_HUGE_PKT_SIZE \<and> ?r \<le> ?mw")
    case True
    then obtain buf' r' where "ring_fetch mem ?mw ?r buf (drop_bit 2 ?z) = Some (buf', r')" "length buf' = 1024"
      using fetch by blast
    then show ?thesis
      using True off assms by (simp add: read_queue_unfold [OF assms(1) Some] Let_def)
  next
    case False
    then show ?thesis
      using off assms by (auto simp: read_queue_unfold [OF assms(1) Some] Let_def not_less)
  qed
qed

theorem vidc_read_queue_memory_safe_witness:
  "\<exists>q' buf' tx' rc. read_queue (small_queue (replicate 1024 0) 0x40000000 7) (Some (replicate 1024 0)) (Some 0)
       = Some (q', Some buf', Some tx', rc) \<and> length buf' = 1024 \<and> q_array q' = Some (replicate 1024 0)"
  by (rule vidc_read_queue_memory_safe) (simp_all add: small_queue_def ring_words_def)

text \<open>
  writing is not: the write index in the shared header is checked only after a shift that wraps, so
  an index of \<open>2 ^ 30\<close> set by the firmware passes both checks and the copy leaves the command queue's
  array and the packet.
\<close>

theorem vidc_write_queue_trusts_index:
  "write_queue (small_queue [0, 0, 0, 0] 0 0x40000000) (Some [8, 5]) = None"
  by (simp add: write_queue_def small_queue_def ring_store_def mem_copy_def words_of_bytes_def Let_def)

section \<open>The core's queues\<close>

text \<open>
  a command that does not fit is reported as sent: in a usable core with its lock held, a write to a
  command queue that has no room for the packet returns success, although the queue's content is
  unchanged and no interrupt is raised.
\<close>

theorem vidc_cmd_write_full_returns_success:
  assumes "core_lock core" "core_in_valid_state core"
    and "queue_wf (iface_queues core VIDC_IFACEQ_CMDQ_IDX)" "packet_ok p"
    and "\<not> queue_used (iface_queues core VIDC_IFACEQ_CMDQ_IDX) + length p
           < ring_words (iface_queues core VIDC_IFACEQ_CMDQ_IDX)"
  shows "\<exists>core'. venus_hfi_queue_cmd_write core (Some p) = Some (core', Inr ())
    \<and> queue_content (iface_queues core' VIDC_IFACEQ_CMDQ_IDX) = queue_content (iface_queues core VIDC_IFACEQ_CMDQ_IDX)
    \<and> interrupts core' = interrupts core"
proof -
  let ?q = "iface_queues core VIDC_IFACEQ_CMDQ_IDX"
  obtain q' e where w: "write_queue ?q (Some p) = Some (q', False, Inl e)"
    and c: "queue_content q' = queue_content ?q"
    using write_queue_full [OF assms(3-5)] by metis
  have "q_array ?q \<noteq> None" using assms(3) by (auto simp: queue_wf_def split: option.splits)
  then show ?thesis
    using assms(1,2) w c
    by (simp add: venus_hfi_queue_cmd_write_def iface_cmdq_write_relaxed_def strict_check_def set_queue_def Let_def)
qed

definition small_core :: "iface_q_info \<Rightarrow> msm_vidc_core" where
  "small_core q = \<lparr>core_lock = True, core_state = MSM_VIDC_CORE_INIT, is_hw_virt = False,
     iface_q_table = \<lparr>align_device_addr = 0, align_virtual_addr = True, mem_size = 0\<rparr>, q_tbl_hdr = None,
     iface_queues = (\<lambda>_. q), sfr = \<lparr>align_device_addr = 0, align_virtual_addr = False, mem_size = 0\<rparr>,
     sfr_word0 = 0, interrupts = 0\<rparr>"

theorem vidc_cmd_write_full_returns_success_witness:
  "\<exists>core'. venus_hfi_queue_cmd_write (small_core (small_queue [0, 0, 0, 0] 3 2)) (Some [8, 5]) = Some (core', Inr ())
     \<and> interrupts core' = 0"
proof -
  have "core_lock (small_core (small_queue [0, 0, 0, 0] 3 2))"
    "core_in_valid_state (small_core (small_queue [0, 0, 0, 0] 3 2))"
    "queue_wf (iface_queues (small_core (small_queue [0, 0, 0, 0] 3 2)) VIDC_IFACEQ_CMDQ_IDX)"
    "packet_ok [8, 5]"
    "\<not> queue_used (iface_queues (small_core (small_queue [0, 0, 0, 0] 3 2)) VIDC_IFACEQ_CMDQ_IDX) + length [8, 5 :: u32]
       < ring_words (iface_queues (small_core (small_queue [0, 0, 0, 0] 3 2)) VIDC_IFACEQ_CMDQ_IDX)"
    by (simp_all add: small_core_def small_queue_def core_in_valid_state_def queue_wf_def queue_used_def
        ring_words_def packet_ok_def)
  from vidc_cmd_write_full_returns_success [OF this] show ?thesis
    by (auto simp: small_core_def)
qed

text \<open>
  reading a message while the firmware has its transmit request raised removes the packet from the
  queue and yet answers with an error, so the response is dropped; without the request the same read
  delivers the packet.
\<close>

theorem vidc_msg_read_drops_on_tx_request:
  assumes "core_in_valid_state core" "queue_holds (iface_queues core VIDC_IFACEQ_MSGQ_IDX) (p # ps)"
    and "length buf = 1024"
  shows "\<exists>core' buf'. venus_hfi_queue_msg_read core (Some buf) = Some (core', Some buf',
      if qhdr_tx_req (the (q_hdr (iface_queues core VIDC_IFACEQ_MSGQ_IDX))) = 1 then Inl EINVAL else Inr ())
    \<and> packet_in buf' = p \<and> queue_holds (iface_queues core' VIDC_IFACEQ_MSGQ_IDX) ps"
proof -
  let ?q = "iface_queues core VIDC_IFACEQ_MSGQ_IDX"
  have wf: "queue_wf ?q" and c: "queue_content ?q = p @ concat ps" and p: "packet_ok p"
    and ps: "\<forall>p\<in>set ps. packet_ok p"
    using assms(2) by (simp_all add: queue_holds_def)
  obtain q' where r: "read_queue ?q (Some buf) (Some 0)
      = Some (q', Some (p @ drop (length p) buf), Some (if qhdr_tx_req (the (q_hdr ?q)) = 1 then 1 else 0), Inr ())"
    and q': "queue_wf q'" "queue_content q' = concat ps"
    by (rule read_queue_front [OF wf c p assms(3)])
  have "q_array ?q \<noteq> None" using wf by (auto simp: queue_wf_def split: option.splits)
  then show ?thesis
    using assms(1) r q' ps packet_in_append [OF p]
    by (simp add: venus_hfi_queue_msg_read_def queue_read_from_def set_queue_def queue_holds_def Let_def)
qed

theorem vidc_msg_read_drops_on_tx_request_witness:
  "\<exists>core' buf'. venus_hfi_queue_msg_read (small_core (small_queue [8, 5, 0, 0] 0 2)) (Some (replicate 1024 0))
     = Some (core', Some buf', Inr ()) \<and> packet_in buf' = [8, 5]
     \<and> queue_holds (iface_queues core' VIDC_IFACEQ_MSGQ_IDX) []"
proof -
  have "core_in_valid_state (small_core (small_queue [8, 5, 0, 0] 0 2))"
    "queue_holds (iface_queues (small_core (small_queue [8, 5, 0, 0] 0 2)) VIDC_IFACEQ_MSGQ_IDX) [[8, 5]]"
    by (simp_all add: small_core_def small_queue_def core_in_valid_state_def queue_holds_def queue_wf_def
        queue_content_def queue_used_def ring_words_def ring_slice_def packet_ok_def upt_rec)
  from vidc_msg_read_drops_on_tx_request [OF this, of "replicate 1024 0"] show ?thesis
    by (simp add: small_core_def small_queue_def)
qed

section \<open>Set-up\<close>

lemma identity_keeps_indices [simp]:
  "qhdr_read_idx (set_queue_identity i a h) = qhdr_read_idx h"
  "qhdr_write_idx (set_queue_identity i a h) = qhdr_write_idx h"
  "qhdr_tx_req (set_queue_identity i a h) = qhdr_tx_req h"
  by (simp_all add: set_queue_identity_def)

lemma defaults_indices [simp]:
  "qhdr_read_idx (set_queue_hdr_defaults h) = 0" "qhdr_write_idx (set_queue_hdr_defaults h) = 0"
  "qhdr_tx_req (set_queue_hdr_defaults h) = 0"
  by (simp_all add: set_queue_hdr_defaults_def)

lemma queue_size_words: "unat (drop_bit 2 VIDC_IFACEQ_QUEUE_SIZE) = 204800"
  by (simp add: VIDC_IFACEQ_QUEUE_SIZE_def)

text \<open>The answer of every operation on the queues is an error, and the core is left as it is.\<close>

definition queues_refused :: "msm_vidc_core \<Rightarrow> bool" where
  "queues_refused core \<longleftrightarrow> (\<forall>pkt allow_intr.
     (\<exists>e. venus_hfi_queue_cmd_write core pkt = Some (core, Inl e)) \<and>
     (\<exists>e. venus_hfi_queue_cmd_write_intr core pkt allow_intr = Some (core, Inl e)) \<and>
     (\<exists>e. venus_hfi_queue_msg_read core pkt = Some (core, pkt, Inl e)) \<and>
     (\<exists>e. venus_hfi_queue_dbg_read core pkt = Some (core, pkt, Inl e)))"

lemma no_arrays_refused:
  assumes "\<forall>i < VIDC_IFACEQ_NUMQ. q_array (iface_queues core i) = None"
  shows "queues_refused core"
proof -
  have "q_array (iface_queues core VIDC_IFACEQ_CMDQ_IDX) = None" "q_array (iface_queues core VIDC_IFACEQ_MSGQ_IDX) = None"
    "q_array (iface_queues core VIDC_IFACEQ_DBGQ_IDX) = None"
    using assms by (simp_all add: VIDC_IFACEQ_NUMQ_def VIDC_IFACEQ_CMDQ_IDX_def VIDC_IFACEQ_MSGQ_IDX_def VIDC_IFACEQ_DBGQ_IDX_def)
  then show ?thesis
    by (auto simp: queues_refused_def venus_hfi_queue_cmd_write_def venus_hfi_queue_cmd_write_intr_def iface_cmdq_write_relaxed_def
        venus_hfi_queue_msg_read_def venus_hfi_queue_dbg_read_def queue_read_from_def strict_check_def Let_def)
qed

text \<open>The memory that the operations need can be had, with arrays of the right length.\<close>

definition arrays_fit :: "vidc_mem_results \<Rightarrow> bool" where
  "arrays_fit env \<longleftrightarrow> (\<forall>hdrs arrays. queue_alloc env = Inr (Some (hdrs, arrays)) \<longrightarrow> (\<forall>i < VIDC_IFACEQ_NUMQ. length (arrays i) = 204800))"

definition memory_had :: "msm_vidc_core \<Rightarrow> vidc_mem_results \<Rightarrow> bool" where
  "memory_had core env \<longleftrightarrow> (\<exists>m. queue_alloc env = Inr (Some m)) \<and> (\<exists>a. queue_map env = Inr a) \<and>
     (is_hw_virt core \<or> sfr_alloc env = Inr True \<and> (\<exists>a. sfr_map env = Inr a))"

lemma init_sets_up:
  assumes "\<not> align_virtual_addr (iface_q_table core)" "arrays_fit env" "venus_hfi_queue_init True env core = Some (core', Inr ())"
  shows "(\<forall>i < VIDC_IFACEQ_NUMQ. queue_holds (iface_queues core' i) []) \<and> align_virtual_addr (iface_q_table core')"
proof (intro conjI allI impI)
  show "align_virtual_addr (iface_q_table core')"
    using assms(1,3)
    by (auto simp: venus_hfi_queue_init_def Let_def split: sum.splits option.splits if_splits prod.splits)
  fix i assume i: "i < VIDC_IFACEQ_NUMQ"
  obtain hdrs arrays addr where a: "queue_alloc env = Inr (Some (hdrs, arrays))"
    and q: "iface_queues core' i = \<lparr>q_hdr = Some (set_queue_identity i addr (set_queue_hdr_defaults (hdrs i))),
       q_array = Some (arrays i), q_mem_size = VIDC_IFACEQ_QUEUE_SIZE, q_device_addr = addr\<rparr>"
    using assms(1,3) i
    by (auto simp: venus_hfi_queue_init_def Let_def split: sum.splits option.splits if_splits prod.splits)
  have "length (arrays i) = 204800" using assms(2) a i by (simp add: arrays_fit_def)
  then show "queue_holds (iface_queues core' i) []"
    unfolding q by (simp add: queue_holds_def queue_wf_def queue_content_def queue_used_def ring_words_def queue_size_words)
qed

lemma init_succeeds:
  assumes "\<not> align_virtual_addr (iface_q_table core)" "memory_had core env"
  shows "\<exists>core'. venus_hfi_queue_init True env core = Some (core', Inr ())"
  using assms by (auto simp: venus_hfi_queue_init_def memory_had_def Let_def split: prod.split)

lemma deinit_empties:
  assumes "\<not> align_virtual_addr (iface_q_table core)" "\<forall>i < VIDC_IFACEQ_NUMQ. q_array (iface_queues core i) = None"
    "venus_hfi_queue_init True env core = Some (core', rc)"
  shows "\<forall>i < VIDC_IFACEQ_NUMQ. q_array (iface_queues (venus_hfi_queue_deinit core') i) = None"
proof (cases "align_virtual_addr (iface_q_table core')")
  case True
  then show ?thesis by (simp add: venus_hfi_queue_deinit_def Let_def)
next
  case False
  then have "iface_queues core' = iface_queues core"
    using assms(1,3) by (auto simp: venus_hfi_queue_init_def Let_def split: sum.splits option.splits if_splits prod.splits)
  then show ?thesis using False assms(2) by (simp add: venus_hfi_queue_deinit_def)
qed

text \<open>
  C35: Set-up and tear-down, for a core without queues (no memory of the table, no array). After a successful
  \<open>venus_hfi_queue_init\<close> all three queues are well-formed and empty, whatever the fresh memory held. After an initialisation, whether it failed or
  not, \<open>venus_hfi_queue_deinit\<close> leaves a core on which both ways to write a command and the reads of messages and debug messages are refused, for
  every packet and without a change of the core; and which can be initialised again: with memory at hand that succeeds, and the queues are
  well-formed and empty once more. (The arrays that the allocator gives have the size that is asked for.)
\<close>

theorem vidc_queue_init_deinit:
  assumes "\<not> align_virtual_addr (iface_q_table core)" "\<forall>i < VIDC_IFACEQ_NUMQ. q_array (iface_queues core i) = None"
    "arrays_fit env" "venus_hfi_queue_init True env core = Some (core', rc)"
  shows "(rc = Inr () \<longrightarrow> (\<forall>i < VIDC_IFACEQ_NUMQ. queue_holds (iface_queues core' i) []) \<and> align_virtual_addr (iface_q_table core'))
    \<and> queues_refused (venus_hfi_queue_deinit core')
    \<and> (\<forall>env2. arrays_fit env2 \<and> memory_had (venus_hfi_queue_deinit core') env2 \<longrightarrow>
         (\<exists>core2. venus_hfi_queue_init True env2 (venus_hfi_queue_deinit core') = Some (core2, Inr ())
            \<and> (\<forall>i < VIDC_IFACEQ_NUMQ. queue_holds (iface_queues core2 i) [])))"
proof (intro conjI impI allI)
  show "queues_refused (venus_hfi_queue_deinit core')"
    by (rule no_arrays_refused [OF deinit_empties [OF assms(1,2,4)]])
  have d: "\<not> align_virtual_addr (iface_q_table (venus_hfi_queue_deinit core'))"
    by (simp add: venus_hfi_queue_deinit_def Let_def)
  fix env2 assume "arrays_fit env2 \<and> memory_had (venus_hfi_queue_deinit core') env2"
  then show "\<exists>core2. venus_hfi_queue_init True env2 (venus_hfi_queue_deinit core') = Some (core2, Inr ())
      \<and> (\<forall>i < VIDC_IFACEQ_NUMQ. queue_holds (iface_queues core2 i) [])"
    using init_succeeds [OF d] init_sets_up [OF d] by blast
qed (use init_sets_up [OF assms(1,3)] assms(4) in auto)

definition fresh_core :: "msm_vidc_core" where
  "fresh_core = (small_core (small_queue [] 0 0))\<lparr>iface_queues := \<lambda>_. \<lparr>q_hdr = None, q_array = None, q_mem_size = 0, q_device_addr = 0\<rparr>,
     iface_q_table := \<lparr>align_device_addr = 0, align_virtual_addr = False, mem_size = 0\<rparr>\<rparr>"

definition good_env :: "vidc_mem_results" where
  "good_env = \<lparr>queue_alloc = Inr (Some (\<lambda>_. the (q_hdr (small_queue [] 9 7)), \<lambda>_. replicate 204800 1)),
     queue_map = Inr 0x1000, sfr_alloc = Inr True, sfr_map = Inr 0x2000\<rparr>"

text \<open>An initialisation that gets no memory for the SFR fails, is undone, and then succeeds.\<close>

theorem vidc_queue_init_deinit_witness:
  "\<exists>core' core2. venus_hfi_queue_init True (good_env\<lparr>sfr_alloc := Inl ENOMEM\<rparr>) fresh_core = Some (core', Inl ENOMEM)
     \<and> queues_refused (venus_hfi_queue_deinit core')
     \<and> venus_hfi_queue_init True good_env (venus_hfi_queue_deinit core') = Some (core2, Inr ())
     \<and> (\<forall>i < VIDC_IFACEQ_NUMQ. queue_holds (iface_queues core2 i) [])"
proof -
  have a: "\<not> align_virtual_addr (iface_q_table fresh_core)" "\<forall>i < VIDC_IFACEQ_NUMQ. q_array (iface_queues fresh_core i) = None"
    "arrays_fit (good_env\<lparr>sfr_alloc := Inl ENOMEM\<rparr>)" "arrays_fit good_env"
    by (auto simp: fresh_core_def arrays_fit_def good_env_def)
  obtain core' where c: "venus_hfi_queue_init True (good_env\<lparr>sfr_alloc := Inl ENOMEM\<rparr>) fresh_core = Some (core', Inl ENOMEM)"
    by (simp add: venus_hfi_queue_init_def fresh_core_def small_core_def good_env_def Let_def)
  have "memory_had (venus_hfi_queue_deinit core') good_env" by (simp add: memory_had_def good_env_def)
  then show ?thesis using vidc_queue_init_deinit [OF a(1-3) c] a(4) c by blast
qed

end
