(* ===== verification/Sm_Engine.thy ===== *)
theory Sm_Engine
  imports Kernel_Prelude
begin

text \<open>
  The hierarchical state machine engine of the WLAN host driver, after \<open>wlan_sm_engine.c\<close> and
  \<open>wlan_sm_engine_dbg.c\<close>: validation of the state table, dispatch of events, transitions that run the exit
  and entry routines along the hierarchy, and the history ring.

  The state table is a list; an access outside it is the fault \<open>Table_Overrun\<close>. The routines of a state
  are functions of the whole machine (the engine's own state and the client's context \<open>ctx\<close>), so they
  may do to it whatever C code holding the pointer could, a nested transition included. A routine and
  the engine's loops are of type \<open>'a sm_run\<close>: \<open>None\<close> when they do not return. The clock and the name of the
  current task, which the history records, are fields of the machine that routines may change.
\<close>

section \<open>Data\<close>

datatype sm_fault = Table_Overrun

type_synonym 'a sm_run = "(sm_fault + 'a) option"

definition WLAN_SM_ENGINE_STATE_NONE :: u8 where "WLAN_SM_ENGINE_STATE_NONE = 255"
definition WLAN_SM_ENGINE_EVENT_NONE :: u16 where "WLAN_SM_ENGINE_EVENT_NONE = 255"
definition WLAN_SM_ENGINE_MAX_NAME :: nat where "WLAN_SM_ENGINE_MAX_NAME = 64"
definition WLAN_SM_ENGINE_MAX_STATES :: u8 where "WLAN_SM_ENGINE_MAX_STATES = 200"
definition WLAN_SM_ENGINE_HISTORY_SIZE :: nat where "WLAN_SM_ENGINE_HISTORY_SIZE = 15"

text \<open>The trace type of an entry that was never written is 0.\<close>

datatype wlan_sm_trace_type = SM_TRACE_NONE | SM_EVENT_STATE_TRANSITION | SM_EVENT_MSG_PROCESSING

record wlan_sm_history_info =
  trace_type :: wlan_sm_trace_type
  event_type :: u8
  initial_state :: u8
  final_state :: u8
  hist_time :: u64
  pid_name :: string

record wlan_sm_history =
  hist_index :: u8
  hist_data :: "wlan_sm_history_info list"

record 'c wlan_sm =
  sm_name :: string
  cur_state :: u8
  num_states :: u8
  last_event :: u8
  ctx :: 'c
  in_state_transition :: bool
  event_names :: "string list option"
  num_event_names :: u32
  sm_history :: wlan_sm_history
  sm_clock :: u64
  sm_comm :: string
  sm_bugs :: nat

record ('c, 'd) wlan_sm_state_info =
  state :: u8
  parent_state :: u8
  initial_substate :: u8
  has_substates :: bool
  state_name :: string
  wlan_sm_entry :: "('c wlan_sm \<Rightarrow> 'c wlan_sm sm_run) option"
  wlan_sm_exit :: "('c wlan_sm \<Rightarrow> 'c wlan_sm sm_run) option"
  wlan_sm_event :: "u16 \<Rightarrow> u16 \<Rightarrow> 'd \<Rightarrow> 'c wlan_sm \<Rightarrow> ('c wlan_sm \<times> bool) sm_run"

definition info_at :: "('c, 'd) wlan_sm_state_info list \<Rightarrow> u8 \<Rightarrow> ('c, 'd) wlan_sm_state_info option" where
  "info_at tbl s = (if unat s < length tbl then Some (tbl ! unat s) else None)"

section \<open>The history ring\<close>

definition empty_entry :: wlan_sm_history_info where
  "empty_entry = \<lparr>trace_type = SM_TRACE_NONE, event_type = 0, initial_state = 0, final_state = 0,
                  hist_time = 0, pid_name = ''''\<rparr>"

definition wlan_sm_history_init :: "'c wlan_sm \<Rightarrow> 'c wlan_sm" where
  "wlan_sm_history_init sm =
     sm\<lparr>sm_history := \<lparr>hist_index = 0, hist_data = replicate WLAN_SM_ENGINE_HISTORY_SIZE empty_entry\<rparr>\<rparr>"

definition wlan_sm_save_history :: "wlan_sm_trace_type \<Rightarrow> u8 \<Rightarrow> u8 \<Rightarrow> u16 \<Rightarrow> 'c wlan_sm \<Rightarrow> 'c wlan_sm" where
  "wlan_sm_save_history tr init_st final_st ev sm =
     (let h = sm_history sm;
          entry = \<lparr>trace_type = tr, event_type = ucast ev, initial_state = init_st, final_state = final_st,
                   hist_time = sm_clock sm, pid_name = take 6 (sm_comm sm)\<rparr>;
          data = (hist_data h)[unat (hist_index h) := entry];
          idx = (hist_index h + 1) mod of_nat WLAN_SM_ENGINE_HISTORY_SIZE
      in sm\<lparr>sm_history := \<lparr>hist_index = idx, hist_data = data\<rparr>\<rparr>)"

text \<open>
  \<open>wlan_sm_print_history\<close>: the lines it prints, each as the slot number and the entry. With event names
  an unused entry is skipped; a printed entry has the names of its two states looked up in the table.
\<close>

definition wlan_sm_print_history_entry ::
    "('c, 'd) wlan_sm_state_info list \<Rightarrow> 'c wlan_sm \<Rightarrow> wlan_sm_history_info \<Rightarrow> nat
     \<Rightarrow> sm_fault + (nat \<times> wlan_sm_history_info) list" where
  "wlan_sm_print_history_entry tbl sm ent i =
     (if event_names sm \<noteq> None \<and> trace_type ent = SM_TRACE_NONE then Inr []
      else if info_at tbl (initial_state ent) = None \<or> info_at tbl (final_state ent) = None
      then Inl Table_Overrun
      else Inr [(i, ent)])"

definition history_slots :: "'c wlan_sm \<Rightarrow> (nat \<times> wlan_sm_history_info) list" where
  "history_slots sm = map (\<lambda>i. let idx = (unat (hist_index (sm_history sm)) + i) mod WLAN_SM_ENGINE_HISTORY_SIZE
                               in (idx, hist_data (sm_history sm) ! idx)) [0..<WLAN_SM_ENGINE_HISTORY_SIZE]"

fun print_slots ::
    "('c, 'd) wlan_sm_state_info list \<Rightarrow> 'c wlan_sm \<Rightarrow> (nat \<times> wlan_sm_history_info) list
     \<Rightarrow> sm_fault + (nat \<times> wlan_sm_history_info) list" where
  "print_slots tbl sm [] = Inr []"
| "print_slots tbl sm ((i, ent) # slots) =
     (case wlan_sm_print_history_entry tbl sm ent i of
        Inl e \<Rightarrow> Inl e
      | Inr out \<Rightarrow> (case print_slots tbl sm slots of Inl e \<Rightarrow> Inl e | Inr outs \<Rightarrow> Inr (out @ outs)))"

definition wlan_sm_print_history ::
    "('c, 'd) wlan_sm_state_info list \<Rightarrow> 'c wlan_sm \<Rightarrow> sm_fault + (nat \<times> wlan_sm_history_info) list" where
  "wlan_sm_print_history tbl sm = print_slots tbl sm (history_slots sm)"

section \<open>Dispatch\<close>

text \<open>The state and substate that a flat state number stands for.\<close>

definition wlan_sm_get_state_substate_info ::
    "('c, 'd) wlan_sm_state_info list \<Rightarrow> u8 \<Rightarrow> (u8 \<times> u8) option" where
  "wlan_sm_get_state_substate_info tbl s =
     map_option (\<lambda>info. if parent_state info \<noteq> WLAN_SM_ENGINE_STATE_NONE then (parent_state info, s) else (s, 0))
       (info_at tbl s)"

text \<open>The state names that the log lines of a dispatch or a transition read from the table.\<close>

definition log_names_ok :: "('c, 'd) wlan_sm_state_info list \<Rightarrow> u8 \<times> u8 \<Rightarrow> bool" where
  "log_names_ok tbl = (\<lambda>(st, sub_st). info_at tbl st \<noteq> None \<and> (sub_st \<noteq> 0 \<longrightarrow> info_at tbl sub_st \<noteq> None))"

definition wlan_sm_dispatch ::
    "('c, 'd) wlan_sm_state_info list \<Rightarrow> u16 \<Rightarrow> u16 \<Rightarrow> 'd \<Rightarrow> 'c wlan_sm \<Rightarrow> ('c wlan_sm \<times> qdf_status) sm_run" where
  "wlan_sm_dispatch tbl event len data sm =
     (let st = cur_state sm in
      case wlan_sm_get_state_substate_info tbl st of None \<Rightarrow> Some (Inl Table_Overrun)
      | Some cs \<Rightarrow>
         (if event = WLAN_SM_ENGINE_EVENT_NONE then Some (Inr (sm, QDF_STATUS_E_FAILURE))
          else
           (let sm = sm\<lparr>last_event := ucast event\<rparr>;
                sm = wlan_sm_save_history SM_EVENT_MSG_PROCESSING (cur_state sm) (cur_state sm) event sm in
            if event_names sm \<noteq> None \<and> \<not> log_names_ok tbl cs then Some (Inl Table_Overrun)
            else if st \<noteq> WLAN_SM_ENGINE_STATE_NONE then
             (case info_at tbl st of None \<Rightarrow> Some (Inl Table_Overrun)
              | Some info \<Rightarrow>
               (case wlan_sm_event info event len data sm of
                  None \<Rightarrow> None
                | Some (Inl e) \<Rightarrow> Some (Inl e)
                | Some (Inr (sm', handled)) \<Rightarrow>
                    (if handled then Some (Inr (sm', QDF_STATUS_SUCCESS))
                     else if info_at tbl (cur_state sm') = None then Some (Inl Table_Overrun)
                     else Some (Inr (sm', QDF_STATUS_E_INVAL)))))
            else Some (Inr (sm, QDF_STATUS_SUCCESS)))))"

section \<open>Transitions\<close>

definition run_routine :: "('s \<Rightarrow> 's sm_run) option \<Rightarrow> 's \<Rightarrow> 's sm_run" where
  "run_routine r sm = (case r of None \<Rightarrow> Some (Inr sm) | Some f \<Rightarrow> f sm)"

text \<open>The two loops of \<open>wlan_sm_transition_to\<close>; nothing bounds them but the table.\<close>

partial_function (option) exit_loop ::
    "('c, 'd) wlan_sm_state_info list \<Rightarrow> u8 \<Rightarrow> 'c wlan_sm \<Rightarrow> 'c wlan_sm sm_run" where
  "exit_loop tbl st sm =
     (if st = WLAN_SM_ENGINE_STATE_NONE then Some (Inr sm)
      else (case info_at tbl st of None \<Rightarrow> Some (Inl Table_Overrun)
            | Some info \<Rightarrow>
               (case run_routine (wlan_sm_exit info) sm of
                  None \<Rightarrow> None
                | Some (Inl e) \<Rightarrow> Some (Inl e)
                | Some (Inr sm') \<Rightarrow> exit_loop tbl (parent_state info) sm')))"

partial_function (option) entry_loop ::
    "('c, 'd) wlan_sm_state_info list \<Rightarrow> u8 \<Rightarrow> 'c wlan_sm \<Rightarrow> 'c wlan_sm sm_run" where
  "entry_loop tbl st sm =
     (if st = WLAN_SM_ENGINE_STATE_NONE then Some (Inr sm)
      else (case info_at tbl st of None \<Rightarrow> Some (Inl Table_Overrun)
            | Some info \<Rightarrow>
               (case run_routine (wlan_sm_entry info) sm of
                  None \<Rightarrow> None
                | Some (Inl e) \<Rightarrow> Some (Inl e)
                | Some (Inr sm') \<Rightarrow> entry_loop tbl (initial_substate info) (sm'\<lparr>cur_state := st\<rparr>))))"

definition valid_target :: "'c wlan_sm \<Rightarrow> u8 \<Rightarrow> bool" where
  "valid_target sm st \<longleftrightarrow>
     \<not> (st = WLAN_SM_ENGINE_STATE_NONE \<or> WLAN_SM_ENGINE_MAX_STATES \<le> st \<or> num_states sm \<le> st)"

definition wlan_sm_transition_to ::
    "('c, 'd) wlan_sm_state_info list \<Rightarrow> u8 \<Rightarrow> 'c wlan_sm \<Rightarrow> 'c wlan_sm sm_run" where
  "wlan_sm_transition_to tbl st sm =
     (let cur = cur_state sm in
      if in_state_transition sm then Some (Inr (sm\<lparr>sm_bugs := Suc (sm_bugs sm)\<rparr>))
      else
       (let sm = sm\<lparr>in_state_transition := True\<rparr>;
            sm = wlan_sm_save_history SM_EVENT_STATE_TRANSITION (cur_state sm) st 0xFF sm in
        if \<not> valid_target sm st then Some (Inr sm)
        else
         (case (wlan_sm_get_state_substate_info tbl cur, wlan_sm_get_state_substate_info tbl st) of
            (Some old, Some new) \<Rightarrow>
             (if \<not> log_names_ok tbl old \<or> \<not> log_names_ok tbl new then Some (Inl Table_Overrun)
              else
               (case exit_loop tbl cur sm of
                  None \<Rightarrow> None
                | Some (Inl e) \<Rightarrow> Some (Inl e)
                | Some (Inr sm) \<Rightarrow>
                   (case entry_loop tbl st sm of
                      None \<Rightarrow> None
                    | Some (Inl e) \<Rightarrow> Some (Inl e)
                    | Some (Inr sm) \<Rightarrow> Some (Inr (sm\<lparr>in_state_transition := False\<rparr>)))))
          | _ \<Rightarrow> Some (Inl Table_Overrun))))"

definition wlan_sm_reset :: "u8 \<Rightarrow> 'c wlan_sm \<Rightarrow> 'c wlan_sm" where
  "wlan_sm_reset init_st sm = sm\<lparr>cur_state := init_st\<rparr>"

section \<open>Creation\<close>

text \<open>
  The hierarchy check of one state: the loop with its array of visited states. Each round marks a new
  state, or ends.
\<close>

function validate_loop :: "('c, 'd) wlan_sm_state_info list \<Rightarrow> u8 set \<Rightarrow> u8 \<Rightarrow> sm_fault + qdf_status" where
  "validate_loop tbl visited st =
     (if st = WLAN_SM_ENGINE_STATE_NONE then Inr QDF_STATUS_SUCCESS
      else if WLAN_SM_ENGINE_MAX_STATES \<le> st then Inl Table_Overrun
      else if st \<in> visited then Inr QDF_STATUS_E_FAILURE
      else (case info_at tbl st of None \<Rightarrow> Inl Table_Overrun
            | Some info \<Rightarrow>
               (if parent_state info \<noteq> WLAN_SM_ENGINE_STATE_NONE then
                 (case info_at tbl (parent_state info) of None \<Rightarrow> Inl Table_Overrun
                  | Some parent \<Rightarrow>
                     (if \<not> has_substates parent then Inr QDF_STATUS_E_FAILURE
                      else validate_loop tbl (insert st visited) (parent_state info)))
                else validate_loop tbl (insert st visited) (parent_state info))))"
  by pat_completeness auto
termination
proof (relation "measure (\<lambda>(tbl, visited, st). card (UNIV - visited))", goal_cases)
  case 1 show ?case by simp
next
  case (2 tbl visited st)
  have "card (UNIV - insert st visited) < card (UNIV - visited)"
    using 2 by (intro psubset_card_mono) auto
  then show ?case by simp
next
  case (3 tbl visited st)
  have "card (UNIV - insert st visited) < card (UNIV - visited)"
    using 3 by (intro psubset_card_mono) auto
  then show ?case by simp
qed

declare validate_loop.simps [simp del]

definition wlan_sm_validate_state_info ::
    "('c, 'd) wlan_sm_state_info list \<Rightarrow> u8 \<Rightarrow> sm_fault + qdf_status" where
  "wlan_sm_validate_state_info tbl i =
     (case info_at tbl i of None \<Rightarrow> Inl Table_Overrun
      | Some info \<Rightarrow>
         (if WLAN_SM_ENGINE_MAX_STATES \<le> state info \<or> state info \<noteq> i then Inr QDF_STATUS_E_FAILURE
          else validate_loop tbl {} (state info)))"

fun validate_states :: "('c, 'd) wlan_sm_state_info list \<Rightarrow> nat list \<Rightarrow> sm_fault + qdf_status" where
  "validate_states tbl [] = Inr QDF_STATUS_SUCCESS"
| "validate_states tbl (i # is) =
     (case wlan_sm_validate_state_info tbl (of_nat i) of
        Inl e \<Rightarrow> Inl e
      | Inr rc \<Rightarrow> if rc \<noteq> QDF_STATUS_SUCCESS then Inr rc else validate_states tbl is)"

text \<open>\<open>alloc_ok\<close> is the outcome of the allocation, \<open>clock\<close> and \<open>comm\<close> the environment.\<close>

definition wlan_sm_create ::
    "string \<Rightarrow> 'c \<Rightarrow> u8 \<Rightarrow> ('c, 'd) wlan_sm_state_info list \<Rightarrow> u8 \<Rightarrow> string list option \<Rightarrow> u32
     \<Rightarrow> bool \<Rightarrow> u64 \<Rightarrow> string \<Rightarrow> sm_fault + 'c wlan_sm option" where
  "wlan_sm_create name c init_st tbl n ev_names n_ev alloc_ok clock comm =
     (if WLAN_SM_ENGINE_MAX_STATES < n then Inr None
      else
       (case validate_states tbl [0..<unat n] of
          Inl e \<Rightarrow> Inl e
        | Inr rc \<Rightarrow>
           (if rc \<noteq> QDF_STATUS_SUCCESS \<or> \<not> alloc_ok then Inr None
            else Inr (Some (wlan_sm_history_init
              \<lparr>sm_name = take (WLAN_SM_ENGINE_MAX_NAME - 1) name, cur_state = init_st, num_states = n,
               last_event = ucast WLAN_SM_ENGINE_EVENT_NONE, ctx = c, in_state_transition = False,
               event_names = ev_names, num_event_names = n_ev,
               sm_history = \<lparr>hist_index = 0, hist_data = []\<rparr>, sm_clock = clock, sm_comm = comm,
               sm_bugs = 0\<rparr>)))))"

section \<open>Queries\<close>

definition wlan_sm_get_lastevent :: "'c wlan_sm \<Rightarrow> u8" where
  "wlan_sm_get_lastevent sm = last_event sm"

definition wlan_sm_get_current_state :: "'c wlan_sm \<Rightarrow> u8" where
  "wlan_sm_get_current_state sm = cur_state sm"

definition wlan_sm_get_state_name :: "('c, 'd) wlan_sm_state_info list \<Rightarrow> u8 \<Rightarrow> string option" where
  "wlan_sm_get_state_name tbl st = map_option state_name (info_at tbl st)"

definition wlan_sm_get_current_state_name :: "('c, 'd) wlan_sm_state_info list \<Rightarrow> 'c wlan_sm \<Rightarrow> string option" where
  "wlan_sm_get_current_state_name tbl sm = map_option state_name (info_at tbl (cur_state sm))"

end
