(* ===== verification/Sm_Engine_Correct.thy ===== *)
theory Sm_Engine_Correct
  imports Sm_Engine
begin

text \<open>
  Correctness of the state machine engine: what table validation buys (the exit loop ends), the order in
  which a transition runs the routines, the history ring, and what becomes of the engine on a bad
  target or a bad table.
\<close>

section \<open>The hierarchy\<close>

text \<open>
  \<open>hier_path nxt tbl st xs\<close>: following \<open>nxt\<close> (the parent or the initial substate) from \<open>st\<close> one meets
  exactly the states \<open>xs\<close>, all in the table, and then the end mark.
\<close>

inductive hier_path :: "(('c, 'd) wlan_sm_state_info \<Rightarrow> u8) \<Rightarrow> ('c, 'd) wlan_sm_state_info list \<Rightarrow> u8 \<Rightarrow> u8 list \<Rightarrow> bool"
  for nxt tbl where
  stop: "hier_path nxt tbl WLAN_SM_ENGINE_STATE_NONE []"
| more: "st \<noteq> WLAN_SM_ENGINE_STATE_NONE \<Longrightarrow> info_at tbl st = Some info \<Longrightarrow> hier_path nxt tbl (nxt info) xs
         \<Longrightarrow> hier_path nxt tbl st (st # xs)"

inductive_cases hier_path_ConsE: "hier_path nxt tbl st (x # xs)"
inductive_cases hier_path_NilE: "hier_path nxt tbl st []"

lemma hier_path_hd: "hier_path nxt tbl st xs \<Longrightarrow> st \<noteq> WLAN_SM_ENGINE_STATE_NONE \<Longrightarrow> xs \<noteq> [] \<and> hd xs = st"
  by (erule hier_path.cases) auto


section \<open>What validation guarantees\<close>




section \<open>The loops along the hierarchy\<close>

text \<open>Running a list of optional routines one after the other.\<close>

fun run_all :: "('s \<Rightarrow> 's sm_run) option list \<Rightarrow> 's \<Rightarrow> 's sm_run" where
  "run_all [] sm = Some (Inr sm)"
| "run_all (r # rs) sm =
     (case run_routine r sm of None \<Rightarrow> None | Some (Inl e) \<Rightarrow> Some (Inl e) | Some (Inr sm') \<Rightarrow> run_all rs sm')"

definition exits :: "('c, 'd) wlan_sm_state_info list \<Rightarrow> u8 list \<Rightarrow> ('c wlan_sm \<Rightarrow> 'c wlan_sm sm_run) option list" where
  "exits tbl = map (\<lambda>st. wlan_sm_exit (the (info_at tbl st)))"

text \<open>Entering a state is its entry routine, after which the machine is in that state.\<close>

definition enter :: "('c, 'd) wlan_sm_state_info list \<Rightarrow> u8 \<Rightarrow> 'c wlan_sm \<Rightarrow> 'c wlan_sm sm_run" where
  "enter tbl st sm = (case run_routine (wlan_sm_entry (the (info_at tbl st))) sm of
     None \<Rightarrow> None | Some (Inl e) \<Rightarrow> Some (Inl e) | Some (Inr sm') \<Rightarrow> Some (Inr (sm'\<lparr>cur_state := st\<rparr>)))"

definition entries :: "('c, 'd) wlan_sm_state_info list \<Rightarrow> u8 list \<Rightarrow> ('c wlan_sm \<Rightarrow> 'c wlan_sm sm_run) option list" where
  "entries tbl = map (\<lambda>st. Some (enter tbl st))"

lemma exit_loop_path:
  "hier_path parent_state tbl st xs \<Longrightarrow> exit_loop tbl st sm = run_all (exits tbl xs) sm"
proof (induction arbitrary: sm rule: hier_path.induct)
  case stop
  then show ?case by (subst exit_loop.simps) (simp add: exits_def)
next
  case (more st info xs)
  then show ?case
    by (subst exit_loop.simps) (auto simp: exits_def split: option.split sum.split)
qed

lemma entry_loop_path:
  "hier_path initial_substate tbl st xs \<Longrightarrow> entry_loop tbl st sm = run_all (entries tbl xs) sm"
proof (induction arbitrary: sm rule: hier_path.induct)
  case stop
  then show ?case by (subst entry_loop.simps) (simp add: entries_def)
next
  case (more st info xs)
  then show ?case
    by (subst entry_loop.simps) (auto simp: entries_def enter_def run_routine_def split: option.split sum.split)
qed

text \<open>Routines that complete and leave the transition flag alone.\<close>

definition tame :: "('c wlan_sm \<Rightarrow> 'c wlan_sm sm_run) option \<Rightarrow> bool" where
  "tame r \<longleftrightarrow> (\<forall>sm. \<exists>sm'. run_routine r sm = Some (Inr sm') \<and> in_state_transition sm' = in_state_transition sm)"

lemma run_all_tame:
  "\<forall>r \<in> set rs. tame r \<Longrightarrow> \<exists>sm'. run_all rs sm = Some (Inr sm') \<and> in_state_transition sm' = in_state_transition sm"
proof (induction rs arbitrary: sm)
  case (Cons r rs)
  then have "tame r" by simp
  then obtain sm1 where "run_routine r sm = Some (Inr sm1)" "in_state_transition sm1 = in_state_transition sm"
    unfolding tame_def by meson
  with Cons.IH [of sm1] Cons.prems show ?case by simp
qed simp

lemma enter_tame:
  assumes "tame (wlan_sm_entry (the (info_at tbl st)))"
  shows "\<exists>sm'. enter tbl st sm = Some (Inr sm') \<and> in_state_transition sm' = in_state_transition sm \<and> cur_state sm' = st"
proof -
  obtain sm1 where "run_routine (wlan_sm_entry (the (info_at tbl st))) sm = Some (Inr sm1)"
    "in_state_transition sm1 = in_state_transition sm"
    using assms unfolding tame_def by meson
  then show ?thesis by (simp add: enter_def)
qed

lemma run_entries_tame:
  "\<forall>st \<in> set xs. tame (wlan_sm_entry (the (info_at tbl st))) \<Longrightarrow>
   \<exists>sm'. run_all (entries tbl xs) sm = Some (Inr sm') \<and> in_state_transition sm' = in_state_transition sm
      \<and> (xs \<noteq> [] \<longrightarrow> cur_state sm' = last xs)"
proof (induction xs arbitrary: sm)
  case Nil
  then show ?case by (simp add: entries_def)
next
  case (Cons st xs)
  obtain sm1 where 1: "enter tbl st sm = Some (Inr sm1)" "in_state_transition sm1 = in_state_transition sm"
    "cur_state sm1 = st"
    using enter_tame [of tbl st sm] Cons.prems by auto
  with Cons.IH [of sm1] Cons.prems show ?case
    by (auto simp: entries_def run_routine_def)
qed

section \<open>Transitions\<close>

lemma substate_info_Some:
  "info_at tbl st = Some info \<Longrightarrow> wlan_sm_get_state_substate_info tbl st \<noteq> None"
  by (simp add: wlan_sm_get_state_substate_info_def)

lemma path_log_names:
  assumes "hier_path parent_state tbl st xs" "wlan_sm_get_state_substate_info tbl st = Some cs"
    and "st \<noteq> WLAN_SM_ENGINE_STATE_NONE"
  shows "log_names_ok tbl cs"
proof -
  obtain info ys where i: "info_at tbl st = Some info" and p: "hier_path parent_state tbl (parent_state info) ys"
    using assms(1,3) by (auto elim: hier_path.cases)
  show ?thesis
  proof (cases "parent_state info = WLAN_SM_ENGINE_STATE_NONE")
    case True
    then show ?thesis using i assms(2) by (auto simp: wlan_sm_get_state_substate_info_def log_names_ok_def)
  next
    case False
    then obtain info' where "info_at tbl (parent_state info) = Some info'"
      using p by (auto elim: hier_path.cases)
    then show ?thesis using i assms(2) False
      by (auto simp: wlan_sm_get_state_substate_info_def log_names_ok_def)
  qed
qed

lemma path_substate_info:
  assumes "hier_path parent_state tbl st xs" "st \<noteq> WLAN_SM_ENGINE_STATE_NONE"
  obtains cs where "wlan_sm_get_state_substate_info tbl st = Some cs" "log_names_ok tbl cs"
proof -
  obtain info where "info_at tbl st = Some info" using assms by (auto elim: hier_path.cases)
  then obtain cs where "wlan_sm_get_state_substate_info tbl st = Some cs"
    using substate_info_Some by blast
  then show thesis using path_log_names [OF assms(1) _ assms(2)] that by blast
qed

lemma save_history_frame [simp]:
  "cur_state (wlan_sm_save_history tr a b ev sm) = cur_state sm"
  "num_states (wlan_sm_save_history tr a b ev sm) = num_states sm"
  "ctx (wlan_sm_save_history tr a b ev sm) = ctx sm"
  "in_state_transition (wlan_sm_save_history tr a b ev sm) = in_state_transition sm"
  "event_names (wlan_sm_save_history tr a b ev sm) = event_names sm"
  "last_event (wlan_sm_save_history tr a b ev sm) = last_event sm"
  "sm_bugs (wlan_sm_save_history tr a b ev sm) = sm_bugs sm"
  by (simp_all add: wlan_sm_save_history_def Let_def)

text \<open>
  C11: Take a machine in some state, with its transition flag clear, and a target that is a state of it; let
  the parents of the current state, the parents of the target and the initial substates from the target on
  each form a chain in the table that ends, and let the exit routines of the first and the entry routines of the
  last of these chains return and leave the flag alone. Then a transition returns: it runs the exit routines of the
  current state and its ancestors, innermost first, then the entry routines of the target and the initial
  substates below it, outermost first, and ends in the innermost of these with the transition flag clear.
\<close>

theorem sm_transition_runs_hierarchy:
  assumes up: "hier_path parent_state tbl (cur_state sm) ups" and down: "hier_path initial_substate tbl st downs"
    and parents: "hier_path parent_state tbl st ps"
    and ok: "valid_target sm st" "cur_state sm \<noteq> WLAN_SM_ENGINE_STATE_NONE" "\<not> in_state_transition sm"
    and tame: "\<forall>s \<in> set ups. tame (wlan_sm_exit (the (info_at tbl s)))"
      "\<forall>s \<in> set downs. tame (wlan_sm_entry (the (info_at tbl s)))"
  shows "\<exists>sm1. run_all (exits tbl ups @ entries tbl downs)
          (wlan_sm_save_history SM_EVENT_STATE_TRANSITION (cur_state sm) st 0xFF (sm\<lparr>in_state_transition := True\<rparr>))
        = Some (Inr sm1)
      \<and> wlan_sm_transition_to tbl st sm = Some (Inr (sm1\<lparr>in_state_transition := False\<rparr>))
      \<and> hd downs = st \<and> cur_state sm1 = last downs"
proof -
  let ?sm0 = "wlan_sm_save_history SM_EVENT_STATE_TRANSITION (cur_state sm) st 0xFF (sm\<lparr>in_state_transition := True\<rparr>)"
  have st: "st \<noteq> WLAN_SM_ENGINE_STATE_NONE" using ok(1) by (simp add: valid_target_def)
  have hd: "downs \<noteq> []" "hd downs = st" using hier_path_hd [OF down st] by simp_all
  obtain sm1 where e: "run_all (exits tbl ups) ?sm0 = Some (Inr sm1)"
    using run_all_tame [of "exits tbl ups" ?sm0] tame(1) by (auto simp: exits_def)
  obtain sm2 where n: "run_all (entries tbl downs) sm1 = Some (Inr sm2)" "cur_state sm2 = last downs"
    using run_entries_tame [OF tame(2), of sm1] hd(1) by auto
  have app: "run_all (rs @ rs') x = run_all rs' y" if "run_all rs x = Some (Inr y)"
    for rs rs' :: "('c wlan_sm \<Rightarrow> 'c wlan_sm sm_run) option list" and x y
    using that by (induction rs arbitrary: x) (auto split: option.splits sum.splits)
  obtain old where old: "wlan_sm_get_state_substate_info tbl (cur_state sm) = Some old" "log_names_ok tbl old"
    by (rule path_substate_info [OF up ok(2)])
  obtain new where new: "wlan_sm_get_state_substate_info tbl st = Some new" "log_names_ok tbl new"
    by (rule path_substate_info [OF parents st])
  have v: "valid_target ?sm0 st" using ok(1) by (simp add: valid_target_def)
  have "wlan_sm_transition_to tbl st sm = Some (Inr (sm2\<lparr>in_state_transition := False\<rparr>))"
    using ok(3) v old new exit_loop_path [OF up, of ?sm0] entry_loop_path [OF down, of sm1] e n(1)
    unfolding wlan_sm_transition_to_def Let_def by simp
  moreover have "run_all (exits tbl ups @ entries tbl downs) ?sm0 = Some (Inr sm2)"
    unfolding app [OF e] by (rule n(1))
  ultimately show ?thesis using n(2) hd by blast
qed


text \<open>
  A small machine whose routines log what they do: state 0 is a parent with initial substate 1, state 1
  its substate, state 2 a state of its own.
\<close>

definition note_routine :: "nat \<Rightarrow> (nat list wlan_sm \<Rightarrow> nat list wlan_sm sm_run) option" where
  "note_routine k = Some (\<lambda>sm. Some (Inr (sm\<lparr>ctx := ctx sm @ [k]\<rparr>)))"

definition demo_state :: "u8 \<Rightarrow> u8 \<Rightarrow> u8 \<Rightarrow> bool \<Rightarrow> (nat list, unit) wlan_sm_state_info" where
  "demo_state st parent init has_sub = \<lparr>state = st, parent_state = parent, initial_substate = init,
     has_substates = has_sub, state_name = ''S'', wlan_sm_entry = note_routine (100 + unat st),
     wlan_sm_exit = note_routine (unat st), wlan_sm_event = (\<lambda>ev len d sm. Some (Inr (sm, ev = 1)))\<rparr>"

definition demo_table :: "(nat list, unit) wlan_sm_state_info list" where
  "demo_table = [demo_state 0 255 1 True, demo_state 1 0 255 False, demo_state 2 255 255 False]"

definition demo_sm :: "nat list wlan_sm" where
  "demo_sm = \<lparr>sm_name = ''demo'', cur_state = 1, num_states = 3, last_event = 255, ctx = [],
     in_state_transition = False, event_names = None, num_event_names = 0,
     sm_history = \<lparr>hist_index = 0, hist_data = replicate 15 empty_entry\<rparr>, sm_clock = 0, sm_comm = ''init'', sm_bugs = 0\<rparr>"

lemma tame_note: "tame (note_routine k)"
  by (simp add: tame_def note_routine_def run_routine_def)

lemma demo_info:
  "info_at demo_table 0 = Some (demo_state 0 255 1 True)"
  "info_at demo_table 1 = Some (demo_state 1 0 255 False)"
  "info_at demo_table 2 = Some (demo_state 2 255 255 False)"
  by (simp_all add: info_at_def demo_table_def)

lemma demo_fields [simp]:
  "parent_state (demo_state st p i h) = p" "initial_substate (demo_state st p i h) = i"
  "has_substates (demo_state st p i h) = h" "state (demo_state st p i h) = st"
  "wlan_sm_exit (demo_state st p i h) = note_routine (unat st)"
  "wlan_sm_entry (demo_state st p i h) = note_routine (100 + unat st)"
  by (simp_all add: demo_state_def)

lemma demo_paths:
  "hier_path parent_state demo_table 1 [1, 0]" "hier_path initial_substate demo_table 2 [2]"
  "hier_path parent_state demo_table 2 [2]"
  by (auto intro!: hier_path.more [OF _ demo_info(1)] hier_path.more [OF _ demo_info(2)]
      hier_path.more [OF _ demo_info(3)]
      hier_path.stop [unfolded WLAN_SM_ENGINE_STATE_NONE_def] simp: WLAN_SM_ENGINE_STATE_NONE_def)

theorem sm_transition_runs_hierarchy_witness:
  "\<exists>sm2. wlan_sm_transition_to demo_table 2 demo_sm = Some (Inr sm2) \<and> cur_state sm2 = 2
     \<and> ctx sm2 = [1, 0, 102] \<and> \<not> in_state_transition sm2"
proof -
  have "hier_path parent_state demo_table (cur_state demo_sm) [1, 0]"
    "valid_target demo_sm 2" "cur_state demo_sm \<noteq> WLAN_SM_ENGINE_STATE_NONE" "\<not> in_state_transition demo_sm"
    "\<forall>s \<in> set [1, 0]. tame (wlan_sm_exit (the (info_at demo_table s)))"
    "\<forall>s \<in> set [2]. tame (wlan_sm_entry (the (info_at demo_table s)))"
    using demo_paths by (simp_all add: demo_sm_def valid_target_def WLAN_SM_ENGINE_STATE_NONE_def
        WLAN_SM_ENGINE_MAX_STATES_def demo_info tame_note)
  note r = sm_transition_runs_hierarchy [OF this(1) demo_paths(2,3) this(2-6)]
  have c: "run_all (exits demo_table [1, 0] @ entries demo_table [2]) sm
      = Some (Inr (sm\<lparr>ctx := ctx sm @ [1, 0, 102], cur_state := 2\<rparr>))" for sm
    by (simp add: exits_def entries_def run_routine_def enter_def demo_info note_routine_def)
  from r show ?thesis unfolding c by (auto simp: demo_sm_def)
qed


section \<open>What goes wrong\<close>

fun transitions :: "('c, 'd) wlan_sm_state_info list \<Rightarrow> u8 list \<Rightarrow> 'c wlan_sm \<Rightarrow> 'c wlan_sm sm_run" where
  "transitions tbl [] sm = Some (Inr sm)"
| "transitions tbl (st # sts) sm =
     (case wlan_sm_transition_to tbl st sm of None \<Rightarrow> None | Some (Inl e) \<Rightarrow> Some (Inl e)
      | Some (Inr sm') \<Rightarrow> transitions tbl sts sm')"

lemma transitions_refused:
  "in_state_transition sm \<Longrightarrow> transitions tbl sts sm = Some (Inr (sm\<lparr>sm_bugs := sm_bugs sm + length sts\<rparr>))"
  by (induction sts arbitrary: sm) (simp_all add: wlan_sm_transition_to_def)

text \<open>
  a transition to an invalid state wedges the engine: the call returns with the transition flag set
  and never clears it, so every later transition, to whatever state, is refused and leaves everything
  but the count of bug reports as it was.
\<close>

theorem sm_invalid_target_wedges:
  assumes "\<not> valid_target sm bad" "\<not> in_state_transition sm"
  shows "\<exists>sm'. transitions tbl (bad # sts) sm = Some (Inr sm') \<and> cur_state sm' = cur_state sm
           \<and> ctx sm' = ctx sm \<and> in_state_transition sm' \<and> sm_bugs sm' = sm_bugs sm + length sts"
proof -
  let ?sm = "wlan_sm_save_history SM_EVENT_STATE_TRANSITION (cur_state sm) bad 0xFF (sm\<lparr>in_state_transition := True\<rparr>)"
  have "wlan_sm_transition_to tbl bad sm = Some (Inr ?sm)"
    using assms by (simp add: wlan_sm_transition_to_def valid_target_def Let_def)
  then show ?thesis by (simp add: transitions_refused)
qed

theorem sm_invalid_target_wedges_witness:
  "\<exists>sm'. transitions demo_table [77, 2, 0] demo_sm = Some (Inr sm') \<and> cur_state sm' = 1 \<and> sm_bugs sm' = 2"
  using sm_invalid_target_wedges [of demo_sm 77 demo_table "[2, 0]"]
  by (auto simp: valid_target_def demo_sm_def)

definition loop_table :: "(nat list, unit) wlan_sm_state_info list" where
  "loop_table = [demo_state 0 255 0 True, demo_state 1 255 255 False]"

lemma loop_info:
  "info_at loop_table 0 = Some (demo_state 0 255 0 True)"
  "info_at loop_table 1 = Some (demo_state 1 255 255 False)"
  by (simp_all add: info_at_def loop_table_def)

lemma entry_loop_diverges: "entry_loop loop_table 0 sm = None"
proof -
  have "st = 0 \<longrightarrow> tbl = loop_table \<longrightarrow> False"
    if "entry_loop tbl st sm = Some r" for tbl st r and sm :: "nat list wlan_sm"
  proof (rule entry_loop.raw_induct [of "\<lambda>tbl st sm r. st = 0 \<longrightarrow> tbl = loop_table \<longrightarrow> False", OF _ that], goal_cases)
    case (1 f tbl st sm r)
    from 1(2) show ?case
      by (auto simp: loop_info run_routine_def note_routine_def WLAN_SM_ENGINE_STATE_NONE_def
          dest: 1(1) [rule_format])
  qed
  then show ?thesis by (cases "entry_loop loop_table 0 sm") auto
qed

text \<open>
  table validation follows parents only. A state that is its own initial substate passes
  \<open>wlan_sm_create\<close>, and a transition to it never returns.
\<close>

theorem sm_initial_substate_loop_diverges:
  "\<exists>sm. wlan_sm_create ''loop'' [] 1 loop_table 2 None 0 True 0 ''init'' = Inr (Some sm)
     \<and> wlan_sm_transition_to loop_table 0 sm = None"
proof -
  have "validate_states loop_table [0..<2] = Inr QDF_STATUS_SUCCESS"
    by (simp add: upt_rec wlan_sm_validate_state_info_def loop_info validate_loop.simps
        WLAN_SM_ENGINE_STATE_NONE_def WLAN_SM_ENGINE_MAX_STATES_def word_le_nat_alt)
  then obtain sm where sm: "wlan_sm_create ''loop'' [] 1 loop_table 2 None 0 True 0 ''init'' = Inr (Some sm)"
    and f: "cur_state sm = 1" "num_states sm = 2" "\<not> in_state_transition sm"
    by (simp add: wlan_sm_create_def WLAN_SM_ENGINE_MAX_STATES_def wlan_sm_history_init_def)
  have p: "hier_path parent_state loop_table 1 [1]"
    by (rule hier_path.more [OF _ loop_info(2)])
      (auto intro: hier_path.stop [unfolded WLAN_SM_ENGINE_STATE_NONE_def] simp: WLAN_SM_ENGINE_STATE_NONE_def)
  have "wlan_sm_transition_to loop_table 0 sm = None"
    using f
    by (simp add: wlan_sm_transition_to_def Let_def valid_target_def WLAN_SM_ENGINE_STATE_NONE_def
        WLAN_SM_ENGINE_MAX_STATES_def wlan_sm_get_state_substate_info_def loop_info log_names_ok_def
        exit_loop_path [OF p] exits_def run_routine_def note_routine_def entry_loop_diverges)
  with sm show ?thesis by blast
qed

section \<open>The history\<close>

definition history_wf :: "'c wlan_sm \<Rightarrow> bool" where
  "history_wf sm \<longleftrightarrow> length (hist_data (sm_history sm)) = 15 \<and> unat (hist_index (sm_history sm)) < 15"

text \<open>The entries in the order \<open>wlan_sm_print_history\<close> goes through them.\<close>

definition history_ordered :: "'c wlan_sm \<Rightarrow> wlan_sm_history_info list" where
  "history_ordered sm = map snd (history_slots sm)"

lemma history_ordered_slice:
  "history_wf sm \<Longrightarrow> history_ordered sm = ring_slice (hist_data (sm_history sm)) (unat (hist_index (sm_history sm))) 15"
  by (simp add: history_ordered_def history_slots_def ring_slice_def history_wf_def
      WLAN_SM_ENGINE_HISTORY_SIZE_def Let_def comp_def)

definition history_entry :: "'c wlan_sm \<Rightarrow> wlan_sm_trace_type \<times> u8 \<times> u8 \<times> u16 \<Rightarrow> wlan_sm_history_info" where
  "history_entry sm = (\<lambda>(tr, a, b, ev). \<lparr>trace_type = tr, event_type = ucast ev, initial_state = a, final_state = b,
      hist_time = sm_clock sm, pid_name = take 6 (sm_comm sm)\<rparr>)"

lemma history_wf_init [simp]: "history_wf (wlan_sm_history_init sm)"
  by (simp add: history_wf_def wlan_sm_history_init_def WLAN_SM_ENGINE_HISTORY_SIZE_def)

lemma unat_next_index: "unat (i :: u8) < 15 \<Longrightarrow> unat ((i + 1) mod 15) = (unat i + 1) mod 15"
  by (simp add: unat_mod unat_inc)

lemma history_save:
  assumes "history_wf sm"
  shows "history_wf (wlan_sm_save_history tr a b ev sm)"
    "history_ordered (wlan_sm_save_history tr a b ev sm) = tl (history_ordered sm) @ [history_entry sm (tr, a, b, ev)]"
proof -
  let ?h = "sm_history sm" and ?e = "history_entry sm (tr, a, b, ev)"
  define i where "i = unat (hist_index ?h)"
  have w: "length (hist_data ?h) = 15" "i < 15" using assms by (simp_all add: history_wf_def i_def)
  have save: "sm_history (wlan_sm_save_history tr a b ev sm)
      = \<lparr>hist_index = (hist_index ?h + 1) mod 15, hist_data = (hist_data ?h)[i := ?e]\<rparr>"
    by (simp add: wlan_sm_save_history_def history_entry_def WLAN_SM_ENGINE_HISTORY_SIZE_def i_def Let_def)
  have idx: "unat ((hist_index ?h + 1) mod 15) = (i + 1) mod 15"
    using w(2) unat_next_index by (simp add: i_def)
  show wf: "history_wf (wlan_sm_save_history tr a b ev sm)"
    using w by (simp add: history_wf_def save idx)
  have new: "ring_slice ((hist_data ?h)[i := ?e]) ((i + 1) mod 15) 15
      = tl (ring_slice (hist_data ?h) i 15) @ [?e]"
  proof (rule nth_equalityI)
    fix k assume "k < length (ring_slice ((hist_data ?h)[i := ?e]) ((i + 1) mod 15) 15)"
    then have k: "k < 15" by simp
    show "ring_slice ((hist_data ?h)[i := ?e]) ((i + 1) mod 15) 15 ! k = (tl (ring_slice (hist_data ?h) i 15) @ [?e]) ! k"
    proof (cases "k = 14")
      case True
      have "((i + 1) mod 15 + 14) mod 15 = (i + 15) mod 15"
        by (simp add: mod_simps)
      then have "((i + 1) mod 15 + 14) mod 15 = i" using w(2) by simp
      then show ?thesis using True w by (simp add: nth_append)
    next
      case False
      have e: "((i + 1) mod 15 + k) mod 15 = (i + Suc k) mod 15"
        by (simp add: mod_simps)
      have "(i + Suc k) mod 15 \<noteq> i"
        using k False w(2) by (cases "i + Suc k < 15") (auto simp: le_mod_geq)
      then show ?thesis
        using k False w e by (simp add: nth_append nth_tl)
    qed
  qed simp
  show "history_ordered (wlan_sm_save_history tr a b ev sm) = tl (history_ordered sm) @ [?e]"
    using new by (simp add: history_ordered_slice [OF wf] history_ordered_slice [OF assms] save idx flip: i_def)
qed

fun save_all :: "(wlan_sm_trace_type \<times> u8 \<times> u8 \<times> u16) list \<Rightarrow> 'c wlan_sm \<Rightarrow> 'c wlan_sm" where
  "save_all [] sm = sm"
| "save_all ((tr, a, b, ev) # es) sm = save_all es (wlan_sm_save_history tr a b ev sm)"

lemma save_env [simp]:
  "sm_clock (wlan_sm_save_history tr a b ev sm) = sm_clock sm"
  "sm_comm (wlan_sm_save_history tr a b ev sm) = sm_comm sm"
  by (simp_all add: wlan_sm_save_history_def Let_def)

lemma history_entry_save: "history_entry (wlan_sm_save_history tr a b ev sm) = history_entry sm"
  by (rule ext) (simp add: history_entry_def split: prod.split)

lemma save_all_ordered:
  "history_wf sm \<Longrightarrow> history_wf (save_all es sm)
     \<and> history_ordered (save_all es sm) = drop (length es) (history_ordered sm @ map (history_entry sm) es)"
proof (induction es sm rule: save_all.induct)
  case (1 sm)
  then show ?case by simp
next
  case (2 tr a b ev es sm)
  have "length (history_ordered sm) = 15"
    by (simp add: history_ordered_def history_slots_def WLAN_SM_ENGINE_HISTORY_SIZE_def)
  then have "history_ordered sm \<noteq> []" by auto
  then show ?case
    using "2.IH" [OF history_save(1) [OF "2.prems"]] "2.prems"
    by (auto simp: history_save(2) history_entry_save drop_Suc simp del: drop_append)
qed

text \<open>
  C37: the history ring remembers the last fifteen events, oldest first in the order it is printed, with
  unused slots before them: the low byte of the event, the two states, and the first six characters of
  the task's name.
\<close>

theorem sm_history_keeps_last:
  "history_ordered (save_all es (wlan_sm_history_init sm))
   = drop (length es) (replicate 15 empty_entry @ map (history_entry sm) es)"
proof -
  have e: "history_entry (wlan_sm_history_init sm) = history_entry sm"
    by (rule ext) (simp add: history_entry_def wlan_sm_history_init_def split: prod.split)
  have "history_ordered (wlan_sm_history_init sm) = replicate 15 empty_entry"
    unfolding history_ordered_slice [OF history_wf_init]
    by (rule nth_equalityI) (simp_all add: wlan_sm_history_init_def WLAN_SM_ENGINE_HISTORY_SIZE_def)
  then show ?thesis
    using save_all_ordered [OF history_wf_init, of es sm] by (simp only: e)
qed

lemma history_slots_last:
  assumes "history_wf sm"
  shows "\<exists>i. (i, history_entry sm (tr, a, b, ev)) \<in> set (history_slots (wlan_sm_save_history tr a b ev sm))"
proof -
  have "history_entry sm (tr, a, b, ev) \<in> set (map snd (history_slots (wlan_sm_save_history tr a b ev sm)))"
    using history_save(2) [OF assms, of tr a b ev] by (simp add: history_ordered_def)
  then show ?thesis by fastforce
qed

lemma print_slots_fault:
  "(i, ent) \<in> set slots \<Longrightarrow> info_at tbl (final_state ent) = None \<Longrightarrow> trace_type ent \<noteq> SM_TRACE_NONE \<Longrightarrow>
   print_slots tbl sm slots = Inl Table_Overrun"
proof (induction tbl sm slots rule: print_slots.induct)
  case (2 tbl sm j e slots)
  have f: "x = Table_Overrun" for x :: sm_fault by (cases x)
  show ?case
  proof (cases "wlan_sm_print_history_entry tbl sm e j")
    case (Inl x)
    then show ?thesis by (simp add: f)
  next
    case (Inr out)
    then have "(i, ent) \<noteq> (j, e)"
      using "2.prems"(2,3) by (auto simp: wlan_sm_print_history_entry_def)
    then have "print_slots tbl sm slots = Inl Table_Overrun"
      using "2.IH" [OF Inr _ "2.prems"(2,3)] "2.prems"(1) by auto
    then show ?thesis using Inr by simp
  qed
qed simp

text \<open>
  the history takes note of a transition before its target is checked. Once a transition to a state
  outside the table has been asked for (and refused), printing the history looks the name of that
  state up outside the table.
\<close>

theorem sm_history_print_overruns:
  assumes "history_wf sm" "\<not> valid_target sm bad" "\<not> in_state_transition sm" "length tbl \<le> unat bad"
  shows "\<exists>sm'. wlan_sm_transition_to tbl bad sm = Some (Inr sm') \<and> wlan_sm_print_history tbl sm' = Inl Table_Overrun"
proof -
  let ?start = "sm\<lparr>in_state_transition := True\<rparr>"
  let ?saved = "wlan_sm_save_history SM_EVENT_STATE_TRANSITION (cur_state sm) bad 0xFF ?start"
  have t: "wlan_sm_transition_to tbl bad sm = Some (Inr ?saved)"
    using assms(2,3) by (simp add: wlan_sm_transition_to_def valid_target_def Let_def)
  have wf: "history_wf ?start" using assms(1) by (simp add: history_wf_def)
  obtain i where "(i, history_entry ?start (SM_EVENT_STATE_TRANSITION, cur_state sm, bad, 0xFF)) \<in> set (history_slots ?saved)"
    using history_slots_last [OF wf] by blast
  then have "print_slots tbl ?saved (history_slots ?saved) = Inl Table_Overrun"
    by (rule print_slots_fault) (use assms(4) in \<open>simp_all add: history_entry_def info_at_def\<close>)
  with t show ?thesis by (simp add: wlan_sm_print_history_def)
qed

theorem sm_history_print_overruns_witness:
  "\<exists>sm'. wlan_sm_transition_to demo_table 77 demo_sm = Some (Inr sm') \<and> wlan_sm_print_history demo_table sm' = Inl Table_Overrun"
  by (rule sm_history_print_overruns)
    (simp_all add: history_wf_def demo_sm_def valid_target_def demo_table_def)

section \<open>Dispatch\<close>

text \<open>
  an event is given to the routine of the current state and of no other one, after it has been
  recorded; the status says whether the routine handled it. The null event is refused and changes
  nothing.
\<close>

theorem sm_dispatch_to_current_state:
  assumes "info_at tbl (cur_state sm) = Some info" "cur_state sm \<noteq> WLAN_SM_ENGINE_STATE_NONE"
    and "parent_state info \<noteq> WLAN_SM_ENGINE_STATE_NONE \<longrightarrow> info_at tbl (parent_state info) \<noteq> None"
    and "wlan_sm_event info ev len data
           (wlan_sm_save_history SM_EVENT_MSG_PROCESSING (cur_state sm) (cur_state sm) ev (sm\<lparr>last_event := ucast ev\<rparr>))
         = Some (Inr (sm', handled))"
    and "info_at tbl (cur_state sm') \<noteq> None"
  shows "wlan_sm_dispatch tbl ev len data sm =
     Some (Inr (if ev = WLAN_SM_ENGINE_EVENT_NONE then (sm, QDF_STATUS_E_FAILURE)
                else (sm', if handled then QDF_STATUS_SUCCESS else QDF_STATUS_E_INVAL)))"
proof -
  have "log_names_ok tbl (if parent_state info \<noteq> WLAN_SM_ENGINE_STATE_NONE
      then (parent_state info, cur_state sm) else (cur_state sm, 0))"
    using assms(1,3) by (auto simp: log_names_ok_def)
  then show ?thesis
    using assms unfolding wlan_sm_dispatch_def wlan_sm_get_state_substate_info_def Let_def by auto
qed

theorem sm_dispatch_to_current_state_witness:
  "\<exists>sm'. wlan_sm_dispatch demo_table 7 0 () demo_sm = Some (Inr (sm', QDF_STATUS_E_INVAL)) \<and> last_event sm' = 7"
proof -
  let ?sm = "wlan_sm_save_history SM_EVENT_MSG_PROCESSING 1 1 7 (demo_sm\<lparr>last_event := 7\<rparr>)"
  have "wlan_sm_dispatch demo_table 7 0 () demo_sm =
     Some (Inr (if (7 :: u16) = WLAN_SM_ENGINE_EVENT_NONE then (demo_sm, QDF_STATUS_E_FAILURE)
                else (?sm, if False then QDF_STATUS_SUCCESS else QDF_STATUS_E_INVAL)))"
  proof (rule sm_dispatch_to_current_state)
    show "info_at demo_table (cur_state demo_sm) = Some (demo_state 1 0 255 False)"
      using demo_info by (simp add: demo_sm_def)
    show "wlan_sm_event (demo_state 1 0 255 False) 7 0 () (wlan_sm_save_history SM_EVENT_MSG_PROCESSING
        (cur_state demo_sm) (cur_state demo_sm) 7 (demo_sm\<lparr>last_event := ucast (7 :: u16)\<rparr>)) = Some (Inr (?sm, False))"
      by (simp add: demo_state_def demo_sm_def)
  qed (use demo_info in \<open>simp_all add: demo_sm_def WLAN_SM_ENGINE_STATE_NONE_def\<close>)
  then show ?thesis by (simp add: WLAN_SM_ENGINE_EVENT_NONE_def)
qed

end
