(* ===== verification/Crm_Handles.thy ===== *)
theory Crm_Handles
  imports Kernel_Prelude
begin

text \<open>
  The handle table of the camera request manager, after \<open>cam_req_mgr_util.c\<close>: sessions, devices and
  links are known to user space by 32 bit handles made of a slot index, a type and a random byte.

  Every function but the first check of \<open>cam_req_mgr_util_init\<close> runs under \<open>hdl_tbl_lock\<close> from beginning
  to end, so each is one step on the table (\<open>None\<close> while there is no table). The random byte is an
  argument; pointers to private data and operations are values of parameter types, \<open>None\<close> for NULL.
\<close>

section \<open>Handles\<close>

definition CAM_REQ_MGR_MAX_HANDLES_V2 :: nat where "CAM_REQ_MGR_MAX_HANDLES_V2 = 256"
definition CAM_REQ_MGR_HDL_IDX_POS :: nat where "CAM_REQ_MGR_HDL_IDX_POS = 8"
definition CAM_REQ_MGR_HDL_IDX_MASK :: u32 where
  "CAM_REQ_MGR_HDL_IDX_MASK = push_bit CAM_REQ_MGR_HDL_IDX_POS 1 - 1"
definition CAM_REQ_MGR_HDL_TYPE_MASK :: u32 where "CAM_REQ_MGR_HDL_TYPE_MASK = push_bit 4 1 - 1"
definition CAM_CRM :: u64 where "CAM_CRM = push_bit 4 1"

datatype hdl_type = HDL_TYPE_DEV | HDL_TYPE_SESSION | HDL_TYPE_LINK

primrec hdl_type_val :: "hdl_type \<Rightarrow> u32" where
  "hdl_type_val HDL_TYPE_DEV = 1"
| "hdl_type_val HDL_TYPE_SESSION = 2"
| "hdl_type_val HDL_TYPE_LINK = 3"

datatype hdl_state = HDL_FREE | HDL_ACTIVE

definition GET_DEV_HANDLE :: "u32 \<Rightarrow> hdl_type \<Rightarrow> nat \<Rightarrow> u32" where
  "GET_DEV_HANDLE rnd1 type idx =
     push_bit (24 - 8) rnd1 OR push_bit (16 - 4) 0 OR push_bit (12 - 4) (hdl_type_val type) OR push_bit (8 - 8) (of_nat idx)"

definition CAM_REQ_MGR_GET_HDL_IDX :: "u32 \<Rightarrow> nat" where
  "CAM_REQ_MGR_GET_HDL_IDX hdl = unat (hdl AND CAM_REQ_MGR_HDL_IDX_MASK)"

definition CAM_REQ_MGR_GET_HDL_TYPE :: "u32 \<Rightarrow> u32" where
  "CAM_REQ_MGR_GET_HDL_TYPE hdl = drop_bit CAM_REQ_MGR_HDL_IDX_POS hdl AND CAM_REQ_MGR_HDL_TYPE_MASK"

record ('p, 'o) handle =
  session_hdl :: s32
  hdl_value :: u32
  hdl_kind :: hdl_type
  hdl_state :: hdl_state
  dev_id :: u64
  hdl_ops :: "'o option"
  hdl_priv :: "'p option"

record ('p, 'o) cam_req_mgr_util_hdl_tbl =
  hdl :: "nat \<Rightarrow> ('p, 'o) handle"
  bitmap :: "nat \<Rightarrow> bool"
  bits :: nat

text \<open>What a caller gives to create a device or link handle.\<close>

record ('p, 'o) cam_create_dev_hdl =
  req_session_hdl :: s32
  req_dev_id :: u64
  req_ops :: "'o option"
  req_priv :: "'p option"

section \<open>The table itself\<close>

definition empty_handle :: "('p, 'o) handle" where
  "empty_handle = \<lparr>session_hdl = 0, hdl_value = 0, hdl_kind = HDL_TYPE_DEV, hdl_state = HDL_FREE, dev_id = 0,
                   hdl_ops = None, hdl_priv = None\<rparr>"

definition empty_hdl_tbl :: "('p, 'o) cam_req_mgr_util_hdl_tbl" where
  "empty_hdl_tbl = \<lparr>hdl = (\<lambda>_. empty_handle), bitmap = (\<lambda>_. False),
                    bits = ((CAM_REQ_MGR_MAX_HANDLES_V2 + 63) div 64) * 8 * 8\<rparr>"

text \<open>
  \<open>tbl\<close> is the table when the function looks first, \<open>tbl'\<close> when it has the lock: it may have been
  installed in between. The result is the return code and the table afterwards.
\<close>

definition cam_req_mgr_util_init ::
    "bool \<Rightarrow> bool \<Rightarrow> ('p, 'o) cam_req_mgr_util_hdl_tbl option \<Rightarrow> ('p, 'o) cam_req_mgr_util_hdl_tbl option
     \<Rightarrow> (errno + unit) \<times> ('p, 'o) cam_req_mgr_util_hdl_tbl option" where
  "cam_req_mgr_util_init tbl_alloc_ok bitmap_alloc_ok tbl tbl' =
     (if tbl \<noteq> None then (Inl EINVAL, tbl')
      else if \<not> tbl_alloc_ok then (Inl ENOMEM, tbl')
      else if \<not> bitmap_alloc_ok then (Inl ENOMEM, None)
      else if tbl' \<noteq> None then (Inl EEXIST, tbl')
      else (Inr (), Some empty_hdl_tbl))"

definition cam_req_mgr_util_deinit ::
    "('p, 'o) cam_req_mgr_util_hdl_tbl option \<Rightarrow> (errno + unit) \<times> ('p, 'o) cam_req_mgr_util_hdl_tbl option" where
  "cam_req_mgr_util_deinit tbl = (case tbl of None \<Rightarrow> (Inl EINVAL, None) | Some _ \<Rightarrow> (Inr (), None))"

definition cam_handle_validate :: "s32 \<Rightarrow> u32 \<Rightarrow> ('p, 'o) cam_req_mgr_util_hdl_tbl option \<Rightarrow> errno + unit" where
  "cam_handle_validate session h tbl =
     (case tbl of None \<Rightarrow> Inl EINVAL
      | Some t \<Rightarrow>
         (let idx = CAM_REQ_MGR_GET_HDL_IDX h in
          if CAM_REQ_MGR_MAX_HANDLES_V2 \<le> idx then Inl EINVAL
          else if hdl_state (hdl t idx) \<noteq> HDL_ACTIVE then Inl EINVAL
          else if session_hdl (hdl t idx) \<noteq> session \<or> hdl_value (hdl t idx) \<noteq> h then Inl EINVAL
          else Inr ()))"

text \<open>The loop of \<open>cam_req_mgr_util_free_hdls\<close>, then the whole bitmap is cleared.\<close>

definition free_slot :: "nat \<Rightarrow> ('p, 'o) cam_req_mgr_util_hdl_tbl \<Rightarrow> ('p, 'o) cam_req_mgr_util_hdl_tbl" where
  "free_slot i t =
     (if hdl_state (hdl t i) = HDL_ACTIVE
      then t\<lparr>hdl := (hdl t)(i := (hdl t i)\<lparr>hdl_state := HDL_FREE\<rparr>), bitmap := (bitmap t)(i := False)\<rparr> else t)"

definition cam_req_mgr_util_free_hdls ::
    "('p, 'o) cam_req_mgr_util_hdl_tbl option \<Rightarrow> (errno + unit) \<times> ('p, 'o) cam_req_mgr_util_hdl_tbl option" where
  "cam_req_mgr_util_free_hdls tbl =
     (case tbl of None \<Rightarrow> (Inl EINVAL, None)
      | Some t \<Rightarrow>
         (let t = fold free_slot [0..<CAM_REQ_MGR_MAX_HANDLES_V2] t in
          (Inr (), Some (t\<lparr>bitmap := (\<lambda>i. if i < CAM_REQ_MGR_MAX_HANDLES_V2 then False else bitmap t i)\<rparr>))))"

definition cam_get_free_handle_index ::
    "('p, 'o) cam_req_mgr_util_hdl_tbl \<Rightarrow> (nat \<times> ('p, 'o) cam_req_mgr_util_hdl_tbl) option" where
  "cam_get_free_handle_index t =
     (let idx = find_first_zero_bit (bitmap t) (bits t) in
      if CAM_REQ_MGR_MAX_HANDLES_V2 \<le> idx then None
      else Some (idx, t\<lparr>bitmap := (bitmap t)(idx := True)\<rparr>))"

section \<open>Creating, looking up and destroying\<close>

definition cam_create_session_hdl ::
    "u8 \<Rightarrow> 'p option \<Rightarrow> ('p, 'o) cam_req_mgr_util_hdl_tbl option
     \<Rightarrow> (errno + u32) \<times> ('p, 'o) cam_req_mgr_util_hdl_tbl option" where
  "cam_create_session_hdl rnd p tbl =
     (case tbl of None \<Rightarrow> (Inl EINVAL, None)
      | Some t \<Rightarrow>
         (case cam_get_free_handle_index t of
            None \<Rightarrow> (Inl ENOSR, Some t)
          | Some (idx, t) \<Rightarrow>
             (let h = GET_DEV_HANDLE (ucast rnd) HDL_TYPE_SESSION idx in
              (Inr h, Some (t\<lparr>hdl := (hdl t)(idx :=
                 \<lparr>session_hdl = h, hdl_value = h, hdl_kind = HDL_TYPE_SESSION, hdl_state = HDL_ACTIVE,
                  dev_id = CAM_CRM, hdl_ops = None, hdl_priv = p\<rparr>)\<rparr>)))))"

definition cam_create_device_hdl ::
    "bool \<Rightarrow> u8 \<Rightarrow> ('p, 'o) cam_create_dev_hdl \<Rightarrow> ('p, 'o) cam_req_mgr_util_hdl_tbl option
     \<Rightarrow> (errno + u32) \<times> ('p, 'o) cam_req_mgr_util_hdl_tbl option" where
  "cam_create_device_hdl crm_active rnd d tbl =
     (if \<not> crm_active then (Inl EINVAL, tbl)
      else case tbl of None \<Rightarrow> (Inl EINVAL, None)
      | Some t \<Rightarrow>
         (case cam_get_free_handle_index t of
            None \<Rightarrow> (Inl ENOSR, Some t)
          | Some (idx, t) \<Rightarrow>
             (let h = GET_DEV_HANDLE (ucast rnd) HDL_TYPE_DEV idx in
              (Inr h, Some (t\<lparr>hdl := (hdl t)(idx :=
                 \<lparr>session_hdl = req_session_hdl d, hdl_value = h, hdl_kind = HDL_TYPE_DEV, hdl_state = HDL_ACTIVE,
                  dev_id = req_dev_id d, hdl_ops = req_ops d, hdl_priv = req_priv d\<rparr>)\<rparr>)))))"

definition cam_create_link_hdl ::
    "u8 \<Rightarrow> ('p, 'o) cam_create_dev_hdl \<Rightarrow> ('p, 'o) cam_req_mgr_util_hdl_tbl option
     \<Rightarrow> (errno + u32) \<times> ('p, 'o) cam_req_mgr_util_hdl_tbl option" where
  "cam_create_link_hdl rnd d tbl =
     (case tbl of None \<Rightarrow> (Inl EINVAL, None)
      | Some t \<Rightarrow>
         (case cam_get_free_handle_index t of
            None \<Rightarrow> (Inl ENOSR, Some t)
          | Some (idx, t) \<Rightarrow>
             (let h = GET_DEV_HANDLE (ucast rnd) HDL_TYPE_LINK idx in
              (Inr h, Some (t\<lparr>hdl := (hdl t)(idx :=
                 \<lparr>session_hdl = req_session_hdl d, hdl_value = h, hdl_kind = HDL_TYPE_LINK, hdl_state = HDL_ACTIVE,
                  dev_id = req_dev_id d, hdl_ops = None, hdl_priv = req_priv d\<rparr>)\<rparr>)))))"

definition cam_get_priv :: "u32 \<Rightarrow> hdl_type \<Rightarrow> ('p, 'o) cam_req_mgr_util_hdl_tbl option \<Rightarrow> 'p option" where
  "cam_get_priv dev_hdl handle_type tbl =
     (case tbl of None \<Rightarrow> None
      | Some t \<Rightarrow>
         (let idx = CAM_REQ_MGR_GET_HDL_IDX dev_hdl in
          if CAM_REQ_MGR_MAX_HANDLES_V2 \<le> idx then None
          else if hdl_value (hdl t idx) \<noteq> dev_hdl then None
          else if hdl_state (hdl t idx) \<noteq> HDL_ACTIVE then None
          else if CAM_REQ_MGR_GET_HDL_TYPE dev_hdl \<noteq> hdl_type_val handle_type then None
          else hdl_priv (hdl t idx)))"

definition cam_get_device_priv :: "u32 \<Rightarrow> ('p, 'o) cam_req_mgr_util_hdl_tbl option \<Rightarrow> 'p option" where
  "cam_get_device_priv dev_hdl = cam_get_priv dev_hdl HDL_TYPE_DEV"

definition cam_get_session_priv :: "u32 \<Rightarrow> ('p, 'o) cam_req_mgr_util_hdl_tbl option \<Rightarrow> 'p option" where
  "cam_get_session_priv dev_hdl = cam_get_priv dev_hdl HDL_TYPE_SESSION"

definition cam_get_link_priv :: "u32 \<Rightarrow> ('p, 'o) cam_req_mgr_util_hdl_tbl option \<Rightarrow> 'p option" where
  "cam_get_link_priv dev_hdl = cam_get_priv dev_hdl HDL_TYPE_LINK"

definition cam_get_device_ops :: "u32 \<Rightarrow> ('p, 'o) cam_req_mgr_util_hdl_tbl option \<Rightarrow> 'o option" where
  "cam_get_device_ops dev_hdl tbl =
     (case tbl of None \<Rightarrow> None
      | Some t \<Rightarrow>
         (let idx = CAM_REQ_MGR_GET_HDL_IDX dev_hdl; type = CAM_REQ_MGR_GET_HDL_TYPE dev_hdl in
          if CAM_REQ_MGR_MAX_HANDLES_V2 \<le> idx then None
          else if hdl_state (hdl t idx) \<noteq> HDL_ACTIVE then None
          else if hdl_type_val HDL_TYPE_DEV \<noteq> type \<and> hdl_type_val HDL_TYPE_SESSION \<noteq> type
                  \<and> hdl_type_val HDL_TYPE_LINK \<noteq> type then None
          else if hdl_value (hdl t idx) \<noteq> dev_hdl then None
          else hdl_ops (hdl t idx)))"

definition cam_destroy_hdl ::
    "u32 \<Rightarrow> hdl_type \<Rightarrow> ('p, 'o) cam_req_mgr_util_hdl_tbl option
     \<Rightarrow> (errno + unit) \<times> ('p, 'o) cam_req_mgr_util_hdl_tbl option" where
  "cam_destroy_hdl dev_hdl dev_hdl_type tbl =
     (case tbl of None \<Rightarrow> (Inl EINVAL, None)
      | Some t \<Rightarrow>
         (let idx = CAM_REQ_MGR_GET_HDL_IDX dev_hdl in
          if CAM_REQ_MGR_MAX_HANDLES_V2 \<le> idx then (Inl EINVAL, Some t)
          else if hdl_state (hdl t idx) \<noteq> HDL_ACTIVE then (Inl EINVAL, Some t)
          else if CAM_REQ_MGR_GET_HDL_TYPE dev_hdl \<noteq> hdl_type_val dev_hdl_type then (Inl EINVAL, Some t)
          else if hdl_value (hdl t idx) \<noteq> dev_hdl then (Inl EINVAL, Some t)
          else (Inr (), Some (t\<lparr>hdl := (hdl t)(idx := (hdl t idx)\<lparr>hdl_state := HDL_FREE, hdl_ops := None, hdl_priv := None\<rparr>),
                                bitmap := (bitmap t)(idx := False)\<rparr>))))"

definition cam_destroy_device_hdl where "cam_destroy_device_hdl dev_hdl = cam_destroy_hdl dev_hdl HDL_TYPE_DEV"
definition cam_destroy_link_hdl where "cam_destroy_link_hdl dev_hdl = cam_destroy_hdl dev_hdl HDL_TYPE_LINK"
definition cam_destroy_session_hdl where "cam_destroy_session_hdl dev_hdl = cam_destroy_hdl dev_hdl HDL_TYPE_SESSION"

end
