(* ===== verification/Slot_Spec.thy ===== *)
theory Slot_Spec
  imports Kernel_Prelude
begin

text \<open>
  The interface of a table with a fixed number of slots, handed out by a bitmap: \<open>used s i\<close> says that
  slot \<open>i\<close> is taken, \<open>alloc\<close> takes a free one and fails only when there is none, \<open>free\<close> gives one back.
  What a client gets from the laws: in any sequence of operations no slot is handed out while it is
  taken, and a request is refused only when all slots are taken.
\<close>

datatype slot_op = Take | Give nat

fun slot_run ::
    "('s \<Rightarrow> (nat \<times> 's) option) \<Rightarrow> (nat \<Rightarrow> 's \<Rightarrow> 's) \<Rightarrow> 's \<Rightarrow> slot_op list \<Rightarrow> 's \<times> nat option list" where
  "slot_run alloc free s [] = (s, [])"
| "slot_run alloc free s (Take # ops) =
     (case alloc s of
        None \<Rightarrow> (let (s'', rs) = slot_run alloc free s ops in (s'', None # rs))
      | Some (i, s') \<Rightarrow> (let (s'', rs) = slot_run alloc free s' ops in (s'', Some i # rs)))"
| "slot_run alloc free s (Give i # ops) =
     (let (s'', rs) = slot_run alloc free (free i s) ops in (s'', None # rs))"

text \<open>The answers are right for a table in which the slots of \<open>held\<close> are taken.\<close>

fun slots_right :: "nat \<Rightarrow> nat set \<Rightarrow> slot_op list \<Rightarrow> nat option list \<Rightarrow> bool" where
  "slots_right cap held [] rs = (rs = [])"
| "slots_right cap held (Take # ops) (None # rs) = ({..<cap} \<subseteq> held \<and> slots_right cap held ops rs)"
| "slots_right cap held (Take # ops) (Some i # rs) =
     (i < cap \<and> i \<notin> held \<and> slots_right cap (insert i held) ops rs)"
| "slots_right cap held (Give i # ops) (r # rs) = slots_right cap (held - {i}) ops rs"
| "slots_right cap held (op # ops) [] = False"

locale slot_table =
  fixes inv :: "'s \<Rightarrow> bool"
    and used :: "'s \<Rightarrow> nat \<Rightarrow> bool"
    and cap :: nat
    and alloc :: "'s \<Rightarrow> (nat \<times> 's) option"
    and free :: "nat \<Rightarrow> 's \<Rightarrow> 's"
  assumes alloc_Some: "inv s \<Longrightarrow> alloc s = Some (i, s') \<Longrightarrow>
        inv s' \<and> i < cap \<and> \<not> used s i \<and> (\<forall>j < cap. used s' j \<longleftrightarrow> j = i \<or> used s j)"
    and alloc_None: "inv s \<Longrightarrow> alloc s = None \<longleftrightarrow> (\<forall>i < cap. used s i)"
    and free_law: "inv s \<Longrightarrow> i < cap \<Longrightarrow>
        inv (free i s) \<and> (\<forall>j < cap. used (free i s) j \<longleftrightarrow> j \<noteq> i \<and> used s j)"
begin

definition held :: "'s \<Rightarrow> nat set" where
  "held s = {i. i < cap \<and> used s i}"

lemma held_alloc: "inv s \<Longrightarrow> alloc s = Some (i, s') \<Longrightarrow> held s' = insert i (held s)"
  using alloc_Some [of s i s'] by (auto simp: held_def)

lemma held_free: "inv s \<Longrightarrow> i < cap \<Longrightarrow> held (free i s) = held s - {i}"
  using free_law [of s i] by (auto simp: held_def)

lemma alloc_iff_card: "inv s \<Longrightarrow> alloc s \<noteq> None \<longleftrightarrow> card (held s) < cap"
proof -
  assume inv: "inv s"
  have sub: "held s \<subseteq> {..<cap}" by (auto simp: held_def)
  have "card (held s) < cap \<longleftrightarrow> held s \<noteq> {..<cap}"
  proof
    assume "held s \<noteq> {..<cap}"
    then have "held s \<subset> {..<cap}" using sub by blast
    then show "card (held s) < cap" using psubset_card_mono [of "{..<cap}" "held s"] by simp
  next
    assume "card (held s) < cap"
    then show "held s \<noteq> {..<cap}" by (metis card_lessThan less_irrefl)
  qed
  then show ?thesis
    using alloc_None [OF inv] sub by (auto simp: held_def)
qed

lemma run_right:
  assumes "inv s" "\<forall>i. Give i \<in> set ops \<longrightarrow> i < cap" "slot_run alloc free s ops = (s', rs)"
  shows "inv s' \<and> slots_right cap (held s) ops rs"
  using assms
proof (induction ops arbitrary: s rs)
  case Nil
  then show ?case by simp
next
  case (Cons a ops)
  show ?case
  proof (cases a)
    case Take
    show ?thesis
    proof (cases "alloc s")
      case None
      then have "{..<cap} \<subseteq> held s" using alloc_None Cons.prems(1) by (auto simp: held_def)
      then show ?thesis using Cons Take None by (auto split: prod.splits)
    next
      case (Some r)
      obtain i s1 where r: "r = (i, s1)" by (cases r)
      note l = alloc_Some [OF Cons.prems(1) Some [unfolded r]]
      obtain rs1 where rs: "rs = Some i # rs1" "slot_run alloc free s1 ops = (s', rs1)"
        using Cons.prems(3) Take Some r by (auto split: prod.splits)
      have "inv s' \<and> slots_right cap (held s1) ops rs1"
        using Cons.IH [OF _ _ rs(2)] l Cons.prems(2) by simp
      then show ?thesis
        using Take rs(1) l held_alloc [OF Cons.prems(1) Some [unfolded r]] by (auto simp: held_def)
    qed
  next
    case (Give i)
    have i: "i < cap" using Cons.prems(2) Give by simp
    then show ?thesis
      using Cons.IH [of "free i s"] Cons.prems Give held_free [OF Cons.prems(1) i] free_law [OF Cons.prems(1) i]
      by (auto split: prod.splits)
  qed
qed

end

end
