(* ===== verification/Crm_Handles_Correct.thy ===== *)
theory Crm_Handles_Correct
  imports Crm_Handles Slot_Spec
begin

text \<open>
  Correctness of the handle table: the bit layout of handles, the slot bitmap as a \<open>slot_table\<close>, the
  invariant of every reachable table, and what creation, lookup and destruction mean for each other.
\<close>

section \<open>The layout of a handle\<close>

lemma idx_mask_eq: "CAM_REQ_MGR_HDL_IDX_MASK = mask 8"
  by (simp add: CAM_REQ_MGR_HDL_IDX_MASK_def CAM_REQ_MGR_HDL_IDX_POS_def mask_eq_exp_minus_1)

lemma type_mask_eq: "CAM_REQ_MGR_HDL_TYPE_MASK = mask 4"
  by (simp add: CAM_REQ_MGR_HDL_TYPE_MASK_def mask_eq_exp_minus_1)

lemma take_bit_idx: "idx < 256 \<Longrightarrow> take_bit 8 (of_nat idx :: u32) = of_nat idx"
  by (simp add: take_bit_eq_mod word_unat_eq_iff unat_mod unat_of_nat)

lemma drop_bit_idx: "idx < 256 \<Longrightarrow> drop_bit 8 (of_nat idx :: u32) = 0"
  by (simp add: drop_bit_eq_div word_unat_eq_iff unat_div unat_of_nat)

lemma handle_idx [simp]:
  assumes "idx < CAM_REQ_MGR_MAX_HANDLES_V2"
  shows "CAM_REQ_MGR_GET_HDL_IDX (GET_DEV_HANDLE rnd ty idx) = idx"
  using assms
  by (simp add: CAM_REQ_MGR_GET_HDL_IDX_def GET_DEV_HANDLE_def idx_mask_eq CAM_REQ_MGR_MAX_HANDLES_V2_def
      flip: take_bit_eq_mask) (simp add: take_bit_push_bit take_bit_idx unat_of_nat)

lemma handle_type [simp]:
  assumes "idx < CAM_REQ_MGR_MAX_HANDLES_V2"
  shows "CAM_REQ_MGR_GET_HDL_TYPE (GET_DEV_HANDLE rnd ty idx) = hdl_type_val ty"
proof -
  have "take_bit 4 (drop_bit 8 (push_bit 16 rnd :: u32)) = 0"
    by (rule bit_word_eqI) (simp add: bit_take_bit_iff bit_drop_bit_eq bit_push_bit_iff)
  moreover have "take_bit 4 (drop_bit 8 (push_bit 8 (hdl_type_val ty))) = hdl_type_val ty"
    by (cases ty) simp_all
  ultimately show ?thesis
    using assms
    by (simp add: CAM_REQ_MGR_GET_HDL_TYPE_def GET_DEV_HANDLE_def type_mask_eq CAM_REQ_MGR_HDL_IDX_POS_def
        CAM_REQ_MGR_MAX_HANDLES_V2_def drop_bit_idx flip: take_bit_eq_mask)
qed

text \<open>A handle never looks like an error number: its sign bit is clear.\<close>

lemma handle_below: "idx < CAM_REQ_MGR_MAX_HANDLES_V2 \<Longrightarrow> \<not> bit (GET_DEV_HANDLE (ucast (r :: u8)) ty idx) 31"
proof -
  assume "idx < CAM_REQ_MGR_MAX_HANDLES_V2"
  then have "drop_bit 8 (of_nat idx :: u32) = 0"
    by (intro drop_bit_idx) (simp add: CAM_REQ_MGR_MAX_HANDLES_V2_def)
  then have "\<not> bit (drop_bit 8 (of_nat idx :: u32)) 23" by simp
  then have "\<not> bit (of_nat idx :: u32) 31" by (simp add: bit_drop_bit_eq)
  then show ?thesis
    by (cases ty) (auto simp: GET_DEV_HANDLE_def bit_or_iff bit_push_bit_iff bit_ucast_iff dest: bit_imp_le_length)
qed

section \<open>The invariant\<close>

definition hdl_inv :: "('p, 'o) cam_req_mgr_util_hdl_tbl \<Rightarrow> bool" where
  "hdl_inv t \<longleftrightarrow> bits t = CAM_REQ_MGR_MAX_HANDLES_V2 \<and>
     (\<forall>i < CAM_REQ_MGR_MAX_HANDLES_V2.
        (bitmap t i \<longleftrightarrow> hdl_state (hdl t i) = HDL_ACTIVE)
      \<and> (bitmap t i \<longrightarrow> CAM_REQ_MGR_GET_HDL_IDX (hdl_value (hdl t i)) = i
           \<and> CAM_REQ_MGR_GET_HDL_TYPE (hdl_value (hdl t i)) = hdl_type_val (hdl_kind (hdl t i))))"

definition tbl_inv :: "('p, 'o) cam_req_mgr_util_hdl_tbl option \<Rightarrow> bool" where
  "tbl_inv tbl \<longleftrightarrow> (case tbl of None \<Rightarrow> True | Some t \<Rightarrow> hdl_inv t)"

lemma tbl_inv_simps [simp]: "tbl_inv None" "tbl_inv (Some t) = hdl_inv t"
  by (simp_all add: tbl_inv_def)

lemma hdl_inv_empty [inv_intros]: "hdl_inv empty_hdl_tbl"
  by (simp add: hdl_inv_def empty_hdl_tbl_def empty_handle_def CAM_REQ_MGR_MAX_HANDLES_V2_def)

lemma free_index_Some:
  assumes "hdl_inv t" "cam_get_free_handle_index t = Some (i, t1)"
  shows "i < CAM_REQ_MGR_MAX_HANDLES_V2" "\<not> bitmap t i" "hdl_state (hdl t i) = HDL_FREE"
    "t1 = t\<lparr>bitmap := (bitmap t)(i := True)\<rparr>"
proof -
  have b: "bits t = CAM_REQ_MGR_MAX_HANDLES_V2" using assms(1) by (simp add: hdl_inv_def)
  have i: "i = find_first_zero_bit (bitmap t) (bits t)" "i < CAM_REQ_MGR_MAX_HANDLES_V2"
    "t1 = t\<lparr>bitmap := (bitmap t)(i := True)\<rparr>"
    using assms(2) by (auto simp: cam_get_free_handle_index_def Let_def split: if_splits)
  then show "i < CAM_REQ_MGR_MAX_HANDLES_V2" "t1 = t\<lparr>bitmap := (bitmap t)(i := True)\<rparr>" by simp_all
  show nb: "\<not> bitmap t i" using i b ffz_clear [of "bitmap t" "bits t"] by simp
  show "hdl_state (hdl t i) = HDL_FREE"
    using assms(1) nb i(2) by (cases "hdl_state (hdl t i)") (auto simp: hdl_inv_def)
qed

lemma free_index_None:
  assumes "hdl_inv t"
  shows "cam_get_free_handle_index t = None \<longleftrightarrow> (\<forall>i < CAM_REQ_MGR_MAX_HANDLES_V2. bitmap t i)"
proof -
  have b: "bits t = CAM_REQ_MGR_MAX_HANDLES_V2" using assms by (simp add: hdl_inv_def)
  have "find_first_zero_bit (bitmap t) (bits t) \<le> bits t" by (rule ffz_le)
  then have "CAM_REQ_MGR_MAX_HANDLES_V2 \<le> find_first_zero_bit (bitmap t) (bits t)
      \<longleftrightarrow> (\<forall>i < bits t. bitmap t i)"
    unfolding ffz_full_iff [symmetric] b by linarith
  then show ?thesis by (simp add: cam_get_free_handle_index_def Let_def b)
qed

lemma fill_inv:
  assumes "hdl_inv t" "cam_get_free_handle_index t = Some (i, t1)"
    and "hdl_state h = HDL_ACTIVE" "hdl_value h = GET_DEV_HANDLE rnd (hdl_kind h) i"
  shows "hdl_inv (t1\<lparr>hdl := (hdl t1)(i := h)\<rparr>)"
  using assms free_index_Some [OF assms(1,2)] by (auto simp: hdl_inv_def)

lemma create_session_inv [inv_intros]: "tbl_inv tbl \<Longrightarrow> tbl_inv (snd (cam_create_session_hdl r p tbl))"
  by (cases tbl) (auto simp: cam_create_session_hdl_def Let_def split: option.split intro!: fill_inv)

lemma create_device_inv [inv_intros]: "tbl_inv tbl \<Longrightarrow> tbl_inv (snd (cam_create_device_hdl a r d tbl))"
  by (cases tbl) (auto simp: cam_create_device_hdl_def Let_def split: option.split intro!: fill_inv)

lemma create_link_inv [inv_intros]: "tbl_inv tbl \<Longrightarrow> tbl_inv (snd (cam_create_link_hdl r d tbl))"
  by (cases tbl) (auto simp: cam_create_link_hdl_def Let_def split: option.split intro!: fill_inv)

lemma destroy_inv [inv_intros]: "tbl_inv tbl \<Longrightarrow> tbl_inv (snd (cam_destroy_hdl h ty tbl))"
  by (cases tbl) (auto simp: cam_destroy_hdl_def Let_def hdl_inv_def)

lemma free_slot_inv [inv_intros]: "hdl_inv t \<Longrightarrow> i < CAM_REQ_MGR_MAX_HANDLES_V2 \<Longrightarrow> hdl_inv (free_slot i t)"
  by (auto simp: free_slot_def hdl_inv_def)

lemma free_slot_bits:
  "hdl_inv t \<Longrightarrow> i < CAM_REQ_MGR_MAX_HANDLES_V2 \<Longrightarrow> bitmap (free_slot i t) = (bitmap t)(i := False)"
  by (rule ext) (auto simp: free_slot_def hdl_inv_def)

lemma free_all_slots:
  "hdl_inv t \<Longrightarrow> \<forall>i \<in> set is. i < CAM_REQ_MGR_MAX_HANDLES_V2 \<Longrightarrow>
   hdl_inv (fold free_slot is t) \<and> (\<forall>i. bitmap (fold free_slot is t) i \<longleftrightarrow> bitmap t i \<and> i \<notin> set is)"
proof (induction "is" arbitrary: t)
  case (Cons i "is")
  then have "hdl_inv (free_slot i t)" by (simp add: free_slot_inv)
  with Cons show ?case by (auto simp: free_slot_bits)
qed simp

lemma free_hdls_eq:
  assumes "hdl_inv t"
  shows "\<exists>t'. cam_req_mgr_util_free_hdls (Some t) = (Inr (), Some t') \<and> hdl_inv t'
    \<and> (\<forall>i < CAM_REQ_MGR_MAX_HANDLES_V2. \<not> bitmap t' i)"
proof -
  let ?t = "fold free_slot [0..<CAM_REQ_MGR_MAX_HANDLES_V2] t"
  have "hdl_inv ?t" "\<forall>i < CAM_REQ_MGR_MAX_HANDLES_V2. \<not> bitmap ?t i"
    using free_all_slots [OF assms, of "[0..<CAM_REQ_MGR_MAX_HANDLES_V2]"] by auto
  then show ?thesis
    by (auto simp: cam_req_mgr_util_free_hdls_def hdl_inv_def Let_def)
qed

lemma free_hdls_inv [inv_intros]: "tbl_inv tbl \<Longrightarrow> tbl_inv (snd (cam_req_mgr_util_free_hdls tbl))"
  using free_hdls_eq by (cases tbl) (fastforce simp: cam_req_mgr_util_free_hdls_def)+

section \<open>The table as slots\<close>

definition session_alloc ::
    "u8 \<Rightarrow> 'p option \<Rightarrow> ('p, 'o) cam_req_mgr_util_hdl_tbl \<Rightarrow> (nat \<times> ('p, 'o) cam_req_mgr_util_hdl_tbl) option" where
  "session_alloc r p t = (case cam_create_session_hdl r p (Some t) of
     (Inr h, Some t') \<Rightarrow> Some (CAM_REQ_MGR_GET_HDL_IDX h, t') | _ \<Rightarrow> None)"

lemma session_alloc_eq:
  "hdl_inv t \<Longrightarrow> session_alloc r p t = (case cam_get_free_handle_index t of None \<Rightarrow> None
     | Some (i, t1) \<Rightarrow> Some (i, the (snd (cam_create_session_hdl r p (Some t)))))"
  using free_index_Some [of t]
  by (auto simp: session_alloc_def cam_create_session_hdl_def Let_def split: option.split)

interpretation hs: slot_table hdl_inv bitmap CAM_REQ_MGR_MAX_HANDLES_V2 "session_alloc r p" free_slot
  for r p
proof unfold_locales
  fix t t' :: "('a, 'b) cam_req_mgr_util_hdl_tbl" and i
  assume t: "hdl_inv t" and a: "session_alloc r p t = Some (i, t')"
  obtain t1 where f: "cam_get_free_handle_index t = Some (i, t1)"
    and t': "t' = the (snd (cam_create_session_hdl r p (Some t)))"
    using a session_alloc_eq [OF t, of r p] by (auto split: option.splits)
  have "tbl_inv (snd (cam_create_session_hdl r p (Some t)))"
    using t by (intro create_session_inv) simp
  then have "hdl_inv t'" by (simp add: t' f cam_create_session_hdl_def Let_def)
  moreover have "bitmap t' = (bitmap t)(i := True)"
    using free_index_Some [OF t f] by (simp add: t' f cam_create_session_hdl_def Let_def)
  ultimately show "hdl_inv t' \<and> i < CAM_REQ_MGR_MAX_HANDLES_V2 \<and> \<not> bitmap t i
      \<and> (\<forall>j<CAM_REQ_MGR_MAX_HANDLES_V2. bitmap t' j \<longleftrightarrow> j = i \<or> bitmap t j)"
    using free_index_Some [OF t f] by auto
next
  fix t :: "('a, 'b) cam_req_mgr_util_hdl_tbl"
  assume t: "hdl_inv t"
  show "session_alloc r p t = None \<longleftrightarrow> (\<forall>i<CAM_REQ_MGR_MAX_HANDLES_V2. bitmap t i)"
    using session_alloc_eq [OF t, of r p] free_index_None [OF t] by (auto split: option.splits)
next
  fix t :: "('a, 'b) cam_req_mgr_util_hdl_tbl" and i
  assume "hdl_inv t" "i < CAM_REQ_MGR_MAX_HANDLES_V2"
  then show "hdl_inv (free_slot i t) \<and> (\<forall>j<CAM_REQ_MGR_MAX_HANDLES_V2. bitmap (free_slot i t) j \<longleftrightarrow> j \<noteq> i \<and> bitmap t j)"
    by (simp add: free_slot_inv free_slot_bits)
qed

section \<open>Every reachable table\<close>

datatype ('p, 'o) hdl_req =
  New_Session u8 "'p option" | New_Device bool u8 "('p, 'o) cam_create_dev_hdl"
| New_Link u8 "('p, 'o) cam_create_dev_hdl" | Destroy u32 hdl_type | Free_All | Util_Init bool bool | Util_Deinit

primrec hdl_step ::
    "('p, 'o) hdl_req \<Rightarrow> ('p, 'o) cam_req_mgr_util_hdl_tbl option \<Rightarrow> ('p, 'o) cam_req_mgr_util_hdl_tbl option" where
  "hdl_step (New_Session r p) tbl = snd (cam_create_session_hdl r p tbl)"
| "hdl_step (New_Device a r d) tbl = snd (cam_create_device_hdl a r d tbl)"
| "hdl_step (New_Link r d) tbl = snd (cam_create_link_hdl r d tbl)"
| "hdl_step (Destroy h ty) tbl = snd (cam_destroy_hdl h ty tbl)"
| "hdl_step Free_All tbl = snd (cam_req_mgr_util_free_hdls tbl)"
| "hdl_step (Util_Init a b) tbl = snd (cam_req_mgr_util_init a b tbl tbl)"
| "hdl_step Util_Deinit tbl = snd (cam_req_mgr_util_deinit tbl)"

lemma hdl_step_inv: "tbl_inv tbl \<Longrightarrow> tbl_inv (hdl_step req tbl)"
  by (cases req) (auto intro: inv_intros simp: cam_req_mgr_util_init_def cam_req_mgr_util_deinit_def
      hdl_inv_empty split: option.splits)

lemma run_inv: "tbl_inv tbl \<Longrightarrow> tbl_inv (fold hdl_step reqs tbl)"
  by (induction reqs arbitrary: tbl) (simp_all add: hdl_step_inv)

lemma reachable_inv: "tbl_inv (fold hdl_step reqs None)"
  by (rule run_inv) simp

text \<open>
  C12: whatever sequence of requests led to a table, a slot is marked in the bitmap exactly when it is
  active, an active handle decodes to its own slot and its own type, and two active slots never have
  the same handle.
\<close>

theorem crm_handles_consistent:
  assumes "fold hdl_step reqs None = Some t" "i < CAM_REQ_MGR_MAX_HANDLES_V2"
  shows "(bitmap t i \<longleftrightarrow> hdl_state (hdl t i) = HDL_ACTIVE)
    \<and> (hdl_state (hdl t i) = HDL_ACTIVE \<longrightarrow>
         CAM_REQ_MGR_GET_HDL_IDX (hdl_value (hdl t i)) = i
       \<and> CAM_REQ_MGR_GET_HDL_TYPE (hdl_value (hdl t i)) = hdl_type_val (hdl_kind (hdl t i))
       \<and> (\<forall>j < CAM_REQ_MGR_MAX_HANDLES_V2. hdl_state (hdl t j) = HDL_ACTIVE \<longrightarrow>
            hdl_value (hdl t j) = hdl_value (hdl t i) \<longrightarrow> j = i))"
proof -
  have "hdl_inv t" using reachable_inv [of reqs] assms(1) by simp
  then have "(bitmap t j \<longleftrightarrow> hdl_state (hdl t j) = HDL_ACTIVE)
      \<and> (bitmap t j \<longrightarrow> CAM_REQ_MGR_GET_HDL_IDX (hdl_value (hdl t j)) = j
         \<and> CAM_REQ_MGR_GET_HDL_TYPE (hdl_value (hdl t j)) = hdl_type_val (hdl_kind (hdl t j)))"
    if "j < CAM_REQ_MGR_MAX_HANDLES_V2" for j
    using that unfolding hdl_inv_def by blast
  then show ?thesis using assms(2) by metis
qed

lemma ffz_empty: "find_first_zero_bit (\<lambda>_. False) 256 = 0"
  by (simp add: find_first_zero_bit_def ffz_from.simps)

lemma empty_free_index:
  "cam_get_free_handle_index empty_hdl_tbl = Some (0, empty_hdl_tbl\<lparr>bitmap := (\<lambda>_. False)(0 := True)\<rparr>)"
  by (simp add: cam_get_free_handle_index_def empty_hdl_tbl_def CAM_REQ_MGR_MAX_HANDLES_V2_def ffz_empty Let_def)

theorem crm_handles_consistent_witness:
  "\<exists>t. fold hdl_step [Util_Init True True, New_Session 7 (Some ())] None = Some (t :: (unit, unit) cam_req_mgr_util_hdl_tbl)
     \<and> hdl_state (hdl t 0) = HDL_ACTIVE \<and> CAM_REQ_MGR_GET_HDL_IDX (hdl_value (hdl t 0)) = 0"
proof -
  obtain t :: "(unit, unit) cam_req_mgr_util_hdl_tbl" where
    t: "fold hdl_step [Util_Init True True, New_Session 7 (Some ())] None = Some t" and a: "hdl_state (hdl t 0) = HDL_ACTIVE"
    by (simp add: cam_req_mgr_util_init_def cam_create_session_hdl_def empty_free_index Let_def)
  from crm_handles_consistent [OF t, of 0] t a show ?thesis
    by (auto simp: CAM_REQ_MGR_MAX_HANDLES_V2_def)
qed

section \<open>Creation, lookup, destruction\<close>

text \<open>Two tables answer every question about a handle in the same way: private data, operations, validity.\<close>

definition same_answers ::
    "u32 \<Rightarrow> ('p, 'o) cam_req_mgr_util_hdl_tbl option \<Rightarrow> ('p, 'o) cam_req_mgr_util_hdl_tbl option \<Rightarrow> bool" where
  "same_answers h t t' \<longleftrightarrow> (\<forall>ty. cam_get_priv h ty t' = cam_get_priv h ty t) \<and> cam_get_device_ops h t' = cam_get_device_ops h t
     \<and> (\<forall>session. cam_handle_validate session h t' = cam_handle_validate session h t)"

text \<open>
  C20: A device handle, once created, looks up the caller's own private data and operations and validates against the caller's session and no
  other; as a session or link handle it has no private data. Once destroyed it has no private data of any type and no operations,
  validates against no session, and cannot be destroyed again. No other handle - of any value - has other private data, other operations or another
  validity than before the creation, neither after the creation nor after the destruction.
\<close>

theorem crm_device_handle_lifecycle:
  assumes "hdl_inv t" "cam_create_device_hdl a r d (Some t) = (Inr h, Some t')"
  shows "cam_get_device_priv h (Some t') = req_priv d \<and> cam_get_device_ops h (Some t') = req_ops d
    \<and> (\<forall>session. cam_handle_validate session h (Some t') = (if session = req_session_hdl d then Inr () else Inl EINVAL))
    \<and> cam_get_session_priv h (Some t') = None \<and> cam_get_link_priv h (Some t') = None
    \<and> (\<forall>h'. h' \<noteq> h \<longrightarrow> same_answers h' (Some t) (Some t'))
    \<and> (\<exists>t''. cam_destroy_device_hdl h (Some t') = (Inr (), Some t'')
         \<and> (\<forall>ty. cam_get_priv h ty (Some t'') = None) \<and> cam_get_device_ops h (Some t'') = None
         \<and> (\<forall>session. cam_handle_validate session h (Some t'') = Inl EINVAL)
         \<and> cam_destroy_device_hdl h (Some t'') = (Inl EINVAL, Some t'')
         \<and> (\<forall>h'. h' \<noteq> h \<longrightarrow> same_answers h' (Some t) (Some t'')))"
proof -
  obtain i t1 where f: "cam_get_free_handle_index t = Some (i, t1)" and h: "h = GET_DEV_HANDLE (ucast r) HDL_TYPE_DEV i"
    and t': "t' = t1\<lparr>hdl := (hdl t1)(i := \<lparr>session_hdl = req_session_hdl d, hdl_value = h, hdl_kind = HDL_TYPE_DEV,
       hdl_state = HDL_ACTIVE, dev_id = req_dev_id d, hdl_ops = req_ops d, hdl_priv = req_priv d\<rparr>)\<rparr>"
    using assms(2) by (auto simp: cam_create_device_hdl_def Let_def split: if_splits option.splits)
  note i = free_index_Some [OF assms(1) f]
  have dec: "CAM_REQ_MGR_GET_HDL_IDX h = i" "CAM_REQ_MGR_GET_HDL_TYPE h = 1" using i(1) by (simp_all add: h)
  show ?thesis
    using i dec
    by (auto simp: cam_get_device_priv_def cam_get_session_priv_def cam_get_link_priv_def cam_get_priv_def
        cam_get_device_ops_def cam_handle_validate_def cam_destroy_device_hdl_def cam_destroy_hdl_def Let_def same_answers_def t')
qed

definition demo_dev :: "(nat, nat) cam_create_dev_hdl" where
  "demo_dev = \<lparr>req_session_hdl = 0x50200, req_dev_id = 3, req_ops = Some 1, req_priv = Some 42\<rparr>"

theorem crm_device_handle_lifecycle_witness:
  "\<exists>h t'. cam_create_device_hdl True 7 demo_dev (Some empty_hdl_tbl) = (Inr h, Some t')
     \<and> cam_get_device_priv h (Some t') = Some 42
     \<and> (\<exists>t''. cam_destroy_device_hdl h (Some t') = (Inr (), Some t'') \<and> cam_get_device_ops h (Some t'') = None)"
proof -
  obtain h t' where c: "cam_create_device_hdl True 7 demo_dev (Some empty_hdl_tbl) = (Inr h, Some t')"
    by (simp add: cam_create_device_hdl_def empty_free_index Let_def)
  have "req_priv demo_dev = Some 42" by (simp add: demo_dev_def)
  with crm_device_handle_lifecycle [OF hdl_inv_empty c] c show ?thesis by auto
qed

text \<open>
  C36: a session can be created exactly while fewer than 256 handles are active; the new handle differs
  from every active one and is never negative, so it cannot be taken for an error number; when the
  table is full the answer is \<open>-ENOSR\<close> and the table is unchanged.
\<close>

theorem crm_create_session_outcome:
  assumes "hdl_inv t"
  defines "active \<equiv> {i. i < CAM_REQ_MGR_MAX_HANDLES_V2 \<and> hdl_state (hdl t i) = HDL_ACTIVE}"
  shows "(if card active < CAM_REQ_MGR_MAX_HANDLES_V2
      then (\<exists>h t'. cam_create_session_hdl r p (Some t) = (Inr h, Some t') \<and> \<not> bit h 31
              \<and> (\<forall>i \<in> active. hdl_value (hdl t i) \<noteq> h) \<and> cam_get_session_priv h (Some t') = p)
      else cam_create_session_hdl r p (Some t) = (Inl ENOSR, Some t))"
proof -
  have act: "active = hs.held t" using assms(1) by (auto simp: active_def hs.held_def hdl_inv_def)
  note iff = hs.alloc_iff_card [OF assms(1), of r p, folded act]
  show ?thesis
  proof (cases "cam_get_free_handle_index t")
    case None
    then have "\<not> card active < CAM_REQ_MGR_MAX_HANDLES_V2"
      using iff session_alloc_eq [OF assms(1), of r p] by simp
    then show ?thesis using None by (simp add: cam_create_session_hdl_def)
  next
    case (Some r1)
    obtain i t1 where r1: "r1 = (i, t1)" by (cases r1)
    note i = free_index_Some [OF assms(1) Some [unfolded r1]]
    have c: "card active < CAM_REQ_MGR_MAX_HANDLES_V2"
      using iff Some r1 session_alloc_eq [OF assms(1), of r p] by simp
    have new: "hdl_value (hdl t j) \<noteq> GET_DEV_HANDLE (ucast r) HDL_TYPE_SESSION i" if "j \<in> active" for j
    proof
      assume "hdl_value (hdl t j) = GET_DEV_HANDLE (ucast r) HDL_TYPE_SESSION i"
      moreover have "CAM_REQ_MGR_GET_HDL_IDX (hdl_value (hdl t j)) = j"
        using that assms(1) by (auto simp: active_def hdl_inv_def)
      ultimately have "j = i" using i(1) by simp
      then show False using that i(3) by (simp add: active_def)
    qed
    show ?thesis
      using c Some r1 i new handle_below [OF i(1), of r HDL_TYPE_SESSION]
      by (auto simp: cam_create_session_hdl_def cam_get_session_priv_def cam_get_priv_def Let_def)
  qed
qed

theorem crm_create_session_outcome_witness:
  "\<exists>h t'. cam_create_session_hdl 7 (Some ()) (Some (empty_hdl_tbl :: (unit, unit) cam_req_mgr_util_hdl_tbl)) = (Inr h, Some t')
     \<and> \<not> bit h 31 \<and> cam_get_session_priv h (Some t') = Some ()"
proof -
  have e: "{i. i < CAM_REQ_MGR_MAX_HANDLES_V2 \<and> hdl_state (hdl (empty_hdl_tbl :: (unit, unit) cam_req_mgr_util_hdl_tbl) i) = HDL_ACTIVE} = {}"
    by (simp add: empty_hdl_tbl_def empty_handle_def)
  have "card {i. i < CAM_REQ_MGR_MAX_HANDLES_V2 \<and> hdl_state (hdl (empty_hdl_tbl :: (unit, unit) cam_req_mgr_util_hdl_tbl) i) = HDL_ACTIVE}
      < CAM_REQ_MGR_MAX_HANDLES_V2"
    unfolding e by (simp add: CAM_REQ_MGR_MAX_HANDLES_V2_def)
  with crm_create_session_outcome [OF hdl_inv_empty, where 'a = unit and 'b = unit, of 7 "Some ()"] show ?thesis
    by auto
qed

lemma handle_rnd_inj:
  assumes "idx < CAM_REQ_MGR_MAX_HANDLES_V2"
    and "GET_DEV_HANDLE (ucast (r :: u8)) ty idx = GET_DEV_HANDLE (ucast (r' :: u8)) ty idx"
  shows "r = r'"
proof -
  have d: "drop_bit 16 (GET_DEV_HANDLE (ucast (s :: u8)) ty idx) = ucast s" for s
  proof -
    have 1: "drop_bit 16 (of_nat idx :: u32) = 0"
    proof -
      have "drop_bit 8 (drop_bit 8 (of_nat idx :: u32)) = 0"
        using drop_bit_idx [of idx] assms(1) by (simp add: CAM_REQ_MGR_MAX_HANDLES_V2_def)
      then show ?thesis by (simp only: drop_bit_drop_bit) simp
    qed
    have 2: "drop_bit 16 (push_bit 8 (hdl_type_val ty)) = 0" by (cases ty) simp_all
    have 3: "drop_bit 16 (push_bit 16 (ucast s :: u32)) = ucast s"
      by (rule bit_word_eqI) (auto simp: bit_drop_bit_eq bit_push_bit_iff bit_ucast_iff dest: bit_imp_le_length)
    show ?thesis using 1 2 3 by (simp add: GET_DEV_HANDLE_def)
  qed
  have "(ucast r :: u32) = ucast r'" using arg_cong [OF assms(2), of "drop_bit 16"] by (simp only: d)
  moreover have "ucast (ucast s :: u32) = s" for s :: u8
    by (rule bit_word_eqI) (auto simp: bit_ucast_iff dest: bit_imp_le_length)
  ultimately show ?thesis by metis
qed

text \<open>
  a destroyed handle stays dead when its slot is reused, but only as far as the random byte goes:
  after a session is destroyed, the next one takes the same slot, and the old handle then finds the new
  session's private data exactly when the two random bytes happen to coincide.
\<close>

theorem crm_stale_session_handle:
  assumes "hdl_inv t" "cam_create_session_hdl r p (Some t) = (Inr h, Some t1)"
  shows "\<exists>t2. cam_destroy_session_hdl h (Some t1) = (Inr (), Some t2) \<and> cam_get_session_priv h (Some t2) = None
    \<and> (\<exists>h' t3. cam_create_session_hdl r' p' (Some t2) = (Inr h', Some t3)
         \<and> CAM_REQ_MGR_GET_HDL_IDX h' = CAM_REQ_MGR_GET_HDL_IDX h
         \<and> cam_get_session_priv h (Some t3) = (if r' = r then p' else None))"
proof -
  obtain i t0 where f: "cam_get_free_handle_index t = Some (i, t0)"
    and h: "h = GET_DEV_HANDLE (ucast r) HDL_TYPE_SESSION i"
    and t1: "t1 = t0\<lparr>hdl := (hdl t0)(i := \<lparr>session_hdl = h, hdl_value = h, hdl_kind = HDL_TYPE_SESSION,
       hdl_state = HDL_ACTIVE, dev_id = CAM_CRM, hdl_ops = None, hdl_priv = p\<rparr>)\<rparr>"
    using assms(2) by (auto simp: cam_create_session_hdl_def Let_def split: option.splits)
  note i = free_index_Some [OF assms(1) f]
  have dec: "CAM_REQ_MGR_GET_HDL_IDX h = i" "CAM_REQ_MGR_GET_HDL_TYPE h = 2" using i(1) by (simp_all add: h)
  define t2 where "t2 = t1\<lparr>hdl := (hdl t1)(i := (hdl t1 i)\<lparr>hdl_state := HDL_FREE, hdl_ops := None, hdl_priv := None\<rparr>),
      bitmap := (bitmap t1)(i := False)\<rparr>"
  have d: "cam_destroy_session_hdl h (Some t1) = (Inr (), Some t2)"
    using i dec by (simp add: cam_destroy_session_hdl_def cam_destroy_hdl_def t2_def t1 Let_def)
  have bm: "bitmap t2 = bitmap t" "bits t2 = bits t"
    using i(2,4) by (simp_all add: t2_def t1 fun_upd_idem)
  have f2: "cam_get_free_handle_index t2 = Some (i, t2\<lparr>bitmap := (bitmap t2)(i := True)\<rparr>)"
    using f by (auto simp: cam_get_free_handle_index_def bm Let_def split: if_splits)
  have ne: "h \<noteq> GET_DEV_HANDLE (ucast r') HDL_TYPE_SESSION i" if "r' \<noteq> r"
    using handle_rnd_inj [OF i(1), of r HDL_TYPE_SESSION r'] that by (auto simp: h)
  show ?thesis
    using i(1) d dec f2 ne
    by (auto simp: cam_create_session_hdl_def cam_get_session_priv_def cam_get_priv_def h Let_def)
       (simp_all add: t2_def t1)
qed

theorem crm_stale_session_handle_witness:
  "\<exists>h t1 t2. cam_create_session_hdl 7 (Some 1) (Some (empty_hdl_tbl :: (nat, nat) cam_req_mgr_util_hdl_tbl)) = (Inr h, Some t1)
     \<and> cam_destroy_session_hdl h (Some t1) = (Inr (), Some t2)
     \<and> (\<exists>h' t3. cam_create_session_hdl 7 (Some 2) (Some t2) = (Inr h', Some t3) \<and> cam_get_session_priv h (Some t3) = Some 2)"
proof -
  obtain h t1 where c: "cam_create_session_hdl 7 (Some 1) (Some (empty_hdl_tbl :: (nat, nat) cam_req_mgr_util_hdl_tbl)) = (Inr h, Some t1)"
    by (simp add: cam_create_session_hdl_def empty_free_index Let_def)
  from crm_stale_session_handle [OF hdl_inv_empty c, of 7 "Some 2"] c show ?thesis by auto
qed

end
