(* ===== verification/Cam_Sync_Monitor.thy ===== *)
theory Cam_Sync_Monitor
  imports Kernel_Prelude
begin

text \<open>
  The monitor of camera fences (\<open>cam_sync_util.c\<close>): for every fence a ring of its last operations and the
  ring of the fence that had the same index before it. The two arrays swap roles when a fence is
  destroyed. The table of monitor data is a table of chunks that are allocated on first use.
\<close>

section \<open>Data\<close>

definition CAM_SYNC_MAX_OBJS :: nat where "CAM_SYNC_MAX_OBJS = 2048"
definition CAM_SYNC_MONITOR_TABLE_SIZE :: nat where "CAM_SYNC_MONITOR_TABLE_SIZE = 16"
definition CAM_SYNC_MONITOR_TABLE_ENTRY_SZ :: nat where
  "CAM_SYNC_MONITOR_TABLE_ENTRY_SZ = CAM_SYNC_MAX_OBJS div CAM_SYNC_MONITOR_TABLE_SIZE"
definition CAM_SYNC_MONITOR_MAX_ENTRIES :: nat where "CAM_SYNC_MONITOR_MAX_ENTRIES = 30"

datatype sync_type = SYNC_TYPE_INDV | SYNC_TYPE_GROUP

datatype cam_fence_op =
  CAM_FENCE_OP_CREATE | CAM_FENCE_OP_REGISTER_CB | CAM_FENCE_OP_SKIP_REGISTER_CB
| CAM_FENCE_OP_ALREADY_REGISTERED_CB | CAM_FENCE_OP_SIGNAL | CAM_FENCE_OP_UNREGISTER_ON_SIGNAL
| CAM_FENCE_OP_UNREGISTER_CB | CAM_FENCE_OP_DESTROY

record cam_generic_fence_monitor_entry =
  mon_timestamp :: u64
  mon_op :: cam_fence_op

record cam_generic_fence_monitor_data =
  monitor_head :: u64
  prev_name :: string
  prev_type :: sync_type
  prev_obj_id :: int
  prev_sync_id :: int
  prev_remaining :: u32
  prev_state :: u32
  prev_monitor_head :: u64
  swap_monitor_entries :: bool
  monitor_entries :: "cam_generic_fence_monitor_entry list"
  prev_monitor_entries :: "cam_generic_fence_monitor_entry list"

definition zero_monitor_entry :: cam_generic_fence_monitor_entry where
  "zero_monitor_entry = \<lparr>mon_timestamp = 0, mon_op = CAM_FENCE_OP_CREATE\<rparr>"

definition zero_monitor_data :: cam_generic_fence_monitor_data where
  "zero_monitor_data = \<lparr>monitor_head = 0, prev_name = '''', prev_type = SYNC_TYPE_INDV, prev_obj_id = 0, prev_sync_id = 0,
     prev_remaining = 0, prev_state = 0, prev_monitor_head = 0, swap_monitor_entries = False,
     monitor_entries = replicate CAM_SYNC_MONITOR_MAX_ENTRIES zero_monitor_entry,
     prev_monitor_entries = replicate CAM_SYNC_MONITOR_MAX_ENTRIES zero_monitor_entry\<rparr>"

text \<open>The chunks; \<open>None\<close> is a NULL pointer. A fence's data is in chunk \<open>idx / 128\<close> at \<open>idx % 128\<close>.\<close>

type_synonym monitor_table = "nat \<Rightarrow> (nat \<Rightarrow> cam_generic_fence_monitor_data) option"

definition CAM_GENERIC_MONITOR_GET_DATA :: "monitor_table \<Rightarrow> nat \<Rightarrow> cam_generic_fence_monitor_data option" where
  "CAM_GENERIC_MONITOR_GET_DATA t idx =
     map_option (\<lambda>chunk. chunk (idx mod CAM_SYNC_MONITOR_TABLE_ENTRY_SZ)) (t (idx div CAM_SYNC_MONITOR_TABLE_ENTRY_SZ))"

definition set_monitor_data :: "monitor_table \<Rightarrow> nat \<Rightarrow> cam_generic_fence_monitor_data \<Rightarrow> monitor_table" where
  "set_monitor_data t idx d =
     (case t (idx div CAM_SYNC_MONITOR_TABLE_ENTRY_SZ) of
        None \<Rightarrow> t
      | Some chunk \<Rightarrow> t(idx div CAM_SYNC_MONITOR_TABLE_ENTRY_SZ \<mapsto> chunk(idx mod CAM_SYNC_MONITOR_TABLE_ENTRY_SZ := d)))"

section \<open>Operations\<close>

definition cam_generic_expand_monitor_table :: "bool \<Rightarrow> nat \<Rightarrow> monitor_table \<Rightarrow> monitor_table \<times> (errno + unit)" where
  "cam_generic_expand_monitor_table alloc_ok idx t =
     (case t (idx div CAM_SYNC_MONITOR_TABLE_ENTRY_SZ) of
        Some _ \<Rightarrow> (t, Inr ())
      | None \<Rightarrow> if alloc_ok then (t(idx div CAM_SYNC_MONITOR_TABLE_ENTRY_SZ \<mapsto> (\<lambda>_. zero_monitor_data)), Inr ())
                else (t, Inl ENOMEM))"

text \<open>Recording one operation at time \<open>now\<close> in the data of a fence.\<close>

definition monitor_record :: "u64 \<Rightarrow> cam_fence_op \<Rightarrow> cam_generic_fence_monitor_data \<Rightarrow> cam_generic_fence_monitor_data" where
  "monitor_record now op d =
     (let d = (if op = CAM_FENCE_OP_CREATE then d\<lparr>monitor_head := - 1\<rparr> else d);
          d = d\<lparr>monitor_head := monitor_head d + 1\<rparr>;
          iterator = unat (monitor_head d) mod CAM_SYNC_MONITOR_MAX_ENTRIES;
          entry = \<lparr>mon_timestamp = now, mon_op = op\<rparr>
      in if swap_monitor_entries d then d\<lparr>monitor_entries := (monitor_entries d)[iterator := entry]\<rparr>
         else d\<lparr>prev_monitor_entries := (prev_monitor_entries d)[iterator := entry]\<rparr>)"

definition cam_generic_fence_update_monitor_array ::
    "bool \<Rightarrow> u64 \<Rightarrow> nat \<Rightarrow> cam_fence_op \<Rightarrow> monitor_table option \<Rightarrow> monitor_table option" where
  "cam_generic_fence_update_monitor_array alloc_ok now idx op mon =
     (case mon of None \<Rightarrow> None
      | Some t \<Rightarrow>
         (case cam_generic_expand_monitor_table alloc_ok idx t of
            (t, Inl _) \<Rightarrow> Some t
          | (t, Inr _) \<Rightarrow>
             (case CAM_GENERIC_MONITOR_GET_DATA t idx of
                None \<Rightarrow> Some t
              | Some d \<Rightarrow> Some (set_monitor_data t idx (monitor_record now op d)))))"

text \<open>The arrays that the dump of a fence reads.\<close>

definition cam_sync_get_monitor_entries :: "cam_generic_fence_monitor_data \<Rightarrow> cam_generic_fence_monitor_entry list" where
  "cam_sync_get_monitor_entries d = (if swap_monitor_entries d then prev_monitor_entries d else monitor_entries d)"

definition cam_sync_get_prev_monitor_entries ::
    "cam_generic_fence_monitor_data \<Rightarrow> cam_generic_fence_monitor_entry list" where
  "cam_sync_get_prev_monitor_entries d = (if swap_monitor_entries d then monitor_entries d else prev_monitor_entries d)"

text \<open>Where the oldest entry is and how many there are, from the head.\<close>

definition cam_generic_fence_get_monitor_entries_info :: "u64 \<Rightarrow> errno + (nat \<times> nat)" where
  "cam_generic_fence_get_monitor_entries_info state_head =
     (if state_head = - 1 then Inl EINVAL
      else if state_head < of_nat CAM_SYNC_MONITOR_MAX_ENTRIES then Inr (0, unat (state_head + 1))
      else Inr (unat (state_head + 1) mod CAM_SYNC_MONITOR_MAX_ENTRIES, CAM_SYNC_MONITOR_MAX_ENTRIES))"

text \<open>The entries \<open>__cam_generic_fence_dump_monitor_entries\<close> prints, starting at \<open>index\<close>.\<close>

fun cam_generic_fence_dump_monitor_entries ::
    "cam_generic_fence_monitor_entry list \<Rightarrow> nat \<Rightarrow> nat \<Rightarrow> cam_generic_fence_monitor_entry list" where
  "cam_generic_fence_dump_monitor_entries entries index 0 = []"
| "cam_generic_fence_dump_monitor_entries entries index (Suc n) =
     entries ! index
     # cam_generic_fence_dump_monitor_entries entries ((index + 1) mod CAM_SYNC_MONITOR_MAX_ENTRIES) n"

text \<open>
  The two lists of entries that \<open>cam_generic_fence_dump_monitor_array\<close> prints: the fence's own and the
  previous one's; it gives up as soon as a head says that there are none.
\<close>

definition cam_generic_fence_dump_monitor_array ::
    "cam_generic_fence_monitor_data
     \<Rightarrow> cam_generic_fence_monitor_entry list \<times> cam_generic_fence_monitor_entry list" where
  "cam_generic_fence_dump_monitor_array d =
     (case cam_generic_fence_get_monitor_entries_info (monitor_head d) of
        Inl _ \<Rightarrow> ([], [])
      | Inr (oldest, num) \<Rightarrow>
         (cam_generic_fence_dump_monitor_entries (cam_sync_get_monitor_entries d) oldest num,
          case cam_generic_fence_get_monitor_entries_info (prev_monitor_head d) of
            Inl _ \<Rightarrow> []
          | Inr (oldest', num') \<Rightarrow>
              cam_generic_fence_dump_monitor_entries (cam_sync_get_prev_monitor_entries d) oldest' num'))"

text \<open>What is kept of a fence when it is destroyed, and the swap of the arrays; \<open>None\<close> when the chunk is NULL.\<close>

definition cam_sync_save_previous_monitor_data ::
    "string \<Rightarrow> sync_type \<Rightarrow> nat \<Rightarrow> u32 \<Rightarrow> u32 \<Rightarrow> monitor_table \<Rightarrow> monitor_table option" where
  "cam_sync_save_previous_monitor_data name ty idx st rem t =
     (case CAM_GENERIC_MONITOR_GET_DATA t idx of
        None \<Rightarrow> None
      | Some d \<Rightarrow> Some (set_monitor_data t idx
          (d\<lparr>prev_name := take 62 name, prev_type := ty, prev_obj_id := int idx, prev_state := st, prev_remaining := rem,
             prev_monitor_head := monitor_head d, swap_monitor_entries := \<not> swap_monitor_entries d\<rparr>)))"

section \<open>The ring\<close>

fun monitor_records :: "(u64 \<times> cam_fence_op) list \<Rightarrow> cam_generic_fence_monitor_data \<Rightarrow> cam_generic_fence_monitor_data" where
  "monitor_records [] d = d"
| "monitor_records ((now, op) # es) d = monitor_records es (monitor_record now op d)"

end
