(* ===== verification/Cam_Sync.thy ===== *)
theory Cam_Sync
  imports Cam_Sync_Monitor
begin

text \<open>
  The fence table of the camera driver, after \<open>cam_sync.c\<close> and \<open>cam_sync_util.c\<close>: individual fences
  that producers signal, and group fences made by merging them, which signal when all their children
  have.

  The device is a record with the rows, the row locks, the allocation bitmap, the monitor and what the
  outside world sees: the callback work queued, the callbacks run, the events sent to user space and
  the calls made to the DMA fence code. An API call is one step; it takes and releases the row locks
  as the code does, so a lock that is still held when the call returns stays held. Two things end the
  kernel's life rather than return an error, and set \<open>sync_bad\<close>: taking a spin lock that is held
  (nothing else runs that could release it) and following a NULL pointer. \<open>allocs\<close> is the sequence of
  outcomes of the memory allocations to come; when it is used up they succeed. The configuration has
  no target synx, so a signal does not forward to synx. Object ids are \<open>int\<close>: no arithmetic is done on
  them before their range is checked.
\<close>

section \<open>Data\<close>

definition CAM_SYNC_STATE_INVALID :: u32 where [simp]: "CAM_SYNC_STATE_INVALID = 0"
definition CAM_SYNC_STATE_ACTIVE :: u32 where [simp]: "CAM_SYNC_STATE_ACTIVE = 1"
definition CAM_SYNC_STATE_SIGNALED_SUCCESS :: u32 where [simp]: "CAM_SYNC_STATE_SIGNALED_SUCCESS = 2"
definition CAM_SYNC_STATE_SIGNALED_ERROR :: u32 where [simp]: "CAM_SYNC_STATE_SIGNALED_ERROR = 3"
definition CAM_SYNC_STATE_SIGNALED_CANCEL :: u32 where [simp]: "CAM_SYNC_STATE_SIGNALED_CANCEL = 4"

text \<open>A callback is the function pointer and its data; the two fields for the work queue come with it.\<close>

record ('f, 'd) sync_callback_info =
  callback_func :: 'f
  cb_data :: 'd
  cb_status :: u32
  cb_sync_obj :: nat

record sync_dma_fence_info =
  dma_fence_fd :: int
  dma_fence_row_idx :: int
  sync_created_with_dma :: bool

record sync_synx_obj_info =
  synx_obj :: u32
  synx_obj_row_idx :: int
  sync_created_with_synx :: bool

record ('f, 'd) sync_table_row =
  row_name :: string
  row_type :: sync_type
  sync_id :: nat
  parents_list :: "nat list"
  children_list :: "nat list"
  row_state :: u32
  remaining :: u32
  signaled :: bool
  callback_list :: "('f, 'd) sync_callback_info list"
  user_payload_list :: "(u64 \<times> u64) list"
  ref_cnt :: u32
  ext_dma_fence :: bool
  ext_synx_obj :: bool
  dma_fence_info :: sync_dma_fence_info
  synx_obj_info :: sync_synx_obj_info

datatype sync_bad = Lock_Held | Null_Pointer

text \<open>\<open>Event_V1\<close> and \<open>Event_V2\<close> are the two layouts of the event; the second one carries the cause.\<close>

datatype sync_event =
  Event_V1 (ev_obj: nat) (ev_status: u32) (ev_payload: "u64 \<times> u64")
| Event_V2 (ev_obj: nat) (ev_status: u32) (ev_payload: "u64 \<times> u64") (ev_cause: u32)

datatype dma_call = Dma_Signal int int errno | Dma_Signal_Ok int int | Dma_Get_Ref int | Dma_Put_Ref int

record ('f, 'd) sync_device =
  sync_table :: "nat \<Rightarrow> ('f, 'd) sync_table_row"
  row_spinlocks :: "nat \<Rightarrow> bool"
  sync_bitmap :: "nat \<Rightarrow> bool"
  mon_data :: "monitor_table option"
  monitor_mask :: bool
  trigger_cb_without_switch :: bool
  cam_sync_eventq :: bool
  event_v2 :: bool
  allocs :: "bool list"
  now :: u64
  work_queue :: "('f, 'd) sync_callback_info list"
  called :: "('f \<times> nat \<times> u32 \<times> 'd) list"
  events :: "sync_event list"
  dma_calls :: "dma_call list"
  dma_signal_fails :: bool
  sync_bad :: "sync_bad option"

section \<open>Rows, locks, memory, monitor\<close>

definition upd_row ::
    "nat \<Rightarrow> (('f, 'd) sync_table_row \<Rightarrow> ('f, 'd) sync_table_row) \<Rightarrow> ('f, 'd) sync_device \<Rightarrow> ('f, 'd) sync_device" where
  "upd_row i f s = s\<lparr>sync_table := (sync_table s)(i := f (sync_table s i))\<rparr>"

definition row_lock :: "nat \<Rightarrow> ('f, 'd) sync_device \<Rightarrow> ('f, 'd) sync_device" where
  "row_lock i s = (if row_spinlocks s i then s\<lparr>sync_bad := Some Lock_Held\<rparr>
                   else s\<lparr>row_spinlocks := (row_spinlocks s)(i := True)\<rparr>)"

definition row_unlock :: "nat \<Rightarrow> ('f, 'd) sync_device \<Rightarrow> ('f, 'd) sync_device" where
  "row_unlock i s = s\<lparr>row_spinlocks := (row_spinlocks s)(i := False)\<rparr>"

definition next_alloc :: "('f, 'd) sync_device \<Rightarrow> bool \<times> ('f, 'd) sync_device" where
  "next_alloc s = (case allocs s of [] \<Rightarrow> (True, s) | b # bs \<Rightarrow> (b, s\<lparr>allocs := bs\<rparr>))"

text \<open>The call of the monitor that most operations make when the debug mask asks for it.\<close>

definition monitor_update :: "nat \<Rightarrow> cam_fence_op \<Rightarrow> ('f, 'd) sync_device \<Rightarrow> ('f, 'd) sync_device" where
  "monitor_update i op s =
     (if monitor_mask s then
        (case mon_data s of
           None \<Rightarrow> s
         | Some t \<Rightarrow>
            (let (ok, s) = (if t (i div CAM_SYNC_MONITOR_TABLE_ENTRY_SZ) = None then next_alloc s else (True, s)) in
             s\<lparr>mon_data := cam_generic_fence_update_monitor_array ok (now s) i op (Some t)\<rparr>))
      else s)"

text \<open>
  \<open>cam_sync_dump_monitor_array\<close> changes nothing (it prints), but follows the chunk pointer of the row's
  own id.
\<close>

definition monitor_dump :: "nat \<Rightarrow> ('f, 'd) sync_device \<Rightarrow> ('f, 'd) sync_device" where
  "monitor_dump i s =
     (case mon_data s of
        None \<Rightarrow> s
      | Some t \<Rightarrow>
         if monitor_mask s \<and> CAM_GENERIC_MONITOR_GET_DATA t (sync_id (sync_table s i)) = None
         then s\<lparr>sync_bad := Some Null_Pointer\<rparr> else s)"

definition complete_all :: "nat \<Rightarrow> ('f, 'd) sync_device \<Rightarrow> ('f, 'd) sync_device" where
  "complete_all i = upd_row i (\<lambda>r. r\<lparr>signaled := True\<rparr>)"

definition obj_out_of_range :: "int \<Rightarrow> bool" where
  "obj_out_of_range obj \<longleftrightarrow> int CAM_SYNC_MAX_OBJS \<le> obj \<or> obj \<le> 0"

definition is_signaled :: "u32 \<Rightarrow> bool" where
  "is_signaled st \<longleftrightarrow> st = CAM_SYNC_STATE_SIGNALED_SUCCESS \<or> st = CAM_SYNC_STATE_SIGNALED_ERROR
                     \<or> st = CAM_SYNC_STATE_SIGNALED_CANCEL"

section \<open>Creation\<close>

definition cam_sync_init_row ::
    "nat \<Rightarrow> string \<Rightarrow> sync_type \<Rightarrow> ('f, 'd) sync_device \<Rightarrow> ('f, 'd) sync_device \<times> (errno + unit)" where
  "cam_sync_init_row idx name ty s =
     (if idx = 0 \<or> CAM_SYNC_MAX_OBJS \<le> idx then (s, Inl EINVAL)
      else
       (let s = upd_row idx (\<lambda>r. r\<lparr>row_name := take 62 name, parents_list := [], children_list := [],
              row_type := ty, sync_id := idx, row_state := CAM_SYNC_STATE_ACTIVE, remaining := 0, ref_cnt := 0,
              signaled := False, callback_list := [], user_payload_list := []\<rparr>) s
        in (monitor_update idx CAM_FENCE_OP_CREATE s, Inr ())))"

record cam_dma_fence_create_sync_obj_payload =
  dma_payload_row_idx :: int
  dma_payload_fd :: int
  dma_payload_created :: bool

text \<open>The table is printed when it is full: nothing but each row lock, taken and released in turn.\<close>

definition cam_sync_print_fence_table :: "('f, 'd) sync_device \<Rightarrow> ('f, 'd) sync_device" where
  "cam_sync_print_fence_table s = (if list_ex (row_spinlocks s) [0..<CAM_SYNC_MAX_OBJS] then s\<lparr>sync_bad := Some Lock_Held\<rparr> else s)"

text \<open>\<open>dma_rc\<close> is the answer of \<open>cam_dma_fence_get_put_ref\<close>, should it be called.\<close>

definition cam_sync_create_util ::
    "string \<Rightarrow> cam_dma_fence_create_sync_obj_payload option \<Rightarrow> sync_synx_obj_info option \<Rightarrow> errno + unit
     \<Rightarrow> ('f, 'd) sync_device \<Rightarrow> ('f, 'd) sync_device \<times> nat option \<times> (errno + unit)" where
  "cam_sync_create_util name dma synx dma_rc s =
     (let idx = find_first_zero_bit (sync_bitmap s) CAM_SYNC_MAX_OBJS in
      if CAM_SYNC_MAX_OBJS \<le> idx then (cam_sync_print_fence_table s, None, Inl ENOMEM)
      else
       (let s = row_lock idx (s\<lparr>sync_bitmap := (sync_bitmap s)(idx := True)\<rparr>) in
        case cam_sync_init_row idx name SYNC_TYPE_INDV s of
          (s, Inl _) \<Rightarrow> (row_unlock idx (s\<lparr>sync_bitmap := (sync_bitmap s)(idx := False)\<rparr>), None, Inl EINVAL)
        | (s, Inr _) \<Rightarrow>
           (let s = (case synx of None \<Rightarrow> s
                     | Some x \<Rightarrow> upd_row idx (\<lambda>r. r\<lparr>synx_obj_info := x, ext_synx_obj := True\<rparr>) s) in
            case dma of
              None \<Rightarrow> (row_unlock idx s, Some idx, Inr ())
            | Some d \<Rightarrow>
               (let s = upd_row idx (\<lambda>r. r\<lparr>dma_fence_info := \<lparr>dma_fence_fd = dma_payload_fd d,
                          dma_fence_row_idx = dma_payload_row_idx d, sync_created_with_dma = dma_payload_created d\<rparr>,
                          ext_dma_fence := True\<rparr>) s in
                if dma_payload_created d
                then (row_unlock idx (s\<lparr>dma_calls := dma_calls s @ [Dma_Get_Ref (dma_payload_row_idx d)]\<rparr>), Some idx, dma_rc)
                else (row_unlock idx s, Some idx, Inr ())))))"

definition cam_sync_create :: "string \<Rightarrow> ('f, 'd) sync_device \<Rightarrow> ('f, 'd) sync_device \<times> nat option \<times> (errno + unit)" where
  "cam_sync_create name = cam_sync_create_util name None None (Inr ())"

section \<open>Callbacks\<close>

definition queue_cb :: "('f, 'd) sync_callback_info \<Rightarrow> ('f, 'd) sync_device \<Rightarrow> ('f, 'd) sync_device" where
  "queue_cb cb s = s\<lparr>work_queue := work_queue s @ [cb]\<rparr>"

definition call_cb :: "'f \<Rightarrow> nat \<Rightarrow> u32 \<Rightarrow> 'd \<Rightarrow> ('f, 'd) sync_device \<Rightarrow> ('f, 'd) sync_device" where
  "call_cb f i st d s = s\<lparr>called := called s @ [(f, i, st, d)]\<rparr>"

text \<open>The work queue runs its first entry.\<close>

definition cam_sync_util_cb_dispatch :: "('f, 'd) sync_device \<Rightarrow> ('f, 'd) sync_device" where
  "cam_sync_util_cb_dispatch s =
     (case work_queue s of [] \<Rightarrow> s
      | cb # rest \<Rightarrow> call_cb (callback_func cb) (cb_sync_obj cb) (cb_status cb) (cb_data cb) (s\<lparr>work_queue := rest\<rparr>))"

definition cam_sync_register_callback ::
    "'f option \<Rightarrow> 'd \<Rightarrow> int \<Rightarrow> ('f, 'd) sync_device \<Rightarrow> ('f, 'd) sync_device \<times> (errno + unit)" where
  "cam_sync_register_callback cb_func userdata obj s =
     (case cb_func of None \<Rightarrow> (s, Inl EINVAL)
      | Some f \<Rightarrow>
       (if obj_out_of_range obj then (s, Inl EINVAL)
        else
         (let i = nat obj; s = row_lock i s; row = sync_table s i in
          if row_state row = CAM_SYNC_STATE_INVALID then (row_unlock i (monitor_dump i s), Inl EINVAL)
          else
           (let (ok, s) = next_alloc s in
            if \<not> ok then (row_unlock i (monitor_dump i s), Inl ENOMEM)
            else if is_signaled (row_state row) \<and> remaining row = 0 then
             (let s = monitor_update i CAM_FENCE_OP_SKIP_REGISTER_CB s in
              if trigger_cb_without_switch s
              then (call_cb f i (row_state row) userdata (row_unlock i s), Inr ())
              else (row_unlock i (queue_cb \<lparr>callback_func = f, cb_data = userdata, cb_status = row_state row,
                                           cb_sync_obj = i\<rparr> s), Inr ()))
            else
             (let s = upd_row i (\<lambda>r. r\<lparr>callback_list := callback_list r
                        @ [\<lparr>callback_func = f, cb_data = userdata, cb_status = 0, cb_sync_obj = i\<rparr>]\<rparr>) s
              in (row_unlock i (monitor_update i CAM_FENCE_OP_REGISTER_CB s), Inr ()))))))"

definition cam_sync_deregister_callback ::
    "'f \<Rightarrow> 'd \<Rightarrow> int \<Rightarrow> ('f, 'd) sync_device \<Rightarrow> ('f, 'd) sync_device \<times> (errno + unit)" where
  "cam_sync_deregister_callback f userdata obj s =
     (if obj_out_of_range obj then (s, Inl EINVAL)
      else
       (let i = nat obj; s = row_lock i s; row = sync_table s i in
        if row_state row = CAM_SYNC_STATE_INVALID then (row_unlock i (monitor_dump i s), Inl EINVAL)
        else
         (let match = (\<lambda>cb. callback_func cb = f \<and> cb_data cb = userdata);
              found = list_ex match (callback_list row);
              s = upd_row i (\<lambda>r. r\<lparr>callback_list := filter (\<lambda>cb. \<not> match cb) (callback_list r)\<rparr>) s;
              s = (if monitor_mask s
                   then if found then monitor_update i CAM_FENCE_OP_UNREGISTER_CB s else monitor_dump i s
                   else s)
          in (row_unlock i s, if found then Inr () else Inl ENOENT))))"

definition cam_sync_util_send_v4l2_event ::
    "nat \<Rightarrow> u32 \<Rightarrow> u64 \<times> u64 \<Rightarrow> u32 \<Rightarrow> ('f, 'd) sync_device \<Rightarrow> ('f, 'd) sync_device" where
  "cam_sync_util_send_v4l2_event i st payload cause s =
     s\<lparr>events := events s @ [if event_v2 s then Event_V2 i st payload cause else Event_V1 i st payload]\<rparr>"

text \<open>The two loops that empty the lists of a row that has signaled.\<close>

primrec dispatch_callbacks ::
    "nat \<Rightarrow> u32 \<Rightarrow> ('f, 'd) sync_callback_info list \<Rightarrow> ('f, 'd) sync_device \<Rightarrow> ('f, 'd) sync_device" where
  "dispatch_callbacks i st [] s = s"
| "dispatch_callbacks i st (cb # cbs) s =
     dispatch_callbacks i st cbs
       (queue_cb (cb\<lparr>cb_status := st\<rparr>)
         (monitor_update i CAM_FENCE_OP_UNREGISTER_ON_SIGNAL (upd_row i (\<lambda>r. r\<lparr>callback_list := cbs\<rparr>) s)))"

primrec dispatch_payloads ::
    "nat \<Rightarrow> u32 \<Rightarrow> u32 \<Rightarrow> (u64 \<times> u64) list \<Rightarrow> ('f, 'd) sync_device \<Rightarrow> ('f, 'd) sync_device" where
  "dispatch_payloads i st cause [] s = s"
| "dispatch_payloads i st cause (p # ps) s =
     (if \<not> cam_sync_eventq s then s
      else dispatch_payloads i st cause ps
        (monitor_update i CAM_FENCE_OP_UNREGISTER_ON_SIGNAL
          (upd_row i (\<lambda>r. r\<lparr>user_payload_list := ps\<rparr>) (cam_sync_util_send_v4l2_event i st p cause s))))"

definition cam_sync_util_dispatch_signaled_cb ::
    "nat \<Rightarrow> u32 \<Rightarrow> u32 \<Rightarrow> ('f, 'd) sync_device \<Rightarrow> ('f, 'd) sync_device" where
  "cam_sync_util_dispatch_signaled_cb i st cause s =
     (let row = sync_table s i in
      if row_state row = CAM_SYNC_STATE_INVALID then s
      else complete_all i (dispatch_payloads i st cause (user_payload_list row)
             (dispatch_callbacks i st (callback_list row) s)))"

section \<open>Signaling\<close>

text \<open>\<open>cam_sync_util_update_parent_state\<close>: the parent's new state, or \<open>-EINVAL\<close>.\<close>

definition cam_sync_util_update_parent_state :: "u32 \<Rightarrow> u32 \<Rightarrow> errno + u32" where
  "cam_sync_util_update_parent_state parent_state new_state =
     (if parent_state = CAM_SYNC_STATE_ACTIVE \<or> parent_state = CAM_SYNC_STATE_SIGNALED_SUCCESS then Inr new_state
      else if parent_state = CAM_SYNC_STATE_SIGNALED_ERROR \<or> parent_state = CAM_SYNC_STATE_SIGNALED_CANCEL
      then Inr parent_state
      else Inl EINVAL)"

primrec cam_sync_signal_parent_util ::
    "u32 \<Rightarrow> u32 \<Rightarrow> nat list \<Rightarrow> ('f, 'd) sync_device \<Rightarrow> ('f, 'd) sync_device" where
  "cam_sync_signal_parent_util st cause [] s = s"
| "cam_sync_signal_parent_util st cause (p # ps) s =
     cam_sync_signal_parent_util st cause ps
      (let s = upd_row p (\<lambda>r. r\<lparr>remaining := remaining r - 1\<rparr>) (row_lock p s) in
       case cam_sync_util_update_parent_state (row_state (sync_table s p)) st of
         Inl _ \<Rightarrow> row_unlock p s
       | Inr st' \<Rightarrow>
          (let s = upd_row p (\<lambda>r. r\<lparr>row_state := st'\<rparr>) s;
               s = (if remaining (sync_table s p) = 0 then cam_sync_util_dispatch_signaled_cb p st' cause s else s)
           in row_unlock p (monitor_update p CAM_FENCE_OP_SIGNAL s)))"

definition cam_sync_signal_validate_util :: "u32 \<Rightarrow> ('f, 'd) sync_table_row \<Rightarrow> errno + unit" where
  "cam_sync_signal_validate_util st row =
     (if row_state row = CAM_SYNC_STATE_INVALID then Inl EINVAL
      else if row_type row = SYNC_TYPE_GROUP then Inl EINVAL
      else if row_state row \<noteq> CAM_SYNC_STATE_ACTIVE then Inl EALREADY
      else if st \<noteq> CAM_SYNC_STATE_SIGNALED_SUCCESS \<and> st \<noteq> CAM_SYNC_STATE_SIGNALED_ERROR
              \<and> st \<noteq> CAM_SYNC_STATE_SIGNALED_CANCEL then Inl EINVAL
      else Inr ())"

text \<open>What an associated DMA fence is told; when it answers with an error (\<open>dma_signal_fails\<close>), the row is dumped.\<close>

definition cam_sync_signal_dma_fence_util :: "nat \<Rightarrow> u32 \<Rightarrow> ('f, 'd) sync_device \<Rightarrow> ('f, 'd) sync_device" where
  "cam_sync_signal_dma_fence_util i st s =
     (let d = dma_fence_info (sync_table s i) in
      if st = CAM_SYNC_STATE_SIGNALED_SUCCESS
      then s\<lparr>dma_calls := dma_calls s @ [Dma_Signal_Ok (dma_fence_row_idx d) (dma_fence_fd d)]\<rparr>
      else if st = CAM_SYNC_STATE_SIGNALED_ERROR
      then s\<lparr>dma_calls := dma_calls s @ [Dma_Signal (dma_fence_row_idx d) (dma_fence_fd d) EADV]\<rparr>
      else if st = CAM_SYNC_STATE_SIGNALED_CANCEL
      then s\<lparr>dma_calls := dma_calls s @ [Dma_Signal (dma_fence_row_idx d) (dma_fence_fd d) ECANCELED]\<rparr>
      else s)"

definition cam_sync_signal ::
    "int \<Rightarrow> u32 \<Rightarrow> u32 \<Rightarrow> ('f, 'd) sync_device \<Rightarrow> ('f, 'd) sync_device \<times> (errno + unit)" where
  "cam_sync_signal obj st cause s =
     (if obj_out_of_range obj then (s, Inl EINVAL)
      else
       (let i = nat obj; s = row_lock i s in
        case cam_sync_signal_validate_util st (sync_table s i) of
          Inl e \<Rightarrow> (row_unlock i (monitor_dump i s), Inl e)
        | Inr _ \<Rightarrow>
           (let s = upd_row i (\<lambda>r. r\<lparr>ref_cnt := ref_cnt r - 1\<rparr>) s in
            if ref_cnt (sync_table s i) \<noteq> 0 then (row_unlock i s, Inr ())
            else
             (let s = upd_row i (\<lambda>r. r\<lparr>row_state := st\<rparr>) s;
                  s = (if ext_dma_fence (sync_table s i) then
                         (let s = cam_sync_signal_dma_fence_util i st s
                          in if dma_signal_fails s then monitor_dump i s else s)
                       else s);
                  s = cam_sync_util_dispatch_signaled_cb i st cause s;
                  parents = parents_list (sync_table s i);
                  s = upd_row i (\<lambda>r. r\<lparr>parents_list := []\<rparr>) s;
                  s = row_unlock i (monitor_update i CAM_FENCE_OP_SIGNAL s)
              in (cam_sync_signal_parent_util st cause parents s, Inr ())))))"

section \<open>Validity and references\<close>

definition cam_sync_check_valid :: "int \<Rightarrow> ('f, 'd) sync_device \<Rightarrow> ('f, 'd) sync_device \<times> (errno + unit)" where
  "cam_sync_check_valid obj s =
     (if obj_out_of_range obj then (s, Inl EINVAL)
      else
       (let i = nat obj; s = row_lock i s in
        if \<not> sync_bitmap s i then (row_unlock i (monitor_dump i s), Inl EINVAL)
        else if row_state (sync_table s i) = CAM_SYNC_STATE_INVALID then (row_unlock i (monitor_dump i s), Inl EINVAL)
        else (row_unlock i s, Inr ())))"

definition cam_sync_get_obj_ref :: "int \<Rightarrow> ('f, 'd) sync_device \<Rightarrow> ('f, 'd) sync_device \<times> (errno + unit)" where
  "cam_sync_get_obj_ref obj s =
     (if obj_out_of_range obj then (s, Inl EINVAL)
      else
       (let i = nat obj; s = row_lock i s in
        if row_state (sync_table s i) \<noteq> CAM_SYNC_STATE_ACTIVE then (row_unlock i (monitor_dump i s), Inl EINVAL)
        else (row_unlock i (upd_row i (\<lambda>r. r\<lparr>ref_cnt := ref_cnt r + 1\<rparr>) s), Inr ())))"

definition cam_sync_put_obj_ref :: "int \<Rightarrow> ('f, 'd) sync_device \<Rightarrow> ('f, 'd) sync_device \<times> (errno + unit)" where
  "cam_sync_put_obj_ref obj s =
     (if obj_out_of_range obj then (s, Inl EINVAL)
      else (upd_row (nat obj) (\<lambda>r. r\<lparr>ref_cnt := ref_cnt r - 1\<rparr>) s, Inr ()))"

text \<open>
  A wait: \<open>s\<close> is the device at the call, \<open>s'\<close> when the wait for the completion is over, by time-out
  unless the completion is signaled in it.
\<close>

definition cam_sync_wait ::
    "int \<Rightarrow> ('f, 'd) sync_device \<Rightarrow> ('f, 'd) sync_device \<Rightarrow> ('f, 'd) sync_device \<times> (errno + unit)" where
  "cam_sync_wait obj s s' =
     (if obj_out_of_range obj then (s, Inl EINVAL)
      else
       (let i = nat obj in
        if row_state (sync_table s i) = CAM_SYNC_STATE_INVALID then (monitor_dump i s, Inl EINVAL)
        else if \<not> signaled (sync_table s' i) then (monitor_dump i s', Inl ETIMEDOUT)
        else if row_state (sync_table s' i) = CAM_SYNC_STATE_SIGNALED_SUCCESS then (s', Inr ())
        else (monitor_dump i s', Inl EINVAL)))"

section \<open>Groups\<close>

text \<open>The two list clean-ups: one entry (the first that matches) or all of them.\<close>

datatype sync_list_clean_type = SYNC_LIST_CLEAN_ONE | SYNC_LIST_CLEAN_ALL

definition clean_list :: "sync_list_clean_type \<Rightarrow> nat \<Rightarrow> nat list \<Rightarrow> nat list" where
  "clean_list ty obj xs = (case ty of SYNC_LIST_CLEAN_ONE \<Rightarrow> remove1 obj xs | SYNC_LIST_CLEAN_ALL \<Rightarrow> [])"

definition cam_sync_util_cleanup_children_list ::
    "nat \<Rightarrow> sync_list_clean_type \<Rightarrow> nat \<Rightarrow> ('f, 'd) sync_device \<Rightarrow> ('f, 'd) sync_device" where
  "cam_sync_util_cleanup_children_list i ty obj = upd_row i (\<lambda>r. r\<lparr>children_list := clean_list ty obj (children_list r)\<rparr>)"

definition cam_sync_util_cleanup_parents_list ::
    "nat \<Rightarrow> sync_list_clean_type \<Rightarrow> nat \<Rightarrow> ('f, 'd) sync_device \<Rightarrow> ('f, 'd) sync_device" where
  "cam_sync_util_cleanup_parents_list i ty obj = upd_row i (\<lambda>r. r\<lparr>parents_list := clean_list ty obj (parents_list r)\<rparr>)"

text \<open>
  The loop over the children of a new group \<open>idx\<close>; on an error the children that were gone through
  before (\<open>before\<close>, last one first) are returned for the clean-up.
\<close>

primrec group_add_children ::
    "nat \<Rightarrow> nat list \<Rightarrow> nat list \<Rightarrow> ('f, 'd) sync_device \<Rightarrow> ('f, 'd) sync_device \<times> (errno \<times> nat list) option" where
  "group_add_children idx before [] s = (s, None)"
| "group_add_children idx before (c # cs) s =
     (let s = row_lock c s; child = sync_table s c in
      if row_type child = SYNC_TYPE_GROUP \<or> row_state child = CAM_SYNC_STATE_INVALID
      then (row_unlock c s, Some (EINVAL, before))
      else if row_state child = CAM_SYNC_STATE_SIGNALED_ERROR \<or> row_state child = CAM_SYNC_STATE_SIGNALED_CANCEL
      then group_add_children idx (c # before) cs
             (row_unlock c (upd_row idx (\<lambda>r. r\<lparr>row_state := row_state child\<rparr>) s))
      else if row_state child \<noteq> CAM_SYNC_STATE_ACTIVE
      then group_add_children idx (c # before) cs (row_unlock c s)
      else
       (let s = upd_row idx (\<lambda>r. r\<lparr>remaining := remaining r + 1\<rparr>) s; (ok, s) = next_alloc s in
        if \<not> ok then (row_unlock c s, Some (ENOMEM, before))
        else
         (let s = upd_row idx (\<lambda>r. r\<lparr>children_list := children_list r @ [c]\<rparr>) s; (ok, s) = next_alloc s in
          if \<not> ok then (row_unlock c s, Some (ENOMEM, before))
          else
           (let s = upd_row c (\<lambda>r. r\<lparr>parents_list := parents_list r @ [idx]\<rparr>) s
            in group_add_children idx (c # before) cs (row_unlock c s)))))"

primrec group_clean_children :: "nat \<Rightarrow> nat list \<Rightarrow> ('f, 'd) sync_device \<Rightarrow> ('f, 'd) sync_device" where
  "group_clean_children idx [] s = s"
| "group_clean_children idx (c # cs) s =
     group_clean_children idx cs
       (row_unlock c (cam_sync_util_cleanup_parents_list c SYNC_LIST_CLEAN_ONE idx (row_lock c s)))"

definition cam_sync_init_group_object ::
    "nat \<Rightarrow> nat list \<Rightarrow> ('f, 'd) sync_device \<Rightarrow> ('f, 'd) sync_device \<times> (errno + unit)" where
  "cam_sync_init_group_object idx objs s =
     (let s = fst (cam_sync_init_row idx ''merged_fence'' SYNC_TYPE_GROUP s) in
      case group_add_children idx [] objs s of
        (s, None) \<Rightarrow>
         (let row = sync_table s idx in
          if remaining row = 0 then
            (let s = (if row_state row \<noteq> CAM_SYNC_STATE_SIGNALED_ERROR \<and> row_state row \<noteq> CAM_SYNC_STATE_SIGNALED_CANCEL
                      then upd_row idx (\<lambda>r. r\<lparr>row_state := CAM_SYNC_STATE_SIGNALED_SUCCESS\<rparr>) s else s)
             in (complete_all idx s, Inr ()))
          else (s, Inr ()))
      | (s, Some (e, before)) \<Rightarrow>
         (let s = upd_row idx (\<lambda>r. r\<lparr>row_state := CAM_SYNC_STATE_INVALID\<rparr>) s;
              s = group_clean_children idx before s
          in (cam_sync_util_cleanup_children_list idx SYNC_LIST_CLEAN_ALL 0 s, Inl e)))"

text \<open>\<open>cam_common_util_remove_duplicate_arr\<close>: what is left of the array.\<close>

definition cam_common_util_remove_duplicate_arr :: "int list \<Rightarrow> int list" where
  "cam_common_util_remove_duplicate_arr arr =
     (case arr of [] \<Rightarrow> [] | a # as \<Rightarrow> foldl (\<lambda>kept x. if x \<in> set kept then kept else kept @ [x]) [a] as)"

primrec check_all_valid :: "int list \<Rightarrow> ('f, 'd) sync_device \<Rightarrow> ('f, 'd) sync_device \<times> (errno + unit)" where
  "check_all_valid [] s = (s, Inr ())"
| "check_all_valid (obj # objs) s =
     (case cam_sync_check_valid obj s of (s, Inl e) \<Rightarrow> (s, Inl e) | (s, Inr _) \<Rightarrow> check_all_valid objs s)"

definition cam_sync_merge ::
    "int list option \<Rightarrow> ('f, 'd) sync_device \<Rightarrow> ('f, 'd) sync_device \<times> nat option \<times> (errno + unit)" where
  "cam_sync_merge sync_obj s =
     (case sync_obj of None \<Rightarrow> (s, None, Inl EINVAL)
      | Some objs \<Rightarrow>
       (if length objs \<le> 1 then (s, None, Inl EINVAL)
        else if length (cam_common_util_remove_duplicate_arr objs) \<noteq> length objs then (s, None, Inl EINVAL)
        else
         (case check_all_valid objs s of
            (s, Inl e) \<Rightarrow> (s, None, Inl e)
          | (s, Inr _) \<Rightarrow>
             (let idx = find_first_zero_bit (sync_bitmap s) CAM_SYNC_MAX_OBJS in
              if CAM_SYNC_MAX_OBJS \<le> idx then (s, None, Inl ENOMEM)
              else
               (let s = row_lock idx (s\<lparr>sync_bitmap := (sync_bitmap s)(idx := True)\<rparr>) in
                case cam_sync_init_group_object idx (map nat objs) s of
                  (s, Inl _) \<Rightarrow> (s\<lparr>sync_bitmap := (sync_bitmap s)(idx := False)\<rparr>, None, Inl EINVAL)
                | (s, Inr _) \<Rightarrow> (row_unlock idx s, Some idx, Inr ()))))))"

section \<open>Destruction\<close>

definition cam_sync_deinit_row :: "('f, 'd) sync_table_row \<Rightarrow> ('f, 'd) sync_table_row" where
  "cam_sync_deinit_row r = r\<lparr>row_type := SYNC_TYPE_INDV, sync_id := 0, row_state := 0, remaining := 0,
     ext_dma_fence := False, ext_synx_obj := False, ref_cnt := 0, row_name := '''', parents_list := [],
     children_list := [], callback_list := [], user_payload_list := [],
     dma_fence_info := \<lparr>dma_fence_fd = 0, dma_fence_row_idx = 0, sync_created_with_dma = False\<rparr>,
     synx_obj_info := \<lparr>synx_obj = 0, synx_obj_row_idx = 0, sync_created_with_synx = False\<rparr>\<rparr>"

text \<open>The loops that take the destroyed object out of its children's and its parents' lists.\<close>

primrec unlink_from_children :: "nat \<Rightarrow> nat list \<Rightarrow> ('f, 'd) sync_device \<Rightarrow> ('f, 'd) sync_device" where
  "unlink_from_children idx [] s = s"
| "unlink_from_children idx (c # cs) s =
     (let s = row_lock c s;
          s = (if row_state (sync_table s c) = CAM_SYNC_STATE_INVALID then s
               else cam_sync_util_cleanup_parents_list c SYNC_LIST_CLEAN_ONE idx s)
      in unlink_from_children idx cs (row_unlock c s))"

primrec unlink_from_parents :: "nat \<Rightarrow> nat list \<Rightarrow> ('f, 'd) sync_device \<Rightarrow> ('f, 'd) sync_device" where
  "unlink_from_parents idx [] s = s"
| "unlink_from_parents idx (p # ps) s =
     (let s = row_lock p s;
          s = (if row_state (sync_table s p) = CAM_SYNC_STATE_INVALID then s
               else cam_sync_util_cleanup_children_list p SYNC_LIST_CLEAN_ONE idx s)
      in unlink_from_parents idx ps (row_unlock p s))"

definition monitor_destroy :: "nat \<Rightarrow> ('f, 'd) sync_device \<Rightarrow> ('f, 'd) sync_device" where
  "monitor_destroy i s =
     (if \<not> monitor_mask s then s
      else
       (let s = monitor_update i CAM_FENCE_OP_DESTROY s; row = sync_table s i in
        case mon_data s of None \<Rightarrow> s
        | Some t \<Rightarrow>
           (case cam_sync_save_previous_monitor_data (row_name row) (row_type row) (sync_id row) (row_state row) (remaining row) t of
              None \<Rightarrow> s\<lparr>sync_bad := Some Null_Pointer\<rparr>
            | Some t' \<Rightarrow> s\<lparr>mon_data := Some t'\<rparr>)))"

text \<open>
  The arguments \<open>dma\<close> and \<open>synx\<close> are the optional questions whether the object was created together with
  the given DMA fence or synx object; the answers are filled in.
\<close>

definition cam_sync_deinit_object ::
    "int \<Rightarrow> sync_dma_fence_info option \<Rightarrow> sync_synx_obj_info option \<Rightarrow> ('f, 'd) sync_device
     \<Rightarrow> ('f, 'd) sync_device \<times> sync_dma_fence_info option \<times> sync_synx_obj_info option \<times> (errno + unit)" where
  "cam_sync_deinit_object obj dma synx s =
     (if obj_out_of_range obj then (s, dma, synx, Inl EINVAL)
      else
       (let i = nat obj; s = row_lock i s in
        if row_state (sync_table s i) = CAM_SYNC_STATE_INVALID then (row_unlock i s, dma, synx, Inl EINVAL)
        else
         (let s = monitor_destroy i s;
              children = filter (\<lambda>c. 0 < c) (children_list (sync_table s i));
              parents = filter (\<lambda>p. 0 < p) (parents_list (sync_table s i));
              s = upd_row i (\<lambda>r. r\<lparr>row_state := CAM_SYNC_STATE_INVALID,
                    children_list := filter (\<lambda>c. \<not> 0 < c) (children_list r),
                    parents_list := filter (\<lambda>p. \<not> 0 < p) (parents_list r)\<rparr>) s;
              s = row_unlock i s;
              s = unlink_from_parents i parents (unlink_from_children i children s);
              s = row_lock i s; row = sync_table s i;
              s = (if ext_dma_fence row
                   then s\<lparr>dma_calls := dma_calls s @ [Dma_Put_Ref (dma_fence_row_idx (dma_fence_info row))]\<rparr> else s);
              dma = map_option (\<lambda>d. if ext_dma_fence row \<and> dma_fence_fd (dma_fence_info row) = dma_fence_fd d
                                    then d\<lparr>sync_created_with_dma := sync_created_with_dma (dma_fence_info row),
                                           dma_fence_row_idx := dma_fence_row_idx (dma_fence_info row)\<rparr> else d) dma;
              synx = map_option (\<lambda>x. if ext_synx_obj row \<and> synx_obj (synx_obj_info row) = synx_obj x
                                     then x\<lparr>synx_obj_row_idx := synx_obj_row_idx (synx_obj_info row),
                                            sync_created_with_synx := sync_created_with_synx (synx_obj_info row)\<rparr>
                                     else x) synx;
              s = complete_all i (upd_row i cam_sync_deinit_row s);
              s = s\<lparr>sync_bitmap := (sync_bitmap s)(i := False)\<rparr>
          in (row_unlock i s, dma, synx, Inr ()))))"

definition cam_sync_destroy :: "int \<Rightarrow> ('f, 'd) sync_device \<Rightarrow> ('f, 'd) sync_device \<times> (errno + unit)" where
  "cam_sync_destroy obj s = (case cam_sync_deinit_object obj None None s of (s, _, _, rc) \<Rightarrow> (s, rc))"

section \<open>Signals from a DMA fence\<close>

text \<open>\<open>info\<close> is the fence's descriptor and status (negative on error) in \<open>cam_dma_fence_signal_sync_obj\<close>.\<close>

definition cam_sync_dma_fence_cb ::
    "int \<Rightarrow> (int \<times> (errno + unit)) option \<Rightarrow> ('f, 'd) sync_device \<Rightarrow> ('f, 'd) sync_device \<times> (errno + unit)" where
  "cam_sync_dma_fence_cb obj info s =
     (case info of None \<Rightarrow> (s, Inl EINVAL)
      | Some (fd, fence_status) \<Rightarrow>
       (if obj_out_of_range obj then (s, Inl EINVAL)
        else
         (let i = nat obj; s = row_lock i s; row = sync_table s i in
          if \<not> ext_dma_fence row then (row_unlock i s, Inl EINVAL)
          else if dma_fence_fd (dma_fence_info row) \<noteq> fd then (row_unlock i s, Inl EINVAL)
          else
           (let st = (case fence_status of Inr _ \<Rightarrow> CAM_SYNC_STATE_SIGNALED_SUCCESS
                      | Inl e \<Rightarrow> if e = ECANCELED then CAM_SYNC_STATE_SIGNALED_CANCEL else CAM_SYNC_STATE_SIGNALED_ERROR) in
            case cam_sync_signal_validate_util st row of
              Inl e \<Rightarrow> (row_unlock i s, Inl e)
            | Inr _ \<Rightarrow>
               (let s = upd_row i (\<lambda>r. r\<lparr>ref_cnt := ref_cnt r + 1\<rparr>) s;
                    s = upd_row i (\<lambda>r. r\<lparr>ref_cnt := ref_cnt r - 1\<rparr>) s in
                if ref_cnt (sync_table s i) \<noteq> 0 then (row_unlock i s, Inr ())
                else
                 (let s = cam_sync_util_dispatch_signaled_cb i st 0 (upd_row i (\<lambda>r. r\<lparr>row_state := st\<rparr>) s);
                      parents = parents_list (sync_table s i);
                      s = row_unlock i (upd_row i (\<lambda>r. r\<lparr>parents_list := []\<rparr>) s)
                  in (cam_sync_signal_parent_util st 0 parents s, Inr ())))))))"

section \<open>Requests from user space\<close>

text \<open>
  An ioctl argument: whether its size is that of the expected structure and its pointer is set, what is
  copied from user space (\<open>None\<close> if that fails) and whether copying the answer back works.
\<close>

record 'a cam_private_ioctl_arg =
  arg_size_ok :: bool
  ioctl_ptr :: bool
  from_user :: "'a option"
  to_user_ok :: bool

definition CAM_SYNC_COMMON_REG_PAYLOAD_EVENT :: u32 where "CAM_SYNC_COMMON_REG_PAYLOAD_EVENT = 0 + 5"
definition CAM_SYNC_COMMON_SYNC_SIGNAL_EVENT :: u32 where "CAM_SYNC_COMMON_SYNC_SIGNAL_EVENT = 0 + 6"
definition CAM_SYNC_COMMON_RELEASE_EVENT :: u32 where "CAM_SYNC_COMMON_RELEASE_EVENT = 0 + 7"

definition user_arg :: "'a cam_private_ioctl_arg \<Rightarrow> errno + 'a" where
  "user_arg k = (if \<not> arg_size_ok k then Inl EINVAL else if \<not> ioctl_ptr k then Inl EINVAL
                 else case from_user k of None \<Rightarrow> Inl EFAULT | Some a \<Rightarrow> Inr a)"

definition cam_sync_handle_create ::
    "string cam_private_ioctl_arg \<Rightarrow> ('f, 'd) sync_device \<Rightarrow> ('f, 'd) sync_device \<times> nat option \<times> (errno + unit)" where
  "cam_sync_handle_create k s =
     (case user_arg k of Inl e \<Rightarrow> (s, None, Inl e)
      | Inr name \<Rightarrow>
         (case cam_sync_create (take 63 name) s of
            (s, idx, Inl e) \<Rightarrow> (s, None, Inl e)
          | (s, idx, Inr _) \<Rightarrow> if to_user_ok k then (s, idx, Inr ()) else (s, None, Inl EFAULT)))"

definition cam_sync_handle_signal ::
    "(int \<times> u32) cam_private_ioctl_arg \<Rightarrow> ('f, 'd) sync_device \<Rightarrow> ('f, 'd) sync_device \<times> (errno + unit)" where
  "cam_sync_handle_signal k s =
     (case user_arg k of Inl e \<Rightarrow> (s, Inl e)
      | Inr (obj, st) \<Rightarrow>
         (case cam_sync_get_obj_ref obj s of
            (s, Inl e) \<Rightarrow> (s, Inl e)
          | (s, Inr _) \<Rightarrow> cam_sync_signal obj st CAM_SYNC_COMMON_SYNC_SIGNAL_EVENT s))"

text \<open>The array of objects is a second copy from user space, of \<open>num_objs\<close> entries.\<close>

definition cam_sync_handle_merge ::
    "(nat \<times> int list option) cam_private_ioctl_arg \<Rightarrow> ('f, 'd) sync_device
     \<Rightarrow> ('f, 'd) sync_device \<times> nat option \<times> (errno + unit)" where
  "cam_sync_handle_merge k s =
     (case user_arg k of Inl e \<Rightarrow> (s, None, Inl e)
      | Inr (num_objs, objs) \<Rightarrow>
         (if CAM_SYNC_MAX_OBJS \<le> num_objs then (s, None, Inl EINVAL)
          else
           (let (ok, s) = next_alloc s in
            if \<not> ok then (s, None, Inl ENOMEM)
            else case objs of None \<Rightarrow> (s, None, Inl EFAULT)
            | Some objs \<Rightarrow>
               (case cam_sync_merge (Some (take num_objs objs)) s of
                  (s, idx, Inl e) \<Rightarrow> (s, None, Inl e)
                | (s, idx, Inr _) \<Rightarrow> if to_user_ok k then (s, idx, Inr ()) else (s, None, Inl EFAULT)))))"

definition cam_sync_handle_destroy ::
    "int cam_private_ioctl_arg \<Rightarrow> ('f, 'd) sync_device \<Rightarrow> ('f, 'd) sync_device \<times> (errno + unit)" where
  "cam_sync_handle_destroy k s = (case user_arg k of Inl e \<Rightarrow> (s, Inl e) | Inr obj \<Rightarrow> cam_sync_destroy obj s)"

definition cam_sync_handle_register_user_payload ::
    "(int \<times> u64 \<times> u64) cam_private_ioctl_arg \<Rightarrow> ('f, 'd) sync_device \<Rightarrow> ('f, 'd) sync_device \<times> (errno + unit)" where
  "cam_sync_handle_register_user_payload k s =
     (case user_arg k of Inl e \<Rightarrow> (s, Inl e)
      | Inr (obj, payload) \<Rightarrow>
       (if obj_out_of_range obj then (s, Inl EINVAL)
        else
         (let (ok, s) = next_alloc s in
          if \<not> ok then (s, Inl ENOMEM)
          else
           (let i = nat obj; s = row_lock i s; row = sync_table s i in
            if row_state row = CAM_SYNC_STATE_INVALID then (row_unlock i s, Inl EINVAL)
            else if is_signaled (row_state row) then
              (row_unlock i (cam_sync_util_send_v4l2_event i (row_state row) payload CAM_SYNC_COMMON_REG_PAYLOAD_EVENT
                 (monitor_update i CAM_FENCE_OP_SKIP_REGISTER_CB s)), Inr ())
            else if payload \<in> set (user_payload_list row) then
              (row_unlock i (monitor_update i CAM_FENCE_OP_ALREADY_REGISTERED_CB s), Inl EALREADY)
            else
             (let s = upd_row i (\<lambda>r. r\<lparr>user_payload_list := user_payload_list r @ [payload]\<rparr>) s
              in (row_unlock i (monitor_update i CAM_FENCE_OP_REGISTER_CB s), Inr ()))))))"

text \<open>The loop removes every entry with this payload, with one monitor entry for each.\<close>

definition cam_sync_handle_deregister_user_payload ::
    "(int \<times> u64 \<times> u64) cam_private_ioctl_arg \<Rightarrow> ('f, 'd) sync_device \<Rightarrow> ('f, 'd) sync_device \<times> (errno + unit)" where
  "cam_sync_handle_deregister_user_payload k s =
     (case user_arg k of Inl e \<Rightarrow> (s, Inl e)
      | Inr (obj, payload) \<Rightarrow>
       (if obj_out_of_range obj then (s, Inl EINVAL)
        else
         (let i = nat obj; s = row_lock i s; row = sync_table s i in
          if row_state row = CAM_SYNC_STATE_INVALID then (row_unlock i s, Inl EINVAL)
          else
           (let s = upd_row i (\<lambda>r. r\<lparr>user_payload_list := removeAll payload (user_payload_list r)\<rparr>) s;
                s = (monitor_update i CAM_FENCE_OP_UNREGISTER_CB ^^ count_list (user_payload_list row) payload) s
            in (row_unlock i s, Inr ())))))"

section \<open>The device\<close>

definition zero_row :: "('f, 'd) sync_table_row" where
  "zero_row = \<lparr>row_name = '''', row_type = SYNC_TYPE_INDV, sync_id = 0, parents_list = [], children_list = [],
     row_state = 0, remaining = 0, signaled = False, callback_list = [], user_payload_list = [], ref_cnt = 0,
     ext_dma_fence = False, ext_synx_obj = False,
     dma_fence_info = \<lparr>dma_fence_fd = 0, dma_fence_row_idx = 0, sync_created_with_dma = False\<rparr>,
     synx_obj_info = \<lparr>synx_obj = 0, synx_obj_row_idx = 0, sync_created_with_synx = False\<rparr>\<rparr>"

text \<open>
  The device after \<open>cam_sync_component_bind\<close> (index 0 is never a fence) and a first \<open>cam_sync_open\<close>,
  which allocates the table of monitor chunks when the mask asks for it.
\<close>

definition cam_sync_fresh :: "bool \<Rightarrow> bool list \<Rightarrow> ('f, 'd) sync_device" where
  "cam_sync_fresh dbg alloc_outcomes = \<lparr>sync_table = (\<lambda>_. zero_row), row_spinlocks = (\<lambda>_. False),
     sync_bitmap = (\<lambda>i. i = 0), mon_data = (if dbg then Some (\<lambda>_. None) else None), monitor_mask = dbg,
     trigger_cb_without_switch = False, cam_sync_eventq = True, event_v2 = False, allocs = alloc_outcomes, now = 0,
     work_queue = [], called = [], events = [], dma_calls = [], dma_signal_fails = False, sync_bad = None\<rparr>"

definition close_signal :: "nat \<Rightarrow> ('f, 'd) sync_device \<Rightarrow> ('f, 'd) sync_device" where
  "close_signal i s = (if row_state (sync_table s i) = CAM_SYNC_STATE_ACTIVE
     then fst (cam_sync_signal (int i) CAM_SYNC_STATE_SIGNALED_ERROR CAM_SYNC_COMMON_RELEASE_EVENT s) else s)"

definition close_destroy :: "nat \<Rightarrow> ('f, 'd) sync_device \<Rightarrow> ('f, 'd) sync_device" where
  "close_destroy i s = (if row_state (sync_table s i) \<noteq> CAM_SYNC_STATE_INVALID
     then fst (cam_sync_destroy (int i) s) else s)"

text \<open>The last \<open>cam_sync_close\<close>: the work queue is flushed between the two loops.\<close>

definition flush_workqueue :: "('f, 'd) sync_device \<Rightarrow> ('f, 'd) sync_device" where
  "flush_workqueue s = (cam_sync_util_cb_dispatch ^^ length (work_queue s)) s"

definition cam_sync_close :: "('f, 'd) sync_device \<Rightarrow> ('f, 'd) sync_device" where
  "cam_sync_close s =
     (let s = fold close_signal [1..<CAM_SYNC_MAX_OBJS] s;
          s = flush_workqueue s;
          s = fold close_destroy [1..<CAM_SYNC_MAX_OBJS] s
      in s\<lparr>mon_data := None, cam_sync_eventq := False\<rparr>)"

end
