(* ===== verification/Cam_Sync_Correct.thy ===== *)
theory Cam_Sync_Correct
  imports Cam_Sync Slot_Spec
begin

text \<open>
  Correctness of the fence table: the row locks, what each API call leaves alone, the invariant that
  ties the count of outstanding children of a group to the links from its children, the delivery of
  signals, and the cases in which the code departs from them. The theorems on the table assume that
  the debug monitor is off, as it is by default; the monitor has its own section.
\<close>

section \<open>Frame lemmas\<close>

lemma upd_row_proj [simp]:
  "sync_table (upd_row i f s) = (sync_table s)(i := f (sync_table s i))"
  "row_spinlocks (upd_row i f s) = row_spinlocks s" "sync_bitmap (upd_row i f s) = sync_bitmap s"
  "mon_data (upd_row i f s) = mon_data s" "monitor_mask (upd_row i f s) = monitor_mask s"
  "trigger_cb_without_switch (upd_row i f s) = trigger_cb_without_switch s"
  "cam_sync_eventq (upd_row i f s) = cam_sync_eventq s" "event_v2 (upd_row i f s) = event_v2 s"
  "allocs (upd_row i f s) = allocs s" "work_queue (upd_row i f s) = work_queue s" "called (upd_row i f s) = called s"
  "events (upd_row i f s) = events s" "dma_calls (upd_row i f s) = dma_calls s"
  "dma_signal_fails (upd_row i f s) = dma_signal_fails s" "sync_bad (upd_row i f s) = sync_bad s"
  by (simp_all add: upd_row_def)

lemma row_lock_proj [simp]:
  "sync_table (row_lock i s) = sync_table s" "sync_bitmap (row_lock i s) = sync_bitmap s"
  "mon_data (row_lock i s) = mon_data s" "monitor_mask (row_lock i s) = monitor_mask s"
  "trigger_cb_without_switch (row_lock i s) = trigger_cb_without_switch s"
  "cam_sync_eventq (row_lock i s) = cam_sync_eventq s" "event_v2 (row_lock i s) = event_v2 s"
  "allocs (row_lock i s) = allocs s" "work_queue (row_lock i s) = work_queue s" "called (row_lock i s) = called s"
  "events (row_lock i s) = events s" "dma_calls (row_lock i s) = dma_calls s"
  "dma_signal_fails (row_lock i s) = dma_signal_fails s"
  by (simp_all add: row_lock_def)

lemma row_unlock_proj [simp]:
  "sync_table (row_unlock i s) = sync_table s" "sync_bitmap (row_unlock i s) = sync_bitmap s"
  "mon_data (row_unlock i s) = mon_data s" "monitor_mask (row_unlock i s) = monitor_mask s"
  "trigger_cb_without_switch (row_unlock i s) = trigger_cb_without_switch s"
  "cam_sync_eventq (row_unlock i s) = cam_sync_eventq s" "event_v2 (row_unlock i s) = event_v2 s"
  "allocs (row_unlock i s) = allocs s" "work_queue (row_unlock i s) = work_queue s" "called (row_unlock i s) = called s"
  "events (row_unlock i s) = events s" "dma_calls (row_unlock i s) = dma_calls s"
  "dma_signal_fails (row_unlock i s) = dma_signal_fails s" "sync_bad (row_unlock i s) = sync_bad s"
  "row_spinlocks (row_unlock i s) = (row_spinlocks s)(i := False)"
  by (simp_all add: row_unlock_def)

lemma row_lock_free [simp]:
  "\<not> row_spinlocks s i \<Longrightarrow> row_spinlocks (row_lock i s) = (row_spinlocks s)(i := True)"
  "\<not> row_spinlocks s i \<Longrightarrow> sync_bad (row_lock i s) = sync_bad s"
  by (simp_all add: row_lock_def)

lemma row_lock_held: "row_spinlocks s i \<Longrightarrow> row_lock i s = s\<lparr>sync_bad := Some Lock_Held\<rparr>"
  by (simp add: row_lock_def)

lemma monitor_off [simp]:
  "\<not> monitor_mask s \<Longrightarrow> monitor_update i op s = s" "\<not> monitor_mask s \<Longrightarrow> monitor_dump i s = s"
  by (simp_all add: monitor_update_def monitor_dump_def split: option.split)

lemma next_alloc_proj:
  assumes "next_alloc s = (ok, s')"
  shows "sync_table s' = sync_table s" "row_spinlocks s' = row_spinlocks s" "sync_bitmap s' = sync_bitmap s"
    "monitor_mask s' = monitor_mask s" "sync_bad s' = sync_bad s" "work_queue s' = work_queue s"
    "called s' = called s" "events s' = events s" "cam_sync_eventq s' = cam_sync_eventq s"
    "trigger_cb_without_switch s' = trigger_cb_without_switch s" "dma_calls s' = dma_calls s"
  using assms by (auto simp: next_alloc_def split: list.splits)

lemma next_alloc_nil [simp]: "allocs s = [] \<Longrightarrow> next_alloc s = (True, s)"
  by (simp add: next_alloc_def)

definition all_unlocked :: "('f, 'd) sync_device \<Rightarrow> bool" where
  "all_unlocked s \<longleftrightarrow> (\<forall>i. \<not> row_spinlocks s i)"

text \<open>
  A lock that is taken and released around changes of the rows leaves no trace: it is moved outward over
  the changes until it meets its release.
\<close>

lemma lock_over_row [simp]: "upd_row i f (row_lock c s) = row_lock c (upd_row i f s)"
  by (simp add: upd_row_def row_lock_def)

lemma lock_unlock [simp]: "\<not> row_spinlocks s c \<Longrightarrow> row_unlock c (row_lock c s) = s"
  by (cases s) (simp add: row_lock_def row_unlock_def fun_upd_idem)

lemma lock_over_effects [simp]:
  "queue_cb cb (row_lock c s) = row_lock c (queue_cb cb s)"
  "call_cb f i st d (row_lock c s) = row_lock c (call_cb f i st d s)"
  "cam_sync_util_send_v4l2_event i st p cause (row_lock c s) = row_lock c (cam_sync_util_send_v4l2_event i st p cause s)"
  "cam_sync_signal_dma_fence_util i st (row_lock c s) = row_lock c (cam_sync_signal_dma_fence_util i st s)"
  "complete_all i (row_lock c s) = row_lock c (complete_all i s)"
  by (simp_all add: queue_cb_def call_cb_def cam_sync_util_send_v4l2_event_def complete_all_def
      cam_sync_signal_dma_fence_util_def row_lock_def Let_def upd_row_def)

lemma effects_proj [simp]:
  "row_spinlocks (queue_cb cb s) = row_spinlocks s" "monitor_mask (queue_cb cb s) = monitor_mask s"
  "sync_table (queue_cb cb s) = sync_table s" "sync_bitmap (queue_cb cb s) = sync_bitmap s"
  "sync_bad (queue_cb cb s) = sync_bad s" "allocs (queue_cb cb s) = allocs s"
  "cam_sync_eventq (queue_cb cb s) = cam_sync_eventq s" "events (queue_cb cb s) = events s"
  "work_queue (queue_cb cb s) = work_queue s @ [cb]" "called (queue_cb cb s) = called s"
  "row_spinlocks (complete_all i s) = row_spinlocks s" "monitor_mask (complete_all i s) = monitor_mask s"
  "sync_bitmap (complete_all i s) = sync_bitmap s" "sync_bad (complete_all i s) = sync_bad s"
  "allocs (complete_all i s) = allocs s" "work_queue (complete_all i s) = work_queue s"
  "called (complete_all i s) = called s" "events (complete_all i s) = events s"
  "sync_table (complete_all i s) = (sync_table s)(i := (sync_table s i)\<lparr>signaled := True\<rparr>)"
  "row_spinlocks (cam_sync_util_send_v4l2_event i st p cause s) = row_spinlocks s"
  "monitor_mask (cam_sync_util_send_v4l2_event i st p cause s) = monitor_mask s"
  "sync_table (cam_sync_util_send_v4l2_event i st p cause s) = sync_table s"
  "sync_bitmap (cam_sync_util_send_v4l2_event i st p cause s) = sync_bitmap s"
  "sync_bad (cam_sync_util_send_v4l2_event i st p cause s) = sync_bad s"
  "allocs (cam_sync_util_send_v4l2_event i st p cause s) = allocs s"
  "work_queue (cam_sync_util_send_v4l2_event i st p cause s) = work_queue s"
  "called (cam_sync_util_send_v4l2_event i st p cause s) = called s"
  "cam_sync_eventq (cam_sync_util_send_v4l2_event i st p cause s) = cam_sync_eventq s"
  by (simp_all add: queue_cb_def complete_all_def cam_sync_util_send_v4l2_event_def)

text \<open>A device that can take requests: alive, no lock held, index 0 reserved; the monitor is off and memory is available.\<close>

definition ready :: "('f, 'd) sync_device \<Rightarrow> bool" where
  "ready s \<longleftrightarrow> (\<forall>i. \<not> row_spinlocks s i) \<and> sync_bad s = None \<and> \<not> monitor_mask s \<and> allocs s = [] \<and> sync_bitmap s 0"

lemma ready_proj:
  assumes "ready s"
  shows "\<not> row_spinlocks s i" "sync_bad s = None" "\<not> monitor_mask s" "allocs s = []" "sync_bitmap s 0"
  using assms by (simp_all add: ready_def)

section \<open>A merge that fails keeps a lock\<close>

text \<open>What the loop over the children does to the rows, when it succeeds.\<close>

primrec group_table ::
    "nat \<Rightarrow> nat list \<Rightarrow> (nat \<Rightarrow> ('f, 'd) sync_table_row) \<Rightarrow> (nat \<Rightarrow> ('f, 'd) sync_table_row)" where
  "group_table idx [] t = t"
| "group_table idx (c # cs) t = group_table idx cs
     (if row_state (t c) = CAM_SYNC_STATE_SIGNALED_ERROR \<or> row_state (t c) = CAM_SYNC_STATE_SIGNALED_CANCEL
      then t(idx := (t idx)\<lparr>row_state := row_state (t c)\<rparr>)
      else if row_state (t c) \<noteq> CAM_SYNC_STATE_ACTIVE then t
      else (let t = t(idx := (t idx)\<lparr>remaining := remaining (t idx) + 1, children_list := children_list (t idx) @ [c]\<rparr>)
            in t(c := (t c)\<lparr>parents_list := parents_list (t c) @ [idx]\<rparr>)))"

definition bad_child :: "('f, 'd) sync_table_row \<Rightarrow> bool" where
  "bad_child r \<longleftrightarrow> row_type r = SYNC_TYPE_GROUP \<or> row_state r = CAM_SYNC_STATE_INVALID"

lemma group_add_ok:
  assumes "\<forall>c \<in> set cs. \<not> row_spinlocks s c \<and> \<not> bad_child (sync_table s c)" "allocs s = []" "idx \<notin> set cs"
    "distinct cs"
  shows "group_add_children idx before cs s = (s\<lparr>sync_table := group_table idx cs (sync_table s)\<rparr>, None)"
  using assms
proof (induction cs arbitrary: before s)
  case Nil
  then show ?case by simp
next
  case (Cons c cs)
  note IH = Cons.IH [where before = "c # before"]
  have f: "\<not> row_spinlocks s c" "row_type (sync_table s c) \<noteq> SYNC_TYPE_GROUP"
    "row_state (sync_table s c) \<noteq> CAM_SYNC_STATE_INVALID" "c \<noteq> idx" "c \<notin> set cs"
    using Cons.prems by (auto simp: bad_child_def)
  consider (err) "row_state (sync_table s c) = CAM_SYNC_STATE_SIGNALED_ERROR \<or> row_state (sync_table s c) = CAM_SYNC_STATE_SIGNALED_CANCEL"
    | (fin) "\<not> (row_state (sync_table s c) = CAM_SYNC_STATE_SIGNALED_ERROR \<or> row_state (sync_table s c) = CAM_SYNC_STATE_SIGNALED_CANCEL)"
        "row_state (sync_table s c) \<noteq> CAM_SYNC_STATE_ACTIVE"
    | (act) "row_state (sync_table s c) = CAM_SYNC_STATE_ACTIVE" by auto
  then show ?case
  proof cases
    case err
    let ?s = "upd_row idx (\<lambda>r. r\<lparr>row_state := row_state (sync_table s c)\<rparr>) s"
    have "\<forall>d \<in> set cs. \<not> row_spinlocks ?s d \<and> \<not> bad_child (sync_table ?s d)"
      using Cons.prems f by (auto simp: bad_child_def)
    then have "group_add_children idx (c # before) cs ?s
        = (?s\<lparr>sync_table := group_table idx cs (sync_table ?s)\<rparr>, None)"
      using Cons.prems by (intro IH) simp_all
    moreover have "?s\<lparr>sync_table := t\<rparr> = s\<lparr>sync_table := t\<rparr>" for t by (simp add: upd_row_def)
    ultimately show ?thesis using f err Cons.prems(2) by (simp add: Let_def) 
  next
    case fin
    then show ?thesis using f Cons.prems IH [of s] by (simp add: Let_def)
  next
    case act
    let ?s = "upd_row c (\<lambda>r. r\<lparr>parents_list := parents_list r @ [idx]\<rparr>)
      (upd_row idx (\<lambda>r. r\<lparr>children_list := children_list r @ [c]\<rparr>)
        (upd_row idx (\<lambda>r. r\<lparr>remaining := remaining r + 1\<rparr>) s))"
    have all: "\<forall>d \<in> set cs. \<not> row_spinlocks ?s d \<and> \<not> bad_child (sync_table ?s d)"
      using Cons.prems f by (auto simp: bad_child_def)
    have "group_add_children idx (c # before) cs ?s
        = (?s\<lparr>sync_table := group_table idx cs (sync_table ?s)\<rparr>, None)"
      by (rule IH [OF all]) (use Cons.prems in simp_all)
    moreover have "?s\<lparr>sync_table := t\<rparr> = s\<lparr>sync_table := t\<rparr>" for t by (simp add: upd_row_def)
    ultimately show ?thesis using f act Cons.prems(2) by (simp add: Let_def)
  qed
qed

section \<open>What a signal does\<close>

text \<open>The row and the outputs of an object that has signaled with \<open>st\<close>.\<close>

definition fire_row :: "bool \<Rightarrow> ('f, 'd) sync_table_row \<Rightarrow> ('f, 'd) sync_table_row" where
  "fire_row eventq r = r\<lparr>callback_list := [], user_payload_list := (if eventq then [] else user_payload_list r), signaled := True\<rparr>"

definition fire_work :: "u32 \<Rightarrow> ('f, 'd) sync_table_row \<Rightarrow> ('f, 'd) sync_callback_info list" where
  "fire_work st r = map (\<lambda>cb. cb\<lparr>cb_status := st\<rparr>) (callback_list r)"

definition fire_events :: "('f, 'd) sync_device \<Rightarrow> nat \<Rightarrow> u32 \<Rightarrow> u32 \<Rightarrow> ('f, 'd) sync_table_row \<Rightarrow> sync_event list" where
  "fire_events s i st cause r =
     (if cam_sync_eventq s
      then map (\<lambda>p. if event_v2 s then Event_V2 i st p cause else Event_V1 i st p) (user_payload_list r) else [])"

lemma upd_twice [simp]: "(\<lambda>x. if x = i then a else if x = i then b else f x) = (\<lambda>x. if x = i then a else f x)"
  by (rule ext) simp

lemma dispatch_callbacks_eq:
  assumes "\<not> monitor_mask s" "callback_list (sync_table s i) = cbs"
  shows "dispatch_callbacks i st cbs s =
    s\<lparr>sync_table := (sync_table s)(i := (sync_table s i)\<lparr>callback_list := []\<rparr>),
      work_queue := work_queue s @ map (\<lambda>cb. cb\<lparr>cb_status := st\<rparr>) cbs\<rparr>"
  using assms
proof (induction cbs arbitrary: s)
  case Nil
  then have "(sync_table s)(i := (sync_table s i)\<lparr>callback_list := []\<rparr>) = sync_table s" by (simp add: fun_upd_idem)
  then show ?case by simp
next
  case (Cons cb cbs)
  let ?s = "queue_cb (cb\<lparr>cb_status := st\<rparr>) (upd_row i (\<lambda>r. r\<lparr>callback_list := cbs\<rparr>) s)"
  have "dispatch_callbacks i st cbs ?s =
    ?s\<lparr>sync_table := (sync_table ?s)(i := (sync_table ?s i)\<lparr>callback_list := []\<rparr>),
      work_queue := work_queue ?s @ map (\<lambda>cb. cb\<lparr>cb_status := st\<rparr>) cbs\<rparr>"
    by (rule Cons.IH) (use Cons.prems in simp_all)
  then show ?case using Cons.prems(1) by (simp add: queue_cb_def upd_row_def fun_upd_def)
qed

lemma dispatch_payloads_eq:
  assumes "\<not> monitor_mask s" "cam_sync_eventq s" "user_payload_list (sync_table s i) = ps"
  shows "dispatch_payloads i st cause ps s =
    s\<lparr>sync_table := (sync_table s)(i := (sync_table s i)\<lparr>user_payload_list := []\<rparr>),
      events := events s @ map (\<lambda>p. if event_v2 s then Event_V2 i st p cause else Event_V1 i st p) ps\<rparr>"
  using assms
proof (induction ps arbitrary: s)
  case Nil
  then have "(sync_table s)(i := (sync_table s i)\<lparr>user_payload_list := []\<rparr>) = sync_table s" by (simp add: fun_upd_idem)
  then show ?case by simp
next
  case (Cons p ps)
  let ?s = "upd_row i (\<lambda>r. r\<lparr>user_payload_list := ps\<rparr>) (cam_sync_util_send_v4l2_event i st p cause s)"
  have "dispatch_payloads i st cause ps ?s =
    ?s\<lparr>sync_table := (sync_table ?s)(i := (sync_table ?s i)\<lparr>user_payload_list := []\<rparr>),
      events := events ?s @ map (\<lambda>p. if event_v2 ?s then Event_V2 i st p cause else Event_V1 i st p) ps\<rparr>"
    by (rule Cons.IH) (use Cons.prems in simp_all)
  moreover have "event_v2 ?s = event_v2 s" by (simp add: cam_sync_util_send_v4l2_event_def)
  ultimately show ?case using Cons.prems by (simp add: cam_sync_util_send_v4l2_event_def upd_row_def fun_upd_def)
qed

lemma dispatch_payloads_closed: "\<not> cam_sync_eventq s \<Longrightarrow> dispatch_payloads i st cause ps s = s"
  by (cases ps) simp_all

lemma dispatch_signaled_eq:
  assumes "\<not> monitor_mask s" "row_state (sync_table s i) \<noteq> CAM_SYNC_STATE_INVALID"
  shows "cam_sync_util_dispatch_signaled_cb i st cause s =
    s\<lparr>sync_table := (sync_table s)(i := fire_row (cam_sync_eventq s) (sync_table s i)),
      work_queue := work_queue s @ fire_work st (sync_table s i),
      events := events s @ fire_events s i st cause (sync_table s i)\<rparr>"
proof -
  let ?s = "s\<lparr>sync_table := (sync_table s)(i := (sync_table s i)\<lparr>callback_list := []\<rparr>),
      work_queue := work_queue s @ map (\<lambda>cb. cb\<lparr>cb_status := st\<rparr>) (callback_list (sync_table s i))\<rparr>"
  have 1: "dispatch_callbacks i st (callback_list (sync_table s i)) s = ?s"
    by (rule dispatch_callbacks_eq [OF assms(1)]) simp
  show ?thesis
  proof (cases "cam_sync_eventq s")
    case True
    have "dispatch_payloads i st cause (user_payload_list (sync_table s i)) ?s =
      ?s\<lparr>sync_table := (sync_table ?s)(i := (sync_table ?s i)\<lparr>user_payload_list := []\<rparr>),
        events := events ?s @ map (\<lambda>p. if event_v2 ?s then Event_V2 i st p cause else Event_V1 i st p)
          (user_payload_list (sync_table s i))\<rparr>"
      by (rule dispatch_payloads_eq) (use assms(1) True in simp_all)
    then show ?thesis using assms(2) True 1
      by (simp add: cam_sync_util_dispatch_signaled_cb_def Let_def fire_row_def fire_work_def fire_events_def
          complete_all_def upd_row_def)
  next
    case False
    then show ?thesis using assms(2) 1
      by (simp add: cam_sync_util_dispatch_signaled_cb_def Let_def dispatch_payloads_closed fire_row_def fire_work_def
          fire_events_def complete_all_def upd_row_def)
  qed
qed

text \<open>What one child's signal with \<open>st\<close> makes of a row that has it as a child, and what it puts out.\<close>

definition parent_state :: "u32 \<Rightarrow> ('f, 'd) sync_table_row \<Rightarrow> u32" where
  "parent_state st r =
     (if row_state r = CAM_SYNC_STATE_ACTIVE \<or> row_state r = CAM_SYNC_STATE_SIGNALED_SUCCESS then st else row_state r)"

definition parent_row :: "bool \<Rightarrow> u32 \<Rightarrow> ('f, 'd) sync_table_row \<Rightarrow> ('f, 'd) sync_table_row" where
  "parent_row eventq st r =
     (let r' = r\<lparr>remaining := remaining r - 1, row_state := parent_state st r\<rparr>
      in if remaining r = 1 then fire_row eventq r' else r')"

definition parent_work :: "u32 \<Rightarrow> ('f, 'd) sync_table_row \<Rightarrow> ('f, 'd) sync_callback_info list" where
  "parent_work st r = (if remaining r = 1 then fire_work (parent_state st r) r else [])"

definition parent_events :: "('f, 'd) sync_device \<Rightarrow> u32 \<Rightarrow> u32 \<Rightarrow> nat \<Rightarrow> ('f, 'd) sync_table_row \<Rightarrow> sync_event list" where
  "parent_events s st cause p r = (if remaining r = 1 then fire_events s p (parent_state st r) cause r else [])"

definition live_state :: "u32 \<Rightarrow> bool" where
  "live_state st \<longleftrightarrow> st = CAM_SYNC_STATE_ACTIVE \<or> is_signaled st"

lemma update_parent_state_eq:
  "live_state (row_state r) \<Longrightarrow> cam_sync_util_update_parent_state (row_state r) st = Inr (parent_state st r)"
  by (auto simp: cam_sync_util_update_parent_state_def parent_state_def live_state_def is_signaled_def)

lemma dispatch_over_lock [simp]:
  assumes "\<not> monitor_mask s"
  shows "cam_sync_util_dispatch_signaled_cb i st cause (row_lock c s)
    = row_lock c (cam_sync_util_dispatch_signaled_cb i st cause s)"
proof (cases "row_state (sync_table s i) = CAM_SYNC_STATE_INVALID")
  case True
  then show ?thesis by (simp add: cam_sync_util_dispatch_signaled_cb_def)
next
  case False
  moreover have "fire_events (row_lock c s) i st cause r = fire_events s i st cause r" for r by (simp add: fire_events_def)
  ultimately show ?thesis
    using assms by (simp add: dispatch_signaled_eq) (simp add: row_lock_def)
qed

lemma dispatch_proj [simp]:
  assumes "\<not> monitor_mask s"
  shows "row_spinlocks (cam_sync_util_dispatch_signaled_cb i st cause s) = row_spinlocks s"
    "monitor_mask (cam_sync_util_dispatch_signaled_cb i st cause s) = monitor_mask s"
proof -
  show "row_spinlocks (cam_sync_util_dispatch_signaled_cb i st cause s) = row_spinlocks s"
    using dispatch_signaled_eq [OF assms, of i] assms
    by (cases "row_state (sync_table s i) = CAM_SYNC_STATE_INVALID") (simp_all add: cam_sync_util_dispatch_signaled_cb_def)
  show "monitor_mask (cam_sync_util_dispatch_signaled_cb i st cause s) = monitor_mask s"
    using dispatch_signaled_eq [OF assms, of i] assms
    by (cases "row_state (sync_table s i) = CAM_SYNC_STATE_INVALID") (simp_all add: cam_sync_util_dispatch_signaled_cb_def)
qed

lemma parent_step_eq:
  assumes "\<not> monitor_mask s" "\<not> row_spinlocks s p" "live_state (row_state (sync_table s p))" "live_state st"
  shows "cam_sync_signal_parent_util st cause [p] s =
    s\<lparr>sync_table := (sync_table s)(p := parent_row (cam_sync_eventq s) st (sync_table s p)),
      work_queue := work_queue s @ parent_work st (sync_table s p),
      events := events s @ parent_events s st cause p (sync_table s p)\<rparr>"
proof -
  let ?r = "sync_table s p"
  let ?s = "upd_row p (\<lambda>r. r\<lparr>row_state := parent_state st ?r\<rparr>) (upd_row p (\<lambda>r. r\<lparr>remaining := remaining r - 1\<rparr>) s)"
  have ne: "parent_state st ?r \<noteq> CAM_SYNC_STATE_INVALID"
    using assms(3,4) by (auto simp: parent_state_def live_state_def is_signaled_def)
  have rem: "remaining ?r - 1 = 0 \<longleftrightarrow> remaining ?r = 1" by simp
  have 1: "cam_sync_signal_parent_util st cause [p] s =
      (if remaining ?r = 1 then cam_sync_util_dispatch_signaled_cb p (parent_state st ?r) cause ?s else ?s)"
    using assms rem update_parent_state_eq [OF assms(3), of st] by (simp add: Let_def)
  show ?thesis
  proof (cases "remaining ?r = 1")
    case True
    have "cam_sync_util_dispatch_signaled_cb p (parent_state st ?r) cause ?s =
      ?s\<lparr>sync_table := (sync_table ?s)(p := fire_row (cam_sync_eventq ?s) (sync_table ?s p)),
        work_queue := work_queue ?s @ fire_work (parent_state st ?r) (sync_table ?s p),
        events := events ?s @ fire_events ?s p (parent_state st ?r) cause (sync_table ?s p)\<rparr>"
      by (rule dispatch_signaled_eq) (use ne assms(1) in simp_all)
    then show ?thesis unfolding 1 using True
      by (simp add: parent_row_def parent_work_def parent_events_def fire_work_def fire_events_def upd_row_def fun_upd_def)
  next
    case False
    then show ?thesis unfolding 1
      by (simp add: parent_row_def parent_work_def parent_events_def upd_row_def fun_upd_def)
  qed
qed

lemma signal_parents_eq:
  assumes "\<not> monitor_mask s" "\<forall>p \<in> set ps. \<not> row_spinlocks s p \<and> live_state (row_state (sync_table s p))"
    "live_state st" "distinct ps"
  shows "cam_sync_signal_parent_util st cause ps s =
    s\<lparr>sync_table := (\<lambda>j. if j \<in> set ps then parent_row (cam_sync_eventq s) st (sync_table s j) else sync_table s j),
      work_queue := work_queue s @ concat (map (\<lambda>p. parent_work st (sync_table s p)) ps),
      events := events s @ concat (map (\<lambda>p. parent_events s st cause p (sync_table s p)) ps)\<rparr>"
  using assms
proof (induction ps arbitrary: s)
  case Nil
  then show ?case by simp
next
  case (Cons p ps)
  let ?s = "s\<lparr>sync_table := (sync_table s)(p := parent_row (cam_sync_eventq s) st (sync_table s p)),
      work_queue := work_queue s @ parent_work st (sync_table s p),
      events := events s @ parent_events s st cause p (sync_table s p)\<rparr>"
  have np: "p \<notin> set ps" using Cons.prems(4) by simp
  have "cam_sync_signal_parent_util st cause (p # ps) s
      = cam_sync_signal_parent_util st cause ps (cam_sync_signal_parent_util st cause [p] s)" by simp
  also have "cam_sync_signal_parent_util st cause [p] s = ?s"
    by (rule parent_step_eq) (use Cons.prems in simp_all)
  also have "cam_sync_signal_parent_util st cause ps ?s =
    ?s\<lparr>sync_table := (\<lambda>j. if j \<in> set ps then parent_row (cam_sync_eventq ?s) st (sync_table ?s j) else sync_table ?s j),
      work_queue := work_queue ?s @ concat (map (\<lambda>p. parent_work st (sync_table ?s p)) ps),
      events := events ?s @ concat (map (\<lambda>p. parent_events ?s st cause p (sync_table ?s p)) ps)\<rparr>"
    by (rule Cons.IH) (use Cons.prems np in \<open>auto\<close>)
  also have "\<dots> = s\<lparr>sync_table := (\<lambda>j. if j \<in> set (p # ps) then parent_row (cam_sync_eventq s) st (sync_table s j) else sync_table s j),
      work_queue := work_queue s @ concat (map (\<lambda>p. parent_work st (sync_table s p)) (p # ps)),
      events := events s @ concat (map (\<lambda>p. parent_events s st cause p (sync_table s p)) (p # ps))\<rparr>"
  proof -
    have t: "(\<lambda>j. if j \<in> set ps then parent_row (cam_sync_eventq ?s) st (sync_table ?s j) else sync_table ?s j)
      = (\<lambda>j. if j \<in> set (p # ps) then parent_row (cam_sync_eventq s) st (sync_table s j) else sync_table s j)"
      by (rule ext) (use np in simp)
    have w: "map (\<lambda>p. parent_work st (sync_table ?s p)) ps = map (\<lambda>p. parent_work st (sync_table s p)) ps"
      using np by (intro map_cong) auto
    have e: "map (\<lambda>p. parent_events ?s st cause p (sync_table ?s p)) ps
      = map (\<lambda>p. parent_events s st cause p (sync_table s p)) ps"
      using np by (intro map_cong) (auto simp: parent_events_def fire_events_def)
    show ?thesis unfolding t w e by simp
  qed
  finally show ?case .
qed

section \<open>The invariant\<close>

text \<open>
  A row by itself: a fence has one of the four states and its own index, an individual fence is complete
  when it has left the active state and a group when no child is outstanding, and nobody waits in the
  lists of a complete fence.
\<close>

definition row_complete :: "('f, 'd) sync_table_row \<Rightarrow> bool" where
  "row_complete r \<longleftrightarrow> (case row_type r of SYNC_TYPE_INDV \<Rightarrow> row_state r \<noteq> CAM_SYNC_STATE_ACTIVE
                                         | SYNC_TYPE_GROUP \<Rightarrow> remaining r = 0)"

definition alive :: "('f, 'd) sync_table_row \<Rightarrow> bool" where
  "alive r \<longleftrightarrow> row_state r \<noteq> CAM_SYNC_STATE_INVALID"

definition row_ok :: "bool \<Rightarrow> nat \<Rightarrow> ('f, 'd) sync_table_row \<Rightarrow> bool" where
  "row_ok eventq i r \<longleftrightarrow> distinct (parents_list r) \<and> distinct (children_list r) \<and> 0 \<notin> set (children_list r)
     \<and> (alive r \<longrightarrow> live_state (row_state r) \<and> sync_id r = i \<and> (signaled r \<longleftrightarrow> row_complete r)
        \<and> (row_type r = SYNC_TYPE_INDV \<longrightarrow> remaining r = 0)
        \<and> (signaled r \<longrightarrow> row_state r \<noteq> CAM_SYNC_STATE_ACTIVE \<and> callback_list r = []
                             \<and> (eventq \<longrightarrow> user_payload_list r = [])))"

text \<open>The children that a group still waits for.\<close>

definition waiting :: "(nat \<Rightarrow> ('f, 'd) sync_table_row) \<Rightarrow> nat \<Rightarrow> nat set" where
  "waiting t p = {c. p \<in> set (parents_list (t c))}"

text \<open>
  The links. \<open>dt p\<close> is what the count of group \<open>p\<close> is too large by: nothing, while no fence is destroyed that a group waits for
  (\<open>no_debt\<close>).
\<close>

abbreviation no_debt :: "nat \<Rightarrow> nat" where
  "no_debt \<equiv> \<lambda>_. 0"

definition links_ok :: "(nat \<Rightarrow> nat) \<Rightarrow> (nat \<Rightarrow> ('f, 'd) sync_table_row) \<Rightarrow> bool" where
  "links_ok dt t \<longleftrightarrow>
     (\<forall>c p. p \<in> set (parents_list (t c)) \<longrightarrow>
        row_state (t c) = CAM_SYNC_STATE_ACTIVE \<and> row_type (t c) = SYNC_TYPE_INDV
        \<and> alive (t p) \<and> row_type (t p) = SYNC_TYPE_GROUP \<and> c \<in> set (children_list (t p)))
     \<and> (\<forall>p. alive (t p) \<and> row_type (t p) = SYNC_TYPE_GROUP \<longrightarrow> remaining (t p) = of_nat (card (waiting t p) + dt p))
     \<and> (\<forall>p. dt p \<noteq> 0 \<longrightarrow> dt p = 1 \<and> alive (t p) \<and> row_type (t p) = SYNC_TYPE_GROUP)"

definition slots_ok :: "('f, 'd) sync_device \<Rightarrow> bool" where
  "slots_ok s \<longleftrightarrow> (\<forall>i. alive (sync_table s i) \<longrightarrow> 0 < i \<and> i < CAM_SYNC_MAX_OBJS)
     \<and> (\<forall>i < CAM_SYNC_MAX_OBJS. sync_bitmap s i \<longleftrightarrow> i = 0 \<or> alive (sync_table s i))"

definition sync_wf :: "(nat \<Rightarrow> nat) \<Rightarrow> ('f, 'd) sync_device \<Rightarrow> bool" where
  "sync_wf dt s \<longleftrightarrow> (\<forall>i. row_ok (cam_sync_eventq s) i (sync_table s i)) \<and> links_ok dt (sync_table s) \<and> slots_ok s"

lemma sync_wfD:
  assumes "sync_wf dt s"
  shows "row_ok (cam_sync_eventq s) i (sync_table s i)" "links_ok dt (sync_table s)" "slots_ok s"
  using assms by (simp_all add: sync_wf_def)

lemma live_alive: "live_state (row_state r) \<Longrightarrow> alive r"
  by (auto simp: live_state_def alive_def is_signaled_def)

lemma linkD:
  assumes "links_ok dt t" "p \<in> set (parents_list (t c))"
  shows "row_state (t c) = CAM_SYNC_STATE_ACTIVE" "row_type (t c) = SYNC_TYPE_INDV" "alive (t c)"
    "alive (t p)" "row_type (t p) = SYNC_TYPE_GROUP" "c \<in> set (children_list (t p))" "c \<noteq> p"
proof -
  show *: "row_state (t c) = CAM_SYNC_STATE_ACTIVE" "row_type (t c) = SYNC_TYPE_INDV"
    "alive (t p)" "row_type (t p) = SYNC_TYPE_GROUP" "c \<in> set (children_list (t p))"
    using assms unfolding links_ok_def by blast+
  show "alive (t c)" using * by (simp add: alive_def)
  show "c \<noteq> p" using * by auto
qed

lemma remainingD:
  "links_ok dt t \<Longrightarrow> alive (t p) \<Longrightarrow> row_type (t p) = SYNC_TYPE_GROUP \<Longrightarrow> remaining (t p) = of_nat (card (waiting t p) + dt p)"
  by (simp add: links_ok_def)

lemma debtD:
  assumes "links_ok dt t"
  shows "dt p \<le> 1" "dt p \<noteq> 0 \<Longrightarrow> alive (t p) \<and> row_type (t p) = SYNC_TYPE_GROUP"
  using assms by (auto simp: links_ok_def) (metis le_refl not_gr_zero less_Suc_eq_le zero_le)

lemma waiting_bound:
  assumes "links_ok dt (sync_table s)" "slots_ok s"
  shows "finite (waiting (sync_table s) p)" "card (waiting (sync_table s) p) < CAM_SYNC_MAX_OBJS"
proof -
  have sub: "waiting (sync_table s) p \<subseteq> {1..<CAM_SYNC_MAX_OBJS}"
    using assms linkD(3) [OF assms(1)] by (fastforce simp: waiting_def slots_ok_def)
  then show "finite (waiting (sync_table s) p)" by (rule finite_subset) simp
  show "card (waiting (sync_table s) p) < CAM_SYNC_MAX_OBJS"
    using card_mono [OF _ sub] by (simp add: CAM_SYNC_MAX_OBJS_def)
qed

lemma remaining_nat:
  assumes "links_ok dt (sync_table s)" "slots_ok s" "alive (sync_table s p)" "row_type (sync_table s p) = SYNC_TYPE_GROUP"
  shows "unat (remaining (sync_table s p)) = card (waiting (sync_table s) p) + dt p"
proof -
  have "card (waiting (sync_table s) p) + dt p < 2 ^ 32"
    using waiting_bound(2) [OF assms(1,2), of p] debtD(1) [OF assms(1), of p] by (simp add: CAM_SYNC_MAX_OBJS_def)
  then show ?thesis using remainingD [OF assms(1,3,4)] by (simp add: unat_of_nat del: of_nat_add)
qed

text \<open>The links only depend on five fields of the rows.\<close>

lemma links_frame:
  assumes "links_ok dt t"
    "\<And>i. row_state (t' i) = row_state (t i) \<and> row_type (t' i) = row_type (t i) \<and> parents_list (t' i) = parents_list (t i)
       \<and> children_list (t' i) = children_list (t i) \<and> remaining (t' i) = remaining (t i)"
  shows "links_ok dt t'"
  using assms by (simp add: links_ok_def waiting_def alive_def)

text \<open>A change of one row that keeps those five, and is right for the row, keeps the invariant.\<close>

lemma wf_row_change:
  assumes "sync_wf dt s" "row_ok (cam_sync_eventq s) i (f (sync_table s i))"
    "row_state (f (sync_table s i)) = row_state (sync_table s i)" "row_type (f (sync_table s i)) = row_type (sync_table s i)"
    "parents_list (f (sync_table s i)) = parents_list (sync_table s i)"
    "children_list (f (sync_table s i)) = children_list (sync_table s i)"
    "remaining (f (sync_table s i)) = remaining (sync_table s i)"
  shows "sync_wf dt (upd_row i f s)"
proof -
  have "links_ok dt (sync_table (upd_row i f s))"
    by (rule links_frame [OF sync_wfD(2) [OF assms(1)]]) (simp add: assms)
  then show ?thesis
    using assms sync_wfD(3) [OF assms(1)] unfolding sync_wf_def slots_ok_def alive_def
    by (auto simp: sync_wfD(1))
qed

lemma wf_frame:
  assumes "sync_wf dt s" "sync_table s' = sync_table s" "sync_bitmap s' = sync_bitmap s" "cam_sync_eventq s' = cam_sync_eventq s"
  shows "sync_wf dt s'"
  using assms by (simp add: sync_wf_def slots_ok_def)

section \<open>Signals keep the invariant\<close>

text \<open>The device after a signal that took effect.\<close>

definition dma_told :: "('f, 'd) sync_table_row \<Rightarrow> u32 \<Rightarrow> dma_call list" where
  "dma_told r st =
     (if \<not> ext_dma_fence r then []
      else [(let d = dma_fence_info r in
             if st = CAM_SYNC_STATE_SIGNALED_SUCCESS then Dma_Signal_Ok (dma_fence_row_idx d) (dma_fence_fd d)
             else Dma_Signal (dma_fence_row_idx d) (dma_fence_fd d)
                    (if st = CAM_SYNC_STATE_SIGNALED_ERROR then EADV else ECANCELED))])"

definition signal_table ::
    "bool \<Rightarrow> nat \<Rightarrow> u32 \<Rightarrow> (nat \<Rightarrow> ('f, 'd) sync_table_row) \<Rightarrow> (nat \<Rightarrow> ('f, 'd) sync_table_row)" where
  "signal_table eventq i st t =
     (\<lambda>j. if j = i then (fire_row eventq (t i))\<lparr>ref_cnt := 0, row_state := st, parents_list := []\<rparr>
          else if j \<in> set (parents_list (t i)) then parent_row eventq st (t j) else t j)"

definition signaled_device :: "nat \<Rightarrow> u32 \<Rightarrow> u32 \<Rightarrow> ('f, 'd) sync_device \<Rightarrow> ('f, 'd) sync_device" where
  "signaled_device i st cause s =
     (let t = sync_table s; ps = parents_list (t i) in
      s\<lparr>sync_table := signal_table (cam_sync_eventq s) i st t,
        dma_calls := dma_calls s @ dma_told (t i) st,
        work_queue := work_queue s @ fire_work st (t i) @ concat (map (\<lambda>p. parent_work st (t p)) ps),
        events := events s @ fire_events s i st cause (t i) @ concat (map (\<lambda>p. parent_events s st cause p (t p)) ps)\<rparr>)"

lemma signal_dma_eq:
  assumes "is_signaled st"
  shows "cam_sync_signal_dma_fence_util i st s
    = s\<lparr>dma_calls := dma_calls s @ dma_told ((sync_table s i)\<lparr>ext_dma_fence := True\<rparr>) st\<rparr>"
  using assms by (auto simp: cam_sync_signal_dma_fence_util_def dma_told_def Let_def is_signaled_def)

lemma dma_over_lock [simp]: "dma_told (sync_table (row_lock c s) i) st = dma_told (sync_table s i) st"
  by simp

text \<open>The row fires, its links to its groups are cut, and the groups are told; \<open>c\<close> are the calls to the DMA fence code so far.\<close>

lemma fire_and_tell_parents:
  fixes i :: nat and cause :: u32 and c :: "dma_call list"
  assumes "ready s" "sync_wf dt s" "is_signaled st"
  defines "b \<equiv> upd_row i (\<lambda>r. r\<lparr>ref_cnt := 0, row_state := st\<rparr>) s\<lparr>dma_calls := c\<rparr>"
  defines "d \<equiv> upd_row i (\<lambda>r. r\<lparr>parents_list := []\<rparr>) (cam_sync_util_dispatch_signaled_cb i st cause b)"
  shows "parents_list (sync_table (cam_sync_util_dispatch_signaled_cb i st cause b) i) = parents_list (sync_table s i)"
    "row_spinlocks d = row_spinlocks s" "monitor_mask d = monitor_mask s"
    "cam_sync_signal_parent_util st cause (parents_list (sync_table s i)) d = (signaled_device i st cause s)\<lparr>dma_calls := c\<rparr>"
proof -
  note r = ready_proj [OF assms(1)]
  let ?t = "sync_table s" and ?r = "sync_table s i"
  let ?c = "cam_sync_util_dispatch_signaled_cb i st cause b"
  have st: "st \<noteq> CAM_SYNC_STATE_INVALID" "live_state st" using assms(3) by (auto simp: is_signaled_def live_state_def)
  have ps: "p \<in> set (parents_list ?r) \<Longrightarrow> p \<noteq> i \<and> live_state (row_state (?t p))" for p
    using linkD [OF sync_wfD(2) [OF assms(2)]] sync_wfD(1) [OF assms(2), of p] unfolding row_ok_def by metis
  have dist: "distinct (parents_list ?r)" using sync_wfD(1) [OF assms(2), of i] by (simp add: row_ok_def)
  have c: "?c = b\<lparr>sync_table := (sync_table b)(i := fire_row (cam_sync_eventq b) (sync_table b i)),
      work_queue := work_queue b @ fire_work st (sync_table b i),
      events := events b @ fire_events b i st cause (sync_table b i)\<rparr>"
    by (rule dispatch_signaled_eq) (use r st in \<open>simp_all add: b_def\<close>)
  have row: "(fire_row e (?r\<lparr>ref_cnt := a, row_state := b\<rparr>))\<lparr>parents_list := []\<rparr>
      = (fire_row e ?r)\<lparr>ref_cnt := a, row_state := b, parents_list := []\<rparr>" for e a b
    by (simp add: fire_row_def)
  have d: "d = s\<lparr>sync_table := ?t(i := (fire_row (cam_sync_eventq s) ?r)\<lparr>ref_cnt := 0, row_state := st, parents_list := []\<rparr>),
      dma_calls := c, work_queue := work_queue s @ fire_work st ?r,
      events := events s @ fire_events s i st cause ?r\<rparr>"
    unfolding d_def c using row by (simp add: b_def upd_row_def fun_upd_def fire_work_def fire_events_def)
  show "parents_list (sync_table ?c i) = parents_list ?r"
    unfolding c by (simp add: fire_row_def b_def)
  show "row_spinlocks d = row_spinlocks s" "monitor_mask d = monitor_mask s" unfolding d by simp_all
  have "\<forall>p \<in> set (parents_list ?r). \<not> row_spinlocks d p \<and> live_state (row_state (sync_table d p))"
    unfolding d using r ps by simp
  note sp = signal_parents_eq [OF _ this st(2) dist, of cause]
  have t: "(\<lambda>j. if j \<in> set (parents_list ?r) then parent_row (cam_sync_eventq d) st (sync_table d j) else sync_table d j)
    = signal_table (cam_sync_eventq s) i st ?t"
    unfolding d signal_table_def by (rule ext) (use ps in auto)
  have w: "map (\<lambda>p. parent_work st (sync_table d p)) (parents_list ?r) = map (\<lambda>p. parent_work st (?t p)) (parents_list ?r)"
    unfolding d using ps by (intro map_cong) auto
  have e: "map (\<lambda>p. parent_events d st cause p (sync_table d p)) (parents_list ?r)
    = map (\<lambda>p. parent_events s st cause p (?t p)) (parents_list ?r)"
    unfolding d using ps by (intro map_cong) (auto simp: parent_events_def fire_events_def)
  have m: "\<not> monitor_mask d" unfolding d using r by simp
  show "cam_sync_signal_parent_util st cause (parents_list ?r) d = (signaled_device i st cause s)\<lparr>dma_calls := c\<rparr>"
    unfolding sp [OF m] t w e by (simp add: d signaled_device_def Let_def)
qed

lemma signal_effect:
  assumes "ready s" "sync_wf dt s" "0 < i" "i < CAM_SYNC_MAX_OBJS" "row_type (sync_table s i) = SYNC_TYPE_INDV"
    "row_state (sync_table s i) = CAM_SYNC_STATE_ACTIVE" "ref_cnt (sync_table s i) = 1" "is_signaled st"
  shows "cam_sync_signal (int i) st cause s = (signaled_device i st cause s, Inr ())"
proof -
  note r = ready_proj [OF assms(1)]
  let ?r = "sync_table s i" and ?c = "dma_calls s @ dma_told (sync_table s i) st"
  let ?a = "upd_row i (\<lambda>r. r\<lparr>ref_cnt := 0, row_state := st\<rparr>) s"
  let ?b = "?a\<lparr>dma_calls := ?c\<rparr>"
  have range: "\<not> obj_out_of_range (int i)" using assms(3,4) by (simp add: obj_out_of_range_def)
  have valid: "cam_sync_signal_validate_util st ?r = Inr ()"
    using assms(5,6,8) by (auto simp: cam_sync_signal_validate_util_def is_signaled_def)
  have a: "upd_row i (\<lambda>r. r\<lparr>row_state := st\<rparr>) (upd_row i (\<lambda>r. r\<lparr>ref_cnt := ref_cnt r - 1\<rparr>) s) = ?a"
    using assms(7) by (simp add: upd_row_def)
  note fire = fire_and_tell_parents [OF assms(1,2,8), where i = i and c = ?c and cause = cause]
  have same: "(signaled_device i st cause s)\<lparr>dma_calls := ?c\<rparr> = signaled_device i st cause s"
    by (simp add: signaled_device_def Let_def)
  have "cam_sync_signal (int i) st cause s = (cam_sync_signal_parent_util st cause (parents_list ?r)
      (upd_row i (\<lambda>r. r\<lparr>parents_list := []\<rparr>) (cam_sync_util_dispatch_signaled_cb i st cause ?b)), Inr ())"
  proof (cases "ext_dma_fence ?r")
    case True
    then have "dma_told (?r\<lparr>ref_cnt := x, row_state := y, ext_dma_fence := True\<rparr>) st = dma_told ?r st" for x y
      by (simp add: dma_told_def)
    then show ?thesis using r range valid assms(7) True fire(1-3) a
      by (simp add: cam_sync_signal_def Let_def signal_dma_eq [OF assms(8)])
  next
    case False
    then have told: "dma_told ?r st = []" by (simp add: dma_told_def)
    have b: "?a\<lparr>dma_calls := dma_calls s\<rparr> = ?a" by (simp add: upd_row_def)
    show ?thesis using r range valid assms(7) False fire(1-3) a unfolding told append_Nil2 b
      by (simp add: cam_sync_signal_def Let_def)
  qed
  then show ?thesis unfolding fire(4) same .
qed

lemma fire_row_proj [simp]:
  "row_state (fire_row e r) = row_state r" "row_type (fire_row e r) = row_type r" "sync_id (fire_row e r) = sync_id r"
  "parents_list (fire_row e r) = parents_list r" "children_list (fire_row e r) = children_list r"
  "remaining (fire_row e r) = remaining r" "signaled (fire_row e r)" "callback_list (fire_row e r) = []"
  "user_payload_list (fire_row e r) = (if e then [] else user_payload_list r)"
  by (simp_all add: fire_row_def)

lemma parent_row_proj [simp]:
  "row_state (parent_row e st r) = parent_state st r" "row_type (parent_row e st r) = row_type r"
  "sync_id (parent_row e st r) = sync_id r" "parents_list (parent_row e st r) = parents_list r"
  "children_list (parent_row e st r) = children_list r" "remaining (parent_row e st r) = remaining r - 1"
  "signaled (parent_row e st r) = (signaled r \<or> remaining r = 1)"
  "callback_list (parent_row e st r) = (if remaining r = 1 then [] else callback_list r)"
  "user_payload_list (parent_row e st r) = (if remaining r = 1 \<and> e then [] else user_payload_list r)"
  by (simp_all add: parent_row_def Let_def)

lemma parent_state_live:
  assumes "is_signaled st" "live_state (row_state r)"
  shows "is_signaled (parent_state st r)"
  using assms by (auto simp: parent_state_def live_state_def is_signaled_def)

lemma is_signaled_live: "is_signaled st \<Longrightarrow> live_state st \<and> st \<noteq> CAM_SYNC_STATE_ACTIVE \<and> st \<noteq> CAM_SYNC_STATE_INVALID"
  by (auto simp: is_signaled_def live_state_def)

lemma signal_table_row_ok:
  assumes "links_ok dt t" "\<And>j. row_ok e j (t j)" "row_type (t i) = SYNC_TYPE_INDV" "alive (t i)" "is_signaled st"
    "\<And>p. p \<in> set (parents_list (t i)) \<Longrightarrow> remaining (t p) \<noteq> 0"
  shows "row_ok e j (signal_table e i st t j)"
proof (cases "j = i")
  case True
  then show ?thesis
    using assms(2) [of i] assms(3,4,5) is_signaled_live [OF assms(5)]
    by (simp add: row_ok_def signal_table_def row_complete_def)
next
  case False
  show ?thesis
  proof (cases "j \<in> set (parents_list (t i))")
    case True
    note l = linkD [OF assms(1) True]
    have "is_signaled (parent_state st (t j))"
      by (rule parent_state_live [OF assms(5)]) (use assms(2) [of j] l(4) in \<open>simp add: row_ok_def\<close>)
    moreover have "\<not> signaled (t j)" using assms(2) [of j] l(4,5) assms(6) [OF True] by (simp add: row_ok_def row_complete_def)
    ultimately show ?thesis
      using False True assms(2) [of j] l(4,5) is_signaled_live [of "parent_state st (t j)"]
      by (simp add: row_ok_def signal_table_def row_complete_def)
  next
    case nin: False
    then show ?thesis using False assms(2) [of j] by (simp add: signal_table_def)
  qed
qed

lemma signal_table_links:
  assumes l: "links_ok dt t" "row_type (t i) = SYNC_TYPE_INDV" "alive (t i)" "is_signaled st" "\<And>p. finite (waiting t p)"
    "\<And>j. alive (t j) \<Longrightarrow> live_state (row_state (t j))"
  shows "links_ok dt (signal_table e i st t)"
proof -
  let ?t = "signal_table e i st t"
  have ty: "row_type (?t j) = row_type (t j)" for j by (simp add: signal_table_def)
  have ch: "children_list (?t j) = children_list (t j)" for j by (simp add: signal_table_def)
  have pl: "parents_list (?t j) = (if j = i then [] else parents_list (t j))" for j by (simp add: signal_table_def)
  have al: "alive (?t j) \<longleftrightarrow> alive (t j)" for j
    using l(3) is_signaled_live [OF l(4)] parent_state_live [OF l(4) l(6), of j] linkD(4) [OF l(1), of j i]
      is_signaled_live [of "parent_state st (t j)"]
    by (auto simp: signal_table_def alive_def)
  have rem: "remaining (?t p) = (if p \<in> set (parents_list (t i)) \<and> p \<noteq> i then remaining (t p) - 1 else remaining (t p))" for p
    by (simp add: signal_table_def)
  have wa: "waiting ?t p = waiting t p - {i}" for p by (auto simp: waiting_def pl)
  show ?thesis
    unfolding links_ok_def
  proof (intro conjI allI impI)
    fix c p assume "p \<in> set (parents_list (?t c))"
    then have c: "c \<noteq> i" "p \<in> set (parents_list (t c))" by (simp_all add: pl split: if_splits)
    note k = linkD [OF l(1) c(2)]
    have "c \<notin> set (parents_list (t i))" using linkD(5) [OF l(1), of c i] k(2) by auto
    then show "row_state (?t c) = CAM_SYNC_STATE_ACTIVE" using k(1) c(1) by (simp add: signal_table_def)
    show "row_type (?t c) = SYNC_TYPE_INDV" "alive (?t p)" "row_type (?t p) = SYNC_TYPE_GROUP" "c \<in> set (children_list (?t p))"
      using k by (simp_all add: ty al ch)
  next
    fix p assume "alive (?t p) \<and> row_type (?t p) = SYNC_TYPE_GROUP"
    then have p: "alive (t p)" "row_type (t p) = SYNC_TYPE_GROUP" by (simp_all add: al ty)
    then have pi: "p \<noteq> i" using l(2) by auto
    note r = remainingD [OF l(1) p]
    show "remaining (?t p) = of_nat (card (waiting ?t p) + dt p)"
    proof (cases "p \<in> set (parents_list (t i))")
      case True
      then have i: "i \<in> waiting t p" by (simp add: waiting_def)
      then have "card (waiting t p) = Suc (card (waiting t p - {i}))" by (rule card.remove [OF l(5)])
      then show ?thesis using r True pi by (simp add: rem wa)
    next
      case False
      then have "i \<notin> waiting t p" by (simp add: waiting_def)
      then show ?thesis using r False by (simp add: rem wa)
    qed
  next
    fix p assume "dt p \<noteq> 0"
    then show "dt p = 1" "alive (?t p)" "row_type (?t p) = SYNC_TYPE_GROUP" using debtD [OF l(1), of p] by (simp_all add: al ty)
  qed
qed

lemma signaled_device_proj:
  "sync_table (signaled_device i st cause s) = signal_table (cam_sync_eventq s) i st (sync_table s)"
  "sync_bitmap (signaled_device i st cause s) = sync_bitmap s"
  "cam_sync_eventq (signaled_device i st cause s) = cam_sync_eventq s"
  "row_spinlocks (signaled_device i st cause s) = row_spinlocks s" "sync_bad (signaled_device i st cause s) = sync_bad s"
  "monitor_mask (signaled_device i st cause s) = monitor_mask s" "allocs (signaled_device i st cause s) = allocs s"
  by (simp_all add: signaled_device_def Let_def)

lemma signaled_device_wf:
  assumes "sync_wf dt s" "row_type (sync_table s i) = SYNC_TYPE_INDV" "alive (sync_table s i)" "is_signaled st"
  shows "sync_wf dt (signaled_device i st cause s)"
proof -
  let ?t = "sync_table s"
  note l = sync_wfD(2) [OF assms(1)]
  have rem: "remaining (?t p) \<noteq> 0" if "p \<in> set (parents_list (?t i))" for p
  proof -
    have "i \<in> waiting ?t p" using that by (simp add: waiting_def)
    then have "card (waiting ?t p) \<noteq> 0" using waiting_bound(1) [OF l sync_wfD(3) [OF assms(1)]] by auto
    then have "unat (remaining (?t p)) \<noteq> 0"
      using remaining_nat [OF l sync_wfD(3) [OF assms(1)] linkD(4,5) [OF l that]] by simp
    then show ?thesis by auto
  qed
  have ok: "alive (?t j) \<Longrightarrow> live_state (row_state (?t j))" for j
    using sync_wfD(1) [OF assms(1), of j] by (simp add: row_ok_def)
  have al: "alive (signal_table e i st ?t j) \<longleftrightarrow> alive (?t j)" for e j
    using assms(3) is_signaled_live [OF assms(4)] parent_state_live [OF assms(4) ok, of j] linkD(4) [OF l, of j i]
      is_signaled_live [of "parent_state st (?t j)"]
    by (auto simp: signal_table_def alive_def)
  have "links_ok dt (signal_table (cam_sync_eventq s) i st ?t)"
    by (rule signal_table_links [OF l assms(2-4) waiting_bound(1) [OF l sync_wfD(3) [OF assms(1)]] ok])
  moreover have "row_ok (cam_sync_eventq s) j (signal_table (cam_sync_eventq s) i st ?t j)" for j
    by (rule signal_table_row_ok [OF l sync_wfD(1) [OF assms(1)] assms(2-4) rem])
  moreover have "slots_ok (signaled_device i st cause s)"
    using sync_wfD(3) [OF assms(1)] by (simp add: slots_ok_def signaled_device_proj al)
  ultimately show ?thesis by (simp add: sync_wf_def signaled_device_proj)
qed

lemma signaled_device_ready: "ready s \<Longrightarrow> ready (signaled_device i st cause s)"
  by (simp add: ready_def signaled_device_proj)

lemma row_complete_iff:
  "row_complete r \<longleftrightarrow> (row_type r = SYNC_TYPE_INDV \<and> row_state r \<noteq> CAM_SYNC_STATE_ACTIVE)
     \<or> (row_type r = SYNC_TYPE_GROUP \<and> remaining r = 0)"
  by (cases "row_type r") (simp_all add: row_complete_def)

definition good :: "(nat \<Rightarrow> nat) \<Rightarrow> ('f, 'd) sync_device \<Rightarrow> bool" where
  "good dt s \<longleftrightarrow> ready s \<and> sync_wf dt s"

lemma goodD: "good dt s \<Longrightarrow> ready s" "good dt s \<Longrightarrow> sync_wf dt s" by (simp_all add: good_def)

lemma validate_Inr:
  "cam_sync_signal_validate_util st r = Inr u \<longleftrightarrow>
     row_type r = SYNC_TYPE_INDV \<and> row_state r = CAM_SYNC_STATE_ACTIVE \<and> is_signaled st"
  by (cases "row_type r") (auto simp: cam_sync_signal_validate_util_def is_signaled_def)

lemma in_range: "\<not> obj_out_of_range obj \<longleftrightarrow> 0 < nat obj \<and> nat obj < CAM_SYNC_MAX_OBJS \<and> obj = int (nat obj)"
  by (auto simp: obj_out_of_range_def)

lemma signal_cases:
  assumes "good dt s"
  shows "cam_sync_signal obj st cause s =
    (if obj_out_of_range obj then (s, Inl EINVAL)
     else case cam_sync_signal_validate_util st (sync_table s (nat obj)) of
       Inl e \<Rightarrow> (s, Inl e)
     | Inr _ \<Rightarrow> if ref_cnt (sync_table s (nat obj)) = 1 then (signaled_device (nat obj) st cause s, Inr ())
                else (upd_row (nat obj) (\<lambda>r. r\<lparr>ref_cnt := ref_cnt r - 1\<rparr>) s, Inr ()))"
proof (cases "obj_out_of_range obj")
  case True
  then show ?thesis by (simp add: cam_sync_signal_def)
next
  case False
  note r = ready_proj [OF goodD(1) [OF assms]]
  let ?i = "nat obj"
  show ?thesis
  proof (cases "cam_sync_signal_validate_util st (sync_table s ?i)")
    case (Inl e)
    then show ?thesis using False r by (simp add: cam_sync_signal_def Let_def)
  next
    case (Inr u)
    note v = Inr [unfolded validate_Inr]
    show ?thesis
    proof (cases "ref_cnt (sync_table s ?i) = 1")
      case True
      have "cam_sync_signal (int ?i) st cause s = (signaled_device ?i st cause s, Inr ())"
        by (rule signal_effect [where dt = dt]) (use assms False v True in \<open>simp_all add: goodD in_range\<close>)
      then show ?thesis using Inr False True by (simp add: in_range)
    next
      case ref: False
      then have "ref_cnt (sync_table s ?i) - 1 \<noteq> 0" by simp
      then show ?thesis using Inr False ref r by (simp add: cam_sync_signal_def Let_def)
    qed
  qed
qed

text \<open>Changes of the lists of waiters and of the reference count.\<close>

lemma ready_upd_row [simp]: "ready (upd_row i f s) = ready s"
  by (simp add: ready_def)

lemma good_ref: "good dt s \<Longrightarrow> good dt (upd_row i (\<lambda>r. r\<lparr>ref_cnt := f r\<rparr>) s)"
  unfolding good_def
  by (rule conjI, simp, rule wf_row_change) (use sync_wfD(1) [of dt s i] in \<open>simp_all add: row_ok_def row_complete_iff alive_def\<close>)

lemma good_signal: "good dt s \<Longrightarrow> good dt (fst (cam_sync_signal obj st cause s))"
  using signaled_device_wf [of dt s "nat obj" st cause] signaled_device_ready [of s "nat obj" st cause] good_ref [of dt s]
  by (auto simp: signal_cases good_def validate_Inr alive_def split: sum.split)

lemma good_get_ref: "good dt s \<Longrightarrow> good dt (fst (cam_sync_get_obj_ref obj s))"
  using good_ref [of dt s "nat obj"] ready_proj [OF goodD(1) [of dt s]] by (simp add: cam_sync_get_obj_ref_def Let_def)

lemma good_put_ref: "good dt s \<Longrightarrow> good dt (fst (cam_sync_put_obj_ref obj s))"
  using good_ref [of dt s "nat obj"] by (simp add: cam_sync_put_obj_ref_def)

lemma check_valid_eq:
  assumes "ready s"
  shows "cam_sync_check_valid obj s = (s, if \<not> obj_out_of_range obj \<and> sync_bitmap s (nat obj) \<and> alive (sync_table s (nat obj))
    then Inr () else Inl EINVAL)"
  using ready_proj [OF assms] by (simp add: cam_sync_check_valid_def Let_def alive_def)

lemma good_cong:
  assumes "good dt s" "sync_table s' = sync_table s" "sync_bitmap s' = sync_bitmap s" "cam_sync_eventq s' = cam_sync_eventq s"
    "row_spinlocks s' = row_spinlocks s" "sync_bad s' = sync_bad s" "monitor_mask s' = monitor_mask s" "allocs s' = allocs s"
  shows "good dt s'"
  using assms wf_frame [of dt s s'] by (simp add: good_def ready_def)

text \<open>What a registration of a callback does.\<close>

lemma register_eq:
  assumes "ready s"
  shows "cam_sync_register_callback (Some f) d obj s =
    (let i = nat obj; row = sync_table s i in
     if obj_out_of_range obj \<or> \<not> alive row then (s, Inl EINVAL)
     else if is_signaled (row_state row) \<and> remaining row = 0 then
       (if trigger_cb_without_switch s then call_cb f i (row_state row) d s
        else queue_cb \<lparr>callback_func = f, cb_data = d, cb_status = row_state row, cb_sync_obj = i\<rparr> s, Inr ())
     else (upd_row i (\<lambda>r. r\<lparr>callback_list := callback_list r
             @ [\<lparr>callback_func = f, cb_data = d, cb_status = 0, cb_sync_obj = i\<rparr>]\<rparr>) s, Inr ()))"
  using ready_proj [OF assms]
  by (auto simp: cam_sync_register_callback_def Let_def alive_def)

lemma good_register: "good dt s \<Longrightarrow> good dt (fst (cam_sync_register_callback f d obj s))"
proof (cases f)
  case None
  then show ?thesis if "good dt s" using that by (simp add: cam_sync_register_callback_def)
next
  case (Some g)
  assume good: "good dt s"
  let ?i = "nat obj"
  have call: "good dt (call_cb g ?i st d s)" "good dt (queue_cb cb s)" for st cb
    by (rule good_cong [OF good]; simp add: call_cb_def queue_cb_def)+
  have add: "good dt (upd_row ?i (\<lambda>r. r\<lparr>callback_list := callback_list r @ cbs\<rparr>) s)"
    if "alive (sync_table s ?i)" "\<not> (is_signaled (row_state (sync_table s ?i)) \<and> remaining (sync_table s ?i) = 0)" for cbs
  proof -
    have "row_ok (cam_sync_eventq s) ?i (sync_table s ?i)" by (rule sync_wfD(1) [OF goodD(2) [OF good]])
    then have "\<not> signaled (sync_table s ?i)"
      using that by (cases "row_type (sync_table s ?i)") (auto simp: row_ok_def row_complete_iff live_state_def)
    then show ?thesis
      using good sync_wfD(1) [OF goodD(2) [OF good], of ?i] unfolding good_def
      by (intro conjI) (simp, rule wf_row_change, simp_all add: row_ok_def row_complete_iff alive_def)
  qed
  show ?thesis using good call add by (simp add: Some register_eq [OF goodD(1)] Let_def)
qed

lemma deregister_eq:
  assumes "ready s"
  shows "cam_sync_deregister_callback f d obj s =
    (let i = nat obj; row = sync_table s i; match = (\<lambda>cb. callback_func cb = f \<and> cb_data cb = d) in
     if obj_out_of_range obj \<or> \<not> alive row then (s, Inl EINVAL)
     else (upd_row i (\<lambda>r. r\<lparr>callback_list := filter (\<lambda>cb. \<not> match cb) (callback_list r)\<rparr>) s,
           if list_ex match (callback_list row) then Inr () else Inl ENOENT))"
  using ready_proj [OF assms] by (auto simp: cam_sync_deregister_callback_def Let_def alive_def)

lemma good_deregister: "good dt s \<Longrightarrow> good dt (fst (cam_sync_deregister_callback f d obj s))"
proof -
  assume good: "good dt s"
  let ?i = "nat obj"
  have "good dt (upd_row ?i (\<lambda>r. r\<lparr>callback_list := filter Q (callback_list r)\<rparr>) s)" for Q
    using good sync_wfD(1) [OF goodD(2) [OF good], of ?i] unfolding good_def
    by (intro conjI) (simp, rule wf_row_change, simp_all add: row_ok_def row_complete_iff alive_def)
  then show ?thesis using good by (simp add: deregister_eq [OF goodD(1)] Let_def)
qed

lemma register_payload_eq:
  assumes "ready s"
  shows "cam_sync_handle_register_user_payload k s =
    (case user_arg k of Inl e \<Rightarrow> (s, Inl e)
     | Inr (obj, payload) \<Rightarrow>
        let i = nat obj; row = sync_table s i in
        if obj_out_of_range obj \<or> \<not> alive row then (s, Inl EINVAL)
        else if is_signaled (row_state row)
        then (cam_sync_util_send_v4l2_event i (row_state row) payload CAM_SYNC_COMMON_REG_PAYLOAD_EVENT s, Inr ())
        else if payload \<in> set (user_payload_list row) then (s, Inl EALREADY)
        else (upd_row i (\<lambda>r. r\<lparr>user_payload_list := user_payload_list r @ [payload]\<rparr>) s, Inr ()))"
  using ready_proj [OF assms]
  by (auto simp: cam_sync_handle_register_user_payload_def Let_def alive_def split: sum.split prod.split)

lemma good_register_payload: "good dt s \<Longrightarrow> good dt (fst (cam_sync_handle_register_user_payload k s))"
proof -
  assume good: "good dt s"
  have event: "good dt (cam_sync_util_send_v4l2_event i st p cause s)" for i st p cause
    by (rule good_cong [OF good]; simp add: cam_sync_util_send_v4l2_event_def)
  have add: "good dt (upd_row i (\<lambda>r. r\<lparr>user_payload_list := user_payload_list r @ ps\<rparr>) s)"
    if "alive (sync_table s i)" "\<not> is_signaled (row_state (sync_table s i))" for i ps
  proof -
    have "row_ok (cam_sync_eventq s) i (sync_table s i)" by (rule sync_wfD(1) [OF goodD(2) [OF good]])
    then have "\<not> signaled (sync_table s i)" using that by (auto simp: row_ok_def live_state_def)
    then show ?thesis
      using good sync_wfD(1) [OF goodD(2) [OF good], of i] unfolding good_def
      by (intro conjI) (simp, rule wf_row_change, simp_all add: row_ok_def row_complete_iff alive_def)
  qed
  show ?thesis
    using good event add
    by (auto simp: register_payload_eq [OF goodD(1)] Let_def split: sum.split prod.split)
qed

lemma monitor_update_iter_off [simp]: "\<not> monitor_mask s \<Longrightarrow> (monitor_update i op ^^ n) s = s"
  by (induction n) simp_all

lemma deregister_payload_eq:
  assumes "ready s"
  shows "cam_sync_handle_deregister_user_payload k s =
    (case user_arg k of Inl e \<Rightarrow> (s, Inl e)
     | Inr (obj, payload) \<Rightarrow>
        let i = nat obj in
        if obj_out_of_range obj \<or> \<not> alive (sync_table s i) then (s, Inl EINVAL)
        else (upd_row i (\<lambda>r. r\<lparr>user_payload_list := removeAll payload (user_payload_list r)\<rparr>) s, Inr ()))"
  using ready_proj [OF assms]
  by (auto simp: cam_sync_handle_deregister_user_payload_def Let_def alive_def split: sum.split prod.split)

lemma good_deregister_payload: "good dt s \<Longrightarrow> good dt (fst (cam_sync_handle_deregister_user_payload k s))"
proof -
  assume good: "good dt s"
  have "good dt (upd_row i (\<lambda>r. r\<lparr>user_payload_list := removeAll p (user_payload_list r)\<rparr>) s)" for i p
    using good sync_wfD(1) [OF goodD(2) [OF good], of i] unfolding good_def
    by (intro conjI) (simp, rule wf_row_change, simp_all add: row_ok_def row_complete_iff alive_def)
  then show ?thesis
    using good by (auto simp: deregister_payload_eq [OF goodD(1)] Let_def split: sum.split prod.split)
qed

section \<open>Creation\<close>

definition fresh_row :: "nat \<Rightarrow> string \<Rightarrow> sync_type \<Rightarrow> ('f, 'd) sync_table_row \<Rightarrow> ('f, 'd) sync_table_row" where
  "fresh_row idx name ty r = r\<lparr>row_name := take 62 name, parents_list := [], children_list := [],
     row_type := ty, sync_id := idx, row_state := CAM_SYNC_STATE_ACTIVE, remaining := 0, ref_cnt := 0,
     signaled := False, callback_list := [], user_payload_list := []\<rparr>"

definition taken_device :: "nat \<Rightarrow> ('f, 'd) sync_table_row \<Rightarrow> ('f, 'd) sync_device \<Rightarrow> ('f, 'd) sync_device" where
  "taken_device idx row s = s\<lparr>sync_bitmap := (sync_bitmap s)(idx := True), sync_table := (sync_table s)(idx := row)\<rparr>"

abbreviation free_index :: "('f, 'd) sync_device \<Rightarrow> nat" where
  "free_index s \<equiv> find_first_zero_bit (sync_bitmap s) CAM_SYNC_MAX_OBJS"

lemma create_eq:
  assumes "ready s"
  shows "cam_sync_create name s =
    (let idx = free_index s in
     if CAM_SYNC_MAX_OBJS \<le> idx then (s, None, Inl ENOMEM)
     else (taken_device idx (fresh_row idx name SYNC_TYPE_INDV (sync_table s idx)) s, Some idx, Inr ()))"
proof (cases "free_index s < CAM_SYNC_MAX_OBJS")
  case False
  moreover have "cam_sync_print_fence_table s = s"
    using ready_proj(1) [OF assms] by (simp add: cam_sync_print_fence_table_def list_ex_iff)
  ultimately show ?thesis by (simp add: cam_sync_create_def cam_sync_create_util_def Let_def)
next
  case True
  note r = ready_proj [OF assms]
  have 0: "0 < free_index s" using ffz_clear [OF True] r(5) by (cases "free_index s") auto
  have "row_unlock i (upd_row i f (row_lock i (s\<lparr>sync_bitmap := b\<rparr>))) = s\<lparr>sync_bitmap := b, sync_table := (sync_table s)(i := f (sync_table s i))\<rparr>"
    for i b f using r(1) [of i] by (simp add: row_lock_def row_unlock_def upd_row_def fun_upd_idem)
  then show ?thesis
    using True 0 r by (simp add: cam_sync_create_def cam_sync_create_util_def cam_sync_init_row_def Let_def
        taken_device_def fresh_row_def not_le split del: if_split)
qed

lemma free_index_dead:
  assumes "good dt s" "free_index s < CAM_SYNC_MAX_OBJS"
  shows "0 < free_index s" "\<not> alive (sync_table s (free_index s))"
proof -
  show 0: "0 < free_index s"
    using ffz_clear [OF assms(2)] ready_proj(5) [OF goodD(1) [OF assms(1)]] by (cases "free_index s") auto
  show "\<not> alive (sync_table s (free_index s))"
    using ffz_clear [OF assms(2)] sync_wfD(3) [OF goodD(2) [OF assms(1)]] assms(2) 0 by (auto simp: slots_ok_def)
qed

text \<open>A dead row is nobody's parent or child.\<close>

lemma dead_no_links:
  assumes "links_ok dt t" "\<not> alive (t i)"
  shows "parents_list (t i) = []" "i \<notin> set (parents_list (t c))"
  using linkD(3) [OF assms(1), of _ i] linkD(4) [OF assms(1), of i c] assms(2)
  by (cases "parents_list (t i)", fastforce+)

lemma good_taken:
  assumes "good dt s" "0 < i" "i < CAM_SYNC_MAX_OBJS" "\<not> alive (sync_table s i)" "row_ok (cam_sync_eventq s) i row"
    "alive row" "parents_list row = []" "row_type row = SYNC_TYPE_INDV"
  shows "good dt (taken_device i row s)"
proof -
  let ?t = "sync_table s" and ?t' = "(sync_table s)(i := row)"
  note l = sync_wfD(2) [OF goodD(2) [OF assms(1)]]
  note d = dead_no_links [OF l assms(4)]
  have w: "waiting ?t' p = waiting ?t p" for p using d assms(7) by (auto simp: waiting_def)
  have "links_ok dt ?t'"
    unfolding links_ok_def
  proof (intro conjI allI impI)
    fix c p assume *: "p \<in> set (parents_list (?t' c))"
    then have c: "c \<noteq> i" "p \<in> set (parents_list (?t c))" using assms(7) by (auto split: if_splits)
    then have "p \<noteq> i" using d(2) by auto
    then show "row_state (?t' c) = CAM_SYNC_STATE_ACTIVE" "row_type (?t' c) = SYNC_TYPE_INDV" "alive (?t' p)"
      "row_type (?t' p) = SYNC_TYPE_GROUP" "c \<in> set (children_list (?t' p))"
      using linkD [OF l c(2)] c(1) by simp_all
  next
    fix p assume "alive (?t' p) \<and> row_type (?t' p) = SYNC_TYPE_GROUP"
    then show "remaining (?t' p) = of_nat (card (waiting ?t' p) + dt p)"
      using remainingD [OF l, of p] assms(8) unfolding w by (auto split: if_splits)
  next
    fix p assume "dt p \<noteq> 0"
    then show "dt p = 1" "alive (?t' p)" "row_type (?t' p) = SYNC_TYPE_GROUP" using debtD [OF l, of p] assms(4) by auto
  qed
  moreover have "slots_ok (taken_device i row s)"
    using sync_wfD(3) [OF goodD(2) [OF assms(1)]] assms(2,3,6) by (auto simp: slots_ok_def taken_device_def)
  moreover have "ready (taken_device i row s)" using goodD(1) [OF assms(1)] by (simp add: ready_def taken_device_def)
  ultimately show ?thesis
    using assms(5) sync_wfD(1) [OF goodD(2) [OF assms(1)]] by (simp add: good_def sync_wf_def taken_device_def)
qed

lemma fresh_row_ok: "row_ok e i (fresh_row i name SYNC_TYPE_INDV r)" "alive (fresh_row i name ty r)"
  by (simp_all add: row_ok_def fresh_row_def alive_def live_state_def row_complete_iff)

lemma good_create: "good dt s \<Longrightarrow> good dt (fst (cam_sync_create name s))"
proof -
  assume g: "good dt s"
  show ?thesis
  proof (cases "free_index s < CAM_SYNC_MAX_OBJS")
    case True
    have "good dt (taken_device (free_index s) (fresh_row (free_index s) name SYNC_TYPE_INDV (sync_table s (free_index s))) s)"
      by (rule good_taken [OF g free_index_dead(1) [OF g True] True free_index_dead(2) [OF g True]])
         (simp_all add: fresh_row_ok, simp_all add: fresh_row_def)
    then show ?thesis using True by (simp add: create_eq [OF goodD(1) [OF g]] Let_def)
  next
    case False
    then show ?thesis using g by (simp add: create_eq [OF goodD(1) [OF g]] Let_def)
  qed
qed

section \<open>Groups\<close>

text \<open>What a successful merge makes of the table: the group's row and the links from the active children.\<close>

definition active_children :: "nat list \<Rightarrow> (nat \<Rightarrow> ('f, 'd) sync_table_row) \<Rightarrow> nat list" where
  "active_children cs t = filter (\<lambda>c. row_state (t c) = CAM_SYNC_STATE_ACTIVE) cs"

definition group_state :: "u32 \<Rightarrow> u32 list \<Rightarrow> u32" where
  "group_state init sts = foldl (\<lambda>st c. if c = CAM_SYNC_STATE_SIGNALED_ERROR \<or> c = CAM_SYNC_STATE_SIGNALED_CANCEL then c else st) init sts"

definition linked_table :: "nat \<Rightarrow> nat list \<Rightarrow> (nat \<Rightarrow> ('f, 'd) sync_table_row) \<Rightarrow> (nat \<Rightarrow> ('f, 'd) sync_table_row)" where
  "linked_table idx cs t = (\<lambda>j.
     if j = idx then (t idx)\<lparr>remaining := remaining (t idx) + of_nat (length (active_children cs t)),
       children_list := children_list (t idx) @ active_children cs t,
       row_state := group_state (row_state (t idx)) (map (\<lambda>c. row_state (t c)) cs)\<rparr>
     else if j \<in> set (active_children cs t) then (t j)\<lparr>parents_list := parents_list (t j) @ [idx]\<rparr> else t j)"

lemma group_table_linked:
  assumes "idx \<notin> set cs" "distinct cs"
  shows "group_table idx cs t = linked_table idx cs t"
  using assms
proof (induction cs arbitrary: t)
  case Nil
  have "t = linked_table idx [] t" by (rule ext) (simp add: linked_table_def active_children_def group_state_def)
  then show ?case by simp
next
  case (Cons c cs)
  have c: "c \<noteq> idx" "c \<notin> set cs" "idx \<notin> set cs" "distinct cs" using Cons.prems by auto
  note IH = Cons.IH [OF c(3,4)]
  have frame: "active_children cs (t(i := r)) = active_children cs t"
    "map (\<lambda>c. row_state (if c = i then r else t c)) cs = map (\<lambda>c. row_state (t c)) cs"
    if "i \<notin> set cs" for i r and t :: "nat \<Rightarrow> ('a, 'b) sync_table_row"
    using that by (auto simp: active_children_def intro: filter_cong)
  consider (err) "row_state (t c) = CAM_SYNC_STATE_SIGNALED_ERROR \<or> row_state (t c) = CAM_SYNC_STATE_SIGNALED_CANCEL"
    | (fin) "\<not> (row_state (t c) = CAM_SYNC_STATE_SIGNALED_ERROR \<or> row_state (t c) = CAM_SYNC_STATE_SIGNALED_CANCEL)"
        "row_state (t c) \<noteq> CAM_SYNC_STATE_ACTIVE"
    | (act) "row_state (t c) = CAM_SYNC_STATE_ACTIVE" by auto
  then show ?case
  proof cases
    case err
    let ?t = "t(idx := (t idx)\<lparr>row_state := row_state (t c)\<rparr>)"
    have "group_table idx (c # cs) t = linked_table idx cs ?t" using err by (simp add: IH fun_upd_def)
    also have "\<dots> = linked_table idx (c # cs) t"
    proof
      fix j
      have a: "active_children (c # cs) t = active_children cs t" using err by (auto simp: active_children_def)
      have g: "group_state x (row_state (t c) # map (\<lambda>c. row_state (t c)) cs) = group_state (row_state (t c)) (map (\<lambda>c. row_state (t c)) cs)" for x
        using err by (auto simp: group_state_def)
      show "linked_table idx cs ?t j = linked_table idx (c # cs) t j"
        using c by (simp add: linked_table_def frame a g)
    qed
    finally show ?thesis .
  next
    case fin
    then have a: "active_children (c # cs) t = active_children cs t" by (auto simp: active_children_def)
    have g: "group_state x (row_state (t c) # map (\<lambda>c. row_state (t c)) cs) = group_state x (map (\<lambda>c. row_state (t c)) cs)" for x
      using fin by (auto simp: group_state_def)
    have "group_table idx (c # cs) t = linked_table idx cs t" using fin by (simp add: IH)
    also have "\<dots> = linked_table idx (c # cs) t" by (rule ext) (simp add: linked_table_def a g)
    finally show ?thesis .
  next
    case act
    let ?t1 = "t(idx := (t idx)\<lparr>remaining := remaining (t idx) + 1, children_list := children_list (t idx) @ [c]\<rparr>)"
    let ?t = "?t1(c := (t c)\<lparr>parents_list := parents_list (t c) @ [idx]\<rparr>)"
    have "group_table idx (c # cs) t = linked_table idx cs ?t" using act c by (simp add: IH Let_def fun_upd_def)
    also have "\<dots> = linked_table idx (c # cs) t"
    proof
      fix j
      have a: "active_children (c # cs) t = c # active_children cs t" using act by (simp add: active_children_def)
      have g: "group_state x (row_state (t c) # map (\<lambda>c. row_state (t c)) cs) = group_state x (map (\<lambda>c. row_state (t c)) cs)" for x
        using act by (auto simp: group_state_def)
      have n: "c \<notin> set (active_children cs t)" using c by (simp add: active_children_def)
      show "linked_table idx cs ?t j = linked_table idx (c # cs) t j"
        using c n by (simp add: linked_table_def frame a g)
    qed
    finally show ?thesis .
  qed
qed

lemma remove_duplicate_length:
  "length (cam_common_util_remove_duplicate_arr xs) = length xs \<longleftrightarrow> distinct xs"
proof -
  let ?f = "\<lambda>kept x. if x \<in> set kept then kept else kept @ [x]"
  have "length (foldl ?f ks xs) \<le> length ks + length xs
      \<and> (distinct ks \<longrightarrow> (length (foldl ?f ks xs) = length ks + length xs \<longleftrightarrow> distinct (ks @ xs)))" for ks :: "int list" and xs
  proof (induction xs arbitrary: ks)
    case (Cons x xs)
    show ?case
    proof (cases "x \<in> set ks")
      case True
      then show ?thesis using Cons [of ks] by auto
    next
      case False
      then show ?thesis using Cons [of "ks @ [x]"] by auto
    qed
  qed simp
  from this [of "[hd xs]" "tl xs"] show ?thesis
    by (cases xs) (simp_all add: cam_common_util_remove_duplicate_arr_def)
qed

definition valid_obj :: "('f, 'd) sync_device \<Rightarrow> int \<Rightarrow> bool" where
  "valid_obj s obj \<longleftrightarrow> \<not> obj_out_of_range obj \<and> sync_bitmap s (nat obj) \<and> alive (sync_table s (nat obj))"

lemma check_all_valid_eq:
  assumes "ready s"
  shows "check_all_valid objs s = (s, if \<forall>obj \<in> set objs. valid_obj s obj then Inr () else Inl EINVAL)"
  by (induction objs) (auto simp: check_valid_eq [OF assms] valid_obj_def)

text \<open>The row of a new group before its children are added, and the table when they are.\<close>

definition merged_table :: "nat \<Rightarrow> nat list \<Rightarrow> (nat \<Rightarrow> ('f, 'd) sync_table_row) \<Rightarrow> (nat \<Rightarrow> ('f, 'd) sync_table_row)" where
  "merged_table idx cs t =
     (let t' = linked_table idx cs (t(idx := fresh_row idx ''merged_fence'' SYNC_TYPE_GROUP (t idx))); r = t' idx
      in if remaining r = 0
         then t'(idx := (if row_state r \<noteq> CAM_SYNC_STATE_SIGNALED_ERROR \<and> row_state r \<noteq> CAM_SYNC_STATE_SIGNALED_CANCEL
                         then r\<lparr>row_state := CAM_SYNC_STATE_SIGNALED_SUCCESS\<rparr> else r)\<lparr>signaled := True\<rparr>)
         else t')"

lemma merge_ready_objs:
  assumes "good dt s" "\<forall>obj \<in> set objs. valid_obj s obj" "distinct objs" "free_index s < CAM_SYNC_MAX_OBJS"
  shows "free_index s \<notin> set (map nat objs)" "distinct (map nat objs)"
    "\<forall>c \<in> set (map nat objs). 0 < c \<and> c < CAM_SYNC_MAX_OBJS \<and> alive (sync_table s c)"
proof -
  show "free_index s \<notin> set (map nat objs)" using assms(2) ffz_clear [OF assms(4)] by (auto simp: valid_obj_def)
  show "distinct (map nat objs)"
    using assms(2,3) by (auto simp: distinct_map inj_on_def valid_obj_def in_range)
  show "\<forall>c \<in> set (map nat objs). 0 < c \<and> c < CAM_SYNC_MAX_OBJS \<and> alive (sync_table s c)"
    using assms(2) by (auto simp: valid_obj_def in_range)
qed

text \<open>The device when the children of a new group are gone through.\<close>

definition group_start :: "nat \<Rightarrow> ('f, 'd) sync_device \<Rightarrow> ('f, 'd) sync_device" where
  "group_start idx s = upd_row idx (fresh_row idx ''merged_fence'' SYNC_TYPE_GROUP)
     (row_lock idx (s\<lparr>sync_bitmap := (sync_bitmap s)(idx := True)\<rparr>))"

lemma group_start_proj:
  assumes "ready s"
  shows "sync_table (group_start idx s) = (sync_table s)(idx := fresh_row idx ''merged_fence'' SYNC_TYPE_GROUP (sync_table s idx))"
    "row_spinlocks (group_start idx s) = (\<lambda>_. False)(idx := True)"
    "sync_bitmap (group_start idx s) = (sync_bitmap s)(idx := True)" "allocs (group_start idx s) = []"
    "monitor_mask (group_start idx s) = False" "sync_bad (group_start idx s) = None"
  using ready_proj [OF assms] by (auto simp: group_start_def row_lock_def fun_eq_iff)

lemma init_row_eq:
  assumes "0 < idx" "idx < CAM_SYNC_MAX_OBJS" "\<not> monitor_mask s"
  shows "fst (cam_sync_init_row idx name ty s) = upd_row idx (fresh_row idx name ty) s"
  using assms by (simp add: cam_sync_init_row_def Let_def fresh_row_def [abs_def])

lemma merge_start:
  assumes "good dt s" "2 \<le> length objs" "distinct objs" "\<forall>obj \<in> set objs. valid_obj s obj" "free_index s < CAM_SYNC_MAX_OBJS"
  shows "cam_sync_merge (Some objs) s =
    (case cam_sync_init_group_object (free_index s) (map nat objs)
            (row_lock (free_index s) (s\<lparr>sync_bitmap := (sync_bitmap s)(free_index s := True)\<rparr>)) of
       (s', Inl _) \<Rightarrow> (s'\<lparr>sync_bitmap := (sync_bitmap s')(free_index s := False)\<rparr>, None, Inl EINVAL)
     | (s', Inr _) \<Rightarrow> (row_unlock (free_index s) s', Some (free_index s), Inr ()))"
  using assms(2-5) by (simp add: cam_sync_merge_def check_all_valid_eq [OF goodD(1) [OF assms(1)]] Let_def
      remove_duplicate_length)

lemma merge_eq:
  assumes "good dt s" "2 \<le> length objs" "distinct objs"
    "\<forall>obj \<in> set objs. valid_obj s obj \<and> row_type (sync_table s (nat obj)) = SYNC_TYPE_INDV"
    "free_index s < CAM_SYNC_MAX_OBJS"
  shows "cam_sync_merge (Some objs) s =
    (s\<lparr>sync_bitmap := (sync_bitmap s)(free_index s := True),
       sync_table := merged_table (free_index s) (map nat objs) (sync_table s)\<rparr>, Some (free_index s), Inr ())"
proof -
  let ?i = "free_index s" and ?cs = "map nat objs"
  have v: "\<forall>obj \<in> set objs. valid_obj s obj" using assms(4) by simp
  note o = merge_ready_objs [OF assms(1) v assms(3,5)] and r = ready_proj [OF goodD(1) [OF assms(1)]]
  note g = group_start_proj [OF goodD(1) [OF assms(1)], of ?i] and f = free_index_dead [OF assms(1,5)]
  let ?s = "group_start ?i s"
  have "\<forall>c \<in> set ?cs. \<not> row_spinlocks ?s c \<and> \<not> bad_child (sync_table ?s c)"
  proof
    fix c assume c: "c \<in> set ?cs"
    then have "c \<noteq> ?i" using o(1) by blast
    moreover have "row_type (sync_table s c) = SYNC_TYPE_INDV" "alive (sync_table s c)" using c assms(4) o(3) by auto
    ultimately show "\<not> row_spinlocks ?s c \<and> \<not> bad_child (sync_table ?s c)" by (simp add: g bad_child_def alive_def)
  qed
  from group_add_ok [OF this g(4) o(1,2), of "[]"]
  have add: "group_add_children ?i [] ?cs ?s = (?s\<lparr>sync_table := linked_table ?i ?cs (sync_table ?s)\<rparr>, None)"
    by (simp add: group_table_linked [OF o(1,2)])
  have m: "merged_table ?i ?cs (sync_table s) = (let t' = linked_table ?i ?cs (sync_table ?s) in
      if remaining (t' ?i) = 0
      then t'(?i := (if row_state (t' ?i) \<noteq> CAM_SYNC_STATE_SIGNALED_ERROR
              \<and> row_state (t' ?i) \<noteq> CAM_SYNC_STATE_SIGNALED_CANCEL
              then (t' ?i)\<lparr>row_state := CAM_SYNC_STATE_SIGNALED_SUCCESS\<rparr> else t' ?i)\<lparr>signaled := True\<rparr>)
      else t')" by (simp add: merged_table_def g Let_def)
  have start: "fst (cam_sync_init_row ?i ''merged_fence'' SYNC_TYPE_GROUP
        (row_lock ?i (s\<lparr>sync_bitmap := (sync_bitmap s)(?i := True)\<rparr>))) = ?s"
    using f(1) assms(5) r by (simp add: init_row_eq group_start_def)
  have "cam_sync_init_group_object ?i ?cs (row_lock ?i (s\<lparr>sync_bitmap := (sync_bitmap s)(?i := True)\<rparr>))
      = (?s\<lparr>sync_table := merged_table ?i ?cs (sync_table s)\<rparr>, Inr ())"
    unfolding m cam_sync_init_group_object_def start Let_def add
    by (cases "remaining (linked_table ?i ?cs (sync_table ?s) ?i) = 0") (simp_all add: complete_all_def upd_row_def)
  moreover have "row_unlock ?i (?s\<lparr>sync_table := t\<rparr>) = s\<lparr>sync_bitmap := (sync_bitmap s)(?i := True), sync_table := t\<rparr>" for t
    using r by (simp add: group_start_def row_lock_def row_unlock_def upd_row_def fun_upd_idem)
  ultimately show ?thesis by (simp add: merge_start [OF assms(1,2,3) v assms(5)])
qed

lemma group_state_range:
  "st \<in> {CAM_SYNC_STATE_ACTIVE, CAM_SYNC_STATE_SIGNALED_ERROR, CAM_SYNC_STATE_SIGNALED_CANCEL}
    \<Longrightarrow> group_state st sts \<in> {CAM_SYNC_STATE_ACTIVE, CAM_SYNC_STATE_SIGNALED_ERROR, CAM_SYNC_STATE_SIGNALED_CANCEL}"
proof (induction sts arbitrary: st)
  case (Cons x xs)
  then show ?case using Cons.IH [of x] Cons.IH [of st] by (auto simp: group_state_def)
qed (simp add: group_state_def)

lemma active_children_upd [simp]: "idx \<notin> set cs \<Longrightarrow> active_children cs (t(idx := r)) = active_children cs t"
  by (auto simp: active_children_def intro: filter_cong)

lemma merged_other:
  assumes "idx \<notin> set cs" "j \<noteq> idx"
  shows "merged_table idx cs t j = (if j \<in> set (active_children cs t) then (t j)\<lparr>parents_list := parents_list (t j) @ [idx]\<rparr> else t j)"
  using assms by (simp add: merged_table_def linked_table_def Let_def)

lemma merged_group:
  assumes "idx \<notin> set cs"
  shows "row_type (merged_table idx cs t idx) = SYNC_TYPE_GROUP" "sync_id (merged_table idx cs t idx) = idx"
    "parents_list (merged_table idx cs t idx) = []" "children_list (merged_table idx cs t idx) = active_children cs t"
    "remaining (merged_table idx cs t idx) = of_nat (length (active_children cs t))"
    "callback_list (merged_table idx cs t idx) = []" "user_payload_list (merged_table idx cs t idx) = []"
    "signaled (merged_table idx cs t idx) \<longleftrightarrow> remaining (merged_table idx cs t idx) = 0"
  using assms by (simp_all add: merged_table_def linked_table_def fresh_row_def Let_def)

lemma merged_state:
  assumes "idx \<notin> set cs"
  shows "live_state (row_state (merged_table idx cs t idx))"
    "remaining (merged_table idx cs t idx) = 0 \<Longrightarrow> row_state (merged_table idx cs t idx) \<noteq> CAM_SYNC_STATE_ACTIVE"
  using assms group_state_range [of CAM_SYNC_STATE_ACTIVE]
  by (auto simp: merged_table_def linked_table_def fresh_row_def Let_def live_state_def is_signaled_def)

lemma merged_links:
  assumes l: "links_ok dt t" "\<not> alive (t idx)" "idx \<notin> set cs" "distinct cs" "\<forall>c \<in> set cs. row_type (t c) = SYNC_TYPE_INDV"
  shows "links_ok dt (merged_table idx cs t)"
proof -
  let ?t = "merged_table idx cs t"
  note o = merged_other [OF l(3)] and g = merged_group [OF l(3), of t]
  note d = dead_no_links [OF l(1,2)]
  have pl: "p \<in> set (parents_list (?t c)) \<longleftrightarrow> p \<in> set (parents_list (t c)) \<or> p = idx \<and> c \<in> set (active_children cs t)" for p c
    using d(1) l(3) by (cases "c = idx") (auto simp: o g active_children_def)
  have "waiting ?t p = (if p = idx then set (active_children cs t) else waiting t p)" for p
    using d(2) by (auto simp: waiting_def pl)
  moreover have "card (set (active_children cs t)) = length (active_children cs t)"
    using l(4) by (intro distinct_card) (simp add: active_children_def)
  ultimately have cw: "card (waiting ?t p) = (if p = idx then length (active_children cs t) else card (waiting t p))" for p
    by simp
  have same: "row_state (?t j) = row_state (t j)" "row_type (?t j) = row_type (t j)" "children_list (?t j) = children_list (t j)"
    "remaining (?t j) = remaining (t j)" if "j \<noteq> idx" for j
    using that by (simp_all add: o)
  show ?thesis
    unfolding links_ok_def
  proof (intro conjI allI impI)
    fix c p assume "p \<in> set (parents_list (?t c))"
    then consider (old) "p \<in> set (parents_list (t c))" "p \<noteq> idx" "c \<noteq> idx"
      | (new) "p = idx" "c \<in> set (active_children cs t)"
      using d by (cases "c = idx"; cases "p = idx"; auto simp: pl)
    then have "row_state (?t c) = CAM_SYNC_STATE_ACTIVE \<and> row_type (?t c) = SYNC_TYPE_INDV \<and> alive (?t p)
      \<and> row_type (?t p) = SYNC_TYPE_GROUP \<and> c \<in> set (children_list (?t p))"
    proof cases
      case old
      then show ?thesis using linkD [OF l(1) old(1)] by (simp add: same alive_def)
    next
      case new
      then have "c \<noteq> idx" "c \<in> set cs" using l(3) by (auto simp: active_children_def)
      then show ?thesis
        using new l(5) live_alive [OF merged_state(1) [OF l(3), of t]] by (simp add: same g active_children_def)
    qed
    then show "row_state (?t c) = CAM_SYNC_STATE_ACTIVE" "row_type (?t c) = SYNC_TYPE_INDV" "alive (?t p)"
      "row_type (?t p) = SYNC_TYPE_GROUP" "c \<in> set (children_list (?t p))" by simp_all
  next
    fix p assume p: "alive (?t p) \<and> row_type (?t p) = SYNC_TYPE_GROUP"
    have "dt idx = 0" using debtD(2) [OF l(1), of idx] l(2) by blast
    then show "remaining (?t p) = of_nat (card (waiting ?t p) + dt p)"
      using p remainingD [OF l(1), of p] by (cases "p = idx") (auto simp: cw g same alive_def)
  next
    fix p assume "dt p \<noteq> 0"
    then have "dt p = 1" "alive (t p)" "row_type (t p) = SYNC_TYPE_GROUP" "p \<noteq> idx" using debtD [OF l(1), of p] l(2) by auto
    then show "dt p = 1" "alive (?t p)" "row_type (?t p) = SYNC_TYPE_GROUP" by (simp_all add: same alive_def)
  qed
qed

lemma merged_row_ok:
  assumes "\<And>j. row_ok e j (t j)" "links_ok dt t" "\<not> alive (t idx)" "idx \<notin> set cs" "distinct cs" "0 \<notin> set cs"
  shows "row_ok e j (merged_table idx cs t j)"
proof (cases "j = idx")
  case True
  have "distinct (active_children cs t)" "0 \<notin> set (active_children cs t)"
    using assms(5,6) by (simp_all add: active_children_def)
  then show ?thesis
    using merged_group [OF assms(4), of t] merged_state [OF assms(4), of t] True by (simp add: row_ok_def row_complete_iff)
next
  case False
  then show ?thesis
    using assms(1) [of j] dead_no_links(2) [OF assms(2,3), of j]
    by (simp add: merged_other [OF assms(4)] row_ok_def row_complete_iff alive_def)
qed

lemma good_merged:
  assumes "good dt s" "2 \<le> length objs" "distinct objs"
    "\<forall>obj \<in> set objs. valid_obj s obj \<and> row_type (sync_table s (nat obj)) = SYNC_TYPE_INDV"
    "free_index s < CAM_SYNC_MAX_OBJS"
  shows "good dt (s\<lparr>sync_bitmap := (sync_bitmap s)(free_index s := True),
    sync_table := merged_table (free_index s) (map nat objs) (sync_table s)\<rparr>)"
proof -
  let ?i = "free_index s" and ?cs = "map nat objs"
  have v: "\<forall>obj \<in> set objs. valid_obj s obj" using assms(4) by simp
  note o = merge_ready_objs [OF assms(1) v assms(3,5)] and f = free_index_dead [OF assms(1,5)]
  note w = goodD(2) [OF assms(1)]
  have z: "0 \<notin> set ?cs" using o(3) by blast
  have ty: "\<forall>c \<in> set ?cs. row_type (sync_table s c) = SYNC_TYPE_INDV" using assms(4) by auto
  have al: "alive (merged_table ?i ?cs (sync_table s) j) \<longleftrightarrow> j = ?i \<or> alive (sync_table s j)" for j
    using merged_other [OF o(1), of j "sync_table s"] live_alive [OF merged_state(1) [OF o(1), of "sync_table s"]]
    by (cases "j = ?i") (simp_all add: alive_def)
  show ?thesis
    using merged_links [OF sync_wfD(2) [OF w] f(2) o(1,2) ty] sync_wfD(3) [OF w] goodD(1) [OF assms(1)] f(1) assms(5)
      merged_row_ok [OF sync_wfD(1) [OF w] sync_wfD(2) [OF w] f(2) o(1,2) z]
    by (auto simp: good_def sync_wf_def slots_ok_def ready_def al)
qed

section \<open>Destruction\<close>

lemma unlink_from_children_eq:
  assumes "\<forall>c \<in> set cs. \<not> row_spinlocks s c" "distinct cs"
  shows "unlink_from_children idx cs s = s\<lparr>sync_table := (\<lambda>j. if j \<in> set cs \<and> alive (sync_table s j)
      then (sync_table s j)\<lparr>parents_list := remove1 idx (parents_list (sync_table s j))\<rparr> else sync_table s j)\<rparr>"
  using assms
proof (induction cs arbitrary: s)
  case Nil
  then show ?case by simp
next
  case (Cons c cs)
  let ?r = "sync_table s c"
  let ?s = "if alive ?r then upd_row c (\<lambda>r. r\<lparr>parents_list := remove1 idx (parents_list r)\<rparr>) s else s"
  have c: "c \<notin> set cs" "\<not> row_spinlocks s c" using Cons.prems by auto
  have 1: "unlink_from_children idx (c # cs) s = unlink_from_children idx cs ?s"
    using c by (simp add: Let_def alive_def cam_sync_util_cleanup_parents_list_def clean_list_def)
  have 2: "unlink_from_children idx cs ?s = ?s\<lparr>sync_table := (\<lambda>j. if j \<in> set cs \<and> alive (sync_table ?s j)
      then (sync_table ?s j)\<lparr>parents_list := remove1 idx (parents_list (sync_table ?s j))\<rparr> else sync_table ?s j)\<rparr>"
    by (rule Cons.IH) (use Cons.prems in auto)
  have 3: "?s\<lparr>sync_table := t\<rparr> = s\<lparr>sync_table := t\<rparr>" for t by (simp add: upd_row_def)
  show ?case
    unfolding 1 2 3 by (rule arg_cong [where f = "\<lambda>t. s\<lparr>sync_table := t\<rparr>"], rule ext) (use c in \<open>auto simp: alive_def\<close>)
qed

lemma unlink_from_parents_eq:
  assumes "\<forall>c \<in> set ps. \<not> row_spinlocks s c" "distinct ps"
  shows "unlink_from_parents idx ps s = s\<lparr>sync_table := (\<lambda>j. if j \<in> set ps \<and> alive (sync_table s j)
      then (sync_table s j)\<lparr>children_list := remove1 idx (children_list (sync_table s j))\<rparr> else sync_table s j)\<rparr>"
  using assms
proof (induction ps arbitrary: s)
  case Nil
  then show ?case by simp
next
  case (Cons c cs)
  let ?r = "sync_table s c"
  let ?s = "if alive ?r then upd_row c (\<lambda>r. r\<lparr>children_list := remove1 idx (children_list r)\<rparr>) s else s"
  have c: "c \<notin> set cs" "\<not> row_spinlocks s c" using Cons.prems by auto
  have 1: "unlink_from_parents idx (c # cs) s = unlink_from_parents idx cs ?s"
    using c by (simp add: Let_def alive_def cam_sync_util_cleanup_children_list_def clean_list_def)
  have 2: "unlink_from_parents idx cs ?s = ?s\<lparr>sync_table := (\<lambda>j. if j \<in> set cs \<and> alive (sync_table ?s j)
      then (sync_table ?s j)\<lparr>children_list := remove1 idx (children_list (sync_table ?s j))\<rparr> else sync_table ?s j)\<rparr>"
    by (rule Cons.IH) (use Cons.prems in auto)
  have 3: "?s\<lparr>sync_table := t\<rparr> = s\<lparr>sync_table := t\<rparr>" for t by (simp add: upd_row_def)
  show ?case
    unfolding 1 2 3 by (rule arg_cong [where f = "\<lambda>t. s\<lparr>sync_table := t\<rparr>"], rule ext) (use c in \<open>auto simp: alive_def\<close>)
qed

text \<open>The table when object \<open>i\<close> is gone.\<close>

definition unlink_row :: "nat \<Rightarrow> ('f, 'd) sync_table_row \<Rightarrow> nat \<Rightarrow> ('f, 'd) sync_table_row \<Rightarrow> ('f, 'd) sync_table_row" where
  "unlink_row i r j x =
     (let x = (if j \<in> set (children_list r) \<and> alive x then x\<lparr>parents_list := remove1 i (parents_list x)\<rparr> else x)
      in if j \<in> set (parents_list r) \<and> alive x then x\<lparr>children_list := remove1 i (children_list x)\<rparr> else x)"

definition destroyed_table :: "nat \<Rightarrow> (nat \<Rightarrow> ('f, 'd) sync_table_row) \<Rightarrow> (nat \<Rightarrow> ('f, 'd) sync_table_row)" where
  "destroyed_table i t = (\<lambda>j. if j = i then (cam_sync_deinit_row (t i))\<lparr>signaled := True\<rparr> else unlink_row i (t i) j (t j))"

definition destroyed_device :: "nat \<Rightarrow> ('f, 'd) sync_device \<Rightarrow> ('f, 'd) sync_device" where
  "destroyed_device i s = s\<lparr>sync_table := destroyed_table i (sync_table s), sync_bitmap := (sync_bitmap s)(i := False),
     dma_calls := dma_calls s @ (if ext_dma_fence (sync_table s i)
       then [Dma_Put_Ref (dma_fence_row_idx (dma_fence_info (sync_table s i)))] else [])\<rparr>"

lemma lock_over_fields [simp]:
  "(row_lock c s)\<lparr>sync_bitmap := b\<rparr> = row_lock c (s\<lparr>sync_bitmap := b\<rparr>)"
  "(row_lock c s)\<lparr>dma_calls := d\<rparr> = row_lock c (s\<lparr>dma_calls := d\<rparr>)"
  by (simp_all add: row_lock_def)

lemma destroy_eq:
  assumes "good dt s" "\<not> obj_out_of_range obj" "alive (sync_table s (nat obj))"
  shows "cam_sync_destroy obj s = (destroyed_device (nat obj) s, Inr ())"
proof -
  let ?i = "nat obj" and ?t = "sync_table s"
  note r = ready_proj [OF goodD(1) [OF assms(1)]]
  have ok: "row_ok (cam_sync_eventq s) ?i (?t ?i)" by (rule sync_wfD(1) [OF goodD(2) [OF assms(1)]])
  have ch: "filter ((<) 0) (children_list (?t ?i)) = children_list (?t ?i)"
    using ok by (intro filter_True) (auto simp: row_ok_def intro: gr0I)
  have pa: "filter ((<) 0) (parents_list (?t ?i)) = parents_list (?t ?i)"
    using linkD(4) [OF sync_wfD(2) [OF goodD(2) [OF assms(1)]], of _ ?i] sync_wfD(3) [OF goodD(2) [OF assms(1)]]
    by (intro filter_True) (auto simp: slots_ok_def)
  have dist: "distinct (children_list (?t ?i))" "distinct (parents_list (?t ?i))" using ok by (simp_all add: row_ok_def)
  let ?a = "upd_row ?i (\<lambda>r. r\<lparr>row_state := CAM_SYNC_STATE_INVALID, children_list := [], parents_list := []\<rparr>) s"
  let ?b = "unlink_from_parents ?i (parents_list (?t ?i)) (unlink_from_children ?i (children_list (?t ?i)) ?a)"
  have b: "?b = s\<lparr>sync_table := (\<lambda>j. if j = ?i then sync_table ?a ?i else unlink_row ?i (?t ?i) j (?t j))\<rparr>"
    (is "_ = ?rhs")
  proof -
    have 1: "unlink_from_children ?i (children_list (?t ?i)) ?a = ?a\<lparr>sync_table := (\<lambda>j.
        if j \<in> set (children_list (?t ?i)) \<and> alive (sync_table ?a j)
        then (sync_table ?a j)\<lparr>parents_list := remove1 ?i (parents_list (sync_table ?a j))\<rparr> else sync_table ?a j)\<rparr>"
      (is "_ = ?c") by (rule unlink_from_children_eq) (use r dist in simp_all)
    have 2: "unlink_from_parents ?i (parents_list (?t ?i)) ?c = ?c\<lparr>sync_table := (\<lambda>j.
        if j \<in> set (parents_list (?t ?i)) \<and> alive (sync_table ?c j)
        then (sync_table ?c j)\<lparr>children_list := remove1 ?i (children_list (sync_table ?c j))\<rparr> else sync_table ?c j)\<rparr>"
      by (rule unlink_from_parents_eq) (use r dist in simp_all)
    have 3: "?c\<lparr>sync_table := x\<rparr> = s\<lparr>sync_table := x\<rparr>" for x by (simp add: upd_row_def)
    show ?thesis
      unfolding 1 2 3
      by (rule arg_cong [where f = "\<lambda>t. s\<lparr>sync_table := t\<rparr>"], rule ext) (auto simp: unlink_row_def Let_def alive_def)
  qed
  have md: "monitor_destroy j x = x" if "\<not> monitor_mask x" for j and x :: "('a, 'b) sync_device"
    using that by (simp add: monitor_destroy_def)
  have fin: "destroyed_table ?i ?t = (\<lambda>j. if j = ?i then sync_table ?a ?i else unlink_row ?i (?t ?i) j (?t j))
      (?i := (cam_sync_deinit_row (sync_table ?a ?i))\<lparr>signaled := True\<rparr>)"
    by (rule ext) (simp add: destroyed_table_def cam_sync_deinit_row_def)
  have cut: "filter (\<lambda>c. \<not> 0 < c) (children_list (?t ?i)) = []" "filter (\<lambda>p. \<not> 0 < p) (parents_list (?t ?i)) = []"
    using ch pa by (auto simp: filter_empty_conv filter_id_conv)
  have a: "upd_row ?i (\<lambda>r. r\<lparr>row_state := CAM_SYNC_STATE_INVALID,
                    children_list := filter (\<lambda>c. \<not> 0 < c) (children_list r),
                    parents_list := filter (\<lambda>p. \<not> 0 < p) (parents_list r)\<rparr>) s = ?a"
    using cut by (simp add: upd_row_def)
  show ?thesis
    using assms(2,3) r b a ch pa
    by (simp add: cam_sync_destroy_def cam_sync_deinit_object_def md alive_def Let_def complete_all_def
        destroyed_device_def fin) (simp add: upd_row_def)
qed

lemma unlink_row_proj [simp]:
  "row_state (unlink_row i r j x) = row_state x" "row_type (unlink_row i r j x) = row_type x"
  "remaining (unlink_row i r j x) = remaining x" "sync_id (unlink_row i r j x) = sync_id x"
  "signaled (unlink_row i r j x) = signaled x" "callback_list (unlink_row i r j x) = callback_list x"
  "user_payload_list (unlink_row i r j x) = user_payload_list x"
  "parents_list (unlink_row i r j x)
    = (if j \<in> set (children_list r) \<and> alive x then remove1 i (parents_list x) else parents_list x)"
  "children_list (unlink_row i r j x)
    = (if j \<in> set (parents_list r) \<and> alive x then remove1 i (children_list x) else children_list x)"
  by (auto simp: unlink_row_def Let_def alive_def)

text \<open>
  A destruction keeps the invariant, except that the groups that wait for the object go on counting it: the debt of each grows by one. The
  debt of the object itself, should it be a group, is gone.
\<close>

definition debt_after :: "nat \<Rightarrow> nat list \<Rightarrow> (nat \<Rightarrow> nat) \<Rightarrow> nat \<Rightarrow> nat" where
  "debt_after i ps dt q = (if q = i then 0 else if q \<in> set ps then dt q + 1 else dt q)"

lemma no_debt_upd [simp]: "no_debt(i := 0) = no_debt"
  by (rule ext) simp

lemma debt_after_none [simp]: "debt_after i [] dt = dt(i := 0)"
  by (rule ext) (simp add: debt_after_def)

lemma destroyed_links:
  assumes l: "links_ok dt t" "\<And>j. distinct (parents_list (t j))" "\<And>p. finite (waiting t p)" "\<forall>p \<in> set (parents_list (t i)). dt p = 0"
  shows "links_ok (debt_after i (parents_list (t i)) dt) (destroyed_table i t)"
proof -
  let ?t = "destroyed_table i t" and ?dt = "debt_after i (parents_list (t i)) dt"
  have pl: "p \<in> set (parents_list (?t c)) \<longleftrightarrow> p \<in> set (parents_list (t c)) \<and> p \<noteq> i \<and> c \<noteq> i" for p c
    using l(2) [of c] linkD(3,6) [OF l(1), of p c]
    by (auto simp: destroyed_table_def cam_sync_deinit_row_def)
  have w: "waiting ?t p = (if p = i then {} else waiting t p - {i})" for p by (auto simp: waiting_def pl)
  have al: "alive (?t j) \<longleftrightarrow> alive (t j) \<and> j \<noteq> i" for j
    by (simp add: destroyed_table_def alive_def cam_sync_deinit_row_def)
  have same: "row_type (?t j) = row_type (t j)" "remaining (?t j) = remaining (t j)" "row_state (?t j) = row_state (t j)" if "j \<noteq> i" for j
    using that by (simp_all add: destroyed_table_def)
  show ?thesis
    unfolding links_ok_def
  proof (intro conjI allI impI)
    fix c p assume "p \<in> set (parents_list (?t c))"
    then have c: "p \<in> set (parents_list (t c))" "p \<noteq> i" "c \<noteq> i" by (auto simp: pl)
    then show "row_state (?t c) = CAM_SYNC_STATE_ACTIVE" "row_type (?t c) = SYNC_TYPE_INDV" "alive (?t p)"
      "row_type (?t p) = SYNC_TYPE_GROUP"
      using linkD [OF l(1) c(1)] by (simp_all add: al same)
    show "c \<in> set (children_list (?t p))"
      using linkD [OF l(1) c(1)] c by (simp add: destroyed_table_def in_set_remove1)
  next
    fix p assume "alive (?t p) \<and> row_type (?t p) = SYNC_TYPE_GROUP"
    then have p: "p \<noteq> i" "alive (t p)" "row_type (t p) = SYNC_TYPE_GROUP" by (auto simp: al same)
    show "remaining (?t p) = of_nat (card (waiting ?t p) + ?dt p)"
    proof (cases "p \<in> set (parents_list (t i))")
      case True
      then have "i \<in> waiting t p" by (simp add: waiting_def)
      then have "card (waiting t p) = Suc (card (waiting t p - {i}))" by (rule card.remove [OF l(3)])
      then show ?thesis using remainingD [OF l(1) p(2,3)] p(1) True l(4) by (simp add: w debt_after_def same)
    next
      case False
      then have "waiting t p - {i} = waiting t p" by (auto simp: waiting_def)
      then show ?thesis using remainingD [OF l(1) p(2,3)] p(1) False by (simp add: w debt_after_def same)
    qed
  next
    fix p assume "?dt p \<noteq> 0"
    then show "?dt p = 1" "alive (?t p)" "row_type (?t p) = SYNC_TYPE_GROUP"
      using debtD [OF l(1), of p] linkD(4,5) [OF l(1), of p i] l(4)
      by (auto simp: debt_after_def al same split: if_splits)
  qed
qed

lemma good_destroyed:
  assumes "good dt s" "alive (sync_table s i)" "\<forall>p \<in> set (parents_list (sync_table s i)). dt p = 0"
  shows "good (debt_after i (parents_list (sync_table s i)) dt) (destroyed_device i s)"
proof -
  note w = goodD(2) [OF assms(1)]
  note rows = sync_wfD(1) [OF w]
  have d: "distinct (parents_list (sync_table s j))" for j using rows [of j] by (simp add: row_ok_def)
  have "row_ok (cam_sync_eventq s) j (destroyed_table i (sync_table s) j)" for j
    using rows [of j] notin_set_remove1
    by (auto simp: destroyed_table_def row_ok_def row_complete_iff alive_def cam_sync_deinit_row_def)
  moreover have "alive (destroyed_table i (sync_table s) j) \<longleftrightarrow> alive (sync_table s j) \<and> j \<noteq> i" for j
    by (simp add: destroyed_table_def alive_def cam_sync_deinit_row_def)
  ultimately show ?thesis
    using destroyed_links [OF sync_wfD(2) [OF w] d waiting_bound(1) [OF sync_wfD(2,3) [OF w]] assms(3)]
      sync_wfD(3) [OF w] goodD(1) [OF assms(1)] assms(2)
    by (auto simp: good_def sync_wf_def slots_ok_def ready_def destroyed_device_def)
qed

lemma destroy_dead:
  "good dt s \<Longrightarrow> obj_out_of_range obj \<or> \<not> alive (sync_table s (nat obj)) \<Longrightarrow> cam_sync_destroy obj s = (s, Inl EINVAL)"
  using ready_proj [OF goodD(1) [of dt s]]
  by (auto simp: cam_sync_destroy_def cam_sync_deinit_object_def alive_def Let_def)

section \<open>Fences that are associated with other fences\<close>

text \<open>The row of a new fence that is associated with a DMA fence, a synx object, both or none.\<close>

definition linked_row ::
    "cam_dma_fence_create_sync_obj_payload option \<Rightarrow> sync_synx_obj_info option \<Rightarrow> ('f, 'd) sync_table_row \<Rightarrow> ('f, 'd) sync_table_row" where
  "linked_row dma synx r =
     (let r = (case synx of None \<Rightarrow> r | Some x \<Rightarrow> r\<lparr>synx_obj_info := x, ext_synx_obj := True\<rparr>) in
      case dma of None \<Rightarrow> r
      | Some d \<Rightarrow> r\<lparr>dma_fence_info := \<lparr>dma_fence_fd = dma_payload_fd d, dma_fence_row_idx = dma_payload_row_idx d,
                   sync_created_with_dma = dma_payload_created d\<rparr>, ext_dma_fence := True\<rparr>)"

definition dma_refs_taken :: "cam_dma_fence_create_sync_obj_payload option \<Rightarrow> dma_call list" where
  "dma_refs_taken dma = (case dma of None \<Rightarrow> [] | Some d \<Rightarrow> if dma_payload_created d then [Dma_Get_Ref (dma_payload_row_idx d)] else [])"

lemma create_util_eq:
  assumes "ready s"
  shows "cam_sync_create_util name dma synx dma_rc s =
    (let idx = free_index s in
     if CAM_SYNC_MAX_OBJS \<le> idx then (s, None, Inl ENOMEM)
     else ((taken_device idx (linked_row dma synx (fresh_row idx name SYNC_TYPE_INDV (sync_table s idx))) s)
             \<lparr>dma_calls := dma_calls s @ dma_refs_taken dma\<rparr>,
           Some idx, if dma_refs_taken dma = [] then Inr () else dma_rc))"
proof (cases "free_index s < CAM_SYNC_MAX_OBJS")
  case False
  moreover have "cam_sync_print_fence_table s = s"
    using ready_proj(1) [OF assms] by (simp add: cam_sync_print_fence_table_def list_ex_iff)
  ultimately show ?thesis by (simp add: cam_sync_create_util_def Let_def)
next
  case True
  note r = ready_proj [OF assms]
  have 0: "0 < free_index s" using ffz_clear [OF True] r(5) by (cases "free_index s") auto
  let ?i = "free_index s"
  let ?s = "s\<lparr>sync_bitmap := (sync_bitmap s)(?i := True)\<rparr>"
  have init: "cam_sync_init_row ?i name SYNC_TYPE_INDV (row_lock ?i ?s) =
      (row_lock ?i (upd_row ?i (fresh_row ?i name SYNC_TYPE_INDV) ?s), Inr ())"
    using r 0 True by (simp add: cam_sync_init_row_def Let_def fresh_row_def [abs_def] upd_row_def row_lock_def)
  have un: "row_unlock ?i (row_lock ?i x) = x" if "row_spinlocks x = row_spinlocks s" for x :: "('a, 'b) sync_device"
    using that r(1) [of ?i] by simp
  show ?thesis
    using True unfolding cam_sync_create_util_def Let_def init
    by (cases dma; cases synx)
      (simp_all add: un dma_refs_taken_def linked_row_def taken_device_def not_le, auto simp: upd_row_def)
qed

lemma linked_row_proj [simp]:
  "row_state (linked_row dma synx r) = row_state r" "row_type (linked_row dma synx r) = row_type r"
  "parents_list (linked_row dma synx r) = parents_list r" "children_list (linked_row dma synx r) = children_list r"
  "sync_id (linked_row dma synx r) = sync_id r" "signaled (linked_row dma synx r) = signaled r"
  "remaining (linked_row dma synx r) = remaining r" "callback_list (linked_row dma synx r) = callback_list r"
  "user_payload_list (linked_row dma synx r) = user_payload_list r"
  by (simp_all add: linked_row_def Let_def split: option.split)

lemma good_create_util:
  assumes "good dt s"
  shows "good dt (fst (cam_sync_create_util name dma synx dma_rc s))"
proof (cases "free_index s < CAM_SYNC_MAX_OBJS")
  case True
  let ?i = "free_index s"
  let ?r = "linked_row dma synx (fresh_row ?i name SYNC_TYPE_INDV (sync_table s ?i))"
  have "row_ok (cam_sync_eventq s) ?i ?r" "alive ?r"
    using fresh_row_ok(1) [where e = "cam_sync_eventq s" and i = ?i and name = name and r = "sync_table s ?i"]
    by (simp_all add: row_ok_def row_complete_iff alive_def fresh_row_def)
  then have "good dt (taken_device ?i ?r s)"
    by (intro good_taken [OF assms free_index_dead(1) [OF assms True] True free_index_dead(2) [OF assms True]]) (simp_all add: fresh_row_def)
  then have "good dt ((taken_device ?i ?r s)\<lparr>dma_calls := c\<rparr>)" for c by (rule good_cong) simp_all
  then show ?thesis using True by (simp add: create_util_eq [OF goodD(1) [OF assms]] Let_def)
next
  case False
  then show ?thesis using assms by (simp add: create_util_eq [OF goodD(1) [OF assms]] Let_def)
qed

text \<open>The callback of a DMA fence: the fence is signaled as by its last reference, unless references are left; the DMA fence is not told.\<close>

definition dma_cb_status :: "errno + unit \<Rightarrow> u32" where
  "dma_cb_status fence_status = (case fence_status of Inr _ \<Rightarrow> CAM_SYNC_STATE_SIGNALED_SUCCESS
     | Inl er \<Rightarrow> if er = ECANCELED then CAM_SYNC_STATE_SIGNALED_CANCEL else CAM_SYNC_STATE_SIGNALED_ERROR)"

lemma dma_cb_status_signaled: "is_signaled (dma_cb_status fence_status)"
  by (simp add: dma_cb_status_def is_signaled_def split: sum.split)

lemma dma_cb_eq:
  assumes "good dt s"
  shows "cam_sync_dma_fence_cb obj (Some (fd, fence_status)) s =
    (let i = nat obj; r = sync_table s i; st = dma_cb_status fence_status in
     if obj_out_of_range obj \<or> \<not> ext_dma_fence r \<or> dma_fence_fd (dma_fence_info r) \<noteq> fd then (s, Inl EINVAL)
     else case cam_sync_signal_validate_util st r of Inl er \<Rightarrow> (s, Inl er)
       | Inr _ \<Rightarrow> if ref_cnt r = 0 then ((signaled_device i st 0 s)\<lparr>dma_calls := dma_calls s\<rparr>, Inr ()) else (s, Inr ()))"
proof -
  note r = ready_proj [OF goodD(1) [OF assms]]
  let ?i = "nat obj" and ?st = "dma_cb_status fence_status"
  let ?b = "upd_row ?i (\<lambda>r. r\<lparr>ref_cnt := 0, row_state := ?st\<rparr>) s\<lparr>dma_calls := dma_calls s\<rparr>"
  note fire = fire_and_tell_parents [OF goodD(1) [OF assms] goodD(2) [OF assms] dma_cb_status_signaled [of fence_status],
      where i = ?i and c = "dma_calls s" and cause = 0]
  have same: "upd_row ?i (\<lambda>r. r\<lparr>ref_cnt := ref_cnt r - 1\<rparr>) (upd_row ?i (\<lambda>r. r\<lparr>ref_cnt := ref_cnt r + 1\<rparr>) s) = s"
    by (simp add: upd_row_def)
  have b: "?b = upd_row ?i (\<lambda>r. r\<lparr>row_state := ?st\<rparr>) s" if "ref_cnt (sync_table s ?i) = 0"
    using that by (cases "sync_table s ?i") (simp add: upd_row_def)
  show ?thesis
  proof (cases "ref_cnt (sync_table s ?i) = 0")
    case True
    then show ?thesis
      using r fire unfolding b [OF True]
      by (simp add: cam_sync_dma_fence_cb_def Let_def dma_cb_status_def [symmetric] same split: sum.split)
  next
    case False
    then show ?thesis
      using r by (simp add: cam_sync_dma_fence_cb_def Let_def dma_cb_status_def [symmetric] same split: sum.split)
  qed
qed

lemma good_dma_cb: "good dt s \<Longrightarrow> good dt (fst (cam_sync_dma_fence_cb obj info s))"
proof (cases info)
  case (Some x)
  assume g: "good dt s"
  obtain fd fs where x: "x = (fd, fs)" by (cases x)
  have "good dt ((signaled_device (nat obj) (dma_cb_status fs) 0 s)\<lparr>dma_calls := c\<rparr>)"
    if "cam_sync_signal_validate_util (dma_cb_status fs) (sync_table s (nat obj)) = Inr u" for u c
  proof -
    have "good dt (signaled_device (nat obj) (dma_cb_status fs) 0 s)"
      using that g signaled_device_wf [of dt s "nat obj" "dma_cb_status fs" 0] signaled_device_ready [of s "nat obj"]
      by (auto simp: good_def validate_Inr alive_def)
    then show ?thesis by (rule good_cong) simp_all
  qed
  then show ?thesis using g unfolding Some x by (simp add: dma_cb_eq [OF g] Let_def split: sum.split)
qed (simp add: cam_sync_dma_fence_cb_def)

section \<open>Requests\<close>

text \<open>
  The requests of the fence API and of its ioctls that change the device while it is open, with the creation of fences that are associated with
  a DMA fence or a synx object and the callback of the DMA fence, and one run of the work queue.
\<close>

datatype ('f, 'd) sync_req =
  Req_Create string
| Req_Create_Linked string "cam_dma_fence_create_sync_obj_payload option" "sync_synx_obj_info option" "errno + unit"
| Req_Merge "int list"
| Req_Destroy int
| Req_Signal int u32 u32
| Req_Dma_Callback int "(int \<times> (errno + unit)) option"
| Req_Get_Ref int
| Req_Put_Ref int
| Req_Register "'f option" 'd int
| Req_Deregister 'f 'd int
| Req_Payload "(int \<times> u64 \<times> u64) cam_private_ioctl_arg"
| Req_Unpayload "(int \<times> u64 \<times> u64) cam_private_ioctl_arg"
| Req_User_Create "string cam_private_ioctl_arg"
| Req_User_Merge "(nat \<times> int list option) cam_private_ioctl_arg"
| Req_User_Destroy "int cam_private_ioctl_arg"
| Req_User_Signal "(int \<times> u32) cam_private_ioctl_arg"
| Req_Work

primrec sync_step :: "('f, 'd) sync_req \<Rightarrow> ('f, 'd) sync_device \<Rightarrow> ('f, 'd) sync_device" where
  "sync_step (Req_Create name) s = fst (cam_sync_create name s)"
| "sync_step (Req_Create_Linked name dma synx dma_rc) s = fst (cam_sync_create_util name dma synx dma_rc s)"
| "sync_step (Req_Merge objs) s = fst (cam_sync_merge (Some objs) s)"
| "sync_step (Req_Destroy obj) s = fst (cam_sync_destroy obj s)"
| "sync_step (Req_Signal obj st cause) s = fst (cam_sync_signal obj st cause s)"
| "sync_step (Req_Dma_Callback obj info) s = fst (cam_sync_dma_fence_cb obj info s)"
| "sync_step (Req_Get_Ref obj) s = fst (cam_sync_get_obj_ref obj s)"
| "sync_step (Req_Put_Ref obj) s = fst (cam_sync_put_obj_ref obj s)"
| "sync_step (Req_Register f d obj) s = fst (cam_sync_register_callback f d obj s)"
| "sync_step (Req_Deregister f d obj) s = fst (cam_sync_deregister_callback f d obj s)"
| "sync_step (Req_Payload k) s = fst (cam_sync_handle_register_user_payload k s)"
| "sync_step (Req_Unpayload k) s = fst (cam_sync_handle_deregister_user_payload k s)"
| "sync_step (Req_User_Create k) s = fst (cam_sync_handle_create k s)"
| "sync_step (Req_User_Merge k) s = fst (cam_sync_handle_merge k s)"
| "sync_step (Req_User_Destroy k) s = fst (cam_sync_handle_destroy k s)"
| "sync_step (Req_User_Signal k) s = fst (cam_sync_handle_signal k s)"
| "sync_step Req_Work s = cam_sync_util_cb_dispatch s"

text \<open>What a request merges and what it destroys, if it comes to that.\<close>

definition merged_objs :: "('f, 'd) sync_req \<Rightarrow> int list" where
  "merged_objs req = (case req of Req_Merge objs \<Rightarrow> objs
     | Req_User_Merge k \<Rightarrow> (case user_arg k of Inr (n, Some objs) \<Rightarrow> take n objs | _ \<Rightarrow> [])
     | _ \<Rightarrow> [])"

definition destroyed_obj :: "('f, 'd) sync_req \<Rightarrow> int option" where
  "destroyed_obj req = (case req of Req_Destroy obj \<Rightarrow> Some obj
     | Req_User_Destroy k \<Rightarrow> (case user_arg k of Inr obj \<Rightarrow> Some obj | Inl _ \<Rightarrow> None)
     | _ \<Rightarrow> None)"

text \<open>
  The two uses of the API that its code does not withstand: a group as a child of a merge, and the
  destruction of a fence that a group waits for.
\<close>

definition sync_regular :: "('f, 'd) sync_device \<Rightarrow> ('f, 'd) sync_req \<Rightarrow> bool" where
  "sync_regular s req \<longleftrightarrow>
     (\<forall>obj \<in> set (merged_objs req). valid_obj s obj \<longrightarrow> row_type (sync_table s (nat obj)) = SYNC_TYPE_INDV) \<and>
     (case destroyed_obj req of None \<Rightarrow> True | Some obj \<Rightarrow> parents_list (sync_table s (nat obj)) = [])"

lemmas sync_regular_simps = sync_regular_def merged_objs_def destroyed_obj_def

inductive sync_reach :: "('f, 'd) sync_device \<Rightarrow> bool" where
  Start: "sync_reach (cam_sync_fresh False [])"
| Request: "sync_reach s \<Longrightarrow> sync_regular s req \<Longrightarrow> sync_reach (sync_step req s)"

inductive_cases sync_reach_cases: "sync_reach s"

lemma good_fresh: "good no_debt (cam_sync_fresh False [])"
  by (simp add: good_def ready_def cam_sync_fresh_def sync_wf_def row_ok_def links_ok_def slots_ok_def alive_def zero_row_def)

lemma good_merge:
  assumes "good dt s" "\<forall>obj \<in> set objs. valid_obj s obj \<longrightarrow> row_type (sync_table s (nat obj)) = SYNC_TYPE_INDV"
  shows "good dt (fst (cam_sync_merge (Some objs) s))"
proof (cases "2 \<le> length objs \<and> distinct objs \<and> (\<forall>obj \<in> set objs. valid_obj s obj) \<and> free_index s < CAM_SYNC_MAX_OBJS")
  case True
  then have v: "\<forall>obj \<in> set objs. valid_obj s obj \<and> row_type (sync_table s (nat obj)) = SYNC_TYPE_INDV"
    using assms(2) by simp
  have c: "2 \<le> length objs" "distinct objs" "free_index s < CAM_SYNC_MAX_OBJS" using True by simp_all
  show ?thesis using good_merged [OF assms(1) c(1,2) v c(3)] by (simp add: merge_eq [OF assms(1) c(1,2) v c(3)])
next
  case False
  have "length objs \<le> 1 \<longleftrightarrow> \<not> 2 \<le> length objs" by auto
  then have "cam_sync_merge (Some objs) s = (s, None, snd (snd (cam_sync_merge (Some objs) s)))"
    using False by (auto simp: cam_sync_merge_def check_all_valid_eq [OF goodD(1) [OF assms(1)]] Let_def
        remove_duplicate_length)
  then show ?thesis using assms(1) by (metis fst_conv)
qed

lemma good_user_create: "good dt s \<Longrightarrow> good dt (fst (cam_sync_handle_create k s))"
  using good_create [of dt s]
  by (fastforce simp: cam_sync_handle_create_def split: sum.split prod.split dest: arg_cong [where f = fst])

lemma good_user_merge:
  assumes "good dt s" "sync_regular s (Req_User_Merge k)"
  shows "good dt (fst (cam_sync_handle_merge k s))"
proof (cases "\<exists>n objs. user_arg k = Inr (n, Some objs)")
  case False
  then show ?thesis using assms(1) ready_proj(4) [OF goodD(1) [OF assms(1)]]
    by (auto simp: cam_sync_handle_merge_def split: sum.split option.split)
next
  case True
  then obtain n objs where k: "user_arg k = Inr (n, Some objs)" by blast
  then have "good dt (fst (cam_sync_merge (Some (take n objs)) s))"
    using good_merge [OF assms(1), of "take n objs"] assms(2) by (simp add: sync_regular_simps)
  then show ?thesis using assms(1) ready_proj(4) [OF goodD(1) [OF assms(1)]]
    by (auto simp: cam_sync_handle_merge_def k split: sum.split prod.split)
qed

text \<open>The debts after a request: an object that is destroyed has none.\<close>

definition debt_step :: "('f, 'd) sync_req \<Rightarrow> (nat \<Rightarrow> nat) \<Rightarrow> nat \<Rightarrow> nat" where
  "debt_step req dt = (case destroyed_obj req of None \<Rightarrow> dt | Some obj \<Rightarrow> if obj_out_of_range obj then dt else dt(nat obj := 0))"

lemma debt_step_none [simp]: "debt_step req no_debt = no_debt"
  by (simp add: debt_step_def fun_upd_idem split: option.split)

lemma good_destroy:
  assumes "good dt s" "parents_list (sync_table s (nat obj)) = []"
  shows "good (if obj_out_of_range obj then dt else dt(nat obj := 0)) (fst (cam_sync_destroy obj s))"
proof (cases "obj_out_of_range obj \<or> \<not> alive (sync_table s (nat obj))")
  case True
  then have "dt(nat obj := 0) = dt" if "\<not> obj_out_of_range obj"
    using that debtD(2) [OF sync_wfD(2) [OF goodD(2) [OF assms(1)]], of "nat obj"] by (intro fun_upd_idem) auto
  then show ?thesis using assms(1) True by (auto simp: destroy_dead)
next
  case False
  then show ?thesis using good_destroyed [OF assms(1), of "nat obj"] assms(2) by (simp add: destroy_eq [OF assms(1)])
qed

lemma good_work: "good dt s \<Longrightarrow> good dt (cam_sync_util_cb_dispatch s)"
  by (erule good_cong) (simp_all add: cam_sync_util_cb_dispatch_def call_cb_def split: list.split)

lemma good_user_signal: "good dt s \<Longrightarrow> good dt (fst (cam_sync_handle_signal k s))"
  using good_get_ref good_signal
  by (fastforce simp: cam_sync_handle_signal_def split: sum.split prod.split dest: arg_cong [where f = fst])

lemma good_step:
  assumes "good dt s" "sync_regular s req"
  shows "good (debt_step req dt) (sync_step req s)"
proof (cases req)
  case (Req_Merge objs)
  then show ?thesis using good_merge [OF assms(1), of objs] assms(2) by (simp add: debt_step_def sync_regular_simps)
next
  case (Req_User_Merge k)
  then show ?thesis using good_user_merge [OF assms(1), of k] assms(2) by (simp add: debt_step_def destroyed_obj_def)
next
  case (Req_Destroy obj)
  then show ?thesis using good_destroy [OF assms(1), of obj] assms(2) by (simp add: debt_step_def sync_regular_simps)
next
  case (Req_User_Destroy k)
  show ?thesis
  proof (cases "user_arg k")
    case (Inl a)
    then show ?thesis using Req_User_Destroy assms(1) by (simp add: debt_step_def destroyed_obj_def cam_sync_handle_destroy_def)
  next
    case (Inr obj)
    then show ?thesis using Req_User_Destroy good_destroy [OF assms(1), of obj] assms(2)
      by (simp add: debt_step_def sync_regular_simps cam_sync_handle_destroy_def)
  qed
qed (use assms(1) in \<open>simp_all add: debt_step_def destroyed_obj_def good_create good_create_util good_signal good_dma_cb good_get_ref
  good_put_ref good_register good_deregister good_register_payload good_deregister_payload good_user_create good_user_signal good_work\<close>)

lemma reach_good: "sync_reach s \<Longrightarrow> good no_debt s"
proof (induction rule: sync_reach.induct)
  case (Request s req)
  then show ?case using good_step [of no_debt s req] by simp
qed (rule good_fresh)

end
