(* ===== verification/Cam_Sync_Props.thy ===== *)
theory Cam_Sync_Props
  imports Cam_Sync_Correct Slot_Spec
begin

text \<open>
  What the camera fence table guarantees, stated over the devices that requests lead to: the
  consistency of the table, the delivery of a signal, what a merge builds, how a group completes, the
  index bitmap as a slot table, and the uses the code does not withstand.
\<close>

section \<open>Small devices\<close>

text \<open>
  Devices that a few requests lead to, used as instances below: two fences, 1 and 2, each with a
  reference; then the group 3 of the two with a callback.
\<close>

definition demo_pair :: "(nat, nat) sync_device" where
  "demo_pair = fold sync_step [Req_Create ''a'', Req_Create ''b'', Req_Get_Ref 1, Req_Get_Ref 2] (cam_sync_fresh False [])"

definition demo_group :: "(nat, nat) sync_device" where
  "demo_group = fold sync_step [Req_Merge [1, 2], Req_Register (Some 7) 9 3] demo_pair"

lemmas demo_eval = sync_step.simps cam_sync_create_def cam_sync_create_util_def cam_sync_init_row_def Let_def
  find_first_zero_bit_def ffz_from.simps CAM_SYNC_MAX_OBJS_def cam_sync_fresh_def row_lock_def row_unlock_def upd_row_def
  monitor_update_def monitor_dump_def cam_sync_get_obj_ref_def obj_out_of_range_def cam_sync_merge_def check_all_valid.simps
  cam_sync_check_valid_def cam_common_util_remove_duplicate_arr_def cam_sync_init_group_object_def next_alloc_def
  complete_all_def cam_sync_register_callback_def is_signaled_def zero_row_def fun_upd_def

lemma demo_pair_rows:
  "sync_table demo_pair 1 = zero_row\<lparr>row_name := ''a'', sync_id := 1, row_state := 1, ref_cnt := 1\<rparr>"
  "sync_table demo_pair 2 = zero_row\<lparr>row_name := ''b'', sync_id := 2, row_state := 1, ref_cnt := 1\<rparr>"
  "i \<notin> {1, 2} \<Longrightarrow> sync_table demo_pair i = zero_row"
  "sync_bitmap demo_pair i \<longleftrightarrow> i \<in> {0, 1, 2}"
  by (auto simp: demo_pair_def demo_eval)

lemma reach_run:
  assumes "sync_reach s" "\<forall>n < length reqs. sync_regular (fold sync_step (take n reqs) s) (reqs ! n)"
  shows "sync_reach (fold sync_step reqs s)"
  using assms
proof (induction reqs arbitrary: s)
  case (Cons req reqs)
  have "sync_regular (fold sync_step (take n reqs) (sync_step req s)) (reqs ! n)" if "n < length reqs" for n
    using Cons.prems(2) [rule_format, of "Suc n"] that by simp
  moreover have "sync_reach (sync_step req s)"
    using Cons.prems(1) Cons.prems(2) [rule_format, of 0] by (simp add: sync_reach.Request)
  ultimately show ?case using Cons.IH by simp
qed simp

lemma demo_pair_reach: "sync_reach demo_pair"
  unfolding demo_pair_def by (rule reach_run [OF sync_reach.Start]) (simp add: sync_regular_simps less_Suc_eq numeral_eq_Suc)

lemma demo_merge:
  "fst (cam_sync_merge (Some [1, 2]) demo_pair)
    = demo_pair\<lparr>sync_bitmap := (sync_bitmap demo_pair)(3 := True), sync_table := merged_table 3 [1, 2] (sync_table demo_pair)\<rparr>"
proof -
  have f: "free_index demo_pair = 3"
    by (simp add: find_first_zero_bit_def ffz_from.simps demo_pair_rows CAM_SYNC_MAX_OBJS_def)
  have v: "\<forall>obj \<in> set [1, 2]. valid_obj demo_pair obj \<and> row_type (sync_table demo_pair (nat obj)) = SYNC_TYPE_INDV"
    using demo_pair_rows(1,2)
    by (simp add: valid_obj_def obj_out_of_range_def CAM_SYNC_MAX_OBJS_def demo_pair_rows(4) alive_def zero_row_def)
  show ?thesis
    using merge_eq [OF reach_good [OF demo_pair_reach] _ _ v] unfolding f by (simp add: CAM_SYNC_MAX_OBJS_def)
qed

lemma demo_group_eq:
  "demo_group = upd_row 3 (\<lambda>r. r\<lparr>callback_list := callback_list r @ [\<lparr>callback_func = 7, cb_data = 9, cb_status = 0, cb_sync_obj = 3\<rparr>]\<rparr>)
     (demo_pair\<lparr>sync_bitmap := (sync_bitmap demo_pair)(3 := True), sync_table := merged_table 3 [1, 2] (sync_table demo_pair)\<rparr>)"
proof -
  let ?m = "fst (cam_sync_merge (Some [1, 2]) demo_pair)"
  have "sync_regular demo_pair (Req_Merge [1, 2])"
    using demo_pair_rows(1,2) by (simp add: sync_regular_simps zero_row_def)
  then have "good no_debt ?m"
    using good_merge [OF reach_good [OF demo_pair_reach], of "[1, 2]"] unfolding sync_regular_simps by simp
  from register_eq [OF goodD(1) [OF this], of 7 9 3]
  have "fst (cam_sync_register_callback (Some 7) 9 3 ?m)
      = upd_row 3 (\<lambda>r. r\<lparr>callback_list := callback_list r @ [\<lparr>callback_func = 7, cb_data = 9, cb_status = 0, cb_sync_obj = 3\<rparr>]\<rparr>) ?m"
    using demo_pair_rows(1,2)
    by (simp add: demo_merge Let_def obj_out_of_range_def CAM_SYNC_MAX_OBJS_def alive_def merged_table_def linked_table_def
        fresh_row_def active_children_def group_state_def is_signaled_def zero_row_def)
  then show ?thesis unfolding demo_merge by (simp add: demo_group_def demo_merge)
qed

lemma demo_group_reach: "sync_reach demo_group"
  unfolding demo_group_def
  by (rule reach_run [OF demo_pair_reach])
     (use demo_pair_rows(1,2) in \<open>simp add: sync_regular_simps less_Suc_eq numeral_2_eq_2 zero_row_def\<close>)

lemma demo_group_rows:
  "sync_table demo_group 1 = zero_row\<lparr>row_name := ''a'', sync_id := 1, row_state := 1, ref_cnt := 1, parents_list := [3]\<rparr>"
  "sync_table demo_group 2 = zero_row\<lparr>row_name := ''b'', sync_id := 2, row_state := 1, ref_cnt := 1, parents_list := [3]\<rparr>"
  "sync_table demo_group 3 = zero_row\<lparr>row_name := ''merged_fence'', row_type := SYNC_TYPE_GROUP, sync_id := 3, row_state := 1,
     remaining := 2, children_list := [1, 2],
     callback_list := [\<lparr>callback_func = 7, cb_data = 9, cb_status = 0, cb_sync_obj = 3\<rparr>]\<rparr>"
  "i \<notin> {1, 2, 3} \<Longrightarrow> sync_table demo_group i = zero_row"
  using demo_pair_rows(1,2,3)
  by (simp_all add: demo_group_eq merged_table_def linked_table_def fresh_row_def active_children_def group_state_def Let_def zero_row_def)

section \<open>Consistency\<close>

text \<open>
  C4: In every device that requests lead to from the opened one - creation, merge, destruction, signals, references, callbacks, payloads, their
  ioctls, fences that are associated with a DMA fence or a synx object, the callback of the DMA fence and the work queue; the monitor
  being off and memory never short - as long as no merge names a group and no fence is destroyed that a group waits for: every row lock
  is free between requests and nothing has gone wrong; a group's count of outstanding children is exactly the number of fences that still
  have it as a parent, each of them an active individual fence on the group's list of children; and the group is complete exactly when
  that count is zero.
\<close>

theorem sync_group_counts_children:
  assumes "sync_reach s"
  shows "(\<forall>i. \<not> row_spinlocks s i) \<and> sync_bad s = None
    \<and> (\<forall>p. row_state (sync_table s p) \<noteq> CAM_SYNC_STATE_INVALID \<and> row_type (sync_table s p) = SYNC_TYPE_GROUP \<longrightarrow>
         unat (remaining (sync_table s p)) = card {c. p \<in> set (parents_list (sync_table s c))}
         \<and> (signaled (sync_table s p) \<longleftrightarrow> {c. p \<in> set (parents_list (sync_table s c))} = {})
         \<and> (\<forall>c. p \<in> set (parents_list (sync_table s c)) \<longrightarrow>
              row_state (sync_table s c) = CAM_SYNC_STATE_ACTIVE \<and> row_type (sync_table s c) = SYNC_TYPE_INDV
              \<and> c \<in> set (children_list (sync_table s p))))"
proof -
  note g = reach_good [OF assms]
  note w = sync_wfD [OF goodD(2) [OF g]]
  have "unat (remaining (sync_table s p)) = card (waiting (sync_table s) p)
      \<and> (signaled (sync_table s p) \<longleftrightarrow> waiting (sync_table s) p = {})"
    if p: "alive (sync_table s p)" "row_type (sync_table s p) = SYNC_TYPE_GROUP" for p
  proof -
    note r = remaining_nat [OF w(2,3) p]
    have "signaled (sync_table s p) \<longleftrightarrow> remaining (sync_table s p) = 0"
      using w(1) [of p] p by (simp add: row_ok_def row_complete_iff)
    also have "\<dots> \<longleftrightarrow> unat (remaining (sync_table s p)) = 0" by (simp add: unat_eq_0)
    also have "\<dots> \<longleftrightarrow> waiting (sync_table s) p = {}" using waiting_bound(1) [OF w(2,3)] by (simp add: r)
    finally show ?thesis using r by simp
  qed
  then show ?thesis
    using ready_proj(1,2) [OF goodD(1) [OF g]] linkD(1,2,6) [OF w(2)]
    unfolding waiting_def [symmetric] alive_def by simp
qed

lemma sync_group_counts_children_witness:
  "unat (remaining (sync_table demo_group 3)) = card {c. 3 \<in> set (parents_list (sync_table demo_group c))}"
  using sync_group_counts_children [OF demo_group_reach, THEN conjunct2, THEN conjunct2, rule_format, of 3] demo_group_rows(3) by (simp add: zero_row_def)

text \<open>
  C22: Every row of a reachable device is well typed: its state is one of the five the interface knows,
  and it is a fence exactly when its bit is set; a fence carries its own index and lies in the index range; an individual fence is
  complete exactly when it is no longer active, and a complete fence has no callback left waiting.
\<close>

theorem sync_rows_typed:
  assumes "sync_reach s"
  shows "row_state (sync_table s i) \<in> {CAM_SYNC_STATE_INVALID, CAM_SYNC_STATE_ACTIVE, CAM_SYNC_STATE_SIGNALED_SUCCESS,
      CAM_SYNC_STATE_SIGNALED_ERROR, CAM_SYNC_STATE_SIGNALED_CANCEL}
    \<and> (i < CAM_SYNC_MAX_OBJS \<longrightarrow> (sync_bitmap s i \<longleftrightarrow> i = 0 \<or> row_state (sync_table s i) \<noteq> CAM_SYNC_STATE_INVALID))
    \<and> (row_state (sync_table s i) \<noteq> CAM_SYNC_STATE_INVALID \<longrightarrow>
         sync_id (sync_table s i) = i \<and> 0 < i \<and> i < CAM_SYNC_MAX_OBJS
         \<and> (row_type (sync_table s i) = SYNC_TYPE_INDV \<longrightarrow>
              (signaled (sync_table s i) \<longleftrightarrow> row_state (sync_table s i) \<noteq> CAM_SYNC_STATE_ACTIVE))
         \<and> (signaled (sync_table s i) \<longrightarrow> callback_list (sync_table s i) = []))"
  using sync_wfD(1) [OF goodD(2) [OF reach_good [OF assms]], of i] sync_wfD(3) [OF goodD(2) [OF reach_good [OF assms]]]
  by (auto simp: row_ok_def slots_ok_def alive_def live_state_def is_signaled_def row_complete_iff)

lemma sync_rows_typed_witness:
  "sync_bitmap demo_group 3 \<and> sync_id (sync_table demo_group 3) = 3"
  using sync_rows_typed [OF demo_group_reach, of 3] demo_group_rows(3)
  by (simp add: CAM_SYNC_MAX_OBJS_def zero_row_def)

section \<open>Signals\<close>

text \<open>
  A fence that was created for the DMA fence of row 4, descriptor 12, with a reference and a callback.
\<close>

definition demo_linked :: "(nat, nat) sync_device" where
  "demo_linked = fold sync_step [Req_Create_Linked ''c'' (Some \<lparr>dma_payload_row_idx = 4, dma_payload_fd = 12, dma_payload_created = True\<rparr>)
     None (Inr ()), Req_Get_Ref 1, Req_Register (Some 7) 9 1] (cam_sync_fresh False [])"

lemma demo_linked_row:
  "sync_table demo_linked 1 = zero_row\<lparr>row_name := ''c'', sync_id := 1, row_state := 1, ref_cnt := 1, ext_dma_fence := True,
     dma_fence_info := \<lparr>dma_fence_fd = 12, dma_fence_row_idx = 4, sync_created_with_dma = True\<rparr>,
     callback_list := [\<lparr>callback_func = 7, cb_data = 9, cb_status = 0, cb_sync_obj = 1\<rparr>]\<rparr>"
  "dma_calls demo_linked = [Dma_Get_Ref 4]" "work_queue demo_linked = []"
  by (auto simp: demo_linked_def demo_eval)

lemma demo_linked_reach: "sync_reach demo_linked"
  unfolding demo_linked_def by (rule reach_run [OF sync_reach.Start]) (simp add: sync_regular_simps less_Suc_eq numeral_eq_Suc)

text \<open>
  C13: Signaling an active individual fence with its last reference, in a device that requests lead to (as in the theorem before): the
  fence takes the state, its completion is signaled, every callback registered on it is queued once, in the order of
  registration, with the state, every user payload gets one event (while the event queue is open), the DMA fence that it is associated
  with, if any, is told the outcome, and its links to its groups are gone. Each group that had it as a
  child counts one child less; its state becomes the signaled one unless it was already an error or
  cancelled; and if it was the last child the group completes in the same way, its callbacks queued
  after those of the fence. No other fence changes, and no lock is left held.
\<close>

theorem sync_signal_delivers:
  assumes "sync_reach s" "0 < i" "i < CAM_SYNC_MAX_OBJS" "row_type (sync_table s i) = SYNC_TYPE_INDV"
    "row_state (sync_table s i) = CAM_SYNC_STATE_ACTIVE" "ref_cnt (sync_table s i) = 1" "is_signaled st"
  shows "\<exists>s'. cam_sync_signal (int i) st cause s = (s', Inr ())
    \<and> row_state (sync_table s' i) = st \<and> signaled (sync_table s' i) \<and> callback_list (sync_table s' i) = []
    \<and> parents_list (sync_table s' i) = []
    \<and> (\<forall>p \<in> set (parents_list (sync_table s i)). sync_table s' p = parent_row (cam_sync_eventq s) st (sync_table s p))
    \<and> (\<forall>j. j \<noteq> i \<and> j \<notin> set (parents_list (sync_table s i)) \<longrightarrow> sync_table s' j = sync_table s j)
    \<and> work_queue s' = work_queue s @ map (\<lambda>cb. cb\<lparr>cb_status := st\<rparr>) (callback_list (sync_table s i))
        @ concat (map (\<lambda>p. parent_work st (sync_table s p)) (parents_list (sync_table s i)))
    \<and> events s' = events s @ fire_events s i st cause (sync_table s i)
        @ concat (map (\<lambda>p. parent_events s st cause p (sync_table s p)) (parents_list (sync_table s i)))
    \<and> dma_calls s' = dma_calls s @ dma_told (sync_table s i) st
    \<and> (\<forall>j. \<not> row_spinlocks s' j)"
proof -
  note g = reach_good [OF assms(1)]
  have np: "i \<notin> set (parents_list (sync_table s i))" using linkD(7) [OF sync_wfD(2) [OF goodD(2) [OF g]]] by blast
  show ?thesis
    unfolding signal_effect [OF goodD(1,2) [OF g] assms(2-7)]
    using ready_proj(1) [OF goodD(1) [OF g]] np
    by (auto simp: signaled_device_def signal_table_def Let_def fire_work_def)
qed

lemma sync_signal_delivers_witness:
  "(\<exists>s'. cam_sync_signal 1 CAM_SYNC_STATE_SIGNALED_ERROR 6 demo_group = (s', Inr ())
     \<and> row_state (sync_table s' 1) = CAM_SYNC_STATE_SIGNALED_ERROR \<and> remaining (sync_table s' 3) = 1) \<and>
   (\<exists>s'. cam_sync_signal 1 CAM_SYNC_STATE_SIGNALED_CANCEL 6 demo_linked = (s', Inr ())
     \<and> dma_calls s' = [Dma_Get_Ref 4, Dma_Signal 4 12 ECANCELED])"
proof
  show "\<exists>s'. cam_sync_signal 1 CAM_SYNC_STATE_SIGNALED_ERROR 6 demo_group = (s', Inr ())
     \<and> row_state (sync_table s' 1) = CAM_SYNC_STATE_SIGNALED_ERROR \<and> remaining (sync_table s' 3) = 1"
    using sync_signal_delivers [OF demo_group_reach, of 1 CAM_SYNC_STATE_SIGNALED_ERROR 6] demo_group_rows(1,3)
    by (fastforce simp: zero_row_def CAM_SYNC_MAX_OBJS_def is_signaled_def)
  show "\<exists>s'. cam_sync_signal 1 CAM_SYNC_STATE_SIGNALED_CANCEL 6 demo_linked = (s', Inr ())
     \<and> dma_calls s' = [Dma_Get_Ref 4, Dma_Signal 4 12 ECANCELED]"
    using sync_signal_delivers [OF demo_linked_reach, of 1 CAM_SYNC_STATE_SIGNALED_CANCEL 6] demo_linked_row
    by (fastforce simp: zero_row_def CAM_SYNC_MAX_OBJS_def is_signaled_def dma_told_def)
qed

section \<open>Merges\<close>

definition failures :: "u32 list \<Rightarrow> u32 list" where
  "failures sts = filter (\<lambda>st. st = CAM_SYNC_STATE_SIGNALED_ERROR \<or> st = CAM_SYNC_STATE_SIGNALED_CANCEL) sts"

lemma group_state_last: "group_state init sts = (if failures sts = [] then init else last (failures sts))"
  by (induction sts rule: rev_induct) (simp_all add: group_state_def failures_def)

lemma last_failure: "failures sts \<noteq> [] \<Longrightarrow> last (failures sts) \<in> {CAM_SYNC_STATE_SIGNALED_ERROR, CAM_SYNC_STATE_SIGNALED_CANCEL}"
  using last_in_set [of "failures sts"] by (auto simp: failures_def)

lemma merged_row_state:
  assumes "idx \<notin> set cs"
  shows "row_state (merged_table idx cs t idx) =
    (let f = failures (map (\<lambda>c. row_state (t c)) cs) in
     if f \<noteq> [] then last f
     else if remaining (merged_table idx cs t idx) = 0 then CAM_SYNC_STATE_SIGNALED_SUCCESS else CAM_SYNC_STATE_ACTIVE)"
proof -
  let ?t = "t(idx := fresh_row idx ''merged_fence'' SYNC_TYPE_GROUP (t idx))"
  let ?l = "linked_table idx cs ?t idx" and ?f = "failures (map (\<lambda>c. row_state (t c)) cs)"
  have e: "map (\<lambda>c. row_state (?t c)) cs = map (\<lambda>c. row_state (t c)) cs" using assms by auto
  have l: "row_state ?l = (if ?f = [] then CAM_SYNC_STATE_ACTIVE else last ?f)"
    unfolding linked_table_def e group_state_last by (simp add: fresh_row_def)
  have m: "remaining (merged_table idx cs t idx) = remaining ?l"
    "row_state (merged_table idx cs t idx) = (if remaining ?l = 0 \<and> row_state ?l \<noteq> CAM_SYNC_STATE_SIGNALED_ERROR
        \<and> row_state ?l \<noteq> CAM_SYNC_STATE_SIGNALED_CANCEL then CAM_SYNC_STATE_SIGNALED_SUCCESS else row_state ?l)"
    unfolding merged_table_def Let_def by simp_all
  show ?thesis using last_failure [of "map (\<lambda>c. row_state (t c)) cs"] unfolding m l Let_def by auto
qed

text \<open>
  C14: Merging at least two distinct valid individual fences, in a device that requests lead to (so the monitor is off and memory is not
  short), succeeds when an index is free: the answer is the smallest free index, now a group whose children are the active ones among
  the fences, in order, and whose count is their number; each of them has the group as an additional last parent; a group none of
  whose fences is active is complete at once, successfully unless a child had failed or was cancelled
  (then with the state of the last such child); and no other row, bit or lock changes.
\<close>

theorem sync_merge_links_children:
  assumes "sync_reach s" "2 \<le> length objs" "distinct objs"
    "\<forall>obj \<in> set objs. valid_obj s obj \<and> row_type (sync_table s (nat obj)) = SYNC_TYPE_INDV"
    "\<exists>j < CAM_SYNC_MAX_OBJS. \<not> sync_bitmap s j"
  shows "\<exists>s' idx. cam_sync_merge (Some objs) s = (s', Some idx, Inr ())
    \<and> idx < CAM_SYNC_MAX_OBJS \<and> \<not> sync_bitmap s idx \<and> (\<forall>j < idx. sync_bitmap s j)
    \<and> (let cs = filter (\<lambda>c. row_state (sync_table s c) = CAM_SYNC_STATE_ACTIVE) (map nat objs);
           failed = failures (map (\<lambda>obj. row_state (sync_table s (nat obj))) objs);
           g = sync_table s' idx in
        row_type g = SYNC_TYPE_GROUP \<and> children_list g = cs \<and> unat (remaining g) = length cs \<and> parents_list g = []
        \<and> (signaled g \<longleftrightarrow> cs = [])
        \<and> row_state g = (if failed \<noteq> [] then last failed else if cs = [] then CAM_SYNC_STATE_SIGNALED_SUCCESS
                         else CAM_SYNC_STATE_ACTIVE)
        \<and> (\<forall>c \<in> set cs. sync_table s' c = (sync_table s c)\<lparr>parents_list := parents_list (sync_table s c) @ [idx]\<rparr>)
        \<and> (\<forall>j. j \<noteq> idx \<and> j \<notin> set cs \<longrightarrow> sync_table s' j = sync_table s j)
        \<and> sync_bitmap s' = (sync_bitmap s)(idx := True) \<and> row_spinlocks s' = row_spinlocks s)"
proof -
  note g = reach_good [OF assms(1)]
  let ?i = "free_index s" and ?cs = "map nat objs" and ?t = "sync_table s"
  have free: "?i < CAM_SYNC_MAX_OBJS" using assms(5) by (auto intro: ffz_exists)
  have v: "\<forall>obj \<in> set objs. valid_obj s obj" using assms(4) by simp
  note o = merge_ready_objs [OF g v assms(3) free] and m = merged_group [OF merge_ready_objs(1) [OF g v assms(3) free], of ?t]
  have below: "\<forall>j < ?i. sync_bitmap s j" by (simp add: ffz_below)
  have act: "active_children ?cs ?t = filter (\<lambda>c. row_state (?t c) = CAM_SYNC_STATE_ACTIVE) ?cs"
    by (simp only: active_children_def)
  have len: "length (active_children ?cs ?t) < 2 ^ 32"
  proof -
    have "set ?cs \<subseteq> {..<CAM_SYNC_MAX_OBJS}" using o(3) by blast
    then have "card (set ?cs) \<le> card {..<CAM_SYNC_MAX_OBJS}" by (intro card_mono) simp_all
    then have "length ?cs \<le> CAM_SYNC_MAX_OBJS" using distinct_card [OF o(2)] by simp
    moreover have "length (active_children ?cs ?t) \<le> length ?cs" by (simp add: active_children_def)
    ultimately show ?thesis by (simp add: CAM_SYNC_MAX_OBJS_def)
  qed
  have rem: "unat (remaining (merged_table ?i ?cs ?t ?i)) = length (active_children ?cs ?t)"
    using len by (simp add: m unat_of_nat)
  have zero: "remaining (merged_table ?i ?cs ?t ?i) = 0 \<longleftrightarrow> active_children ?cs ?t = []"
    using rem by (metis length_0_conv unat_eq_0)
  let ?f = "failures (map (\<lambda>obj. row_state (?t (nat obj))) objs)" and ?m = "merged_table ?i ?cs ?t"
  have st: "row_state (?m ?i) = (if ?f \<noteq> [] then last ?f else if active_children ?cs ?t = []
      then CAM_SYNC_STATE_SIGNALED_SUCCESS else CAM_SYNC_STATE_ACTIVE)"
    using merged_row_state [OF o(1), of ?t] unfolding zero Let_def by (simp add: comp_def)
  have other: "\<forall>c \<in> set (active_children ?cs ?t). ?m c = (?t c)\<lparr>parents_list := parents_list (?t c) @ [?i]\<rparr>"
    "\<forall>j. j \<noteq> ?i \<and> j \<notin> set (active_children ?cs ?t) \<longrightarrow> ?m j = ?t j"
  proof -
    have "c \<noteq> ?i" if "c \<in> set (active_children ?cs ?t)" for c
      using that o(1) unfolding active_children_def by (metis filter_is_subset subsetD)
    note ne = this
    show "\<forall>c \<in> set (active_children ?cs ?t). ?m c = (?t c)\<lparr>parents_list := parents_list (?t c) @ [?i]\<rparr>"
    proof
      fix c assume c: "c \<in> set (active_children ?cs ?t)"
      show "?m c = (?t c)\<lparr>parents_list := parents_list (?t c) @ [?i]\<rparr>"
        unfolding merged_other [OF o(1) ne [OF c]] using c by (rule if_P)
    qed
    show "\<forall>j. j \<noteq> ?i \<and> j \<notin> set (active_children ?cs ?t) \<longrightarrow> ?m j = ?t j" by (simp add: merged_other [OF o(1)])
  qed
  have sig: "signaled (?m ?i) \<longleftrightarrow> active_children ?cs ?t = []" using m(8) zero by simp
  show ?thesis
    unfolding merge_eq [OF g assms(2-4) free] Let_def act [symmetric]
    by (rule exI [of _ "s\<lparr>sync_bitmap := (sync_bitmap s)(?i := True), sync_table := ?m\<rparr>"], rule exI [of _ ?i], intro conjI)
       (use free ffz_clear [OF free] below rem m(1,3,4) sig st other in simp_all)
qed

lemma sync_merge_links_children_witness:
  "\<exists>s'. cam_sync_merge (Some [1, 2]) demo_pair = (s', Some 3, Inr ())
     \<and> children_list (sync_table s' 3) = [1, 2] \<and> unat (remaining (sync_table s' 3)) = 2"
proof -
  have v: "\<forall>obj \<in> set [1, 2]. valid_obj demo_pair obj \<and> row_type (sync_table demo_pair (nat obj)) = SYNC_TYPE_INDV"
    using demo_pair_rows(1,2)
    by (simp add: valid_obj_def obj_out_of_range_def CAM_SYNC_MAX_OBJS_def demo_pair_rows(4) alive_def zero_row_def)
  have f: "\<exists>j < CAM_SYNC_MAX_OBJS. \<not> sync_bitmap demo_pair j"
    by (rule exI [of _ 3]) (simp add: demo_pair_rows(4) CAM_SYNC_MAX_OBJS_def)
  obtain s' idx where s': "cam_sync_merge (Some [1, 2]) demo_pair = (s', Some idx, Inr ())" "\<not> sync_bitmap demo_pair idx"
      "\<forall>j < idx. sync_bitmap demo_pair j" "children_list (sync_table s' idx) = [1, 2]" "unat (remaining (sync_table s' idx)) = 2"
    using sync_merge_links_children [OF demo_pair_reach _ _ v f] demo_pair_rows(1,2) by (auto simp: Let_def zero_row_def)
  have "idx = 3" using s'(2) s'(3) [rule_format, of 3] by (force simp: demo_pair_rows(4))
  then show ?thesis using s' by simp
qed

section \<open>How a group completes\<close>






section \<open>Uses the code does not withstand\<close>

lemma group_add_bad:
  assumes "\<forall>c \<in> set cs. \<not> row_spinlocks s c" "idx \<notin> set cs" "distinct cs" "\<exists>c \<in> set cs. bad_child (sync_table s c)"
    "allocs s = []"
  shows "\<exists>s' before. group_add_children idx b cs s = (s', Some (EINVAL, before))
    \<and> row_spinlocks s' = row_spinlocks s \<and> sync_bitmap s' = sync_bitmap s \<and> monitor_mask s' = monitor_mask s
    \<and> set before \<subseteq> set b \<union> set cs"
  using assms
proof (induction cs arbitrary: b s)
  case Nil
  then show ?case by simp
next
  case (Cons c cs)
  have c: "c \<noteq> idx" "c \<notin> set cs" "\<not> row_spinlocks s c" using Cons.prems by auto
  have frame: "group_add_children idx b (c # cs) s = group_add_children idx (c # b) cs s1"
    if "\<not> bad_child (sync_table s c)"
      "s1 = (if row_state (sync_table s c) = CAM_SYNC_STATE_SIGNALED_ERROR \<or> row_state (sync_table s c) = CAM_SYNC_STATE_SIGNALED_CANCEL
             then upd_row idx (\<lambda>r. r\<lparr>row_state := row_state (sync_table s c)\<rparr>) s
             else if row_state (sync_table s c) \<noteq> CAM_SYNC_STATE_ACTIVE then s
             else upd_row c (\<lambda>r. r\<lparr>parents_list := parents_list r @ [idx]\<rparr>)
               (upd_row idx (\<lambda>r. r\<lparr>children_list := children_list r @ [c]\<rparr>)
                 (upd_row idx (\<lambda>r. r\<lparr>remaining := remaining r + 1\<rparr>) s)))" for s1
    using c Cons.prems(5) that by (simp add: bad_child_def Let_def)
  show ?case
  proof (cases "bad_child (sync_table s c)")
    case True
    then have "group_add_children idx b (c # cs) s = (s, Some (EINVAL, b))" using c by (auto simp: bad_child_def Let_def)
    then show ?thesis by auto
  next
    case False
    define s1 where "s1 = (if row_state (sync_table s c) = CAM_SYNC_STATE_SIGNALED_ERROR \<or> row_state (sync_table s c) = CAM_SYNC_STATE_SIGNALED_CANCEL
             then upd_row idx (\<lambda>r. r\<lparr>row_state := row_state (sync_table s c)\<rparr>) s
             else if row_state (sync_table s c) \<noteq> CAM_SYNC_STATE_ACTIVE then s
             else upd_row c (\<lambda>r. r\<lparr>parents_list := parents_list r @ [idx]\<rparr>)
               (upd_row idx (\<lambda>r. r\<lparr>children_list := children_list r @ [c]\<rparr>)
                 (upd_row idx (\<lambda>r. r\<lparr>remaining := remaining r + 1\<rparr>) s)))"
    have p: "row_spinlocks s1 = row_spinlocks s" "sync_bitmap s1 = sync_bitmap s" "monitor_mask s1 = monitor_mask s"
      "allocs s1 = allocs s" by (simp_all add: s1_def)
    have t: "sync_table s1 d = sync_table s d" if "d \<in> set cs" for d
      using that c Cons.prems(2) by (auto simp: s1_def)
    have bad: "\<exists>d \<in> set cs. bad_child (sync_table s1 d)" using Cons.prems(4) False t by auto
    from Cons.IH [of s1 "c # b"] show ?thesis
      unfolding frame [OF False s1_def] using Cons.prems bad by (simp add: p)
  qed
qed

lemma group_clean_proj:
  assumes "\<forall>c \<in> set cs. \<not> row_spinlocks s c"
  shows "row_spinlocks (group_clean_children idx cs s) = row_spinlocks s
    \<and> sync_bitmap (group_clean_children idx cs s) = sync_bitmap s
    \<and> monitor_mask (group_clean_children idx cs s) = monitor_mask s"
  using assms by (induction cs arbitrary: s) (simp_all add: cam_sync_util_cleanup_parents_list_def)

text \<open>
  C26: A merge that names a group among otherwise valid fences fails with \<open>-EINVAL\<close>, and returns with
  the lock of the index it had taken still held, although the index is free again in the bitmap: the
  next creation takes the same index and spins on its lock.
\<close>

theorem sync_failed_merge_keeps_lock:
  assumes "sync_reach s" "2 \<le> length objs" "distinct objs" "\<forall>obj \<in> set objs. valid_obj s obj"
    "\<exists>obj \<in> set objs. row_type (sync_table s (nat obj)) = SYNC_TYPE_GROUP"
    "\<exists>j < CAM_SYNC_MAX_OBJS. \<not> sync_bitmap s j"
  shows "\<exists>s' idx. cam_sync_merge (Some objs) s = (s', None, Inl EINVAL)
    \<and> \<not> sync_bitmap s' idx \<and> row_spinlocks s' idx
    \<and> sync_bad (fst (cam_sync_create name s')) = Some Lock_Held"
proof -
  note g = reach_good [OF assms(1)]
  let ?i = "free_index s" and ?cs = "map nat objs"
  have free: "?i < CAM_SYNC_MAX_OBJS" using assms(6) by (auto intro: ffz_exists)
  note o = merge_ready_objs [OF g assms(4,3) free] and st = group_start_proj [OF goodD(1) [OF g], of ?i]
  note f = free_index_dead [OF g free]
  let ?s = "group_start ?i s"
  have start: "fst (cam_sync_init_row ?i ''merged_fence'' SYNC_TYPE_GROUP
        (row_lock ?i (s\<lparr>sync_bitmap := (sync_bitmap s)(?i := True)\<rparr>))) = ?s"
    using f(1) free ready_proj [OF goodD(1) [OF g]] by (simp add: init_row_eq group_start_def)
  have unlocked: "\<forall>c \<in> set ?cs. \<not> row_spinlocks ?s c"
    using o(1) unfolding st(2) by (metis fun_upd_other)
  have bad: "\<exists>c \<in> set ?cs. bad_child (sync_table ?s c)"
  proof -
    obtain obj where obj: "obj \<in> set objs" "row_type (sync_table s (nat obj)) = SYNC_TYPE_GROUP" using assms(5) by blast
    then have "nat obj \<in> set ?cs" by simp
    then have "nat obj \<noteq> ?i" using o(1) by metis
    then have "bad_child (sync_table ?s (nat obj))" using obj(2) by (simp add: bad_child_def st(1))
    then show ?thesis using obj(1) by auto
  qed
  obtain s1 before where add: "group_add_children ?i [] ?cs ?s = (s1, Some (EINVAL, before))"
      "row_spinlocks s1 = row_spinlocks ?s" "sync_bitmap s1 = sync_bitmap ?s" "monitor_mask s1 = monitor_mask ?s"
      "set before \<subseteq> set ?cs"
    using group_add_bad [OF unlocked o(1,2) bad st(4), of "[]"] by auto
  define s2 where "s2 = cam_sync_util_cleanup_children_list ?i SYNC_LIST_CLEAN_ALL 0
    (group_clean_children ?i before (upd_row ?i (\<lambda>r. r\<lparr>row_state := CAM_SYNC_STATE_INVALID\<rparr>) s1))"
  have p2: "row_spinlocks s2 = (\<lambda>_. False)(?i := True)" "sync_bitmap s2 = (sync_bitmap s)(?i := True)" "\<not> monitor_mask s2"
    using group_clean_proj [of before "upd_row ?i (\<lambda>r. r\<lparr>row_state := CAM_SYNC_STATE_INVALID\<rparr>) s1" ?i] unlocked add(5)
    by (auto simp: s2_def cam_sync_util_cleanup_children_list_def add(2-4) st subset_iff)
  define s' where "s' = s2\<lparr>sync_bitmap := (sync_bitmap s2)(?i := False)\<rparr>"
  have "cam_sync_init_group_object ?i ?cs (row_lock ?i (s\<lparr>sync_bitmap := (sync_bitmap s)(?i := True)\<rparr>)) = (s2, Inl EINVAL)"
    unfolding cam_sync_init_group_object_def start Let_def add(1) by (simp add: s2_def)
  then have m: "cam_sync_merge (Some objs) s = (s', None, Inl EINVAL)"
    unfolding merge_start [OF g assms(2-4) free] by (simp add: s'_def)
  have bm: "sync_bitmap s' = sync_bitmap s" using ffz_clear [OF free] by (simp add: s'_def p2(2) fun_upd_idem)
  have lock: "row_spinlocks s' ?i" "\<not> monitor_mask s'" by (simp_all add: s'_def p2)
  have "sync_bad (fst (cam_sync_create name s')) = Some Lock_Held"
    using free f(1) lock by (simp add: cam_sync_create_def cam_sync_create_util_def cam_sync_init_row_def Let_def bm row_lock_held)
  then show ?thesis using m bm lock(1) ffz_clear [OF free] by auto
qed

lemma sync_failed_merge_keeps_lock_witness:
  "\<exists>s' idx. cam_sync_merge (Some [1, 3]) demo_group = (s', None, Inl EINVAL)
    \<and> \<not> sync_bitmap s' idx \<and> row_spinlocks s' idx
    \<and> sync_bad (fst (cam_sync_create ''next'' s')) = Some Lock_Held"
proof -
  have bits: "i < CAM_SYNC_MAX_OBJS \<Longrightarrow> sync_bitmap demo_group i \<longleftrightarrow> i = 0 \<or> row_state (sync_table demo_group i) \<noteq> 0" for i
    using sync_wfD(3) [OF goodD(2) [OF reach_good [OF demo_group_reach]]] by (simp add: slots_ok_def alive_def)
  have v: "\<forall>obj \<in> set [1, 3]. valid_obj demo_group obj"
    using demo_group_rows(1,3) bits [of 1] bits [of 3]
    by (simp add: valid_obj_def obj_out_of_range_def CAM_SYNC_MAX_OBJS_def alive_def zero_row_def)
  have t: "\<exists>obj \<in> set [1, 3]. row_type (sync_table demo_group (nat obj)) = SYNC_TYPE_GROUP"
    using demo_group_rows(3) by simp
  have f: "\<exists>j < CAM_SYNC_MAX_OBJS. \<not> sync_bitmap demo_group j"
    using demo_group_rows(4) [of 4] bits [of 4] by (intro exI [of _ 4]) (simp add: CAM_SYNC_MAX_OBJS_def zero_row_def)
  show ?thesis by (rule sync_failed_merge_keeps_lock [OF demo_group_reach _ _ v t f]) simp_all
qed

lemma close_signal_good: "good no_debt s \<Longrightarrow> good no_debt (close_signal j s)"
  by (simp add: close_signal_def good_signal)

lemma close_signal_other:
  assumes "good no_debt s" "j \<noteq> i" "row_type (sync_table s i) = SYNC_TYPE_INDV"
  shows "sync_table (close_signal j s) i = sync_table s i"
proof -
  have "i \<notin> set (parents_list (sync_table s j))"
    using linkD(5) [OF sync_wfD(2) [OF goodD(2) [OF assms(1)]], of i j] assms(3) by auto
  then show ?thesis
    using assms(2) by (auto simp: close_signal_def signal_cases [OF assms(1)] signaled_device_proj signal_table_def split: sum.split)
qed

lemma close_signal_others:
  assumes "good no_debt s" "i \<notin> set js" "row_type (sync_table s i) = SYNC_TYPE_INDV"
  shows "good no_debt (fold close_signal js s) \<and> sync_table (fold close_signal js s) i = sync_table s i"
  using assms
proof (induction js arbitrary: s)
  case (Cons j js)
  have "sync_table (close_signal j s) i = sync_table s i" using close_signal_other [of s j i] Cons.prems by auto
  then show ?case using Cons.IH [OF close_signal_good [OF Cons.prems(1)]] Cons.prems by simp
qed simp

text \<open>
  The first loop of the last close of the device, which is to signal every active fence as an
  error, passes over an active individual fence that nobody holds a reference of: its reference count
  wraps to the largest value, it stays active, its completion is not signaled and its callbacks stay
  in its list, to be dropped when it is destroyed.
\<close>

theorem sync_close_skips_unreferenced:
  assumes "sync_reach s" "0 < i" "i < CAM_SYNC_MAX_OBJS" "row_type (sync_table s i) = SYNC_TYPE_INDV"
    "row_state (sync_table s i) = CAM_SYNC_STATE_ACTIVE" "ref_cnt (sync_table s i) = 0"
  shows "sync_table (fold close_signal [1..<CAM_SYNC_MAX_OBJS] s) i = (sync_table s i)\<lparr>ref_cnt := 2 ^ 32 - 1\<rparr>
    \<and> row_state (sync_table (fold close_signal [1..<CAM_SYNC_MAX_OBJS] s) i) = CAM_SYNC_STATE_ACTIVE
    \<and> \<not> signaled (sync_table (fold close_signal [1..<CAM_SYNC_MAX_OBJS] s) i)"
proof -
  have split: "[1..<CAM_SYNC_MAX_OBJS] = [1..<i] @ i # [Suc i..<CAM_SYNC_MAX_OBJS]"
    using assms(2,3) upt_add_eq_append [of 1 i "CAM_SYNC_MAX_OBJS - i"] by (simp add: upt_conv_Cons)
  let ?a = "fold close_signal [Suc 0..<i] s"
  have a: "good no_debt ?a" "sync_table ?a i = sync_table s i"
    using close_signal_others [OF reach_good [OF assms(1)] _ assms(4), of "[Suc 0..<i]"] by simp_all
  have "cam_sync_signal_validate_util CAM_SYNC_STATE_SIGNALED_ERROR (sync_table ?a i) = Inr ()"
    using assms(4,5) a(2) by (simp add: cam_sync_signal_validate_util_def)
  then have b: "close_signal i ?a = upd_row i (\<lambda>r. r\<lparr>ref_cnt := ref_cnt r - 1\<rparr>) ?a"
    using assms(2,3,5,6) a by (simp add: close_signal_def signal_cases [OF a(1)] obj_out_of_range_def)
  then have "sync_table (close_signal i ?a) i = (sync_table s i)\<lparr>ref_cnt := 2 ^ 32 - 1\<rparr>"
    using a(2) assms(6) by simp
  moreover have "sync_table (fold close_signal [Suc i..<CAM_SYNC_MAX_OBJS] (close_signal i ?a)) i = sync_table (close_signal i ?a) i"
    using close_signal_others [OF close_signal_good [OF a(1)], of i "[Suc i..<CAM_SYNC_MAX_OBJS]" i] assms(4) a(2) b by simp
  moreover have "\<not> signaled (sync_table s i)"
    using sync_wfD(1) [OF goodD(2) [OF reach_good [OF assms(1)]], of i] assms(4,5)
    by (auto simp: row_ok_def alive_def)
  ultimately show ?thesis unfolding split using assms(5) by simp
qed

definition demo_idle :: "(nat, nat) sync_device" where
  "demo_idle = sync_step (Req_Create ''a'') (cam_sync_fresh False [])"

lemma sync_close_skips_unreferenced_witness:
  "row_state (sync_table (fold close_signal [1..<CAM_SYNC_MAX_OBJS] demo_idle) 1) = CAM_SYNC_STATE_ACTIVE"
proof -
  have "sync_reach demo_idle"
    unfolding demo_idle_def by (rule sync_reach.Request [OF sync_reach.Start]) (simp add: sync_regular_simps)
  moreover have "sync_table demo_idle 1 = zero_row\<lparr>row_name := ''a'', sync_id := 1, row_state := 1\<rparr>"
    by (simp add: demo_idle_def demo_eval)
  ultimately show ?thesis
    using sync_close_skips_unreferenced [of demo_idle 1] by (simp add: zero_row_def CAM_SYNC_MAX_OBJS_def)
qed






section \<open>Early events\<close>

text \<open>
  Registering a payload on a group of which some child has signaled sends the event at once, with the
  state the group has so far, while a callback registered at the same time waits for the group.
\<close>

lemma early_group_event:
  assumes "sync_reach s" "row_type (sync_table s p) = SYNC_TYPE_GROUP" "is_signaled (row_state (sync_table s p))"
    "\<not> signaled (sync_table s p)" "user_arg k = Inr (int p, payload)"
  shows "\<exists>s1 s2. cam_sync_handle_register_user_payload k s = (s1, Inr ())
    \<and> length (events s1) = length (events s) + 1
    \<and> cam_sync_register_callback (Some f) d (int p) s = (s2, Inr ())
    \<and> work_queue s2 = work_queue s \<and> called s2 = called s"
proof -
  note g = reach_good [OF assms(1)] and w = sync_wfD [OF goodD(2) [OF reach_good [OF assms(1)]]]
  have al: "alive (sync_table s p)" using assms(3) by (auto simp: alive_def is_signaled_def)
  have "\<not> obj_out_of_range (int p)" using w(3) al by (auto simp: slots_ok_def in_range)
  moreover have "remaining (sync_table s p) \<noteq> 0" using w(1) [of p] al assms(2,4) by (auto simp: row_ok_def row_complete_iff)
  ultimately show ?thesis
    using al assms(3)
    by (simp add: register_payload_eq [OF goodD(1) [OF g]] register_eq [OF goodD(1) [OF g]] assms(5) Let_def
        cam_sync_util_send_v4l2_event_def upd_row_def)
qed

section \<open>The monitor\<close>

lemma monitor_record_proj:
  assumes "op \<noteq> CAM_FENCE_OP_CREATE"
  shows "monitor_head (monitor_record t op d) = monitor_head d + 1"
    "swap_monitor_entries (monitor_record t op d) = swap_monitor_entries d"
    "cam_sync_get_monitor_entries (monitor_record t op d) = cam_sync_get_monitor_entries d"
    "cam_sync_get_prev_monitor_entries (monitor_record t op d)
      = (cam_sync_get_prev_monitor_entries d)[unat (monitor_head d + 1) mod CAM_SYNC_MONITOR_MAX_ENTRIES :=
           \<lparr>mon_timestamp = t, mon_op = op\<rparr>]"
  using assms by (simp_all add: monitor_record_def Let_def cam_sync_get_monitor_entries_def cam_sync_get_prev_monitor_entries_def)

definition entry_of :: "u64 \<times> cam_fence_op \<Rightarrow> cam_generic_fence_monitor_entry" where
  "entry_of e = \<lparr>mon_timestamp = fst e, mon_op = snd e\<rparr>"

lemma monitor_records_proj:
  assumes "\<forall>e \<in> set es. snd e \<noteq> CAM_FENCE_OP_CREATE" "monitor_head d = of_nat k" "k + length es < CAM_SYNC_MONITOR_MAX_ENTRIES"
    "length (cam_sync_get_prev_monitor_entries d) = CAM_SYNC_MONITOR_MAX_ENTRIES"
  shows "monitor_head (monitor_records es d) = of_nat (k + length es)
    \<and> prev_monitor_head (monitor_records es d) = prev_monitor_head d
    \<and> cam_sync_get_monitor_entries (monitor_records es d) = cam_sync_get_monitor_entries d
    \<and> take (k + length es + 1) (cam_sync_get_prev_monitor_entries (monitor_records es d))
        = take (k + 1) (cam_sync_get_prev_monitor_entries d) @ map entry_of es"
  using assms
proof (induction es arbitrary: d k)
  case Nil
  then show ?case by simp
next
  case (Cons e es)
  obtain t op where e: "e = (t, op)" by (cases e)
  let ?d = "monitor_record t op d" and ?w = "cam_sync_get_prev_monitor_entries d"
  have op: "op \<noteq> CAM_FENCE_OP_CREATE" using Cons.prems(1) e by simp
  note p = monitor_record_proj [OF op, of t d]
  have k: "Suc k < 30" "Suc k < CAM_SYNC_MONITOR_MAX_ENTRIES" using Cons.prems(3) by (simp_all add: CAM_SYNC_MONITOR_MAX_ENTRIES_def)
  have h: "monitor_head d + 1 = of_nat (Suc k)" using Cons.prems(2) by simp
  have u: "unat (of_nat (Suc k) :: u64) = Suc k" using k by (simp only: unat_of_nat) simp
  have w: "cam_sync_get_prev_monitor_entries ?d = ?w[Suc k := entry_of e]" "monitor_head ?d = of_nat (Suc k)"
    unfolding p(1,4) h u mod_less [OF k(2)] by (simp_all only: entry_of_def e fst_conv snd_conv)
  have "prev_monitor_head ?d = prev_monitor_head d" by (simp add: monitor_record_def Let_def)
  moreover have "take (Suc k + 1) (?w[Suc k := entry_of e]) = take (k + 1) ?w @ [entry_of e]"
    using k Cons.prems(4) by (simp add: take_Suc_conv_app_nth [of "Suc k"] take_update_cancel)
  ultimately show ?case
    using Cons.IH [of ?d "Suc k"] Cons.prems k w by (simp add: e p(3))
qed

lemma dump_entries_take:
  "idx + n \<le> CAM_SYNC_MONITOR_MAX_ENTRIES \<Longrightarrow> length es = CAM_SYNC_MONITOR_MAX_ENTRIES
    \<Longrightarrow> cam_generic_fence_dump_monitor_entries es idx n = take n (drop idx es)"
proof (induction n arbitrary: idx)
  case (Suc n)
  show ?case
  proof (cases n)
    case 0
    then show ?thesis using Suc.prems by (simp add: take_Suc_conv_app_nth hd_drop_conv_nth Cons_nth_drop_Suc [symmetric])
  next
    case (Suc m)
    then have "(idx + 1) mod CAM_SYNC_MONITOR_MAX_ENTRIES = idx + 1" using Suc.prems by simp
    then show ?thesis using Suc.prems Suc.IH [of "idx + 1"] by (simp add: Cons_nth_drop_Suc [symmetric])
  qed
qed simp

text \<open>
  The dump of a fence's own operations shows the wrong array: after a creation and further
  operations (fewer than the 30 the ring holds) the dump prints as many entries as were recorded,
  but from the array the operations were not written to, which still has what it had before the
  creation; the recorded operations stand, in order, in the array that is printed as the previous
  fence's.
\<close>

theorem sync_monitor_dump_shows_old_entries:
  assumes "\<forall>e \<in> set es. snd e \<noteq> CAM_FENCE_OP_CREATE" "length es < CAM_SYNC_MONITOR_MAX_ENTRIES"
    "length (monitor_entries d) = CAM_SYNC_MONITOR_MAX_ENTRIES" "length (prev_monitor_entries d) = CAM_SYNC_MONITOR_MAX_ENTRIES"
  shows "fst (cam_generic_fence_dump_monitor_array (monitor_records ((t, CAM_FENCE_OP_CREATE) # es) d))
      = take (length es + 1) (cam_sync_get_monitor_entries d)
    \<and> take (length es + 1) (cam_sync_get_prev_monitor_entries (monitor_records ((t, CAM_FENCE_OP_CREATE) # es) d))
      = map (\<lambda>(now, op). \<lparr>mon_timestamp = now, mon_op = op\<rparr>) ((t, CAM_FENCE_OP_CREATE) # es)"
proof -
  let ?d = "monitor_record t CAM_FENCE_OP_CREATE d" and ?w = "cam_sync_get_prev_monitor_entries d"
  have w: "length ?w = CAM_SYNC_MONITOR_MAX_ENTRIES" "length (cam_sync_get_monitor_entries d) = CAM_SYNC_MONITOR_MAX_ENTRIES"
    using assms(3,4) by (simp_all add: cam_sync_get_prev_monitor_entries_def cam_sync_get_monitor_entries_def)
  have c: "monitor_head ?d = of_nat 0" "cam_sync_get_monitor_entries ?d = cam_sync_get_monitor_entries d"
    "cam_sync_get_prev_monitor_entries ?d = ?w[0 := entry_of (t, CAM_FENCE_OP_CREATE)]"
    by (simp_all add: monitor_record_def Let_def cam_sync_get_monitor_entries_def cam_sync_get_prev_monitor_entries_def entry_of_def)
  have k: "0 + length es < CAM_SYNC_MONITOR_MAX_ENTRIES" using assms(2) by simp
  have lw: "length (cam_sync_get_prev_monitor_entries ?d) = CAM_SYNC_MONITOR_MAX_ENTRIES" using w(1) by (simp add: c(3))
  note r = monitor_records_proj [OF assms(1) c(1) k lw]
  have first: "take 1 (?w[0 := x]) = [x]" for x using w(1) by (cases ?w) (simp_all add: CAM_SYNC_MONITOR_MAX_ENTRIES_def)
  have n: "length es < 30" using assms(2) by (simp add: CAM_SYNC_MONITOR_MAX_ENTRIES_def)
  then have u: "unat (of_nat (length es) :: u64) = length es" "unat (of_nat (Suc (length es)) :: u64) = Suc (length es)"
    by (simp_all only: unat_of_nat) simp_all
  have "of_nat (Suc (length es)) \<noteq> (0 :: u64)" using u(2) by (metis nat.distinct(1) unat_0)
  then have ne: "of_nat (length es) \<noteq> (- 1 :: u64)" by (auto simp: add_eq_0_iff2)
  have "(of_nat (length es) :: u64) < of_nat CAM_SYNC_MONITOR_MAX_ENTRIES"
    using n u(1) by (simp add: word_less_nat_alt CAM_SYNC_MONITOR_MAX_ENTRIES_def)
  then have info: "cam_generic_fence_get_monitor_entries_info (of_nat (length es)) = Inr (0, Suc (length es))"
    using ne u(2) by (simp add: cam_generic_fence_get_monitor_entries_info_def add.commute)
  have dump: "cam_generic_fence_dump_monitor_entries (cam_sync_get_monitor_entries d) 0 (Suc (length es))
      = take (Suc (length es)) (cam_sync_get_monitor_entries d)"
    using dump_entries_take [OF _ w(2), of 0 "Suc (length es)"] assms(2) by (simp del: cam_generic_fence_dump_monitor_entries.simps)
  have e: "map (\<lambda>(now, op). \<lparr>mon_timestamp = now, mon_op = op\<rparr>) es' = map entry_of es'" for es'
    by (simp add: entry_of_def case_prod_beta')
  show ?thesis
    using r first unfolding e
    by (simp add: cam_generic_fence_dump_monitor_array_def info dump c del: cam_generic_fence_dump_monitor_entries.simps
        split: sum.split prod.split)
qed

lemma sync_monitor_dump_shows_old_entries_witness:
  "fst (cam_generic_fence_dump_monitor_array (monitor_records [(5, CAM_FENCE_OP_CREATE), (6, CAM_FENCE_OP_SIGNAL)] zero_monitor_data))
     = [zero_monitor_entry, zero_monitor_entry]"
  using sync_monitor_dump_shows_old_entries [of "[(6, CAM_FENCE_OP_SIGNAL)]" zero_monitor_data 5]
  by (simp add: zero_monitor_data_def cam_sync_get_monitor_entries_def CAM_SYNC_MONITOR_MAX_ENTRIES_def numeral_eq_Suc)

section \<open>The index bitmap as slots\<close>

text \<open>Slot \<open>k\<close> is index \<open>k + 1\<close>; a table in which no fence has a parent keeps that under creation and destruction.\<close>

definition sync_take :: "string \<Rightarrow> ('f, 'd) sync_device \<Rightarrow> (nat \<times> ('f, 'd) sync_device) option" where
  "sync_take name s = (case cam_sync_create name s of (s', Some idx, Inr _) \<Rightarrow> Some (idx - 1, s') | _ \<Rightarrow> None)"

definition sync_give :: "nat \<Rightarrow> ('f, 'd) sync_device \<Rightarrow> ('f, 'd) sync_device" where
  "sync_give k s = fst (cam_sync_destroy (int (Suc k)) s)"

definition unlinked :: "('f, 'd) sync_device \<Rightarrow> bool" where
  "unlinked s \<longleftrightarrow> good no_debt s \<and> (\<forall>i. parents_list (sync_table s i) = [])"

lemma bitmap_alive: "good no_debt s \<Longrightarrow> 0 < i \<Longrightarrow> i < CAM_SYNC_MAX_OBJS \<Longrightarrow> sync_bitmap s i \<longleftrightarrow> alive (sync_table s i)"
  using sync_wfD(3) [OF goodD(2) [of no_debt s]] by (simp add: slots_ok_def)

lemma sync_take_eq:
  assumes "good no_debt s"
  shows "sync_take name s =
    (if free_index s < CAM_SYNC_MAX_OBJS
     then Some (free_index s - 1, taken_device (free_index s) (fresh_row (free_index s) name SYNC_TYPE_INDV (sync_table s (free_index s))) s)
     else None)"
  by (simp add: sync_take_def create_eq [OF goodD(1) [OF assms]] Let_def)

lemma sync_give_eq:
  assumes "good no_debt s" "k < CAM_SYNC_MAX_OBJS - 1"
  shows "sync_give k s = (if alive (sync_table s (Suc k)) then destroyed_device (Suc k) s else s)"
proof -
  have n: "nat (int (Suc k)) = Suc k" by simp
  have r: "\<not> obj_out_of_range (int (Suc k))" using assms(2) by (simp add: in_range)
  show ?thesis
    using destroy_eq [OF assms(1) r] destroy_dead [OF assms(1), of "int (Suc k)"] unfolding sync_give_def n by simp
qed

interpretation sync_slots: slot_table unlinked "\<lambda>s k. sync_bitmap s (Suc k)" "CAM_SYNC_MAX_OBJS - 1" "sync_take name" sync_give
proof (unfold_locales, goal_cases)
  case (1 s k s')
  then have g: "good no_debt s" and pl: "\<And>i. parents_list (sync_table s i) = []" by (simp_all add: unlinked_def)
  have f: "free_index s < CAM_SYNC_MAX_OBJS" using 1(2) by (simp add: sync_take_eq [OF g] split: if_splits)
  note d = free_index_dead [OF g f]
  let ?r = "fresh_row (free_index s) name SYNC_TYPE_INDV (sync_table s (free_index s))"
  have e: "k = free_index s - 1" "s' = taken_device (free_index s) ?r s" using 1(2) f by (simp_all add: sync_take_eq [OF g])
  have "good no_debt s'" using good_create [OF g, of name] f by (simp add: create_eq [OF goodD(1) [OF g]] Let_def e(2))
  moreover have "parents_list (sync_table s' i) = []" for i using pl by (simp add: e(2) taken_device_def fresh_row_def)
  moreover have "sync_bitmap s' (Suc j) \<longleftrightarrow> j = k \<or> sync_bitmap s (Suc j)" for j using d(1) by (auto simp: e taken_device_def)
  moreover have "k < CAM_SYNC_MAX_OBJS - 1" "\<not> sync_bitmap s (Suc k)" using d(1) f ffz_clear [OF f] by (simp_all add: e(1))
  ultimately show ?case by (simp add: unlinked_def)
next
  case (2 s)
  then have g: "good no_debt s" by (simp add: unlinked_def)
  have "sync_take name s = None \<longleftrightarrow> free_index s = CAM_SYNC_MAX_OBJS"
    using ffz_le [of "sync_bitmap s" CAM_SYNC_MAX_OBJS] unfolding sync_take_eq [OF g]
    by (cases "free_index s < CAM_SYNC_MAX_OBJS") (auto simp: not_less intro: le_antisym)
  also have "\<dots> \<longleftrightarrow> (\<forall>j < CAM_SYNC_MAX_OBJS. sync_bitmap s j)" by (rule ffz_full_iff)
  also have "\<dots> \<longleftrightarrow> (\<forall>k < CAM_SYNC_MAX_OBJS - 1. sync_bitmap s (Suc k))"
  proof
    assume a: "\<forall>k < CAM_SYNC_MAX_OBJS - 1. sync_bitmap s (Suc k)"
    show "\<forall>j < CAM_SYNC_MAX_OBJS. sync_bitmap s j"
    proof (intro allI impI)
      fix j assume "j < CAM_SYNC_MAX_OBJS"
      then show "sync_bitmap s j" using a ready_proj(5) [OF goodD(1) [OF g]] by (cases j) auto
    qed
  qed simp
  finally show ?case .
next
  case (3 s k)
  then have g: "good no_debt s" and pl: "\<And>i. parents_list (sync_table s i) = []" by (simp_all add: unlinked_def)
  have pl': "parents_list (destroyed_table (Suc k) (sync_table s) i) = []" for i
    using pl by (simp add: destroyed_table_def cam_sync_deinit_row_def)
  have "Suc k < CAM_SYNC_MAX_OBJS" using 3(2) by linarith
  then show ?case
    using g pl good_destroyed [OF g, of "Suc k"] bitmap_alive [OF g, of "Suc k"] 3(2) pl'
    by (auto simp: sync_give_eq [OF g 3(2)] unlinked_def destroyed_device_def)
qed

text \<open>
  C21: The indices of the table are slots: in any sequence of creations and destructions of fences, a
  creation answers an index that no living fence has, and fails only when all 2047 are taken.
\<close>

theorem sync_indices_exclusive:
  assumes "\<forall>k. Give k \<in> set ops \<longrightarrow> k < CAM_SYNC_MAX_OBJS - 1"
  shows "slots_right (CAM_SYNC_MAX_OBJS - 1) {}
    ops (snd (slot_run (sync_take name) sync_give (cam_sync_fresh False [] :: ('f, 'd) sync_device) ops))"
proof -
  let ?s = "cam_sync_fresh False [] :: ('f, 'd) sync_device"
  have u: "unlinked ?s" unfolding unlinked_def using good_fresh by (simp add: cam_sync_fresh_def zero_row_def)
  have h: "sync_slots.held ?s = {}" unfolding sync_slots.held_def by (auto simp: cam_sync_fresh_def)
  obtain s' rs where r: "slot_run (sync_take name) sync_give ?s ops = (s', rs)" by (cases "slot_run (sync_take name) sync_give ?s ops")
  show ?thesis using sync_slots.run_right [OF u assms r] r h by simp
qed

lemma sync_indices_exclusive_witness:
  "slots_right (CAM_SYNC_MAX_OBJS - 1) {} [Take, Take, Give 0, Take]
    (snd (slot_run (sync_take ''a'') sync_give (cam_sync_fresh False [] :: (nat, nat) sync_device) [Take, Take, Give 0, Take]))"
  by (rule sync_indices_exclusive) (simp add: CAM_SYNC_MAX_OBJS_def)

end
