(* ===== verification/Cam_Dma_Fence.thy ===== *)
theory Cam_Dma_Fence
  imports Cam_Sync
begin

text \<open>
  The table of DMA fences of the camera driver, after \<open>cam_sync_dma_fence.c\<close>: fences that the driver creates for user
  space, and fences of other drivers that are looked up by their file descriptor. A fence of the table can have one sync object that
  is signaled with it.

  The fences themselves are objects of the kernel. What the driver asks of them is recorded in \<open>fence_calls\<close>, in the order it
  happens, and what they answer is a function of the calls before, a field of \<open>fence_env\<close>. Signaling
  a fence runs the callbacks that are registered with it; the environment says of which rows. Calls of the
  sync object code are recorded in \<open>sync_cb_calls\<close>. Locks, memory and the monitor are as in \<open>Cam_Sync\<close>.
\<close>

section \<open>Data\<close>

definition CAM_DMA_FENCE_MAX_FENCES :: nat where "CAM_DMA_FENCE_MAX_FENCES = 128"
definition CAM_DMA_FENCE_NAME_LEN :: nat where "CAM_DMA_FENCE_NAME_LEN = 128"

datatype cam_dma_fence_state =
  CAM_DMA_FENCE_STATE_INVALID | CAM_DMA_FENCE_STATE_ACTIVE | CAM_DMA_FENCE_STATE_SIGNALED

text \<open>
  \<open>fence_cb_func\<close> says that the function of the row's callback structure is set; the list node of the structure is
  the environment's. A fence is known by a number, NULL is \<open>None\<close>.
\<close>

record 'f cam_dma_fence_row =
  df_name :: string
  df_fence :: "nat option"
  df_fd :: int
  df_state :: cam_dma_fence_state
  fence_cb_func :: bool
  df_sync_obj :: int
  df_sync_cb :: "'f option"
  cb_registered_for_sync :: bool
  df_ext :: bool
  sync_signal_dma :: bool

definition zero_dma_row :: "'f cam_dma_fence_row" where
  "zero_dma_row = \<lparr>df_name = '''', df_fence = None, df_fd = 0, df_state = CAM_DMA_FENCE_STATE_INVALID, fence_cb_func = False,
     df_sync_obj = 0, df_sync_cb = None, cb_registered_for_sync = False, df_ext = False, sync_signal_dma = False\<rparr>"

text \<open>What is done to fences and files: creation with a sequence number, references, callbacks (of a row), errors and signals.\<close>

datatype fence_call =
  Fence_Init nat u64 | Fence_Get nat | Fence_Put nat | Fence_Add_Callback nat nat | Fence_Remove_Callback nat nat
| Fence_Set_Error nat errno | Fence_Signal nat | Get_Unused_Fd int | Put_Unused_Fd int | Sync_File_Create nat | Fd_Install int nat

text \<open>
  Answers: the fence that a descriptor's file holds, whether a fence has signaled, its status, the rows whose
  callbacks are registered with it, and the outcomes of the calls that can fail.
\<close>

record fence_env =
  sync_file_get_fence :: "fence_call list \<Rightarrow> int \<Rightarrow> nat option"
  fence_driver_name :: "nat \<Rightarrow> string"
  dma_fence_is_signaled :: "fence_call list \<Rightarrow> nat \<Rightarrow> bool"
  dma_fence_status :: "fence_call list \<Rightarrow> nat \<Rightarrow> errno + unit"
  fence_callbacks :: "fence_call list \<Rightarrow> nat \<Rightarrow> nat list"
  dma_fence_signal_rc :: "fence_call list \<Rightarrow> nat \<Rightarrow> errno + unit"
  dma_fence_add_rc :: "fence_call list \<Rightarrow> nat \<Rightarrow> errno + unit"
  dma_fence_removed :: "fence_call list \<Rightarrow> nat \<Rightarrow> nat \<Rightarrow> bool"
  new_fence :: "fence_call list \<Rightarrow> nat"
  unused_fd :: "fence_call list \<Rightarrow> int"
  sync_file_ok :: "fence_call list \<Rightarrow> bool"

record 'f dma_device =
  dma_rows :: "nat \<Rightarrow> 'f cam_dma_fence_row"
  dma_locks :: "nat \<Rightarrow> bool"
  dma_bitmap :: "nat \<Rightarrow> bool"
  dma_mon :: "monitor_table option"
  dma_mask :: bool
  dma_mask_dump :: bool
  dma_allocs :: "bool list"
  dma_now :: u64
  dma_seq_no :: u64
  fence_calls :: "fence_call list"
  sync_cb_calls :: "('f \<times> int \<times> int \<times> (errno + unit)) list"
  dma_bad :: "sync_bad option"

section \<open>Rows, locks, memory, monitor\<close>

definition upd_dma_row :: "nat \<Rightarrow> ('f cam_dma_fence_row \<Rightarrow> 'f cam_dma_fence_row) \<Rightarrow> 'f dma_device \<Rightarrow> 'f dma_device" where
  "upd_dma_row i f s = s\<lparr>dma_rows := (dma_rows s)(i := f (dma_rows s i))\<rparr>"

definition dma_lock :: "nat \<Rightarrow> 'f dma_device \<Rightarrow> 'f dma_device" where
  "dma_lock i s = (if dma_locks s i then s\<lparr>dma_bad := Some Lock_Held\<rparr> else s\<lparr>dma_locks := (dma_locks s)(i := True)\<rparr>)"

definition dma_unlock :: "nat \<Rightarrow> 'f dma_device \<Rightarrow> 'f dma_device" where
  "dma_unlock i s = s\<lparr>dma_locks := (dma_locks s)(i := False)\<rparr>"

definition null_pointer :: "'f dma_device \<Rightarrow> 'f dma_device" where
  "null_pointer s = s\<lparr>dma_bad := Some Null_Pointer\<rparr>"

definition next_dma_alloc :: "'f dma_device \<Rightarrow> bool \<times> 'f dma_device" where
  "next_dma_alloc s = (case dma_allocs s of [] \<Rightarrow> (True, s) | b # bs \<Rightarrow> (b, s\<lparr>dma_allocs := bs\<rparr>))"

definition fence_call :: "fence_call \<Rightarrow> 'f dma_device \<Rightarrow> 'f dma_device" where
  "fence_call c s = s\<lparr>fence_calls := fence_calls s @ [c]\<rparr>"

definition dma_monitor_update :: "nat \<Rightarrow> cam_fence_op \<Rightarrow> 'f dma_device \<Rightarrow> 'f dma_device" where
  "dma_monitor_update i op s =
     (if dma_mask s then
        (case dma_mon s of
           None \<Rightarrow> s
         | Some t \<Rightarrow>
            (let (ok, s) = (if t (i div CAM_SYNC_MONITOR_TABLE_ENTRY_SZ) = None then next_dma_alloc s else (True, s)) in
             s\<lparr>dma_mon := cam_generic_fence_update_monitor_array ok (dma_now s) i op (Some t)\<rparr>))
      else s)"

text \<open>
  The dump of a row's operations prints, and reads the fence's reference count for it; it follows the
  pointers to the row's monitor data and to its fence.
\<close>

definition dma_fence_dump_monitor_array :: "nat \<Rightarrow> 'f dma_device \<Rightarrow> 'f dma_device" where
  "dma_fence_dump_monitor_array i s =
     (case dma_mon s of
        None \<Rightarrow> s
      | Some t \<Rightarrow>
         if \<not> dma_mask s then s
         else
           (case CAM_GENERIC_MONITOR_GET_DATA t i of
              None \<Rightarrow> null_pointer s
            | Some d \<Rightarrow>
                if prev_obj_id d = 0 then s
                else if df_fence (dma_rows s i) = None then null_pointer s else s))"

definition dma_state_u32 :: "cam_dma_fence_state \<Rightarrow> u32" where
  "dma_state_u32 st = (case st of CAM_DMA_FENCE_STATE_INVALID \<Rightarrow> 0 | CAM_DMA_FENCE_STATE_ACTIVE \<Rightarrow> 1
                       | CAM_DMA_FENCE_STATE_SIGNALED \<Rightarrow> 2)"

definition dma_fence_save_previous_monitor_data :: "nat \<Rightarrow> 'f dma_device \<Rightarrow> 'f dma_device" where
  "dma_fence_save_previous_monitor_data i s =
     (case dma_mon s of
        None \<Rightarrow> s
      | Some t \<Rightarrow>
         (let row = dma_rows s i in
          case CAM_GENERIC_MONITOR_GET_DATA t i of
            None \<Rightarrow> null_pointer s
          | Some d \<Rightarrow> s\<lparr>dma_mon := Some (set_monitor_data t i
              (d\<lparr>prev_name := take (CAM_DMA_FENCE_NAME_LEN - 1) (df_name row), prev_obj_id := df_fd row,
                 prev_sync_id := df_sync_obj row, prev_state := dma_state_u32 (df_state row),
                 swap_monitor_entries := \<not> swap_monitor_entries d, prev_monitor_head := monitor_head d\<rparr>))\<rparr>))"

section \<open>The table\<close>

text \<open>The table is printed when it is full: the locks of the rows are taken in turn, up to the first free row.\<close>

primrec dma_print_loop :: "nat list \<Rightarrow> 'f dma_device \<Rightarrow> 'f dma_device" where
  "dma_print_loop [] s = s"
| "dma_print_loop (i # is) s =
     (let s = dma_lock i s; row = dma_rows s i in
      if df_state row = CAM_DMA_FENCE_STATE_INVALID then dma_unlock i s
      else dma_print_loop is (dma_unlock i (if df_fence row = None then null_pointer s else s)))"

definition dma_fence_find_free_idx :: "'f dma_device \<Rightarrow> 'f dma_device \<times> (errno + nat)" where
  "dma_fence_find_free_idx s =
     (let idx = find_first_zero_bit (dma_bitmap s) CAM_DMA_FENCE_MAX_FENCES in
      if CAM_DMA_FENCE_MAX_FENCES \<le> idx then (dma_print_loop [1..<CAM_DMA_FENCE_MAX_FENCES] s, Inl ENOMEM)
      else (s\<lparr>dma_bitmap := (dma_bitmap s)(idx := True)\<rparr>, Inr idx))"

text \<open>The first row with a descriptor, with its fence.\<close>

primrec dma_find_loop :: "int \<Rightarrow> nat list \<Rightarrow> 'f dma_device \<Rightarrow> 'f dma_device \<times> (nat \<times> nat option) option" where
  "dma_find_loop fd [] s = (s, None)"
| "dma_find_loop fd (i # is) s =
     (let s = dma_lock i s; row = dma_rows s i in
      if df_state row \<noteq> CAM_DMA_FENCE_STATE_INVALID \<and> df_fd row = fd then (dma_unlock i s, Some (i, df_fence row))
      else dma_find_loop fd is (dma_unlock i s))"

definition dma_fence_find_fence_in_table :: "int \<Rightarrow> 'f dma_device \<Rightarrow> 'f dma_device \<times> (nat \<times> nat option) option" where
  "dma_fence_find_fence_in_table fd s = dma_find_loop fd [0..<CAM_DMA_FENCE_MAX_FENCES] s"

definition dma_fence_init_row :: "string \<Rightarrow> nat \<Rightarrow> int \<Rightarrow> nat \<Rightarrow> bool \<Rightarrow> 'f dma_device \<Rightarrow> 'f dma_device" where
  "dma_fence_init_row name fence fd idx ext s =
     dma_unlock idx (dma_monitor_update idx CAM_FENCE_OP_CREATE
       (upd_dma_row idx (\<lambda>r. r\<lparr>df_fence := Some fence, df_fd := fd, df_state := CAM_DMA_FENCE_STATE_ACTIVE, df_ext := ext,
            df_name := take (CAM_DMA_FENCE_NAME_LEN - 1) name\<rparr>) (dma_lock idx s)))"

section \<open>Signals\<close>

text \<open>The callback of a row, called with the fence's lock held. The index for the monitor is looked up by descriptor.\<close>

definition dma_fence_signal_cb :: "fence_env \<Rightarrow> nat \<Rightarrow> nat \<Rightarrow> 'f dma_device \<Rightarrow> 'f dma_device" where
  "dma_fence_signal_cb e fence i s =
     (let row = dma_rows s i in
      if df_state row = CAM_DMA_FENCE_STATE_INVALID then s
      else if sync_signal_dma row then s
      else
        (case (cb_registered_for_sync row, df_sync_cb row) of
           (True, Some cb) \<Rightarrow>
             (let status = dma_fence_status e (fence_calls s) fence;
                  s = upd_dma_row i (\<lambda>r. r\<lparr>df_state := CAM_DMA_FENCE_STATE_SIGNALED\<rparr>) s;
                  s = s\<lparr>sync_cb_calls := sync_cb_calls s @ [(cb, df_sync_obj row, df_fd row, status)]\<rparr> in
              if dma_mask s then
                (case dma_fence_find_fence_in_table (df_fd row) s of
                   (s, Some (idx, _)) \<Rightarrow> dma_monitor_update idx CAM_FENCE_OP_UNREGISTER_ON_SIGNAL s
                 | (s, None) \<Rightarrow> s)
              else s)
         | _ \<Rightarrow> s))"

text \<open>A fence that signals calls the function in the callback structure of each row.\<close>

primrec run_callbacks :: "fence_env \<Rightarrow> nat \<Rightarrow> nat list \<Rightarrow> 'f dma_device \<Rightarrow> 'f dma_device" where
  "run_callbacks e fence [] s = s"
| "run_callbacks e fence (i # is) s =
     run_callbacks e fence is
       (if fence_cb_func (dma_rows s i) then dma_fence_signal_cb e fence i s else null_pointer s)"

definition dma_fence_signal_locked :: "fence_env \<Rightarrow> nat \<Rightarrow> 'f dma_device \<Rightarrow> 'f dma_device \<times> (errno + unit)" where
  "dma_fence_signal_locked e fence s =
     (run_callbacks e fence (fence_callbacks e (fence_calls s) fence) (fence_call (Fence_Signal fence) s),
      dma_fence_signal_rc e (fence_calls s) fence)"

definition dma_fence_signal_fence :: "fence_env \<Rightarrow> nat \<Rightarrow> errno + unit \<Rightarrow> 'f dma_device \<Rightarrow> 'f dma_device \<times> (errno + unit)" where
  "dma_fence_signal_fence e fence status s =
     (if dma_fence_is_signaled e (fence_calls s) fence then (s, Inl EPERM)
      else dma_fence_signal_locked e fence
             (case status of Inl er \<Rightarrow> fence_call (Fence_Set_Error fence er) s | Inr _ \<Rightarrow> s))"

text \<open>The owner of a fence, another driver, signals it.\<close>

definition fence_signaled_outside :: "fence_env \<Rightarrow> nat \<Rightarrow> 'f dma_device \<Rightarrow> 'f dma_device" where
  "fence_signaled_outside e fence s =
     (if dma_fence_is_signaled e (fence_calls s) fence then s else fst (dma_fence_signal_locked e fence s))"

definition dma_idx_invalid :: "int \<Rightarrow> bool" where
  "dma_idx_invalid idx \<longleftrightarrow> idx < 0 \<or> int CAM_DMA_FENCE_MAX_FENCES \<le> idx"

definition cam_dma_fence_internal_signal ::
    "fence_env \<Rightarrow> int \<Rightarrow> errno + unit \<Rightarrow> 'f dma_device \<Rightarrow> 'f dma_device \<times> (errno + unit)" where
  "cam_dma_fence_internal_signal e idx status s =
     (if dma_idx_invalid idx then (s, Inl EINVAL)
      else
       (let i = nat idx;
            s = upd_dma_row i (\<lambda>r. r\<lparr>sync_signal_dma := True\<rparr>) (dma_lock i s);
            row = dma_rows s i in
        case df_fence row of
          None \<Rightarrow> (dma_unlock i (dma_fence_dump_monitor_array i s), Inl EINVAL)
        | Some fence \<Rightarrow>
           (if df_state row = CAM_DMA_FENCE_STATE_SIGNALED then (dma_unlock i (dma_fence_dump_monitor_array i s), Inr ())
            else
             (let s = dma_monitor_update i CAM_FENCE_OP_SIGNAL s;
                  removed = dma_fence_removed e (fence_calls s) fence i in
              if cb_registered_for_sync row \<and> \<not> removed
              then (dma_unlock i (dma_fence_dump_monitor_array i s), Inl EINVAL)
              else
               (let s = (if cb_registered_for_sync row then fence_call (Fence_Remove_Callback fence i) s else s);
                    s = fst (dma_fence_signal_fence e fence status s)
                in (dma_unlock i (upd_dma_row i (\<lambda>r. r\<lparr>df_state := CAM_DMA_FENCE_STATE_SIGNALED\<rparr>) s), Inr ()))))))"

definition cam_dma_fence_signal_fd ::
    "fence_env \<Rightarrow> int \<Rightarrow> errno + unit \<Rightarrow> 'f dma_device \<Rightarrow> 'f dma_device \<times> (errno + unit)" where
  "cam_dma_fence_signal_fd e fd status s =
     (case dma_fence_find_fence_in_table fd s of
        (s, Some (i, Some _)) \<Rightarrow> cam_dma_fence_internal_signal e (int i) status s
      | (s, _) \<Rightarrow> (s, Inl EINVAL))"

section \<open>References and callbacks\<close>

definition cam_dma_fence_get_put_ref :: "bool \<Rightarrow> int \<Rightarrow> 'f dma_device \<Rightarrow> 'f dma_device \<times> (errno + unit)" where
  "cam_dma_fence_get_put_ref get_or_put idx s =
     (if dma_idx_invalid idx then (s, Inl EINVAL)
      else
       (let i = nat idx; s = dma_lock i s; row = dma_rows s i in
        if df_state row = CAM_DMA_FENCE_STATE_INVALID then (dma_unlock i (dma_fence_dump_monitor_array i s), Inl EINVAL)
        else
         (case df_fence row of
            None \<Rightarrow> (null_pointer s, Inr ())
          | Some fence \<Rightarrow> (dma_unlock i (fence_call (if get_or_put then Fence_Get fence else Fence_Put fence) s), Inr ()))))"

text \<open>
  A fence by its descriptor: \<open>Inl\<close> is an error pointer, \<open>Inr None\<close> is NULL; the index is written when there is one. The
  lookup of a file gives a reference to its fence.
\<close>

definition cam_dma_fence_get_fence_from_sync_file ::
    "fence_env \<Rightarrow> int \<Rightarrow> 'f dma_device \<Rightarrow> 'f dma_device \<times> nat option \<times> (errno + nat option)" where
  "cam_dma_fence_get_fence_from_sync_file e fd s =
     (case sync_file_get_fence e (fence_calls s) fd of
        None \<Rightarrow> (s, None, Inl EINVAL)
      | Some fence \<Rightarrow>
         (case dma_fence_find_free_idx (fence_call (Fence_Get fence) s) of
            (s, Inl _) \<Rightarrow> (fence_call (Fence_Put fence) s, None, Inr None)
          | (s, Inr idx) \<Rightarrow>
              (dma_fence_init_row (fence_driver_name e fence) fence fd idx True s, Some idx, Inr (Some fence))))"

definition cam_dma_fence_get_fence_from_fd ::
    "fence_env \<Rightarrow> int \<Rightarrow> 'f dma_device \<Rightarrow> 'f dma_device \<times> nat option \<times> (errno + nat option)" where
  "cam_dma_fence_get_fence_from_fd e fd s =
     (case dma_fence_find_fence_in_table fd s of
        (s, Some (i, Some fence)) \<Rightarrow>
          (let s = dma_lock i s; row = dma_rows s i in
           if df_state row = CAM_DMA_FENCE_STATE_INVALID \<or> df_fd row \<noteq> fd \<or> df_fence row \<noteq> Some fence
           then (dma_unlock i s, Some i, Inl EINVAL)
           else (dma_unlock i (fence_call (Fence_Get fence) s), Some i, Inr (Some fence)))
      | (s, _) \<Rightarrow> cam_dma_fence_get_fence_from_sync_file e fd s)"

text \<open>
  Registration for a sync object. The error message of a row that is not active reads the sequence number of its
  fence. A row that has a callback already is left as it is, and the answer is success.
\<close>

definition cam_dma_fence_register_cb ::
    "fence_env \<Rightarrow> int option \<Rightarrow> int option \<Rightarrow> 'f option \<Rightarrow> 'f dma_device \<Rightarrow> 'f dma_device \<times> (errno + unit)" where
  "cam_dma_fence_register_cb e sync_obj dma_fence_idx sync_cb s =
     (case (sync_obj, dma_fence_idx, sync_cb) of
        (Some obj, Some idx, Some cb) \<Rightarrow>
         (if dma_idx_invalid idx then (s, Inl EINVAL)
          else
           (let i = nat idx; s = dma_lock i s; row = dma_rows s i in
            if df_state row \<noteq> CAM_DMA_FENCE_STATE_ACTIVE then
              (let s = dma_monitor_update i CAM_FENCE_OP_SKIP_REGISTER_CB s;
                   s = (if df_fence row = None then null_pointer s else s)
               in (dma_unlock i (dma_fence_dump_monitor_array i s), Inl EINVAL))
            else if cb_registered_for_sync row then
              (let s = dma_monitor_update i CAM_FENCE_OP_ALREADY_REGISTERED_CB s;
                   s = (if df_fence row = None then null_pointer s else s)
               in (dma_unlock i (dma_fence_dump_monitor_array i s), Inr ()))
            else
             (case df_fence row of
                None \<Rightarrow> (null_pointer s, Inl EINVAL)
              | Some fence \<Rightarrow>
                 (case dma_fence_add_rc e (fence_calls s) fence of
                    Inl er \<Rightarrow> (dma_unlock i (dma_fence_dump_monitor_array i s), Inl er)
                  | Inr _ \<Rightarrow>
                     (let s = upd_dma_row i (\<lambda>r. r\<lparr>fence_cb_func := True\<rparr>) (fence_call (Fence_Add_Callback fence i) s);
                          s = dma_monitor_update i CAM_FENCE_OP_REGISTER_CB s
                      in (dma_unlock i (upd_dma_row i (\<lambda>r. r\<lparr>cb_registered_for_sync := True, df_sync_obj := obj,
                            df_sync_cb := Some cb\<rparr>) s), Inr ()))))))
      | _ \<Rightarrow> (s, Inl EINVAL))"

section \<open>Creation\<close>

text \<open>
  A new fence with a descriptor. Each error gives the index back; the answer is the descriptor, negative on an error, and the
  index.
\<close>

definition dma_free_idx :: "nat \<Rightarrow> 'f dma_device \<Rightarrow> 'f dma_device" where
  "dma_free_idx idx s = s\<lparr>dma_bitmap := (dma_bitmap s)(idx := False)\<rparr>"

definition dma_fence_get_fd :: "fence_env \<Rightarrow> string \<Rightarrow> 'f dma_device \<Rightarrow> 'f dma_device \<times> nat option \<times> int" where
  "dma_fence_get_fd e name s =
     (case dma_fence_find_free_idx s of
        (s, Inl _) \<Rightarrow> (s, None, - 1)
      | (s, Inr idx) \<Rightarrow>
         (let (ok, s) = next_dma_alloc s in
          if \<not> ok then (dma_free_idx idx s, None, - 1)
          else
           (let (ok, s) = next_dma_alloc s in
            if \<not> ok then (dma_free_idx idx s, None, - 1)
            else
             (let seqno = dma_seq_no s + 1; fence = new_fence e (fence_calls s);
                  s = fence_call (Fence_Init fence seqno) (s\<lparr>dma_seq_no := seqno\<rparr>);
                  fd = unused_fd e (fence_calls s) in
              if fd < 0 then (dma_free_idx idx (fence_call (Fence_Put fence) s), None, fd)
              else
               (let s = fence_call (Get_Unused_Fd fd) s in
                if \<not> sync_file_ok e (fence_calls s)
                then (dma_free_idx idx (fence_call (Fence_Put fence) (fence_call (Put_Unused_Fd fd) s)), None, - 1)
                else
                  (dma_fence_init_row name fence fd idx False
                     (fence_call (Fd_Install fd fence) (fence_call (Sync_File_Create fence) s)), Some idx, fd))))))"

text \<open>The two places for the answers may be NULL; \<open>out_ok\<close> says that neither is.\<close>

definition cam_dma_fence_create_fd ::
    "fence_env \<Rightarrow> bool \<Rightarrow> string \<Rightarrow> 'f dma_device \<Rightarrow> 'f dma_device \<times> (errno + int \<times> nat option)" where
  "cam_dma_fence_create_fd e out_ok name s =
     (if \<not> out_ok then (s, Inl EINVAL)
      else
       (case dma_fence_get_fd e name s of
          (s, idx, fd) \<Rightarrow> if fd < 0 then (s, Inl EBADFD) else (s, Inr (fd, idx))))"

section \<open>Release\<close>

text \<open>
  A fence of the driver is signaled before it is released, with the row's lock held. The callback that is registered with a fence of
  another driver stays registered when the row is cleared.
\<close>

definition dma_fence_release_row :: "fence_env \<Rightarrow> nat \<Rightarrow> 'f dma_device \<Rightarrow> 'f dma_device \<times> (errno + unit)" where
  "dma_fence_release_row e i s =
     (let s = dma_lock i s; row = dma_rows s i in
      if df_state row = CAM_DMA_FENCE_STATE_INVALID then (dma_unlock i (dma_fence_dump_monitor_array i s), Inl EINVAL)
      else
       (case df_fence row of
          None \<Rightarrow> (null_pointer s, Inl EINVAL)
        | Some fence \<Rightarrow>
           (let s = (if df_state row = CAM_DMA_FENCE_STATE_ACTIVE then dma_monitor_update i CAM_FENCE_OP_SIGNAL s else s);
                s = (if df_ext row then s else fst (dma_fence_signal_fence e fence (Inl ECANCELED) s));
                s = (if dma_mask s then
                       (let s = dma_monitor_update i CAM_FENCE_OP_DESTROY s;
                            s = (if dma_mask_dump s then dma_fence_dump_monitor_array i s else s)
                        in dma_fence_save_previous_monitor_data i s)
                     else s);
                s = upd_dma_row i (\<lambda>_. zero_dma_row) (fence_call (Fence_Put fence) s)
            in (dma_unlock i (dma_free_idx i s), Inr ()))))"

definition dma_fence_release_fd :: "fence_env \<Rightarrow> int \<Rightarrow> 'f dma_device \<Rightarrow> 'f dma_device \<times> (errno + unit)" where
  "dma_fence_release_fd e fd s =
     (case dma_fence_find_fence_in_table fd s of
        (s, Some (i, Some _)) \<Rightarrow> dma_fence_release_row e i s
      | (s, _) \<Rightarrow> (s, Inl EINVAL))"

text \<open>By index of the row (\<open>Inl\<close>) or by descriptor.\<close>

definition cam_dma_fence_release :: "fence_env \<Rightarrow> int + int \<Rightarrow> 'f dma_device \<Rightarrow> 'f dma_device \<times> (errno + unit)" where
  "cam_dma_fence_release e release_params s =
     (case release_params of
        Inl idx \<Rightarrow> (if dma_idx_invalid idx then (s, Inl EINVAL) else dma_fence_release_row e (nat idx) s)
      | Inr fd \<Rightarrow> dma_fence_release_fd e fd s)"

section \<open>The device\<close>

definition dma_close_row :: "fence_env \<Rightarrow> nat \<Rightarrow> 'f dma_device \<Rightarrow> 'f dma_device" where
  "dma_close_row e i s =
     (let s = dma_lock i s; row = dma_rows s i in
      if df_state row = CAM_DMA_FENCE_STATE_INVALID then dma_unlock i s
      else
       (case df_fence row of
          None \<Rightarrow> null_pointer s
        | Some fence \<Rightarrow>
           (let s = (if cb_registered_for_sync row then
                       (let s = dma_monitor_update i CAM_FENCE_OP_UNREGISTER_CB s in
                        if dma_fence_removed e (fence_calls s) fence i then fence_call (Fence_Remove_Callback fence i) s else s)
                     else s);
                s = (if df_ext row then s
                     else fst (dma_fence_signal_fence e fence (Inl EADV) (dma_monitor_update i CAM_FENCE_OP_SIGNAL s)));
                s = upd_dma_row i (\<lambda>_. zero_dma_row) (fence_call (Fence_Put fence) s)
            in dma_unlock i (dma_free_idx i s))))"

primrec dma_close_rows :: "fence_env \<Rightarrow> nat list \<Rightarrow> 'f dma_device \<Rightarrow> 'f dma_device" where
  "dma_close_rows e [] s = s"
| "dma_close_rows e (i # is) s = dma_close_rows e is (dma_close_row e i s)"

definition cam_dma_fence_close :: "fence_env \<Rightarrow> 'f dma_device \<Rightarrow> 'f dma_device" where
  "cam_dma_fence_close e s = (dma_close_rows e [0..<CAM_DMA_FENCE_MAX_FENCES] s)\<lparr>dma_mon := None\<rparr>"

definition cam_dma_fence_open :: "'f dma_device \<Rightarrow> 'f dma_device" where
  "cam_dma_fence_open s =
     (let s = (if dma_mask s then
                 (let (ok, s) = next_dma_alloc s in s\<lparr>dma_mon := (if ok then Some (\<lambda>_. None) else None)\<rparr>)
               else s)
      in s\<lparr>dma_seq_no := 0\<rparr>)"

text \<open>The device when the driver is loaded; index 0 is never handed out.\<close>

definition cam_dma_fence_driver_init :: "bool \<Rightarrow> bool \<Rightarrow> bool list \<Rightarrow> u64 \<Rightarrow> 'f dma_device option" where
  "cam_dma_fence_driver_init monitored dumped mem time =
     (case mem of
        False # _ \<Rightarrow> None
      | _ \<Rightarrow> Some \<lparr>dma_rows = (\<lambda>_. zero_dma_row), dma_locks = (\<lambda>_. False), dma_bitmap = (\<lambda>_. False)(0 := True),
               dma_mon = None, dma_mask = monitored, dma_mask_dump = dumped, dma_allocs = tl mem, dma_now = time,
               dma_seq_no = 0, fence_calls = [], sync_cb_calls = [], dma_bad = None\<rparr>)"

end
