(* ===== verification/Cam_Dma_Fence_Correct.thy ===== *)
theory Cam_Dma_Fence_Correct
  imports Cam_Dma_Fence Slot_Spec
begin

text \<open>
  What is documented of fences, as a law of the environment over the calls made so far; the invariant of the table; and that
  every operation keeps it, if a row with a registered callback is not released under it.
\<close>

section \<open>Fences\<close>

text \<open>The rows whose callbacks are registered with a fence, and whether it has signaled, after some calls.\<close>

fun pending_step :: "nat \<Rightarrow> fence_call \<Rightarrow> nat list \<Rightarrow> nat list" where
  "pending_step f (Fence_Init g _) ps = (if g = f then [] else ps)"
| "pending_step f (Fence_Add_Callback g i) ps = (if g = f then ps @ [i] else ps)"
| "pending_step f (Fence_Remove_Callback g i) ps = (if g = f then removeAll i ps else ps)"
| "pending_step f (Fence_Signal g) ps = (if g = f then [] else ps)"
| "pending_step f _ ps = ps"

definition pending :: "nat \<Rightarrow> fence_call list \<Rightarrow> nat list" where
  "pending f tr = fold (pending_step f) tr []"

fun signaled_step :: "nat \<Rightarrow> fence_call \<Rightarrow> bool \<Rightarrow> bool" where
  "signaled_step f (Fence_Init g _) b = (g \<noteq> f \<and> b)"
| "signaled_step f (Fence_Signal g) b = (g = f \<or> b)"
| "signaled_step f _ b = b"

definition fence_signaled :: "nat \<Rightarrow> fence_call list \<Rightarrow> bool" where
  "fence_signaled f tr = fold (signaled_step f) tr False"

fun error_step :: "nat \<Rightarrow> fence_call \<Rightarrow> errno option \<Rightarrow> errno option" where
  "error_step f (Fence_Init g _) er = (if g = f then None else er)"
| "error_step f (Fence_Set_Error g x) er = (if g = f then Some x else er)"
| "error_step f _ er = er"

definition fence_error :: "nat \<Rightarrow> fence_call list \<Rightarrow> errno option" where
  "fence_error f tr = fold (error_step f) tr None"

lemma fence_folds [simp]:
  "pending f [] = []" "fence_signaled f [] = False" "fence_error f [] = None"
  "pending f (tr @ [c]) = pending_step f c (pending f tr)"
  "fence_signaled f (tr @ [c]) = signaled_step f c (fence_signaled f tr)"
  "fence_error f (tr @ [c]) = error_step f c (fence_error f tr)"
  by (simp_all add: pending_def fence_signaled_def fence_error_def)

fun fences_of :: "fence_call \<Rightarrow> nat set" where
  "fences_of (Fence_Init f _) = {f}" | "fences_of (Fence_Get f) = {f}" | "fences_of (Fence_Put f) = {f}"
| "fences_of (Fence_Add_Callback f _) = {f}" | "fences_of (Fence_Remove_Callback f _) = {f}"
| "fences_of (Fence_Set_Error f _) = {f}" | "fences_of (Fence_Signal f) = {f}" | "fences_of (Sync_File_Create f) = {f}"
| "fences_of (Fd_Install _ f) = {f}" | "fences_of _ = {}"

text \<open>
  The documented behaviour: signaling a fence runs exactly the callbacks that were added and not removed, once; callbacks are
  not added to a fence that has signaled; a removal succeeds while the callback has not run; an error that was set is the status.
  A new fence is another one than those in use.
\<close>

definition fence_law :: "fence_env \<Rightarrow> bool" where
  "fence_law e \<longleftrightarrow> (\<forall>tr f.
     fence_callbacks e tr f = pending f tr \<and>
     dma_fence_is_signaled e tr f = fence_signaled f tr \<and>
     dma_fence_signal_rc e tr f = (if fence_signaled f tr then Inl EINVAL else Inr ()) \<and>
     dma_fence_add_rc e tr f = (if fence_signaled f tr then Inl ENOENT else Inr ()) \<and>
     (\<forall>i. dma_fence_removed e tr f i \<longleftrightarrow> i \<in> set (pending f tr)) \<and>
     (\<forall>er. fence_error f tr = Some er \<longrightarrow> dma_fence_status e tr f = Inl er) \<and>
     (\<forall>c\<in>set tr. new_fence e tr \<notin> fences_of c))"

lemma fence_lawD:
  assumes "fence_law e"
  shows "fence_callbacks e tr f = pending f tr" "dma_fence_is_signaled e tr f = fence_signaled f tr"
    "dma_fence_signal_rc e tr f = (if fence_signaled f tr then Inl EINVAL else Inr ())"
    "dma_fence_add_rc e tr f = (if fence_signaled f tr then Inl ENOENT else Inr ())"
    "dma_fence_removed e tr f i \<longleftrightarrow> i \<in> set (pending f tr)"
    "fence_error f tr = Some er \<Longrightarrow> dma_fence_status e tr f = Inl er"
    "c \<in> set tr \<Longrightarrow> new_fence e tr \<notin> fences_of c"
  using assms by (auto simp: fence_law_def)

lemma pending_unused: "\<forall>c\<in>set tr. f \<notin> fences_of c \<Longrightarrow> pending f tr = []"
proof (induction tr rule: rev_induct)
  case (snoc c tr)
  then show ?case by (cases c) auto
qed simp

text \<open>An environment of this kind, with given files.\<close>

definition std_env :: "(int \<Rightarrow> nat option) \<Rightarrow> fence_env" where
  "std_env files = \<lparr>sync_file_get_fence = (\<lambda>_. files), fence_driver_name = (\<lambda>_. ''ext''),
     dma_fence_is_signaled = (\<lambda>tr f. fence_signaled f tr),
     dma_fence_status = (\<lambda>tr f. case fence_error f tr of Some er \<Rightarrow> Inl er | None \<Rightarrow> Inr ()),
     fence_callbacks = (\<lambda>tr f. pending f tr),
     dma_fence_signal_rc = (\<lambda>tr f. if fence_signaled f tr then Inl EINVAL else Inr ()),
     dma_fence_add_rc = (\<lambda>tr f. if fence_signaled f tr then Inl ENOENT else Inr ()),
     dma_fence_removed = (\<lambda>tr f i. i \<in> set (pending f tr)),
     new_fence = (\<lambda>tr. Suc (Max (insert 0 (\<Union>c\<in>set tr. fences_of c)))), unused_fd = (\<lambda>tr. 3 + int (length tr)), sync_file_ok = (\<lambda>_. True)\<rparr>"

lemma finite_fences_of: "finite (fences_of c)"
  by (cases c) auto

lemma fence_law_std: "fence_law (std_env files)"
proof -
  have "Suc (Max (insert 0 (\<Union>c\<in>set tr. fences_of c))) \<notin> fences_of c" if "c \<in> set tr" for c tr
  proof
    assume a: "Suc (Max (insert 0 (\<Union>c\<in>set tr. fences_of c))) \<in> fences_of c"
    have "finite (insert 0 (\<Union>c\<in>set tr. fences_of c))" using finite_fences_of by auto
    then have "Suc (Max (insert 0 (\<Union>c\<in>set tr. fences_of c))) \<le> Max (insert 0 (\<Union>c\<in>set tr. fences_of c))"
      using a that by (intro Max_ge) auto
    then show False by simp
  qed
  then show ?thesis by (simp add: fence_law_def std_env_def)
qed

section \<open>The monitor is off\<close>

lemma dma_monitor_off [simp]: "\<not> dma_mask s \<Longrightarrow> dma_monitor_update i op s = s"
  "\<not> dma_mask s \<Longrightarrow> dma_fence_dump_monitor_array i s = s"
  by (simp_all add: dma_monitor_update_def dma_fence_dump_monitor_array_def split: option.splits)

lemma dma_proj [simp]:
  "dma_rows (upd_dma_row i f s) = (dma_rows s)(i := f (dma_rows s i))" "dma_locks (upd_dma_row i f s) = dma_locks s"
  "dma_bitmap (upd_dma_row i f s) = dma_bitmap s" "dma_mask (upd_dma_row i f s) = dma_mask s"
  "fence_calls (upd_dma_row i f s) = fence_calls s" "sync_cb_calls (upd_dma_row i f s) = sync_cb_calls s"
  "dma_bad (upd_dma_row i f s) = dma_bad s" "dma_mask_dump (upd_dma_row i f s) = dma_mask_dump s"
  "dma_rows (fence_call c s) = dma_rows s" "dma_locks (fence_call c s) = dma_locks s" "dma_bitmap (fence_call c s) = dma_bitmap s"
  "dma_mask (fence_call c s) = dma_mask s" "fence_calls (fence_call c s) = fence_calls s @ [c]"
  "sync_cb_calls (fence_call c s) = sync_cb_calls s" "dma_bad (fence_call c s) = dma_bad s"
  "dma_rows (dma_unlock i s) = dma_rows s" "dma_locks (dma_unlock i s) = (dma_locks s)(i := False)" "dma_bitmap (dma_unlock i s) = dma_bitmap s"
  "dma_mask (dma_unlock i s) = dma_mask s" "fence_calls (dma_unlock i s) = fence_calls s"
  "sync_cb_calls (dma_unlock i s) = sync_cb_calls s" "dma_bad (dma_unlock i s) = dma_bad s"
  "dma_rows (dma_lock i s) = dma_rows s" "dma_bitmap (dma_lock i s) = dma_bitmap s"
  "dma_mask (dma_lock i s) = dma_mask s" "fence_calls (dma_lock i s) = fence_calls s" "sync_cb_calls (dma_lock i s) = sync_cb_calls s"
  "dma_rows (dma_free_idx i s) = dma_rows s" "dma_locks (dma_free_idx i s) = dma_locks s"
  "dma_bitmap (dma_free_idx i s) = (dma_bitmap s)(i := False)" "dma_mask (dma_free_idx i s) = dma_mask s"
  "fence_calls (dma_free_idx i s) = fence_calls s" "sync_cb_calls (dma_free_idx i s) = sync_cb_calls s" "dma_bad (dma_free_idx i s) = dma_bad s"
  by (simp_all add: upd_dma_row_def fence_call_def dma_unlock_def dma_lock_def dma_free_idx_def)

lemma dma_lock_free: "\<not> dma_locks s i \<Longrightarrow> dma_locks (dma_lock i s) = (dma_locks s)(i := True)"
  "\<not> dma_locks s i \<Longrightarrow> dma_bad (dma_lock i s) = dma_bad s"
  by (simp_all add: dma_lock_def)

lemma dma_lock_unlock: "\<not> dma_locks s i \<Longrightarrow> dma_unlock i (dma_lock i s) = s"
  by (simp add: dma_lock_def dma_unlock_def fun_upd_idem)

text \<open>A search takes and gives back one lock after the other.\<close>

lemma dma_find_eq:
  assumes "\<forall>i. \<not> dma_locks s i"
  shows "fst (dma_find_loop fd is s) = s \<and>
    snd (dma_find_loop fd is s) = map_option (\<lambda>i. (i, df_fence (dma_rows s i)))
      (find (\<lambda>i. df_state (dma_rows s i) \<noteq> CAM_DMA_FENCE_STATE_INVALID \<and> df_fd (dma_rows s i) = fd) is)"
  by (induction "is") (use assms in \<open>simp_all add: Let_def dma_lock_unlock\<close>)

section \<open>The invariant\<close>

abbreviation in_use :: "'f cam_dma_fence_row \<Rightarrow> bool" where
  "in_use r \<equiv> df_state r \<noteq> CAM_DMA_FENCE_STATE_INVALID"

text \<open>
  The bitmap says which rows are in use; those have a fence; a row is registered with a fence only while it holds the fence and its callback
  can be called.
\<close>

definition row_sound :: "'f cam_dma_fence_row \<Rightarrow> bool" where
  "row_sound r \<longleftrightarrow> (in_use r \<longleftrightarrow> df_fence r \<noteq> None) \<and>
     (cb_registered_for_sync r \<longrightarrow> df_sync_cb r \<noteq> None \<and> fence_cb_func r \<and> in_use r)"

definition dma_rows_ok :: "(nat \<Rightarrow> 'f cam_dma_fence_row) \<Rightarrow> (nat \<Rightarrow> bool) \<Rightarrow> fence_call list \<Rightarrow> bool" where
  "dma_rows_ok R bm tr \<longleftrightarrow> bm 0 \<and> \<not> in_use (R 0) \<and>
     (\<forall>i>0. bm i \<longleftrightarrow> in_use (R i)) \<and> (\<forall>i\<ge>CAM_DMA_FENCE_MAX_FENCES. \<not> bm i) \<and> (\<forall>i. row_sound (R i)) \<and>
     (\<forall>f. distinct (pending f tr) \<and> (fence_signaled f tr \<longrightarrow> pending f tr = []) \<and>
        (\<forall>i\<in>set (pending f tr). df_fence (R i) = Some f \<and> cb_registered_for_sync (R i)))"

definition dma_idle :: "'f dma_device \<Rightarrow> bool" where
  "dma_idle s \<longleftrightarrow> dma_bad s = None \<and> \<not> dma_mask s \<and> (\<forall>i. \<not> dma_locks s i)"

definition dma_ok :: "'f dma_device \<Rightarrow> bool" where
  "dma_ok s \<longleftrightarrow> dma_idle s \<and> dma_rows_ok (dma_rows s) (dma_bitmap s) (fence_calls s)"

lemma dma_rows_okD:
  assumes "dma_rows_ok R bm tr"
  shows "bm 0" "\<not> in_use (R 0)" "0 < i \<Longrightarrow> bm i \<longleftrightarrow> in_use (R i)" "in_use (R i) \<Longrightarrow> 0 < i \<and> i < CAM_DMA_FENCE_MAX_FENCES"
    "row_sound (R i)" "distinct (pending f tr)" "i \<in> set (pending f tr) \<Longrightarrow> df_fence (R i) = Some f \<and> cb_registered_for_sync (R i)"
    "in_use (R i) \<longleftrightarrow> df_fence (R i) \<noteq> None"
    "cb_registered_for_sync (R i) \<Longrightarrow> df_sync_cb (R i) \<noteq> None \<and> fence_cb_func (R i) \<and> in_use (R i)"
    "fence_signaled f tr \<Longrightarrow> pending f tr = []"
proof -
  show g: "0 < i \<Longrightarrow> bm i \<longleftrightarrow> in_use (R i)" and z: "\<not> in_use (R 0)" using assms by (simp_all add: dma_rows_ok_def)
  show "in_use (R i) \<Longrightarrow> 0 < i \<and> i < CAM_DMA_FENCE_MAX_FENCES"
    using g z assms by (metis (no_types) dma_rows_ok_def not_less neq0_conv)
  show rs: "row_sound (R i)" using assms by (simp add: dma_rows_ok_def)
  show "in_use (R i) \<longleftrightarrow> df_fence (R i) \<noteq> None"
    "cb_registered_for_sync (R i) \<Longrightarrow> df_sync_cb (R i) \<noteq> None \<and> fence_cb_func (R i) \<and> in_use (R i)"
    using rs by (simp_all add: row_sound_def)
qed (use assms in \<open>simp_all add: dma_rows_ok_def\<close>)

text \<open>Steps of the table: calls that add no callback, and changes of one row.\<close>

fun adds_callback :: "fence_call \<Rightarrow> bool" where
  "adds_callback (Fence_Add_Callback _ _) = True"
| "adds_callback _ = False"

lemma pending_shrinks:
  "\<not> adds_callback c \<Longrightarrow> set (pending_step f c ps) \<subseteq> set ps \<and> (distinct ps \<longrightarrow> distinct (pending_step f c ps))"
  by (cases c) (auto simp: distinct_removeAll)

lemma signaled_pending: "\<not> adds_callback c \<Longrightarrow> (b \<longrightarrow> ps = []) \<Longrightarrow> signaled_step f c b \<Longrightarrow> pending_step f c ps = []"
  by (cases c) auto

lemma table_ok_call:
  assumes "dma_rows_ok R bm tr" "\<not> adds_callback c"
  shows "dma_rows_ok R bm (tr @ [c])"
proof -
  have p: "set (pending f (tr @ [c])) \<subseteq> set (pending f tr)" "distinct (pending f (tr @ [c]))" for f
    using pending_shrinks [OF assms(2), of f "pending f tr"] dma_rows_okD(6) [OF assms(1)] by auto
  have q: "pending f (tr @ [c]) = []" if "fence_signaled f (tr @ [c])" for f
    using that signaled_pending [OF assms(2), of "fence_signaled f tr" "pending f tr" f] dma_rows_okD(10) [OF assms(1)] by auto
  have "df_fence (R i) = Some f \<and> cb_registered_for_sync (R i)" if "i \<in> set (pending f (tr @ [c]))" for i f
    using dma_rows_okD(7) [OF assms(1)] p that by blast
  then show ?thesis using assms(1) p(2) q unfolding dma_rows_ok_def by blast
qed

lemma table_ok_same:
  assumes "dma_rows_ok R bm tr" "in_use r = in_use (R i)" "df_fence r = df_fence (R i)"
    "cb_registered_for_sync r = cb_registered_for_sync (R i)" "df_sync_cb r = df_sync_cb (R i)" "fence_cb_func r = fence_cb_func (R i)"
  shows "dma_rows_ok (R(i := r)) bm tr"
  using assms by (auto simp: dma_rows_ok_def row_sound_def)

lemma table_ok_init:
  assumes "dma_rows_ok R bm tr" "\<not> bm i" "i < CAM_DMA_FENCE_MAX_FENCES"
    "in_use r" "df_fence r \<noteq> None" "cb_registered_for_sync r = cb_registered_for_sync (R i)"
  shows "dma_rows_ok (R(i := r)) (bm(i := True)) tr"
proof -
  have i: "0 < i" using assms(1,2) dma_rows_okD(1) by (cases i) auto
  then have u: "\<not> in_use (R i)" using assms(1,2) dma_rows_okD(3) by blast
  then have "\<not> cb_registered_for_sync (R i)" using dma_rows_okD(9) [OF assms(1)] by blast
  moreover from this have "i \<notin> set (pending f tr)" for f using dma_rows_okD(7) [OF assms(1)] by blast
  ultimately show ?thesis using assms i by (auto simp: dma_rows_ok_def row_sound_def)
qed

lemma table_ok_clear:
  assumes "dma_rows_ok R bm tr" "0 < i" "\<And>f. i \<notin> set (pending f tr)"
  shows "dma_rows_ok (R(i := zero_dma_row)) (bm(i := False)) tr"
  using assms by (auto simp: dma_rows_ok_def row_sound_def zero_dma_row_def)

lemma table_ok_register:
  assumes "dma_rows_ok R bm tr" "in_use (R i)" "df_fence (R i) = Some f" "\<not> cb_registered_for_sync (R i)" "\<not> fence_signaled f tr"
    "in_use r" "df_fence r = Some f" "df_sync_cb r \<noteq> None" "fence_cb_func r" "cb_registered_for_sync r"
  shows "dma_rows_ok (R(i := r)) bm (tr @ [Fence_Add_Callback f i])"
proof -
  have "i \<notin> set (pending g tr)" for g using dma_rows_okD(7) [OF assms(1)] assms(4) by blast
  then show ?thesis using assms by (auto simp: dma_rows_ok_def row_sound_def)
qed

text \<open>
  The converse: a registered row is told of its fence's signal, unless the fence has signaled already. And the fences of the table are
  fences that calls were made for.
\<close>

definition live_ok :: "(nat \<Rightarrow> 'f cam_dma_fence_row) \<Rightarrow> fence_call list \<Rightarrow> bool" where
  "live_ok R tr \<longleftrightarrow> (\<forall>i f. df_fence (R i) = Some f \<longrightarrow>
     (\<exists>c\<in>set tr. f \<in> fences_of c) \<and> (cb_registered_for_sync (R i) \<longrightarrow> fence_signaled f tr \<or> i \<in> set (pending f tr)))"

lemma live_okD: "live_ok R tr \<Longrightarrow> df_fence (R i) = Some f \<Longrightarrow> \<exists>c\<in>set tr. f \<in> fences_of c"
  "live_ok R tr \<Longrightarrow> df_fence (R i) = Some f \<Longrightarrow> cb_registered_for_sync (R i) \<Longrightarrow> fence_signaled f tr \<or> i \<in> set (pending f tr)"
  by (auto simp: live_ok_def)

text \<open>A call that leaves the callbacks of a fence: a signal at most.\<close>

definition spares :: "(nat \<Rightarrow> 'f cam_dma_fence_row) \<Rightarrow> fence_call \<Rightarrow> bool" where
  "spares R c \<longleftrightarrow> (\<forall>f i. c \<noteq> Fence_Remove_Callback f i) \<and> (\<forall>f n i. c = Fence_Init f n \<longrightarrow> df_fence (R i) \<noteq> Some f)"

lemma live_call:
  assumes "live_ok R tr" "spares R c"
  shows "live_ok R (tr @ [c])"
proof -
  have "fence_signaled f (tr @ [c]) \<or> i \<in> set (pending f (tr @ [c]))"
    if "df_fence (R i) = Some f" "fence_signaled f tr \<or> i \<in> set (pending f tr)" for f i
    using that assms(2) by (cases c) (auto simp: spares_def)
  then show ?thesis using assms(1) by (auto simp: live_ok_def)
qed

lemma live_calls: "live_ok R tr \<Longrightarrow> \<forall>c\<in>set cs. spares R c \<Longrightarrow> live_ok R (tr @ cs)"
proof (induction cs rule: rev_induct)
  case (snoc c cs)
  then show ?case using live_call [of R "tr @ cs" c] by simp
qed simp

lemma live_rows:
  assumes "live_ok R tr" "\<And>i. df_fence (R' i) = df_fence (R i)" "\<And>i. cb_registered_for_sync (R' i) = cb_registered_for_sync (R i)"
  shows "live_ok R' tr"
  using assms by (simp add: live_ok_def)

lemma live_clear: "live_ok R tr \<Longrightarrow> live_ok (R(i := zero_dma_row)) tr"
  by (simp add: live_ok_def zero_dma_row_def)

lemma live_new: "live_ok R tr \<Longrightarrow> df_fence r = Some f \<Longrightarrow> \<exists>c\<in>set tr. f \<in> fences_of c \<Longrightarrow> \<not> cb_registered_for_sync r \<Longrightarrow> live_ok (R(i := r)) tr"
  by (auto simp: live_ok_def)

lemma live_register: "live_ok R tr \<Longrightarrow> df_fence r = Some f \<Longrightarrow> live_ok (R(i := r)) (tr @ [Fence_Add_Callback f i])"
  by (auto simp: live_ok_def)

section \<open>Signals\<close>

definition deliver_rows :: "nat list \<Rightarrow> (nat \<Rightarrow> 'f cam_dma_fence_row) \<Rightarrow> nat \<Rightarrow> 'f cam_dma_fence_row" where
  "deliver_rows ps R i =
     (if i \<in> set ps \<and> \<not> sync_signal_dma (R i) then (R i)\<lparr>df_state := CAM_DMA_FENCE_STATE_SIGNALED\<rparr> else R i)"

definition deliver_calls ::
    "nat list \<Rightarrow> (nat \<Rightarrow> 'f cam_dma_fence_row) \<Rightarrow> errno + unit \<Rightarrow> ('f \<times> int \<times> int \<times> (errno + unit)) list" where
  "deliver_calls ps R st =
     map (\<lambda>i. (the (df_sync_cb (R i)), df_sync_obj (R i), df_fd (R i), st)) (filter (\<lambda>i. \<not> sync_signal_dma (R i)) ps)"

text \<open>Running the callbacks of rows that can take it: each one calls its sync object, unless that started the signal.\<close>

lemma run_callbacks_eq:
  assumes "\<not> dma_mask s" "distinct ps"
    "\<forall>i\<in>set ps. in_use (dma_rows s i) \<and> cb_registered_for_sync (dma_rows s i) \<and> df_sync_cb (dma_rows s i) \<noteq> None \<and> fence_cb_func (dma_rows s i)"
  shows "run_callbacks e f ps s = s\<lparr>dma_rows := deliver_rows ps (dma_rows s),
    sync_cb_calls := sync_cb_calls s @ deliver_calls ps (dma_rows s) (dma_fence_status e (fence_calls s) f)\<rparr>"
  using assms
proof (induction ps arbitrary: s)
  case Nil
  then show ?case by (simp add: deliver_rows_def deliver_calls_def)
next
  case (Cons i ps)
  let ?s' = "dma_fence_signal_cb e f i s"
  let ?r = "dma_rows s i"
  obtain cb where cb: "df_sync_cb ?r = Some cb" and reg: "cb_registered_for_sync ?r" "in_use ?r" "fence_cb_func ?r"
    using Cons.prems(3) by auto
  have s': "?s' = (if sync_signal_dma ?r then s
      else s\<lparr>dma_rows := (dma_rows s)(i := ?r\<lparr>df_state := CAM_DMA_FENCE_STATE_SIGNALED\<rparr>),
        sync_cb_calls := sync_cb_calls s @ [(cb, df_sync_obj ?r, df_fd ?r, dma_fence_status e (fence_calls s) f)]\<rparr>)"
    using cb reg Cons.prems(1) by (simp add: dma_fence_signal_cb_def Let_def upd_dma_row_def)
  have out: "dma_rows ?s' j = dma_rows s j" if "j \<in> set ps" for j using that Cons.prems(2) by (auto simp: s')
  have same: "deliver_calls ps (dma_rows ?s') st = deliver_calls ps (dma_rows s) st" for st
    using out by (auto simp: deliver_calls_def intro!: map_cong filter_cong)
  have "run_callbacks e f (i # ps) s = run_callbacks e f ps ?s'" using reg by simp
  also have "\<dots> = ?s'\<lparr>dma_rows := deliver_rows ps (dma_rows ?s'),
      sync_cb_calls := sync_cb_calls ?s' @ deliver_calls ps (dma_rows ?s') (dma_fence_status e (fence_calls ?s') f)\<rparr>"
    by (rule Cons.IH) (use Cons.prems out in \<open>auto simp: s'\<close>)
  finally have "run_callbacks e f (i # ps) s = \<dots>" .
  moreover have "deliver_rows ps (dma_rows ?s') = deliver_rows (i # ps) (dma_rows s)"
    using Cons.prems(2) by (auto simp: deliver_rows_def s')
  ultimately show ?case unfolding same using cb by (auto simp: s' deliver_calls_def)
qed

lemma table_ok_deliver: "dma_rows_ok R bm tr \<Longrightarrow> \<forall>i\<in>set ps. in_use (R i) \<Longrightarrow> dma_rows_ok (deliver_rows ps R) bm tr"
  unfolding dma_rows_ok_def row_sound_def deliver_rows_def by auto

text \<open>What a signal does: the fence has none of its callbacks left, and each row that was registered has told its sync object.\<close>

definition status_calls :: "nat \<Rightarrow> errno + unit \<Rightarrow> fence_call list" where
  "status_calls f st = (case st of Inl er \<Rightarrow> [Fence_Set_Error f er] | Inr _ \<Rightarrow> [])"

definition signal_device :: "fence_env \<Rightarrow> nat \<Rightarrow> errno + unit \<Rightarrow> 'f dma_device \<Rightarrow> 'f dma_device" where
  "signal_device e f st s =
     (let ps = pending f (fence_calls s); tr = fence_calls s @ status_calls f st @ [Fence_Signal f] in
      s\<lparr>dma_rows := deliver_rows ps (dma_rows s), fence_calls := tr,
        sync_cb_calls := sync_cb_calls s @ deliver_calls ps (dma_rows s) (dma_fence_status e tr f)\<rparr>)"

lemma signal_device_proj [simp]:
  "dma_rows (signal_device e f st s) = deliver_rows (pending f (fence_calls s)) (dma_rows s)"
  "fence_calls (signal_device e f st s) = fence_calls s @ status_calls f st @ [Fence_Signal f]"
  "dma_locks (signal_device e f st s) = dma_locks s" "dma_bitmap (signal_device e f st s) = dma_bitmap s"
  "dma_mask (signal_device e f st s) = dma_mask s" "dma_bad (signal_device e f st s) = dma_bad s"
  "sync_cb_calls (signal_device e f st s) = sync_cb_calls s @ deliver_calls (pending f (fence_calls s)) (dma_rows s)
     (dma_fence_status e (fence_calls s @ status_calls f st @ [Fence_Signal f]) f)"
  by (simp_all add: signal_device_def Let_def)

lemma pending_status [simp]: "pending g (tr @ status_calls f st) = pending g tr"
  "fence_signaled g (tr @ status_calls f st) = fence_signaled g tr"
  by (simp_all add: status_calls_def split: sum.splits)

lemma pending_runs:
  assumes "dma_rows_ok R bm tr" "i \<in> set (pending f tr)"
  shows "in_use (R i) \<and> cb_registered_for_sync (R i) \<and> df_sync_cb (R i) \<noteq> None \<and> fence_cb_func (R i)"
  using dma_rows_okD(7) [OF assms] dma_rows_okD(9) [OF assms(1)] by blast

lemma signal_fence_eq:
  assumes law: "fence_law e" and off: "\<not> dma_mask s" and ok: "dma_rows_ok (dma_rows s) (dma_bitmap s) (fence_calls s)"
  shows "dma_fence_signal_fence e f st s =
    (if fence_signaled f (fence_calls s) then (s, Inl EPERM) else (signal_device e f st s, Inr ()))"
proof (cases "fence_signaled f (fence_calls s)")
  case True
  then show ?thesis by (simp add: dma_fence_signal_fence_def fence_lawD(2) [OF law])
next
  case False
  define s1 where "s1 = (case st of Inl er \<Rightarrow> fence_call (Fence_Set_Error f er) s | Inr _ \<Rightarrow> s)"
  have s1: "s1 = s\<lparr>fence_calls := fence_calls s @ status_calls f st\<rparr>"
    by (simp add: s1_def status_calls_def fence_call_def split: sum.splits)
  let ?ps = "pending f (fence_calls s)" and ?s2 = "fence_call (Fence_Signal f) s1"
  have run: "run_callbacks e f ?ps ?s2 = ?s2\<lparr>dma_rows := deliver_rows ?ps (dma_rows ?s2),
      sync_cb_calls := sync_cb_calls ?s2 @ deliver_calls ?ps (dma_rows ?s2) (dma_fence_status e (fence_calls ?s2) f)\<rparr>"
    by (rule run_callbacks_eq) (use off pending_runs [OF ok] dma_rows_okD(6) [OF ok] in \<open>auto simp: s1\<close>)
  have "dma_fence_signal_fence e f st s = dma_fence_signal_locked e f s1"
    using False by (simp add: dma_fence_signal_fence_def fence_lawD(2) [OF law] s1_def)
  also have "\<dots> = (run_callbacks e f ?ps ?s2, Inr ())"
    using False by (simp add: dma_fence_signal_locked_def fence_lawD(1,3) [OF law] s1)
  also have "run_callbacks e f ?ps ?s2 = signal_device e f st s"
    unfolding run by (simp add: s1 signal_device_def fence_call_def Let_def)
  finally show ?thesis using False by simp
qed

lemma signal_device_table:
  assumes "dma_rows_ok (dma_rows s) (dma_bitmap s) (fence_calls s)"
  shows "dma_rows_ok (dma_rows (signal_device e f st s)) (dma_bitmap s) (fence_calls (signal_device e f st s))"
proof -
  have "dma_rows_ok (deliver_rows (pending f (fence_calls s)) (dma_rows s)) (dma_bitmap s) (fence_calls s)"
    by (rule table_ok_deliver [OF assms]) (use pending_runs [OF assms] in blast)
  then have "dma_rows_ok (deliver_rows (pending f (fence_calls s)) (dma_rows s)) (dma_bitmap s) (fence_calls s @ status_calls f st)"
    by (auto simp: status_calls_def split: sum.splits intro: table_ok_call)
  then show ?thesis using table_ok_call [of _ _ "fence_calls s @ status_calls f st" "Fence_Signal f"] by simp
qed

lemma deliver_rows_proj [simp]:
  "df_fence (deliver_rows ps R i) = df_fence (R i)" "df_fd (deliver_rows ps R i) = df_fd (R i)"
  "df_ext (deliver_rows ps R i) = df_ext (R i)" "sync_signal_dma (deliver_rows ps R i) = sync_signal_dma (R i)"
  "cb_registered_for_sync (deliver_rows ps R i) = cb_registered_for_sync (R i)"
  "df_sync_cb (deliver_rows ps R i) = df_sync_cb (R i)" "fence_cb_func (deliver_rows ps R i) = fence_cb_func (R i)"
  "df_sync_obj (deliver_rows ps R i) = df_sync_obj (R i)"
  by (simp_all add: deliver_rows_def)

lemma pending_signaled [simp]: "pending f (tr @ status_calls f st @ [Fence_Signal f]) = []"
  using fence_folds(4) [of f "tr @ status_calls f st" "Fence_Signal f"] by simp

lemma pending_signaled_other [simp]: "g \<noteq> f \<Longrightarrow> pending g (tr @ status_calls f st @ [Fence_Signal f]) = pending g tr"
  using fence_folds(4) [of g "tr @ status_calls f st" "Fence_Signal f"] by simp

section \<open>The operations keep the invariant\<close>

lemma dma_okD: "dma_ok s \<Longrightarrow> dma_bad s = None \<and> \<not> dma_mask s \<and> (\<forall>i. \<not> dma_locks s i)"
  "dma_ok s \<Longrightarrow> dma_rows_ok (dma_rows s) (dma_bitmap s) (fence_calls s)"
  by (simp_all add: dma_ok_def dma_idle_def)

text \<open>An operation on one row, under its lock: the lock can be left out.\<close>

lemma dma_dev_over_lock [simp]:
  "upd_dma_row j f (dma_lock i s) = dma_lock i (upd_dma_row j f s)" "fence_call c (dma_lock i s) = dma_lock i (fence_call c s)"
  "signal_device e f' st (dma_lock i s) = dma_lock i (signal_device e f' st s)" "dma_free_idx j (dma_lock i s) = dma_lock i (dma_free_idx j s)"
  by (simp_all add: upd_dma_row_def fence_call_def signal_device_def dma_free_idx_def dma_lock_def Let_def)

lemma dma_ok_lock_unlock: "dma_ok s \<Longrightarrow> dma_unlock i (dma_lock i s) = s"
  using dma_okD(1) dma_lock_unlock by blast

lemma dma_ok_make:
  assumes "dma_idle s" "dma_locks s' = dma_locks s" "dma_bad s' = dma_bad s" "dma_mask s' = dma_mask s"
    "dma_rows_ok (dma_rows s') (dma_bitmap s') (fence_calls s')"
  shows "dma_ok s'"
  using assms by (simp add: dma_ok_def dma_idle_def)

lemma signal_fence_lock:
  assumes "fence_law e" "\<not> dma_mask s" "dma_rows_ok (dma_rows s) (dma_bitmap s) (fence_calls s)"
  shows "fst (dma_fence_signal_fence e f st (dma_lock i s)) =
    dma_lock i (if fence_signaled f (fence_calls s) then s else signal_device e f st s)"
  using assms by (simp add: signal_fence_eq)

lemma dma_ok_call: "dma_ok s \<Longrightarrow> \<not> adds_callback c \<Longrightarrow> dma_ok (fence_call c s)"
  by (simp add: dma_ok_def dma_idle_def table_ok_call)

text \<open>The search in the table.\<close>

definition dma_lookup :: "int \<Rightarrow> 'f dma_device \<Rightarrow> nat option" where
  "dma_lookup fd s = find (\<lambda>i. in_use (dma_rows s i) \<and> df_fd (dma_rows s i) = fd) [0..<CAM_DMA_FENCE_MAX_FENCES]"

lemma find_in_table:
  "dma_ok s \<Longrightarrow> dma_fence_find_fence_in_table fd s = (s, map_option (\<lambda>i. (i, df_fence (dma_rows s i))) (dma_lookup fd s))"
  using dma_find_eq [of s fd "[0..<CAM_DMA_FENCE_MAX_FENCES]"] dma_okD(1) [of s]
  by (auto simp: dma_fence_find_fence_in_table_def dma_lookup_def intro: prod_eqI)

lemma lookup_Some: "dma_lookup fd s = Some i \<Longrightarrow> in_use (dma_rows s i) \<and> df_fd (dma_rows s i) = fd \<and> i < CAM_DMA_FENCE_MAX_FENCES"
  by (auto simp: dma_lookup_def find_Some_iff)

lemma get_put_eq:
  assumes "dma_ok s" "\<not> dma_idx_invalid idx" "df_fence (dma_rows s (nat idx)) = Some f"
  shows "cam_dma_fence_get_put_ref b idx s = (fence_call (if b then Fence_Get f else Fence_Put f) s, Inr ())"
  using assms dma_okD(1) [OF assms(1)] dma_rows_okD(8) [OF dma_okD(2) [OF assms(1)], of "nat idx"]
  by (simp add: cam_dma_fence_get_put_ref_def Let_def dma_lock_unlock)

lemma get_put_invalid:
  assumes "dma_ok s" "dma_idx_invalid idx \<or> df_fence (dma_rows s (nat idx)) = None"
  shows "cam_dma_fence_get_put_ref b idx s = (s, Inl EINVAL)"
  using assms dma_okD(1) [OF assms(1)] dma_rows_okD(8) [OF dma_okD(2) [OF assms(1)], of "nat idx"]
  by (auto simp: cam_dma_fence_get_put_ref_def Let_def dma_lock_unlock)

lemma ok_get_put: "dma_ok s \<Longrightarrow> dma_ok (fst (cam_dma_fence_get_put_ref b idx s))"
  using get_put_eq [of s idx _ b] get_put_invalid [of s idx b] dma_ok_call [of s]
  by (cases "df_fence (dma_rows s (nat idx))"; cases "dma_idx_invalid idx") auto

text \<open>The signal of a row, for its sync object: the row's callback is taken off first.\<close>

abbreviation flag_row :: "nat \<Rightarrow> 'f dma_device \<Rightarrow> 'f dma_device" where
  "flag_row i s \<equiv> upd_dma_row i (\<lambda>r. r\<lparr>sync_signal_dma := True\<rparr>) s"

definition unregistered :: "nat \<Rightarrow> 'f dma_device \<Rightarrow> 'f dma_device" where
  "unregistered i s = (if cb_registered_for_sync (dma_rows s i)
     then fence_call (Fence_Remove_Callback (the (df_fence (dma_rows s i))) i) s else s)"

definition fence_signaled_by_row :: "fence_env \<Rightarrow> nat \<Rightarrow> nat \<Rightarrow> errno + unit \<Rightarrow> 'f dma_device \<Rightarrow> 'f dma_device" where
  "fence_signaled_by_row e i f st s =
     upd_dma_row i (\<lambda>r. r\<lparr>df_state := CAM_DMA_FENCE_STATE_SIGNALED\<rparr>)
       (if fence_signaled f (fence_calls s) then s else signal_device e f st s)"

lemma table_flag: "dma_rows_ok (dma_rows s) (dma_bitmap s) (fence_calls s) \<Longrightarrow>
    dma_rows_ok (dma_rows (flag_row i s)) (dma_bitmap s) (fence_calls s)"
  by (auto intro: table_ok_same)

lemma table_unregistered: "dma_rows_ok (dma_rows s) (dma_bitmap s) (fence_calls s) \<Longrightarrow>
    dma_rows_ok (dma_rows (unregistered i s)) (dma_bitmap (unregistered i s)) (fence_calls (unregistered i s))"
  by (auto simp: unregistered_def intro: table_ok_call)

lemma unregistered_proj [simp]:
  "dma_rows (unregistered i s) = dma_rows s" "dma_bitmap (unregistered i s) = dma_bitmap s" "dma_locks (unregistered i s) = dma_locks s"
  "dma_mask (unregistered i s) = dma_mask s" "dma_bad (unregistered i s) = dma_bad s" "sync_cb_calls (unregistered i s) = sync_cb_calls s"
  "unregistered i (dma_lock j s) = dma_lock j (unregistered i s)"
  by (simp_all add: unregistered_def)

lemma internal_signal_eq:
  assumes law: "fence_law e" and ok: "dma_ok s" and i: "\<not> dma_idx_invalid idx" "i = nat idx"
  shows "cam_dma_fence_internal_signal e idx st s =
    (case df_fence (dma_rows s i) of
       None \<Rightarrow> (flag_row i s, Inl EINVAL)
     | Some f \<Rightarrow>
        if df_state (dma_rows s i) = CAM_DMA_FENCE_STATE_SIGNALED then (flag_row i s, Inr ())
        else if cb_registered_for_sync (dma_rows s i) \<and> i \<notin> set (pending f (fence_calls s)) then (flag_row i s, Inl EINVAL)
        else (fence_signaled_by_row e i f st (unregistered i (flag_row i s)), Inr ()))"
proof -
  note off = dma_okD(1) [OF ok]
  have u: "dma_unlock i (dma_lock i x) = x" if "dma_locks x = dma_locks s" for x using off that by (simp add: dma_lock_unlock)
  have t: "dma_rows_ok (dma_rows (unregistered i (flag_row i s))) (dma_bitmap (unregistered i (flag_row i s)))
      (fence_calls (unregistered i (flag_row i s)))"
    by (rule table_unregistered) (use table_flag [OF dma_okD(2) [OF ok]] in simp)
  note sl = signal_fence_lock [OF law _ t, of _ st i]
  show ?thesis
    using i(1) off sl
    by (auto simp: cam_dma_fence_internal_signal_def Let_def i(2) [symmetric] u fence_lawD(5) [OF law] unregistered_def
        fence_signaled_by_row_def split: option.splits)
qed

lemma fence_signaled_by_row_proj [simp]:
  "dma_bitmap (fence_signaled_by_row e i f st s) = dma_bitmap s" "dma_locks (fence_signaled_by_row e i f st s) = dma_locks s"
  "dma_mask (fence_signaled_by_row e i f st s) = dma_mask s" "dma_bad (fence_signaled_by_row e i f st s) = dma_bad s"
  by (simp_all add: fence_signaled_by_row_def)

lemma table_signaled_by_row:
  assumes "dma_rows_ok (dma_rows s) (dma_bitmap s) (fence_calls s)" "in_use (dma_rows s i)"
  shows "dma_rows_ok (dma_rows (fence_signaled_by_row e i f st s)) (dma_bitmap s) (fence_calls (fence_signaled_by_row e i f st s))"
  using assms signal_device_table [OF assms(1), of e f st]
  by (auto simp: fence_signaled_by_row_def deliver_rows_def intro!: table_ok_same)

lemma ok_internal_signal:
  assumes law: "fence_law e" and ok: "dma_ok s"
  shows "dma_ok (fst (cam_dma_fence_internal_signal e idx st s))"
proof (cases "dma_idx_invalid idx")
  case True
  then show ?thesis using ok by (simp add: cam_dma_fence_internal_signal_def)
next
  case False
  define i where "i = nat idx"
  note T = dma_okD(2) [OF ok]
  have idle: "dma_idle s" using ok by (simp add: dma_ok_def)
  have fl: "dma_ok (flag_row i s)" using table_flag [OF T, of i] by (intro dma_ok_make [OF idle]) simp_all
  have "dma_ok (fence_signaled_by_row e i f st (unregistered i (flag_row i s)))" if "df_fence (dma_rows s i) = Some f" for f
  proof (rule dma_ok_make [OF idle])
    have "in_use (dma_rows (unregistered i (flag_row i s)) i)" using that dma_rows_okD(8) [OF T, of i] by simp
    then show "dma_rows_ok (dma_rows (fence_signaled_by_row e i f st (unregistered i (flag_row i s))))
        (dma_bitmap (fence_signaled_by_row e i f st (unregistered i (flag_row i s))))
        (fence_calls (fence_signaled_by_row e i f st (unregistered i (flag_row i s))))"
      using table_signaled_by_row [OF table_unregistered [of "flag_row i s" i]] table_flag [OF T, of i] by simp
  qed simp_all
  then show ?thesis using fl by (auto simp: internal_signal_eq [OF law ok False i_def] split: option.splits)
qed

lemma ok_signal_fd: "fence_law e \<Longrightarrow> dma_ok s \<Longrightarrow> dma_ok (fst (cam_dma_fence_signal_fd e fd st s))"
  by (auto simp: cam_dma_fence_signal_fd_def find_in_table ok_internal_signal split: option.splits)

text \<open>A new row.\<close>

definition free_row :: "'f dma_device \<Rightarrow> nat" where
  "free_row s = find_first_zero_bit (dma_bitmap s) CAM_DMA_FENCE_MAX_FENCES"

definition take_row :: "nat \<Rightarrow> 'f dma_device \<Rightarrow> 'f dma_device" where
  "take_row i s = s\<lparr>dma_bitmap := (dma_bitmap s)(i := True)\<rparr>"

definition new_row :: "string \<Rightarrow> nat \<Rightarrow> int \<Rightarrow> bool \<Rightarrow> 'f cam_dma_fence_row \<Rightarrow> 'f cam_dma_fence_row" where
  "new_row name f fd ext r = r\<lparr>df_fence := Some f, df_fd := fd, df_state := CAM_DMA_FENCE_STATE_ACTIVE, df_ext := ext,
     df_name := take (CAM_DMA_FENCE_NAME_LEN - 1) name\<rparr>"

lemma take_row_proj [simp]:
  "dma_rows (take_row i s) = dma_rows s" "dma_bitmap (take_row i s) = (dma_bitmap s)(i := True)" "dma_locks (take_row i s) = dma_locks s"
  "dma_mask (take_row i s) = dma_mask s" "dma_bad (take_row i s) = dma_bad s" "fence_calls (take_row i s) = fence_calls s"
  "sync_cb_calls (take_row i s) = sync_cb_calls s" "dma_seq_no (take_row i s) = dma_seq_no s"
  by (simp_all add: take_row_def)

lemma print_eq:
  "dma_ok s \<Longrightarrow> dma_print_loop is s = s"
proof (induction "is")
  case (Cons i "is")
  then show ?case using dma_ok_lock_unlock [of s i] dma_rows_okD(8) [OF dma_okD(2) [OF Cons.prems], of i]
    by (simp add: Let_def)
qed simp

lemma find_free_eq:
  "dma_ok s \<Longrightarrow> dma_fence_find_free_idx s =
    (if free_row s < CAM_DMA_FENCE_MAX_FENCES then (take_row (free_row s) s, Inr (free_row s)) else (s, Inl ENOMEM))"
  by (simp add: dma_fence_find_free_idx_def free_row_def take_row_def Let_def print_eq)

lemma dma_init_row_eq:
  "dma_idle s \<Longrightarrow> dma_fence_init_row name f fd i ext s = upd_dma_row i (new_row name f fd ext) s"
  by (simp add: dma_fence_init_row_def dma_idle_def dma_lock_unlock new_row_def [abs_def])

lemma free_row_clear: "free_row s < CAM_DMA_FENCE_MAX_FENCES \<Longrightarrow> \<not> dma_bitmap s (free_row s)"
  by (simp add: free_row_def ffz_clear)

lemma new_row_table:
  assumes "dma_rows_ok (dma_rows s) (dma_bitmap s) (fence_calls s)" "free_row s < CAM_DMA_FENCE_MAX_FENCES"
  shows "dma_rows_ok ((dma_rows s)(free_row s := new_row name f fd ext (dma_rows s (free_row s))))
    ((dma_bitmap s)(free_row s := True)) (fence_calls s)"
  by (rule table_ok_init [OF assms(1) free_row_clear [OF assms(2)] assms(2)]) (simp_all add: new_row_def)

lemma free_row_call [simp]: "free_row (fence_call c s) = free_row s"
  by (simp add: free_row_def)

lemma idle_proj [simp]: "dma_idle (fence_call c s) = dma_idle s" "dma_idle (take_row i s) = dma_idle s"
  by (simp_all add: dma_idle_def)

lemma from_sync_file_eq:
  assumes "dma_ok s"
  shows "cam_dma_fence_get_fence_from_sync_file e fd s =
    (case sync_file_get_fence e (fence_calls s) fd of
       None \<Rightarrow> (s, None, Inl EINVAL)
     | Some f \<Rightarrow>
        if free_row s < CAM_DMA_FENCE_MAX_FENCES
        then (upd_dma_row (free_row s) (new_row (fence_driver_name e f) f fd True) (take_row (free_row s) (fence_call (Fence_Get f) s)),
              Some (free_row s), Inr (Some f))
        else (fence_call (Fence_Put f) (fence_call (Fence_Get f) s), None, Inr None))"
  using dma_ok_call [OF assms, of "Fence_Get f" for f]
  by (auto simp: cam_dma_fence_get_fence_from_sync_file_def find_free_eq dma_init_row_eq dma_ok_def split: option.splits)

lemma from_fd_eq:
  assumes "dma_ok s"
  shows "cam_dma_fence_get_fence_from_fd e fd s =
    (case dma_lookup fd s of
       Some i \<Rightarrow> (fence_call (Fence_Get (the (df_fence (dma_rows s i)))) s, Some i, Inr (df_fence (dma_rows s i)))
     | None \<Rightarrow> cam_dma_fence_get_fence_from_sync_file e fd s)"
proof (cases "dma_lookup fd s")
  case None
  then show ?thesis by (simp add: cam_dma_fence_get_fence_from_fd_def find_in_table [OF assms])
next
  case (Some i)
  obtain f where "df_fence (dma_rows s i) = Some f"
    using lookup_Some [OF Some] dma_rows_okD(8) [OF dma_okD(2) [OF assms], of i] by blast
  then show ?thesis using Some lookup_Some [OF Some] dma_okD(1) [OF assms]
    by (simp add: cam_dma_fence_get_fence_from_fd_def find_in_table [OF assms] Let_def dma_lock_unlock)
qed

lemma ok_new_row:
  assumes "dma_ok s" "free_row s < CAM_DMA_FENCE_MAX_FENCES"
  shows "dma_ok (upd_dma_row (free_row s) (new_row name f fd ext) (take_row (free_row s) s))"
  by (rule dma_ok_make [of s]) (use assms new_row_table [OF dma_okD(2) [OF assms(1)] assms(2)] in \<open>simp_all add: dma_ok_def\<close>)

lemma ok_from_sync_file:
  assumes "dma_ok s"
  shows "dma_ok (fst (cam_dma_fence_get_fence_from_sync_file e fd s))"
proof (cases "sync_file_get_fence e (fence_calls s) fd")
  case None
  then show ?thesis using assms by (simp add: from_sync_file_eq)
next
  case (Some f)
  have g: "dma_ok (fence_call (Fence_Get f) s)" using assms by (rule dma_ok_call) simp
  then have "dma_ok (fence_call (Fence_Put f) (fence_call (Fence_Get f) s))" by (rule dma_ok_call) simp
  moreover have "free_row s < CAM_DMA_FENCE_MAX_FENCES \<Longrightarrow>
      dma_ok (upd_dma_row (free_row s) (new_row n f fd True) (take_row (free_row s) (fence_call (Fence_Get f) s)))" for n
    using ok_new_row [OF g] by simp
  ultimately show ?thesis using Some by (simp add: from_sync_file_eq [OF assms])
qed

lemma ok_from_fd:
  assumes "dma_ok s"
  shows "dma_ok (fst (cam_dma_fence_get_fence_from_fd e fd s))"
proof (cases "dma_lookup fd s")
  case None
  then show ?thesis using ok_from_sync_file [OF assms] by (simp add: from_fd_eq [OF assms])
next
  case (Some i)
  then show ?thesis using dma_ok_call [OF assms, of "Fence_Get f" for f] by (simp add: from_fd_eq [OF assms])
qed

text \<open>Registration.\<close>

definition registered_row :: "int \<Rightarrow> 'f \<Rightarrow> 'f cam_dma_fence_row \<Rightarrow> 'f cam_dma_fence_row" where
  "registered_row obj cb r = r\<lparr>fence_cb_func := True, cb_registered_for_sync := True, df_sync_obj := obj, df_sync_cb := Some cb\<rparr>"

lemma register_cb_eq:
  assumes law: "fence_law e" and ok: "dma_ok s" and i: "\<not> dma_idx_invalid idx" "i = nat idx" and f: "df_fence (dma_rows s i) = Some f"
  shows "cam_dma_fence_register_cb e (Some obj) (Some idx) (Some cb) s =
    (if df_state (dma_rows s i) \<noteq> CAM_DMA_FENCE_STATE_ACTIVE then (s, Inl EINVAL)
     else if cb_registered_for_sync (dma_rows s i) then (s, Inr ())
     else if fence_signaled f (fence_calls s) then (s, Inl ENOENT)
     else (upd_dma_row i (registered_row obj cb) (fence_call (Fence_Add_Callback f i) s), Inr ()))"
proof -
  note off = dma_okD(1) [OF ok]
  have u: "dma_unlock i (dma_lock i x) = x" if "dma_locks x = dma_locks s" for x using off that by (simp add: dma_lock_unlock)
  have "upd_dma_row i (\<lambda>r. r\<lparr>cb_registered_for_sync := True, df_sync_obj := obj, df_sync_cb := Some cb\<rparr>)
      (upd_dma_row i (\<lambda>r. r\<lparr>fence_cb_func := True\<rparr>) x) = upd_dma_row i (registered_row obj cb) x" for x
    by (simp add: upd_dma_row_def registered_row_def)
  then show ?thesis using off i(1) f
    by (simp add: cam_dma_fence_register_cb_def Let_def i(2) [symmetric] u fence_lawD(4) [OF law])
qed

lemma ok_register:
  assumes law: "fence_law e" and ok: "dma_ok s" and f: "\<And>idx. idxo = Some idx \<Longrightarrow> \<not> dma_idx_invalid idx \<Longrightarrow> df_fence (dma_rows s (nat idx)) \<noteq> None"
  shows "dma_ok (fst (cam_dma_fence_register_cb e obj idxo cb s))"
proof (cases "\<exists>o' idx c. obj = Some o' \<and> idxo = Some idx \<and> cb = Some c \<and> \<not> dma_idx_invalid idx")
  case False
  then show ?thesis using ok by (auto simp: cam_dma_fence_register_cb_def split: option.splits)
next
  case True
  then obtain o' idx c where a: "obj = Some o'" "idxo = Some idx" "cb = Some c" "\<not> dma_idx_invalid idx" by blast
  define i where "i = nat idx"
  obtain g where g: "df_fence (dma_rows s i) = Some g" using f [OF a(2,4)] i_def by blast
  have "dma_ok (upd_dma_row i (registered_row o' c) (fence_call (Fence_Add_Callback g i) s))"
    if "df_state (dma_rows s i) = CAM_DMA_FENCE_STATE_ACTIVE" "\<not> cb_registered_for_sync (dma_rows s i)" "\<not> fence_signaled g (fence_calls s)"
    by (rule dma_ok_make [of s], use ok in \<open>simp add: dma_ok_def\<close>)
      (use that g in \<open>auto intro!: table_ok_register [OF dma_okD(2) [OF ok]] simp: registered_row_def\<close>)
  then show ?thesis using ok a(1-3) by (auto simp: register_cb_eq [OF law ok a(4) i_def g])
qed

text \<open>Creation.\<close>

lemma table_ok_calls: "dma_rows_ok R bm tr \<Longrightarrow> \<forall>c\<in>set cs. \<not> adds_callback c \<Longrightarrow> dma_rows_ok R bm (tr @ cs)"
proof (induction cs rule: rev_induct)
  case (snoc c cs)
  then show ?case using table_ok_call [of R bm "tr @ cs" c] by simp
qed simp

text \<open>
  Up to memory, sequence numbers and calls that neither touch callbacks nor start a fence that is in use, a device is as before; a row
  may have been taken.
\<close>

definition quiet :: "fence_call list \<Rightarrow> fence_call \<Rightarrow> bool" where
  "quiet tr c \<longleftrightarrow> \<not> adds_callback c \<and> (\<forall>f i. c \<noteq> Fence_Remove_Callback f i) \<and>
     (\<forall>f n. c = Fence_Init f n \<longrightarrow> (\<forall>d\<in>set tr. f \<notin> fences_of d))"

definition dma_along :: "'f dma_device \<Rightarrow> 'f dma_device \<Rightarrow> bool" where
  "dma_along s s' \<longleftrightarrow> dma_rows s' = dma_rows s \<and> dma_locks s' = dma_locks s \<and> dma_mask s' = dma_mask s \<and> dma_bad s' = dma_bad s \<and>
     dma_bitmap s' = dma_bitmap s \<and> sync_cb_calls s' = sync_cb_calls s \<and>
     (\<exists>cs. fence_calls s' = fence_calls s @ cs \<and> (\<forall>c\<in>set cs. quiet (fence_calls s) c))"

lemma along_refl [simp]: "dma_along s s"
  by (simp add: dma_along_def)

lemma along_alloc: "dma_along s t \<Longrightarrow> dma_along s (snd (next_dma_alloc t))"
  by (auto simp: dma_along_def next_dma_alloc_def split: list.splits)

lemma along_call: "dma_along s t \<Longrightarrow> quiet (fence_calls s) c \<Longrightarrow> dma_along s (fence_call c t)"
  by (auto simp: dma_along_def)

lemma along_seq: "dma_along s t \<Longrightarrow> dma_along s (t\<lparr>dma_seq_no := n\<rparr>)"
  by (simp add: dma_along_def)

lemma along_idle: "dma_along s t \<Longrightarrow> dma_idle t = dma_idle s"
  by (simp add: dma_along_def dma_idle_def)

definition dma_sound :: "'f dma_device \<Rightarrow> bool" where
  "dma_sound s \<longleftrightarrow> dma_ok s \<and> live_ok (dma_rows s) (fence_calls s)"

lemma quiet_spares: "live_ok R tr \<Longrightarrow> quiet tr c \<Longrightarrow> spares R c"
  using live_okD(1) by (fastforce simp: quiet_def spares_def)

lemma along_sound:
  assumes "dma_sound s" "\<not> dma_bitmap s i" "dma_along (take_row i s) t"
  shows "dma_rows_ok (dma_rows s) (dma_bitmap s) (fence_calls t)" "live_ok (dma_rows s) (fence_calls t)"
proof -
  obtain cs where cs: "fence_calls t = fence_calls s @ cs" "\<forall>c\<in>set cs. quiet (fence_calls s) c"
    using assms(3) by (auto simp: dma_along_def)
  have ok: "dma_ok s" and live: "live_ok (dma_rows s) (fence_calls s)" using assms(1) by (simp_all add: dma_sound_def)
  show "dma_rows_ok (dma_rows s) (dma_bitmap s) (fence_calls t)"
    using table_ok_calls [OF dma_okD(2) [OF ok]] cs by (simp add: quiet_def)
  show "live_ok (dma_rows s) (fence_calls t)"
    using live_calls [OF live] quiet_spares [OF live] cs by simp
qed

lemma along_free:
  assumes "dma_sound s" "\<not> dma_bitmap s i" "dma_along (take_row i s) t"
  shows "dma_sound (dma_free_idx i t)"
  using along_sound [OF assms] assms
  by (auto simp: dma_sound_def dma_along_def dma_ok_def dma_idle_def fun_upd_idem)

lemma along_init:
  assumes "dma_sound s" "free_row s < CAM_DMA_FENCE_MAX_FENCES" "dma_along (take_row (free_row s) s) t"
    "\<exists>c\<in>set (fence_calls t). f \<in> fences_of c"
  shows "dma_sound (dma_fence_init_row name f fd (free_row s) ext t)"
proof -
  note so = along_sound [OF assms(1) free_row_clear [OF assms(2)] assms(3)]
  let ?t = "upd_dma_row (free_row s) (new_row name f fd ext) t"
  have t: "dma_rows t = dma_rows s" "dma_bitmap t = (dma_bitmap s)(free_row s := True)" using assms(3) by (simp_all add: dma_along_def)
  have idle: "dma_idle t" using along_idle [OF assms(3)] assms(1) by (simp add: dma_ok_def dma_sound_def)
  have "\<not> cb_registered_for_sync (dma_rows s (free_row s))"
    using free_row_clear [OF assms(2)] dma_rows_okD(1) [OF so(1)] dma_rows_okD(3,9) [OF so(1), of "free_row s"] by (cases "free_row s") auto
  then have "live_ok (dma_rows ?t) (fence_calls ?t)"
    using live_new [OF so(2) _ assms(4)] by (simp add: t new_row_def)
  moreover have "dma_ok ?t"
    by (rule dma_ok_make [OF idle])
      (use table_ok_init [OF so(1) free_row_clear [OF assms(2)] assms(2)] in \<open>simp_all add: t new_row_def\<close>)
  ultimately show ?thesis using dma_init_row_eq [OF idle] by (simp add: dma_sound_def)
qed

lemma sound_get_fd:
  assumes law: "fence_law e" and sound: "dma_sound s"
  shows "dma_sound (fst (dma_fence_get_fd e name s))"
proof (cases "free_row s < CAM_DMA_FENCE_MAX_FENCES")
  case False
  then show ?thesis using sound by (simp add: dma_fence_get_fd_def find_free_eq dma_sound_def)
next
  case True
  define i where "i = free_row s"
  have ok: "dma_ok s" using sound by (simp add: dma_sound_def)
  note free = along_free [OF sound free_row_clear [OF True], folded i_def]
  note init = along_init [OF sound True, folded i_def]
  obtain b1 s1 where a1: "next_dma_alloc (take_row i s) = (b1, s1)" by fastforce
  obtain b2 s2 where a2: "next_dma_alloc s1 = (b2, s2)" by fastforce
  have l1: "dma_along (take_row i s) s1" using along_alloc [of "take_row i s" "take_row i s"] a1 by simp
  have l2: "dma_along (take_row i s) s2" using along_alloc [OF l1] a2 by simp
  have c2: "fence_calls s2 = fence_calls s" using a1 a2 by (auto simp: next_dma_alloc_def split: list.splits)
  let ?f = "new_fence e (fence_calls s2)"
  let ?s3 = "fence_call (Fence_Init ?f (dma_seq_no s2 + 1)) (s2\<lparr>dma_seq_no := dma_seq_no s2 + 1\<rparr>)"
  have l3: "dma_along (take_row i s) ?s3"
    by (intro along_call along_seq l2) (use fence_lawD(7) [OF law] in \<open>auto simp: quiet_def c2\<close>)
  let ?fd = "unused_fd e (fence_calls ?s3)"
  let ?s4 = "fence_call (Get_Unused_Fd ?fd) ?s3"
  have l4: "dma_along (take_row i s) ?s4" by (intro along_call l3) (simp add: quiet_def)
  have l5: "dma_along (take_row i s) (fence_call (Fence_Put ?f) ?s3)" by (intro along_call l3) (simp add: quiet_def)
  have l6: "dma_along (take_row i s) (fence_call (Fence_Put ?f) (fence_call (Put_Unused_Fd ?fd) ?s4))"
    by (intro along_call l4) (simp_all add: quiet_def)
  have l7: "dma_along (take_row i s) (fence_call (Fd_Install ?fd ?f) (fence_call (Sync_File_Create ?f) ?s4))"
    by (intro along_call l4) (simp_all add: quiet_def)
  have used: "\<exists>c\<in>set (fence_calls (fence_call (Fd_Install ?fd ?f) (fence_call (Sync_File_Create ?f) ?s4))). ?f \<in> fences_of c"
    by simp
  show ?thesis
    using True by (simp add: dma_fence_get_fd_def find_free_eq [OF ok] i_def [symmetric] a1 a2 Let_def free [OF l1] free [OF l2]
        free [OF l5] free [OF l6] init [OF l7 used] del: dma_proj)
qed

lemma sound_create: "fence_law e \<Longrightarrow> dma_sound s \<Longrightarrow> dma_sound (fst (cam_dma_fence_create_fd e out_ok name s))"
  using sound_get_fd [of e s name] by (auto simp: cam_dma_fence_create_fd_def split: prod.splits)

text \<open>Release: the row is cleared and its reference to the fence given back.\<close>

definition cleared :: "nat \<Rightarrow> nat \<Rightarrow> 'f dma_device \<Rightarrow> 'f dma_device" where
  "cleared i f s = dma_free_idx i (upd_dma_row i (\<lambda>_. zero_dma_row) (fence_call (Fence_Put f) s))"

lemma cleared_proj [simp]:
  "dma_rows (cleared i f s) = (dma_rows s)(i := zero_dma_row)" "dma_bitmap (cleared i f s) = (dma_bitmap s)(i := False)"
  "dma_locks (cleared i f s) = dma_locks s" "dma_mask (cleared i f s) = dma_mask s" "dma_bad (cleared i f s) = dma_bad s"
  "fence_calls (cleared i f s) = fence_calls s @ [Fence_Put f]" "sync_cb_calls (cleared i f s) = sync_cb_calls s"
  "cleared i f (dma_lock j s) = dma_lock j (cleared i f s)"
  by (simp_all add: cleared_def)

definition signaled_once :: "fence_env \<Rightarrow> nat \<Rightarrow> errno + unit \<Rightarrow> 'f dma_device \<Rightarrow> 'f dma_device" where
  "signaled_once e f st s = (if fence_signaled f (fence_calls s) then s else signal_device e f st s)"

lemma signaled_once_proj [simp]:
  "dma_bitmap (signaled_once e f st s) = dma_bitmap s" "dma_locks (signaled_once e f st s) = dma_locks s"
  "dma_mask (signaled_once e f st s) = dma_mask s" "dma_bad (signaled_once e f st s) = dma_bad s"
  by (simp_all add: signaled_once_def)

lemma signaled_once_table:
  "dma_rows_ok (dma_rows s) (dma_bitmap s) (fence_calls s) \<Longrightarrow>
   dma_rows_ok (dma_rows (signaled_once e f st s)) (dma_bitmap s) (fence_calls (signaled_once e f st s)) \<and>
   pending f (fence_calls (signaled_once e f st s)) = []"
  using dma_rows_okD(10) [of "dma_rows s" "dma_bitmap s" "fence_calls s" f] by (simp add: signaled_once_def signal_device_table del: signal_device_proj(1,2)) simp

lemma table_cleared:
  assumes "dma_rows_ok (dma_rows s) (dma_bitmap s) (fence_calls s)" "df_fence (dma_rows s i) = Some f" "i \<notin> set (pending f (fence_calls s))"
  shows "dma_rows_ok (dma_rows (cleared i f s)) (dma_bitmap (cleared i f s)) (fence_calls (cleared i f s))"
proof -
  have "0 < i" using dma_rows_okD(4,8) [OF assms(1), of i] assms(2) by simp
  moreover have "i \<notin> set (pending g (fence_calls s))" for g using dma_rows_okD(7) [OF assms(1), of i g] assms(2,3) by auto
  ultimately show ?thesis using table_ok_call [OF table_ok_clear [OF assms(1)], of i "Fence_Put f"] by simp
qed

lemma release_row_eq:
  assumes law: "fence_law e" and ok: "dma_ok s" and f: "df_fence (dma_rows s i) = Some f"
  shows "dma_fence_release_row e i s =
    (cleared i f (if df_ext (dma_rows s i) then s else signaled_once e f (Inl ECANCELED) s), Inr ())"
proof -
  note off = dma_okD(1) [OF ok]
  note T = dma_okD(2) [OF ok]
  have use: "in_use (dma_rows s i)" using dma_rows_okD(8) [OF T, of i] f by simp
  have u: "dma_unlock i (dma_lock i x) = x" if "dma_locks x = dma_locks s" for x using off that by (simp add: dma_lock_unlock)
  have c: "dma_free_idx i (upd_dma_row i (\<lambda>_. zero_dma_row) (fence_call (Fence_Put f) x)) = cleared i f x" for x by (simp add: cleared_def)
  have sl: "fst (dma_fence_signal_fence e f st (dma_lock i s)) = dma_lock i (signaled_once e f st s)" for st
    unfolding signaled_once_def by (rule signal_fence_lock [OF law _ T]) (use off in simp)
  show ?thesis
    using off use f by (simp add: dma_fence_release_row_def Let_def sl c u del: dma_dev_over_lock)
qed

lemma release_row_free: "dma_ok s \<Longrightarrow> df_fence (dma_rows s i) = None \<Longrightarrow> dma_fence_release_row e i s = (s, Inl EINVAL)"
  using dma_rows_okD(8) [OF dma_okD(2), of s i] dma_okD(1) [of s] by (simp add: dma_fence_release_row_def Let_def dma_lock_unlock)

text \<open>A row may be released if no callback of it is left: that of a fence of the driver is run by the release itself.\<close>

definition may_release :: "nat \<Rightarrow> 'f dma_device \<Rightarrow> bool" where
  "may_release i s \<longleftrightarrow> \<not> df_ext (dma_rows s i) \<or> (\<forall>f. i \<notin> set (pending f (fence_calls s)))"

lemma ok_release_row:
  assumes law: "fence_law e" and ok: "dma_ok s" and m: "may_release i s"
  shows "dma_ok (fst (dma_fence_release_row e i s))"
proof (cases "df_fence (dma_rows s i)")
  case None
  then show ?thesis using ok by (simp add: release_row_free)
next
  case (Some f)
  let ?s = "if df_ext (dma_rows s i) then s else signaled_once e f (Inl ECANCELED) s"
  note so = signaled_once_table [OF dma_okD(2) [OF ok], of e f "Inl ECANCELED"]
  have "dma_ok (cleared i f ?s)"
  proof (rule dma_ok_make [of s])
    show "dma_rows_ok (dma_rows (cleared i f ?s)) (dma_bitmap (cleared i f ?s)) (fence_calls (cleared i f ?s))"
      by (rule table_cleared)
        (use so dma_okD(2) [OF ok] Some m in \<open>auto simp: may_release_def signaled_once_def\<close>)
  qed (use ok in \<open>auto simp: dma_ok_def\<close>)
  then show ?thesis by (simp add: release_row_eq [OF law ok Some])
qed

text \<open>The row that a release is about.\<close>

definition released_row :: "int + int \<Rightarrow> 'f dma_device \<Rightarrow> nat option" where
  "released_row p s = (case p of Inl idx \<Rightarrow> if dma_idx_invalid idx then None else Some (nat idx) | Inr fd \<Rightarrow> dma_lookup fd s)"

lemma release_eq:
  assumes "dma_ok s"
  shows "cam_dma_fence_release e p s = (case released_row p s of None \<Rightarrow> (s, Inl EINVAL) | Some i \<Rightarrow> dma_fence_release_row e i s)"
proof (cases p)
  case (Inr fd)
  show ?thesis
  proof (cases "dma_lookup fd s")
    case (Some i)
    obtain f where "df_fence (dma_rows s i) = Some f"
      using lookup_Some [OF Some] dma_rows_okD(8) [OF dma_okD(2) [OF assms], of i] by blast
    then show ?thesis using Some Inr by (simp add: cam_dma_fence_release_def dma_fence_release_fd_def released_row_def find_in_table [OF assms])
  qed (simp add: Inr cam_dma_fence_release_def dma_fence_release_fd_def released_row_def find_in_table [OF assms])
qed (simp add: cam_dma_fence_release_def released_row_def)

lemma ok_release:
  "fence_law e \<Longrightarrow> dma_ok s \<Longrightarrow> (\<And>i. released_row p s = Some i \<Longrightarrow> may_release i s) \<Longrightarrow> dma_ok (fst (cam_dma_fence_release e p s))"
  by (auto simp: release_eq ok_release_row split: option.splits)

text \<open>Closing the device.\<close>

lemma close_row_eq:
  assumes law: "fence_law e" and ok: "dma_ok s"
  shows "dma_close_row e i s =
    (case df_fence (dma_rows s i) of
       None \<Rightarrow> s
     | Some f \<Rightarrow>
        (let s1 = (if i \<in> set (pending f (fence_calls s)) then fence_call (Fence_Remove_Callback f i) s else s)
         in cleared i f (if df_ext (dma_rows s i) then s1 else signaled_once e f (Inl EADV) s1)))"
proof (cases "df_fence (dma_rows s i)")
  case None
  then show ?thesis using dma_rows_okD(8) [OF dma_okD(2) [OF ok], of i] dma_okD(1) [OF ok] by (simp add: dma_close_row_def Let_def dma_lock_unlock)
next
  case (Some f)
  note off = dma_okD(1) [OF ok]
  note T = dma_okD(2) [OF ok]
  define s1 where "s1 = (if i \<in> set (pending f (fence_calls s)) then fence_call (Fence_Remove_Callback f i) s else s)"
  have use: "in_use (dma_rows s i)" using dma_rows_okD(8) [OF T, of i] Some by simp
  have u: "dma_unlock i (dma_lock i x) = x" if "dma_locks x = dma_locks s" for x using off that by (simp add: dma_lock_unlock)
  have c: "dma_free_idx i (upd_dma_row i (\<lambda>_. zero_dma_row) (fence_call (Fence_Put f) x)) = cleared i f x" for x by (simp add: cleared_def)
  have T1: "dma_rows_ok (dma_rows s1) (dma_bitmap s1) (fence_calls s1)" using T by (auto simp: s1_def intro: table_ok_call)
  have sl: "fst (dma_fence_signal_fence e f st (dma_lock i s1)) = dma_lock i (signaled_once e f st s1)" for st
    unfolding signaled_once_def by (rule signal_fence_lock [OF law _ T1]) (use off in \<open>simp add: s1_def\<close>)
  have reg: "i \<in> set (pending f (fence_calls s)) \<Longrightarrow> cb_registered_for_sync (dma_rows s i)"
    using dma_rows_okD(7) [OF T, of i f] by simp
  have rm: "fence_call (Fence_Remove_Callback f i) (dma_lock i s) = dma_lock i s1" if "i \<in> set (pending f (fence_calls s))"
    using that by (simp add: s1_def)
  have keep: "s1 = s" if "i \<notin> set (pending f (fence_calls s))" using that by (simp add: s1_def)
  have u1: "dma_unlock i (cleared i f (dma_lock i s1)) = cleared i f s1"
    "dma_unlock i (cleared i f (dma_lock i (signaled_once e f st s1))) = cleared i f (signaled_once e f st s1)" for st
    by (simp_all add: u s1_def)
  have mask: "\<not> dma_mask s1" using off by (simp add: s1_def)
  note defs = dma_close_row_def Let_def c fence_lawD(5) [OF law]
  have "dma_close_row e i s = cleared i f (if df_ext (dma_rows s i) then s1 else signaled_once e f (Inl EADV) s1)"
  proof (cases "i \<in> set (pending f (fence_calls s))")
    case True
    then show ?thesis using off use Some mask reg by (simp add: defs rm sl u1 del: dma_dev_over_lock cleared_proj)
  next
    case False
    then show ?thesis using off use Some sl u1 by (simp add: defs keep del: dma_dev_over_lock cleared_proj)
  qed
  then show ?thesis using Some by (simp add: s1_def Let_def)
qed

lemma ok_close_row:
  assumes law: "fence_law e" and ok: "dma_ok s"
  shows "dma_ok (dma_close_row e i s)"
proof (cases "df_fence (dma_rows s i)")
  case None
  then show ?thesis using ok by (simp add: close_row_eq [OF law ok])
next
  case (Some f)
  define s1 where "s1 = (if i \<in> set (pending f (fence_calls s)) then fence_call (Fence_Remove_Callback f i) s else s)"
  let ?s = "if df_ext (dma_rows s i) then s1 else signaled_once e f (Inl EADV) s1"
  have s1: "dma_ok s1" "dma_rows s1 = dma_rows s" "i \<notin> set (pending f (fence_calls s1))" "dma_bitmap s1 = dma_bitmap s"
    "dma_locks s1 = dma_locks s" "dma_mask s1 = dma_mask s" "dma_bad s1 = dma_bad s"
    using ok by (auto simp: s1_def intro: dma_ok_call)
  note so = signaled_once_table [OF dma_okD(2) [OF s1(1)], of e f "Inl EADV"]
  have "dma_ok (cleared i f ?s)"
  proof (rule dma_ok_make [of s])
    show "dma_rows_ok (dma_rows (cleared i f ?s)) (dma_bitmap (cleared i f ?s)) (fence_calls (cleared i f ?s))"
      by (rule table_cleared) (use so dma_okD(2) [OF s1(1)] Some s1 in \<open>auto simp: signaled_once_def\<close>)
  qed (use ok s1 in \<open>auto simp: dma_ok_def\<close>)
  then have "dma_ok (let s1 = s1 in cleared i f (if df_ext (dma_rows s i) then s1 else signaled_once e f (Inl EADV) s1))"
    by simp
  then show ?thesis unfolding s1_def close_row_eq [OF law ok] using Some by simp
qed

lemma ok_close: "fence_law e \<Longrightarrow> dma_ok s \<Longrightarrow> dma_ok (cam_dma_fence_close e s)"
proof -
  assume law: "fence_law e" and "dma_ok s"
  then have "dma_ok (dma_close_rows e is s)" for "is" by (induction "is" arbitrary: s) (simp_all add: ok_close_row)
  then show ?thesis by (simp add: cam_dma_fence_close_def dma_ok_def dma_idle_def)
qed

lemma ok_open: "dma_ok s \<Longrightarrow> dma_ok (cam_dma_fence_open s)"
  by (simp add: cam_dma_fence_open_def Let_def dma_ok_def dma_idle_def)

lemma outside_eq:
  assumes "fence_law e" "dma_ok s"
  shows "fence_signaled_outside e f s = signaled_once e f (Inr ()) s"
  using signal_fence_eq [OF assms(1) _ dma_okD(2) [OF assms(2)], of f "Inr ()"] dma_okD(1) [OF assms(2)]
  by (auto simp: fence_signaled_outside_def dma_fence_signal_fence_def signaled_once_def fence_lawD(2) [OF assms(1)] split: if_splits)

lemma ok_outside: "fence_law e \<Longrightarrow> dma_ok s \<Longrightarrow> dma_ok (fence_signaled_outside e f s)"
  using signaled_once_table [OF dma_okD(2), of s e f "Inr ()"]
  by (simp add: outside_eq) (simp add: dma_ok_def dma_idle_def)

end
