(* ===== verification/Cam_Dma_Fence_Run.thy ===== *)
theory Cam_Dma_Fence_Run
  imports Cam_Dma_Fence_Correct
begin

text \<open>
  Runs of the table of DMA fences: sequences of requests, under the discipline that a callback is asked for only on a row with a fence and
  that no row is released with its callback still registered with a fence of another driver.
\<close>

section \<open>Registrations over the operations\<close>

lemma soundD: "dma_sound s \<Longrightarrow> dma_ok s" "dma_sound s \<Longrightarrow> live_ok (dma_rows s) (fence_calls s)"
  by (simp_all add: dma_sound_def)

lemma spares_simps [simp]: "spares R (Fence_Get f)" "spares R (Fence_Put f)" "spares R (Fence_Set_Error f er)" "spares R (Fence_Signal f)"
  by (simp_all add: spares_def)

lemma live_signal:
  assumes "live_ok R tr"
  shows "live_ok (deliver_rows ps R) (tr @ status_calls f st @ [Fence_Signal f])"
proof -
  have "live_ok R (tr @ (status_calls f st @ [Fence_Signal f]))"
    using assms by (rule live_calls) (auto simp: status_calls_def split: sum.splits)
  then show ?thesis by (rule live_rows) simp_all
qed

lemma live_signaled_once: "live_ok (dma_rows s) (fence_calls s) \<Longrightarrow> live_ok (dma_rows (signaled_once e f st s)) (fence_calls (signaled_once e f st s))"
  by (simp add: signaled_once_def live_signal)

text \<open>A callback is taken off and the fence signaled, or the row cleared.\<close>

lemma live_except:
  assumes "live_ok R tr"
  shows "df_fence (R j) = Some g \<Longrightarrow> \<exists>c\<in>set (tr @ [Fence_Remove_Callback f i]). g \<in> fences_of c"
    "df_fence (R j) = Some g \<Longrightarrow> cb_registered_for_sync (R j) \<Longrightarrow> g \<noteq> f \<or> j \<noteq> i \<Longrightarrow>
      fence_signaled g (tr @ [Fence_Remove_Callback f i]) \<or> j \<in> set (pending g (tr @ [Fence_Remove_Callback f i]))"
  using assms by (auto simp: live_ok_def)

lemma live_remove_clear: "live_ok R tr \<Longrightarrow> live_ok (R(i := zero_dma_row)) (tr @ [Fence_Remove_Callback f i])"
  using live_except [of R tr] by (auto simp: live_ok_def zero_dma_row_def)

lemma live_remove_signal:
  assumes "live_ok R tr"
  shows "live_ok (deliver_rows ps R) (tr @ [Fence_Remove_Callback f i] @ status_calls f st @ [Fence_Signal f])"
proof -
  have "fence_signaled g (tr @ [Fence_Remove_Callback f i] @ status_calls f st @ [Fence_Signal f]) \<or>
      j \<in> set (pending g (tr @ [Fence_Remove_Callback f i] @ status_calls f st @ [Fence_Signal f]))"
    if "df_fence (R j) = Some g" "cb_registered_for_sync (R j)" for g j
    using that live_okD(2) [OF assms that]
    by (cases "g = f") (simp_all add: status_calls_def pending_def fence_signaled_def split: sum.splits)
  then have "live_ok R (tr @ [Fence_Remove_Callback f i] @ status_calls f st @ [Fence_Signal f])"
    using live_okD(1) [OF assms] by (force simp: live_ok_def)
  then show ?thesis by (rule live_rows) simp_all
qed

lemma live_row_state: "live_ok R tr \<Longrightarrow> live_ok (R(i := (R i)\<lparr>df_state := st\<rparr>)) tr"
  by (simp add: live_ok_def)

lemma sound_call: "dma_sound s \<Longrightarrow> \<not> adds_callback c \<Longrightarrow> spares (dma_rows s) c \<Longrightarrow> dma_sound (fence_call c s)"
  by (simp add: dma_sound_def dma_ok_call live_call)

lemma sound_get_put: "dma_sound s \<Longrightarrow> dma_sound (fst (cam_dma_fence_get_put_ref b idx s))"
  using get_put_eq [of s idx _ b] get_put_invalid [of s idx b] sound_call [of s] soundD(1) [of s]
  by (cases "df_fence (dma_rows s (nat idx))"; cases "dma_idx_invalid idx") auto

lemma sound_internal_signal:
  assumes law: "fence_law e" and sound: "dma_sound s"
  shows "dma_sound (fst (cam_dma_fence_internal_signal e idx st s))"
proof (cases "dma_idx_invalid idx")
  case True
  then show ?thesis using sound by (simp add: cam_dma_fence_internal_signal_def)
next
  case False
  define i where "i = nat idx"
  note ok = soundD(1) [OF sound] and live = soundD(2) [OF sound]
  note eq = internal_signal_eq [OF law ok False i_def]
  have flag: "live_ok (dma_rows (flag_row i s)) (fence_calls s)" using live by (rule live_rows) auto
  let ?s1 = "flag_row i s"
  have by_row: "live_ok (dma_rows (fence_signaled_by_row e i f st (unregistered i ?s1))) (fence_calls (fence_signaled_by_row e i f st (unregistered i ?s1)))"
    if "df_fence (dma_rows s i) = Some f" "cb_registered_for_sync (dma_rows s i) \<longrightarrow> i \<in> set (pending f (fence_calls s))" for f
  proof (cases "cb_registered_for_sync (dma_rows s i)")
    case True
    then have ns: "\<not> fence_signaled f (fence_calls s)" using that dma_rows_okD(10) [OF dma_okD(2) [OF ok], of f] by auto
    have u: "unregistered i ?s1 = fence_call (Fence_Remove_Callback f i) ?s1" using True that by (simp add: unregistered_def)
    have "live_ok (dma_rows (signal_device e f st (unregistered i ?s1))) (fence_calls (signal_device e f st (unregistered i ?s1)))"
      using live_remove_signal [OF flag] by (simp add: u)
    then show ?thesis using ns live_row_state by (simp add: fence_signaled_by_row_def u del: signal_device_proj(1,2))
  next
    case False
    then have u: "unregistered i ?s1 = ?s1" by (simp add: unregistered_def)
    have "live_ok (dma_rows ?s1) (fence_calls ?s1)" using flag by simp
    then have "live_ok (dma_rows (signaled_once e f st ?s1)) (fence_calls (signaled_once e f st ?s1))" by (rule live_signaled_once)
    then show ?thesis unfolding u fence_signaled_by_row_def signaled_once_def [symmetric] using live_row_state by simp
  qed
  have "live_ok (dma_rows (fst (cam_dma_fence_internal_signal e idx st s))) (fence_calls (fst (cam_dma_fence_internal_signal e idx st s)))"
    using by_row flag by (auto simp: eq simp del: dma_proj split: option.splits) (simp_all add: flag)
  then show ?thesis using ok_internal_signal [OF law ok] by (simp add: dma_sound_def)
qed

lemma sound_signal_fd: "fence_law e \<Longrightarrow> dma_sound s \<Longrightarrow> dma_sound (fst (cam_dma_fence_signal_fd e fd st s))"
  by (auto simp: cam_dma_fence_signal_fd_def find_in_table soundD sound_internal_signal split: option.splits)

lemma sound_from_fd:
  assumes "dma_sound s"
  shows "dma_sound (fst (cam_dma_fence_get_fence_from_fd e fd s))"
proof -
  note ok = soundD(1) [OF assms]
  have "live_ok (dma_rows (fst (cam_dma_fence_get_fence_from_sync_file e fd s))) (fence_calls (fst (cam_dma_fence_get_fence_from_sync_file e fd s)))"
  proof -
    have g: "live_ok (dma_rows s) (fence_calls s @ [Fence_Get f])" for f using live_call [OF soundD(2) [OF assms]] by simp
    have u: "\<not> cb_registered_for_sync (dma_rows s (free_row s))" if "free_row s < CAM_DMA_FENCE_MAX_FENCES"
      using free_row_clear [OF that] dma_rows_okD(1) [OF dma_okD(2) [OF ok]] dma_rows_okD(3,9) [OF dma_okD(2) [OF ok], of "free_row s"]
      by (cases "free_row s") auto
    show ?thesis using live_call [OF g, of "Fence_Put _"] soundD(2) [OF assms] live_new [OF g] u
      by (auto simp: from_sync_file_eq [OF ok] new_row_def split: option.splits)
  qed
  moreover have "live_ok (dma_rows s) (fence_calls s @ [Fence_Get f])" for f using live_call [OF soundD(2) [OF assms]] by simp
  ultimately have "live_ok (dma_rows (fst (cam_dma_fence_get_fence_from_fd e fd s))) (fence_calls (fst (cam_dma_fence_get_fence_from_fd e fd s)))"
    by (simp add: from_fd_eq [OF ok] split: option.splits)
  then show ?thesis using ok_from_fd [OF ok] by (simp add: dma_sound_def)
qed

lemma sound_register:
  assumes law: "fence_law e" and sound: "dma_sound s"
    and f: "\<And>idx. idxo = Some idx \<Longrightarrow> \<not> dma_idx_invalid idx \<Longrightarrow> df_fence (dma_rows s (nat idx)) \<noteq> None"
  shows "dma_sound (fst (cam_dma_fence_register_cb e obj idxo cb s))"
proof (cases "\<exists>o' idx c. obj = Some o' \<and> idxo = Some idx \<and> cb = Some c \<and> \<not> dma_idx_invalid idx")
  case False
  then show ?thesis using sound by (auto simp: cam_dma_fence_register_cb_def split: option.splits)
next
  case True
  then obtain o' idx c where a: "obj = Some o'" "idxo = Some idx" "cb = Some c" "\<not> dma_idx_invalid idx" by blast
  define i where "i = nat idx"
  obtain g where g: "df_fence (dma_rows s i) = Some g" using f [OF a(2,4)] i_def by blast
  note ok = soundD(1) [OF sound]
  have "live_ok (dma_rows (fst (cam_dma_fence_register_cb e obj idxo cb s))) (fence_calls (fst (cam_dma_fence_register_cb e obj idxo cb s)))"
    using live_register [OF soundD(2) [OF sound], of "registered_row o' c (dma_rows s i)" g i] soundD(2) [OF sound] a g
    by (auto simp: register_cb_eq [OF law ok a(4) i_def g] registered_row_def)
  then show ?thesis using ok_register [OF law ok f] by (simp add: dma_sound_def)
qed

lemma live_cleared: "live_ok (dma_rows s) (fence_calls s) \<Longrightarrow> live_ok (dma_rows (cleared i f s)) (fence_calls (cleared i f s))"
  by (simp add: live_call live_clear)

lemma sound_release:
  assumes law: "fence_law e" and sound: "dma_sound s" and may: "\<And>i. released_row p s = Some i \<Longrightarrow> may_release i s"
  shows "dma_sound (fst (cam_dma_fence_release e p s))"
proof -
  note ok = soundD(1) [OF sound]
  have "live_ok (dma_rows (fst (dma_fence_release_row e i s))) (fence_calls (fst (dma_fence_release_row e i s)))" for i
    using live_cleared [OF soundD(2) [OF sound]] live_cleared [OF live_signaled_once [OF soundD(2) [OF sound]]] soundD(2) [OF sound]
    by (cases "df_fence (dma_rows s i)") (simp_all add: release_row_free [OF ok] release_row_eq [OF law ok] del: cleared_proj)
  then have "live_ok (dma_rows (fst (cam_dma_fence_release e p s))) (fence_calls (fst (cam_dma_fence_release e p s)))"
    using soundD(2) [OF sound] by (simp add: release_eq [OF ok] split: option.splits)
  then show ?thesis using ok_release [OF law ok may] by (simp add: dma_sound_def)
qed

lemma live_remove_cleared:
  assumes "live_ok (dma_rows s) (fence_calls s)"
  shows "live_ok (dma_rows (cleared i f (fence_call (Fence_Remove_Callback f i) s))) (fence_calls (cleared i f (fence_call (Fence_Remove_Callback f i) s)))"
  using live_call [OF live_remove_clear [OF assms], of i "Fence_Put f" f] by simp

lemma live_remove_signal_cleared:
  assumes "live_ok (dma_rows s) (fence_calls s)" "\<not> fence_signaled f (fence_calls s)"
  shows "live_ok (dma_rows (cleared i f (signaled_once e f st (fence_call (Fence_Remove_Callback f i) s))))
    (fence_calls (cleared i f (signaled_once e f st (fence_call (Fence_Remove_Callback f i) s))))"
  using assms(2) by (intro live_cleared) (simp add: signaled_once_def live_remove_signal [OF assms(1), simplified])

lemma sound_close_row:
  assumes law: "fence_law e" and sound: "dma_sound s"
  shows "dma_sound (dma_close_row e i s)"
proof -
  note ok = soundD(1) [OF sound] and live = soundD(2) [OF sound]
  have "\<not> fence_signaled f (fence_calls s)" if "i \<in> set (pending f (fence_calls s))" for f
    using that dma_rows_okD(10) [OF dma_okD(2) [OF ok], of f] by auto
  then have "live_ok (dma_rows (dma_close_row e i s)) (fence_calls (dma_close_row e i s))"
    using live live_cleared [OF live] live_remove_cleared [OF live] live_cleared [OF live_signaled_once [OF live]]
      live_remove_signal_cleared [OF live]
    by (cases "df_fence (dma_rows s i)") (simp_all add: close_row_eq [OF law ok] Let_def del: cleared_proj)
  then show ?thesis using ok_close_row [OF law ok] by (simp add: dma_sound_def)
qed

lemma sound_close: "fence_law e \<Longrightarrow> dma_sound s \<Longrightarrow> dma_sound (cam_dma_fence_close e s)"
proof -
  assume law: "fence_law e" and "dma_sound s"
  then have "dma_sound (dma_close_rows e is s)" for "is" by (induction "is" arbitrary: s) (simp_all add: sound_close_row)
  then show ?thesis by (simp add: cam_dma_fence_close_def dma_sound_def dma_ok_def dma_idle_def)
qed

lemma sound_open: "dma_sound s \<Longrightarrow> dma_sound (cam_dma_fence_open s)"
  by (simp add: cam_dma_fence_open_def Let_def dma_sound_def dma_ok_def dma_idle_def)

lemma sound_outside: "fence_law e \<Longrightarrow> dma_sound s \<Longrightarrow> dma_sound (fence_signaled_outside e f s)"
  using ok_outside [of e s f] live_signaled_once [of s e f "Inr ()"] by (simp add: dma_sound_def outside_eq)

section \<open>Runs\<close>

datatype 'f dma_request =
  Open_Fences | Close_Fences | Create_Fence bool string | Import_Fence int | Reference_Fence bool int
| Register_Fence "int option" "int option" "'f option" | Signal_Row int "errno + unit" | Signal_Fd int "errno + unit"
| Release_Fence "int + int" | Owner_Signals nat

fun dma_step :: "fence_env \<Rightarrow> 'f dma_request \<Rightarrow> 'f dma_device \<Rightarrow> 'f dma_device" where
  "dma_step e Open_Fences s = cam_dma_fence_open s"
| "dma_step e Close_Fences s = cam_dma_fence_close e s"
| "dma_step e (Create_Fence out_ok name) s = fst (cam_dma_fence_create_fd e out_ok name s)"
| "dma_step e (Import_Fence fd) s = fst (cam_dma_fence_get_fence_from_fd e fd s)"
| "dma_step e (Reference_Fence get_or_put idx) s = fst (cam_dma_fence_get_put_ref get_or_put idx s)"
| "dma_step e (Register_Fence obj idx cb) s = fst (cam_dma_fence_register_cb e obj idx cb s)"
| "dma_step e (Signal_Row idx st) s = fst (cam_dma_fence_internal_signal e idx st s)"
| "dma_step e (Signal_Fd fd st) s = fst (cam_dma_fence_signal_fd e fd st s)"
| "dma_step e (Release_Fence p) s = fst (cam_dma_fence_release e p s)"
| "dma_step e (Owner_Signals f) s = fence_signaled_outside e f s"

fun dma_regular :: "'f dma_device \<Rightarrow> 'f dma_request \<Rightarrow> bool" where
  "dma_regular s (Register_Fence obj idx cb) =
     (case idx of None \<Rightarrow> True | Some idx \<Rightarrow> dma_idx_invalid idx \<or> df_fence (dma_rows s (nat idx)) \<noteq> None)"
| "dma_regular s (Release_Fence p) = (case released_row p s of None \<Rightarrow> True | Some i \<Rightarrow> may_release i s)"
| "dma_regular s _ = True"

text \<open>The devices that are reached from the driver's initialisation, with the monitor off.\<close>

inductive dma_reach :: "fence_env \<Rightarrow> 'f dma_device \<Rightarrow> bool" for e where
  init: "cam_dma_fence_driver_init False dumped mem time = Some s \<Longrightarrow> dma_reach e s"
| step: "dma_reach e s \<Longrightarrow> dma_regular s req \<Longrightarrow> dma_reach e (dma_step e req s)"

lemma sound_init: "cam_dma_fence_driver_init False dumped mem time = Some s \<Longrightarrow> dma_sound s"
  by (auto simp: cam_dma_fence_driver_init_def dma_sound_def dma_ok_def dma_idle_def dma_rows_ok_def live_ok_def zero_dma_row_def row_sound_def
      CAM_DMA_FENCE_MAX_FENCES_def split: list.splits bool.splits)

lemma sound_step:
  assumes law: "fence_law e" and sound: "dma_sound s" and reg: "dma_regular s req"
  shows "dma_sound (dma_step e req s)"
proof (cases req)
  case (Register_Fence obj idx cb)
  then show ?thesis using sound_register [OF law sound, of idx obj cb] reg by (auto split: option.splits)
next
  case (Release_Fence p)
  then show ?thesis using sound_release [OF law sound, of p] reg by (auto split: option.splits)
qed (simp_all add: law sound sound_open sound_close sound_create sound_from_fd sound_get_put sound_internal_signal sound_signal_fd sound_outside)

lemma reach_sound:
  assumes "fence_law e" "dma_reach e s"
  shows "dma_sound s"
  using assms(2) by (induction rule: dma_reach.induct) (blast intro: sound_init sound_step assms(1))+

section \<open>The rows are slots\<close>

definition dma_take :: "'f dma_device \<Rightarrow> (nat \<times> 'f dma_device) option" where
  "dma_take s = (case dma_fence_find_free_idx s of (s', Inr i) \<Rightarrow> Some (i, s') | _ \<Rightarrow> None)"

lemma dma_take_eq: "dma_take s = (if free_row s < CAM_DMA_FENCE_MAX_FENCES then Some (free_row s, take_row (free_row s) s) else None)"
  by (simp add: dma_take_def dma_fence_find_free_idx_def free_row_def take_row_def Let_def)

interpretation dma_slots: slot_table "\<lambda>_. True" dma_bitmap CAM_DMA_FENCE_MAX_FENCES dma_take dma_free_idx
proof (unfold_locales, goal_cases)
  case (2 s)
  show ?case using ffz_full_iff [of "dma_bitmap s" CAM_DMA_FENCE_MAX_FENCES] ffz_le [of "dma_bitmap s" CAM_DMA_FENCE_MAX_FENCES]
    by (auto simp: dma_take_eq free_row_def order.order_iff_strict)
qed (auto simp: dma_take_eq free_row_clear split: if_splits)

end
