(* ===== verification/Cam_Dma_Fence_Props.thy ===== *)
theory Cam_Dma_Fence_Props
  imports Cam_Dma_Fence_Run
begin

text \<open>
  What the table of DMA fences promises its clients, and where it does not keep it.
\<close>

section \<open>A device to show things on\<close>

definition fence_demo_env :: fence_env where
  "fence_demo_env = std_env (\<lambda>fd. if fd = 5 then Some 9 else None)"

definition fence_demo_dev :: "nat dma_device" where
  "fence_demo_dev = the (cam_dma_fence_driver_init False False [] 0)"

text \<open>The fence of descriptor 5, of another driver, is imported and the sync object 3 registered with it.\<close>

definition demo_imported :: "nat dma_device" where
  "demo_imported = dma_step fence_demo_env (Import_Fence 5) (dma_step fence_demo_env Open_Fences fence_demo_dev)"

definition demo_registered :: "nat dma_device" where
  "demo_registered = dma_step fence_demo_env (Register_Fence (Some 3) (Some 1) (Some 77)) demo_imported"

lemma demo_law: "fence_law fence_demo_env"
  by (simp add: fence_demo_env_def fence_law_std)

lemma demo_reach0: "dma_reach e fence_demo_dev"
  by (rule dma_reach.init [of False "[]" 0]) (simp add: fence_demo_dev_def cam_dma_fence_driver_init_def)

lemma demo_reach_imported: "dma_reach fence_demo_env demo_imported"
  unfolding demo_imported_def by (intro dma_reach.step demo_reach0) simp_all

abbreviation ext_row :: "nat cam_dma_fence_row" where
  "ext_row \<equiv> zero_dma_row\<lparr>df_name := ''ext'', df_fence := Some 9, df_fd := 5, df_state := CAM_DMA_FENCE_STATE_ACTIVE, df_ext := True\<rparr>"

lemma demo_imported_eq: "demo_imported = fence_demo_dev\<lparr>dma_rows := (\<lambda>_. zero_dma_row)(1 := ext_row),
    dma_bitmap := (\<lambda>_. False)(0 := True, 1 := True), fence_calls := [Fence_Get 9]\<rparr>"
proof -
  have s: "cam_dma_fence_open fence_demo_dev = fence_demo_dev" by (simp add: cam_dma_fence_open_def fence_demo_dev_def cam_dma_fence_driver_init_def)
  have ok: "dma_ok fence_demo_dev" using reach_sound [OF demo_law demo_reach0] by (simp add: dma_sound_def)
  have f: "free_row fence_demo_dev = 1" "free_row (fence_call c fence_demo_dev) = 1" for c
    by (simp_all add: free_row_def find_first_zero_bit_def ffz_from.simps CAM_DMA_FENCE_MAX_FENCES_def fence_demo_dev_def cam_dma_fence_driver_init_def)
  have rows: "dma_rows fence_demo_dev i = zero_dma_row" for i by (simp add: fence_demo_dev_def cam_dma_fence_driver_init_def)
  have "dma_lookup 5 fence_demo_dev = None" by (simp add: dma_lookup_def find_None_iff rows zero_dma_row_def)
  then show ?thesis using ok
    by (simp add: demo_imported_def s from_fd_eq from_sync_file_eq f CAM_DMA_FENCE_MAX_FENCES_def fence_demo_env_def std_env_def upd_dma_row_def take_row_def
        fence_call_def new_row_def CAM_DMA_FENCE_NAME_LEN_def)
      (simp add: fence_demo_dev_def cam_dma_fence_driver_init_def zero_dma_row_def)
qed

lemma demo_registered_eq: "demo_registered = fence_demo_dev\<lparr>dma_rows := (\<lambda>_. zero_dma_row)(1 := registered_row 3 77 ext_row),
    dma_bitmap := (\<lambda>_. False)(0 := True, 1 := True), fence_calls := [Fence_Get 9, Fence_Add_Callback 9 1]\<rparr>"
proof -
  have ok: "dma_ok demo_imported" using reach_sound [OF demo_law demo_reach_imported] by (simp add: dma_sound_def)
  have "cam_dma_fence_register_cb fence_demo_env (Some 3) (Some 1) (Some 77) demo_imported =
      (upd_dma_row 1 (registered_row 3 77) (fence_call (Fence_Add_Callback 9 1) demo_imported), Inr ())"
    using register_cb_eq [OF demo_law ok, of 1 1 9 3 77]
    by (simp add: demo_imported_eq dma_idx_invalid_def CAM_DMA_FENCE_MAX_FENCES_def fence_signaled_def zero_dma_row_def)
  then show ?thesis
    by (simp add: demo_registered_def demo_imported_eq upd_dma_row_def fence_call_def)
qed

lemma demo_reach_registered: "dma_reach fence_demo_env demo_registered"
  unfolding demo_registered_def by (intro dma_reach.step demo_reach_imported) (simp add: demo_imported_eq zero_dma_row_def)

text \<open>A fence of the driver, with the sync object 3 registered.\<close>

definition demo_own :: "nat dma_device" where
  "demo_own = dma_step fence_demo_env (Register_Fence (Some 3) (Some 1) (Some 77)) (dma_step fence_demo_env (Create_Fence True ''own'') fence_demo_dev)"

abbreviation own_row :: "nat cam_dma_fence_row" where
  "own_row \<equiv> zero_dma_row\<lparr>df_name := ''own'', df_fence := Some 1, df_fd := 4, df_state := CAM_DMA_FENCE_STATE_ACTIVE\<rparr>"

abbreviation own_calls :: "fence_call list" where
  "own_calls \<equiv> [Fence_Init 1 1, Get_Unused_Fd 4, Sync_File_Create 1, Fd_Install 4 1]"

lemma get_fd_granted:
  assumes "dma_fence_find_free_idx s = (s0, Inr idx)" "dma_allocs s0 = []" "\<forall>tr. sync_file_ok e tr"
    and "fence = new_fence e (fence_calls s0)"
    and "s1 = fence_call (Fence_Init fence (dma_seq_no s0 + 1)) (s0\<lparr>dma_seq_no := dma_seq_no s0 + 1\<rparr>)"
    and "fd = unused_fd e (fence_calls s1)" "0 \<le> fd"
  shows "dma_fence_get_fd e name s =
    (dma_fence_init_row name fence fd idx False
       (fence_call (Fd_Install fd fence) (fence_call (Sync_File_Create fence) (fence_call (Get_Unused_Fd fd) s1))), Some idx, fd)"
proof -
  have n: "next_dma_alloc s0 = (True, s0)" using assms(2) by (simp add: next_dma_alloc_def)
  show ?thesis
    unfolding dma_fence_get_fd_def assms(1) Let_def using assms(3-7) by (simp add: n)
qed

lemma demo_create: "dma_step fence_demo_env (Create_Fence True ''own'') fence_demo_dev = fence_demo_dev\<lparr>dma_rows := (\<lambda>_. zero_dma_row)(1 := own_row),
    dma_bitmap := (\<lambda>_. False)(0 := True, 1 := True), dma_seq_no := 1, fence_calls := own_calls\<rparr>"
proof -
  have ok: "dma_ok fence_demo_dev" using reach_sound [OF demo_law demo_reach0] by (simp add: dma_sound_def)
  have f: "free_row fence_demo_dev = 1"
    by (simp add: free_row_def find_first_zero_bit_def ffz_from.simps CAM_DMA_FENCE_MAX_FENCES_def fence_demo_dev_def cam_dma_fence_driver_init_def)
  let ?s0 = "take_row 1 fence_demo_dev"
  have ff: "dma_fence_find_free_idx fence_demo_dev = (?s0, Inr 1)"
    using find_free_eq [OF ok] by (simp add: f CAM_DMA_FENCE_MAX_FENCES_def)
  have d: "dma_allocs fence_demo_dev = []" "fence_calls fence_demo_dev = []" "dma_seq_no fence_demo_dev = 0"
    by (simp_all add: fence_demo_dev_def cam_dma_fence_driver_init_def)
  then have d0: "dma_allocs ?s0 = []" "fence_calls ?s0 = []" "dma_seq_no ?s0 = 0" by (simp_all add: take_row_def)
  have e: "new_fence fence_demo_env [] = 1" "unused_fd fence_demo_env [Fence_Init 1 1] = 4" "\<forall>tr. sync_file_ok fence_demo_env tr"
    by (simp_all add: fence_demo_env_def std_env_def)
  have "dma_fence_get_fd fence_demo_env ''own'' fence_demo_dev =
    (dma_fence_init_row ''own'' 1 4 1 False
       (fence_call (Fd_Install 4 1) (fence_call (Sync_File_Create 1) (fence_call (Get_Unused_Fd 4)
         (fence_call (Fence_Init 1 1) (?s0\<lparr>dma_seq_no := 1\<rparr>))))), Some 1, 4)"
    by (rule get_fd_granted [OF ff d0(1) e(3)]) (simp_all add: d d0 e(1,2) [simplified] fence_call_def)
  then show ?thesis
    by (simp add: cam_dma_fence_create_fd_def fence_call_def take_row_def d)
      (simp add: fence_demo_dev_def cam_dma_fence_driver_init_def dma_fence_init_row_def dma_lock_def dma_unlock_def upd_dma_row_def
        CAM_DMA_FENCE_NAME_LEN_def zero_dma_row_def fun_upd_idem)
qed

lemma demo_reach_create: "dma_reach fence_demo_env (dma_step fence_demo_env (Create_Fence True ''own'') fence_demo_dev)"
  by (intro dma_reach.step demo_reach0) simp

lemma demo_own_eq: "demo_own = fence_demo_dev\<lparr>dma_rows := (\<lambda>_. zero_dma_row)(1 := registered_row 3 77 own_row),
    dma_bitmap := (\<lambda>_. False)(0 := True, 1 := True), dma_seq_no := 1, fence_calls := own_calls @ [Fence_Add_Callback 1 1]\<rparr>"
proof -
  let ?s = "dma_step fence_demo_env (Create_Fence True ''own'') fence_demo_dev"
  have ok: "dma_ok ?s" using reach_sound [OF demo_law demo_reach_create] by (simp add: dma_sound_def del: dma_step.simps)
  have "cam_dma_fence_register_cb fence_demo_env (Some 3) (Some 1) (Some 77) ?s =
      (upd_dma_row 1 (registered_row 3 77) (fence_call (Fence_Add_Callback 1 1) ?s), Inr ())"
    using register_cb_eq [OF demo_law ok, of 1 1 1 3 77] unfolding demo_create
    by (simp add: dma_idx_invalid_def CAM_DMA_FENCE_MAX_FENCES_def fence_signaled_def zero_dma_row_def)
  then show ?thesis unfolding demo_own_def dma_step.simps(6) by (simp add: demo_create upd_dma_row_def fence_call_def del: dma_step.simps)
qed

lemma demo_reach_own: "dma_reach fence_demo_env demo_own"
  unfolding demo_own_def by (rule dma_reach.step [OF demo_reach_create]) (simp add: demo_create zero_dma_row_def del: dma_step.simps(3))

section \<open>The table\<close>

lemma registered_iff_pending:
  assumes "dma_sound s"
  shows "i \<in> set (pending f (fence_calls s)) \<longleftrightarrow>
    df_fence (dma_rows s i) = Some f \<and> cb_registered_for_sync (dma_rows s i) \<and> \<not> fence_signaled f (fence_calls s)"
  using dma_rows_okD(7) [OF dma_okD(2) [OF soundD(1) [OF assms]], of i f] dma_rows_okD(10) [OF dma_okD(2) [OF soundD(1) [OF assms]], of f] live_okD(2) [OF soundD(2) [OF assms], of i f] by auto

text \<open>
  In every device that requests lead to (monitor off, no callback asked for on a free row, no row of another driver's fence
  released with its callback left): nothing has gone wrong and no lock is held; a row has its bit set exactly when it is in use, and
  exactly then it has a fence; index 0 is never in use; and the callbacks that a fence which has not signaled will run are exactly
  those of the rows that hold it and have a sync object registered.
\<close>

theorem dma_table_consistent:
  assumes "fence_law e" "dma_reach e s"
  shows "dma_bad s = None \<and> (\<forall>i. \<not> dma_locks s i) \<and> df_state (dma_rows s 0) = CAM_DMA_FENCE_STATE_INVALID \<and>
    (\<forall>i. df_state (dma_rows s i) \<noteq> CAM_DMA_FENCE_STATE_INVALID \<longleftrightarrow> df_fence (dma_rows s i) \<noteq> None) \<and>
    (\<forall>i. 0 < i \<longrightarrow> (dma_bitmap s i \<longleftrightarrow> df_state (dma_rows s i) \<noteq> CAM_DMA_FENCE_STATE_INVALID)) \<and>
    (\<forall>f i. i \<in> set (pending f (fence_calls s)) \<longleftrightarrow>
       df_fence (dma_rows s i) = Some f \<and> cb_registered_for_sync (dma_rows s i) \<and> \<not> fence_signaled f (fence_calls s))"
proof -
  note so = reach_sound [OF assms]
  note T = dma_okD(2) [OF soundD(1) [OF so]]
  have "df_state (dma_rows s 0) = CAM_DMA_FENCE_STATE_INVALID" using dma_rows_okD(2) [OF T] by simp
  then show ?thesis using dma_okD(1) [OF soundD(1) [OF so]] dma_rows_okD(3,8) [OF T] registered_iff_pending [OF so] by blast
qed

lemma dma_table_consistent_witness:
  "dma_bad demo_registered = None \<and> dma_bitmap demo_registered 1 \<and> 1 \<in> set (pending 9 (fence_calls demo_registered))"
  using dma_table_consistent [OF demo_law demo_reach_registered]
  by (simp add: demo_registered_eq registered_row_def fence_signaled_def)

section \<open>Signals\<close>

text \<open>
  When the owner of a fence signals it, every row that holds the fence and has a sync object registered calls it exactly once, with the
  row's descriptor and the fence's status, and is then in the signaled state; a row whose sync object started the signal is left out.
  A second signal does nothing.
\<close>

theorem dma_owner_signal_tells_each_once:
  assumes "fence_law e" "dma_reach e s" "\<not> fence_signaled f (fence_calls s)"
  shows "\<exists>is. distinct is \<and>
    set is = {i. df_fence (dma_rows s i) = Some f \<and> cb_registered_for_sync (dma_rows s i) \<and> \<not> sync_signal_dma (dma_rows s i)} \<and>
    (let s' = fence_signaled_outside e f s in
     sync_cb_calls s' = sync_cb_calls s @
       map (\<lambda>i. (the (df_sync_cb (dma_rows s i)), df_sync_obj (dma_rows s i), df_fd (dma_rows s i), dma_fence_status e (fence_calls s') f)) is \<and>
     (\<forall>i\<in>set is. df_state (dma_rows s' i) = CAM_DMA_FENCE_STATE_SIGNALED) \<and> fence_signaled_outside e f s' = s')"
proof -
  note so = reach_sound [OF assms(1,2)]
  let ?is = "filter (\<lambda>i. \<not> sync_signal_dma (dma_rows s i)) (pending f (fence_calls s))"
  have eq: "fence_signaled_outside e f s = signal_device e f (Inr ()) s"
    using assms(3) by (simp add: outside_eq [OF assms(1) soundD(1) [OF so]] signaled_once_def)
  have "fence_signaled f (fence_calls (signal_device e f (Inr ()) s))"
    by (simp add: fence_signaled_def status_calls_def)
  then have "fence_signaled_outside e f (signal_device e f (Inr ()) s) = signal_device e f (Inr ()) s"
    by (simp add: fence_signaled_outside_def fence_lawD(2) [OF assms(1)])
  moreover have "distinct ?is" using dma_rows_okD(6) [OF dma_okD(2) [OF soundD(1) [OF so]]] by simp
  moreover have "set ?is = {i. df_fence (dma_rows s i) = Some f \<and> cb_registered_for_sync (dma_rows s i) \<and> \<not> sync_signal_dma (dma_rows s i)}"
    using registered_iff_pending [OF so] assms(3) by auto
  ultimately show ?thesis
    using registered_iff_pending [OF so] assms(3)
    by (intro exI [of _ ?is]) (simp add: eq Let_def deliver_calls_def, simp add: deliver_rows_def)
qed

lemma demo_not_signaled: "\<not> fence_signaled 9 (fence_calls demo_registered)" "sync_cb_calls demo_registered = []"
  by (simp_all add: demo_registered_eq fence_signaled_def fence_demo_dev_def cam_dma_fence_driver_init_def)

lemma demo_row1: "dma_rows demo_registered 1 = registered_row 3 77 ext_row" "i \<noteq> 1 \<Longrightarrow> dma_rows demo_registered i = zero_dma_row"
  by (simp_all add: demo_registered_eq)

lemma distinct_single: "distinct xs \<Longrightarrow> set xs = {a} \<Longrightarrow> xs = [a]"
  by (cases xs; cases "tl xs") auto

lemma dma_owner_signal_tells_each_once_witness:
  "\<exists>st. sync_cb_calls (fence_signaled_outside fence_demo_env 9 demo_registered) = [(77, 3, 5, st)]"
proof -
  have set: "{i. df_fence (dma_rows demo_registered i) = Some 9 \<and> cb_registered_for_sync (dma_rows demo_registered i) \<and>
      \<not> sync_signal_dma (dma_rows demo_registered i)} = {1}"
    by (auto simp: demo_registered_eq registered_row_def zero_dma_row_def)
  obtain "is" where i: "distinct is" "set is = {1}" "\<exists>st. sync_cb_calls (fence_signaled_outside fence_demo_env 9 demo_registered) =
      map (\<lambda>i. (the (df_sync_cb (dma_rows demo_registered i)), df_sync_obj (dma_rows demo_registered i), df_fd (dma_rows demo_registered i), st)) is"
    using dma_owner_signal_tells_each_once [OF demo_law demo_reach_registered demo_not_signaled(1)]
    unfolding set Let_def demo_not_signaled(2) by auto
  have "is = [1]" using i(1,2) by (simp add: distinct_single)
  then show ?thesis using i(3) by (simp add: demo_row1(1) [simplified] registered_row_def)
qed

text \<open>
  A signal that a sync object sends to its row's fence takes the row's own callback off and then signals: the fence has signaled, an error is its
  status, the other rows that hold the fence and have a sync object registered are told once, and the sync object that sent the signal is not.
\<close>

theorem dma_signal_from_sync_object:
  assumes "fence_law e" "dma_reach e s" "\<not> dma_idx_invalid idx" "df_fence (dma_rows s (nat idx)) = Some f"
    "df_state (dma_rows s (nat idx)) = CAM_DMA_FENCE_STATE_ACTIVE" "\<not> fence_signaled f (fence_calls s)"
    "cam_dma_fence_internal_signal e idx st s = (s', rc)"
  shows "rc = Inr () \<and> fence_signaled f (fence_calls s') \<and> (\<forall>er. st = Inl er \<longrightarrow> dma_fence_status e (fence_calls s') f = Inl er) \<and>
    df_state (dma_rows s' (nat idx)) = CAM_DMA_FENCE_STATE_SIGNALED \<and>
    (\<exists>is. distinct is \<and>
       set is = {i. i \<noteq> nat idx \<and> df_fence (dma_rows s i) = Some f \<and> cb_registered_for_sync (dma_rows s i) \<and> \<not> sync_signal_dma (dma_rows s i)} \<and>
       sync_cb_calls s' = sync_cb_calls s @
         map (\<lambda>i. (the (df_sync_cb (dma_rows s i)), df_sync_obj (dma_rows s i), df_fd (dma_rows s i), dma_fence_status e (fence_calls s') f)) is)"
proof -
  note so = reach_sound [OF assms(1,2)]
  note pend = registered_iff_pending [OF so]
  define i where "i = nat idx"
  define u where "u = unregistered i (flag_row i s)"
  have i4: "df_fence (dma_rows s i) = Some f" "df_state (dma_rows s i) = CAM_DMA_FENCE_STATE_ACTIVE" using assms(4,5) by (simp_all add: i_def)
  have uc: "pending f (fence_calls u) = removeAll i (pending f (fence_calls s))" "\<not> fence_signaled f (fence_calls u)"
    "sync_cb_calls u = sync_cb_calls s" "dma_rows u = (dma_rows s)(i := (dma_rows s i)\<lparr>sync_signal_dma := True\<rparr>)"
    using pend [of i f] i4 assms(6) by (auto simp: u_def unregistered_def removeAll_id)
  have s': "s' = fence_signaled_by_row e i f st u" "rc = Inr ()"
    using internal_signal_eq [OF assms(1) soundD(1) [OF so] assms(3) i_def, of st] assms(6,7) i4 pend [of i f]
    by (auto simp: u_def)
  let ?tr = "fence_calls u @ status_calls f st @ [Fence_Signal f]"
  have tr: "fence_calls s' = ?tr" using uc(2) by (simp add: s' fence_signaled_by_row_def)
  let ?is = "filter (\<lambda>j. \<not> sync_signal_dma (dma_rows u j)) (removeAll i (pending f (fence_calls s)))"
  have "fence_signaled f ?tr" by (simp add: fence_signaled_def)
  moreover have "\<forall>er. st = Inl er \<longrightarrow> dma_fence_status e ?tr f = Inl er"
    using fence_lawD(6) [OF assms(1)] by (simp add: status_calls_def fence_error_def)
  moreover have "sync_cb_calls s' = sync_cb_calls s @
      map (\<lambda>j. (the (df_sync_cb (dma_rows s j)), df_sync_obj (dma_rows s j), df_fd (dma_rows s j), dma_fence_status e ?tr f)) ?is"
    using uc(1,2,3) by (auto simp: s' fence_signaled_by_row_def deliver_calls_def uc(4))
  moreover have "distinct ?is" using dma_rows_okD(6) [OF dma_okD(2) [OF soundD(1) [OF so]]] by (simp add: distinct_removeAll)
  moreover have "set ?is = {j. j \<noteq> i \<and> df_fence (dma_rows s j) = Some f \<and> cb_registered_for_sync (dma_rows s j) \<and> \<not> sync_signal_dma (dma_rows s j)}"
    using pend assms(6) by (auto simp: uc(4))
  ultimately show ?thesis unfolding tr i_def [symmetric] using s'(2) by (auto simp: s'(1) fence_signaled_by_row_def intro: exI [of _ ?is])
qed

lemma dma_signal_from_sync_object_witness:
  "\<exists>s'. cam_dma_fence_internal_signal fence_demo_env 1 (Inl ECANCELED) demo_registered = (s', Inr ()) \<and>
     dma_fence_status fence_demo_env (fence_calls s') 9 = Inl ECANCELED \<and> sync_cb_calls s' = []"
proof -
  obtain s' rc where r: "cam_dma_fence_internal_signal fence_demo_env 1 (Inl ECANCELED) demo_registered = (s', rc)" by fastforce
  have none: "{i. i \<noteq> nat 1 \<and> df_fence (dma_rows demo_registered i) = Some 9 \<and> cb_registered_for_sync (dma_rows demo_registered i) \<and>
      \<not> sync_signal_dma (dma_rows demo_registered i)} = {}"
    by (auto simp: demo_registered_eq registered_row_def zero_dma_row_def)
  show ?thesis
    using dma_signal_from_sync_object [OF demo_law demo_reach_registered _ _ _ demo_not_signaled(1) r] r
    unfolding none demo_not_signaled(2)
    by (auto simp: dma_idx_invalid_def CAM_DMA_FENCE_MAX_FENCES_def demo_registered_eq registered_row_def zero_dma_row_def)
qed

text \<open>
  Releasing a fence of the driver that nobody has signaled cancels it: whoever waits for it gets the error, the sync object that is registered with its
  row is told once, with that error; the row, its index and the driver's reference are given back.
\<close>

theorem dma_release_cancels_fence:
  assumes "fence_law e" "dma_reach e s" "\<not> dma_idx_invalid idx" "df_fence (dma_rows s (nat idx)) = Some f"
    "\<not> df_ext (dma_rows s (nat idx))" "\<not> fence_signaled f (fence_calls s)"
    "\<forall>j. df_fence (dma_rows s j) = Some f \<longrightarrow> j = nat idx"
    "cam_dma_fence_release e (Inl idx) s = (s', rc)"
  shows "rc = Inr () \<and> dma_rows s' (nat idx) = zero_dma_row \<and> \<not> dma_bitmap s' (nat idx) \<and>
    fence_calls s' = fence_calls s @ [Fence_Set_Error f ECANCELED, Fence_Signal f, Fence_Put f] \<and>
    sync_cb_calls s' = sync_cb_calls s @
      (let row = dma_rows s (nat idx) in
       if cb_registered_for_sync row \<and> \<not> sync_signal_dma row then [(the (df_sync_cb row), df_sync_obj row, df_fd row, Inl ECANCELED)] else [])"
proof -
  note so = reach_sound [OF assms(1,2)]
  define i where "i = nat idx"
  let ?st = "Inl ECANCELED :: errno + unit"
  have s': "s' = cleared i f (signal_device e f ?st s)" "rc = Inr ()"
    using release_row_eq [OF assms(1) soundD(1) [OF so], of i f] assms(3-6,8)
    by (auto simp: cam_dma_fence_release_def i_def signaled_once_def)
  have "set (pending f (fence_calls s)) \<subseteq> {i}" using registered_iff_pending [OF so] assms(7) by (auto simp: i_def)
  then have p: "pending f (fence_calls s) = (if cb_registered_for_sync (dma_rows s i) then [i] else [])"
    using registered_iff_pending [OF so, of i f] assms(4,6) dma_rows_okD(6) [OF dma_okD(2) [OF soundD(1) [OF so]], of f]
    by (auto simp: i_def [symmetric] subset_singleton_iff distinct_single)
  have "dma_fence_status e (fence_calls s @ [Fence_Set_Error f ECANCELED, Fence_Signal f]) f = ?st"
    using fence_lawD(6) [OF assms(1)] by (simp add: fence_error_def)
  then show ?thesis unfolding i_def [symmetric] by (simp add: s' p status_calls_def deliver_calls_def Let_def)
qed

lemma dma_release_cancels_fence_witness:
  "\<exists>s'. cam_dma_fence_release fence_demo_env (Inl 1) demo_own = (s', Inr ()) \<and> sync_cb_calls s' = [(77, 3, 4, Inl ECANCELED)]"
proof -
  obtain s' rc where r: "cam_dma_fence_release fence_demo_env (Inl 1) demo_own = (s', rc)" by fastforce
  show ?thesis
    using dma_release_cancels_fence [OF demo_law demo_reach_own _ _ _ _ _ r, of 1] r
    by (simp add: dma_idx_invalid_def CAM_DMA_FENCE_MAX_FENCES_def demo_own_eq fence_signaled_def registered_row_def zero_dma_row_def
        fence_demo_dev_def cam_dma_fence_driver_init_def)
qed

section \<open>Where it goes wrong\<close>

lemma signal_cb_off:
  assumes "\<not> dma_mask s"
  shows "dma_bad (dma_fence_signal_cb e f i s) = dma_bad s" "\<not> dma_mask (dma_fence_signal_cb e f i s)"
    "fence_cb_func (dma_rows (dma_fence_signal_cb e f i s) j) = fence_cb_func (dma_rows s j)"
  using assms by (simp_all add: dma_fence_signal_cb_def Let_def upd_dma_row_def split: option.splits bool.splits)

text \<open>A fence that runs the callback of a row that has been cleared calls through a NULL pointer.\<close>

lemma run_callbacks_null:
  assumes "\<not> dma_mask s" "dma_bad s = Some Null_Pointer \<or> (\<exists>i\<in>set ps. \<not> fence_cb_func (dma_rows s i))"
  shows "dma_bad (run_callbacks e f ps s) = Some Null_Pointer"
  using assms
proof (induction ps arbitrary: s)
  case (Cons i ps)
  let ?s = "if fence_cb_func (dma_rows s i) then dma_fence_signal_cb e f i s else null_pointer s"
  have "\<not> dma_mask ?s" using Cons.prems(1) signal_cb_off(2) [OF Cons.prems(1), of e f i] by (simp add: null_pointer_def)
  moreover have "dma_bad ?s = Some Null_Pointer \<or> (\<exists>j\<in>set ps. \<not> fence_cb_func (dma_rows ?s j))"
    using Cons.prems signal_cb_off(1,3) [OF Cons.prems(1)] by (auto simp: null_pointer_def)
  ultimately show ?case using Cons.IH by simp
qed simp

text \<open>
  The release of an imported fence while a sync object is registered with it answers success, but leaves the callback with the fence: when
  the fence's owner signals it later, the kernel follows the cleared row's callback.
\<close>

theorem dma_release_leaves_callback:
  assumes "fence_law e" "dma_reach e s" "\<not> dma_idx_invalid idx" "df_fence (dma_rows s (nat idx)) = Some f"
    "df_ext (dma_rows s (nat idx))" "cb_registered_for_sync (dma_rows s (nat idx))" "\<not> fence_signaled f (fence_calls s)"
  shows "snd (cam_dma_fence_release e (Inl idx) s) = Inr () \<and>
    dma_bad (fst (cam_dma_fence_release e (Inl idx) s)) = None \<and>
    dma_bad (fence_signaled_outside e f (fst (cam_dma_fence_release e (Inl idx) s))) = Some Null_Pointer"
proof -
  note so = reach_sound [OF assms(1,2)]
  define i where "i = nat idx"
  have r: "cam_dma_fence_release e (Inl idx) s = (cleared i f s, Inr ())"
    using release_row_eq [OF assms(1) soundD(1) [OF so], of i f] assms(3-5) by (simp add: cam_dma_fence_release_def i_def)
  have p: "i \<in> set (pending f (fence_calls s))" using registered_iff_pending [OF so] assms(4,6,7) by (simp add: i_def)
  have "\<not> fence_cb_func zero_dma_row" by (simp add: zero_dma_row_def)
  then have "dma_bad (run_callbacks e f (pending f (fence_calls s)) (fence_call (Fence_Signal f) (cleared i f s))) = Some Null_Pointer"
    using dma_okD(1) [OF soundD(1) [OF so]] by (intro run_callbacks_null) (auto intro!: bexI [OF _ p])
  then show ?thesis unfolding r using assms(7) dma_okD(1) [OF soundD(1) [OF so]]
    by (simp add: fence_signaled_outside_def dma_fence_signal_locked_def fence_lawD(1,2) [OF assms(1)])
qed

lemma dma_release_leaves_callback_witness:
  "dma_bad (fence_signaled_outside fence_demo_env 9 (fst (cam_dma_fence_release fence_demo_env (Inl 1) demo_registered))) = Some Null_Pointer"
  using dma_release_leaves_callback [OF demo_law demo_reach_registered _ _ _ _ demo_not_signaled(1), of 1]
  by (simp add: dma_idx_invalid_def CAM_DMA_FENCE_MAX_FENCES_def demo_registered_eq registered_row_def zero_dma_row_def)

end
