(* ===== verification/Ipa_Table.thy ===== *)
theory Ipa_Table
  imports Kernel_Prelude "HOL-Library.Monad_Syntax"
begin

text \<open>
  The hash tables that the IPA user library shares with the packet processor, after
  \<open>dataipa/ipanat/src/ipa_table.c\<close> and \<open>inc/ipa_table.h\<close>: a base table that is indexed by a hash, and
  behind it an expansion table whose entries hang off the base entries in doubly linked chains.

  The two tables are one mapped memory, here the list \<open>table_recs\<close> of its entries, the expansion
  entries from \<open>table_entries\<close> on. A pointer to an entry is its position; an access outside the memory is
  the result \<open>None\<close>. What an entry is, the client decides: it gives an \<open>ipa_table_entry_interface\<close>. The
  library changes the fields the processor reads only through DMA commands, which it returns in a list.
  \<open>uint16_t\<close> values are natural numbers, with the wrap-around written out.
\<close>

section \<open>Types\<close>

datatype ipa3_nat_mem_in = IPA_NAT_MEM_IN_DDR | IPA_NAT_MEM_IN_SRAM

primrec nat_mem_in_val :: "ipa3_nat_mem_in \<Rightarrow> nat" where
  "nat_mem_in_val IPA_NAT_MEM_IN_DDR = 0"
| "nat_mem_in_val IPA_NAT_MEM_IN_SRAM = 1"

datatype ipa_table_dma_type =
    IPA_NAT_BASE_TBL | IPA_NAT_EXPN_TBL | IPA_NAT_INDX_TBL | IPA_NAT_INDEX_EXPN_TBL
  | IPA_IPV6CT_BASE_TBL | IPA_IPV6CT_EXPN_TBL

primrec dma_type_val :: "ipa_table_dma_type \<Rightarrow> nat" where
  "dma_type_val IPA_NAT_BASE_TBL = 0"
| "dma_type_val IPA_NAT_EXPN_TBL = 1"
| "dma_type_val IPA_NAT_INDX_TBL = 2"
| "dma_type_val IPA_NAT_INDEX_EXPN_TBL = 3"
| "dma_type_val IPA_IPV6CT_BASE_TBL = 4"
| "dma_type_val IPA_IPV6CT_EXPN_TBL = 5"

datatype dma_help_type = HELP_UPDATE_HEAD | HELP_UPDATE_ENTRY | HELP_DELETE_HEAD

record ipa_table_dma_cmd_helper =
  help_offset :: nat
  table_type :: ipa_table_dma_type
  expn_table_type :: ipa_table_dma_type
  table_indx :: nat

text \<open>One DMA command; the \<open>entries\<close> of a command block are the length of its list.\<close>

record ipa_ioc_nat_dma_one =
  table_index :: nat
  base_addr :: nat
  dma_offset :: nat
  dma_data :: nat

type_synonym ipa_ioc_nat_dma_cmd = "ipa_ioc_nat_dma_one list"

text \<open>
  The client's callbacks. \<open>'e\<close> is an entry, \<open>'u\<close> the client's data for an insertion, \<open>'m\<close> an entry of the
  meta table, which only index tables have (\<open>None\<close> is the null pointer). A callback that writes an
  entry returns it, also when it fails.
\<close>

record ('e, 'u, 'm) ipa_table_entry_interface =
  entry_is_valid :: "'e \<Rightarrow> bool"
  entry_get_next_index :: "'e \<Rightarrow> nat"
  entry_get_prev_index :: "'e \<Rightarrow> nat \<Rightarrow> 'm list option \<Rightarrow> nat \<Rightarrow> nat"
  entry_set_prev_index :: "'e \<Rightarrow> nat \<Rightarrow> nat \<Rightarrow> 'm list option \<Rightarrow> nat \<Rightarrow> 'e \<times> 'm list option"
  entry_head_insert :: "'e \<Rightarrow> 'u \<Rightarrow> 'e \<times> (errno + nat)"
  entry_tail_insert :: "'e \<Rightarrow> 'u \<Rightarrow> 'e \<times> (errno + unit)"
  entry_get_delete_head_dma_command_data :: "'e \<Rightarrow> 'e \<Rightarrow> nat"

text \<open>\<open>entry_zero\<close> is what \<open>entry_size\<close> zero bytes are as an entry.\<close>

record ('e, 'u, 'm) ipa_table =
  nmi :: ipa3_nat_mem_in
  entry_size :: nat
  entry_zero :: 'e
  table_entries :: nat
  expn_table_entries :: nat
  tot_tbl_ents :: nat
  table_recs :: "'e list"
  cur_tbl_cnt :: nat
  cur_expn_tbl_cnt :: nat
  entry_interface :: "('e, 'u, 'm) ipa_table_entry_interface"
  dma_help :: "dma_help_type \<Rightarrow> ipa_table_dma_cmd_helper option"
  meta :: "'m list option"

record ipa_table_iterator =
  prev_index :: nat
  prev_entry :: "nat option"
  curr_index :: nat
  curr_entry :: "nat option"
  next_index :: nat
  next_entry :: "nat option"

definition IPA_TABLE_MAX_ENTRIES :: nat where "IPA_TABLE_MAX_ENTRIES = 5120"
definition IPA_TABLE_INVALID_ENTRY :: nat where "IPA_TABLE_INVALID_ENTRY = 0"

definition VALID_INDEX :: "nat \<Rightarrow> bool" where
  "VALID_INDEX idx \<longleftrightarrow> idx \<noteq> IPA_TABLE_INVALID_ENTRY"

definition inc16 :: "nat \<Rightarrow> nat" where "inc16 n = (n + 1) mod 2 ^ 16"
definition dec16 :: "nat \<Rightarrow> nat" where "dec16 n = (n + (2 ^ 16 - 1)) mod 2 ^ 16"

text \<open>Reading and writing the entry behind a pointer.\<close>

definition GOTO_REC :: "('e, 'u, 'm) ipa_table \<Rightarrow> nat \<Rightarrow> 'e option" where
  "GOTO_REC t p = (if p < length (table_recs t) then Some (table_recs t ! p) else None)"

definition set_rec :: "nat \<Rightarrow> 'e \<Rightarrow> ('e, 'u, 'm) ipa_table \<Rightarrow> ('e, 'u, 'm) ipa_table" where
  "set_rec p e t = t\<lparr>table_recs := (table_recs t)[p := e]\<rparr>"

abbreviation rec_valid :: "('e, 'u, 'm) ipa_table \<Rightarrow> 'e \<Rightarrow> bool" where
  "rec_valid t e \<equiv> entry_is_valid (entry_interface t) e"

abbreviation rec_next :: "('e, 'u, 'm) ipa_table \<Rightarrow> 'e \<Rightarrow> nat" where
  "rec_next t e \<equiv> entry_get_next_index (entry_interface t) e"

section \<open>Sizes\<close>

text \<open>
  The sizes are products with \<open>float\<close> and \<open>double\<close> constants that are then truncated. A positive
  constant is \<open>m / 2 ^ e\<close> with its significand \<open>m\<close>; the product with an integer is rounded to the
  significand's length, to even in a tie.
\<close>

fun bit_len :: "nat \<Rightarrow> nat" where
  "bit_len n = (if n = 0 then 0 else Suc (bit_len (n div 2)))"

declare bit_len.simps [simp del]

definition round_sig :: "nat \<Rightarrow> nat \<Rightarrow> nat" where
  "round_sig p x =
     (let k = bit_len x - p; q = x div 2 ^ k; r = x mod 2 ^ k in
      if k = 0 then x
      else if 2 * r > 2 ^ k \<or> (2 * r = 2 ^ k \<and> odd q) then Suc q * 2 ^ k
      else q * 2 ^ k)"

definition mul_float :: "nat \<Rightarrow> nat \<times> nat \<Rightarrow> nat" where
  "mul_float n c = round_sig 24 (n * fst c) div 2 ^ snd c"

definition mul_double :: "nat \<Rightarrow> nat \<times> nat \<Rightarrow> nat" where
  "mul_double n c = round_sig 53 (n * fst c) div 2 ^ snd c"

text \<open>The constants 0.8, 0.2, 1.00 and 0.43 as \<open>float\<close>, and the last also as \<open>double\<close>.\<close>

definition IPA_BASE_TABLE_PERCENTAGE :: "nat \<times> nat" where
  "IPA_BASE_TABLE_PERCENTAGE = (13421773, 24)"
definition IPA_EXPANSION_TABLE_PERCENTAGE :: "nat \<times> nat" where
  "IPA_EXPANSION_TABLE_PERCENTAGE = (13421773, 26)"
definition IPA_BASE_TABLE_PCNT_4SRAM :: "nat \<times> nat" where
  "IPA_BASE_TABLE_PCNT_4SRAM = (1, 0)"
definition IPA_EXPANSION_TABLE_PCNT_4SRAM :: "nat \<times> nat" where
  "IPA_EXPANSION_TABLE_PCNT_4SRAM = (14428406, 25)"
definition IPA_EXPANSION_TABLE_PCNT_4SRAM_double :: "nat \<times> nat" where
  "IPA_EXPANSION_TABLE_PCNT_4SRAM_double = (7746191359077253, 54)"

text \<open>The loop that halves \<open>tmp\<close> and doubles \<open>curr\<close>; it is entered with \<open>tmp\<close> at least 1.\<close>

fun pow2_loop :: "nat \<Rightarrow> nat \<Rightarrow> nat \<Rightarrow> nat \<times> nat" where
  "pow2_loop tmp prev cur =
     (if tmp \<le> 1 then (prev, cur) else pow2_loop (tmp div 2) cur ((cur * 2) mod 2 ^ 16))"

declare pow2_loop.simps [simp del]

definition Get2PowerTightUpperBound :: "nat \<Rightarrow> nat" where
  "Get2PowerTightUpperBound num =
     (if num = 0 then 2
      else (let (prev, cur) = pow2_loop num 0 2 in if num = prev then prev else cur))"

definition GetEvenTightUpperBound :: "nat \<Rightarrow> nat" where
  "GetEvenTightUpperBound num =
     (if num = 0 then 2 else if num mod 2 \<noteq> 0 then num + 1 else num)"

definition ipa_table_init ::
    "ipa3_nat_mem_in \<Rightarrow> nat \<Rightarrow> 'e \<Rightarrow> 'm list option \<Rightarrow> ('e, 'u, 'm) ipa_table_entry_interface \<Rightarrow>
     ('e, 'u, 'm) ipa_table" where
  "ipa_table_init nmi0 sz zero meta0 intf =
     \<lparr>nmi = nmi0, entry_size = sz, entry_zero = zero, table_entries = 0, expn_table_entries = 0,
      tot_tbl_ents = 0, table_recs = [], cur_tbl_cnt = 0, cur_expn_tbl_cnt = 0, entry_interface = intf,
      dma_help = (\<lambda>_. None), meta = meta0\<rparr>"

text \<open>The total is stored even when it is refused.\<close>

definition ipa_table_calculate_entries_num ::
    "('e, 'u, 'm) ipa_table \<Rightarrow> nat \<Rightarrow> ipa3_nat_mem_in \<Rightarrow> ('e, 'u, 'm) ipa_table \<times> (errno + unit)" where
  "ipa_table_calculate_entries_num t number_of_entries nmi0 =
     (if number_of_entries > IPA_TABLE_MAX_ENTRIES then (t, Inl EINVAL)
      else
        let (btp, etp) =
              (if nmi0 = IPA_NAT_MEM_IN_SRAM then (IPA_BASE_TABLE_PCNT_4SRAM, IPA_EXPANSION_TABLE_PCNT_4SRAM)
               else (IPA_BASE_TABLE_PERCENTAGE, IPA_EXPANSION_TABLE_PERCENTAGE));
            te = Get2PowerTightUpperBound (mul_float number_of_entries btp);
            xe = GetEvenTightUpperBound (mul_float number_of_entries etp);
            t' = t\<lparr>tot_tbl_ents := te + xe\<rparr> in
        if te + xe > IPA_TABLE_MAX_ENTRIES then (t', Inl EINVAL)
        else (t'\<lparr>table_entries := te, expn_table_entries := xe\<rparr>, Inr ()))"

definition ipa_table_calculate_size :: "('e, 'u, 'm) ipa_table \<Rightarrow> nat" where
  "ipa_table_calculate_size t = entry_size t * (table_entries t + expn_table_entries t)"

text \<open>\<open>mem\<close> is the memory at the base address.\<close>

definition ipa_table_calculate_addresses ::
    "('e, 'u, 'm) ipa_table \<Rightarrow> 'e list \<Rightarrow> ('e, 'u, 'm) ipa_table" where
  "ipa_table_calculate_addresses t mem = t\<lparr>table_recs := mem\<rparr>"

definition ipa_table_reset :: "('e, 'u, 'm) ipa_table \<Rightarrow> ('e, 'u, 'm) ipa_table option" where
  "ipa_table_reset t =
     (let n = table_entries t + expn_table_entries t in
      if n \<le> length (table_recs t)
      then Some (t\<lparr>table_recs := replicate n (entry_zero t) @ drop n (table_recs t)\<rparr>) else None)"

section \<open>DMA commands\<close>

definition ipa_table_dma_cmd_helper_init ::
    "nat \<Rightarrow> ipa_table_dma_type \<Rightarrow> ipa_table_dma_type \<Rightarrow> nat \<Rightarrow> ipa_table_dma_cmd_helper" where
  "ipa_table_dma_cmd_helper_init indx typ expn_typ ofs =
     \<lparr>help_offset = ofs, table_type = typ, expn_table_type = expn_typ, table_indx = indx\<rparr>"

definition ipa_table_dma_cmd_generate ::
    "ipa_table_dma_cmd_helper \<Rightarrow> bool \<Rightarrow> nat \<Rightarrow> nat \<Rightarrow> ipa_ioc_nat_dma_cmd \<Rightarrow> ipa_ioc_nat_dma_cmd" where
  "ipa_table_dma_cmd_generate h is_expn entry_offset data cmd =
     cmd @ [\<lparr>table_index = table_indx h,
             base_addr = dma_type_val (if is_expn then expn_table_type h else table_type h),
             dma_offset = (help_offset h + entry_offset) mod 2 ^ 32, dma_data = data\<rparr>]"

text \<open>
  The entry is given by its position \<open>p\<close> and, apart from it, by its index. \<open>None\<close> is the use of a helper
  that was not set; a bad index only leaves the command as it is, and no caller looks at the result.
\<close>

definition ipa_table_add_dma_cmd ::
    "('e, 'u, 'm) ipa_table \<Rightarrow> dma_help_type \<Rightarrow> nat \<Rightarrow> nat \<Rightarrow> nat \<Rightarrow> ipa_ioc_nat_dma_cmd \<Rightarrow>
     ((errno + unit) \<times> ipa_ioc_nat_dma_cmd) option" where
  "ipa_table_add_dma_cmd t ht p rec_index data cmd =
     (if rec_index \<ge> table_entries t + expn_table_entries t then Some (Inl EINVAL, cmd)
      else
        let is_expn = rec_index \<ge> table_entries t;
            entry_offset = (if is_expn then p - table_entries t else p) * entry_size t in
        do { h \<leftarrow> dma_help t ht;
             Some (Inr (), ipa_table_dma_cmd_generate h is_expn entry_offset data cmd) })"

section \<open>Rule handles\<close>

definition IPA_TABLE_TYPE_BITS :: nat where "IPA_TABLE_TYPE_BITS = 1"
definition IPA_TABLE_TYPE_MASK :: nat where "IPA_TABLE_TYPE_MASK = 1"
definition IPA_TABLE_INDX_MASK :: nat where "IPA_TABLE_INDX_MASK = 4095"
definition IPA_TABLE_TYPE_MEM_SHIFT :: nat where "IPA_TABLE_TYPE_MEM_SHIFT = 15"

definition MakeEntryHdl :: "('e, 'u, 'm) ipa_table \<Rightarrow> nat \<Rightarrow> nat" where
  "MakeEntryHdl t tbl_entry =
     (let hdl = (if tbl_entry \<ge> table_entries t
                 then (push_bit IPA_TABLE_TYPE_BITS (tbl_entry - table_entries t)) mod 2 ^ 16 OR IPA_TABLE_TYPE_MASK
                 else (push_bit IPA_TABLE_TYPE_BITS tbl_entry) mod 2 ^ 16) in
      (hdl OR push_bit IPA_TABLE_TYPE_MEM_SHIFT (nat_mem_in_val (nmi t))) mod 2 ^ 16)"

text \<open>The memory type, the table type and the index of a handle.\<close>

definition BREAK_RULE_HDL :: "('e, 'u, 'm) ipa_table \<Rightarrow> nat \<Rightarrow> nat \<times> nat \<times> nat" where
  "BREAK_RULE_HDL t hdl =
     (let mt = drop_bit IPA_TABLE_TYPE_MEM_SHIFT hdl AND IPA_TABLE_TYPE_MASK;
          iet = hdl AND IPA_TABLE_TYPE_MASK;
          indx = drop_bit IPA_TABLE_TYPE_BITS hdl AND IPA_TABLE_INDX_MASK in
      (mt, iet, (indx + (if iet \<noteq> 0 then table_entries t else 0)) mod 2 ^ 16))"

definition ipa_table_get_entry :: "('e, 'u, 'm) ipa_table \<Rightarrow> nat \<Rightarrow> errno + nat" where
  "ipa_table_get_entry t hdl =
     (let (mt, iet, rec_index) = BREAK_RULE_HDL t hdl in
      if rec_index \<ge> tot_tbl_ents t then Inl EINVAL else Inr rec_index)"

definition ipa_table_get_entry_by_index :: "('e, 'u, 'm) ipa_table \<Rightarrow> nat \<Rightarrow> nat option" where
  "ipa_table_get_entry_by_index t rec_index =
     (if rec_index = 0 \<or> rec_index \<ge> tot_tbl_ents t then None else Some rec_index)"

section \<open>Iterators\<close>

definition null_iterator :: ipa_table_iterator where
  "null_iterator = \<lparr>prev_index = 0, prev_entry = None, curr_index = 0, curr_entry = None,
                    next_index = 0, next_entry = None\<rparr>"

definition ipa_table_iterator_init ::
    "('e, 'u, 'm) ipa_table \<Rightarrow> nat \<Rightarrow> nat \<Rightarrow> (errno + ipa_table_iterator) option" where
  "ipa_table_iterator_init t p index =
     do { e \<leftarrow> GOTO_REC t p;
          Some
            (if \<not> rec_valid t e then Inl EINVAL
             else
               let pi = entry_get_prev_index (entry_interface t) e index (meta t) (table_entries t);
                   ni = rec_next t e;
                   pe = (if VALID_INDEX pi then ipa_table_get_entry_by_index t pi else None);
                   ne = (if VALID_INDEX ni then ipa_table_get_entry_by_index t ni else None) in
               if VALID_INDEX pi \<and> pe = None then Inl EPERM
               else if VALID_INDEX ni \<and> ne = None then Inl EPERM
               else Inr \<lparr>prev_index = pi, prev_entry = pe, curr_index = index, curr_entry = Some p,
                         next_index = ni, next_entry = ne\<rparr>) }"

definition ipa_table_iterator_next ::
    "ipa_table_iterator \<Rightarrow> ('e, 'u, 'm) ipa_table \<Rightarrow> (ipa_table_iterator \<times> (errno + unit)) option" where
  "ipa_table_iterator_next it t =
     do { p \<leftarrow> next_entry it;
          e \<leftarrow> GOTO_REC t p;
          let it' = it\<lparr>prev_entry := curr_entry it, prev_index := curr_index it,
                       curr_entry := next_entry it, curr_index := next_index it, next_index := rec_next t e\<rparr>;
          if \<not> VALID_INDEX (rec_next t e) then Some (it'\<lparr>next_entry := None\<rparr>, Inr ())
          else (let ne = ipa_table_get_entry_by_index t (rec_next t e) in
                Some (it'\<lparr>next_entry := ne\<rparr>, if ne = None then Inl EPERM else Inr ())) }"

text \<open>
  The search for the last entry of a chain. It goes where the links lead, so it need not end: \<open>None\<close>
  is also the search that does not. Only an entry that is its own successor is noticed.
\<close>

partial_function (option) iterator_end_loop ::
    "('e, 'u, 'm) ipa_table \<Rightarrow> nat \<Rightarrow> (errno + nat) option" where
  "iterator_end_loop t i =
     do { e \<leftarrow> GOTO_REC t i;
          let ni = rec_next t e;
          if \<not> VALID_INDEX ni then Some (Inr i)
          else if ni = i then Some (Inl EPERM)
          else iterator_end_loop t ni }"

declare iterator_end_loop.simps [code]

definition ipa_table_iterator_end ::
    "('e, 'u, 'm) ipa_table \<Rightarrow> nat \<Rightarrow> (errno + ipa_table_iterator) option" where
  "ipa_table_iterator_end t rec_index =
     do { r \<leftarrow> iterator_end_loop t rec_index;
          Some (case r of
                  Inl e \<Rightarrow> Inl e
                | Inr i \<Rightarrow> Inr (null_iterator\<lparr>prev_index := i, prev_entry := Some i\<rparr>)) }"

definition ipa_table_iterator_is_head_with_tail :: "ipa_table_iterator \<Rightarrow> bool" where
  "ipa_table_iterator_is_head_with_tail it \<longleftrightarrow> VALID_INDEX (next_index it) \<and> \<not> VALID_INDEX (prev_index it)"

section \<open>Walking a table\<close>

datatype When2Callback = WHEN_SLOT_EMPTY | WHEN_SLOT_FILLED

text \<open>
  A callback gets the table, the handle and the index of the entry, the position of its meta entry if
  there is one, and the caller's data; it may change the table and the data. The loop counts in 16 bits,
  the pointer into the memory does not wrap.
\<close>

type_synonym ('t, 's) ipa_table_walk_cb =
  "'t \<Rightarrow> nat \<Rightarrow> nat \<Rightarrow> nat option \<Rightarrow> 's \<Rightarrow> ('t \<times> 's \<times> int) option"

partial_function (option) walk_loop ::
    "When2Callback \<Rightarrow> (('e, 'u, 'm) ipa_table, 's) ipa_table_walk_cb \<Rightarrow> nat \<Rightarrow> nat \<Rightarrow> nat \<Rightarrow>
     ('e, 'u, 'm) ipa_table \<Rightarrow> 's \<Rightarrow> (('e, 'u, 'm) ipa_table \<times> 's \<times> int) option" where
  "walk_loop w cb tot i p t s =
     (if i \<ge> tot then Some (t, s, 0)
      else
        do { e \<leftarrow> GOTO_REC t p;
             if rec_valid t e \<longleftrightarrow> w = WHEN_SLOT_FILLED
             then
               do { r \<leftarrow> cb t (MakeEntryHdl t i) i
                          (if i \<ge> table_entries t \<and> meta t \<noteq> None then Some (i - table_entries t) else None) s;
                    if snd (snd r) \<noteq> 0 then Some r
                    else walk_loop w cb tot (inc16 i) (Suc p) (fst r) (fst (snd r)) }
             else walk_loop w cb tot (inc16 i) (Suc p) t s })"

declare walk_loop.simps [code]

definition ipa_table_walk ::
    "('e, 'u, 'm) ipa_table \<Rightarrow> nat \<Rightarrow> When2Callback \<Rightarrow> (('e, 'u, 'm) ipa_table, 's) ipa_table_walk_cb \<Rightarrow> 's \<Rightarrow>
     (('e, 'u, 'm) ipa_table \<times> 's \<times> (errno + int)) option" where
  "ipa_table_walk t start_index w cb s =
     (let tot = table_entries t + expn_table_entries t in
      if start_index \<ge> tot then Some (t, s, Inl EINVAL)
      else do { r \<leftarrow> walk_loop w cb tot start_index start_index t s;
                Some (fst r, fst (snd r), Inr (snd (snd r))) })"

definition mt_slot :: "(('e, 'u, 'm) ipa_table, 's) ipa_table_walk_cb" where
  "mt_slot t rule_hdl record_index meta_record s = Some (t, s, int record_index)"

definition FindExpnTblFreeEntry :: "('e, 'u, 'm) ipa_table \<Rightarrow> (errno + nat) option" where
  "FindExpnTblFreeEntry t =
     do { r \<leftarrow> ipa_table_walk t (table_entries t) WHEN_SLOT_EMPTY mt_slot ();
          Some (case snd (snd r) of
                  Inr ret \<Rightarrow> (if ret > 0 then Inr (nat ret mod 2 ^ 16) else Inl EPERM)
                | Inl _ \<Rightarrow> Inl EPERM) }"

section \<open>Insertion\<close>

text \<open>
  The result is the table, the DMA commands, and the error or the index of the new entry. An insertion
  that fails in the client's callback leaves what the callback wrote.
\<close>

definition InsertHead ::
    "('e, 'u, 'm) ipa_table \<Rightarrow> nat \<Rightarrow> 'u \<Rightarrow> ipa_ioc_nat_dma_cmd \<Rightarrow>
     (('e, 'u, 'm) ipa_table \<times> ipa_ioc_nat_dma_cmd \<times> (errno + nat)) option" where
  "InsertHead t rec_index user_data cmd =
     do { e \<leftarrow> GOTO_REC t rec_index;
          let (e', r) = entry_head_insert (entry_interface t) e user_data;
          let t' = set_rec rec_index e' t;
          (case r of
             Inl err \<Rightarrow> Some (t', cmd, Inl err)
           | Inr enable_data \<Rightarrow>
               do { (_, cmd') \<leftarrow> ipa_table_add_dma_cmd t' HELP_UPDATE_HEAD rec_index rec_index enable_data cmd;
                    Some (t'\<lparr>cur_tbl_cnt := inc16 (cur_tbl_cnt t')\<rparr>, cmd', Inr rec_index) }) }"

text \<open>The callback for a chained entry: only an entry of an index table is enabled by the library itself.\<close>

definition tail_insert ::
    "('e, 'u, 'm) ipa_table \<Rightarrow> 'e \<Rightarrow> 'u \<Rightarrow> 'e \<times> (errno + nat)" where
  "tail_insert t e user_data =
     (if meta t \<noteq> None
      then (let (e', r) = entry_tail_insert (entry_interface t) e user_data in
            (e', case r of Inl err \<Rightarrow> Inl err | Inr _ \<Rightarrow> Inr 0))
      else entry_head_insert (entry_interface t) e user_data)"

definition InsertTail ::
    "('e, 'u, 'm) ipa_table \<Rightarrow> nat \<Rightarrow> 'u \<Rightarrow> ipa_ioc_nat_dma_cmd \<Rightarrow>
     (('e, 'u, 'm) ipa_table \<times> ipa_ioc_nat_dma_cmd \<times> (errno + nat)) option" where
  "InsertTail t rec_index user_data cmd =
     do { ie \<leftarrow> ipa_table_iterator_end t rec_index;
          (case ie of
             Inl err \<Rightarrow> Some (t, cmd, Inl err)
           | Inr it \<Rightarrow>
               do { fe \<leftarrow> FindExpnTblFreeEntry t;
                    (case fe of
                       Inl err \<Rightarrow> Some (t, cmd, Inl err)
                     | Inr ci \<Rightarrow>
                         do { e \<leftarrow> GOTO_REC t ci;
                              let (e', r) = tail_insert t e user_data;
                              (case r of
                                 Inl err \<Rightarrow> Some (set_rec ci e' t, cmd, Inl err)
                               | Inr enable_data \<Rightarrow>
                                   do { let (e'', m') = entry_set_prev_index (entry_interface t) e' ci
                                                          (prev_index it) (meta t) (table_entries t);
                                        let t' = (set_rec ci e'' t)\<lparr>meta := m'\<rparr>;
                                        (_, cmd1) \<leftarrow> (if meta t = None
                                                   then ipa_table_add_dma_cmd t' HELP_UPDATE_HEAD ci ci enable_data cmd
                                                   else Some (Inr (), cmd));
                                        pe \<leftarrow> prev_entry it;
                                        (_, cmd2) \<leftarrow> ipa_table_add_dma_cmd t' HELP_UPDATE_ENTRY pe
                                                     (prev_index it) ci cmd1;
                                        Some (t'\<lparr>cur_expn_tbl_cnt := inc16 (cur_expn_tbl_cnt t')\<rparr>,
                                              cmd2, Inr ci) }) }) }) }"

text \<open>The index given is the hash; the answer has the index taken and its handle.\<close>

definition ipa_table_add_entry ::
    "('e, 'u, 'm) ipa_table \<Rightarrow> 'u \<Rightarrow> nat \<Rightarrow> ipa_ioc_nat_dma_cmd \<Rightarrow>
     (('e, 'u, 'm) ipa_table \<times> ipa_ioc_nat_dma_cmd \<times> (errno + nat \<times> nat)) option" where
  "ipa_table_add_entry t user_data rec_index cmd =
     do { e \<leftarrow> GOTO_REC t rec_index;
          (t', cmd', r) \<leftarrow> (if \<not> rec_valid t e then InsertHead t rec_index user_data cmd
                           else InsertTail t rec_index user_data cmd);
          Some (t', cmd', case r of Inl err \<Rightarrow> Inl err | Inr i \<Rightarrow> Inr (i, MakeEntryHdl t' i)) }"

section \<open>Deletion\<close>

text \<open>
  The command that takes an entry out of the processor's sight: a single head is disabled, a head with
  a tail is only marked, any other entry is unlinked.
\<close>

definition ipa_table_create_delete_command ::
    "('e, 'u, 'm) ipa_table \<Rightarrow> ipa_ioc_nat_dma_cmd \<Rightarrow> ipa_table_iterator \<Rightarrow> ipa_ioc_nat_dma_cmd option" where
  "ipa_table_create_delete_command t cmd it =
     (if \<not> VALID_INDEX (prev_index it)
      then
        do { cp \<leftarrow> curr_entry it;
             (ht, data) \<leftarrow>
               (if VALID_INDEX (next_index it)
                then do { ce \<leftarrow> GOTO_REC t cp;
                          np \<leftarrow> next_entry it;
                          ne \<leftarrow> GOTO_REC t np;
                          Some (HELP_DELETE_HEAD, entry_get_delete_head_dma_command_data (entry_interface t) ce ne) }
                else Some (HELP_UPDATE_HEAD, 0));
             (_, cmd') \<leftarrow> ipa_table_add_dma_cmd t ht cp (curr_index it) data cmd;
             Some cmd' }
      else
        do { pp \<leftarrow> prev_entry it;
             (_, cmd') \<leftarrow> ipa_table_add_dma_cmd t HELP_UPDATE_ENTRY pp (prev_index it) (next_index it) cmd;
             Some cmd' })"

definition ipa_table_erase_entry ::
    "('e, 'u, 'm) ipa_table \<Rightarrow> nat \<Rightarrow> ('e, 'u, 'm) ipa_table option" where
  "ipa_table_erase_entry t index =
     (if index < length (table_recs t)
      then
        let t' = set_rec index (entry_zero t) t in
        Some (if index < table_entries t then t'\<lparr>cur_tbl_cnt := dec16 (cur_tbl_cnt t')\<rparr>
              else t'\<lparr>cur_expn_tbl_cnt := dec16 (cur_expn_tbl_cnt t')\<rparr>)
      else None)"

definition ipa_table_delete_entry ::
    "('e, 'u, 'm) ipa_table \<Rightarrow> ipa_table_iterator \<Rightarrow> bool \<Rightarrow> ('e, 'u, 'm) ipa_table option" where
  "ipa_table_delete_entry t it is_prev_empty =
     do { t' \<leftarrow>
            (if VALID_INDEX (next_index it)
             then do { np \<leftarrow> next_entry it;
                       ne \<leftarrow> GOTO_REC t np;
                       let (ne', m') = entry_set_prev_index (entry_interface t) ne (next_index it) (prev_index it)
                                         (meta t) (table_entries t);
                       Some ((set_rec np ne' t)\<lparr>meta := m'\<rparr>) }
             else if is_prev_empty
             then (case prev_entry it of
                     None \<Rightarrow> Some t
                   | Some pp \<Rightarrow>
                       do { _ \<leftarrow> GOTO_REC t pp;
                            Some ((set_rec pp (entry_zero t) t)\<lparr>cur_tbl_cnt := dec16 (cur_tbl_cnt t)\<rparr>) })
             else Some t);
          ipa_table_erase_entry t' (curr_index it) }"

section \<open>Sizes that fit in SRAM\<close>

text \<open>
  The number of entries is counted up in 16 bits until the two tables no longer fit; \<open>None\<close> is the
  search that does not end.
\<close>

definition sram_size_of :: "nat \<Rightarrow> nat \<Rightarrow> nat \<Rightarrow> nat" where
  "sram_size_of ent1 ent2 tot =
     (let te = Get2PowerTightUpperBound (mul_double tot IPA_BASE_TABLE_PCNT_4SRAM);
          xe = GetEvenTightUpperBound (mul_double tot IPA_EXPANSION_TABLE_PCNT_4SRAM_double) in
      ent1 * (te + xe) + ent2 * (te + xe))"

partial_function (option) sram_entries_loop ::
    "nat \<Rightarrow> nat \<Rightarrow> nat \<Rightarrow> nat \<Rightarrow> nat \<Rightarrow> nat option" where
  "sram_entries_loop sram_size ent1 ent2 num tot =
     (if sram_size_of ent1 ent2 tot > sram_size then Some num
      else sram_entries_loop sram_size ent1 ent2 tot (inc16 tot))"

declare sram_entries_loop.simps [code]

definition ipa_calc_num_sram_table_entries :: "nat \<Rightarrow> nat \<Rightarrow> nat \<Rightarrow> (nat \<times> (errno + unit)) option" where
  "ipa_calc_num_sram_table_entries sram_size ent1 ent2 =
     do { n \<leftarrow> sram_entries_loop sram_size ent1 ent2 0 1;
          Some (n, if n \<noteq> 0 then Inr () else Inl EPERM) }"

end
