(* ===== verification/Ipa_Ipv6ct.thy ===== *)
theory Ipa_Ipv6ct
  imports Ipa_Table
begin

text \<open>
  The IPv6 connection tracking table of the IPA user library, after \<open>dataipa/ipanat/src/ipa_ipv6ct.c\<close> and
  \<open>inc/ipa_ipv6cti.h\<close>, a client of \<open>Ipa_Table\<close>, and the memory descriptor that it gets its memory from,
  \<open>src/ipa_mem_descriptor.c\<close>.

  The entry points run under \<open>ipv6ct_mutex\<close> (\<open>add_tbl\<close> does not, its caller must), each is one step on
  the library's global state. System calls take their outcome from the record \<open>ipa_env\<close>: the outcomes of
  the mutex calls, of \<open>open\<close>, \<open>mmap\<close>, \<open>close\<close> and of each \<open>ioctl\<close>, which for DMA commands is a function of the
  commands and the table's memory. \<open>None\<close> is the use of a null pointer or an access outside the memory.
\<close>

section \<open>Entries and rules\<close>

record ipa_ipv6ct_hw_entry =
  e_src_ipv6_lsb :: u64
  e_src_ipv6_msb :: u64
  e_dest_ipv6_lsb :: u64
  e_dest_ipv6_msb :: u64
  e_uc_activation_index :: "13 word"
  e_s :: bool
  e_redirect :: bool
  e_enable :: bool
  e_time_stamp :: "24 word"
  e_protocol :: u8
  e_next_index :: u16
  e_dest_port :: u16
  e_src_port :: u16
  e_ucp :: bool
  e_out_allowed :: bool
  e_in_allowed :: bool
  e_prev_index :: u16

record ipa_ipv6ct_rule =
  src_ipv6_lsb :: u64
  src_ipv6_msb :: u64
  dest_ipv6_lsb :: u64
  dest_ipv6_msb :: u64
  direction_settings :: nat
  ucp :: bool
  s_bit :: bool
  uc_activation_index :: u16
  src_port :: u16
  dest_port :: u16
  protocol :: u8

definition ct_zero_entry :: ipa_ipv6ct_hw_entry where
  "ct_zero_entry =
     \<lparr>e_src_ipv6_lsb = 0, e_src_ipv6_msb = 0, e_dest_ipv6_lsb = 0, e_dest_ipv6_msb = 0,
      e_uc_activation_index = 0, e_s = False, e_redirect = False, e_enable = False, e_time_stamp = 0,
      e_protocol = 0, e_next_index = 0, e_dest_port = 0, e_src_port = 0, e_ucp = False,
      e_out_allowed = False, e_in_allowed = False, e_prev_index = 0\<rparr>"

definition IPA_IPV6CT_MAX_TBLS :: nat where "IPA_IPV6CT_MAX_TBLS = 1"
definition IPA_IPV6CT_RULE_FLAG_FIELD_OFFSET :: nat where "IPA_IPV6CT_RULE_FLAG_FIELD_OFFSET = 34"
definition IPA_IPV6CT_RULE_NEXT_FIELD_OFFSET :: nat where "IPA_IPV6CT_RULE_NEXT_FIELD_OFFSET = 40"
definition IPA_IPV6CT_RULE_PROTO_FIELD_OFFSET :: nat where "IPA_IPV6CT_RULE_PROTO_FIELD_OFFSET = 38"
definition IPA_IPV6CT_INVALID_PROTO_FIELD_VALUE :: nat where
  "IPA_IPV6CT_INVALID_PROTO_FIELD_VALUE = 0xFF00"
definition IPA_IPV6CT_INVALID_PROTO_FIELD_CMP :: u8 where "IPA_IPV6CT_INVALID_PROTO_FIELD_CMP = 0xFF"

definition IPA_IPV6CT_DIRECTION_DENY_ALL :: nat where "IPA_IPV6CT_DIRECTION_DENY_ALL = 0"
definition IPA_IPV6CT_DIRECTION_ALLOW_OUT :: nat where "IPA_IPV6CT_DIRECTION_ALLOW_OUT = 1"
definition IPA_IPV6CT_DIRECTION_ALLOW_IN :: nat where "IPA_IPV6CT_DIRECTION_ALLOW_IN = 2"
definition IPA_IPV6CT_DIRECTION_ALLOW_ALL :: nat where "IPA_IPV6CT_DIRECTION_ALLOW_ALL = 3"

text \<open>\<open>sizeof(ipa_ipv6ct_hw_entry)\<close>: eight words of 64 bits.\<close>

definition ct_entry_size :: nat where "ct_entry_size = 64"

text \<open>
  The layout of an entry: what a store of 16 bits at a byte offset does to the fields, for the three
  offsets that DMA commands use (little endian, as the comment on the structure demands). The store at
  the protocol's offset also covers the upper byte of the time stamp.
\<close>

definition ct_store :: "nat \<Rightarrow> nat \<Rightarrow> ipa_ipv6ct_hw_entry \<Rightarrow> ipa_ipv6ct_hw_entry" where
  "ct_store ofs data e =
     (if ofs = IPA_IPV6CT_RULE_FLAG_FIELD_OFFSET
      then e\<lparr>e_redirect := odd (data div 2 ^ 14), e_enable := odd (data div 2 ^ 15)\<rparr>
      else if ofs = IPA_IPV6CT_RULE_NEXT_FIELD_OFFSET then e\<lparr>e_next_index := of_nat data\<rparr>
      else if ofs = IPA_IPV6CT_RULE_PROTO_FIELD_OFFSET
      then e\<lparr>e_time_stamp := (e_time_stamp e AND 0xFFFF) OR push_bit 16 (of_nat (data mod 2 ^ 8)),
             e_protocol := of_nat (data div 2 ^ 8)\<rparr>
      else e)"

section \<open>The callbacks\<close>

definition table_entry_is_valid :: "ipa_ipv6ct_hw_entry \<Rightarrow> bool" where
  "table_entry_is_valid e = e_enable e"

definition table_entry_get_next_index :: "ipa_ipv6ct_hw_entry \<Rightarrow> nat" where
  "table_entry_get_next_index e = unat (e_next_index e)"

definition table_entry_get_prev_index ::
    "ipa_ipv6ct_hw_entry \<Rightarrow> nat \<Rightarrow> unit list option \<Rightarrow> nat \<Rightarrow> nat" where
  "table_entry_get_prev_index e entry_index m base_table_size = unat (e_prev_index e)"

definition table_entry_set_prev_index ::
    "ipa_ipv6ct_hw_entry \<Rightarrow> nat \<Rightarrow> nat \<Rightarrow> unit list option \<Rightarrow> nat \<Rightarrow>
     ipa_ipv6ct_hw_entry \<times> unit list option" where
  "table_entry_set_prev_index e entry_index prev m base_table_size = (e\<lparr>e_prev_index := of_nat prev\<rparr>, m)"

text \<open>The allow bits are only ever set, so an entry must be clean before.\<close>

definition table_entry_copy_from_user ::
    "ipa_ipv6ct_hw_entry \<Rightarrow> ipa_ipv6ct_rule \<Rightarrow> ipa_ipv6ct_hw_entry \<times> (errno + unit)" where
  "table_entry_copy_from_user e u =
     (let e' = e\<lparr>e_src_ipv6_lsb := src_ipv6_lsb u, e_src_ipv6_msb := src_ipv6_msb u,
                 e_dest_ipv6_lsb := dest_ipv6_lsb u, e_dest_ipv6_msb := dest_ipv6_msb u,
                 e_protocol := protocol u, e_src_port := src_port u, e_dest_port := dest_port u,
                 e_ucp := ucp u, e_uc_activation_index := ucast (uc_activation_index u), e_s := s_bit u\<rparr> in
      if direction_settings u = IPA_IPV6CT_DIRECTION_DENY_ALL then (e', Inr ())
      else if direction_settings u = IPA_IPV6CT_DIRECTION_ALLOW_OUT then (e'\<lparr>e_out_allowed := True\<rparr>, Inr ())
      else if direction_settings u = IPA_IPV6CT_DIRECTION_ALLOW_IN then (e'\<lparr>e_in_allowed := True\<rparr>, Inr ())
      else if direction_settings u = IPA_IPV6CT_DIRECTION_ALLOW_ALL
      then (e'\<lparr>e_out_allowed := True, e_in_allowed := True\<rparr>, Inr ())
      else (e', Inl EINVAL))"

text \<open>The command data of an insertion: the enable flag, bit 15 of \<open>ipa_ipv6ct_flags\<close>.\<close>

definition ct_enable_flags :: nat where "ct_enable_flags = 2 ^ 15"

definition table_entry_head_insert ::
    "ipa_ipv6ct_hw_entry \<Rightarrow> ipa_ipv6ct_rule \<Rightarrow> ipa_ipv6ct_hw_entry \<times> (errno + nat)" where
  "table_entry_head_insert e u =
     (let (e', r) = table_entry_copy_from_user e u in
      (e', case r of Inl err \<Rightarrow> Inl err | Inr _ \<Rightarrow> Inr ct_enable_flags))"

definition table_entry_tail_insert ::
    "ipa_ipv6ct_hw_entry \<Rightarrow> ipa_ipv6ct_rule \<Rightarrow> ipa_ipv6ct_hw_entry \<times> (errno + unit)" where
  "table_entry_tail_insert e u =
     (let (e', r) = table_entry_copy_from_user e u in
      (case r of Inl err \<Rightarrow> (e', Inl err) | Inr _ \<Rightarrow> (e'\<lparr>e_enable := True\<rparr>, Inr ())))"

definition table_entry_get_delete_head_dma_command_data ::
    "ipa_ipv6ct_hw_entry \<Rightarrow> ipa_ipv6ct_hw_entry \<Rightarrow> nat" where
  "table_entry_get_delete_head_dma_command_data head nx = IPA_IPV6CT_INVALID_PROTO_FIELD_VALUE"

definition ct_entry_interface ::
    "(ipa_ipv6ct_hw_entry, ipa_ipv6ct_rule, unit) ipa_table_entry_interface" where
  "ct_entry_interface =
     \<lparr>entry_is_valid = table_entry_is_valid, entry_get_next_index = table_entry_get_next_index,
      entry_get_prev_index = table_entry_get_prev_index, entry_set_prev_index = table_entry_set_prev_index,
      entry_head_insert = table_entry_head_insert, entry_tail_insert = table_entry_tail_insert,
      entry_get_delete_head_dma_command_data = table_entry_get_delete_head_dma_command_data\<rparr>"

type_synonym ct_table = "(ipa_ipv6ct_hw_entry, ipa_ipv6ct_rule, unit) ipa_table"

section \<open>The hash\<close>

function xor_segments_loop :: "u64 \<Rightarrow> u16 \<Rightarrow> u16" where
  "xor_segments_loop num ret =
     (if num = 0 then ret else xor_segments_loop (drop_bit 16 num) (ret XOR ucast (num AND 0xFFFF)))"
  by pat_completeness auto
termination
proof (relation "measure (\<lambda>(num, ret). unat num)", simp_all)
  fix num :: u64
  assume "num \<noteq> 0"
  then have "0 < unat num" by (simp add: unat_gt_0)
  then show "unat (drop_bit 16 num) < unat num"
    by (simp add: unat_drop_bit_eq drop_bit_eq_div unat_div)
qed

declare xor_segments_loop.simps [simp del]

definition ipa_ipv6ct_xor_segments :: "u64 \<Rightarrow> u16" where
  "ipa_ipv6ct_xor_segments num = xor_segments_loop num 0"

definition ipa_ipv6ct_hash :: "ipa_ipv6ct_rule \<Rightarrow> u16 \<Rightarrow> u16" where
  "ipa_ipv6ct_hash rule sz =
     (let h = ipa_ipv6ct_xor_segments (src_ipv6_lsb rule) XOR ipa_ipv6ct_xor_segments (src_ipv6_msb rule)
              XOR ipa_ipv6ct_xor_segments (dest_ipv6_lsb rule) XOR ipa_ipv6ct_xor_segments (dest_ipv6_msb rule)
              XOR src_port rule XOR dest_port rule XOR ucast (protocol rule);
          h' = h AND sz in
      if h' = 0 then sz else h')"

section \<open>The memory descriptor\<close>

record ipa_mem_descriptor =
  orig_rqst_size :: nat
  mmap_size :: nat
  addr_offset :: nat
  md_table_index :: nat
  md_valid :: bool
  consider_using_sram :: bool
  sram_available :: bool
  sram_to_be_used :: bool
  nat_sram_info :: "nat \<times> nat \<times> nat"

text \<open>What the tables are given to the processor with.\<close>

record ipa_ioc_ipv6ct_init =
  ini_base_table_offset :: nat
  ini_expn_table_offset :: nat
  ini_table_entries :: nat
  ini_expn_table_entries :: nat
  ini_tbl_index :: nat

text \<open>
  The outcomes of system calls. The SRAM information is the available size, the offset of the table in
  the mapping and the size to request; the allocation gives an offset; a mapping of a size is the memory.
\<close>

record ipa_env =
  lock_ok :: bool
  unlock_ok :: bool
  open_desc :: "nat option"
  ioctl_sram_info :: "(nat \<times> nat \<times> nat) option"
  ioctl_alloc :: "nat \<Rightarrow> errno + nat"
  dev_open_ok :: bool
  mmap_mem :: "nat \<Rightarrow> ipa_ipv6ct_hw_entry list option"
  dev_close_ok :: bool
  ioctl_del :: "nat \<Rightarrow> ipa3_nat_mem_in \<Rightarrow> errno + unit"
  ioctl_init :: "ipa_ioc_ipv6ct_init \<Rightarrow> errno + unit"
  ioctl_dma :: "ipa3_nat_mem_in \<Rightarrow> ipa_ioc_nat_dma_cmd \<Rightarrow> ipa_ipv6ct_hw_entry list \<Rightarrow>
                bool \<times> ipa_ipv6ct_hw_entry list"

definition md_zero :: ipa_mem_descriptor where
  "md_zero = \<lparr>orig_rqst_size = 0, mmap_size = 0, addr_offset = 0, md_table_index = 0, md_valid = False,
              consider_using_sram = False, sram_available = False, sram_to_be_used = False,
              nat_sram_info = (0, 0, 0)\<rparr>"

definition ipa_mem_descriptor_init ::
    "nat \<Rightarrow> nat \<Rightarrow> bool \<Rightarrow> ipa_mem_descriptor \<Rightarrow> ipa_mem_descriptor" where
  "ipa_mem_descriptor_init sz indx sram md =
     md\<lparr>orig_rqst_size := sz, mmap_size := sz, md_table_index := indx, consider_using_sram := sram\<rparr>"

definition AllocateMemory :: "ipa_env \<Rightarrow> ipa_mem_descriptor \<Rightarrow> ipa_mem_descriptor \<times> (errno + unit)" where
  "AllocateMemory env md =
     (let md1 = md\<lparr>sram_available := False, sram_to_be_used := False, nat_sram_info := (0, 0, 0)\<rparr>;
          md2 = (case ioctl_sram_info env of
                   None \<Rightarrow> md1
                 | Some info \<Rightarrow>
                     md1\<lparr>nat_sram_info := info, sram_available := True,
                         sram_to_be_used := consider_using_sram md \<and> orig_rqst_size md \<le> fst info\<rparr>) in
      case ioctl_alloc env (orig_rqst_size md) of
        Inl err \<Rightarrow> (md2, Inl err)
      | Inr ofs \<Rightarrow> (md2\<lparr>addr_offset := ofs\<rparr>, Inr ()))"

text \<open>
  The mapping. A device that cannot be closed is an error after the memory has been mapped. The memory
  returned starts at the base address, which in SRAM is behind the mapping's.
\<close>

definition MapMemory ::
    "ipa_env \<Rightarrow> ipa_mem_descriptor \<Rightarrow> ipa_mem_descriptor \<times> (errno + ipa_ipv6ct_hw_entry list)" where
  "MapMemory env md =
     (if \<not> dev_open_ok env then (md, Inl EIO)
      else
        let md' = md\<lparr>mmap_size := (if sram_to_be_used md then snd (snd (nat_sram_info md)) else orig_rqst_size md)\<rparr> in
        case mmap_mem env (mmap_size md') of
          None \<Rightarrow> (md', Inl EINVAL)
        | Some mem \<Rightarrow> (md', if dev_close_ok env then Inr mem else Inl EINVAL))"

definition DeallocateMemory :: "ipa_env \<Rightarrow> ipa_mem_descriptor \<Rightarrow> errno + unit" where
  "DeallocateMemory env md =
     ioctl_del env (md_table_index md) (if sram_to_be_used md then IPA_NAT_MEM_IN_SRAM else IPA_NAT_MEM_IN_DDR)"

text \<open>After a failed mapping the memory is given back, and the outcome of that ignored.\<close>

definition ipa_mem_descriptor_allocate_memory ::
    "ipa_env \<Rightarrow> ipa_mem_descriptor \<Rightarrow> ipa_mem_descriptor \<times> (errno + ipa_ipv6ct_hw_entry list)" where
  "ipa_mem_descriptor_allocate_memory env md =
     (case AllocateMemory env md of
        (md1, Inl err) \<Rightarrow> (md1, Inl err)
      | (md1, Inr _) \<Rightarrow>
          (case MapMemory env md1 of
             (md2, Inl err) \<Rightarrow> (md2, Inl err)
           | (md2, Inr mem) \<Rightarrow> (md2\<lparr>md_valid := True\<rparr>, Inr mem)))"

definition ipa_mem_descriptor_delete ::
    "ipa_env \<Rightarrow> ipa_mem_descriptor \<Rightarrow> ipa_mem_descriptor \<times> (errno + unit)" where
  "ipa_mem_descriptor_delete env md =
     (if \<not> md_valid md then (md, Inl EINVAL)
      else (md\<lparr>md_valid := False\<rparr>, DeallocateMemory env md))"

section \<open>Tables\<close>

record ipa_ipv6ct_table =
  mem_desc :: ipa_mem_descriptor
  table :: ct_table

text \<open>The descriptor of the opened driver, where there is one, is the version of the hardware.\<close>

record ipa_ipv6ct =
  ipa_desc :: "nat option"
  tables :: "nat \<Rightarrow> ipa_ipv6ct_table"
  table_cnt :: nat

definition IPA_HW_v4_0 :: nat where "IPA_HW_v4_0 = 14"

text \<open>A table of zero bytes; its callbacks are null pointers, and are not used before it is set up.\<close>

definition ct_zero_table :: ipa_ipv6ct_table where
  "ct_zero_table = \<lparr>mem_desc = md_zero,
                    table = ipa_table_init IPA_NAT_MEM_IN_DDR 0 ct_zero_entry None ct_entry_interface\<rparr>"

definition ipa_ipv6ct_create_table_dma_cmd_helpers :: "ipa_ipv6ct_table \<Rightarrow> nat \<Rightarrow> ipa_ipv6ct_table" where
  "ipa_ipv6ct_create_table_dma_cmd_helpers ct indx =
     (let ofs = addr_offset (mem_desc ct);
          helper = (\<lambda>field. ipa_table_dma_cmd_helper_init indx IPA_IPV6CT_BASE_TBL IPA_IPV6CT_EXPN_TBL (ofs + field)) in
      ct\<lparr>table := (table ct)\<lparr>dma_help :=
           (\<lambda>ht. case ht of
                   HELP_UPDATE_HEAD \<Rightarrow> Some (helper IPA_IPV6CT_RULE_FLAG_FIELD_OFFSET)
                 | HELP_UPDATE_ENTRY \<Rightarrow> Some (helper IPA_IPV6CT_RULE_NEXT_FIELD_OFFSET)
                 | HELP_DELETE_HEAD \<Rightarrow> Some (helper IPA_IPV6CT_RULE_PROTO_FIELD_OFFSET))\<rparr>\<rparr>)"

definition ipa_ipv6ct_create_table ::
    "ipa_env \<Rightarrow> ipa_ipv6ct_table \<Rightarrow> nat \<Rightarrow> nat \<Rightarrow> (ipa_ipv6ct_table \<times> (errno + unit)) option" where
  "ipa_ipv6ct_create_table env ct number_of_entries indx =
     (let t0 = ipa_table_init IPA_NAT_MEM_IN_DDR ct_entry_size ct_zero_entry None ct_entry_interface;
          (t1, r) = ipa_table_calculate_entries_num t0 number_of_entries IPA_NAT_MEM_IN_DDR in
      case r of
        Inl err \<Rightarrow> Some (ct\<lparr>table := t1\<rparr>, Inl err)
      | Inr _ \<Rightarrow>
          let md0 = ipa_mem_descriptor_init (ipa_table_calculate_size t1) indx False (mem_desc ct);
              (md, mr) = ipa_mem_descriptor_allocate_memory env md0 in
          case mr of
            Inl err \<Rightarrow> Some (ct_zero_table, Inl err)
          | Inr mem \<Rightarrow>
              do { t2 \<leftarrow> ipa_table_reset (ipa_table_calculate_addresses t1 mem);
                   Some (ipa_ipv6ct_create_table_dma_cmd_helpers (ct\<lparr>mem_desc := md, table := t2\<rparr>) indx, Inr ()) })"

definition ipa_ipv6ct_destroy_table ::
    "ipa_env \<Rightarrow> ipa_ipv6ct_table \<Rightarrow> ipa_ipv6ct_table \<times> (errno + unit)" where
  "ipa_ipv6ct_destroy_table env ct =
     (ct_zero_table, snd (ipa_mem_descriptor_delete env (mem_desc ct)))"

text \<open>The processor wants the size of the base table less one, its mask for the hash.\<close>

definition ipa_ipv6ct_post_init_cmd :: "ipa_env \<Rightarrow> ipa_ipv6ct_table \<Rightarrow> nat \<Rightarrow> errno + unit" where
  "ipa_ipv6ct_post_init_cmd env ct indx =
     ioctl_init env
       \<lparr>ini_base_table_offset = addr_offset (mem_desc ct),
        ini_expn_table_offset = addr_offset (mem_desc ct) + table_entries (table ct) * ct_entry_size,
        ini_table_entries = table_entries (table ct) - 1,
        ini_expn_table_entries = expn_table_entries (table ct), ini_tbl_index = indx\<rparr>"

text \<open>The commands of a block change the memory that the table is in.\<close>

definition ipa_ipv6ct_post_dma_cmd ::
    "ipa_env \<Rightarrow> ct_table \<Rightarrow> ipa_ioc_nat_dma_cmd \<Rightarrow> ct_table \<times> (errno + unit)" where
  "ipa_ipv6ct_post_dma_cmd env t cmd =
     (let (ok, mem) = ioctl_dma env IPA_NAT_MEM_IN_DDR cmd (table_recs t) in
      (t\<lparr>table_recs := mem\<rparr>, if ok then Inr () else Inl EIO))"

section \<open>The entry points\<close>

text \<open>
  The initial state: no driver opened, zeroed tables. Handles are positions of tables from 1 on; 0 is
  none. Null pointers for results and rules, which the code refuses, are not represented.
\<close>

definition ct_initial :: ipa_ipv6ct where
  "ct_initial = \<lparr>ipa_desc = None, tables = (\<lambda>_. ct_zero_table), table_cnt = 0\<rparr>"

definition set_ct_table :: "nat \<Rightarrow> ipa_ipv6ct_table \<Rightarrow> ipa_ipv6ct \<Rightarrow> ipa_ipv6ct" where
  "set_ct_table i ct s = s\<lparr>tables := (tables s)(i := ct)\<rparr>"

text \<open>The exits of \<open>ipa_ipv6ct_add_tbl\<close> after the driver was opened.\<close>

definition bail_ipa_desc :: "ipa_ipv6ct \<Rightarrow> ipa_ipv6ct" where
  "bail_ipa_desc s = (if table_cnt s = 0 then s\<lparr>ipa_desc := None\<rparr> else s)"

definition ipa_ipv6ct_add_tbl ::
    "ipa_env \<Rightarrow> nat \<Rightarrow> ipa_ipv6ct \<Rightarrow> (ipa_ipv6ct \<times> (errno + nat)) option" where
  "ipa_ipv6ct_add_tbl env number_of_entries s =
     (if number_of_entries = 0 then Some (s, Inl EINVAL)
      else if table_cnt s \<ge> IPA_IPV6CT_MAX_TBLS then Some (s, Inl EINVAL)
      else
        let s1 = (if ipa_desc s = None then s\<lparr>ipa_desc := open_desc env\<rparr> else s) in
        case ipa_desc s1 of
          None \<Rightarrow> Some (s1, Inl EIO)
        | Some ver \<Rightarrow>
            if ver < IPA_HW_v4_0 then Some (bail_ipa_desc s1, Inl EPERM)
            else
              do { (ct, r) \<leftarrow> ipa_ipv6ct_create_table env (tables s1 (table_cnt s1)) number_of_entries (table_cnt s1);
                   let s2 = set_ct_table (table_cnt s1) ct s1;
                   (case r of
                      Inl err \<Rightarrow> Some (bail_ipa_desc s2, Inl err)
                    | Inr _ \<Rightarrow>
                        (case ipa_ipv6ct_post_init_cmd env ct (table_cnt s2) of
                           Inl err \<Rightarrow>
                             Some (bail_ipa_desc
                                     (set_ct_table (table_cnt s2) (fst (ipa_ipv6ct_destroy_table env ct)) s2), Inl err)
                         | Inr _ \<Rightarrow> Some (s2\<lparr>table_cnt := table_cnt s2 + 1\<rparr>, Inr (table_cnt s2 + 1)))) })"

text \<open>
  What the other entry points start with: the version of the hardware (through a pointer that is not
  checked), the table handle, the mutex and the table's validity. \<open>extra\<close> is a further reason to refuse.
\<close>

definition with_ct_table ::
    "ipa_env \<Rightarrow> nat \<Rightarrow> bool \<Rightarrow> ipa_ipv6ct \<Rightarrow>
     (ipa_ipv6ct_table \<Rightarrow> (ipa_ipv6ct \<times> (errno + 'r)) option) \<Rightarrow> (ipa_ipv6ct \<times> (errno + 'r)) option" where
  "with_ct_table env table_handle extra s body =
     do { ver \<leftarrow> ipa_desc s;
          if ver < IPA_HW_v4_0 then Some (s, Inl EINVAL)
          else if table_handle = IPA_TABLE_INVALID_ENTRY \<or> table_handle > IPA_IPV6CT_MAX_TBLS \<or> extra
          then Some (s, Inl EINVAL)
          else if \<not> lock_ok env then Some (s, Inl EINVAL)
          else
            do { (s', r) \<leftarrow> (let ct = tables s (table_handle - 1) in
                           if \<not> md_valid (mem_desc ct) then Some (s, Inl EINVAL) else body ct);
                 Some (s', if unlock_ok env then r else (case r of Inl err \<Rightarrow> Inl err | Inr _ \<Rightarrow> Inl EPERM)) } }"

definition ipa_ipv6ct_del_tbl ::
    "ipa_env \<Rightarrow> nat \<Rightarrow> ipa_ipv6ct \<Rightarrow> (ipa_ipv6ct \<times> (errno + unit)) option" where
  "ipa_ipv6ct_del_tbl env table_handle s =
     with_ct_table env table_handle False s
       (\<lambda>ct. let (ct', r) = ipa_ipv6ct_destroy_table env ct;
                 s1 = set_ct_table (table_handle - 1) ct' s in
             case r of
               Inl err \<Rightarrow> Some (s1, Inl err)
             | Inr _ \<Rightarrow>
                 let s2 = s1\<lparr>table_cnt := (table_cnt s1 + (2 ^ 8 - 1)) mod 2 ^ 8\<rparr> in
                 Some (if table_cnt s2 = 0 then s2\<lparr>ipa_desc := None\<rparr> else s2, Inr ()))"

text \<open>
  An insertion whose commands cannot be posted is taken back by erasing the entry. When the mutex cannot
  be released the rule is in, and the caller does not learn its handle.
\<close>

definition ct_add_rule ::
    "ipa_env \<Rightarrow> ct_table \<Rightarrow> ipa_ipv6ct_rule \<Rightarrow> (ct_table \<times> (errno + nat)) option" where
  "ct_add_rule env t rule =
     do { (t1, cmd, r) \<leftarrow> ipa_table_add_entry t rule (unat (ipa_ipv6ct_hash rule (of_nat (table_entries t) - 1))) [];
          (case r of
             Inl err \<Rightarrow> Some (t1, Inl err)
           | Inr (index, hdl) \<Rightarrow>
               (case ipa_ipv6ct_post_dma_cmd env t1 cmd of
                  (t2, Inl err) \<Rightarrow> do { t3 \<leftarrow> ipa_table_erase_entry t2 index; Some (t3, Inl err) }
                | (t2, Inr _) \<Rightarrow> Some (t2, Inr hdl))) }"

definition ipa_ipv6ct_add_rule ::
    "ipa_env \<Rightarrow> nat \<Rightarrow> ipa_ipv6ct_rule \<Rightarrow> ipa_ipv6ct \<Rightarrow> (ipa_ipv6ct \<times> (errno + nat)) option" where
  "ipa_ipv6ct_add_rule env table_handle rule s =
     with_ct_table env table_handle (protocol rule = IPA_IPV6CT_INVALID_PROTO_FIELD_CMP) s
       (\<lambda>ct. do { (t, r) \<leftarrow> ct_add_rule env (table ct) rule;
                  Some (set_ct_table (table_handle - 1) (ct\<lparr>table := t\<rparr>) s, r) })"

text \<open>The deletion posts its command first, and changes the table itself only when that worked.\<close>

definition ct_del_rule ::
    "ipa_env \<Rightarrow> ct_table \<Rightarrow> nat \<Rightarrow> (ct_table \<times> (errno + unit)) option" where
  "ct_del_rule env t rule_handle =
     (case ipa_table_get_entry t rule_handle of
        Inl err \<Rightarrow> Some (t, Inl err)
      | Inr index \<Rightarrow>
          do { r \<leftarrow> ipa_table_iterator_init t index index;
               (case r of
                  Inl err \<Rightarrow> Some (t, Inl err)
                | Inr it \<Rightarrow>
                    do { cmd \<leftarrow> ipa_table_create_delete_command t [] it;
                         (case ipa_ipv6ct_post_dma_cmd env t cmd of
                            (t1, Inl err) \<Rightarrow> Some (t1, Inl err)
                          | (t1, Inr _) \<Rightarrow>
                              if ipa_table_iterator_is_head_with_tail it then Some (t1, Inr ())
                              else
                                do { is_prev_empty \<leftarrow>
                                       (case prev_entry it of
                                          None \<Rightarrow> Some False
                                        | Some p \<Rightarrow>
                                            do { e \<leftarrow> GOTO_REC t1 p;
                                                 Some (e_protocol e = IPA_IPV6CT_INVALID_PROTO_FIELD_CMP) });
                                     t2 \<leftarrow> ipa_table_delete_entry t1 it is_prev_empty;
                                     Some (t2, Inr ()) }) }) })"

definition ipa_ipv6ct_del_rule ::
    "ipa_env \<Rightarrow> nat \<Rightarrow> nat \<Rightarrow> ipa_ipv6ct \<Rightarrow> (ipa_ipv6ct \<times> (errno + unit)) option" where
  "ipa_ipv6ct_del_rule env table_handle rule_handle s =
     with_ct_table env table_handle (rule_handle = IPA_TABLE_INVALID_ENTRY) s
       (\<lambda>ct. do { (t, r) \<leftarrow> ct_del_rule env (table ct) rule_handle;
                  Some (set_ct_table (table_handle - 1) (ct\<lparr>table := t\<rparr>) s, r) })"

text \<open>The entry is not checked for being in use.\<close>

definition ipa_ipv6ct_query_timestamp ::
    "ipa_env \<Rightarrow> nat \<Rightarrow> nat \<Rightarrow> ipa_ipv6ct \<Rightarrow> (ipa_ipv6ct \<times> (errno + 24 word)) option" where
  "ipa_ipv6ct_query_timestamp env table_handle rule_handle s =
     with_ct_table env table_handle (rule_handle = IPA_TABLE_INVALID_ENTRY) s
       (\<lambda>ct. case ipa_table_get_entry (table ct) rule_handle of
               Inl err \<Rightarrow> Some (s, Inl err)
             | Inr index \<Rightarrow> do { e \<leftarrow> GOTO_REC (table ct) index; Some (s, Inr (e_time_stamp e)) })"

end
