(* ===== verification/Chain_Spec.thy ===== *)
theory Chain_Spec
  imports Kernel_Prelude
begin

text \<open>
  The shape of a hash table with chained collisions, apart from what its entries hold. \<open>L i\<close> are the
  links of entry \<open>i\<close>; entries below \<open>te\<close> are the heads, those from \<open>te\<close> to \<open>n\<close> are taken for collisions.
  Index 0 is the null link. \<open>ch b\<close> is the chain behind head \<open>b\<close>. A dead head is one that was deleted while
  it had a chain: it stays as its anchor.
\<close>

record link =
  l_valid :: bool
  l_next :: nat
  l_prev :: nat
  l_dead :: bool

fun path :: "(nat \<Rightarrow> link) \<Rightarrow> nat \<Rightarrow> nat list \<Rightarrow> bool" where
  "path L p [] \<longleftrightarrow> l_next (L p) = 0"
| "path L p (c # cs) \<longleftrightarrow>
     l_next (L p) = c \<and> l_valid (L c) \<and> l_prev (L c) = p \<and> \<not> l_dead (L c) \<and> path L c cs"

definition head_ok :: "(nat \<Rightarrow> link) \<Rightarrow> nat \<Rightarrow> nat list \<Rightarrow> bool" where
  "head_ok L b cs \<longleftrightarrow>
     (if l_valid (L b) then l_prev (L b) = 0 \<and> path L b cs \<and> (l_dead (L b) \<longrightarrow> cs \<noteq> []) else cs = [])"

definition linked :: "nat \<Rightarrow> nat \<Rightarrow> (nat \<Rightarrow> link) \<Rightarrow> (nat \<Rightarrow> nat list) \<Rightarrow> bool" where
  "linked te n L ch \<longleftrightarrow>
     0 < te \<and> \<not> l_valid (L 0) \<and>
     (\<forall>b<te. head_ok L b (ch b) \<and> distinct (ch b) \<and> set (ch b) \<subseteq> {te..<n}) \<and>
     (\<forall>b<te. \<forall>b'<te. b \<noteq> b' \<longrightarrow> set (ch b) \<inter> set (ch b') = {}) \<and>
     (\<forall>i. te \<le> i \<and> i < n \<and> l_valid (L i) \<longrightarrow> (\<exists>b<te. i \<in> set (ch b))) \<and>
     (\<forall>i<n. \<not> l_valid (L i) \<longrightarrow> l_next (L i) = 0 \<and> l_prev (L i) = 0)"

definition succ_of :: "nat list \<Rightarrow> nat" where
  "succ_of cs = (case cs of [] \<Rightarrow> 0 | c # _ \<Rightarrow> c)"

lemma succ_of_simps [simp]: "succ_of [] = 0" "succ_of (c # cs) = c"
  by (simp_all add: succ_of_def)

section \<open>Paths\<close>

lemma path_cong: "(\<And>i. i = p \<or> i \<in> set cs \<Longrightarrow> L i = L' i) \<Longrightarrow> path L p cs = path L' p cs"
  by (induction cs arbitrary: p) auto

lemma path_upd_other: "i \<noteq> p \<Longrightarrow> i \<notin> set cs \<Longrightarrow> path (L(i := x)) p cs = path L p cs"
  by (rule path_cong) auto

lemma path_next: "path L p cs \<Longrightarrow> l_next (L p) = succ_of cs"
  by (cases cs) auto

lemma path_append:
  "path L p (xs @ ys) \<longleftrightarrow>
     (\<exists>m. m = last (p # xs) \<and> path L m ys \<and> path (L(m := (L m)\<lparr>l_next := 0\<rparr>)) p xs)"
  if "distinct (p # xs)"
  using that
proof (induction xs arbitrary: p)
  case (Cons c cs)
  then have m: "last (c # cs) \<noteq> p" by (metis distinct.simps(2) last_in_set list.discI)
  show ?case using Cons m by (auto simp: fun_upd_other)
qed simp

lemma path_valid: "path L p cs \<Longrightarrow> c \<in> set cs \<Longrightarrow> l_valid (L c) \<and> \<not> l_dead (L c)"
  by (induction cs arbitrary: p) auto

lemma path_split:
  "path L p (xs @ c # ys) \<Longrightarrow> l_prev (L c) = last (p # xs) \<and> l_next (L c) = succ_of ys \<and> l_next (L (last (p # xs))) = c"
proof (induction xs arbitrary: p)
  case Nil
  then show ?case by (cases ys) auto
qed auto

text \<open>Appending to a path, and cutting an entry out of it.\<close>

lemma path_snoc:
  assumes "path L p cs" "distinct (p # cs)" "c \<noteq> p" "c \<notin> set cs" "m = last (p # cs)"
    and "l_valid x" "l_prev x = m" "\<not> l_dead x" "l_next x = 0"
  shows "path (L(c := x, m := (L m)\<lparr>l_next := c\<rparr>)) p (cs @ [c])"
  using assms
proof (induction cs arbitrary: p)
  case (Cons d ds)
  have m: "m \<noteq> p" using Cons.prems by (metis distinct.simps(2) last.simps last_in_set list.discI)
  show ?case
    using Cons.IH [of d] Cons.prems m by auto
qed auto

lemma path_cut:
  assumes "path L p (xs @ c # ys)" "distinct (p # xs @ c # ys)" "m = last (p # xs)"
    and "\<And>i. i \<in> set (p # xs @ ys) \<Longrightarrow> L' i = (let l = (if i = m then (L i)\<lparr>l_next := succ_of ys\<rparr> else L i) in
            if ys \<noteq> [] \<and> i = hd ys then l\<lparr>l_prev := m\<rparr> else l)"
  shows "path L' p (xs @ ys)"
  using assms
proof (induction xs arbitrary: p)
  case Nil
  show ?case
  proof (cases ys)
    case Nil
    then show ?thesis using Nil.prems by (simp add: Let_def)
  next
    case (Cons d ds)
    have "path L' d ds = path L d ds"
    proof (cases ds)
      case Nil
      then show ?thesis using Nil.prems Cons by (auto simp: Let_def)
    next
      case (Cons e es)
      have "path L' d (e # es) = path (L(d := (L d)\<lparr>l_prev := m\<rparr>)) d (e # es)"
        by (rule path_cong) (use Nil.prems \<open>ys = d # ds\<close> Cons in \<open>auto simp: Let_def\<close>)
      also have "\<dots> = path L d (e # es)"
        using Nil.prems \<open>ys = d # ds\<close> Cons by (auto simp: path_upd_other)
      finally show ?thesis using Cons by simp
    qed
    then show ?thesis using Nil.prems Cons by (auto simp: Let_def)
  qed
next
  case (Cons x xs)
  have m: "m \<noteq> p" and mm: "m = last (x # xs)" and mi: "m \<in> set (x # xs)"
    using Cons.prems by (auto split: if_splits)
  have hd: "ys \<noteq> [] \<Longrightarrow> hd ys \<notin> set (p # x # xs)"
    using Cons.prems(2) by (cases ys) auto
  have "path L x (xs @ c # ys)" "distinct (x # xs @ c # ys)" using Cons.prems(1,2) by simp_all
  then have tl: "path L' x (xs @ ys)"
    using Cons.IH [of x] mm Cons.prems(4) by simp
  have "L' p = L p" using Cons.prems(4) [of p] m hd by (auto simp: Let_def)
  moreover have "L' x = (if x = m then (L x)\<lparr>l_next := succ_of ys\<rparr> else L x)"
    using Cons.prems(4) [of x] hd by (auto simp: Let_def)
  ultimately show ?case
    using Cons.prems(1) tl by auto
qed

section \<open>Local changes\<close>

lemma linked_chain_unique:
  "linked te n L ch \<Longrightarrow> b < te \<Longrightarrow> b' < te \<Longrightarrow> i \<in> set (ch b) \<Longrightarrow> i \<in> set (ch b') \<Longrightarrow> b = b'"
  unfolding linked_def by blast

lemma linked_headD:
  "linked te n L ch \<Longrightarrow> b < te \<Longrightarrow> head_ok L b (ch b) \<and> distinct (ch b) \<and> set (ch b) \<subseteq> {te..<n}"
  unfolding linked_def by blast

lemma linked_head_path:
  "linked te n L ch \<Longrightarrow> b < te \<Longrightarrow> l_valid (L b) \<Longrightarrow> l_prev (L b) = 0 \<and> path L b (ch b)"
  using linked_headD [of te n L ch b] by (auto simp: head_ok_def)

lemma linked_chain_valid:
  assumes "linked te n L ch" "b < te" "i \<in> set (ch b)"
  shows "l_valid (L b) \<and> l_valid (L i) \<and> \<not> l_dead (L i) \<and> te \<le> i \<and> i < n"
proof -
  have "head_ok L b (ch b)" "set (ch b) \<subseteq> {te..<n}" using linked_headD assms by blast+
  then show ?thesis using assms(3) path_valid [of L b "ch b" i] by (auto simp: head_ok_def split: if_splits)
qed

text \<open>One chain may change, while the others stay as they are.\<close>

lemma linked_local:
  assumes wf: "linked te n L ch" and b: "b < te"
    and same: "\<And>i. i \<noteq> b \<Longrightarrow> i \<notin> set (ch b) \<Longrightarrow> i \<notin> set cs \<Longrightarrow> L' i = L i"
    and hd: "head_ok L' b cs" and cs: "distinct cs" "set cs \<subseteq> {te..<n}"
    and new: "\<And>i. i \<in> set cs \<Longrightarrow> i \<notin> set (ch b) \<Longrightarrow> \<not> l_valid (L i)"
    and gone: "\<And>i. i \<in> set (ch b) \<Longrightarrow> i \<notin> set cs \<Longrightarrow> \<not> l_valid (L' i)"
    and blank: "\<And>i. i = b \<or> i \<in> set (ch b) \<or> i \<in> set cs \<Longrightarrow> \<not> l_valid (L' i) \<Longrightarrow> l_next (L' i) = 0 \<and> l_prev (L' i) = 0"
    and zero: "\<not> l_valid (L' 0)"
  shows "linked te n L' (ch(b := cs))"
proof -
  have other: "L' i = L i" if "b' < te" "b' \<noteq> b" "i = b' \<or> i \<in> set (ch b')" for i b'
  proof (cases "i = b'")
    case True
    then show ?thesis using that same [of i] linked_headD [OF wf b] cs(2) by fastforce
  next
    case False
    then have i: "i \<in> set (ch b')" using that by blast
    then have v: "l_valid (L i)" "te \<le> i" using linked_chain_valid [OF wf that(1)] by blast+
    have "i \<notin> set (ch b)" using linked_chain_unique [OF wf b that(1) _ i] that(2) by blast
    then show ?thesis using same [of i] new [of i] v b by auto
  qed
  have ok: "head_ok L' b' ((ch(b := cs)) b') \<and> distinct ((ch(b := cs)) b') \<and> set ((ch(b := cs)) b') \<subseteq> {te..<n}"
    if "b' < te" for b'
  proof (cases "b' = b")
    case False
    have "head_ok L' b' (ch b') = head_ok L b' (ch b')"
      unfolding head_ok_def using other [OF that False] path_cong [of b' "ch b'" L' L] by auto
    then show ?thesis using False linked_headD [OF wf that] by simp
  qed (use hd cs in simp)
  have fresh: "set cs \<inter> set (ch b') = {}" if "b' < te" "b' \<noteq> b" for b'
  proof -
    have "i \<notin> set (ch b')" if "i \<in> set cs" for i
      using new [OF that] linked_chain_unique [OF wf b \<open>b' < te\<close>, of i] \<open>b' \<noteq> b\<close>
        linked_chain_valid [OF wf \<open>b' < te\<close>, of i] by blast
    then show ?thesis by blast
  qed
  have disj: "set ((ch(b := cs)) b1) \<inter> set ((ch(b := cs)) b2) = {}" if "b1 < te" "b2 < te" "b1 \<noteq> b2" for b1 b2
  proof -
    consider "b1 = b" | "b2 = b" | "b1 \<noteq> b" "b2 \<noteq> b" by blast
    then show ?thesis
    proof cases
      case 1
      then show ?thesis using fresh [of b2] that by simp
    next
      case 2
      then show ?thesis using fresh [of b1] that by auto
    next
      case 3
      then show ?thesis using wf that unfolding linked_def by simp
    qed
  qed
  have cover: "\<exists>b'<te. i \<in> set ((ch(b := cs)) b')" if i: "te \<le> i" "i < n" "l_valid (L' i)" for i
  proof (cases "i \<in> set cs")
    case False
    then have nb: "i \<notin> set (ch b)" using gone i(3) by blast
    then have "L' i = L i" using same False i b by auto
    then obtain b' where "b' < te" "i \<in> set (ch b')" using wf i unfolding linked_def by metis
    then show ?thesis using nb by (intro exI [of _ b']) auto
  qed (use b in auto)
  have bl: "l_next (L' i) = 0 \<and> l_prev (L' i) = 0" if "i < n" "\<not> l_valid (L' i)" for i
  proof (cases "i = b \<or> i \<in> set (ch b) \<or> i \<in> set cs")
    case False
    then have "L' i = L i" using same by blast
    then show ?thesis using wf that unfolding linked_def by simp
  next
    case True
    then show ?thesis using blank [of i] that(2) by simp
  qed
  show ?thesis
    unfolding linked_def
  proof (intro conjI)
    show "0 < te" using b by simp
    show "\<not> l_valid (L' 0)" by (rule zero)
    show "\<forall>b'<te. head_ok L' b' ((ch(b := cs)) b') \<and> distinct ((ch(b := cs)) b') \<and> set ((ch(b := cs)) b') \<subseteq> {te..<n}"
      using ok by blast
    show "\<forall>b1<te. \<forall>b2<te. b1 \<noteq> b2 \<longrightarrow> set ((ch(b := cs)) b1) \<inter> set ((ch(b := cs)) b2) = {}"
      using disj by blast
    show "\<forall>i. te \<le> i \<and> i < n \<and> l_valid (L' i) \<longrightarrow> (\<exists>b'<te. i \<in> set ((ch(b := cs)) b'))"
      using cover by blast
    show "\<forall>i<n. \<not> l_valid (L' i) \<longrightarrow> l_next (L' i) = 0 \<and> l_prev (L' i) = 0"
      using bl by blast
  qed
qed

section \<open>The changes that insertion and deletion make\<close>

definition blank_link :: "link \<Rightarrow> bool" where
  "blank_link l \<longleftrightarrow> \<not> l_valid l \<and> l_next l = 0 \<and> l_prev l = 0"

lemma linked_zero: "linked te n L ch \<Longrightarrow> \<not> l_valid (L 0) \<and> 0 < te"
  unfolding linked_def by blast

lemma linked_invalid_head: "linked te n L ch \<Longrightarrow> b < te \<Longrightarrow> \<not> l_valid (L b) \<Longrightarrow> ch b = []"
  using linked_headD [of te n L ch b] by (auto simp: head_ok_def)

lemma linked_blank: "linked te n L ch \<Longrightarrow> i < n \<Longrightarrow> \<not> l_valid (L i) \<Longrightarrow> blank_link (L i)"
  unfolding linked_def blank_link_def by blast

lemma linked_add_head:
  assumes wf: "linked te n L ch" and b: "0 < b" "b < te" "\<not> l_valid (L b)"
    and x: "l_valid x" "l_next x = 0" "l_prev x = 0" "\<not> l_dead x"
  shows "linked te n (L(b := x)) ch"
proof -
  have e: "ch b = []" using linked_invalid_head [OF wf b(2,3)] .
  have "linked te n (L(b := x)) (ch(b := []))"
    by (rule linked_local [OF wf b(2)]) (use x b e linked_zero [OF wf] in \<open>auto simp: head_ok_def\<close>)
  then show ?thesis using e by (simp add: fun_upd_idem)
qed

lemma linked_add_tail:
  assumes wf: "linked te n L ch" and b: "b < te" "l_valid (L b)"
    and c: "te \<le> c" "c < n" "\<not> l_valid (L c)" and m: "m = last (b # ch b)"
    and x: "l_valid x" "l_next x = 0" "l_prev x = m" "\<not> l_dead x"
  shows "linked te n (L(c := x, m := (L m)\<lparr>l_next := c\<rparr>)) (ch(b := ch b @ [c]))"
proof -
  let ?L = "L(c := x, m := (L m)\<lparr>l_next := c\<rparr>)"
  have p: "l_prev (L b) = 0" "path L b (ch b)" using linked_head_path [OF wf b] by auto
  have d: "distinct (ch b)" "set (ch b) \<subseteq> {te..<n}" using linked_headD [OF wf b(1)] by blast+
  have nb: "b \<notin> set (ch b)" using d b by auto
  have nc: "c \<notin> set (ch b)" "c \<noteq> b" using linked_chain_valid [OF wf b(1), of c] c b by auto
  have m_in: "m = b \<or> m \<in> set (ch b)" using m by (metis last.simps last_in_set)
  have mc: "m \<noteq> c" using m_in nc by auto
  have mv: "l_valid (L m)" using m_in b(2) linked_chain_valid [OF wf b(1), of m] by auto
  have path: "path ?L b (ch b @ [c])"
    by (rule path_snoc) (use p d nb nc m x in auto)
  have b': "l_valid (?L b)" "l_prev (?L b) = 0" using nc b p(1) mc mv by auto
  show ?thesis
  proof (rule linked_local [OF wf b(1)])
    show "\<And>i. i \<noteq> b \<Longrightarrow> i \<notin> set (ch b) \<Longrightarrow> i \<notin> set (ch b @ [c]) \<Longrightarrow> ?L i = L i"
      using m_in by auto
    show "head_ok ?L b (ch b @ [c])" using b' path by (simp add: head_ok_def)
    show "distinct (ch b @ [c])" "set (ch b @ [c]) \<subseteq> {te..<n}" using d nc c by auto
    show "\<And>i. i \<in> set (ch b @ [c]) \<Longrightarrow> i \<notin> set (ch b) \<Longrightarrow> \<not> l_valid (L i)" using c by auto
    show "\<And>i. i \<in> set (ch b) \<Longrightarrow> i \<notin> set (ch b @ [c]) \<Longrightarrow> \<not> l_valid (?L i)" by simp
    show "\<not> l_valid (?L 0)" using linked_zero [OF wf] mv c(1) by (auto simp: fun_upd_def)
  next
    fix i assume i: "i = b \<or> i \<in> set (ch b) \<or> i \<in> set (ch b @ [c])" and nv: "\<not> l_valid (?L i)"
    have "l_valid (?L i)"
      using i b(2) mv x(1) linked_chain_valid [OF wf b(1), of i] by (auto simp: fun_upd_def)
    then show "l_next (?L i) = 0 \<and> l_prev (?L i) = 0" using nv by blast
  qed
qed

lemma linked_del_head:
  assumes wf: "linked te n L ch" and b: "b < te" "ch b = []" and x: "blank_link x"
  shows "linked te n (L(b := x)) ch"
proof -
  have "linked te n (L(b := x)) (ch(b := []))"
    by (rule linked_local [OF wf b(1)])
      (use x b linked_zero [OF wf] in \<open>auto simp: head_ok_def blank_link_def\<close>)
  then show ?thesis using b by (simp add: fun_upd_idem)
qed

lemma linked_kill_head:
  assumes wf: "linked te n L ch" and b: "b < te" "ch b \<noteq> []"
  shows "linked te n (L(b := (L b)\<lparr>l_dead := True\<rparr>)) ch"
proof -
  let ?L = "L(b := (L b)\<lparr>l_dead := True\<rparr>)"
  have v: "l_valid (L b)" using linked_invalid_head [OF wf b(1)] b(2) by blast
  have d: "distinct (ch b)" "set (ch b) \<subseteq> {te..<n}" using linked_headD [OF wf b(1)] by blast+
  have p: "l_prev (L b) = 0" "path L b (ch b)" using linked_head_path [OF wf b(1) v] by auto
  obtain c cs where cs: "ch b = c # cs" using b(2) by (cases "ch b") auto
  have "path ?L c cs = path L c cs" using d b(1) cs by (intro path_upd_other) auto
  moreover have "c \<noteq> b" using d b(1) cs by auto
  ultimately have "path ?L b (ch b)" using p cs by auto
  then have "linked te n ?L (ch(b := ch b))"
    by (intro linked_local [OF wf b(1)])
      (use v d p b linked_zero [OF wf] linked_chain_valid [OF wf b(1)] in \<open>auto simp: head_ok_def\<close>)
  then show ?thesis by simp
qed

text \<open>
  Cutting \<open>c\<close> out of the chain of \<open>b\<close>. When the head is dead and the chain becomes empty, the head goes
  too.
\<close>

definition cut_links :: "(nat \<Rightarrow> link) \<Rightarrow> nat \<Rightarrow> nat \<Rightarrow> nat list \<Rightarrow> nat \<Rightarrow> link" where
  "cut_links L m c ys i =
     (let l = (if i = m then (L i)\<lparr>l_next := succ_of ys\<rparr> else L i) in
      if ys \<noteq> [] \<and> i = hd ys then l\<lparr>l_prev := m\<rparr> else l)"

lemma linked_cut:
  assumes wf: "linked te n L ch" and b: "b < te" and ch: "ch b = xs @ c # ys" and m: "m = last (b # xs)"
    and x: "blank_link x"
    and L': "\<And>i. i \<noteq> c \<Longrightarrow> i \<noteq> b \<or> \<not> gone \<Longrightarrow> L' i = cut_links L m c ys i" "L' c = x" "gone \<Longrightarrow> L' b = x"
    and g: "gone \<longleftrightarrow> l_dead (L b) \<and> xs @ ys = []"
  shows "linked te n L' (ch(b := xs @ ys))"
proof -
  have c_in: "c \<in> set (ch b)" using ch by simp
  have v: "l_valid (L b)" using linked_chain_valid [OF wf b c_in] by blast
  have d: "distinct (xs @ c # ys)" "set (xs @ c # ys) \<subseteq> {te..<n}" using linked_headD [OF wf b] ch by auto
  have p: "l_prev (L b) = 0" "path L b (xs @ c # ys)" using linked_head_path [OF wf b v] ch by auto
  have nb: "b \<notin> set (xs @ c # ys)" using d(2) b by auto
  have m_in: "m = b \<or> m \<in> set xs" using m by (metis last.simps last_in_set)
  have val: "l_valid (L i)" if "i = b \<or> i \<in> set (ch b)" for i
    using that v linked_chain_valid [OF wf b] by blast
  have hd_in: "ys \<noteq> [] \<Longrightarrow> hd ys \<in> set ys" by simp
  have valid': "l_valid (L' i) = l_valid (L i)" if "i \<noteq> c" "i \<noteq> b \<or> \<not> gone" for i
    using L'(1) [OF that] by (simp add: cut_links_def Let_def)
  have mem: "i = b \<or> i \<in> set xs \<or> i \<in> set ys \<or> i = c" if "i = b \<or> i \<in> set (ch b) \<or> i \<in> set (xs @ ys)" for i
    using that ch by auto
  show ?thesis
  proof (rule linked_local [OF wf b])
    fix i assume i: "i \<noteq> b" "i \<notin> set (ch b)" "i \<notin> set (xs @ ys)"
    then have "i \<noteq> c" "i \<noteq> m" "ys = [] \<or> i \<noteq> hd ys" using ch m_in hd_in by auto
    then show "L' i = L i" using L'(1) [of i] i(1) by (auto simp: cut_links_def Let_def)
  next
    show "head_ok L' b (xs @ ys)"
    proof (cases gone)
      case True
      then show ?thesis using L'(3) x g by (simp add: head_ok_def blank_link_def)
    next
      case False
      have pt: "path L' b (xs @ ys)"
      proof (rule path_cut [OF p(2) _ m])
        show "distinct (b # xs @ c # ys)" using d nb by simp
        show "L' i = (let l = (if i = m then (L i)\<lparr>l_next := succ_of ys\<rparr> else L i) in
                if ys \<noteq> [] \<and> i = hd ys then l\<lparr>l_prev := m\<rparr> else l)" if "i \<in> set (b # xs @ ys)" for i
        proof -
          have "i \<noteq> c" using that d(1) nb by auto
          then show ?thesis using L'(1) [of i] False by (simp add: cut_links_def)
        qed
      qed
      have "b \<noteq> c" "ys = [] \<or> b \<noteq> hd ys" using nb hd_in by auto
      then have "l_prev (L' b) = 0" "l_dead (L' b) = l_dead (L b)" "l_valid (L' b)"
        using L'(1) [of b] False p(1) v by (auto simp: cut_links_def Let_def)
      then show ?thesis using pt g False by (auto simp: head_ok_def)
    qed
  next
    show "distinct (xs @ ys)" "set (xs @ ys) \<subseteq> {te..<n}" using d by auto
    show "\<And>i. i \<in> set (xs @ ys) \<Longrightarrow> i \<notin> set (ch b) \<Longrightarrow> \<not> l_valid (L i)" using ch by auto
    show "\<And>i. i \<in> set (ch b) \<Longrightarrow> i \<notin> set (xs @ ys) \<Longrightarrow> \<not> l_valid (L' i)"
      using ch L'(2) x by (auto simp: blank_link_def)
  next
    fix i assume i: "i = b \<or> i \<in> set (ch b) \<or> i \<in> set (xs @ ys)" and nv: "\<not> l_valid (L' i)"
    have "i = c \<or> (i = b \<and> gone)"
    proof (rule ccontr)
      assume a: "\<not> (i = c \<or> (i = b \<and> gone))"
      then have "l_valid (L' i) = l_valid (L i)" using valid' by blast
      moreover have "l_valid (L i)" using mem [OF i] val [of i] ch by auto
      ultimately show False using nv by blast
    qed
    then show "l_next (L' i) = 0 \<and> l_prev (L' i) = 0" using L'(2,3) x by (auto simp: blank_link_def)
  next
    have "0 \<noteq> c" using d(2) linked_zero [OF wf] by auto
    then show "\<not> l_valid (L' 0)"
      using valid' [of 0] linked_zero [OF wf] L'(3) x by (cases "0 = b \<and> gone") (auto simp: blank_link_def)
  qed
qed

text \<open>What an iterator sees: the neighbours of an entry in its chain.\<close>

lemma linked_position:
  assumes wf: "linked te n L ch" and i: "te \<le> i" "i < n" "l_valid (L i)"
  shows "\<exists>b xs ys. b < te \<and> l_valid (L b) \<and> ch b = xs @ i # ys \<and> \<not> l_dead (L i)
           \<and> l_prev (L i) = last (b # xs) \<and> l_next (L i) = succ_of ys \<and> l_next (L (last (b # xs))) = i"
proof -
  obtain b where b: "b < te" "i \<in> set (ch b)" using wf i unfolding linked_def by blast
  then obtain xs ys where ch: "ch b = xs @ i # ys" by (meson split_list)
  have v: "l_valid (L b)" "\<not> l_dead (L i)" using linked_chain_valid [OF wf b] by blast+
  then have "path L b (xs @ i # ys)" using linked_head_path [OF wf b(1)] ch by simp
  then show ?thesis using path_split [of L b xs i ys] b(1) ch v by blast
qed

lemma linked_head_links:
  "linked te n L ch \<Longrightarrow> b < te \<Longrightarrow> l_valid (L b) \<Longrightarrow> l_prev (L b) = 0 \<and> l_next (L b) = succ_of (ch b)"
  using linked_head_path [of te n L ch b] path_next by blast

text \<open>Entries that are not in use may change as long as they stay blank.\<close>

lemma linked_reblank:
  assumes wf: "linked te n L ch"
    and same: "\<And>j. l_valid (L j) \<Longrightarrow> L' j = L j"
    and bl: "\<And>j. \<not> l_valid (L j) \<Longrightarrow> \<not> l_valid (L' j)" "\<And>j. j < n \<Longrightarrow> \<not> l_valid (L j) \<Longrightarrow> blank_link (L' j)"
  shows "linked te n L' ch"
proof -
  have head: "head_ok L' b (ch b)" if "b < te" for b
  proof (cases "l_valid (L b)")
    case True
    have "path L' b (ch b) = path L b (ch b)"
      by (rule path_cong) (use True linked_chain_valid [OF wf that] same in blast)
    then show ?thesis using linked_headD [OF wf that] same [OF True] True by (simp add: head_ok_def)
  next
    case False
    then show ?thesis using linked_invalid_head [OF wf that] bl(1) [OF False] by (simp add: head_ok_def)
  qed
  have v: "l_valid (L' j) = l_valid (L j)" for j using same [of j] bl(1) [of j] by (cases "l_valid (L j)") simp_all
  show ?thesis
    unfolding linked_def v
    using head linked_headD [OF wf] wf bl(2) by (simp add: linked_def blank_link_def)
qed

section \<open>Following a chain\<close>

text \<open>The entries that one meets from an entry on, at most \<open>k\<close> of them.\<close>

fun follow :: "nat \<Rightarrow> (nat \<Rightarrow> link) \<Rightarrow> nat \<Rightarrow> nat list" where
  "follow 0 L i = []"
| "follow (Suc k) L i = (if i = 0 then [] else i # follow k L (l_next (L i)))"

lemma follow_path: "path L p cs \<Longrightarrow> 0 \<notin> set (p # cs) \<Longrightarrow> length cs < k \<Longrightarrow> follow k L p = p # cs"
proof (induction k arbitrary: p cs)
  case (Suc k)
  show ?case
  proof (cases cs)
    case Nil
    then show ?thesis using Suc.prems by (cases k) auto
  next
    case (Cons c ds)
    then show ?thesis using Suc.IH [of c ds] Suc.prems by auto
  qed
qed simp

lemma follow_chain:
  assumes wf: "linked te n L ch" and b: "b < te" "l_valid (L b)" and te: "te \<le> n" and k: "n \<le> k"
  shows "follow k L b = b # ch b \<and> distinct (b # ch b)"
proof -
  have h: "head_ok L b (ch b)" "distinct (ch b)" "set (ch b) \<subseteq> {te..<n}" using wf b(1) by (auto simp: linked_def)
  have "length (ch b) \<le> card {te..<n}" using card_mono [OF _ h(3)] distinct_card [OF h(2)] by simp
  moreover have "0 < te" "\<not> l_valid (L 0)" using wf by (auto simp: linked_def)
  moreover have "b \<noteq> 0" using b(2) \<open>\<not> l_valid (L 0)\<close> by metis
  moreover have "0 \<notin> set (ch b)" using h(3) \<open>0 < te\<close> by auto
  ultimately show ?thesis
    using follow_path [of L b "ch b" k] h b k te by (auto simp: head_ok_def)
qed

end
