(* ===== verification/Ipa_Table_Correct.thy ===== *)
theory Ipa_Table_Correct
  imports Ipa_Table Chain_Spec
begin

text \<open>
  The tables of \<open>Ipa_Table\<close> for any client without a meta table. The locale \<open>chained_table\<close> states what a
  client's callbacks and the layout of its entries must promise; in it, insertion and deletion are shown
  to make the changes of \<open>Chain_Spec\<close> once their DMA commands have been carried out.
\<close>

section \<open>Sizes\<close>

lemma bit_len_bounds: "0 < n \<Longrightarrow> 2 ^ (bit_len n - 1) \<le> n \<and> n < 2 ^ bit_len n \<and> 0 < bit_len n"
proof (induction n rule: bit_len.induct)
  case (1 n)
  show ?case
  proof (cases "n div 2 = 0")
    case True
    then have "n = 1" using 1(2) by arith
    then show ?thesis by (simp add: bit_len.simps)
  next
    case False
    then have ih: "2 ^ (bit_len (n div 2) - 1) \<le> n div 2" "n div 2 < 2 ^ bit_len (n div 2)" "0 < bit_len (n div 2)"
      using 1 by auto
    have bl: "bit_len n = Suc (bit_len (n div 2))" using 1(2) by (simp add: bit_len.simps [of n])
    obtain k where k: "bit_len (n div 2) = Suc k" using ih(3) gr0_implies_Suc by blast
    show ?thesis using ih by (simp add: bl k) arith
  qed
qed

text \<open>Rounding to \<open>p\<close> binary digits does not cross a number that has \<open>p\<close> digits.\<close>

lemma round_sig_ge:
  assumes x: "m * 2 ^ e \<le> x" and m: "m < 2 ^ p" and p: "0 < p"
  shows "m * 2 ^ e \<le> round_sig p x"
proof (cases "bit_len x - p = 0")
  case True
  then show ?thesis using x by (simp add: round_sig_def)
next
  case False
  define k where "k = bit_len x - p"
  have k0: "0 < k" and L: "bit_len x = k + p" using False by (simp_all add: k_def)
  have "0 < x" using False by (cases x) (simp_all add: bit_len.simps [of 0])
  then have lo: "2 ^ (k + p - 1) \<le> x" using bit_len_bounds [of x] L by simp
  have ge: "x div 2 ^ k * 2 ^ k \<le> round_sig p x"
    using k0 by (simp add: round_sig_def k_def [symmetric] Let_def)
  show ?thesis
  proof (cases "k \<le> e")
    case True
    then have e: "(2::nat) ^ e = 2 ^ (e - k) * 2 ^ k" by (simp flip: power_add)
    then have "m * 2 ^ (e - k) * 2 ^ k \<le> x" using x by (simp add: mult.assoc)
    then have "m * 2 ^ (e - k) \<le> x div 2 ^ k" by (simp add: less_eq_div_iff_mult_less_eq)
    then have "m * 2 ^ (e - k) * 2 ^ k \<le> x div 2 ^ k * 2 ^ k" by (rule mult_le_mono1)
    moreover have "m * 2 ^ e = m * 2 ^ (e - k) * 2 ^ k" by (simp only: e mult.assoc)
    ultimately show ?thesis using ge by linarith
  next
    case False
    then have "p + e \<le> p - 1 + k" using p by arith
    then have pe: "(2::nat) ^ (p + e) \<le> 2 ^ (p - 1 + k)" by (rule power_increasing) simp
    have "m * 2 ^ e \<le> 2 ^ p * 2 ^ e" using m by (intro mult_le_mono1) simp
    then have "m * 2 ^ e \<le> 2 ^ (p - 1) * 2 ^ k" using pe by (simp only: power_add)
    moreover have "2 ^ (p - 1) * 2 ^ k \<le> x" using lo p by (simp flip: power_add add: add.commute)
    then have "2 ^ (p - 1) \<le> x div 2 ^ k" by (simp add: less_eq_div_iff_mult_less_eq)
    then have "2 ^ (p - 1) * 2 ^ k \<le> x div 2 ^ k * 2 ^ k" by (rule mult_le_mono1)
    ultimately show ?thesis using ge by linarith
  qed
qed

lemma round_sig_le:
  assumes x: "x \<le> m * 2 ^ e" and m: "m < 2 ^ p" and p: "0 < p"
  shows "round_sig p x \<le> m * 2 ^ e"
proof (cases "bit_len x - p = 0")
  case True
  then show ?thesis using x by (simp add: round_sig_def)
next
  case False
  define k where "k = bit_len x - p"
  have k0: "0 < k" and L: "bit_len x = k + p" using False by (simp_all add: k_def)
  have x0: "0 < x" using False by (cases x) (simp_all add: bit_len.simps [of 0])
  then have lo: "2 ^ (k + p - 1) \<le> x" using bit_len_bounds [of x] L by simp
  have "\<not> e < k"
  proof
    assume "e < k"
    then have "e + p \<le> k + p - 1" by arith
    then have "(2::nat) ^ (e + p) \<le> 2 ^ (k + p - 1)" by (rule power_increasing) simp
    moreover have "m * 2 ^ e < 2 ^ p * 2 ^ e" using m by simp
    moreover have "(2::nat) ^ (e + p) = 2 ^ p * 2 ^ e" by (simp add: power_add)
    ultimately show False using lo x by linarith
  qed
  then have e: "(2::nat) ^ e = 2 ^ (e - k) * 2 ^ k" by (simp flip: power_add)
  let ?N = "m * 2 ^ (e - k)"
  have N: "m * 2 ^ e = ?N * 2 ^ k" by (simp only: e mult.assoc)
  have xs: "x = x div 2 ^ k * 2 ^ k + x mod 2 ^ k" by (simp only: div_mult_mod_eq)
  have up: "x mod 2 ^ k \<noteq> 0 \<Longrightarrow> Suc (x div 2 ^ k) \<le> ?N"
  proof (rule ccontr)
    assume r: "x mod 2 ^ k \<noteq> 0" and "\<not> Suc (x div 2 ^ k) \<le> ?N"
    then have "?N \<le> x div 2 ^ k" by simp
    then have "?N * 2 ^ k \<le> x div 2 ^ k * 2 ^ k" by (rule mult_le_mono1)
    then show False using xs r x N by linarith
  qed
  have dn: "x div 2 ^ k \<le> ?N" using x N by (simp add: div_le_mono [THEN order_trans, of _ "?N * 2 ^ k"])
  have "round_sig p x \<le> ?N * 2 ^ k"
  proof (cases "2 * (x mod 2 ^ k) > 2 ^ k \<or> 2 * (x mod 2 ^ k) = 2 ^ k \<and> odd (x div 2 ^ k)")
    case True
    moreover have "(0::nat) < 2 ^ k" by simp
    ultimately have "x mod 2 ^ k \<noteq> 0" by linarith
    then have "Suc (x div 2 ^ k) * 2 ^ k \<le> ?N * 2 ^ k" using up mult_le_mono1 by blast
    then show ?thesis using True k0 by (simp add: round_sig_def k_def [symmetric] Let_def)
  next
    case False
    then have "round_sig p x = x div 2 ^ k * 2 ^ k"
      using k0 by (simp add: round_sig_def k_def [symmetric] Let_def)
    then show ?thesis using mult_le_mono1 [OF dn, of "2 ^ k"] by simp
  qed
  then show ?thesis using N by linarith
qed

lemma mul_float_bounds:
  "a * 2 ^ snd c \<le> n * fst c \<Longrightarrow> a < 2 ^ 24 \<Longrightarrow> a \<le> mul_float n c"
  "n * fst c \<le> b * 2 ^ snd c \<Longrightarrow> b < 2 ^ 24 \<Longrightarrow> mul_float n c \<le> b"
proof -
  assume "a * 2 ^ snd c \<le> n * fst c" "a < 2 ^ 24"
  then have "a * 2 ^ snd c \<le> round_sig 24 (n * fst c)" by (intro round_sig_ge) simp_all
  then show "a \<le> mul_float n c" by (simp add: mul_float_def less_eq_div_iff_mult_less_eq)
next
  assume "n * fst c \<le> b * 2 ^ snd c" "b < 2 ^ 24"
  then have "round_sig 24 (n * fst c) \<le> b * 2 ^ snd c" by (intro round_sig_le) simp_all
  then have "round_sig 24 (n * fst c) div 2 ^ snd c \<le> b * 2 ^ snd c div 2 ^ snd c" by (rule div_le_mono)
  then show "mul_float n c \<le> b" by (simp add: mul_float_def)
qed

lemma pow2_loop_eq:
  "2 ^ j \<le> tmp \<Longrightarrow> tmp < 2 ^ Suc j \<Longrightarrow> cur * 2 ^ j < 2 ^ 16 \<Longrightarrow>
   pow2_loop tmp prev cur = (if j = 0 then prev else cur * 2 ^ (j - 1), cur * 2 ^ j)"
proof (induction j arbitrary: tmp prev cur)
  case 0
  then show ?case by (simp add: pow2_loop.simps)
next
  case (Suc j)
  have t: "2 ^ j \<le> tmp div 2" "tmp div 2 < 2 ^ Suc j" "2 * 2 ^ j \<le> tmp"
    using Suc.prems by simp_all
  moreover have "(1::nat) \<le> 2 ^ j" by simp
  ultimately have t3: "\<not> tmp \<le> 1" by linarith
  have "cur * 2 * 2 ^ j < 2 ^ 16" using Suc.prems(3) by (simp add: mult.assoc)
  moreover from this have "cur * 2 < 2 ^ 16" using one_le_power [of "2::nat" j]
    by (metis dual_order.strict_trans2 mult.right_neutral mult_le_mono2 numeral_One one_le_numeral)
  ultimately have "pow2_loop (tmp div 2) cur ((cur * 2) mod 2 ^ 16)
      = (if j = 0 then cur else cur * 2 * 2 ^ (j - 1), cur * 2 * 2 ^ j)"
    using Suc.IH [OF t(1,2), of "cur * 2" cur] by simp
  then show ?case using t3 by (cases j) (simp_all add: pow2_loop.simps [of tmp])
qed

lemma Get2PowerTightUpperBound_spec:
  assumes "num < 2 ^ 15"
  shows "\<exists>k. 0 < k \<and> Get2PowerTightUpperBound num = 2 ^ k \<and> num \<le> 2 ^ k \<and> (2 ^ k = (2::nat) \<or> 2 ^ (k - 1) < num)"
proof (cases "num = 0")
  case True
  then show ?thesis by (intro exI [of _ 1]) (simp add: Get2PowerTightUpperBound_def)
next
  case False
  define j where "j = bit_len num - 1"
  have j: "2 ^ j \<le> num" "num < 2 ^ Suc j" using bit_len_bounds [of num] False by (simp_all add: j_def)
  have "(2::nat) ^ j < 2 ^ 15" using j(1) assms by linarith
  have "2 * 2 ^ j < (2::nat) ^ 16"
    using \<open>(2::nat) ^ j < 2 ^ 15\<close> by simp
  then have e: "pow2_loop num 0 2 = (if j = 0 then 0 else 2 ^ j, 2 ^ Suc j)"
    using pow2_loop_eq [OF j, of 2 0] by (cases j) simp_all
  show ?thesis
  proof (cases "num = 2 ^ j \<and> j \<noteq> 0")
    case True
    then show ?thesis using e False
      by (intro exI [of _ j]) (auto simp: Get2PowerTightUpperBound_def)
  next
    case b: False
    have "num \<noteq> (if j = 0 then 0 else 2 ^ j)" using b False by (cases "j = 0") simp_all
    then have "Get2PowerTightUpperBound num = 2 ^ Suc j"
      using False unfolding Get2PowerTightUpperBound_def e by simp
    moreover have "(2::nat) ^ Suc j = 2 \<or> 2 ^ j < num" using b j(1) by (cases "j = 0") auto
    ultimately show ?thesis using j(2) by (intro exI [of _ "Suc j"]) simp
  qed
qed

lemma GetEvenTightUpperBound_spec:
  "even (GetEvenTightUpperBound num) \<and> 2 \<le> GetEvenTightUpperBound num \<and> num \<le> GetEvenTightUpperBound num
   \<and> (even b \<longrightarrow> 2 \<le> b \<longrightarrow> num \<le> b \<longrightarrow> GetEvenTightUpperBound num \<le> b)"
  by (auto simp: GetEvenTightUpperBound_def elim!: evenE oddE) presburger

lemma ddr_shares:
  assumes "n \<le> IPA_TABLE_MAX_ENTRIES"
  shows "4 * n div 5 \<le> mul_float n IPA_BASE_TABLE_PERCENTAGE \<and> mul_float n IPA_BASE_TABLE_PERCENTAGE \<le> 4096
    \<and> n div 5 \<le> mul_float n IPA_EXPANSION_TABLE_PERCENTAGE \<and> mul_float n IPA_EXPANSION_TABLE_PERCENTAGE \<le> 1024"
proof -
  have n: "n \<le> 5120" using assms by (simp add: IPA_TABLE_MAX_ENTRIES_def)
  have a: "4 * n div 5 \<le> mul_float n IPA_BASE_TABLE_PERCENTAGE"
    by (rule mul_float_bounds(1)) (use n in \<open>simp_all add: IPA_BASE_TABLE_PERCENTAGE_def\<close>)
  have b: "n div 5 \<le> mul_float n IPA_EXPANSION_TABLE_PERCENTAGE"
    by (rule mul_float_bounds(1)) (use n in \<open>simp_all add: IPA_EXPANSION_TABLE_PERCENTAGE_def\<close>)
  show ?thesis
  proof (cases "n = 5120")
    case True
    have "mul_float 5120 IPA_BASE_TABLE_PERCENTAGE = 4096" "mul_float 5120 IPA_EXPANSION_TABLE_PERCENTAGE = 1024"
      by (simp_all add: mul_float_def IPA_BASE_TABLE_PERCENTAGE_def IPA_EXPANSION_TABLE_PERCENTAGE_def
          round_sig_def bit_len.simps)
    then show ?thesis using a b True by simp
  next
    case False
    have "mul_float n IPA_BASE_TABLE_PERCENTAGE \<le> 4096"
      by (rule mul_float_bounds(2)) (use n False in \<open>simp_all add: IPA_BASE_TABLE_PERCENTAGE_def\<close>)
    moreover have "mul_float n IPA_EXPANSION_TABLE_PERCENTAGE \<le> 1024"
      by (rule mul_float_bounds(2)) (use n False in \<open>simp_all add: IPA_EXPANSION_TABLE_PERCENTAGE_def\<close>)
    ultimately show ?thesis using a b by simp
  qed
qed

text \<open>What a request for a table in DDR gets: it is refused only when it is too large.\<close>

lemma ddr_entries:
  assumes "n \<le> IPA_TABLE_MAX_ENTRIES"
  shows "\<exists>te xe k. ipa_table_calculate_entries_num t n IPA_NAT_MEM_IN_DDR
           = (t\<lparr>tot_tbl_ents := te + xe, table_entries := te, expn_table_entries := xe\<rparr>, Inr ())
         \<and> te = 2 ^ k \<and> 0 < k \<and> k \<le> 12 \<and> even xe \<and> 2 \<le> xe \<and> xe \<le> 1024 \<and> n \<le> te + xe + 1"
proof -
  let ?a = "mul_float n IPA_BASE_TABLE_PERCENTAGE" and ?b = "mul_float n IPA_EXPANSION_TABLE_PERCENTAGE"
  have sh: "4 * n div 5 \<le> ?a" "?a \<le> 4096" "n div 5 \<le> ?b" "?b \<le> 1024" using ddr_shares [OF assms] by auto
  obtain k where k: "0 < k" "Get2PowerTightUpperBound ?a = 2 ^ k" "?a \<le> 2 ^ k" "2 ^ k = (2::nat) \<or> 2 ^ (k - 1) < ?a"
    using Get2PowerTightUpperBound_spec [of ?a] sh(2) by auto
  have "k \<le> 12"
  proof (rule ccontr)
    assume "\<not> k \<le> 12"
    then have "12 \<le> k - 1" by simp
    then have p: "(2::nat) ^ 12 \<le> 2 ^ (k - 1)" by (rule power_increasing) simp
    moreover have "(2::nat) ^ (k - 1) \<le> 2 ^ k" by (rule power_increasing) simp_all
    ultimately have "2 ^ 12 \<le> (2::nat) ^ k" by (rule order_trans)
    then have "(4096::nat) \<le> 2 ^ k" "(4096::nat) \<le> 2 ^ (k - 1)" using p by simp_all
    then show False using k(4) sh(2) by linarith
  qed
  then have "(2::nat) ^ k \<le> 2 ^ 12" by (rule power_increasing) simp
  moreover have x: "even (GetEvenTightUpperBound ?b)" "2 \<le> GetEvenTightUpperBound ?b" "?b \<le> GetEvenTightUpperBound ?b"
    "GetEvenTightUpperBound ?b \<le> 1024"
    using GetEvenTightUpperBound_spec [of ?b 1024] sh(4) by auto
  ultimately have "ipa_table_calculate_entries_num t n IPA_NAT_MEM_IN_DDR
      = (t\<lparr>tot_tbl_ents := 2 ^ k + GetEvenTightUpperBound ?b, table_entries := 2 ^ k,
           expn_table_entries := GetEvenTightUpperBound ?b\<rparr>, Inr ())"
    using assms k(2) by (simp add: ipa_table_calculate_entries_num_def IPA_TABLE_MAX_ENTRIES_def Let_def)
  moreover have "n \<le> 2 ^ k + GetEvenTightUpperBound ?b + 1" using sh(1,3) k(3) x(3) by linarith
  ultimately show ?thesis using k(1) x \<open>k \<le> 12\<close> by blast
qed

section \<open>Handles\<close>

lemma nat_lt_bits: "(j :: nat) < 2 ^ k \<Longrightarrow> bit j m \<Longrightarrow> m < k"
  by (metis bit_take_bit_iff take_bit_nat_eq_self)

lemma break_make_hdl:
  assumes "i < table_entries t + expn_table_entries t" "table_entries t \<le> 2 ^ 12" "expn_table_entries t \<le> 2 ^ 12"
  shows "BREAK_RULE_HDL t (MakeEntryHdl t i)
    = (nat_mem_in_val (nmi t), if i \<ge> table_entries t then 1 else 0, i)"
proof -
  let ?j = "if i \<ge> table_entries t then i - table_entries t else i"
  let ?x = "if i \<ge> table_entries t then 1 else 0 :: nat"
  let ?m = "nat_mem_in_val (nmi t)"
  have j: "?j < 2 ^ 12" using assms by auto
  have m: "?m < 2 ^ 1" by (cases "nmi t") simp_all
  have h: "MakeEntryHdl t i = take_bit 16 (take_bit 16 (push_bit 1 ?j) OR ?x OR push_bit 15 ?m)"
    by (simp add: MakeEntryHdl_def IPA_TABLE_TYPE_BITS_def IPA_TABLE_TYPE_MASK_def IPA_TABLE_TYPE_MEM_SHIFT_def
        take_bit_eq_mod Let_def or.assoc)
  have bits: "bit (MakeEntryHdl t i) k \<longleftrightarrow>
      k < 16 \<and> (1 \<le> k \<and> bit ?j (k - 1) \<or> bit ?x k \<or> 15 \<le> k \<and> bit ?m (k - 15))" for k
    unfolding h bit_take_bit_iff bit_or_iff bit_push_bit_iff by auto
  have bx: "bit ?x k \<longleftrightarrow> k = 0 \<and> ?x = 1" for k
    using bit_1_iff [where 'a = nat, of k] by simp
  have mask: "mask 1 = (1::nat)" "mask 12 = (4095::nat)" by (simp_all add: mask_eq_exp_minus_1)
  have bm: "\<not> bit ?m (k - 15)" if "k \<noteq> 15" "15 \<le> k" for k
    using nat_lt_bits [OF m, of "k - 15"] that by auto
  have "drop_bit 15 (MakeEntryHdl t i) AND mask 1 = ?m"
  proof (rule bit_eqI)
    fix n
    have "bit (drop_bit 15 (MakeEntryHdl t i) AND mask 1) n \<longleftrightarrow> n < 1 \<and> bit (MakeEntryHdl t i) (15 + n)"
      by (auto simp: bit_and_iff bit_mask_iff bit_iff_odd_drop_bit [of "MakeEntryHdl t i"])
    also have "\<dots> \<longleftrightarrow> bit ?m n"
      using nat_lt_bits [OF m, of n] nat_lt_bits [OF j, of 14] unfolding bits bx by auto
    finally show "bit (drop_bit 15 (MakeEntryHdl t i) AND mask 1) n = bit ?m n" .
  qed
  moreover have "MakeEntryHdl t i AND mask 1 = ?x"
  proof -
    have "odd (MakeEntryHdl t i) \<longleftrightarrow> ?x = 1" using bits [of 0] bx [of 0] unfolding bit_0 by simp
    then show ?thesis unfolding mask by (auto simp: and_one_eq mod2_eq_if)
  qed
  moreover have "drop_bit 1 (MakeEntryHdl t i) AND mask 12 = ?j"
  proof (rule bit_eqI)
    fix n
    show "bit (drop_bit 1 (MakeEntryHdl t i) AND mask 12) n = bit ?j n"
      using nat_lt_bits [OF j, of n] by (auto simp: bit_simps bits bx simp del: bit_0)
  qed
  ultimately show ?thesis
    using assms unfolding mask by (auto simp: BREAK_RULE_HDL_def IPA_TABLE_TYPE_BITS_def IPA_TABLE_TYPE_MASK_def
        IPA_TABLE_INDX_MASK_def IPA_TABLE_TYPE_MEM_SHIFT_def Let_def)
qed

section \<open>Tables in order\<close>

text \<open>
  \<open>lk\<close> gives the links of an entry, \<open>clean\<close> says that an unused entry can take a rule, \<open>slot\<close> is the hash of
  the rule in an entry. The chains \<open>ch\<close> are what the links spell.
\<close>

definition table_shape :: "('e, 'u, 'm) ipa_table \<Rightarrow> bool" where
  "table_shape t \<longleftrightarrow>
     1 < table_entries t \<and> 0 < expn_table_entries t \<and>
     table_entries t + expn_table_entries t < 2 ^ 16 \<and>
     table_entries t + expn_table_entries t \<le> length (table_recs t) \<and>
     tot_tbl_ents t = table_entries t + expn_table_entries t \<and> meta t = None"

definition links :: "('e \<Rightarrow> link) \<Rightarrow> ('e, 'u, 'm) ipa_table \<Rightarrow> nat \<Rightarrow> link" where
  "links lk t i = lk (table_recs t ! i)"

definition live :: "link \<Rightarrow> bool" where
  "live l \<longleftrightarrow> l_valid l \<and> \<not> l_dead l"

definition base_used :: "('e \<Rightarrow> link) \<Rightarrow> ('e, 'u, 'm) ipa_table \<Rightarrow> nat set" where
  "base_used lk t = {i. i < table_entries t \<and> l_valid (links lk t i)}"

definition expn_used :: "('e \<Rightarrow> link) \<Rightarrow> ('e, 'u, 'm) ipa_table \<Rightarrow> nat set" where
  "expn_used lk t = {i. table_entries t \<le> i \<and> i < tot_tbl_ents t \<and> l_valid (links lk t i)}"

definition table_ok ::
    "('e \<Rightarrow> link) \<Rightarrow> ('e \<Rightarrow> bool) \<Rightarrow> ('e \<Rightarrow> nat) \<Rightarrow> ('e, 'u, 'm) ipa_table \<Rightarrow> (nat \<Rightarrow> nat list) \<Rightarrow> bool" where
  "table_ok lk clean slot t ch \<longleftrightarrow>
     table_shape t \<and> linked (table_entries t) (tot_tbl_ents t) (links lk t) ch \<and>
     (\<forall>i < tot_tbl_ents t. \<not> l_valid (links lk t i) \<longrightarrow> clean (table_recs t ! i)) \<and>
     cur_tbl_cnt t = card (base_used lk t) \<and> cur_expn_tbl_cnt t = card (expn_used lk t) \<and>
     (\<forall>b < table_entries t. \<forall>i. i = b \<or> i \<in> set (ch b) \<longrightarrow> live (links lk t i) \<longrightarrow>
        slot (table_recs t ! i) = b)"

text \<open>The rules of a table, by the index of their entry.\<close>

definition table_rules :: "('e \<Rightarrow> link) \<Rightarrow> ('e \<Rightarrow> 'r) \<Rightarrow> ('e, 'u, 'm) ipa_table \<Rightarrow> nat \<rightharpoonup> 'r" where
  "table_rules lk view t i =
     (if i < tot_tbl_ents t \<and> live (links lk t i) then Some (view (table_recs t ! i)) else None)"

lemma shape_set_recs [simp]:
  "length es = length (table_recs t) \<Longrightarrow>
   table_shape (t\<lparr>table_recs := es, cur_tbl_cnt := c, cur_expn_tbl_cnt := x\<rparr>) = table_shape t"
  by (simp add: table_shape_def)

text \<open>What a table in order says about the entries.\<close>

lemma table_okD:
  assumes "table_ok lk clean slot t ch"
  shows "table_shape t" "linked (table_entries t) (tot_tbl_ents t) (links lk t) ch"
    "\<And>i. i < tot_tbl_ents t \<Longrightarrow> \<not> l_valid (links lk t i) \<Longrightarrow> clean (table_recs t ! i)"
    "cur_tbl_cnt t = card (base_used lk t)" "cur_expn_tbl_cnt t = card (expn_used lk t)"
    "\<And>b i. b < table_entries t \<Longrightarrow> i = b \<or> i \<in> set (ch b) \<Longrightarrow> live (links lk t i) \<Longrightarrow>
       slot (table_recs t ! i) = b"
  using assms unfolding table_ok_def by blast+

text \<open>
  A change of some entries: what has to be shown for the new table, by the entries that change.
\<close>

lemma table_ok_update:
  assumes ok: "table_ok lk clean slot t ch"
    and t': "t' = t\<lparr>table_recs := es, cur_tbl_cnt := c, cur_expn_tbl_cnt := x\<rparr>" "length es = length (table_recs t)"
    and chg: "\<And>i. i \<notin> A \<Longrightarrow> es ! i = table_recs t ! i"
    and lkd: "linked (table_entries t) (tot_tbl_ents t) (\<lambda>i. lk (es ! i)) ch'"
    and cl: "\<And>i. i \<in> A \<Longrightarrow> \<not> l_valid (lk (es ! i)) \<Longrightarrow> clean (es ! i)"
    and cnt: "c = card (base_used lk t')" "x = card (expn_used lk t')"
    and sl: "\<And>b i. b < table_entries t \<Longrightarrow> i = b \<or> i \<in> set (ch' b) \<Longrightarrow> live (lk (es ! i)) \<Longrightarrow>
       slot (es ! i) = b"
  shows "table_ok lk clean slot t' ch'"
proof -
  have l: "links lk t' = (\<lambda>i. lk (es ! i))" by (simp add: t' links_def fun_eq_iff)
  have same: "table_entries t' = table_entries t" "tot_tbl_ents t' = tot_tbl_ents t" "table_recs t' = es"
    "cur_tbl_cnt t' = c" "cur_expn_tbl_cnt t' = x" "table_shape t'"
    using table_okD(1) [OF ok] t'(2) by (simp_all add: t'(1))
  have "clean (es ! i)" if "i < tot_tbl_ents t" "\<not> l_valid (lk (es ! i))" for i
    using that cl [of i] chg [of i] table_okD(3) [OF ok, of i] by (cases "i \<in> A") (auto simp: links_def)
  then show ?thesis
    unfolding table_ok_def l same using same(6) lkd cnt sl by blast
qed

lemma card_step:
  assumes "finite A" "\<And>j. j \<noteq> i \<Longrightarrow> j \<in> A' \<longleftrightarrow> j \<in> A" "i \<in> A'" "i \<notin> A"
  shows "card A' = Suc (card A) \<and> card A = card A' - 1"
proof -
  have "j \<in> A' \<longleftrightarrow> j \<in> insert i A" for j using assms(2-4) by (cases "j = i") auto
  then have "A' = insert i A" by blast
  then show ?thesis using assms by simp
qed

lemma finite_used [simp]: "finite (base_used lk t)" "finite (expn_used lk t)"
  by (simp_all add: base_used_def expn_used_def)

lemma used_bounds:
  assumes "table_shape t"
  shows "card (base_used lk t) \<le> table_entries t" "card (expn_used lk t) \<le> expn_table_entries t"
proof -
  have "card (base_used lk t) \<le> card {..<table_entries t}"
    by (rule card_mono) (auto simp: base_used_def)
  then show "card (base_used lk t) \<le> table_entries t" by simp
  have "card (expn_used lk t) \<le> card {table_entries t..<tot_tbl_ents t}"
    by (rule card_mono) (auto simp: expn_used_def)
  then show "card (expn_used lk t) \<le> expn_table_entries t" using assms by (simp add: table_shape_def)
qed

lemma inc16_small: "n < 2 ^ 16 - 1 \<Longrightarrow> inc16 n = Suc n"
  by (simp add: inc16_def)

lemma dec16_pos: "0 < n \<Longrightarrow> n < 2 ^ 16 \<Longrightarrow> dec16 n = n - 1"
proof -
  assume "0 < n" "n < 2 ^ 16"
  then have "n + (2 ^ 16 - 1) = (n - 1) + 2 ^ 16" by simp
  then have "dec16 n = (n - 1 + 2 ^ 16) mod 2 ^ 16" by (simp only: dec16_def)
  then show ?thesis using \<open>n < 2 ^ 16\<close> by simp
qed

section \<open>The contract of a client\<close>

text \<open>What is not part of the memory or the counters stays.\<close>

definition same_table :: "('e, 'u, 'm) ipa_table \<Rightarrow> ('e, 'u, 'm) ipa_table \<Rightarrow> bool" where
  "same_table t t' \<longleftrightarrow>
     (\<exists>es c x. t' = t\<lparr>table_recs := es, cur_tbl_cnt := c, cur_expn_tbl_cnt := x\<rparr> \<and>
        length es = length (table_recs t))"

lemma same_tableI:
  "t' = t\<lparr>table_recs := es, cur_tbl_cnt := c, cur_expn_tbl_cnt := x\<rparr> \<Longrightarrow> length es = length (table_recs t) \<Longrightarrow>
   same_table t t'"
  by (auto simp: same_table_def)

lemma same_table_eqs:
  assumes "same_table t t'"
  shows "table_entries t' = table_entries t" "expn_table_entries t' = expn_table_entries t"
    "tot_tbl_ents t' = tot_tbl_ents t" "nmi t' = nmi t" "entry_interface t' = entry_interface t"
    "meta t' = meta t" "dma_help t' = dma_help t" "entry_size t' = entry_size t" "entry_zero t' = entry_zero t"
    "length (table_recs t') = length (table_recs t)"
  using assms by (auto simp: same_table_def)

lemma same_table_refl: "same_table t t"
  by (rule same_tableI [where es = "table_recs t" and c = "cur_tbl_cnt t" and x = "cur_expn_tbl_cnt t"]) simp_all

lemma same_table_trans: "same_table t t1 \<Longrightarrow> same_table t1 t2 \<Longrightarrow> same_table t t2"
  unfolding same_table_def by fastforce

text \<open>
  What a DMA command does to the memory: a store of 16 bits at a byte offset in the base or the
  expansion table, whose entries have \<open>sz\<close> bytes. \<open>store\<close> is the client's layout.
\<close>

definition dma_store ::
    "ipa_table_dma_type \<Rightarrow> nat \<Rightarrow> nat \<Rightarrow> (nat \<Rightarrow> nat \<Rightarrow> 'e \<Rightarrow> 'e) \<Rightarrow> ipa_ioc_nat_dma_one \<Rightarrow> 'e list \<Rightarrow> 'e list" where
  "dma_store xt te sz store d mem =
     (let i = (if base_addr d = dma_type_val xt then te else 0) + dma_offset d div sz in
      mem[i := store (dma_offset d mod sz) (dma_data d) (mem ! i)])"

locale chained_table =
  fixes ei :: "('e, 'u, 'm) ipa_table_entry_interface"
    and zero :: 'e and sz :: nat and field :: "dma_help_type \<Rightarrow> nat"
    and store :: "nat \<Rightarrow> nat \<Rightarrow> 'e \<Rightarrow> 'e"
    and bt :: ipa_table_dma_type and xt :: ipa_table_dma_type
    and lk :: "'e \<Rightarrow> link" and clean :: "'e \<Rightarrow> bool" and view :: "'e \<Rightarrow> 'r"
    and admissible :: "'u \<Rightarrow> bool" and good :: "'u \<Rightarrow> bool" and rule_of :: "'u \<Rightarrow> 'r" and enable :: nat
  assumes valid_lk: "entry_is_valid ei e = l_valid (lk e)"
    and next_lk: "entry_get_next_index ei e = l_next (lk e)"
    and prev_lk: "entry_get_prev_index ei e i None te = l_prev (lk e)"
    and set_prev: "p < 2 ^ 16 \<Longrightarrow> \<exists>e'. entry_set_prev_index ei e i p None te = (e', None) \<and>
          lk e' = (lk e)\<lparr>l_prev := p\<rparr> \<and> view e' = view e"
    and insert_good: "admissible u \<Longrightarrow> good u \<Longrightarrow> blank_link (lk e) \<Longrightarrow> clean e \<Longrightarrow>
          \<exists>e'. entry_head_insert ei e u = (e', Inr enable) \<and> view e' = rule_of u \<and>
            lk e' = \<lparr>l_valid = False, l_next = 0, l_prev = 0, l_dead = False\<rparr>"
    and insert_bad: "\<not> good u \<Longrightarrow> blank_link (lk e) \<Longrightarrow> clean e \<Longrightarrow>
          \<exists>e' err. entry_head_insert ei e u = (e', Inl err) \<and> blank_link (lk e') \<and> clean e'"
    and store_enable: "lk (store (field HELP_UPDATE_HEAD) enable e) = (lk e)\<lparr>l_valid := True\<rparr>"
      "view (store (field HELP_UPDATE_HEAD) enable e) = view e"
    and store_next: "n < 2 ^ 16 \<Longrightarrow> lk (store (field HELP_UPDATE_ENTRY) n e) = (lk e)\<lparr>l_next := n\<rparr>"
      "view (store (field HELP_UPDATE_ENTRY) n e) = view e"
    and store_kill: "lk (store (field HELP_DELETE_HEAD) (entry_get_delete_head_dma_command_data ei a b) e)
          = (lk e)\<lparr>l_dead := True\<rparr>"
    and zero_entry: "blank_link (lk zero)" "clean zero"
    and layout: "field ht + 2 \<le> sz" "sz \<le> 2 ^ 10" "bt \<noteq> xt"
begin

definition cfg :: "('e, 'u, 'm) ipa_table \<Rightarrow> bool" where
  "cfg t \<longleftrightarrow> entry_interface t = ei \<and> entry_zero t = zero \<and> entry_size t = sz \<and>
     (\<forall>ht. dma_help t ht =
        Some \<lparr>help_offset = field ht, table_type = bt, expn_table_type = xt, table_indx = 0\<rparr>)"

text \<open>A command that stores its two bytes inside the table it names.\<close>

definition fits :: "('e, 'u, 'm) ipa_table \<Rightarrow> ipa_ioc_nat_dma_one \<Rightarrow> bool" where
  "fits t d \<longleftrightarrow> table_index d = 0 \<and>
     (base_addr d = dma_type_val bt \<and> dma_offset d + 2 \<le> sz * table_entries t \<or>
      base_addr d = dma_type_val xt \<and> dma_offset d + 2 \<le> sz * expn_table_entries t)"

definition posted :: "('e, 'u, 'm) ipa_table \<Rightarrow> ipa_ioc_nat_dma_cmd \<Rightarrow> 'e list" where
  "posted t cmd = fold (dma_store xt (table_entries t) sz store) cmd (table_recs t)"

lemma cfg_update [simp]:
  "cfg (t\<lparr>table_recs := es\<rparr>) = cfg t" "cfg (t\<lparr>cur_tbl_cnt := c\<rparr>) = cfg t"
  "cfg (t\<lparr>cur_expn_tbl_cnt := x\<rparr>) = cfg t" "cfg (t\<lparr>meta := m\<rparr>) = cfg t"
  by (simp_all add: cfg_def)

lemma fits_update [simp]:
  "fits (t\<lparr>table_recs := es\<rparr>) = fits t" "fits (t\<lparr>cur_tbl_cnt := c\<rparr>) = fits t"
  by (simp_all add: fits_def fun_eq_iff)

lemma dma_type_val_inj: "dma_type_val a = dma_type_val b \<longleftrightarrow> a = b"
  by (cases a; cases b) simp_all

text \<open>A command for an entry of the table is stored in that entry's field.\<close>

lemma add_dma_cmd:
  assumes "cfg t" "table_shape t" "i < tot_tbl_ents t"
  shows "\<exists>d. ipa_table_add_dma_cmd t ht i i data cmd = Some (Inr (), cmd @ [d]) \<and>
    (\<forall>mem. dma_store xt (table_entries t) sz store d mem = mem[i := store (field ht) data (mem ! i)]) \<and> fits t d"
proof -
  have h: "dma_help t ht =
      Some \<lparr>help_offset = field ht, table_type = bt, expn_table_type = xt, table_indx = 0\<rparr>"
    and s: "entry_size t = sz"
    using assms(1) unfolding cfg_def by blast+
  have tot: "i < table_entries t + expn_table_entries t" "i < 2 ^ 16"
    using assms(2,3) by (simp_all add: table_shape_def)
  let ?x = "i \<ge> table_entries t"
  let ?j = "if ?x then i - table_entries t else i"
  have f: "field ht + 2 \<le> sz" "field ht < sz" and sz: "sz \<le> 2 ^ 10" "0 < sz"
    using layout(1) [of ht] layout(2) by auto
  have "?j * sz \<le> 2 ^ 16 * 2 ^ 10" using tot(2) sz(1) by (intro mult_le_mono) auto
  then have small: "(field ht + ?j * sz) mod 2 ^ 32 = field ht + ?j * sz"
    using f sz(1) by (intro mod_less) simp
  let ?d = "\<lparr>table_index = 0, base_addr = dma_type_val (if ?x then xt else bt),
             dma_offset = field ht + ?j * sz, dma_data = data\<rparr>"
  have "ipa_table_add_dma_cmd t ht i i data cmd = Some (Inr (), cmd @ [?d])"
    using tot(1) small by (simp add: ipa_table_add_dma_cmd_def h s ipa_table_dma_cmd_generate_def Let_def)
  moreover have "dma_store xt (table_entries t) sz store ?d mem = mem[i := store (field ht) data (mem ! i)]" for mem
  proof -
    have "(field ht + ?j * sz) div sz = ?j" "(field ht + ?j * sz) mod sz = field ht"
      using f sz(2) by simp_all
    moreover have "(if dma_type_val (if ?x then xt else bt) = dma_type_val xt then table_entries t else 0) + ?j = i"
      using layout(3) by (auto simp: dma_type_val_inj)
    ultimately show ?thesis by (simp add: dma_store_def Let_def)
  qed
  moreover have "fits t ?d"
  proof -
    let ?n = "if ?x then expn_table_entries t else table_entries t"
    have "Suc ?j \<le> ?n" using tot(1) by auto
    then have "Suc ?j * sz \<le> ?n * sz" by (rule mult_le_mono1)
    then have "field ht + ?j * sz + 2 \<le> sz * ?n" using f(1) by (simp add: mult.commute)
    then show ?thesis by (simp add: fits_def split: if_splits)
  qed
  ultimately show ?thesis by blast
qed

lemma fits_same: "same_table t t' \<Longrightarrow> fits t' = fits t"
  by (simp add: fits_def same_table_eqs fun_eq_iff)

lemma rec_at: "cfg t \<Longrightarrow> table_shape t \<Longrightarrow> i < tot_tbl_ents t \<Longrightarrow> GOTO_REC t i = Some (table_recs t ! i)"
  by (auto simp: GOTO_REC_def table_shape_def)

lemma rec_links: "cfg t \<Longrightarrow> rec_valid t (table_recs t ! i) = l_valid (links lk t i) \<and>
    rec_next t (table_recs t ! i) = l_next (links lk t i)"
  by (simp add: cfg_def links_def valid_lk next_lk)

lemma end_of_chain:
  assumes "cfg t" "table_shape t"
  shows "path (links lk t) p cs \<Longrightarrow> distinct (p # cs) \<Longrightarrow> p < tot_tbl_ents t \<Longrightarrow>
    set cs \<subseteq> {1..<tot_tbl_ents t} \<Longrightarrow> iterator_end_loop t p = Some (Inr (last (p # cs)))"
proof (induction cs arbitrary: p)
  case Nil
  then show ?case
    using rec_at [OF assms] rec_links [OF assms(1), of p]
    by (subst iterator_end_loop.simps) (simp add: VALID_INDEX_def IPA_TABLE_INVALID_ENTRY_def)
next
  case (Cons c cs)
  then have "l_next (links lk t p) = c" "c \<noteq> 0" "c \<noteq> p" by auto
  moreover have "iterator_end_loop t c = Some (Inr (last (c # cs)))" using Cons by auto
  ultimately show ?case
    using rec_at [OF assms] rec_links [OF assms(1), of p] Cons.prems(3)
    by (subst iterator_end_loop.simps) (simp add: VALID_INDEX_def IPA_TABLE_INVALID_ENTRY_def)
qed

lemma walk_to_free:
  assumes "cfg t" "table_shape t"
  shows "0 < i \<Longrightarrow> i \<le> tot_tbl_ents t \<Longrightarrow> walk_loop WHEN_SLOT_EMPTY mt_slot (tot_tbl_ents t) i i t () =
    Some (t, (), case filter (\<lambda>j. \<not> l_valid (links lk t j)) [i..<tot_tbl_ents t] of [] \<Rightarrow> 0 | j # _ \<Rightarrow> int j)"
proof (induction "tot_tbl_ents t - i" arbitrary: i)
  case 0
  then show ?case by (subst walk_loop.simps) simp
next
  case (Suc k)
  then have i: "i < tot_tbl_ents t" by simp
  have inc: "inc16 i = Suc i" using i assms(2) by (simp add: inc16_def table_shape_def)
  have up: "[i..<tot_tbl_ents t] = i # [Suc i..<tot_tbl_ents t]" using i by (rule upt_conv_Cons)
  show ?case
  proof (cases "l_valid (links lk t i)")
    case True
    then have "walk_loop WHEN_SLOT_EMPTY mt_slot (tot_tbl_ents t) i i t ()
        = walk_loop WHEN_SLOT_EMPTY mt_slot (tot_tbl_ents t) (Suc i) (Suc i) t ()"
      using i rec_at [OF assms i] rec_links [OF assms(1), of i] inc by (subst walk_loop.simps) simp
    then show ?thesis using Suc.hyps(1) [of "Suc i"] Suc.hyps(2) i up True by simp
  next
    case False
    then show ?thesis
      using i rec_at [OF assms i] rec_links [OF assms(1), of i] up Suc.prems(1)
      by (subst walk_loop.simps) (simp add: mt_slot_def)
  qed
qed

lemma find_free:
  assumes "cfg t" "table_shape t"
  shows "FindExpnTblFreeEntry t =
    Some (case filter (\<lambda>j. \<not> l_valid (links lk t j)) [table_entries t..<tot_tbl_ents t] of
            [] \<Rightarrow> Inl EPERM | j # _ \<Rightarrow> Inr j)"
proof -
  have te: "0 < table_entries t" "table_entries t < tot_tbl_ents t"
    "tot_tbl_ents t = table_entries t + expn_table_entries t" "tot_tbl_ents t < 2 ^ 16"
    using assms(2) by (auto simp: table_shape_def)
  let ?f = "filter (\<lambda>j. \<not> l_valid (links lk t j)) [table_entries t..<tot_tbl_ents t]"
  have w: "ipa_table_walk t (table_entries t) WHEN_SLOT_EMPTY mt_slot () =
      Some (t, (), Inr (case ?f of [] \<Rightarrow> 0 | j # _ \<Rightarrow> int j))"
    using walk_to_free [OF assms, of "table_entries t"] te by (simp add: ipa_table_walk_def)
  show ?thesis
  proof (cases ?f)
    case Nil
    then show ?thesis using w by (simp add: FindExpnTblFreeEntry_def)
  next
    case (Cons j js)
    then have "j \<in> set ?f" by simp
    then have "table_entries t \<le> j" "j < tot_tbl_ents t" by auto
    then have "0 < int j" "nat (int j) mod 2 ^ 16 = j" using te by auto
    then show ?thesis using w Cons by (simp add: FindExpnTblFreeEntry_def)
  qed
qed

end

section \<open>Insertion\<close>

lemma links_list_update:
  "i < length (table_recs t) \<Longrightarrow> (\<lambda>j. lk ((table_recs t)[i := e] ! j)) = (links lk t)(i := lk e)"
  by (auto simp: links_def fun_eq_iff nth_list_update)

lemma table_recs_id [simp]: "t\<lparr>table_recs := table_recs t\<rparr> = t" "meta t = m \<Longrightarrow> t\<lparr>meta := m\<rparr> = t"
  "t\<lparr>cur_tbl_cnt := cur_tbl_cnt t\<rparr> = t" "t\<lparr>cur_expn_tbl_cnt := cur_expn_tbl_cnt t\<rparr> = t"
  by auto

text \<open>The rules when at most the entry \<open>i\<close> changes what it says.\<close>

lemma rules_update:
  assumes "table_recs t' = es" "tot_tbl_ents t' = tot_tbl_ents t" "i < tot_tbl_ents t"
    and "\<And>j. j \<noteq> i \<Longrightarrow> live (lk (es ! j)) = live (links lk t j)"
    and "\<And>j. j \<noteq> i \<Longrightarrow> live (lk (es ! j)) \<Longrightarrow> view (es ! j) = view (table_recs t ! j)"
  shows "table_rules lk view t'
       = (table_rules lk view t)(i := if live (lk (es ! i)) then Some (view (es ! i)) else None)"
  using assms by (auto simp: table_rules_def links_def fun_eq_iff)

lemma hdl_same: "same_table t t' \<Longrightarrow> MakeEntryHdl t' i = MakeEntryHdl t i"
  by (simp add: MakeEntryHdl_def same_table_eqs)

text \<open>An entry that is not in use may be given any blank content.\<close>

lemma table_ok_blank:
  assumes ok: "table_ok lk clean slot t ch" and i: "i < tot_tbl_ents t" "\<not> l_valid (links lk t i)"
    and e: "blank_link (lk e)" "clean e"
  shows "table_ok lk clean slot (t\<lparr>table_recs := (table_recs t)[i := e]\<rparr>) ch
       \<and> table_rules lk view (t\<lparr>table_recs := (table_recs t)[i := e]\<rparr>) = table_rules lk view t"
proof -
  let ?es = "(table_recs t)[i := e]" and ?t = "t\<lparr>table_recs := (table_recs t)[i := e]\<rparr>"
  note okD = table_okD [OF ok]
  have len: "i < length (table_recs t)" using okD(1) i(1) by (simp add: table_shape_def)
  have lk_es: "(\<lambda>j. lk (?es ! j)) = (links lk t)(i := lk e)" by (rule links_list_update [OF len])
  then have lks: "links lk ?t = (links lk t)(i := lk e)" by (simp add: links_def fun_eq_iff)
  have ne: "\<not> l_valid (lk e)" using e(1) by (simp add: blank_link_def)
  have "table_ok lk clean slot ?t ch"
  proof (rule table_ok_update [OF ok, where es = ?es and A = "{i}" and c = "cur_tbl_cnt t" and x = "cur_expn_tbl_cnt t"])
    show "?t = t\<lparr>table_recs := ?es, cur_tbl_cnt := cur_tbl_cnt t, cur_expn_tbl_cnt := cur_expn_tbl_cnt t\<rparr>" by simp
    show "length ?es = length (table_recs t)" "\<And>j. j \<notin> {i} \<Longrightarrow> ?es ! j = table_recs t ! j" by simp_all
    show "linked (table_entries t) (tot_tbl_ents t) (\<lambda>j. lk (?es ! j)) ch"
      unfolding lk_es by (rule linked_reblank [OF okD(2)]) (use i e(1) ne linked_blank [OF okD(2)] in auto)
    show "\<And>j. j \<in> {i} \<Longrightarrow> \<not> l_valid (lk (?es ! j)) \<Longrightarrow> clean (?es ! j)" using e(2) len by simp
    have "base_used lk ?t = base_used lk t" "expn_used lk ?t = expn_used lk t"
      using i(2) ne by (auto simp: base_used_def expn_used_def lks split: if_splits)
    then show "cur_tbl_cnt t = card (base_used lk ?t)" "cur_expn_tbl_cnt t = card (expn_used lk ?t)"
      using okD(4,5) by simp_all
  next
    fix b j assume b: "b < table_entries t" "j = b \<or> j \<in> set (ch b)" "live (lk (?es ! j))"
    have "j \<noteq> i" using b(3) ne len by (auto simp: live_def)
    then show "slot (?es ! j) = b" using okD(6) [OF b(1,2)] b(3) by (simp add: links_def)
  qed
  moreover have "table_rules lk view ?t = (table_rules lk view t)(i := None)"
    using rules_update [of ?t ?es t i lk view] i ne len by (simp add: links_def live_def)
  moreover have "table_rules lk view t i = None" using i(2) by (simp add: table_rules_def live_def)
  ultimately show ?thesis by (simp add: fun_upd_idem)
qed

lemma expn_base_same:
  assumes "\<And>j. j \<in> A \<Longrightarrow> l_valid (links lk t' j) = l_valid (links lk t j)"
    and "table_entries t' = table_entries t" "tot_tbl_ents t' = tot_tbl_ents t"
  shows "{..<table_entries t} \<subseteq> A \<Longrightarrow> base_used lk t' = base_used lk t"
    "{table_entries t..<tot_tbl_ents t} \<subseteq> A \<Longrightarrow> expn_used lk t' = expn_used lk t"
  using assms by (auto simp: base_used_def expn_used_def subset_iff)

context chained_table
begin

text \<open>
  The result of an insertion at \<open>i\<close>: the table waits for its commands; once they are carried out the
  rule is in, and when they are not the entry can be erased again.
\<close>

definition entered ::
    "('r \<Rightarrow> nat) \<Rightarrow> ('e, 'u, 'm) ipa_table \<Rightarrow> (nat \<Rightarrow> nat list) \<Rightarrow> ('e, 'u, 'm) ipa_table \<Rightarrow>
     ipa_ioc_nat_dma_cmd \<Rightarrow> nat \<Rightarrow> 'u \<Rightarrow> bool" where
  "entered h t ch t1 cmd i u \<longleftrightarrow>
     same_table t t1 \<and> cmd \<noteq> [] \<and> length cmd \<le> 2 \<and> list_all (fits t) cmd \<and> 0 < i \<and> i < tot_tbl_ents t \<and> \<not> l_valid (links lk t i) \<and>
     (\<exists>ch'. table_ok lk clean (\<lambda>e. h (view e)) (t1\<lparr>table_recs := posted t1 cmd\<rparr>) ch') \<and>
     length (posted t1 cmd) = length (table_recs t1) \<and>
     table_rules lk view (t1\<lparr>table_recs := posted t1 cmd\<rparr>) = (table_rules lk view t)(i \<mapsto> rule_of u) \<and>
     (\<exists>t3. ipa_table_erase_entry t1 i = Some t3 \<and> same_table t t3 \<and>
           table_ok lk clean (\<lambda>e. h (view e)) t3 ch \<and> table_rules lk view t3 = table_rules lk view t)"

lemma cfg_same: "same_table t t' \<Longrightarrow> cfg t' = cfg t"
  by (simp add: cfg_def same_table_eqs)

lemma shape_same: "same_table t t' \<Longrightarrow> table_shape t' = table_shape t"
  by (simp add: table_shape_def same_table_eqs)

lemma insert_head:
  assumes c: "cfg t" and ok: "table_ok lk clean (\<lambda>e. h (view e)) t ch"
    and b: "0 < b" "b < table_entries t" "\<not> l_valid (links lk t b)"
    and u: "admissible u" "good u" "h (rule_of u) = b"
  shows "\<exists>t1 cmd. InsertHead t b u [] = Some (t1, cmd, Inr b) \<and> entered h t ch t1 cmd b u"
proof -
  note okD = table_okD [OF ok]
  have b_tot: "b < tot_tbl_ents t" using b(2) okD(1) by (simp add: table_shape_def)
  have len: "b < length (table_recs t)" using okD(1) b_tot by (simp add: table_shape_def)
  obtain e' where ins: "entry_head_insert ei (table_recs t ! b) u = (e', Inr enable)" "view e' = rule_of u"
    "lk e' = \<lparr>l_valid = False, l_next = 0, l_prev = 0, l_dead = False\<rparr>"
    using insert_good [OF u(1,2), of "table_recs t ! b"] linked_blank [OF okD(2) b_tot b(3)]
      okD(3) [OF b_tot b(3)] by (auto simp: links_def)
  define es where "es = (table_recs t)[b := e']"
  define t1 where "t1 = t\<lparr>table_recs := es, cur_tbl_cnt := inc16 (cur_tbl_cnt t)\<rparr>"
  have st: "same_table t t1"
    by (rule same_tableI [where es = es and c = "inc16 (cur_tbl_cnt t)" and x = "cur_expn_tbl_cnt t"])
      (simp_all add: t1_def es_def)
  have c': "cfg (set_rec b e' t)" "table_shape (set_rec b e' t)" "b < tot_tbl_ents (set_rec b e' t)"
    using c okD(1) b_tot by (simp_all add: set_rec_def table_shape_def)
  obtain d where d: "ipa_table_add_dma_cmd (set_rec b e' t) HELP_UPDATE_HEAD b b enable [] = Some (Inr (), [d])"
    "\<And>mem. dma_store xt (table_entries t) sz store d mem = mem[b := store (field HELP_UPDATE_HEAD) enable (mem ! b)]"
    "fits t d"
    using add_dma_cmd [OF c', of HELP_UPDATE_HEAD enable "[]"] by (auto simp: set_rec_def)
  have run: "InsertHead t b u [] = Some (t1, [d], Inr b)"
    using rec_at [OF c okD(1) b_tot] c ins(1) d(1)
    by (simp add: InsertHead_def cfg_def t1_def es_def set_rec_def)
  define e2 where "e2 = store (field HELP_UPDATE_HEAD) enable e'"
  have e2: "lk e2 = \<lparr>l_valid = True, l_next = 0, l_prev = 0, l_dead = False\<rparr>" "view e2 = rule_of u"
    using ins(2,3) by (simp_all add: e2_def store_enable)
  have post: "posted t1 [d] = (table_recs t)[b := e2]"
    unfolding posted_def using len by (simp add: t1_def es_def d(2) e2_def)
  note post' = post [unfolded t1_def]
  let ?t2 = "t1\<lparr>table_recs := posted t1 [d]\<rparr>" and ?es = "(table_recs t)[b := e2]"
  have lk_es: "(\<lambda>j. lk (?es ! j)) = (links lk t)(b := lk e2)" by (rule links_list_update [OF len])
  have lks: "links lk ?t2 = (links lk t)(b := lk e2)" using lk_es by (simp add: links_def post fun_eq_iff)
  have eqs: "table_entries ?t2 = table_entries t" "tot_tbl_ents ?t2 = tot_tbl_ents t" "table_recs ?t2 = ?es"
    by (simp_all add: t1_def post')
  have lt: "card (base_used lk t) < table_entries t"
  proof -
    have "base_used lk t \<subset> {..<table_entries t}" using b by (auto simp: base_used_def)
    then show ?thesis using psubset_card_mono [of "{..<table_entries t}"] by simp
  qed
  have inc: "inc16 (cur_tbl_cnt t) = Suc (card (base_used lk t))"
    using lt okD(1,4) by (simp add: inc16_small table_shape_def)
  have cnt: "card (base_used lk ?t2) = Suc (card (base_used lk t))"
    by (rule card_step [of _ b, THEN conjunct1]) (use b e2 in \<open>auto simp: base_used_def lks eqs\<close>)
  have "table_ok lk clean (\<lambda>e. h (view e)) ?t2 ch"
  proof (rule table_ok_update [OF ok, where es = ?es and A = "{b}"
        and c = "Suc (card (base_used lk t))" and x = "cur_expn_tbl_cnt t"])
    show "?t2 = t\<lparr>table_recs := ?es, cur_tbl_cnt := Suc (card (base_used lk t)), cur_expn_tbl_cnt := cur_expn_tbl_cnt t\<rparr>"
      by (simp only: post) (simp add: t1_def inc)
    show "linked (table_entries t) (tot_tbl_ents t) (\<lambda>j. lk (?es ! j)) ch"
      unfolding lk_es by (rule linked_add_head [OF okD(2) b]) (simp_all add: e2)
    have "expn_used lk ?t2 = expn_used lk t" using b(2) by (auto simp: expn_used_def lks eqs)
    then show "cur_expn_tbl_cnt t = card (expn_used lk ?t2)" using okD(5) by simp
    fix b' j assume j: "b' < table_entries t" "j = b' \<or> j \<in> set (ch b')" "live (lk (?es ! j))"
    show "h (view (?es ! j)) = b'"
    proof (cases "j = b")
      case True
      then have "j = b'" using linked_chain_valid [OF okD(2) j(1), of j] j(2) b(2) by auto
      then show ?thesis using True e2(2) u(3) len by simp
    next
      case False
      then show ?thesis using okD(6) [OF j(1,2)] j(3) by (simp add: links_def)
    qed
  qed (use cnt e2 len in simp_all)
  moreover have "table_rules lk view ?t2 = (table_rules lk view t)(b \<mapsto> rule_of u)"
    using rules_update [of ?t2 ?es t b lk view] b_tot len e2 by (simp add: eqs links_def live_def)
  moreover have "ipa_table_erase_entry t1 b = Some (t\<lparr>table_recs := (table_recs t)[b := zero]\<rparr>)"
  proof -
    have "dec16 (inc16 (cur_tbl_cnt t)) = cur_tbl_cnt t"
      using inc okD(1,4) lt by (simp add: dec16_pos table_shape_def)
    moreover have "entry_zero t1 = zero" using c by (simp add: cfg_def t1_def)
    ultimately show ?thesis
      using len b(2) by (simp add: ipa_table_erase_entry_def set_rec_def t1_def es_def Let_def)
  qed
  moreover have "same_table t (t\<lparr>table_recs := (table_recs t)[b := zero]\<rparr>)"
    by (rule same_tableI [where es = "(table_recs t)[b := zero]" and c = "cur_tbl_cnt t" and x = "cur_expn_tbl_cnt t"]) simp_all
  moreover note table_ok_blank [OF ok b_tot b(3) zero_entry]
  moreover have "length (posted t1 [d]) = length (table_recs t1)"
    by (simp only: post) (simp add: t1_def es_def)
  ultimately have "entered h t ch t1 [d] b u"
    unfolding entered_def using st b b_tot d(3) by auto
  then show ?thesis using run by blast
qed

end

context chained_table
begin

lemma end_of_bucket:
  assumes c: "cfg t" and ok: "table_ok lk clean sl t ch" and b: "b < table_entries t" "l_valid (links lk t b)"
  shows "ipa_table_iterator_end t b =
      Some (Inr (null_iterator\<lparr>prev_index := last (b # ch b), prev_entry := Some (last (b # ch b))\<rparr>))
    \<and> last (b # ch b) < tot_tbl_ents t \<and> l_valid (links lk t (last (b # ch b)))"
proof -
  note okD = table_okD [OF ok]
  have d: "distinct (ch b)" "set (ch b) \<subseteq> {table_entries t..<tot_tbl_ents t}"
    using linked_headD [OF okD(2) b(1)] by blast+
  have te: "0 < table_entries t" "table_entries t < tot_tbl_ents t" using okD(1) by (auto simp: table_shape_def)
  have "iterator_end_loop t b = Some (Inr (last (b # ch b)))"
    by (rule end_of_chain [OF c okD(1)]) (use linked_head_path [OF okD(2) b] d b te in \<open>auto simp: subset_iff\<close>)
  moreover have "last (b # ch b) = b \<or> last (b # ch b) \<in> set (ch b)" by (metis last.simps last_in_set)
  ultimately show ?thesis
    using b d te linked_chain_valid [OF okD(2) b(1)] by (auto simp: ipa_table_iterator_end_def)
qed

lemma insert_tail:
  assumes c: "cfg t" and ok: "table_ok lk clean (\<lambda>e. h (view e)) t ch"
    and b: "b < table_entries t" "l_valid (links lk t b)"
    and i: "table_entries t \<le> i" "i < tot_tbl_ents t" "\<not> l_valid (links lk t i)"
    and free: "FindExpnTblFreeEntry t = Some (Inr i)"
    and u: "admissible u" "good u" "h (rule_of u) = b"
  shows "\<exists>t1 cmd. InsertTail t b u [] = Some (t1, cmd, Inr i) \<and> entered h t ch t1 cmd i u"
proof -
  note okD = table_okD [OF ok]
  define m where "m = last (b # ch b)"
  have len: "tot_tbl_ents t \<le> length (table_recs t)" "tot_tbl_ents t < 2 ^ 16" and meta: "meta t = None"
    and te: "0 < table_entries t" and tot: "tot_tbl_ents t = table_entries t + expn_table_entries t"
    using okD(1) by (auto simp: table_shape_def)
  have m: "m < tot_tbl_ents t" "l_valid (links lk t m)" and ie: "ipa_table_iterator_end t b =
      Some (Inr (null_iterator\<lparr>prev_index := m, prev_entry := Some m\<rparr>))"
    unfolding m_def using end_of_bucket [OF c ok b] by blast+
  have mi: "m \<noteq> i" using m i by metis
  obtain e0 where ins: "entry_head_insert ei (table_recs t ! i) u = (e0, Inr enable)" "view e0 = rule_of u"
    "lk e0 = \<lparr>l_valid = False, l_next = 0, l_prev = 0, l_dead = False\<rparr>"
    using insert_good [OF u(1,2), of "table_recs t ! i"] linked_blank [OF okD(2) i(2,3)]
      okD(3) [OF i(2,3)] by (auto simp: links_def)
  obtain e' where e': "entry_set_prev_index ei e0 i m None (table_entries t) = (e', None)"
    "lk e' = (lk e0)\<lparr>l_prev := m\<rparr>" "view e' = view e0"
    using set_prev [of m e0 i "table_entries t"] m(1) len(2) by auto
  define t' where "t' = set_rec i e' t"
  have st': "same_table t t'"
    by (rule same_tableI [where es = "(table_recs t)[i := e']" and c = "cur_tbl_cnt t" and x = "cur_expn_tbl_cnt t"])
      (simp_all add: t'_def set_rec_def)
  have c': "cfg t'" "table_shape t'" "tot_tbl_ents t' = tot_tbl_ents t" "meta t' = None" "table_entries t' = table_entries t"
    using c okD(1) st' meta by (simp_all add: cfg_same shape_same same_table_eqs)
  obtain d1 where d1: "ipa_table_add_dma_cmd t' HELP_UPDATE_HEAD i i enable [] = Some (Inr (), [d1])"
    "\<And>mem. dma_store xt (table_entries t) sz store d1 mem = mem[i := store (field HELP_UPDATE_HEAD) enable (mem ! i)]"
    "fits t d1"
    using add_dma_cmd [OF c'(1,2), of i HELP_UPDATE_HEAD enable "[]"] i(2) c'(3,5) fits_same [OF st'] by auto
  obtain d2 where d2: "ipa_table_add_dma_cmd t' HELP_UPDATE_ENTRY m m i [d1] = Some (Inr (), [d1, d2])"
    "\<And>mem. dma_store xt (table_entries t) sz store d2 mem = mem[m := store (field HELP_UPDATE_ENTRY) i (mem ! m)]"
    "fits t d2"
    using add_dma_cmd [OF c'(1,2), of m HELP_UPDATE_ENTRY i "[d1]"] m(1) c'(3,5) fits_same [OF st'] by auto
  define t1 where "t1 = t'\<lparr>cur_expn_tbl_cnt := inc16 (cur_expn_tbl_cnt t')\<rparr>"
  have t1: "t1 = t\<lparr>table_recs := (table_recs t)[i := e'], cur_expn_tbl_cnt := inc16 (cur_expn_tbl_cnt t)\<rparr>"
    by (simp add: t1_def t'_def set_rec_def)
  have st: "same_table t t1"
    by (rule same_tableI [where es = "(table_recs t)[i := e']" and c = "cur_tbl_cnt t" and x = "inc16 (cur_expn_tbl_cnt t)"])
      (simp_all add: t1)
  have ei: "entry_interface t = ei" using c by (simp add: cfg_def)
  have m': "t'\<lparr>meta := None\<rparr> = t'" using c'(4) by simp
  have run: "InsertTail t b u [] = Some (t1, [d1, d2], Inr i)"
    using ie free rec_at [OF c okD(1) i(2)] ins(1) e'(1) meta d1(1) d2(1) m'
    by (simp add: InsertTail_def tail_insert_def ei t1_def t'_def Let_def)
  define e2 where "e2 = store (field HELP_UPDATE_HEAD) enable e'"
  define m2 where "m2 = store (field HELP_UPDATE_ENTRY) i (table_recs t ! m)"
  have e2: "lk e2 = \<lparr>l_valid = True, l_next = 0, l_prev = m, l_dead = False\<rparr>" "view e2 = rule_of u"
    using ins(2,3) e'(2,3) by (simp_all add: e2_def store_enable)
  have m2: "lk m2 = (links lk t m)\<lparr>l_next := i\<rparr>" "view m2 = view (table_recs t ! m)"
    using i(2) len(2) by (simp_all add: m2_def store_next links_def)
  let ?es = "(table_recs t)[i := e2, m := m2]"
  have post: "posted t1 [d1, d2] = ?es"
    using i(2) len(1) mi unfolding posted_def by (simp add: t1 d1(2) d2(2) e2_def m2_def)
  let ?t2 = "t1\<lparr>table_recs := posted t1 [d1, d2]\<rparr>"
  have t2: "?t2 = t\<lparr>table_recs := ?es, cur_expn_tbl_cnt := inc16 (cur_expn_tbl_cnt t)\<rparr>"
    by (simp only: post) (simp add: t1)
  have lk_es: "(\<lambda>j. lk (?es ! j)) = (links lk t)(i := lk e2, m := (links lk t m)\<lparr>l_next := i\<rparr>)"
    using i(2) m(1) len(1) m2(1) by (auto simp: links_def fun_eq_iff nth_list_update)
  have lks: "links lk ?t2 = (\<lambda>j. lk (?es ! j))" by (simp add: links_def t2 fun_eq_iff)
  have eqs: "table_entries ?t2 = table_entries t" "tot_tbl_ents ?t2 = tot_tbl_ents t" "table_recs ?t2 = ?es"
    unfolding t2 by simp_all
  have val: "l_valid (lk (?es ! j)) \<longleftrightarrow> j = i \<or> l_valid (links lk t j)" for j
    unfolding fun_cong [OF lk_es, of j] using e2(1) m(2) by simp
  have lt: "card (expn_used lk t) < expn_table_entries t"
  proof -
    have "card (expn_used lk t) \<le> card ({table_entries t..<tot_tbl_ents t} - {i})"
      by (rule card_mono) (use i(3) in \<open>auto simp: expn_used_def\<close>)
    also have "\<dots> < expn_table_entries t" using i(1,2) tot by simp
    finally show ?thesis .
  qed
  have inc: "inc16 (cur_expn_tbl_cnt t) = Suc (card (expn_used lk t))"
    using lt okD(5) len(2) tot te by (simp add: inc16_small)
  have liv: "live (lk (?es ! j)) = live (links lk t j) \<and> view (?es ! j) = view (table_recs t ! j)" if "j \<noteq> i" for j
    using that m2 m(1) len(1) by (cases "j = m") (auto simp: links_def live_def nth_list_update)
  have esi: "?es ! i = e2" using i(2) len(1) mi by simp
  have "table_ok lk clean (\<lambda>e. h (view e)) ?t2 (ch(b := ch b @ [i]))"
  proof (rule table_ok_update [OF ok, where es = ?es and A = "{i, m}"
        and c = "cur_tbl_cnt t" and x = "Suc (card (expn_used lk t))"])
    show "?t2 = t\<lparr>table_recs := ?es, cur_tbl_cnt := cur_tbl_cnt t, cur_expn_tbl_cnt := Suc (card (expn_used lk t))\<rparr>"
      unfolding t2 inc by simp
    show "linked (table_entries t) (tot_tbl_ents t) (\<lambda>j. lk (?es ! j)) (ch(b := ch b @ [i]))"
      unfolding lk_es by (rule linked_add_tail [OF okD(2) b i m_def]) (simp_all add: e2)
    show "\<And>j. j \<in> {i, m} \<Longrightarrow> \<not> l_valid (lk (?es ! j)) \<Longrightarrow> clean (?es ! j)" using val m(2) by auto
    have "base_used lk ?t2 = base_used lk t"
      using i(1) val by (auto simp: base_used_def lks eqs)
    then show "cur_tbl_cnt t = card (base_used lk ?t2)" using okD(4) by simp
    show "Suc (card (expn_used lk t)) = card (expn_used lk ?t2)"
      by (rule card_step [of _ i, THEN conjunct1, symmetric])
        (use i val in \<open>auto simp: expn_used_def lks eqs\<close>)
    fix b' j assume j: "b' < table_entries t" "j = b' \<or> j \<in> set ((ch(b := ch b @ [i])) b')" "live (lk (?es ! j))"
    show "h (view (?es ! j)) = b'"
    proof (cases "j = i")
      case True
      then have "b' = b" using j(1,2) i linked_chain_valid [OF okD(2) j(1), of i] by (auto split: if_splits)
      then show ?thesis using True esi e2(2) u(3) by simp
    next
      case False
      then have "j = b' \<or> j \<in> set (ch b')" using j(2) by (auto split: if_splits)
      then show ?thesis using okD(6) [OF j(1)] liv [OF False] j(3) by simp
    qed
  qed (use mi in \<open>auto simp: nth_list_update\<close>)
  moreover have "table_rules lk view ?t2 = (table_rules lk view t)(i \<mapsto> rule_of u)"
    using rules_update [of ?t2 ?es t i lk view] i(2) liv esi e2 by (simp add: eqs live_def)
  moreover have "ipa_table_erase_entry t1 i = Some (t\<lparr>table_recs := (table_recs t)[i := zero]\<rparr>)"
  proof -
    have "dec16 (inc16 (cur_expn_tbl_cnt t)) = cur_expn_tbl_cnt t"
      using inc okD(5) lt len(2) tot te by (simp add: dec16_pos)
    moreover have "entry_zero t1 = zero" using c by (simp add: cfg_def t1)
    ultimately show ?thesis
      using len(1) i by (simp add: ipa_table_erase_entry_def set_rec_def t1 Let_def)
  qed
  moreover have "same_table t (t\<lparr>table_recs := (table_recs t)[i := zero]\<rparr>)"
    by (rule same_tableI [where es = "(table_recs t)[i := zero]" and c = "cur_tbl_cnt t" and x = "cur_expn_tbl_cnt t"]) simp_all
  moreover note table_ok_blank [OF ok i(2,3) zero_entry]
  moreover have "length (posted t1 [d1, d2]) = length (table_recs t1)"
    by (simp only: post) (simp add: t1)
  ultimately have "entered h t ch t1 [d1, d2] i u"
    unfolding entered_def using st i te d1(3) d2(3) by auto
  then show ?thesis using run by blast
qed

end

definition room_for :: "('e \<Rightarrow> link) \<Rightarrow> ('e, 'u, 'm) ipa_table \<Rightarrow> nat \<Rightarrow> bool" where
  "room_for lk t b \<longleftrightarrow>
     \<not> l_valid (links lk t b) \<or>
     (\<exists>i. table_entries t \<le> i \<and> i < tot_tbl_ents t \<and> \<not> l_valid (links lk t i))"

context chained_table
begin

lemma insert_head_bad:
  assumes c: "cfg t" and ok: "table_ok lk clean sl t ch"
    and b: "b < table_entries t" "\<not> l_valid (links lk t b)" and u: "\<not> good u"
  shows "\<exists>t1 err. InsertHead t b u [] = Some (t1, [], Inl err) \<and> same_table t t1 \<and>
    table_ok lk clean sl t1 ch \<and> table_rules lk view t1 = table_rules lk view t"
proof -
  note okD = table_okD [OF ok]
  have b_tot: "b < tot_tbl_ents t" using b(1) okD(1) by (simp add: table_shape_def)
  obtain e' err where ins: "entry_head_insert ei (table_recs t ! b) u = (e', Inl err)" "blank_link (lk e')" "clean e'"
    using insert_bad [OF u, of "table_recs t ! b"] linked_blank [OF okD(2) b_tot b(2)]
      okD(3) [OF b_tot b(2)] by (auto simp: links_def)
  have "InsertHead t b u [] = Some (t\<lparr>table_recs := (table_recs t)[b := e']\<rparr>, [], Inl err)"
    using rec_at [OF c okD(1) b_tot] c ins(1) by (simp add: InsertHead_def cfg_def set_rec_def)
  moreover have "same_table t (t\<lparr>table_recs := (table_recs t)[b := e']\<rparr>)"
    by (rule same_tableI [where es = "(table_recs t)[b := e']" and c = "cur_tbl_cnt t" and x = "cur_expn_tbl_cnt t"]) simp_all
  ultimately show ?thesis using table_ok_blank [OF ok b_tot b(2) ins(2,3)] by blast
qed

lemma insert_tail_bad:
  assumes c: "cfg t" and ok: "table_ok lk clean sl t ch"
    and b: "b < table_entries t" "l_valid (links lk t b)"
    and i: "i < tot_tbl_ents t" "\<not> l_valid (links lk t i)"
    and free: "FindExpnTblFreeEntry t = Some (Inr i)" and u: "\<not> good u"
  shows "\<exists>t1 err. InsertTail t b u [] = Some (t1, [], Inl err) \<and> same_table t t1 \<and>
    table_ok lk clean sl t1 ch \<and> table_rules lk view t1 = table_rules lk view t"
proof -
  note okD = table_okD [OF ok]
  have meta: "meta t = None" using okD(1) by (simp add: table_shape_def)
  obtain e' err where ins: "entry_head_insert ei (table_recs t ! i) u = (e', Inl err)" "blank_link (lk e')" "clean e'"
    using insert_bad [OF u, of "table_recs t ! i"] linked_blank [OF okD(2) i]
      okD(3) [OF i] by (auto simp: links_def)
  have "InsertTail t b u [] = Some (t\<lparr>table_recs := (table_recs t)[i := e']\<rparr>, [], Inl err)"
    using end_of_bucket [OF c ok b] free rec_at [OF c okD(1) i(1)] c ins(1) meta
    by (simp add: InsertTail_def tail_insert_def cfg_def set_rec_def)
  moreover have "same_table t (t\<lparr>table_recs := (table_recs t)[i := e']\<rparr>)"
    by (rule same_tableI [where es = "(table_recs t)[i := e']" and c = "cur_tbl_cnt t" and x = "cur_expn_tbl_cnt t"]) simp_all
  ultimately show ?thesis using table_ok_blank [OF ok i ins(2,3)] by blast
qed

text \<open>An insertion of a good rule fails only when there is no room for it.\<close>

definition refused ::
    "('e \<Rightarrow> nat) \<Rightarrow> ('e, 'u, 'm) ipa_table \<Rightarrow> (nat \<Rightarrow> nat list) \<Rightarrow> ('e, 'u, 'm) ipa_table \<Rightarrow> bool" where
  "refused sl t ch t1 \<longleftrightarrow>
     same_table t t1 \<and> table_ok lk clean sl t1 ch \<and> table_rules lk view t1 = table_rules lk view t"

lemma add_entry_good:
  assumes c: "cfg t" and ok: "table_ok lk clean (\<lambda>e. h (view e)) t ch" and b: "0 < b" "b < table_entries t"
    and u: "admissible u" "good u" "h (rule_of u) = b"
  shows "if room_for lk t b
    then \<exists>t1 cmd i. ipa_table_add_entry t u b [] = Some (t1, cmd, Inr (i, MakeEntryHdl t i)) \<and>
           entered h t ch t1 cmd i u \<and> (i = b \<or> table_entries t \<le> i)
    else ipa_table_add_entry t u b [] = Some (t, [], Inl EPERM)"
proof -
  note okD = table_okD [OF ok]
  have rc: "GOTO_REC t b = Some (table_recs t ! b)"
    using rec_at [OF c okD(1), of b] b(2) okD(1) by (simp add: table_shape_def)
  note rv = rec_links [OF c, of b]
  show ?thesis
  proof (cases "l_valid (links lk t b)")
    case False
    then obtain t1 cmd where "InsertHead t b u [] = Some (t1, cmd, Inr b)" and e: "entered h t ch t1 cmd b u"
      using insert_head [OF c ok b] u by blast
    moreover have "MakeEntryHdl t1 b = MakeEntryHdl t b" using e hdl_same by (auto simp: entered_def)
    ultimately have "ipa_table_add_entry t u b [] = Some (t1, cmd, Inr (b, MakeEntryHdl t b))"
      using False rc rv by (simp add: ipa_table_add_entry_def)
    then show ?thesis using e False by (auto simp: room_for_def)
  next
    case True
    note ff = find_free [OF c okD(1)]
    show ?thesis
    proof (cases "filter (\<lambda>j. \<not> l_valid (links lk t j)) [table_entries t..<tot_tbl_ents t]")
      case Nil
      then have "\<not> room_for lk t b" using True by (auto simp: room_for_def filter_empty_conv)
      moreover have "InsertTail t b u [] = Some (t, [], Inl EPERM)"
        using end_of_bucket [OF c ok b(2) True] ff Nil by (simp add: InsertTail_def)
      ultimately show ?thesis using True rc rv by (simp add: ipa_table_add_entry_def)
    next
      case (Cons i js)
      then have "i \<in> set (filter (\<lambda>j. \<not> l_valid (links lk t j)) [table_entries t..<tot_tbl_ents t])" by simp
      then have i: "table_entries t \<le> i" "i < tot_tbl_ents t" "\<not> l_valid (links lk t i)" by auto
      have "FindExpnTblFreeEntry t = Some (Inr i)" using ff Cons by simp
      from insert_tail [OF c ok b(2) True i this u]
      obtain t1 cmd where it: "InsertTail t b u [] = Some (t1, cmd, Inr i)" and e: "entered h t ch t1 cmd i u" by blast
      moreover have "MakeEntryHdl t1 i = MakeEntryHdl t i" using e hdl_same by (auto simp: entered_def)
      ultimately have "ipa_table_add_entry t u b [] = Some (t1, cmd, Inr (i, MakeEntryHdl t i))"
        using True rc rv by (simp add: ipa_table_add_entry_def)
      moreover have "room_for lk t b" using i by (auto simp: room_for_def)
      ultimately show ?thesis using e i(1) by auto
    qed
  qed
qed

lemma add_entry_bad:
  assumes c: "cfg t" and ok: "table_ok lk clean sl t ch" and b: "b < table_entries t"
    and u: "\<not> good u"
  shows "\<exists>t1 err. ipa_table_add_entry t u b [] = Some (t1, [], Inl err) \<and> refused sl t ch t1"
proof -
  note okD = table_okD [OF ok]
  have rc: "GOTO_REC t b = Some (table_recs t ! b)"
    using rec_at [OF c okD(1), of b] b okD(1) by (simp add: table_shape_def)
  note rv = rec_links [OF c, of b]
  show ?thesis
  proof (cases "l_valid (links lk t b)")
    case False
    then obtain t1 err where "InsertHead t b u [] = Some (t1, [], Inl err)" "refused sl t ch t1"
      using insert_head_bad [OF c ok b _ u] by (auto simp: refused_def)
    then show ?thesis using False rc rv by (simp add: ipa_table_add_entry_def)
  next
    case True
    note ff = find_free [OF c okD(1)]
    show ?thesis
    proof (cases "filter (\<lambda>j. \<not> l_valid (links lk t j)) [table_entries t..<tot_tbl_ents t]")
      case Nil
      then have "InsertTail t b u [] = Some (t, [], Inl EPERM)"
        using end_of_bucket [OF c ok b True] ff by (simp add: InsertTail_def)
      then show ?thesis using True rc rv ok same_table_refl [of t]
        by (auto simp: ipa_table_add_entry_def refused_def)
    next
      case (Cons i js)
      then have "i \<in> set (filter (\<lambda>j. \<not> l_valid (links lk t j)) [table_entries t..<tot_tbl_ents t])" by simp
      then have i: "i < tot_tbl_ents t" "\<not> l_valid (links lk t i)" by auto
      have "FindExpnTblFreeEntry t = Some (Inr i)" using ff Cons by simp
      from insert_tail_bad [OF c ok b True i this u]
      show ?thesis using True rc rv by (auto simp: ipa_table_add_entry_def refused_def)
    qed
  qed
qed

end

section \<open>Deletion\<close>

text \<open>The iterator on an entry in use.\<close>

definition iterator_at :: "(nat \<Rightarrow> link) \<Rightarrow> nat \<Rightarrow> ipa_table_iterator" where
  "iterator_at L i =
     \<lparr>prev_index = l_prev (L i), prev_entry = (if l_prev (L i) = 0 then None else Some (l_prev (L i))),
      curr_index = i, curr_entry = Some i,
      next_index = l_next (L i), next_entry = (if l_next (L i) = 0 then None else Some (l_next (L i)))\<rparr>"

context chained_table
begin

lemma neighbours_in:
  assumes ok: "table_ok lk clean sl t ch" and i: "i < tot_tbl_ents t" "l_valid (links lk t i)"
  shows "l_prev (links lk t i) < tot_tbl_ents t \<and> l_next (links lk t i) < tot_tbl_ents t"
proof -
  note okD = table_okD [OF ok]
  have te: "0 < table_entries t" "table_entries t < tot_tbl_ents t" using okD(1) by (auto simp: table_shape_def)
  have suc: "succ_of cs < tot_tbl_ents t" if "set cs \<subseteq> {table_entries t..<tot_tbl_ents t}" for cs
    using that te by (cases cs) auto
  show ?thesis
  proof (cases "i < table_entries t")
    case True
    then show ?thesis
      using linked_head_links [OF okD(2) True i(2)] linked_headD [OF okD(2) True] suc te by simp
  next
    case False
    then obtain b xs ys where b: "b < table_entries t" "ch b = xs @ i # ys"
      "l_prev (links lk t i) = last (b # xs)" "l_next (links lk t i) = succ_of ys"
      using linked_position [OF okD(2) _ i] by auto
    have sub: "set (ch b) \<subseteq> {table_entries t..<tot_tbl_ents t}" using linked_headD [OF okD(2) b(1)] by blast
    have "last (b # xs) = b \<or> last (b # xs) \<in> set xs" by (metis last.simps last_in_set)
    then show ?thesis using b sub suc [of ys] te by auto
  qed
qed

lemma iterator_of:
  assumes c: "cfg t" and ok: "table_ok lk clean sl t ch" and i: "i < tot_tbl_ents t"
  shows "ipa_table_iterator_init t i i =
    Some (if l_valid (links lk t i) then Inr (iterator_at (links lk t) i) else Inl EINVAL)"
proof -
  note okD = table_okD [OF ok]
  have ei: "entry_interface t = ei" "meta t = None" using c okD(1) by (auto simp: cfg_def table_shape_def)
  have p: "entry_get_prev_index ei (table_recs t ! i) i None (table_entries t) = l_prev (links lk t i)"
    by (simp add: prev_lk links_def)
  show ?thesis
    using rec_at [OF c okD(1) i] rec_links [OF c, of i] neighbours_in [OF ok i] p
    by (auto simp: ipa_table_iterator_init_def ei iterator_at_def VALID_INDEX_def IPA_TABLE_INVALID_ENTRY_def
        ipa_table_get_entry_by_index_def Let_def)
qed

definition deleted ::
    "('r \<Rightarrow> nat) \<Rightarrow> ('e, 'u, 'm) ipa_table \<Rightarrow> ('e, 'u, 'm) ipa_table \<Rightarrow> nat \<Rightarrow> bool" where
  "deleted h t t2 i \<longleftrightarrow>
     same_table t t2 \<and> (\<exists>ch'. table_ok lk clean (\<lambda>e. h (view e)) t2 ch') \<and>
     table_rules lk view t2 = (table_rules lk view t)(i := None)"

text \<open>
  The steps of a deletion of the entry \<open>i\<close>: the command, and then what the library does itself, where
  \<open>q\<close> is what it finds out about the entry before.
\<close>

definition deletes ::
    "('r \<Rightarrow> nat) \<Rightarrow> ('e, 'u, 'm) ipa_table \<Rightarrow> ipa_table_iterator \<Rightarrow> ipa_ioc_nat_dma_cmd \<Rightarrow> nat \<Rightarrow> bool" where
  "deletes h t it cmd i \<longleftrightarrow>
     ipa_table_create_delete_command t [] it = Some cmd \<and> length cmd = 1 \<and> list_all (fits t) cmd \<and>
     length (posted t cmd) = length (table_recs t) \<and>
     (let t1 = t\<lparr>table_recs := posted t cmd\<rparr>;
          q = (case prev_entry it of None \<Rightarrow> False | Some p \<Rightarrow> l_dead (lk (posted t cmd ! p))) in
      if ipa_table_iterator_is_head_with_tail it then deleted h t t1 i
      else \<exists>t2. ipa_table_delete_entry t1 it q = Some t2 \<and> deleted h t t2 i)"

lemma delete_single_head:
  assumes c: "cfg t" and ok: "table_ok lk clean (\<lambda>e. h (view e)) t ch"
    and i: "i < table_entries t" "l_valid (links lk t i)" "ch i = []"
  shows "\<exists>cmd. deletes h t (iterator_at (links lk t) i) cmd i"
proof -
  note okD = table_okD [OF ok]
  have i_tot: "i < tot_tbl_ents t" using i(1) okD(1) by (simp add: table_shape_def)
  have len: "i < length (table_recs t)" using i_tot okD(1) by (simp add: table_shape_def)
  have lnk: "l_prev (links lk t i) = 0" "l_next (links lk t i) = 0"
    using linked_head_links [OF okD(2) i(1,2)] i(3) by auto
  obtain d where d: "ipa_table_add_dma_cmd t HELP_UPDATE_HEAD i i 0 [] = Some (Inr (), [d])"
    "\<And>mem. dma_store xt (table_entries t) sz store d mem = mem[i := store (field HELP_UPDATE_HEAD) 0 (mem ! i)]"
    "fits t d"
    using add_dma_cmd [OF c okD(1) i_tot, of HELP_UPDATE_HEAD 0 "[]"] by auto
  let ?it = "iterator_at (links lk t) i" and ?es = "(table_recs t)[i := zero]"
  let ?t2 = "t\<lparr>table_recs := ?es, cur_tbl_cnt := dec16 (cur_tbl_cnt t)\<rparr>"
  have post: "posted t [d] = (table_recs t)[i := store (field HELP_UPDATE_HEAD) 0 (table_recs t ! i)]"
    by (simp add: posted_def d(2))
  have cmd: "ipa_table_create_delete_command t [] ?it = Some [d]"
    using lnk d(1) by (simp add: ipa_table_create_delete_command_def iterator_at_def VALID_INDEX_def
        IPA_TABLE_INVALID_ENTRY_def)
  have del: "ipa_table_delete_entry (t\<lparr>table_recs := posted t [d]\<rparr>) ?it False = Some ?t2"
    using lnk len i(1) c unfolding post
    by (simp add: ipa_table_delete_entry_def iterator_at_def VALID_INDEX_def IPA_TABLE_INVALID_ENTRY_def
        ipa_table_erase_entry_def set_rec_def cfg_def Let_def)
  have lk_es: "(\<lambda>j. lk (?es ! j)) = (links lk t)(i := lk zero)" by (rule links_list_update [OF len])
  have lks: "links lk ?t2 = (links lk t)(i := lk zero)" using lk_es by (simp add: links_def fun_eq_iff)
  have nz: "\<not> l_valid (lk zero)" using zero_entry(1) by (simp add: blank_link_def)
  have cs: "card (base_used lk t) = Suc (card (base_used lk ?t2))"
    by (rule card_step [of _ i, THEN conjunct1]) (use i nz in \<open>auto simp: base_used_def lks\<close>)
  have dec: "dec16 (cur_tbl_cnt t) = card (base_used lk ?t2)"
    using cs used_bounds(1) [OF okD(1), of lk] okD(1,4) by (subst dec16_pos) (auto simp: table_shape_def)
  have "table_ok lk clean (\<lambda>e. h (view e)) ?t2 ch"
  proof (rule table_ok_update [OF ok, where es = ?es and A = "{i}"
        and c = "dec16 (cur_tbl_cnt t)" and x = "cur_expn_tbl_cnt t"])
    show "linked (table_entries t) (tot_tbl_ents t) (\<lambda>j. lk (?es ! j)) ch"
      unfolding lk_es by (rule linked_del_head [OF okD(2) i(1,3) zero_entry(1)])
    have "expn_used lk ?t2 = expn_used lk t" using i(1) by (auto simp: expn_used_def lks)
    then show "cur_expn_tbl_cnt t = card (expn_used lk ?t2)" using okD(5) by simp
    fix b' j assume j: "b' < table_entries t" "j = b' \<or> j \<in> set (ch b')" "live (lk (?es ! j))"
    have "j \<noteq> i" using j(3) nz len by (auto simp: live_def)
    then show "h (view (?es ! j)) = b'" using okD(6) [OF j(1,2)] j(3) by (simp add: links_def)
  qed (use dec zero_entry len in simp_all)
  moreover have "table_rules lk view ?t2 = (table_rules lk view t)(i := None)"
    using rules_update [of ?t2 ?es t i lk view] i_tot len nz by (simp add: links_def live_def)
  moreover have "same_table t ?t2"
    by (rule same_tableI [where es = ?es and c = "dec16 (cur_tbl_cnt t)" and x = "cur_expn_tbl_cnt t"]) simp_all
  ultimately have dl: "deleted h t ?t2 i" by (auto simp: deleted_def)
  have "\<not> ipa_table_iterator_is_head_with_tail ?it" "prev_entry ?it = None"
    using lnk by (simp_all add: ipa_table_iterator_is_head_with_tail_def iterator_at_def VALID_INDEX_def
        IPA_TABLE_INVALID_ENTRY_def)
  then have "deletes h t ?it [d] i"
    unfolding deletes_def using cmd del dl d(3) by (simp add: post)
  then show ?thesis by blast
qed

lemma delete_head_with_tail:
  assumes c: "cfg t" and ok: "table_ok lk clean (\<lambda>e. h (view e)) t ch"
    and i: "i < table_entries t" "l_valid (links lk t i)" "ch i \<noteq> []"
  shows "\<exists>cmd. deletes h t (iterator_at (links lk t) i) cmd i"
proof -
  note okD = table_okD [OF ok]
  have i_tot: "i < tot_tbl_ents t" using i(1) okD(1) by (simp add: table_shape_def)
  have len: "i < length (table_recs t)" using i_tot okD(1) by (simp add: table_shape_def)
  let ?n = "l_next (links lk t i)"
  have "set (ch i) \<subseteq> {table_entries t..<tot_tbl_ents t}" using linked_headD [OF okD(2) i(1)] by blast
  then have lnk: "l_prev (links lk t i) = 0" "?n \<noteq> 0" "?n < tot_tbl_ents t"
    using linked_head_links [OF okD(2) i(1,2)] i okD(1) by (cases "ch i"; auto simp: table_shape_def)+
  let ?data = "entry_get_delete_head_dma_command_data ei (table_recs t ! i) (table_recs t ! ?n)"
  obtain d where d: "ipa_table_add_dma_cmd t HELP_DELETE_HEAD i i ?data [] = Some (Inr (), [d])"
    "\<And>mem. dma_store xt (table_entries t) sz store d mem = mem[i := store (field HELP_DELETE_HEAD) ?data (mem ! i)]"
    "fits t d"
    using add_dma_cmd [OF c okD(1) i_tot, of HELP_DELETE_HEAD ?data "[]"] by auto
  let ?it = "iterator_at (links lk t) i"
  define e where "e = store (field HELP_DELETE_HEAD) ?data (table_recs t ! i)"
  let ?es = "(table_recs t)[i := e]" and ?t1 = "t\<lparr>table_recs := posted t [d]\<rparr>"
  have post: "posted t [d] = ?es" by (simp add: posted_def d(2) e_def)
  have e: "lk e = (links lk t i)\<lparr>l_dead := True\<rparr>" by (simp add: e_def store_kill links_def)
  have cmd: "ipa_table_create_delete_command t [] ?it = Some [d]"
    using lnk d(1) rec_at [OF c okD(1) i_tot] rec_at [OF c okD(1) lnk(3)] c
    by (simp add: ipa_table_create_delete_command_def iterator_at_def VALID_INDEX_def
        IPA_TABLE_INVALID_ENTRY_def cfg_def)
  have lk_es: "(\<lambda>j. lk (?es ! j)) = (links lk t)(i := (links lk t i)\<lparr>l_dead := True\<rparr>)"
    using links_list_update [OF len, of lk e] e by simp
  have lks: "links lk ?t1 = (links lk t)(i := (links lk t i)\<lparr>l_dead := True\<rparr>)"
    using lk_es by (simp add: links_def post fun_eq_iff)
  have "table_ok lk clean (\<lambda>e. h (view e)) ?t1 ch"
  proof (rule table_ok_update [OF ok, where es = ?es and A = "{i}"
        and c = "cur_tbl_cnt t" and x = "cur_expn_tbl_cnt t"])
    show "linked (table_entries t) (tot_tbl_ents t) (\<lambda>j. lk (?es ! j)) ch"
      unfolding lk_es by (rule linked_kill_head [OF okD(2) i(1,3)])
    have "expn_used lk ?t1 = expn_used lk t" "base_used lk ?t1 = base_used lk t"
      using i by (auto simp: expn_used_def base_used_def lks)
    then show "cur_tbl_cnt t = card (base_used lk ?t1)" "cur_expn_tbl_cnt t = card (expn_used lk ?t1)"
      using okD(4,5) by simp_all
    fix b' j assume j: "b' < table_entries t" "j = b' \<or> j \<in> set (ch b')" "live (lk (?es ! j))"
    have "j \<noteq> i" using j(3) e len by (auto simp: live_def)
    then show "h (view (?es ! j)) = b'" using okD(6) [OF j(1,2)] j(3) by (simp add: links_def)
  qed (use e len i in \<open>simp_all add: post\<close>)
  moreover have "table_rules lk view ?t1 = (table_rules lk view t)(i := None)"
    using rules_update [of ?t1 ?es t i lk view] i_tot len e by (simp add: post links_def live_def)
  moreover have "same_table t ?t1"
    by (rule same_tableI [where es = ?es and c = "cur_tbl_cnt t" and x = "cur_expn_tbl_cnt t"])
      (simp_all add: post)
  ultimately have dl: "deleted h t ?t1 i" by (auto simp: deleted_def)
  have "ipa_table_iterator_is_head_with_tail ?it"
    using lnk by (simp add: ipa_table_iterator_is_head_with_tail_def iterator_at_def VALID_INDEX_def
        IPA_TABLE_INVALID_ENTRY_def)
  then have "deletes h t ?it [d] i"
    unfolding deletes_def using cmd dl d(3) by (simp add: post)
  then show ?thesis by blast
qed

end

context chained_table
begin

lemma cut_ok:
  assumes ok: "table_ok lk clean (\<lambda>e. h (view e)) t ch"
    and b: "b < table_entries t" "ch b = xs @ i # ys" "p = last (b # xs)"
    and g: "gone \<longleftrightarrow> l_dead (links lk t b) \<and> xs @ ys = []"
    and es: "length es = length (table_recs t)" "es ! i = zero" "gone \<Longrightarrow> es ! b = zero"
      "\<And>j. j \<noteq> i \<Longrightarrow> j \<noteq> b \<or> \<not> gone \<Longrightarrow>
         lk (es ! j) = cut_links (links lk t) p i ys j \<and> view (es ! j) = view (table_recs t ! j) \<and>
         (j \<noteq> p \<and> j \<notin> set ys \<longrightarrow> es ! j = table_recs t ! j)"
    and t2: "t2 = t\<lparr>table_recs := es, cur_tbl_cnt := (if gone then dec16 (cur_tbl_cnt t) else cur_tbl_cnt t),
                    cur_expn_tbl_cnt := dec16 (cur_expn_tbl_cnt t)\<rparr>"
  shows "deleted h t t2 i"
proof -
  note okD = table_okD [OF ok]
  have nz: "\<not> l_valid (lk zero)" using zero_entry(1) by (simp add: blank_link_def)
  have i_in: "i \<in> set (ch b)" using b(2) by simp
  have i: "l_valid (links lk t b)" "l_valid (links lk t i)" "\<not> l_dead (links lk t i)"
    "table_entries t \<le> i" "i < tot_tbl_ents t"
    using linked_chain_valid [OF okD(2) b(1) i_in] by blast+
  have lks: "links lk t2 j = lk (es ! j)" for j by (simp add: links_def t2)
  have eqs: "table_entries t2 = table_entries t" "tot_tbl_ents t2 = tot_tbl_ents t" "table_recs t2 = es"
    by (simp_all add: t2)
  have keep: "l_valid (lk (es ! j)) = l_valid (links lk t j) \<and> live (lk (es ! j)) = live (links lk t j)"
    if "j \<noteq> i" "j \<noteq> b \<or> \<not> gone" for j
    using es(4) [OF that] by (simp add: cut_links_def live_def Let_def)
  have zi: "\<not> l_valid (lk (es ! i))" "gone \<Longrightarrow> \<not> l_valid (lk (es ! b))" using es(2,3) nz by simp_all
  have p_in: "p = b \<or> p \<in> set (ch b)" using b(2,3) by (auto split: if_splits)
  have linked': "linked (table_entries t) (tot_tbl_ents t) (\<lambda>j. lk (es ! j)) (ch(b := xs @ ys))"
    by (rule linked_cut [OF okD(2) b zero_entry(1) _ _ _ g]) (use es in auto)
  have base: "(if gone then dec16 (cur_tbl_cnt t) else cur_tbl_cnt t) = card (base_used lk t2)"
  proof (cases gone)
    case True
    have cs: "card (base_used lk t) = Suc (card (base_used lk t2))"
    proof (rule card_step [of _ b, THEN conjunct1])
      fix j assume "j \<noteq> b"
      then show "j \<in> base_used lk t \<longleftrightarrow> j \<in> base_used lk t2"
        using keep [of j] i(4) by (cases "j = i") (auto simp: base_used_def lks eqs)
    qed (use b i zi(2) True in \<open>auto simp: base_used_def lks eqs\<close>)
    then show ?thesis
      using True used_bounds(1) [OF okD(1), of lk] okD(1,4) by (simp add: dec16_pos table_shape_def)
  next
    case False
    have "base_used lk t2 = base_used lk t"
      using keep False i(4) by (auto simp: base_used_def lks eqs)
    then show ?thesis using False okD(4) by simp
  qed
  have expn: "dec16 (cur_expn_tbl_cnt t) = card (expn_used lk t2)"
  proof -
    have cs: "card (expn_used lk t) = Suc (card (expn_used lk t2))"
    proof (rule card_step [of _ i, THEN conjunct1])
      fix j assume "j \<noteq> i"
      then show "j \<in> expn_used lk t \<longleftrightarrow> j \<in> expn_used lk t2"
        using keep [of j] b(1) by (cases "j = b") (auto simp: expn_used_def lks eqs)
    qed (use i zi(1) in \<open>auto simp: expn_used_def lks eqs\<close>)
    then show ?thesis
      using used_bounds(2) [OF okD(1), of lk] okD(1,5) by (simp add: dec16_pos table_shape_def)
  qed
  have "table_ok lk clean (\<lambda>e. h (view e)) t2 (ch(b := xs @ ys))"
  proof (rule table_ok_update [OF ok t2 es(1) _ linked' _ base expn])
    show "\<And>j. j \<notin> insert i (insert b (insert p (set ys))) \<Longrightarrow> es ! j = table_recs t ! j" using es(4) by simp
    fix j assume j: "j \<in> insert i (insert b (insert p (set ys)))" and nv: "\<not> l_valid (lk (es ! j))"
    have "l_valid (links lk t j)"
      using j i(1,2) p_in b(2) linked_chain_valid [OF okD(2) b(1), of j] by auto
    then have "j = i \<or> j = b \<and> gone" using keep [of j] nv by blast
    then show "clean (es ! j)" using es(2,3) zero_entry(2) by auto
  next
    fix b' j assume j: "b' < table_entries t" "j = b' \<or> j \<in> set ((ch(b := xs @ ys)) b')" "live (lk (es ! j))"
    have nj: "j \<noteq> i" "j \<noteq> b \<or> \<not> gone" using j(3) zi by (auto simp: live_def)
    have "j = b' \<or> j \<in> set (ch b')" using j(2) b(2) by (auto split: if_splits)
    then show "h (view (es ! j)) = b'" using okD(6) [OF j(1)] keep [OF nj] es(4) [OF nj] j(3) by simp
  qed
  moreover have "table_rules lk view t2 = (table_rules lk view t)(i := None)"
  proof (subst rules_update [OF eqs(3,2) i(5)])
    fix j assume j: "j \<noteq> i"
    show "live (lk (es ! j)) = live (links lk t j)"
      using keep [OF j] zi(2) g by (cases "j = b \<and> gone") (auto simp: live_def)
    show "live (lk (es ! j)) \<Longrightarrow> view (es ! j) = view (table_recs t ! j)"
      using es(4) [OF j] zi(2) by (cases "j = b \<and> gone") (auto simp: live_def)
  qed (use zi(1) in \<open>simp add: live_def\<close>)
  moreover have "same_table t t2" by (rule same_tableI [OF t2 es(1)])
  ultimately show ?thesis by (auto simp: deleted_def)
qed

lemma delete_chained:
  assumes c: "cfg t" and ok: "table_ok lk clean (\<lambda>e. h (view e)) t ch"
    and i: "table_entries t \<le> i" "i < tot_tbl_ents t" "l_valid (links lk t i)"
  shows "\<exists>cmd. deletes h t (iterator_at (links lk t) i) cmd i"
proof -
  note okD = table_okD [OF ok]
  obtain b xs ys where b: "b < table_entries t" "l_valid (links lk t b)" "ch b = xs @ i # ys"
    and lnk: "l_prev (links lk t i) = last (b # xs)" "l_next (links lk t i) = succ_of ys"
    using linked_position [OF okD(2) i] by auto
  define p where "p = last (b # xs)"
  have sub: "distinct (ch b)" "set (ch b) \<subseteq> {table_entries t..<tot_tbl_ents t}"
    using linked_headD [OF okD(2) b(1)] by blast+
  have b0: "b \<noteq> 0" using linked_zero [OF okD(2)] b(2) by metis
  have p_cases: "xs = [] \<and> p = b \<or> p \<in> set xs" by (auto simp: p_def)
  have p: "p \<noteq> 0" "p \<noteq> i" "p < tot_tbl_ents t" "p \<notin> set ys"
    using p_cases b0 b sub i okD(1) by (auto simp: table_shape_def)
  have len: "i < length (table_recs t)" "p < length (table_recs t)" "tot_tbl_ents t < 2 ^ 16"
    and te: "0 < table_entries t" and meta: "meta t = None"
    using i p okD(1) by (auto simp: table_shape_def)
  have dead: "l_dead (links lk t p) \<longleftrightarrow> l_dead (links lk t b) \<and> xs = []"
    using p_cases linked_chain_valid [OF okD(2) b(1), of p] b(3) by auto
  let ?it = "iterator_at (links lk t) i"
  have it: "prev_index ?it = p" "prev_entry ?it = Some p" "curr_index ?it = i" "next_index ?it = succ_of ys"
    "next_entry ?it = (if succ_of ys = 0 then None else Some (succ_of ys))"
    using lnk p(1) by (simp_all add: iterator_at_def p_def)
  have n: "succ_of ys < 2 ^ 16" using b(3) sub(2) len(3) by (cases ys) auto
  obtain d where d: "ipa_table_add_dma_cmd t HELP_UPDATE_ENTRY p p (succ_of ys) [] = Some (Inr (), [d])"
    "\<And>mem. dma_store xt (table_entries t) sz store d mem =
       mem[p := store (field HELP_UPDATE_ENTRY) (succ_of ys) (mem ! p)]"
    "fits t d"
    using add_dma_cmd [OF c okD(1) p(3), of HELP_UPDATE_ENTRY "succ_of ys" "[]"] by auto
  define pe where "pe = store (field HELP_UPDATE_ENTRY) (succ_of ys) (table_recs t ! p)"
  have pe: "lk pe = (links lk t p)\<lparr>l_next := succ_of ys\<rparr>" "view pe = view (table_recs t ! p)"
    using n by (simp_all add: pe_def store_next links_def)
  have post: "posted t [d] = (table_recs t)[p := pe]" by (simp add: posted_def d(2) pe_def)
  have cmd: "ipa_table_create_delete_command t [] ?it = Some [d]"
    using it d(1) p(1) by (simp add: ipa_table_create_delete_command_def VALID_INDEX_def IPA_TABLE_INVALID_ENTRY_def)
  have ht: "\<not> ipa_table_iterator_is_head_with_tail ?it"
    using it p(1) by (simp add: ipa_table_iterator_is_head_with_tail_def VALID_INDEX_def IPA_TABLE_INVALID_ENTRY_def)
  have q: "l_dead (lk (posted t [d] ! p)) = (l_dead (links lk t b) \<and> xs = [])"
    using len(2) pe(1) dead by (simp add: post)
  let ?t1 = "t\<lparr>table_recs := posted t [d]\<rparr>" and ?q = "l_dead (links lk t b) \<and> xs = []"
  have zero: "entry_zero t = zero" and ei: "entry_interface t = ei" using c by (simp_all add: cfg_def)
  have "\<exists>t2. ipa_table_delete_entry ?t1 ?it ?q = Some t2 \<and> deleted h t t2 i"
  proof (cases ys)
    case (Cons z zs)
    have z: "z < tot_tbl_ents t" "z \<noteq> 0" "z \<noteq> i" "z \<noteq> p" "z \<noteq> b"
      using b sub p(4) Cons te by auto
    have zl: "z < length (table_recs t)" using z(1) okD(1) by (simp add: table_shape_def)
    obtain ze where ze: "entry_set_prev_index ei (table_recs t ! z) z p None (table_entries t) = (ze, None)"
      "lk ze = (lk (table_recs t ! z))\<lparr>l_prev := p\<rparr>" "view ze = view (table_recs t ! z)"
      using set_prev [of p "table_recs t ! z" z "table_entries t"] p(3) len(3) by auto
    let ?es = "(table_recs t)[p := pe, z := ze, i := zero]"
    let ?t2 = "t\<lparr>table_recs := ?es, cur_expn_tbl_cnt := dec16 (cur_expn_tbl_cnt t)\<rparr>"
    have "ipa_table_delete_entry ?t1 ?it ?q = Some ?t2"
      using it z zl ze(1) len i(1) meta Cons
      by (simp add: ipa_table_delete_entry_def VALID_INDEX_def IPA_TABLE_INVALID_ENTRY_def GOTO_REC_def
          ipa_table_erase_entry_def set_rec_def post ei zero Let_def)
    moreover have "deleted h t ?t2 i"
    proof (rule cut_ok [OF ok b(1,3) p_def, where gone = False and es = ?es])
      show "?es ! i = zero" using len(1) by simp
      fix j assume j: "j \<noteq> i"
      show "lk (?es ! j) = cut_links (links lk t) p i ys j \<and> view (?es ! j) = view (table_recs t ! j) \<and>
         (j \<noteq> p \<and> j \<notin> set ys \<longrightarrow> ?es ! j = table_recs t ! j)"
        using j z(4) Cons pe ze(2,3) len(2) zl
        by (cases "j = z"; cases "j = p") (auto simp: cut_links_def links_def Let_def)
    qed (use Cons in simp_all)
    ultimately show ?thesis by blast
  next
    case Nil
    show ?thesis
    proof (cases ?q)
      case True
      then have pb: "p = b" by (simp add: p_def)
      let ?es = "(table_recs t)[p := zero, i := zero]"
      let ?t2 = "t\<lparr>table_recs := ?es, cur_tbl_cnt := dec16 (cur_tbl_cnt t), cur_expn_tbl_cnt := dec16 (cur_expn_tbl_cnt t)\<rparr>"
      have "ipa_table_delete_entry ?t1 ?it ?q = Some ?t2"
        using it len i(1) Nil True
        by (simp add: ipa_table_delete_entry_def VALID_INDEX_def IPA_TABLE_INVALID_ENTRY_def GOTO_REC_def
            ipa_table_erase_entry_def set_rec_def post zero Let_def)
      moreover have "deleted h t ?t2 i"
      proof (rule cut_ok [OF ok b(1,3) p_def, where gone = True and es = ?es])
        show "?es ! i = zero" "?es ! b = zero" using len p(2) pb by simp_all
        fix j assume j: "j \<noteq> i" "j \<noteq> b \<or> \<not> True"
        then show "lk (?es ! j) = cut_links (links lk t) p i ys j \<and> view (?es ! j) = view (table_recs t ! j) \<and>
           (j \<noteq> p \<and> j \<notin> set ys \<longrightarrow> ?es ! j = table_recs t ! j)"
          using pb Nil by (auto simp: cut_links_def links_def)
      qed (use Nil True in simp_all)
      ultimately show ?thesis by blast
    next
      case False
      let ?es = "(table_recs t)[p := pe, i := zero]"
      let ?t2 = "t\<lparr>table_recs := ?es, cur_expn_tbl_cnt := dec16 (cur_expn_tbl_cnt t)\<rparr>"
      have "ipa_table_delete_entry ?t1 ?it ?q = Some ?t2"
        using it len i(1) Nil False
        by (auto simp: ipa_table_delete_entry_def VALID_INDEX_def IPA_TABLE_INVALID_ENTRY_def GOTO_REC_def
            ipa_table_erase_entry_def set_rec_def post zero Let_def)
      moreover have "deleted h t ?t2 i"
      proof (rule cut_ok [OF ok b(1,3) p_def, where gone = False and es = ?es])
        show "?es ! i = zero" using len(1) by simp
        fix j assume j: "j \<noteq> i"
        show "lk (?es ! j) = cut_links (links lk t) p i ys j \<and> view (?es ! j) = view (table_recs t ! j) \<and>
           (j \<noteq> p \<and> j \<notin> set ys \<longrightarrow> ?es ! j = table_recs t ! j)"
          using j Nil pe len(2) by (cases "j = p") (auto simp: cut_links_def links_def)
      qed (use Nil False in simp_all)
      ultimately show ?thesis by blast
    qed
  qed
  then have "deletes h t ?it [d] i"
    unfolding deletes_def using cmd ht it(2) q d(3) by (simp add: Let_def) (simp add: post)
  then show ?thesis by blast
qed

text \<open>Any entry in use can be deleted; an entry that is not is refused.\<close>

lemma delete_entry:
  assumes "cfg t" "table_ok lk clean (\<lambda>e. h (view e)) t ch" "i < tot_tbl_ents t" "l_valid (links lk t i)"
  shows "\<exists>cmd. deletes h t (iterator_at (links lk t) i) cmd i"
proof -
  consider "i < table_entries t" "ch i = []" | "i < table_entries t" "ch i \<noteq> []" | "table_entries t \<le> i"
    by linarith
  then show ?thesis
    using delete_single_head delete_head_with_tail delete_chained assms by cases blast+
qed

end

end
