(* ===== verification/Ipa_Ipv6ct_Correct.thy ===== *)
theory Ipa_Ipv6ct_Correct
  imports Ipa_Ipv6ct Ipa_Table_Correct
begin

text \<open>
  The connection tracking table as an instance of \<open>chained_table\<close>, and what its entry points do: the
  table behaves as a map from entry indices to rules, whatever the outcomes of the system calls are.
\<close>

section \<open>The interpretation\<close>

definition ct_link :: "ipa_ipv6ct_hw_entry \<Rightarrow> link" where
  "ct_link e = \<lparr>l_valid = e_enable e, l_next = unat (e_next_index e), l_prev = unat (e_prev_index e),
                l_dead = (e_protocol e = IPA_IPV6CT_INVALID_PROTO_FIELD_CMP)\<rparr>"

definition ct_clean :: "ipa_ipv6ct_hw_entry \<Rightarrow> bool" where
  "ct_clean e \<longleftrightarrow> \<not> e_out_allowed e \<and> \<not> e_in_allowed e"

definition ct_view :: "ipa_ipv6ct_hw_entry \<Rightarrow> ipa_ipv6ct_rule" where
  "ct_view e =
     \<lparr>src_ipv6_lsb = e_src_ipv6_lsb e, src_ipv6_msb = e_src_ipv6_msb e,
      dest_ipv6_lsb = e_dest_ipv6_lsb e, dest_ipv6_msb = e_dest_ipv6_msb e,
      direction_settings = (if e_out_allowed e then 1 else 0) + (if e_in_allowed e then 2 else 0),
      ucp = e_ucp e, s_bit = e_s e, uc_activation_index = ucast (e_uc_activation_index e),
      src_port = e_src_port e, dest_port = e_dest_port e, protocol = e_protocol e\<rparr>"

text \<open>The table keeps 13 bits of the activation index.\<close>

definition ct_norm :: "ipa_ipv6ct_rule \<Rightarrow> ipa_ipv6ct_rule" where
  "ct_norm u = u\<lparr>uc_activation_index := ucast (ucast (uc_activation_index u) :: 13 word)\<rparr>"

definition ct_good :: "ipa_ipv6ct_rule \<Rightarrow> bool" where
  "ct_good u \<longleftrightarrow> direction_settings u \<le> IPA_IPV6CT_DIRECTION_ALLOW_ALL"

definition ct_admissible :: "ipa_ipv6ct_rule \<Rightarrow> bool" where
  "ct_admissible u \<longleftrightarrow> protocol u \<noteq> IPA_IPV6CT_INVALID_PROTO_FIELD_CMP"

fun ct_field :: "dma_help_type \<Rightarrow> nat" where
  "ct_field HELP_UPDATE_HEAD = IPA_IPV6CT_RULE_FLAG_FIELD_OFFSET"
| "ct_field HELP_UPDATE_ENTRY = IPA_IPV6CT_RULE_NEXT_FIELD_OFFSET"
| "ct_field HELP_DELETE_HEAD = IPA_IPV6CT_RULE_PROTO_FIELD_OFFSET"

lemmas ct_consts =
  IPA_IPV6CT_RULE_FLAG_FIELD_OFFSET_def IPA_IPV6CT_RULE_NEXT_FIELD_OFFSET_def
  IPA_IPV6CT_RULE_PROTO_FIELD_OFFSET_def IPA_IPV6CT_INVALID_PROTO_FIELD_VALUE_def
  IPA_IPV6CT_INVALID_PROTO_FIELD_CMP_def IPA_IPV6CT_DIRECTION_DENY_ALL_def
  IPA_IPV6CT_DIRECTION_ALLOW_OUT_def IPA_IPV6CT_DIRECTION_ALLOW_IN_def IPA_IPV6CT_DIRECTION_ALLOW_ALL_def

lemmas ct_callbacks =
  ct_entry_interface_def table_entry_is_valid_def table_entry_get_next_index_def
  table_entry_get_prev_index_def table_entry_set_prev_index_def table_entry_head_insert_def
  table_entry_copy_from_user_def table_entry_get_delete_head_dma_command_data_def

lemma ct_good_cases:
  "ct_good u \<longleftrightarrow> direction_settings u = 0 \<or> direction_settings u = 1 \<or> direction_settings u = 2 \<or> direction_settings u = 3"
  by (auto simp: ct_good_def ct_consts)

lemma unat_u16: "p < 2 ^ 16 \<Longrightarrow> unat (of_nat p :: u16) = p"
  by (simp only: unat_of_nat) simp

lemma ct_set_prev:
  "p < 2 ^ 16 \<Longrightarrow> ct_link (e\<lparr>e_prev_index := of_nat p\<rparr>) = (ct_link e)\<lparr>l_prev := p\<rparr>"
  "ct_view (e\<lparr>e_prev_index := x\<rparr>) = ct_view e"
  by (simp_all only: ct_link_def ct_view_def) (simp_all add: unat_u16)

lemma ct_store_next:
  "p < 2 ^ 16 \<Longrightarrow> ct_link (ct_store (ct_field HELP_UPDATE_ENTRY) p e) = (ct_link e)\<lparr>l_next := p\<rparr>"
  "ct_view (ct_store (ct_field HELP_UPDATE_ENTRY) p e) = ct_view e"
  by (simp_all add: ct_store_def ct_consts ct_link_def ct_view_def unat_u16 del: unat_of_nat)

lemma ct_insert_result:
  "snd (table_entry_head_insert e u) = (if ct_good u then Inr ct_enable_flags else Inl EINVAL)"
  by (simp add: table_entry_head_insert_def table_entry_copy_from_user_def ct_good_def ct_consts Let_def)

lemma ct_insert_link:
  "ct_link (fst (table_entry_head_insert e u))
   = (ct_link e)\<lparr>l_dead := (protocol u = IPA_IPV6CT_INVALID_PROTO_FIELD_CMP)\<rparr>"
  by (simp add: table_entry_head_insert_def table_entry_copy_from_user_def ct_link_def Let_def)

lemma ct_insert_clean:
  "\<not> ct_good u \<Longrightarrow> ct_clean (fst (table_entry_head_insert e u)) = ct_clean e"
  by (simp add: table_entry_head_insert_def table_entry_copy_from_user_def ct_clean_def ct_good_def ct_consts Let_def)

lemma ct_insert_view:
  assumes "ct_good u" "ct_clean e"
  shows "ct_view (fst (table_entry_head_insert e u)) = ct_norm u"
proof -
  have "direction_settings u = 0 \<or> direction_settings u = 1 \<or> direction_settings u = 2 \<or> direction_settings u = 3"
    using assms(1) ct_good_cases by blast
  then show ?thesis
    using assms(2)
    by (elim disjE) (simp_all add: table_entry_head_insert_def table_entry_copy_from_user_def ct_view_def
        ct_norm_def ct_clean_def ct_consts)
qed

interpretation ct: chained_table ct_entry_interface ct_zero_entry ct_entry_size ct_field ct_store
  IPA_IPV6CT_BASE_TBL IPA_IPV6CT_EXPN_TBL ct_link ct_clean ct_view ct_admissible ct_good ct_norm ct_enable_flags
proof unfold_locales
  show "p < 2 ^ 16 \<Longrightarrow> \<exists>e'. entry_set_prev_index ct_entry_interface e i p None te = (e', None) \<and>
      ct_link e' = (ct_link e)\<lparr>l_prev := p\<rparr> \<and> ct_view e' = ct_view e" for p e i te
    using ct_set_prev(1) [of p e] ct_set_prev(2) [of _ e] by (intro exI [of _ "e\<lparr>e_prev_index := of_nat p\<rparr>"]) (simp add: ct_callbacks)
  show "\<exists>e'. entry_head_insert ct_entry_interface e u = (e', Inr ct_enable_flags) \<and> ct_view e' = ct_norm u \<and>
      ct_link e' = \<lparr>l_valid = False, l_next = 0, l_prev = 0, l_dead = False\<rparr>"
    if "ct_admissible u" "ct_good u" "blank_link (ct_link e)" "ct_clean e" for u e
    using that ct_insert_result [of e u] ct_insert_link [of e u] ct_insert_view [of u e]
    by (intro exI [of _ "fst (table_entry_head_insert e u)"])
      (auto simp: ct_entry_interface_def prod_eq_iff blank_link_def ct_admissible_def)
  show "\<exists>e' err. entry_head_insert ct_entry_interface e u = (e', Inl err) \<and> blank_link (ct_link e') \<and> ct_clean e'"
    if "\<not> ct_good u" "blank_link (ct_link e)" "ct_clean e" for u e
    using that ct_insert_result [of e u] ct_insert_link [of e u] ct_insert_clean [of u e]
    by (intro exI [of _ "fst (table_entry_head_insert e u)"] exI [of _ EINVAL])
      (auto simp: ct_entry_interface_def prod_eq_iff blank_link_def)
  show "ct_field ht + 2 \<le> ct_entry_size" for ht by (cases ht) (simp_all add: ct_consts ct_entry_size_def)
  show "ct_link (ct_store (ct_field HELP_DELETE_HEAD)
          (entry_get_delete_head_dma_command_data ct_entry_interface a b) e) = (ct_link e)\<lparr>l_dead := True\<rparr>" for a b e
    by (simp add: ct_callbacks ct_store_def ct_consts ct_link_def)
next
  show "n < 2 ^ 16 \<Longrightarrow> ct_link (ct_store (ct_field HELP_UPDATE_ENTRY) n e) = (ct_link e)\<lparr>l_next := n\<rparr>" for n e
    by (rule ct_store_next)
  show "ct_view (ct_store (ct_field HELP_UPDATE_ENTRY) n e) = ct_view e" for n e
    by (rule ct_store_next)
qed (simp_all add: ct_callbacks ct_store_def ct_consts ct_link_def ct_view_def ct_enable_flags_def
      blank_link_def ct_clean_def ct_zero_entry_def ct_entry_size_def)

section \<open>The hash\<close>

definition ct_slot :: "nat \<Rightarrow> ipa_ipv6ct_rule \<Rightarrow> nat" where
  "ct_slot te r = unat (ipa_ipv6ct_hash r (of_nat te - 1))"

lemma ct_mask: "0 < te \<Longrightarrow> te < 2 ^ 16 \<Longrightarrow> unat (of_nat te - 1 :: u16) = te - 1"
proof -
  assume "0 < te" "te < 2 ^ 16"
  then have "(of_nat te - 1 :: u16) = of_nat (te - 1)" by (simp add: of_nat_diff)
  then show ?thesis using unat_u16 [of "te - 1"] \<open>te < 2 ^ 16\<close> by simp
qed

lemma ct_slot_range:
  assumes "1 < te" "te < 2 ^ 16"
  shows "0 < ct_slot te r \<and> ct_slot te r < te"
proof -
  let ?sz = "of_nat te - 1 :: u16"
  have sz: "unat ?sz = te - 1" using ct_mask assms by simp
  have le: "unat (x AND ?sz) \<le> te - 1" for x :: u16
    using word_and_le1 [of x ?sz] sz by (simp add: word_le_nat_alt)
  have "ipa_ipv6ct_hash r ?sz \<noteq> 0 \<and> unat (ipa_ipv6ct_hash r ?sz) \<le> te - 1"
    using le sz assms by (auto simp: ipa_ipv6ct_hash_def Let_def)
  then show ?thesis using assms by (auto simp: ct_slot_def unat_gt_0)
qed

lemma ct_slot_norm [simp]: "ct_slot te (ct_norm u) = ct_slot te u"
  by (simp add: ct_slot_def ipa_ipv6ct_hash_def ct_norm_def)

section \<open>Tables in order\<close>

definition ct_cfg :: "ct_table \<Rightarrow> bool" where
  "ct_cfg t \<longleftrightarrow> entry_interface t = ct_entry_interface \<and> entry_zero t = ct_zero_entry \<and> entry_size t = ct_entry_size \<and>
     (\<forall>ht. dma_help t ht = Some \<lparr>help_offset = ct_field ht, table_type = IPA_IPV6CT_BASE_TBL,
        expn_table_type = IPA_IPV6CT_EXPN_TBL, table_indx = 0\<rparr>)"

definition ct_rules :: "ct_table \<Rightarrow> nat \<rightharpoonup> ipa_ipv6ct_rule" where
  "ct_rules t = table_rules ct_link ct_view t"

definition ct_used :: "ct_table \<Rightarrow> nat \<Rightarrow> bool" where
  "ct_used t i \<longleftrightarrow> i < tot_tbl_ents t \<and> e_enable (table_recs t ! i)"

definition ct_table_ok :: "ct_table \<Rightarrow> (nat \<Rightarrow> nat list) \<Rightarrow> bool" where
  "ct_table_ok t ch \<longleftrightarrow>
     ct_cfg t \<and> nmi t = IPA_NAT_MEM_IN_DDR \<and> table_entries t \<le> 2 ^ 12 \<and> expn_table_entries t \<le> 2 ^ 12 \<and>
     table_ok ct_link ct_clean (\<lambda>e. ct_slot (table_entries t) (ct_view e)) t ch"

definition ct_ok :: "ct_table \<Rightarrow> bool" where
  "ct_ok t \<longleftrightarrow> (\<exists>ch. ct_table_ok t ch)"

text \<open>There is room for a rule: its slot is free or an expansion entry is.\<close>

definition ct_room :: "ct_table \<Rightarrow> ipa_ipv6ct_rule \<Rightarrow> bool" where
  "ct_room t u \<longleftrightarrow>
     \<not> ct_used t (ct_slot (table_entries t) u) \<or>
     (\<exists>i. table_entries t \<le> i \<and> i < tot_tbl_ents t \<and> \<not> ct_used t i)"

text \<open>
  What is relied on of the driver and the processor: a block of DMA commands is carried out as a whole,
  in order, or not at all. \<open>te\<close> is the size of the base table that the processor was told.
\<close>

definition ct_dma_law :: "ipa_env \<Rightarrow> nat \<Rightarrow> bool" where
  "ct_dma_law env te \<longleftrightarrow>
     (\<forall>cmd mem. ioctl_dma env IPA_NAT_MEM_IN_DDR cmd mem
          = (True, fold (dma_store IPA_IPV6CT_EXPN_TBL te ct_entry_size ct_store) cmd mem)
        \<or> ioctl_dma env IPA_NAT_MEM_IN_DDR cmd mem = (False, mem))"

text \<open>
  The blocks that the library makes for a table: one or two commands, each for two bytes inside the base or
  the expansion table.
\<close>

definition ct_block_ok :: "ct_table \<Rightarrow> ipa_ioc_nat_dma_cmd \<Rightarrow> bool" where
  "ct_block_ok t cmd \<longleftrightarrow>
     cmd \<noteq> [] \<and> length cmd \<le> 2 \<and>
     list_all (\<lambda>d. table_index d = 0 \<and>
       (base_addr d = dma_type_val IPA_IPV6CT_BASE_TBL \<and> dma_offset d + 2 \<le> ct_entry_size * table_entries t \<or>
        base_addr d = dma_type_val IPA_IPV6CT_EXPN_TBL \<and> dma_offset d + 2 \<le> ct_entry_size * expn_table_entries t)) cmd"

definition ct_dma_accepts :: "ipa_env \<Rightarrow> ct_table \<Rightarrow> bool" where
  "ct_dma_accepts env t \<longleftrightarrow>
     (\<forall>cmd mem. ct_block_ok t cmd \<longrightarrow> fst (ioctl_dma env IPA_NAT_MEM_IN_DDR cmd mem))"

lemma ct_block_fits: "cmd \<noteq> [] \<Longrightarrow> length cmd \<le> 2 \<Longrightarrow> list_all (ct.fits t) cmd \<Longrightarrow> ct_block_ok t cmd"
  by (simp add: ct_block_ok_def ct.fits_def [abs_def])

lemma ct_cfg_iff: "ct_cfg t = ct.cfg t"
  by (simp add: ct_cfg_def ct.cfg_def)

lemma ct_table_okD:
  assumes "ct_table_ok t ch"
  shows "ct.cfg t" "table_ok ct_link ct_clean (\<lambda>e. ct_slot (table_entries t) (ct_view e)) t ch" "table_shape t"
    "nmi t = IPA_NAT_MEM_IN_DDR" "table_entries t \<le> 2 ^ 12" "expn_table_entries t \<le> 2 ^ 12"
  using assms table_okD(1) unfolding ct_table_ok_def ct_cfg_iff by blast+

lemma ct_ok_same:
  assumes "ct_table_ok t ch" "same_table t t'"
    "table_ok ct_link ct_clean (\<lambda>e. ct_slot (table_entries t) (ct_view e)) t' ch'"
  shows "ct_ok t'"
  using assms same_table_eqs [OF assms(2)] ct.cfg_same [OF assms(2)]
  unfolding ct_ok_def ct_table_ok_def ct_cfg_iff by auto

lemma ct_used_link: "i < tot_tbl_ents t \<Longrightarrow> ct_used t i = l_valid (links ct_link t i)"
  by (simp add: ct_used_def links_def ct_link_def)

lemma ct_room_iff:
  "ct_slot (table_entries t) u < tot_tbl_ents t \<Longrightarrow>
   ct_room t u = room_for ct_link t (ct_slot (table_entries t) u)"
  by (auto simp: ct_room_def room_for_def ct_used_link)

section \<open>Adding and deleting rules\<close>

lemma post_cases:
  assumes "ct_dma_law env (table_entries t)" "ct_block_ok t cmd"
  shows "ipa_ipv6ct_post_dma_cmd env t cmd = (t\<lparr>table_recs := ct.posted t cmd\<rparr>, Inr ())
       \<or> ipa_ipv6ct_post_dma_cmd env t cmd = (t, Inl EIO) \<and> \<not> ct_dma_accepts env t"
proof -
  consider "ioctl_dma env IPA_NAT_MEM_IN_DDR cmd (table_recs t) = (True, ct.posted t cmd)"
    | "ioctl_dma env IPA_NAT_MEM_IN_DDR cmd (table_recs t) = (False, table_recs t)"
    using assms(1) unfolding ct_dma_law_def ct.posted_def by blast
  then show ?thesis
  proof cases
    case 2
    then have "\<not> fst (ioctl_dma env IPA_NAT_MEM_IN_DDR cmd (table_recs t))" by simp
    then have "\<not> ct_dma_accepts env t" using assms(2) unfolding ct_dma_accepts_def by blast
    then show ?thesis using 2 by (simp add: ipa_ipv6ct_post_dma_cmd_def)
  qed (simp add: ipa_ipv6ct_post_dma_cmd_def)
qed

lemma accepts_same: "same_table t t' \<Longrightarrow> ct_dma_accepts env t' = ct_dma_accepts env t"
  by (simp add: ct_dma_accepts_def ct_block_ok_def same_table_eqs)

lemma ct_add_rule_ok:
  assumes ok: "ct_table_ok t ch" and law: "ct_dma_law env (table_entries t)" and u: "ct_admissible u"
  shows "\<exists>t' r. ct_add_rule env t u = Some (t', r) \<and> same_table t t' \<and> ct_ok t' \<and>
    (case r of
       Inl err \<Rightarrow> ct_rules t' = ct_rules t
     | Inr hdl \<Rightarrow> \<exists>i. 0 < i \<and> i < tot_tbl_ents t \<and> \<not> ct_used t i \<and> hdl = MakeEntryHdl t i \<and>
         ct_rules t' = (ct_rules t)(i \<mapsto> ct_norm u)) \<and>
    ((\<exists>hdl. r = Inr hdl) \<longrightarrow> ct_good u \<and> ct_room t u) \<and>
    (ct_dma_accepts env t \<longrightarrow> (\<exists>hdl. r = Inr hdl) \<longleftrightarrow> ct_good u \<and> ct_room t u)"
proof -
  note okD = ct_table_okD [OF ok]
  let ?b = "ct_slot (table_entries t) u" and ?h = "ct_slot (table_entries t)"
  have te: "1 < table_entries t" "table_entries t < 2 ^ 16" "tot_tbl_ents t = table_entries t + expn_table_entries t"
    using okD(3) by (auto simp: table_shape_def)
  have b: "0 < ?b" "?b < table_entries t" "?b < tot_tbl_ents t" using ct_slot_range [OF te(1,2), of u] te(3) by auto
  note idx = ct_slot_def [of "table_entries t" u, symmetric]
  show ?thesis
  proof (cases "ct_good u")
    case False
    obtain t1 err where a: "ipa_table_add_entry t u ?b [] = Some (t1, [], Inl err)"
      and r: "ct.refused (\<lambda>e. ?h (ct_view e)) t ch t1"
      using ct.add_entry_bad [OF okD(1,2) b(2) False] by blast
    have "ct_add_rule env t u = Some (t1, Inl err)" by (simp add: ct_add_rule_def idx a)
    moreover have "same_table t t1" "ct_ok t1" "ct_rules t1 = ct_rules t"
      using r ct_ok_same [OF ok] by (auto simp: ct.refused_def ct_rules_def)
    ultimately show ?thesis using False by simp
  next
    case good: True
    note add = ct.add_entry_good [OF okD(1,2) b(1,2) u good, unfolded ct_slot_norm, OF refl]
    show ?thesis
    proof (cases "room_for ct_link t ?b")
      case False
      then have "ct_add_rule env t u = Some (t, Inl EPERM)" using add by (simp add: ct_add_rule_def idx)
      moreover have "ct_ok t" using ok by (auto simp: ct_ok_def)
      ultimately show ?thesis using False ct_room_iff [OF b(3)] same_table_refl [of t] by simp
    next
      case True
      then obtain t1 cmd i where a: "ipa_table_add_entry t u ?b [] = Some (t1, cmd, Inr (i, MakeEntryHdl t i))"
        and e: "ct.entered ?h t ch t1 cmd i u" using add by auto
      have st: "same_table t t1" and i: "0 < i" "i < tot_tbl_ents t" "\<not> ct_used t i"
        using e ct_used_link by (auto simp: ct.entered_def)
      have law1: "ct_dma_law env (table_entries t1)" using law st by (simp add: same_table_eqs)
      have blk: "ct_block_ok t1 cmd"
        using e ct.fits_same [OF st] by (intro ct_block_fits) (simp_all add: ct.entered_def)
      from post_cases [OF law1 blk] show ?thesis
      proof (elim disjE conjE)
        assume p: "ipa_ipv6ct_post_dma_cmd env t1 cmd = (t1\<lparr>table_recs := ct.posted t1 cmd\<rparr>, Inr ())"
        let ?t2 = "t1\<lparr>table_recs := ct.posted t1 cmd\<rparr>"
        have "ct_add_rule env t u = Some (?t2, Inr (MakeEntryHdl t i))"
          by (simp add: ct_add_rule_def idx a p)
        moreover have "same_table t1 ?t2"
          by (rule same_tableI [where es = "ct.posted t1 cmd" and c = "cur_tbl_cnt t1" and x = "cur_expn_tbl_cnt t1"])
            (use e in \<open>simp_all add: ct.entered_def\<close>)
        then have "same_table t ?t2" using st same_table_trans by blast
        moreover have "ct_ok ?t2" using e ct_ok_same [OF ok \<open>same_table t ?t2\<close>] by (auto simp: ct.entered_def)
        moreover have "ct_rules ?t2 = (ct_rules t)(i \<mapsto> ct_norm u)"
          using e by (simp add: ct.entered_def ct_rules_def)
        ultimately show ?thesis using i good True ct_room_iff [OF b(3)] by auto
      next
        assume p: "ipa_ipv6ct_post_dma_cmd env t1 cmd = (t1, Inl EIO)" and "\<not> ct_dma_accepts env t1"
        then have na: "\<not> ct_dma_accepts env t" using accepts_same [OF st] by simp
        obtain t3 where t3: "ipa_table_erase_entry t1 i = Some t3" "same_table t t3"
          "table_ok ct_link ct_clean (\<lambda>e. ?h (ct_view e)) t3 ch" "table_rules ct_link ct_view t3 = table_rules ct_link ct_view t"
          using e by (auto simp: ct.entered_def)
        have "ct_add_rule env t u = Some (t3, Inl EIO)" by (simp add: ct_add_rule_def idx a p t3(1))
        then show ?thesis using t3 na ct_ok_same [OF ok] by (auto simp: ct_rules_def)
      qed
    qed
  qed
qed

lemma get_entry_bound:
  "ipa_table_get_entry t hdl = Inr i \<Longrightarrow> i < tot_tbl_ents t"
  by (auto simp: ipa_table_get_entry_def split: prod.splits if_splits)

lemma get_entry_of_handle:
  assumes "table_shape t" "table_entries t \<le> 2 ^ 12" "expn_table_entries t \<le> 2 ^ 12" "i < tot_tbl_ents t"
  shows "ipa_table_get_entry t (MakeEntryHdl t i) = Inr i"
proof -
  have "i < table_entries t + expn_table_entries t" using assms by (simp add: table_shape_def)
  from break_make_hdl [OF this assms(2,3)] show ?thesis using assms(4) by (simp add: ipa_table_get_entry_def)
qed

lemma ct_dead_is_marked:
  assumes "prev_entry it = Some p" "p < length es"
  shows "(case prev_entry it of
            None \<Rightarrow> Some False
          | Some p \<Rightarrow> do { e \<leftarrow> GOTO_REC (t\<lparr>table_recs := es\<rparr>) p;
                        Some (e_protocol e = IPA_IPV6CT_INVALID_PROTO_FIELD_CMP) })
       = Some (l_dead (ct_link (es ! p)))"
  using assms by (simp add: GOTO_REC_def ct_link_def)

lemma ct_del_rule_ok:
  assumes ok: "ct_table_ok t ch" and law: "ct_dma_law env (table_entries t)"
  shows "\<exists>t' r. ct_del_rule env t hdl = Some (t', r) \<and> same_table t t' \<and> ct_ok t' \<and>
    (case r of
       Inl err \<Rightarrow> t' = t
     | Inr _ \<Rightarrow> \<exists>i. ipa_table_get_entry t hdl = Inr i \<and> ct_used t i \<and> ct_rules t' = (ct_rules t)(i := None)) \<and>
    (ct_dma_accepts env t \<longrightarrow> r = Inr () \<longleftrightarrow> (\<exists>i. ipa_table_get_entry t hdl = Inr i \<and> ct_used t i))"
proof (cases "ipa_table_get_entry t hdl")
  case (Inl err)
  have "ct_ok t" using ok by (auto simp: ct_ok_def)
  then show ?thesis using Inl same_table_refl [of t] by (simp add: ct_del_rule_def)
next
  case (Inr i)
  note okD = ct_table_okD [OF ok]
  have i: "i < tot_tbl_ents t" using get_entry_bound [OF Inr] .
  have ok': "ct_ok t" using ok by (auto simp: ct_ok_def)
  note it = ct.iterator_of [OF okD(1,2) i]
  show ?thesis
  proof (cases "ct_used t i")
    case False
    then have "ct_del_rule env t hdl = Some (t, Inl EINVAL)"
      using it ct_used_link [OF i] Inr by (simp add: ct_del_rule_def)
    then show ?thesis using False Inr ok' same_table_refl [of t] by simp
  next
    case True
    let ?it = "iterator_at (links ct_link t) i" and ?h = "ct_slot (table_entries t)"
    have v: "l_valid (links ct_link t i)" using True ct_used_link [OF i] by simp
    obtain cmd where d: "ct.deletes ?h t ?it cmd i" using ct.delete_entry [OF okD(1,2) i v] by blast
    have cmd: "ipa_table_create_delete_command t [] ?it = Some cmd"
      "length (ct.posted t cmd) = length (table_recs t)"
      using d by (auto simp: ct.deletes_def)
    have run: "ct_del_rule env t hdl =
        (case ipa_ipv6ct_post_dma_cmd env t cmd of
           (t1, Inl err) \<Rightarrow> Some (t1, Inl err)
         | (t1, Inr _) \<Rightarrow>
             if ipa_table_iterator_is_head_with_tail ?it then Some (t1, Inr ())
             else
               do { is_prev_empty \<leftarrow>
                      (case prev_entry ?it of
                         None \<Rightarrow> Some False
                       | Some p \<Rightarrow>
                           do { e \<leftarrow> GOTO_REC t1 p;
                                Some (e_protocol e = IPA_IPV6CT_INVALID_PROTO_FIELD_CMP) });
                    t2 \<leftarrow> ipa_table_delete_entry t1 ?it is_prev_empty;
                    Some (t2, Inr ()) })"
      using it v Inr cmd(1) by (simp add: ct_del_rule_def)
    have "ct_block_ok t cmd" using d by (intro ct_block_fits) (auto simp: ct.deletes_def)
    from post_cases [OF law this] show ?thesis
    proof (elim disjE conjE)
      assume p: "ipa_ipv6ct_post_dma_cmd env t cmd = (t, Inl EIO)" and na: "\<not> ct_dma_accepts env t"
      have "ct_del_rule env t hdl = Some (t, Inl EIO)" by (simp add: run p)
      then show ?thesis using ok' na same_table_refl [of t] by simp
    next
      let ?t1 = "t\<lparr>table_recs := ct.posted t cmd\<rparr>"
      assume p: "ipa_ipv6ct_post_dma_cmd env t cmd = (?t1, Inr ())"
      have "\<exists>t2. ct_del_rule env t hdl = Some (t2, Inr ()) \<and> ct.deleted ?h t t2 i"
      proof (cases "ipa_table_iterator_is_head_with_tail ?it")
        case True
        then show ?thesis using d run p by (auto simp: ct.deletes_def Let_def)
      next
        case False
        let ?q = "case prev_entry ?it of None \<Rightarrow> False | Some p \<Rightarrow> l_dead (ct_link (ct.posted t cmd ! p))"
        obtain t2 where t2: "ipa_table_delete_entry ?t1 ?it ?q = Some t2" "ct.deleted ?h t t2 i"
          using d False by (auto simp: ct.deletes_def Let_def)
        have pr: "p < length (ct.posted t cmd)" if "prev_entry ?it = Some p" for p
          using that ct.neighbours_in [OF okD(2) i v] okD(3) cmd(2)
          by (auto simp: iterator_at_def table_shape_def split: if_splits)
        have "(case prev_entry ?it of
                 None \<Rightarrow> Some False
               | Some p \<Rightarrow> do { e \<leftarrow> GOTO_REC ?t1 p; Some (e_protocol e = IPA_IPV6CT_INVALID_PROTO_FIELD_CMP) })
             = Some ?q"
        proof (cases "prev_entry ?it")
          case (Some p)
          then show ?thesis using ct_dead_is_marked [OF Some pr [OF Some], of t] by simp
        qed simp
        then have "ct_del_rule env t hdl = Some (t2, Inr ())" using run p False t2(1) by simp
        then show ?thesis using t2(2) by blast
      qed
      then obtain t2 where t2: "ct_del_rule env t hdl = Some (t2, Inr ())" "ct.deleted ?h t t2 i" by blast
      then have "same_table t t2" "ct_ok t2" "ct_rules t2 = (ct_rules t)(i := None)"
        using ct_ok_same [OF ok] by (auto simp: ct.deleted_def ct_rules_def)
      then show ?thesis using t2(1) Inr True by simp
    qed
  qed
qed

section \<open>New tables\<close>

lemma ct_empty_ok:
  assumes t: "ct_cfg t" "nmi t = IPA_NAT_MEM_IN_DDR" "table_shape t" "table_entries t \<le> 2 ^ 12" "expn_table_entries t \<le> 2 ^ 12"
    and e: "\<And>i. i < tot_tbl_ents t \<Longrightarrow> table_recs t ! i = ct_zero_entry" "cur_tbl_cnt t = 0" "cur_expn_tbl_cnt t = 0"
  shows "ct_ok t \<and> ct_rules t = Map.empty"
proof -
  have te: "0 < table_entries t" "table_entries t < tot_tbl_ents t" using t(3) by (auto simp: table_shape_def)
  have l: "links ct_link t i = \<lparr>l_valid = False, l_next = 0, l_prev = 0, l_dead = False\<rparr>" if "i < tot_tbl_ents t" for i
    using e(1) [OF that] by (simp add: links_def ct_link_def ct_zero_entry_def ct_consts)
  have "linked (table_entries t) (tot_tbl_ents t) (links ct_link t) (\<lambda>_. [])"
    using l te by (auto simp: linked_def head_ok_def)
  moreover have "base_used ct_link t = {}" "expn_used ct_link t = {}"
    using l te by (auto simp: base_used_def expn_used_def)
  moreover have "ct_clean ct_zero_entry" by (simp add: ct_clean_def ct_zero_entry_def)
  ultimately have "ct_table_ok t (\<lambda>_. [])"
    using t e l te by (auto simp: ct_table_ok_def table_ok_def live_def)
  moreover have "ct_rules t = Map.empty" using l by (auto simp: ct_rules_def table_rules_def live_def fun_eq_iff)
  ultimately show ?thesis by (auto simp: ct_ok_def)
qed

text \<open>The memory: it starts at offset 0 of the device and is as large as was asked for.\<close>

definition ct_mem_law :: "ipa_env \<Rightarrow> bool" where
  "ct_mem_law env \<longleftrightarrow>
     (\<forall>sz ofs. ioctl_alloc env sz = Inr ofs \<longrightarrow> ofs = 0) \<and>
     (\<forall>sz mem. mmap_mem env sz = Some mem \<longrightarrow> sz \<le> length mem * ct_entry_size)"

lemma ct_allocate:
  assumes "ct_mem_law env" "\<not> consider_using_sram md"
    "ipa_mem_descriptor_allocate_memory env md = (md', Inr mem)"
  shows "addr_offset md' = 0 \<and> md_valid md' \<and> orig_rqst_size md \<le> length mem * ct_entry_size"
proof -
  obtain md1 where a: "AllocateMemory env md = (md1, Inr ())"
    and m: "case MapMemory env md1 of (md2, Inl err) \<Rightarrow> False | (md2, Inr mm) \<Rightarrow> md' = md2\<lparr>md_valid := True\<rparr> \<and> mem = mm"
    using assms(3) by (auto simp: ipa_mem_descriptor_allocate_memory_def split: prod.splits sum.splits)
  have md1: "\<not> sram_to_be_used md1" "orig_rqst_size md1 = orig_rqst_size md" "addr_offset md1 = 0"
    using a assms(1,2) by (auto simp: AllocateMemory_def ct_mem_law_def Let_def split: option.splits sum.splits)
  then have "mmap_mem env (orig_rqst_size md) = Some mem" "addr_offset md' = 0" "md_valid md'"
    using m by (auto simp: MapMemory_def Let_def split: if_splits option.splits)
  then show ?thesis using assms(1) by (auto simp: ct_mem_law_def)
qed

lemma ct_create_table_ok:
  assumes law: "ct_mem_law env" and indx: "indx = 0"
  shows "\<exists>ct' r. ipa_ipv6ct_create_table env ct n indx = Some (ct', r) \<and>
    (case r of
       Inl _ \<Rightarrow> md_valid (mem_desc ct') \<longrightarrow> md_valid (mem_desc ct)
     | Inr _ \<Rightarrow> n \<le> IPA_TABLE_MAX_ENTRIES \<and> ct_ok (table ct') \<and> ct_rules (table ct') = Map.empty \<and>
         md_valid (mem_desc ct') \<and> addr_offset (mem_desc ct') = 0)"
proof (cases "n \<le> IPA_TABLE_MAX_ENTRIES")
  case False
  then show ?thesis by (simp add: ipa_ipv6ct_create_table_def ipa_table_calculate_entries_num_def Let_def)
next
  case True
  let ?t0 = "ipa_table_init IPA_NAT_MEM_IN_DDR ct_entry_size ct_zero_entry None ct_entry_interface :: ct_table"
  obtain te xe k where c: "ipa_table_calculate_entries_num ?t0 n IPA_NAT_MEM_IN_DDR
      = (?t0\<lparr>tot_tbl_ents := te + xe, table_entries := te, expn_table_entries := xe\<rparr>, Inr ())"
    and s: "te = 2 ^ k" "0 < k" "k \<le> 12" "2 \<le> xe" "xe \<le> 1024"
    using ddr_entries [OF True, of ?t0] by auto
  let ?t1 = "?t0\<lparr>tot_tbl_ents := te + xe, table_entries := te, expn_table_entries := xe\<rparr>"
  have te: "1 < te" "te \<le> 2 ^ 12"
    using s(1-3) one_less_power [of "2::nat" k] power_increasing [of k 12 "2::nat"] by auto
  let ?md = "ipa_mem_descriptor_init (ipa_table_calculate_size ?t1) indx False (mem_desc ct)"
  have md: "\<not> consider_using_sram ?md" "orig_rqst_size ?md = (te + xe) * ct_entry_size"
    by (simp_all add: ipa_mem_descriptor_init_def ipa_table_calculate_size_def ipa_table_init_def)
  show ?thesis
  proof (cases "ipa_mem_descriptor_allocate_memory env ?md")
    case (Pair md' r)
    show ?thesis
    proof (cases r)
      case (Inl err)
      then show ?thesis using c Pair
        by (simp add: ipa_ipv6ct_create_table_def Let_def ct_zero_table_def md_zero_def)
    next
      case (Inr mem)
      have a: "addr_offset md' = 0" "md_valid md'" "te + xe \<le> length mem"
        using ct_allocate [OF law md(1)] Pair Inr md(2) by (auto simp: ct_entry_size_def)
      let ?t2 = "?t1\<lparr>table_recs := replicate (te + xe) ct_zero_entry @ drop (te + xe) mem\<rparr>"
      let ?ct = "ipa_ipv6ct_create_table_dma_cmd_helpers (ct\<lparr>mem_desc := md', table := ?t2\<rparr>) indx"
      have "ipa_table_reset (ipa_table_calculate_addresses ?t1 mem) = Some ?t2"
        using a(3) by (simp add: ipa_table_reset_def ipa_table_calculate_addresses_def ipa_table_init_def Let_def)
      then have run: "ipa_ipv6ct_create_table env ct n indx = Some (?ct, Inr ())"
        using c Pair Inr by (simp add: ipa_ipv6ct_create_table_def Let_def)
      have cfg: "ct_cfg (table ?ct)"
        using a(1) by (auto simp: indx ipa_ipv6ct_create_table_dma_cmd_helpers_def Let_def ct_cfg_def ipa_table_init_def
            ipa_table_dma_cmd_helper_init_def split: dma_help_type.splits)
      have "ct_ok (table ?ct) \<and> ct_rules (table ?ct) = Map.empty"
      proof (rule ct_empty_ok [OF cfg])
        show "table_shape (table ?ct)" using te s(4,5) a(3)
          by (simp add: ipa_ipv6ct_create_table_dma_cmd_helpers_def Let_def table_shape_def ipa_table_init_def)
        show "table_recs (table ?ct) ! i = ct_zero_entry" if "i < tot_tbl_ents (table ?ct)" for i
          using that by (simp add: ipa_ipv6ct_create_table_dma_cmd_helpers_def Let_def ipa_table_init_def nth_append)
      qed (use te s(5) in \<open>simp_all add: ipa_ipv6ct_create_table_dma_cmd_helpers_def Let_def ipa_table_init_def\<close>)
      moreover have "mem_desc ?ct = md'" by (simp add: ipa_ipv6ct_create_table_dma_cmd_helpers_def Let_def)
      ultimately show ?thesis using run a(1,2) True by simp
    qed
  qed
qed

end
