(* ===== verification/Ipa_Ipv6ct_Props.thy ===== *)
theory Ipa_Ipv6ct_Props
  imports Ipa_Ipv6ct_Correct
begin

text \<open>
  The properties of the connection tracking table over all states that calls of the library lead to,
  \<open>ct_reach\<close>, for every outcome of the system calls that their documentation allows.
\<close>

section \<open>Reachable states\<close>

definition ct_tbl :: "ipa_ipv6ct \<Rightarrow> ct_table" where
  "ct_tbl s = table (tables s 0)"

definition ct_valid :: "ipa_ipv6ct \<Rightarrow> bool" where
  "ct_valid s \<longleftrightarrow> md_valid (mem_desc (tables s 0))"

text \<open>The driver is open and the hardware has the table.\<close>

definition ct_open :: "nat option \<Rightarrow> bool" where
  "ct_open d \<longleftrightarrow> (\<exists>ver. d = Some ver \<and> IPA_HW_v4_0 \<le> ver)"

inductive ct_reach :: "ipa_ipv6ct \<Rightarrow> bool" where
  reach_start: "ct_reach ct_initial"
| reach_add_tbl: "ct_reach s \<Longrightarrow> ct_mem_law env \<Longrightarrow> ipa_ipv6ct_add_tbl env n s = Some (s', r) \<Longrightarrow> ct_reach s'"
| reach_del_tbl: "ct_reach s \<Longrightarrow> ipa_ipv6ct_del_tbl env th s = Some (s', r') \<Longrightarrow> ct_reach s'"
| reach_add_rule: "ct_reach s \<Longrightarrow> ct_dma_law env (table_entries (ct_tbl s)) \<Longrightarrow>
    ipa_ipv6ct_add_rule env th u s = Some (s', r) \<Longrightarrow> ct_reach s'"
| reach_del_rule: "ct_reach s \<Longrightarrow> ct_dma_law env (table_entries (ct_tbl s)) \<Longrightarrow>
    ipa_ipv6ct_del_rule env th hdl s = Some (s', r') \<Longrightarrow> ct_reach s'"

definition ct_state_ok :: "ipa_ipv6ct \<Rightarrow> bool" where
  "ct_state_ok s \<longleftrightarrow>
     (\<forall>i. md_valid (mem_desc (tables s i)) \<longrightarrow> i = 0 \<and> table_cnt s = 1 \<and> ct_ok (table (tables s i))) \<and>
     table_cnt s \<le> 1 \<and> (table_cnt s = 1 \<longrightarrow> ct_open (ipa_desc s))"

lemma ct_state_okD:
  assumes "ct_state_ok s"
  shows "\<And>i. md_valid (mem_desc (tables s i)) \<Longrightarrow> i = 0 \<and> table_cnt s = 1 \<and> ct_ok (table (tables s i))"
    "table_cnt s \<le> 1" "table_cnt s = 1 \<Longrightarrow> ct_open (ipa_desc s)" "table_cnt s = 0 \<Longrightarrow> \<not> md_valid (mem_desc (tables s i))"
  using assms unfolding ct_state_ok_def by auto

text \<open>How an entry point can end: refused, or with what its body does to the one table.\<close>

lemma with_ct_table_cases:
  assumes "with_ct_table env th x s body = Some (s', r)"
  shows "(s' = s \<and> (\<exists>err. r = Inl err)) \<or>
    (th = 1 \<and> ct_valid s \<and> \<not> x \<and> (\<exists>r0. body (tables s 0) = Some (s', r0) \<and> (unlock_ok env \<longrightarrow> r = r0)))"
proof -
  obtain ver where v: "ipa_desc s = Some ver" using assms by (cases "ipa_desc s") (auto simp: with_ct_table_def)
  consider "ver < IPA_HW_v4_0 \<or> th = 0 \<or> th > 1 \<or> x \<or> \<not> lock_ok env" | "\<not> ver < IPA_HW_v4_0" "th = 1" "\<not> x" "lock_ok env"
    by linarith
  then show ?thesis
  proof cases
    case 1
    then show ?thesis using assms v
      by (auto simp: with_ct_table_def IPA_TABLE_INVALID_ENTRY_def IPA_IPV6CT_MAX_TBLS_def split: if_splits)
  next
    case 2
    then show ?thesis using assms v
      by (cases "md_valid (mem_desc (tables s 0))")
        (auto simp: with_ct_table_def IPA_TABLE_INVALID_ENTRY_def IPA_IPV6CT_MAX_TBLS_def ct_valid_def Let_def
          Option.bind_eq_Some_conv split: if_splits sum.splits)
  qed
qed

lemma ct_state_put:
  assumes "ct_state_ok s" "ct_valid s" "ct_ok t"
  shows "ct_state_ok (set_ct_table 0 ((tables s 0)\<lparr>table := t\<rparr>) s)"
  using assms by (auto simp: ct_state_ok_def ct_valid_def set_ct_table_def)

lemma ct_zero_invalid [simp]: "\<not> md_valid (mem_desc ct_zero_table)"
  by (simp add: ct_zero_table_def md_zero_def)

lemma ct_state_zero:
  assumes "ct_state_ok s" "c \<le> 1" "c = 1 \<longrightarrow> ct_open d"
  shows "ct_state_ok ((set_ct_table 0 ct_zero_table s)\<lparr>table_cnt := c, ipa_desc := d\<rparr>)"
  using assms by (auto simp: ct_state_ok_def set_ct_table_def)

lemma ct_state_no_tables:
  "ct_state_ok s \<Longrightarrow> table_cnt s = 0 \<Longrightarrow> \<not> md_valid (mem_desc ct) \<Longrightarrow>
   ct_state_ok ((set_ct_table 0 ct s)\<lparr>ipa_desc := d\<rparr>)"
  by (auto simp: ct_state_ok_def set_ct_table_def)

lemma add_tbl_ok:
  assumes ok: "ct_state_ok s" and law: "ct_mem_law env"
  shows "\<exists>s' r. ipa_ipv6ct_add_tbl env n s = Some (s', r) \<and> ct_state_ok s' \<and>
    (case r of
       Inl _ \<Rightarrow> table_cnt s' = table_cnt s \<and> ct_valid s' = ct_valid s \<and> (ct_valid s \<longrightarrow> s' = s)
     | Inr hdl \<Rightarrow> hdl = 1 \<and> ct_valid s' \<and> ct_rules (ct_tbl s') = Map.empty)"
proof (cases "n = 0 \<or> table_cnt s \<ge> IPA_IPV6CT_MAX_TBLS")
  case True
  then have "ipa_ipv6ct_add_tbl env n s = Some (s, Inl EINVAL)"
    unfolding ipa_ipv6ct_add_tbl_def by (cases "n = 0") simp_all
  then show ?thesis using ok by simp
next
  case False
  then have n: "n \<noteq> 0" and c: "table_cnt s = 0" by (simp_all add: IPA_IPV6CT_MAX_TBLS_def)
  note nv = ct_state_okD(4) [OF ok c]
  define s1 where "s1 = (if ipa_desc s = None then s\<lparr>ipa_desc := open_desc env\<rparr> else s)"
  have s1: "ct_state_ok s1" "table_cnt s1 = 0" "tables s1 = tables s"
    using ok c by (auto simp: s1_def ct_state_ok_def)
  have inv: "\<not> ct_valid s" using nv by (simp add: ct_valid_def)
  have start: "ipa_ipv6ct_add_tbl env n s = (case ipa_desc s1 of
      None \<Rightarrow> Some (s1, Inl EIO)
    | Some ver \<Rightarrow>
        if ver < IPA_HW_v4_0 then Some (bail_ipa_desc s1, Inl EPERM)
        else
          do { (ct, r) \<leftarrow> ipa_ipv6ct_create_table env (tables s1 (table_cnt s1)) n (table_cnt s1);
               let s2 = set_ct_table (table_cnt s1) ct s1;
               (case r of
                  Inl err \<Rightarrow> Some (bail_ipa_desc s2, Inl err)
                | Inr _ \<Rightarrow>
                    (case ipa_ipv6ct_post_init_cmd env ct (table_cnt s2) of
                       Inl err \<Rightarrow> Some (bail_ipa_desc
                                 (set_ct_table (table_cnt s2) (fst (ipa_ipv6ct_destroy_table env ct)) s2), Inl err)
                     | Inr _ \<Rightarrow> Some (s2\<lparr>table_cnt := table_cnt s2 + 1\<rparr>, Inr (table_cnt s2 + 1)))) })"
    unfolding ipa_ipv6ct_add_tbl_def s1_def [symmetric] Let_def using n c
    by (simp only: IPA_IPV6CT_MAX_TBLS_def) simp
  have bail: "ct_state_ok (bail_ipa_desc (set_ct_table 0 ct s1)) \<and> table_cnt (bail_ipa_desc (set_ct_table 0 ct s1)) = 0
      \<and> \<not> ct_valid (bail_ipa_desc (set_ct_table 0 ct s1))" if "\<not> md_valid (mem_desc ct)" for ct
    using ct_state_no_tables [OF s1(1,2) that, of None] s1(2) that
    by (simp add: bail_ipa_desc_def set_ct_table_def ct_valid_def)
  show ?thesis
  proof (cases "ipa_desc s1")
    case None
    then show ?thesis using start s1 c inv by (simp add: ct_valid_def)
  next
    case (Some ver)
    obtain ct r where cr: "ipa_ipv6ct_create_table env (tables s1 0) n 0 = Some (ct, r)"
      and post: "case r of Inl _ \<Rightarrow> md_valid (mem_desc ct) \<longrightarrow> md_valid (mem_desc (tables s1 0))
         | Inr _ \<Rightarrow> n \<le> IPA_TABLE_MAX_ENTRIES \<and> ct_ok (table ct) \<and> ct_rules (table ct) = Map.empty \<and>
             md_valid (mem_desc ct) \<and> addr_offset (mem_desc ct) = 0"
      using ct_create_table_ok [OF law refl, of "tables s1 0" n] by blast
    show ?thesis
    proof (cases "ver < IPA_HW_v4_0")
      case True
      have "ct_state_ok (bail_ipa_desc s1)" "table_cnt (bail_ipa_desc s1) = 0" "\<not> ct_valid (bail_ipa_desc s1)"
        using s1 inv by (auto simp: bail_ipa_desc_def ct_state_ok_def ct_valid_def)
      then show ?thesis using start Some True c inv by simp
    next
      case False
      show ?thesis
      proof (cases r)
        case (Inl err)
        then have "\<not> md_valid (mem_desc ct)" using post nv s1(3) by simp
        from bail [OF this] show ?thesis using start Some False cr Inl s1(2) c inv by (simp add: Let_def)
      next
        case (Inr u)
        show ?thesis
        proof (cases "ipa_ipv6ct_post_init_cmd env ct 0")
          case (Inl err)
          have "set_ct_table 0 ct_zero_table (set_ct_table 0 ct s1) = set_ct_table 0 ct_zero_table s1"
            by (simp add: set_ct_table_def)
          then show ?thesis using bail [OF ct_zero_invalid] start Some False cr Inl \<open>r = Inr u\<close> s1(2) c inv
            by (simp add: Let_def ipa_ipv6ct_destroy_table_def set_ct_table_def)
        next
          case (Inr u')
          let ?s' = "(set_ct_table 0 ct s1)\<lparr>table_cnt := 1\<rparr>"
          have "ct_state_ok ?s'"
            using post \<open>r = Inr u\<close> s1(3) nv Some False by (auto simp: ct_state_ok_def set_ct_table_def ct_open_def)
          moreover have "ct_valid ?s'" "ct_rules (ct_tbl ?s') = Map.empty"
            using post \<open>r = Inr u\<close> by (simp_all add: ct_valid_def ct_tbl_def set_ct_table_def)
          ultimately show ?thesis using start Some False cr Inr \<open>r = Inr u\<close> s1(2)
            by (simp add: Let_def set_ct_table_def)
        qed
      qed
    qed
  qed
qed

lemma del_tbl_ok:
  assumes ok: "ct_state_ok s" and run: "ipa_ipv6ct_del_tbl env th s = Some (s', r)"
  shows "ct_state_ok s'"
proof -
  from with_ct_table_cases [OF run [unfolded ipa_ipv6ct_del_tbl_def]] show ?thesis
  proof (elim disjE conjE exE)
    fix r0
    assume th: "th = 1" and v: "ct_valid s"
      and body: "(let (ct', r) = ipa_ipv6ct_destroy_table env (tables s 0);
                 s1 = set_ct_table (th - 1) ct' s in
             case r of
               Inl err \<Rightarrow> Some (s1, Inl err)
             | Inr _ \<Rightarrow>
                 let s2 = s1\<lparr>table_cnt := (table_cnt s1 + (2 ^ 8 - 1)) mod 2 ^ 8\<rparr> in
                 Some (if table_cnt s2 = 0 then s2\<lparr>ipa_desc := None\<rparr> else s2, Inr ())) = Some (s', r0)"
    have c: "table_cnt s = 1" "ct_open (ipa_desc s)"
      using ct_state_okD(1) [OF ok v [unfolded ct_valid_def]] ct_state_okD(3) [OF ok] by blast+
    have "ct_state_ok (set_ct_table 0 ct_zero_table s)"
      using ct_state_okD(1,2) [OF ok] c by (auto simp: ct_state_ok_def set_ct_table_def)
    moreover have "ct_state_ok ((set_ct_table 0 ct_zero_table s)\<lparr>table_cnt := 0, ipa_desc := None\<rparr>)"
      by (rule ct_state_zero [OF ok]) simp_all
    moreover have "s' = set_ct_table 0 ct_zero_table s \<or>
        s' = (set_ct_table 0 ct_zero_table s)\<lparr>table_cnt := 0, ipa_desc := None\<rparr>"
      using body th c(1)
      by (cases "snd (ipa_mem_descriptor_delete env (mem_desc (tables s 0)))")
        (simp_all add: ipa_ipv6ct_destroy_table_def Let_def set_ct_table_def)
    ultimately show ?thesis by auto
  qed (use ok in simp)
qed

lemma ct_valid_tbl: "ct_state_ok s \<Longrightarrow> ct_valid s \<Longrightarrow> \<exists>ch. ct_table_ok (ct_tbl s) ch"
  using ct_state_okD(1) [of s 0] by (auto simp: ct_valid_def ct_tbl_def ct_ok_def)

lemma add_rule_state:
  assumes ok: "ct_state_ok s" and law: "ct_dma_law env (table_entries (ct_tbl s))"
    and run: "ipa_ipv6ct_add_rule env th u s = Some (s', r)"
  shows "ct_state_ok s'"
proof -
  from with_ct_table_cases [OF run [unfolded ipa_ipv6ct_add_rule_def]] show ?thesis
  proof (elim disjE conjE exE)
    fix r0
    assume th: "th = 1" and v: "ct_valid s" and adm: "\<not> protocol u = IPA_IPV6CT_INVALID_PROTO_FIELD_CMP"
      and body: "do { (t, r) \<leftarrow> ct_add_rule env (table (tables s 0)) u;
                  Some (set_ct_table (th - 1) ((tables s 0)\<lparr>table := t\<rparr>) s, r) } = Some (s', r0)"
    obtain ch where "ct_table_ok (ct_tbl s) ch" using ct_valid_tbl [OF ok v] by blast
    moreover have "ct_admissible u" using adm by (simp add: ct_admissible_def)
    ultimately obtain t' r' where
      t: "ct_add_rule env (table (tables s 0)) u = Some (t', r')" "ct_ok t'"
      using ct_add_rule_ok [OF _ law, of ch u] by (auto simp: ct_tbl_def)
    then show ?thesis using body th ct_state_put [OF ok v t(2)] by auto
  qed (use ok in simp)
qed

lemma del_rule_state:
  assumes ok: "ct_state_ok s" and law: "ct_dma_law env (table_entries (ct_tbl s))"
    and run: "ipa_ipv6ct_del_rule env th hdl s = Some (s', r)"
  shows "ct_state_ok s'"
proof -
  from with_ct_table_cases [OF run [unfolded ipa_ipv6ct_del_rule_def]] show ?thesis
  proof (elim disjE conjE exE)
    fix r0
    assume th: "th = 1" and v: "ct_valid s"
      and body: "do { (t, r) \<leftarrow> ct_del_rule env (table (tables s 0)) hdl;
                  Some (set_ct_table (th - 1) ((tables s 0)\<lparr>table := t\<rparr>) s, r) } = Some (s', r0)"
    obtain ch where "ct_table_ok (ct_tbl s) ch" using ct_valid_tbl [OF ok v] by blast
    from ct_del_rule_ok [OF this law, of hdl] obtain t' r' where
      t: "ct_del_rule env (table (tables s 0)) hdl = Some (t', r')" "ct_ok t'"
      by (auto simp: ct_tbl_def)
    then show ?thesis using body th ct_state_put [OF ok v t(2)] by auto
  qed (use ok in simp)
qed

lemma reach_ok: "ct_reach s \<Longrightarrow> ct_state_ok s"
proof (induction rule: ct_reach.induct)
  case reach_start
  show ?case by (simp add: ct_state_ok_def ct_initial_def)
next
  case (reach_add_tbl s env n s' r)
  then show ?case using add_tbl_ok [of s env n] by auto
qed (auto intro: del_tbl_ok add_rule_state del_rule_state)

lemma reach_tbl: "ct_reach s \<Longrightarrow> ct_valid s \<Longrightarrow> \<exists>ch. ct_table_ok (ct_tbl s) ch"
  using reach_ok ct_valid_tbl by blast

section \<open>A sample state\<close>

text \<open>The outcomes of system calls that all work, for a base table of 4 entries.\<close>

definition sample_env :: ipa_env where
  "sample_env =
     \<lparr>lock_ok = True, unlock_ok = True, open_desc = Some 20, ioctl_sram_info = None,
      ioctl_alloc = (\<lambda>_. Inr 0), dev_open_ok = True,
      mmap_mem = (\<lambda>sz. Some (replicate (Suc (sz div ct_entry_size)) ct_zero_entry)), dev_close_ok = True,
      ioctl_del = (\<lambda>_ _. Inr ()), ioctl_init = (\<lambda>_. Inr ()),
      ioctl_dma = (\<lambda>_ cmd mem. (True, fold (dma_store IPA_IPV6CT_EXPN_TBL 4 ct_entry_size ct_store) cmd mem))\<rparr>"

definition sample_rule :: "nat \<Rightarrow> ipa_ipv6ct_rule" where
  "sample_rule n =
     \<lparr>src_ipv6_lsb = 0, src_ipv6_msb = 0, dest_ipv6_lsb = 0, dest_ipv6_msb = 0, direction_settings = 3,
      ucp = False, s_bit = False, uc_activation_index = 0, src_port = of_nat n, dest_port = 0, protocol = 0\<rparr>"

definition sample_state :: "nat list \<Rightarrow> ipa_ipv6ct" where
  "sample_state ns =
     fold (\<lambda>n s. fst (the (ipa_ipv6ct_add_rule sample_env 1 (sample_rule n) s))) ns
       (fst (the (ipa_ipv6ct_add_tbl sample_env 5 ct_initial)))"

lemma sample_law: "ct_dma_law sample_env 4" "ct_dma_accepts sample_env t" "ct_mem_law sample_env"
  using dividend_less_div_times [of ct_entry_size]
  by (simp_all add: ct_dma_law_def ct_dma_accepts_def ct_mem_law_def sample_env_def ct_entry_size_def)
    (simp add: add.commute less_imp_le)

lemma sample_sizes:
  "ipa_table_calculate_entries_num t 5 IPA_NAT_MEM_IN_DDR
   = (t\<lparr>tot_tbl_ents := 6, table_entries := 4, expn_table_entries := 2\<rparr>, Inr ())"
  apply (simp add: ipa_table_calculate_entries_num_def IPA_TABLE_MAX_ENTRIES_def Let_def mul_float_def IPA_BASE_TABLE_PERCENTAGE_def IPA_EXPANSION_TABLE_PERCENTAGE_def)
  by (simp add: round_sig_def bit_len.simps Let_def Get2PowerTightUpperBound_def GetEvenTightUpperBound_def pow2_loop.simps)

lemma sample_start:
  "\<exists>s. ipa_ipv6ct_add_tbl sample_env 5 ct_initial = Some (s, Inr 1) \<and> table_entries (ct_tbl s) = 4 \<and> tot_tbl_ents (ct_tbl s) = 6 \<and>
     \<not> ct_used (ct_tbl s) 5"
  by (simp add: ipa_ipv6ct_add_tbl_def ct_initial_def IPA_IPV6CT_MAX_TBLS_def IPA_HW_v4_0_def Let_def sample_sizes
      ipa_ipv6ct_create_table_def sample_env_def ct_zero_table_def md_zero_def ipa_mem_descriptor_init_def
      ipa_table_calculate_size_def ipa_table_init_def ct_entry_size_def ipa_mem_descriptor_allocate_memory_def
      AllocateMemory_def MapMemory_def ipa_table_calculate_addresses_def ipa_table_reset_def
      ipa_ipv6ct_create_table_dma_cmd_helpers_def ipa_ipv6ct_post_init_cmd_def ct_tbl_def set_ct_table_def
      ct_used_def ct_zero_entry_def nth_append)

text \<open>An entry point with a valid table: refused at its guards, or its body with what releasing the mutex makes of it.\<close>

definition unlocked :: "ipa_env \<Rightarrow> errno + 'r \<Rightarrow> errno + 'r" where
  "unlocked env r = (if unlock_ok env then r else (case r of Inl err \<Rightarrow> Inl err | Inr _ \<Rightarrow> Inl EPERM))"

lemma unlocked_simps [simp]:
  "unlocked env (Inl err) = Inl err" "unlocked env (Inr x) = (if unlock_ok env then Inr x else Inl EPERM)"
  by (simp_all add: unlocked_def)

lemma with_ct_table_valid:
  assumes ok: "ct_state_ok s" and v: "ct_valid s"
  shows "with_ct_table env 1 x s body =
    (if x \<or> \<not> lock_ok env then Some (s, Inl EINVAL) else map_option (\<lambda>(s', r). (s', unlocked env r)) (body (tables s 0)))"
proof -
  have "ct_open (ipa_desc s)"
    using ct_state_okD(1) [OF ok v [unfolded ct_valid_def]] ct_state_okD(3) [OF ok] by blast
  then obtain ver where "ipa_desc s = Some ver" "\<not> ver < IPA_HW_v4_0" by (auto simp: ct_open_def not_less)
  then show ?thesis using v
    by (cases "body (tables s 0)")
      (auto simp: with_ct_table_def IPA_TABLE_INVALID_ENTRY_def IPA_IPV6CT_MAX_TBLS_def ct_valid_def unlocked_def)
qed

lemma with_ct_table_run:
  assumes ok: "ct_state_ok s" and v: "ct_valid s" and env: "lock_ok env" "unlock_ok env" and x: "\<not> x"
  shows "with_ct_table env 1 x s body = body (tables s 0)"
  using with_ct_table_valid [OF ok v, of env x body] env x
  by (cases "body (tables s 0)") (auto simp: unlocked_def)

lemma ct_put_eqs [simp]:
  "ct_tbl (set_ct_table 0 ((tables s 0)\<lparr>table := t\<rparr>) s) = t"
  "ct_valid (set_ct_table 0 ((tables s 0)\<lparr>table := t\<rparr>) s) = ct_valid s"
  by (simp_all add: ct_tbl_def ct_valid_def set_ct_table_def)

lemma add_rule_run:
  assumes s: "ct_state_ok s" "ct_valid s" and law: "ct_dma_law env (table_entries (ct_tbl s))"
  shows "\<exists>s' r. ipa_ipv6ct_add_rule env 1 u s = Some (s', r) \<and> ct_valid s' \<and> same_table (ct_tbl s) (ct_tbl s') \<and>
    ((\<exists>err. r = Inl err) \<and> ct_rules (ct_tbl s') = ct_rules (ct_tbl s) \<and>
       \<not> (ct_dma_accepts env (ct_tbl s) \<and> lock_ok env \<and> ct_admissible u \<and> ct_good u \<and> ct_room (ct_tbl s) u)
     \<or> lock_ok env \<and> ct_admissible u \<and> ct_good u \<and> ct_room (ct_tbl s) u \<and>
       (\<exists>i. 0 < i \<and> i < tot_tbl_ents (ct_tbl s) \<and> \<not> ct_used (ct_tbl s) i \<and>
          r = unlocked env (Inr (MakeEntryHdl (ct_tbl s) i)) \<and>
          ct_rules (ct_tbl s') = (ct_rules (ct_tbl s))(i \<mapsto> ct_norm u)))"
proof (cases "lock_ok env \<and> ct_admissible u")
  case False
  then have "ipa_ipv6ct_add_rule env 1 u s = Some (s, Inl EINVAL)"
    unfolding ipa_ipv6ct_add_rule_def with_ct_table_valid [OF s] by (auto simp: ct_admissible_def)
  then show ?thesis using False s(2) same_table_refl [of "ct_tbl s"] by auto
next
  case True
  obtain ch where ch: "ct_table_ok (ct_tbl s) ch" using ct_valid_tbl [OF s] by blast
  from ct_add_rule_ok [OF ch law] True obtain t' r where
    t: "ct_add_rule env (ct_tbl s) u = Some (t', r)" "same_table (ct_tbl s) t'"
    and post: "case r of Inl err \<Rightarrow> ct_rules t' = ct_rules (ct_tbl s)
     | Inr hdl \<Rightarrow> \<exists>i. 0 < i \<and> i < tot_tbl_ents (ct_tbl s) \<and> \<not> ct_used (ct_tbl s) i \<and>
         hdl = MakeEntryHdl (ct_tbl s) i \<and> ct_rules t' = (ct_rules (ct_tbl s))(i \<mapsto> ct_norm u)"
    and taken: "(\<exists>hdl. r = Inr hdl) \<longrightarrow> ct_good u \<and> ct_room (ct_tbl s) u"
      "ct_dma_accepts env (ct_tbl s) \<longrightarrow> (\<exists>hdl. r = Inr hdl) \<longleftrightarrow> ct_good u \<and> ct_room (ct_tbl s) u"
    by blast
  let ?s' = "set_ct_table 0 ((tables s 0)\<lparr>table := t'\<rparr>) s"
  have run: "ipa_ipv6ct_add_rule env 1 u s = Some (?s', unlocked env r)"
    unfolding ipa_ipv6ct_add_rule_def with_ct_table_valid [OF s] using t(1) True
    by (simp add: ct_tbl_def ct_admissible_def)
  show ?thesis
  proof (cases r)
    case (Inl err)
    then show ?thesis using run t(2) s(2) post taken by (intro exI [of _ ?s'] exI [of _ "unlocked env r"]) auto
  next
    case (Inr hdl)
    then show ?thesis using run t(2) s(2) post taken True by (intro exI [of _ ?s'] exI [of _ "unlocked env r"]) auto
  qed
qed

lemma del_rule_run:
  assumes s: "ct_state_ok s" "ct_valid s" and law: "ct_dma_law env (table_entries (ct_tbl s))"
  shows "\<exists>s' r. ipa_ipv6ct_del_rule env 1 hdl s = Some (s', r) \<and> ct_valid s' \<and> same_table (ct_tbl s) (ct_tbl s') \<and>
    ((\<exists>err. r = Inl err) \<and> ct_tbl s' = ct_tbl s \<and>
       \<not> (ct_dma_accepts env (ct_tbl s) \<and> lock_ok env \<and> hdl \<noteq> IPA_TABLE_INVALID_ENTRY \<and>
          (\<exists>i. ipa_table_get_entry (ct_tbl s) hdl = Inr i \<and> ct_used (ct_tbl s) i))
     \<or> lock_ok env \<and> hdl \<noteq> IPA_TABLE_INVALID_ENTRY \<and> r = unlocked env (Inr ()) \<and>
       (\<exists>i. ipa_table_get_entry (ct_tbl s) hdl = Inr i \<and> ct_used (ct_tbl s) i \<and>
          ct_rules (ct_tbl s') = (ct_rules (ct_tbl s))(i := None)))"
proof (cases "lock_ok env \<and> hdl \<noteq> IPA_TABLE_INVALID_ENTRY")
  case False
  then have "ipa_ipv6ct_del_rule env 1 hdl s = Some (s, Inl EINVAL)"
    unfolding ipa_ipv6ct_del_rule_def with_ct_table_valid [OF s] by auto
  then show ?thesis using False s(2) same_table_refl [of "ct_tbl s"] by auto
next
  case True
  obtain ch where ch: "ct_table_ok (ct_tbl s) ch" using ct_valid_tbl [OF s] by blast
  from ct_del_rule_ok [OF ch law, of hdl] obtain t' r where
    t: "ct_del_rule env (ct_tbl s) hdl = Some (t', r)" "same_table (ct_tbl s) t'"
    and post: "case r of Inl err \<Rightarrow> t' = ct_tbl s
     | Inr _ \<Rightarrow> \<exists>i. ipa_table_get_entry (ct_tbl s) hdl = Inr i \<and> ct_used (ct_tbl s) i \<and>
         ct_rules t' = (ct_rules (ct_tbl s))(i := None)"
    and taken: "ct_dma_accepts env (ct_tbl s) \<longrightarrow>
       (r = Inr ()) = (\<exists>i. ipa_table_get_entry (ct_tbl s) hdl = Inr i \<and> ct_used (ct_tbl s) i)"
    by blast
  let ?s' = "set_ct_table 0 ((tables s 0)\<lparr>table := t'\<rparr>) s"
  have run: "ipa_ipv6ct_del_rule env 1 hdl s = Some (?s', unlocked env r)"
    unfolding ipa_ipv6ct_del_rule_def with_ct_table_valid [OF s] using t(1) True by (simp add: ct_tbl_def)
  show ?thesis
  proof (cases r)
    case (Inl err)
    then show ?thesis using run t(2) s(2) post taken by (intro exI [of _ ?s'] exI [of _ "unlocked env r"]) auto
  next
    case (Inr x)
    then show ?thesis using run t(2) s(2) post True by (intro exI [of _ ?s'] exI [of _ "unlocked env r"]) auto
  qed
qed

text \<open>The sample states are reachable, and their table is the one of the start.\<close>

lemma sample_add:
  assumes "ct_reach s" "ct_valid s" "table_entries (ct_tbl s) = 4"
  shows "\<exists>s' r. ipa_ipv6ct_add_rule sample_env 1 (sample_rule n) s = Some (s', r) \<and>
    ct_reach s' \<and> ct_valid s' \<and> same_table (ct_tbl s) (ct_tbl s')"
proof -
  have law: "ct_dma_law sample_env (table_entries (ct_tbl s))" using assms(3) sample_law(1) by simp
  have "protocol (sample_rule n) \<noteq> IPA_IPV6CT_INVALID_PROTO_FIELD_CMP"
    by (simp add: sample_rule_def ct_consts)
  then obtain s' r where "ipa_ipv6ct_add_rule sample_env 1 (sample_rule n) s = Some (s', r)" "ct_valid s'"
    "same_table (ct_tbl s) (ct_tbl s')"
    using add_rule_run [OF reach_ok [OF assms(1)] assms(2) law, of "sample_rule n"] by (auto simp: sample_env_def)
  then show ?thesis using reach_add_rule [OF assms(1) law] by blast
qed

lemma sample_state_ok:
  "ct_reach (sample_state ns) \<and> ct_valid (sample_state ns) \<and>
   table_entries (ct_tbl (sample_state ns)) = 4 \<and> tot_tbl_ents (ct_tbl (sample_state ns)) = 6"
proof (induction ns rule: rev_induct)
  case Nil
  obtain s where s: "ipa_ipv6ct_add_tbl sample_env 5 ct_initial = Some (s, Inr 1)"
    "table_entries (ct_tbl s) = 4" "tot_tbl_ents (ct_tbl s) = 6"
    using sample_start by blast
  have "ct_state_ok ct_initial" using reach_ok reach_start by blast
  from add_tbl_ok [OF this sample_law(3), of 5] have "ct_valid s" using s(1) by auto
  moreover have "ct_reach s" using reach_add_tbl [OF reach_start sample_law(3) s(1)] .
  ultimately show ?case using s by (simp add: sample_state_def)
next
  case (snoc n ns)
  then obtain s' r where s: "ipa_ipv6ct_add_rule sample_env 1 (sample_rule n) (sample_state ns) = Some (s', r)"
    "ct_reach s'" "ct_valid s'" "same_table (ct_tbl (sample_state ns)) (ct_tbl s')"
    using sample_add by blast
  have "sample_state (ns @ [n]) = fst (the (ipa_ipv6ct_add_rule sample_env 1 (sample_rule n) (sample_state ns)))"
    by (simp add: sample_state_def)
  then have "sample_state (ns @ [n]) = s'" using s(1) by simp
  then show ?case using s(2,3) same_table_eqs [OF s(4)] snoc by simp
qed

section \<open>Where the rules are\<close>

lemma ct_rules_at:
  "ct_rules t i = (if i < tot_tbl_ents t \<and> live (links ct_link t i) then Some (ct_view (table_recs t ! i)) else None)"
  by (simp add: ct_rules_def table_rules_def)

lemma ct_rule_on_chain:
  assumes ok: "ct_table_ok t ch" and r: "ct_rules t i = Some r"
    and b: "b = ct_slot (table_entries t) r" and w: "w = follow (tot_tbl_ents t) (links ct_link t) b"
  shows "i \<in> set w \<and> distinct w \<and> (\<forall>k. follow (tot_tbl_ents t + k) (links ct_link t) b = w) \<and>
    (\<forall>j\<in>set w. ct_used t j \<and> (j = b \<or> ct_rules t j \<noteq> None) \<and>
       (\<forall>q. ct_rules t j = Some q \<longrightarrow> ct_slot (table_entries t) q = b))"
proof -
  let ?L = "links ct_link t"
  note okD = ct_table_okD [OF ok]
  note wf = table_okD(2) [OF okD(2)] and slot = table_okD(6) [OF okD(2)]
  have i: "i < tot_tbl_ents t" "live (?L i)" and rv: "r = ct_view (table_recs t ! i)"
    using r by (auto simp: ct_rules_at split: if_splits)
  have te: "table_entries t \<le> tot_tbl_ents t" using okD(3) by (simp add: table_shape_def)
  obtain c where c: "c < table_entries t" "l_valid (?L c)" "i = c \<or> i \<in> set (ch c)"
  proof (cases "i < table_entries t")
    case True
    then show ?thesis using that [of i] i(2) by (simp add: live_def)
  next
    case False
    then show ?thesis using that linked_position [OF wf _ i(1)] i(2) by (auto simp: live_def)
  qed
  have "b = c" using slot [OF c(1,3) i(2)] by (simp add: b rv)
  then have cb: "b < table_entries t" "l_valid (?L b)" "i \<in> set (b # ch b)" using c by auto
  have f: "follow k ?L b = b # ch b" "distinct (b # ch b)" if "tot_tbl_ents t \<le> k" for k
    using follow_chain [OF wf cb(1,2) te that] by blast+
  have "j < tot_tbl_ents t" "l_valid (?L j)" "j = b \<or> live (?L j)" if "j \<in> set (b # ch b)" for j
    using that linked_chain_valid [OF wf cb(1), of j] cb te by (auto simp: live_def)
  moreover have "ct_slot (table_entries t) q = b" if "j \<in> set (b # ch b)" "ct_rules t j = Some q" for j q
    using that slot [OF cb(1), of j] by (auto simp: ct_rules_at split: if_splits)
  moreover have "w = b # ch b" "distinct w" using f [of "tot_tbl_ents t"] w by simp_all
  ultimately show ?thesis using f(1) cb(3) by (auto simp: ct_used_link ct_rules_at)
qed

lemma ct_handle_of_entry:
  assumes ok: "ct_table_ok t ch" and i: "i < tot_tbl_ents t"
  shows "ipa_table_get_entry t (MakeEntryHdl t i) = Inr i \<and> MakeEntryHdl t i < 2 ^ 16 \<and>
    (MakeEntryHdl t i = IPA_TABLE_INVALID_ENTRY \<longleftrightarrow> i = 0) \<and> ct_rules t 0 = None"
proof -
  note okD = ct_table_okD [OF ok]
  have h: "ipa_table_get_entry t (MakeEntryHdl t j) = Inr j" if "j < tot_tbl_ents t" for j
    by (rule get_entry_of_handle [OF okD(3,5,6) that])
  have t0: "0 < tot_tbl_ents t" "0 < table_entries t" using okD(3) by (auto simp: table_shape_def)
  have z: "MakeEntryHdl t 0 = 0" using okD(4) t0 by (simp add: MakeEntryHdl_def Let_def)
  have "MakeEntryHdl t i = 0 \<longleftrightarrow> i = 0" using h [OF i] h [OF t0(1)] z by auto
  moreover have "MakeEntryHdl t i < 2 ^ 16" by (simp add: MakeEntryHdl_def Let_def)
  moreover have "ct_rules t 0 = None"
    using linked_zero [OF table_okD(2) [OF okD(2)]] by (simp add: ct_rules_at live_def)
  ultimately show ?thesis using h [OF i] by (simp add: IPA_TABLE_INVALID_ENTRY_def)
qed

section \<open>The properties\<close>

text \<open>C2: Whatever calls of the library led to a state, and whatever the outcomes of the system calls they
  made, a table that is in use is in order: entries in use form disjoint doubly linked chains behind the
  heads of the base table, every rule is in the chain of its hash, the counters count the used entries of
  the base and the expansion table, and free entries are clean.\<close>

theorem ipa_ct_tables_in_order:
  assumes "ct_reach s" "md_valid (mem_desc (tables s i))"
  shows "i = 0 \<and> table_cnt s = 1 \<and> ct_open (ipa_desc s) \<and> (\<exists>ch. ct_table_ok (table (tables s i)) ch)"
  using ct_state_okD(1) [OF reach_ok [OF assms(1)] assms(2)] ct_state_okD(3) [OF reach_ok [OF assms(1)]]
  unfolding ct_ok_def by blast

lemma ipa_ct_tables_in_order_witness:
  "\<exists>ch. ct_table_ok (table (tables (sample_state [1, 5, 9]) 0)) ch"
  using ipa_ct_tables_in_order [of "sample_state [1, 5, 9]" 0] sample_state_ok [of "[1, 5, 9]"]
  by (auto simp: ct_valid_def)

text \<open>C5: Adding a rule refines the insertion into a map from entries to rules, and ends in one of two ways, for
  every rule and whatever becomes of the mutex and of the DMA command. Either the call fails and the rules are as
  before; if the driver takes the commands, that is only so when the mutex cannot be had, the protocol is 0xFF, the
  direction is unknown or there is no room (neither the slot of the rule's hash nor an expansion entry is free). Or
  none of these is the case and the rule is stored, with its activation index cut to 13 bits, in an entry that was
  free and not 0, all other rules are left alone, and the answer is the entry's handle; but when the mutex cannot be
  released, the answer is -EPERM all the same.\<close>

theorem ipa_ct_add_rule_inserts:
  assumes "ct_reach s" "ct_valid s" "ct_dma_law env (table_entries (ct_tbl s))"
  shows "\<exists>s' r. ipa_ipv6ct_add_rule env 1 u s = Some (s', r) \<and>
    ((\<exists>err. r = Inl err) \<and> ct_rules (ct_tbl s') = ct_rules (ct_tbl s) \<and>
       \<not> (ct_dma_accepts env (ct_tbl s) \<and> lock_ok env \<and> protocol u \<noteq> IPA_IPV6CT_INVALID_PROTO_FIELD_CMP \<and>
          ct_good u \<and> ct_room (ct_tbl s) u)
     \<or> lock_ok env \<and> protocol u \<noteq> IPA_IPV6CT_INVALID_PROTO_FIELD_CMP \<and> ct_good u \<and> ct_room (ct_tbl s) u \<and>
       (\<exists>i. 0 < i \<and> i < tot_tbl_ents (ct_tbl s) \<and> \<not> ct_used (ct_tbl s) i \<and>
          r = (if unlock_ok env then Inr (MakeEntryHdl (ct_tbl s) i) else Inl EPERM) \<and>
          ct_rules (ct_tbl s') = (ct_rules (ct_tbl s))(i \<mapsto> ct_norm u)))"
  using add_rule_run [OF reach_ok [OF assms(1)] assms(2,3), of u] unfolding ct_admissible_def unlocked_simps by blast

lemma sample_hyps:
  "lock_ok sample_env" "unlock_ok sample_env" "protocol (sample_rule n) \<noteq> IPA_IPV6CT_INVALID_PROTO_FIELD_CMP"
  "ct_good (sample_rule n)" "ct_reach (sample_state ns)" "ct_valid (sample_state ns)"
  "ct_dma_law sample_env (table_entries (ct_tbl (sample_state ns)))"
  using sample_state_ok [of ns] sample_law(1)
  by (simp_all add: sample_env_def sample_rule_def ct_consts ct_good_def)

lemma ipa_ct_add_rule_inserts_witness:
  "\<exists>s' r. ipa_ipv6ct_add_rule sample_env 1 (sample_rule 7) (sample_state [1, 5]) = Some (s', r) \<and>
    ((\<exists>hdl. r = Inr hdl) \<longleftrightarrow> ct_room (ct_tbl (sample_state [1, 5])) (sample_rule 7))"
  using ipa_ct_add_rule_inserts [OF sample_hyps(5) [of "[1, 5]"] sample_hyps(6,7), of "sample_rule 7"]
    sample_law(2) sample_hyps(1,2) sample_hyps(3,4) [of 7] by (elim exE conjE disjE) (auto simp: if_P)

text \<open>C8: Deleting a rule refines the deletion from the map, and ends in one of two ways, for every handle and
  whatever becomes of the mutex and of the DMA command. Either the call fails and the table is as before; if the
  driver takes the command blocks that the library makes, that is only so when the mutex cannot be had or the
  handle is 0 or names no entry in use. Or the handle names an entry in use: its rule is then gone and every other
  rule is still there, under its own handle, also where the deleted entry was the head or in the middle of a
  chain; the answer is success, but -EPERM when the mutex cannot be released. (A head that was deleted while it had a
  chain stays in use without a rule; its handle is accepted again.)\<close>

theorem ipa_ct_del_rule_deletes:
  assumes "ct_reach s" "ct_valid s" "ct_dma_law env (table_entries (ct_tbl s))"
  shows "\<exists>s' r. ipa_ipv6ct_del_rule env 1 hdl s = Some (s', r) \<and>
    ((\<exists>err. r = Inl err) \<and> ct_tbl s' = ct_tbl s \<and>
       \<not> (ct_dma_accepts env (ct_tbl s) \<and> lock_ok env \<and> hdl \<noteq> IPA_TABLE_INVALID_ENTRY \<and>
          (\<exists>i. ipa_table_get_entry (ct_tbl s) hdl = Inr i \<and> ct_used (ct_tbl s) i))
     \<or> lock_ok env \<and> hdl \<noteq> IPA_TABLE_INVALID_ENTRY \<and> r = (if unlock_ok env then Inr () else Inl EPERM) \<and>
       (\<exists>i. ipa_table_get_entry (ct_tbl s) hdl = Inr i \<and> ct_used (ct_tbl s) i \<and>
          ct_rules (ct_tbl s') = (ct_rules (ct_tbl s))(i := None)))"
  using del_rule_run [OF reach_ok [OF assms(1)] assms(2,3), of hdl] unfolding unlocked_simps by blast

lemma ipa_ct_del_rule_deletes_witness:
  "\<exists>s' r. ipa_ipv6ct_del_rule sample_env 1 2 (sample_state [1, 5, 9]) = Some (s', r) \<and>
    (r = Inr ()) = (\<exists>i. ipa_table_get_entry (ct_tbl (sample_state [1, 5, 9])) 2 = Inr i \<and>
       ct_used (ct_tbl (sample_state [1, 5, 9])) i)"
proof -
  have "(2::nat) \<noteq> IPA_TABLE_INVALID_ENTRY" by (simp add: IPA_TABLE_INVALID_ENTRY_def)
  with ipa_ct_del_rule_deletes [OF sample_hyps(5) [of "[1, 5, 9]"] sample_hyps(6,7), of 2] show ?thesis
    using sample_law(2) sample_hyps(1,2) by (elim exE conjE disjE) auto
qed

text \<open>C10: No rule gets lost: whoever starts at the slot of a rule's hash and follows the next links
  meets the rule's entry, and comes to an end without meeting an entry twice. All entries on the way are in use;
  those behind the head hold rules, and all rules met have the same slot.\<close>

theorem ipa_ct_rule_found:
  assumes "ct_reach s" "ct_valid s" "ct_rules (ct_tbl s) i = Some r"
  shows "let t = ct_tbl s; b = ct_slot (table_entries t) r; w = follow (tot_tbl_ents t) (links ct_link t) b in
    i \<in> set w \<and> distinct w \<and> (\<forall>k. follow (tot_tbl_ents t + k) (links ct_link t) b = w) \<and>
    (\<forall>j\<in>set w. ct_used t j \<and> (j = b \<or> ct_rules t j \<noteq> None) \<and>
       (\<forall>q. ct_rules t j = Some q \<longrightarrow> ct_slot (table_entries t) q = b))"
proof -
  obtain ch where "ct_table_ok (ct_tbl s) ch" using reach_tbl [OF assms(1,2)] by blast
  from ct_rule_on_chain [OF this assms(3) refl refl] show ?thesis unfolding Let_def .
qed

lemma ipa_ct_rule_found_witness:
  "\<exists>i r. ct_rules (ct_tbl (sample_state [1])) i = Some r \<and>
     i \<in> set (follow 6 (links ct_link (ct_tbl (sample_state [1]))) (ct_slot 4 r))"
proof -
  obtain s where s: "ipa_ipv6ct_add_tbl sample_env 5 ct_initial = Some (s, Inr 1)" "table_entries (ct_tbl s) = 4"
    "tot_tbl_ents (ct_tbl s) = 6" "\<not> ct_used (ct_tbl s) 5"
    using sample_start by blast
  have n: "sample_state [] = s" by (simp add: sample_state_def s(1))
  have "ct_room (ct_tbl s) (sample_rule 1)" using s(2-4) by (auto simp: ct_room_def intro!: exI [of _ 5])
  then obtain s' hdl i where run: "ipa_ipv6ct_add_rule sample_env 1 (sample_rule 1) (sample_state []) = Some (s', Inr hdl)"
    "ct_rules (ct_tbl s') = (ct_rules (ct_tbl s))(i \<mapsto> ct_norm (sample_rule 1))"
    using add_rule_run [OF reach_ok [OF sample_hyps(5) [of "[]"]] sample_hyps(6,7), of "sample_rule 1"]
      sample_law(2) sample_hyps(1,2) sample_hyps(3,4) [of 1] n
    by (elim exE conjE disjE) (auto simp: ct_admissible_def)
  have r: "ct_rules (ct_tbl (sample_state [1])) i = Some (ct_norm (sample_rule 1))"
    using run n by (simp add: sample_state_def)
  show ?thesis
    using ipa_ct_rule_found [OF sample_hyps(5,6) r] r sample_state_ok [of "[1]"]
    by (intro exI [of _ i] exI [of _ "ct_norm (sample_rule 1)"]) (simp add: Let_def)
qed

text \<open>C33: Handles name their entries: in every table in use, the handle of an entry is a number of 16 bits that
  leads back to that entry, and only entry 0, which never holds a rule, has the handle 0 that means
  no rule.\<close>

theorem ipa_ct_handle_roundtrip:
  assumes "ct_reach s" "ct_valid s" "i < tot_tbl_ents (ct_tbl s)"
  shows "ipa_table_get_entry (ct_tbl s) (MakeEntryHdl (ct_tbl s) i) = Inr i \<and>
    MakeEntryHdl (ct_tbl s) i < 2 ^ 16 \<and>
    (MakeEntryHdl (ct_tbl s) i = IPA_TABLE_INVALID_ENTRY \<longleftrightarrow> i = 0) \<and> ct_rules (ct_tbl s) 0 = None"
proof -
  obtain ch where "ct_table_ok (ct_tbl s) ch" using reach_tbl [OF assms(1,2)] by blast
  from ct_handle_of_entry [OF this assms(3)] show ?thesis .
qed

lemma ipa_ct_handle_roundtrip_witness:
  "ipa_table_get_entry (ct_tbl (sample_state [1, 5])) (MakeEntryHdl (ct_tbl (sample_state [1, 5])) 3) = Inr 3"
  using ipa_ct_handle_roundtrip [OF sample_hyps(5,6), of 3] sample_state_ok [of "[1, 5]"] by simp

text \<open>The sizes of a table in DDR: a request is accepted up to 5120 entries, the base table is then a power of two
  from 2 to 4096, so that its size less one is a mask for hashes and an index fits in the 12 bits of a handle, the
  expansion table is even with 2 to 1024 entries, and together they hold the requested number but for
  at most one.\<close>

theorem ipa_table_sizes:
  "case ipa_table_calculate_entries_num t n IPA_NAT_MEM_IN_DDR of
     (t', Inl err) \<Rightarrow> n > 5120 \<and> err = EINVAL
   | (t', Inr _) \<Rightarrow> n \<le> 5120 \<and> (\<exists>k \<in> {1..12}. table_entries t' = 2 ^ k) \<and>
       even (expn_table_entries t') \<and> expn_table_entries t' \<in> {2..1024} \<and>
       tot_tbl_ents t' = table_entries t' + expn_table_entries t' \<and> n \<le> tot_tbl_ents t' + 1"
proof (cases "n \<le> IPA_TABLE_MAX_ENTRIES")
  case True
  then show ?thesis using ddr_entries [OF True, of t] by (fastforce simp: IPA_TABLE_MAX_ENTRIES_def)
qed (simp add: ipa_table_calculate_entries_num_def IPA_TABLE_MAX_ENTRIES_def Let_def)

text \<open>C28: A deletion of a table that the driver refuses wedges the library: the table is cleared all the same, but
  still counted, so that from then on every attempt to delete it again and every attempt to add a table fails with
  -EINVAL, whatever the outcomes of system calls are.\<close>

theorem ipa_ct_failed_delete_wedges:
  assumes "ct_reach s" "ct_valid s" "lock_ok env" "unlock_ok env"
    "ioctl_del env (md_table_index (mem_desc (tables s 0)))
       (if sram_to_be_used (mem_desc (tables s 0)) then IPA_NAT_MEM_IN_SRAM else IPA_NAT_MEM_IN_DDR) = Inl err"
  shows "\<exists>s'. ipa_ipv6ct_del_tbl env 1 s = Some (s', Inl err) \<and> \<not> ct_valid s' \<and>
    (\<forall>env' n. ipa_ipv6ct_add_tbl env' n s' = Some (s', Inl EINVAL)) \<and>
    (\<forall>env' th. ipa_ipv6ct_del_tbl env' th s' = Some (s', Inl EINVAL))"
proof -
  let ?s' = "set_ct_table 0 ct_zero_table s"
  note ok = reach_ok [OF assms(1)]
  have c: "table_cnt s = 1" "ct_open (ipa_desc s)"
    using ct_state_okD(1) [OF ok assms(2) [unfolded ct_valid_def]] ct_state_okD(3) [OF ok] by blast+
  then obtain ver where ver: "ipa_desc s = Some ver" "\<not> ver < IPA_HW_v4_0" by (auto simp: ct_open_def not_less)
  have "ipa_ipv6ct_del_tbl env 1 s = Some (?s', Inl err)"
    unfolding ipa_ipv6ct_del_tbl_def with_ct_table_run [OF ok assms(2-4) not_False_eq_True [THEN iffD2, OF TrueI]] using assms(2,5)
    by (simp add: ipa_ipv6ct_destroy_table_def ipa_mem_descriptor_delete_def DeallocateMemory_def ct_valid_def)
  moreover have "ipa_ipv6ct_del_tbl env' th ?s' = Some (?s', Inl EINVAL)" for env' th
    using ver by (auto simp: ipa_ipv6ct_del_tbl_def with_ct_table_def set_ct_table_def IPA_IPV6CT_MAX_TBLS_def
        IPA_TABLE_INVALID_ENTRY_def not_less le_Suc_eq)
  moreover have "ipa_ipv6ct_add_tbl env' n ?s' = Some (?s', Inl EINVAL)" for env' n
    using c(1) by (simp add: ipa_ipv6ct_add_tbl_def set_ct_table_def IPA_IPV6CT_MAX_TBLS_def)
  ultimately show ?thesis by (intro exI [of _ ?s']) (simp add: ct_valid_def set_ct_table_def)
qed

lemma ipa_ct_failed_delete_wedges_witness:
  "\<exists>s'. ipa_ipv6ct_del_tbl (sample_env\<lparr>ioctl_del := (\<lambda>_ _. Inl EIO)\<rparr>) 1 (sample_state [1]) = Some (s', Inl EIO) \<and>
    (\<forall>env' n. ipa_ipv6ct_add_tbl env' n s' = Some (s', Inl EINVAL))"
  using ipa_ct_failed_delete_wedges [OF sample_hyps(5) [of "[1]"] sample_hyps(6), of "sample_env\<lparr>ioctl_del := (\<lambda>_ _. Inl EIO)\<rparr>" EIO]
  by (auto simp: sample_env_def)

end
