(* ===== verification/Ipa_Nat_Drv.thy ===== *)
theory Ipa_Nat_Drv
  imports Ipa_Ipv6ct
begin

unbundle bit_operations_syntax

text \<open>
  The kernel's side of the IPA tables, after \<open>dataipa/drivers/platform/msm/ipa/ipa_v3/ipa_nat.c\<close>: the
  devices that the tables' memory is allocated and mapped through, the checks of what a process asks the
  packet processor to do with it, and the immediate commands that are sent to the processor.

  The driver's context is one record. Addresses are numbers; \<open>dma_live\<close> is the kernel's DMA memory, the
  buffers that are allocated with their sizes, and \<open>sent\<close> the immediate commands that the processor has
  executed, in order. \<open>ipa3_send_cmd\<close> (\<open>ipa_dp.c\<close>) queues all its descriptors or none and waits for the
  last, so commands are executed exactly when it succeeds. Other outcomes that are not the driver's are taken from the record
  \<open>drv_env\<close>. Names, locks (held by every call but the initialisation and the DMA command) and caching
  attributes are left out.
\<close>

section \<open>Types\<close>

datatype ipahal_nat_type = IPAHAL_NAT_IPV4 | IPAHAL_NAT_IPV4_INDEX | IPAHAL_NAT_IPV4_PDN | IPAHAL_NAT_IPV6CT

text \<open>The sizes of the structures in \<open>ipahal_nat_i.h\<close>, the same for every hardware that has the type.\<close>

definition ipahal_nat_entry_size :: "ipahal_nat_type \<Rightarrow> nat" where
  "ipahal_nat_entry_size ty =
     (case ty of IPAHAL_NAT_IPV4 \<Rightarrow> 32 | IPAHAL_NAT_IPV4_INDEX \<Rightarrow> 4 | IPAHAL_NAT_IPV4_PDN \<Rightarrow> 16
      | IPAHAL_NAT_IPV6CT \<Rightarrow> 64)"

definition IPA_HW_v4_1 :: nat where "IPA_HW_v4_1 = 15"
definition drv_TABLE_MAX_ENTRIES :: nat where "drv_TABLE_MAX_ENTRIES = 8192"
definition IPA_NAT_IPV6CT_TEMP_MEM_SIZE :: nat where "IPA_NAT_IPV6CT_TEMP_MEM_SIZE = 128"
definition IPA_MAX_NUM_OF_TABLE_DMA_CMD_DESC :: nat where "IPA_MAX_NUM_OF_TABLE_DMA_CMD_DESC = 5"
definition IPA_NAT_MAX_NUM_OF_INIT_CMD_DESC :: nat where "IPA_NAT_MAX_NUM_OF_INIT_CMD_DESC = 4"
definition IPA_IPV6CT_MAX_NUM_OF_INIT_CMD_DESC :: nat where "IPA_IPV6CT_MAX_NUM_OF_INIT_CMD_DESC = 3"
definition IPA_QMAP_TETH_BIT :: u32 where "IPA_QMAP_TETH_BIT = 2 ^ 30"
definition IPA_RAM_IPV6CT_SIZE :: nat where "IPA_RAM_IPV6CT_SIZE = 0"
definition UINT_MAX :: nat where "UINT_MAX = 2 ^ 32 - 1"

definition MAX_ALLOC_NAT_SIZE :: "nat \<Rightarrow> nat" where
  "MAX_ALLOC_NAT_SIZE sz = drv_TABLE_MAX_ENTRIES * sz"

definition IPA_VALID_TBL_INDEX :: "nat \<Rightarrow> bool" where
  "IPA_VALID_TBL_INDEX ti \<longleftrightarrow> ti = 0"

text \<open>The memory types of a byte that a process gives.\<close>

fun mem_in_of :: "nat \<Rightarrow> ipa3_nat_mem_in option" where
  "mem_in_of n = (if n = 0 then Some IPA_NAT_MEM_IN_DDR else if n = 1 then Some IPA_NAT_MEM_IN_SRAM else None)"

text \<open>Subtraction of \<open>dma_addr_t\<close> values wraps.\<close>

definition sub64 :: "nat \<Rightarrow> nat \<Rightarrow> nat" where
  "sub64 a b = (a + (2 ^ 64 - b mod 2 ^ 64)) mod 2 ^ 64"

text \<open>
  What the kernel holds for a device: its class, its range of numbers, the device itself and its character
  device.
\<close>

datatype dev_object = DEV_CLASS | DEV_REGION | DEV_DEVICE | DEV_CDEV

record ipa3_nat_ipv6ct_common_mem =
  dev_objects :: "dev_object set"
  is_nat_mem :: bool
  is_ipv6ct_mem :: bool
  is_dev_init :: bool
  is_hw_init :: bool
  is_mapped :: bool
  phys_mem_size :: nat
  table_alloc_size :: nat
  vaddr :: "nat option"
  dma_handle :: nat
  base_address :: "nat option"
  base_table_addr :: "nat option"
  expansion_table_addr :: "nat option"
  dev_table_entries :: nat
  dev_expn_table_entries :: nat
  tmp_mem :: "nat option"

record ipa3_nat_mem_loc_data =
  mld_is_mapped :: bool
  mld_io_vaddr :: "nat option"
  mld_vaddr :: "nat option"
  mld_dma_handle :: nat
  mld_phys_addr :: nat
  mld_table_alloc_size :: nat
  mld_table_entries :: nat
  mld_expn_table_entries :: nat
  mld_base_address :: "nat option"
  mld_base_table_addr :: "nat option"
  mld_expansion_table_addr :: "nat option"
  mld_index_table_addr :: "nat option"
  mld_index_table_expansion_addr :: "nat option"

record ipahal_nat_pdn_entry =
  pdn_public_ip :: u32
  pdn_src_metadata :: u32
  pdn_dst_metadata :: u32

text \<open>The buffer of the PDN table: its address, its size and its entries.\<close>

record pdn_buffer =
  pdn_base :: "nat option"
  pdn_size :: nat
  pdn_entries :: "ipahal_nat_pdn_entry list"

record ipa3_nat_mem =
  nat_dev :: ipa3_nat_ipv6ct_common_mem
  public_ip_addr :: u32
  pdn_mem :: pdn_buffer
  last_alloc_loc :: ipa3_nat_mem_in
  active_table :: ipa3_nat_mem_in
  switch2ddr_cnt :: u32
  switch2sram_cnt :: u32
  ddr_in_use :: bool
  sram_in_use :: bool
  mem_loc :: "ipa3_nat_mem_in \<Rightarrow> ipa3_nat_mem_loc_data"
  is_tmp_mem_allocated :: bool

record ipahal_imm_cmd_nat_ipv6ct_init_common =
  ini_base_table_addr :: nat
  ini_expansion_table_addr :: nat
  ini_base_table_addr_shared :: bool
  ini_expansion_table_addr_shared :: bool
  ini_size_base_table :: nat
  ini_size_expansion_table :: nat
  ini_table_index :: nat

record ipahal_imm_cmd_ip_v4_nat_init =
  table_init :: ipahal_imm_cmd_nat_ipv6ct_init_common
  ini_index_table_addr :: nat
  ini_index_table_expansion_addr :: nat
  ini_index_table_addr_shared :: bool
  ini_index_table_expansion_addr_shared :: bool
  ini_public_addr_info :: u32

record ipahal_imm_cmd_dma_shared_mem =
  shm_system_addr :: nat
  shm_size :: nat
  shm_local_addr :: nat
  shm_entries :: "ipahal_nat_pdn_entry list"

datatype imm_cmd =
    IMM_REGISTER_WRITE
  | IMM_NOP
  | IMM_NAT_DMA ipa_ioc_nat_dma_one
  | IMM_TABLE_DMA ipa_ioc_nat_dma_one
  | IMM_IP_V4_NAT_INIT ipahal_imm_cmd_ip_v4_nat_init
  | IMM_IP_V6_CT_INIT ipahal_imm_cmd_nat_ipv6ct_init_common
  | IMM_DMA_SHARED_MEM ipahal_imm_cmd_dma_shared_mem

text \<open>
  The context. The fields from \<open>coal_mapped\<close> to \<open>smem_restricted_bytes\<close> are set when the driver starts:
  whether the coalescing endpoint is mapped, the workaround flag, and the parts of the memory map that
  are used.
\<close>

record ipa3_ctx =
  ipa_hw_type :: nat
  sram_compatible :: bool
  coal_mapped :: bool
  ulso_wa :: bool
  ram_nat_size :: nat
  ram_nat_ofst :: nat
  sram_window :: nat
  pdn_config_size :: nat
  pdn_config_ofst :: nat
  smem_restricted_bytes :: nat
  nat_mem :: ipa3_nat_mem
  ipv6ct_dev :: ipa3_nat_ipv6ct_common_mem
  dma_live :: "nat \<rightharpoonup> nat"
  sent :: "imm_cmd list"

text \<open>
  Outcomes of one call: of the two allocations of DMA memory, of the mapping of the SRAM, of the mapping
  to the process, of building the immediate command at a position, of sending, and of copying a request
  back to the process.
\<close>

record drv_env =
  alloc_table :: "nat option"
  alloc_pdn :: "nat option"
  ioremap_addr :: "nat option"
  mmap_result :: "errno + unit"
  imm_built :: "nat \<Rightarrow> bool"
  send_result :: "errno + unit"
  copy_back_ok :: bool

section \<open>Memory\<close>

definition dma_alloc_coherent :: "nat option \<Rightarrow> nat \<Rightarrow> ipa3_ctx \<Rightarrow> ipa3_ctx" where
  "dma_alloc_coherent h sz c = (case h of None \<Rightarrow> c | Some a \<Rightarrow> c\<lparr>dma_live := (dma_live c)(a \<mapsto> sz)\<rparr>)"

definition dma_free_coherent :: "nat \<Rightarrow> ipa3_ctx \<Rightarrow> ipa3_ctx" where
  "dma_free_coherent a c = c\<lparr>dma_live := (dma_live c)(a := None)\<rparr>"

definition set_loc :: "ipa3_nat_mem_in \<Rightarrow> ipa3_nat_mem_loc_data \<Rightarrow> ipa3_nat_mem \<Rightarrow> ipa3_nat_mem" where
  "set_loc mt m nm = nm\<lparr>mem_loc := (mem_loc nm)(mt := m)\<rparr>"

definition ipa3_get_max_pdn :: "ipa3_ctx \<Rightarrow> nat" where
  "ipa3_get_max_pdn c = pdn_config_size c div ipahal_nat_entry_size IPAHAL_NAT_IPV4_PDN"

section \<open>The devices\<close>

text \<open>
  Outcomes of the start: of the allocation of the note of the temporary memory and of the memory itself,
  and, for each device (\<open>True\<close> is the connection tracking one), of getting each of its objects.
\<close>

record dev_env =
  kzalloc_ok :: bool
  alloc_tmp :: "nat option"
  object_ok :: "bool \<Rightarrow> dev_object \<Rightarrow> bool"

definition ipa3_nat_ipv6ct_allocate_tmp_memory :: "dev_env \<Rightarrow> ipa3_ctx \<Rightarrow> ipa3_ctx \<times> nat option" where
  "ipa3_nat_ipv6ct_allocate_tmp_memory de c =
     (if \<not> kzalloc_ok de then (c, None)
      else (dma_alloc_coherent (alloc_tmp de) IPA_NAT_IPV6CT_TEMP_MEM_SIZE c, alloc_tmp de))"

definition hold :: "dev_object \<Rightarrow> ipa3_nat_ipv6ct_common_mem \<Rightarrow> ipa3_nat_ipv6ct_common_mem" where
  "hold x dev = dev\<lparr>dev_objects := insert x (dev_objects dev)\<rparr>"

definition drop_obj :: "dev_object \<Rightarrow> ipa3_nat_ipv6ct_common_mem \<Rightarrow> ipa3_nat_ipv6ct_common_mem" where
  "drop_obj x dev = dev\<lparr>dev_objects := dev_objects dev - {x}\<rparr>"

text \<open>
  The names of the devices are shorter than the bound that is checked, and left out. Objects are given
  back in the reverse order when a later one cannot be had. \<open>drop_obj DEV_CLASS\<close> is \<open>class_destroy\<close>, and so on.
\<close>

definition ipa3_nat_ipv6ct_init_device ::
    "dev_env \<Rightarrow> bool \<Rightarrow> nat \<Rightarrow> nat \<Rightarrow> ipa3_nat_ipv6ct_common_mem \<Rightarrow> ipa3_nat_ipv6ct_common_mem \<times> (errno + unit)" where
  "ipa3_nat_ipv6ct_init_device de is_ct phys_size tmp dev =
     (let ok = object_ok de is_ct;
          dev0 = dev\<lparr>is_nat_mem := \<not> is_ct, is_ipv6ct_mem := is_ct\<rparr> in
      if \<not> ok DEV_CLASS then (dev0, Inl ENODEV)
      else
        let dev1 = hold DEV_CLASS dev0 in
        if \<not> ok DEV_REGION then (drop_obj DEV_CLASS dev1, Inl ENODEV)
        else
          let dev2 = hold DEV_REGION dev1 in
          if \<not> ok DEV_DEVICE then (drop_obj DEV_CLASS (drop_obj DEV_REGION dev2), Inl ENODEV)
          else
            let dev3 = hold DEV_DEVICE dev2 in
            if \<not> ok DEV_CDEV
            then (drop_obj DEV_CLASS (drop_obj DEV_REGION (drop_obj DEV_DEVICE dev3)), Inl ENODEV)
            else ((hold DEV_CDEV dev3)\<lparr>tmp_mem := Some tmp, phys_mem_size := phys_size, is_dev_init := True\<rparr>, Inr ()))"

text \<open>
  The temporary memory is the devices' common property: the first one that is destroyed frees it. The
  character device is not taken down.
\<close>

definition destroy_dev :: "ipa3_nat_ipv6ct_common_mem \<Rightarrow> ipa3_nat_ipv6ct_common_mem" where
  "destroy_dev dev =
     (drop_obj DEV_CLASS (drop_obj DEV_REGION (drop_obj DEV_DEVICE dev)))\<lparr>tmp_mem := None, is_dev_init := False\<rparr>"

definition free_tmp :: "nat option \<Rightarrow> ipa3_ctx \<Rightarrow> ipa3_ctx" where
  "free_tmp tmp c =
     (case tmp of
        None \<Rightarrow> c
      | Some a \<Rightarrow>
          if is_tmp_mem_allocated (nat_mem c)
          then (dma_free_coherent a c)\<lparr>nat_mem := (nat_mem c)\<lparr>is_tmp_mem_allocated := False\<rparr>\<rparr>
          else c)"

definition nat_destroy_device :: "ipa3_ctx \<Rightarrow> ipa3_ctx" where
  "nat_destroy_device c =
     (let c1 = free_tmp (tmp_mem (nat_dev (nat_mem c))) c in
      c1\<lparr>nat_mem := (nat_mem c1)\<lparr>nat_dev := destroy_dev (nat_dev (nat_mem c1))\<rparr>\<rparr>)"

definition ct_destroy_device :: "ipa3_ctx \<Rightarrow> ipa3_ctx" where
  "ct_destroy_device c =
     (let c1 = free_tmp (tmp_mem (ipv6ct_dev c)) c in c1\<lparr>ipv6ct_dev := destroy_dev (ipv6ct_dev c1)\<rparr>)"

text \<open>The connection tracking device exists from version 4.0 of the hardware on; it has no physical memory.\<close>

definition ipa3_nat_ipv6ct_init_devices :: "dev_env \<Rightarrow> ipa3_ctx \<Rightarrow> ipa3_ctx \<times> (errno + unit)" where
  "ipa3_nat_ipv6ct_init_devices de c =
     (case ipa3_nat_ipv6ct_allocate_tmp_memory de c of
        (c1, None) \<Rightarrow> (c1, Inl ENOMEM)
      | (c1, Some tmp) \<Rightarrow>
          let c2 = c1\<lparr>nat_mem := (nat_mem c1)\<lparr>is_tmp_mem_allocated := True\<rparr>\<rparr>;
              (nd, r) = ipa3_nat_ipv6ct_init_device de False (ram_nat_size c2) tmp (nat_dev (nat_mem c2));
              c3 = c2\<lparr>nat_mem := (nat_mem c2)\<lparr>nat_dev := nd\<rparr>\<rparr> in
          case r of
            Inl _ \<Rightarrow> (free_tmp (Some tmp) c3, Inl ENODEV)
          | Inr _ \<Rightarrow>
              if ipa_hw_type c3 \<ge> IPA_HW_v4_0
              then
                let (cd, r') = ipa3_nat_ipv6ct_init_device de True IPA_RAM_IPV6CT_SIZE tmp (ipv6ct_dev c3);
                    c4 = c3\<lparr>ipv6ct_dev := cd\<rparr> in
                case r' of
                  Inl _ \<Rightarrow> (free_tmp (Some tmp) (nat_destroy_device c4), Inl ENODEV)
                | Inr _ \<Rightarrow> (c4, Inr ())
              else (c3, Inr ()))"

definition ipa3_nat_ipv6ct_destroy_devices :: "ipa3_ctx \<Rightarrow> ipa3_ctx" where
  "ipa3_nat_ipv6ct_destroy_devices c =
     (let c1 = nat_destroy_device c in if ipa_hw_type c1 \<ge> IPA_HW_v4_0 then ct_destroy_device c1 else c1)"

section \<open>Mappings and allocations\<close>

text \<open>
  The mapping to a process. \<open>vsize\<close> is the size of the process's area.
\<close>

definition ipa3_nat_mmap :: "drv_env \<Rightarrow> nat \<Rightarrow> ipa3_ctx \<Rightarrow> ipa3_ctx \<times> (errno + unit)" where
  "ipa3_nat_mmap env vsize c =
     (let nm = nat_mem c; dev = nat_dev nm; mt = last_alloc_loc nm; mld = mem_loc nm mt in
      if \<not> is_dev_init dev then (c, Inl EPERM)
      else if mld_vaddr mld = None then (c, Inl EPERM)
      else if mld_is_mapped mld then (c, Inl EINVAL)
      else if mt = IPA_NAT_MEM_IN_SRAM \<and> (phys_mem_size dev = 0 \<or> phys_mem_size dev > vsize) then (c, Inl EINVAL)
      else
        let mld1 = mld\<lparr>mld_base_address := None\<rparr> in
        (case mmap_result env of
           Inl err \<Rightarrow> (c\<lparr>nat_mem := set_loc mt mld1 nm\<rparr>, Inl err)
         | Inr _ \<Rightarrow>
             (c\<lparr>nat_mem := set_loc mt (mld1\<lparr>mld_base_address := mld_vaddr mld, mld_is_mapped := True\<rparr>) nm\<rparr>, Inr ())))"

definition ipa3_ipv6ct_mmap :: "drv_env \<Rightarrow> ipa3_ctx \<Rightarrow> ipa3_ctx \<times> (errno + unit)" where
  "ipa3_ipv6ct_mmap env c =
     (let dev = ipv6ct_dev c in
      if \<not> is_dev_init dev then (c, Inl EPERM)
      else if vaddr dev = None then (c, Inl EPERM)
      else if is_mapped dev then (c, Inl EINVAL)
      else
        (case mmap_result env of
           Inl err \<Rightarrow> (c\<lparr>ipv6ct_dev := dev\<lparr>base_address := None\<rparr>\<rparr>, Inl err)
         | Inr _ \<Rightarrow> (c\<lparr>ipv6ct_dev := dev\<lparr>base_address := vaddr dev, is_mapped := True\<rparr>\<rparr>, Inr ())))"

text \<open>
  The allocation for a table, for the NAT device and for the connection tracking device. The latter has
  no check of whether the device already has memory.
\<close>

definition ipa3_nat_allocate_mem :: "drv_env \<Rightarrow> nat \<Rightarrow> ipa3_ctx \<Rightarrow> ipa3_ctx \<times> (errno + unit)" where
  "ipa3_nat_allocate_mem env rqst c =
     (let nm = nat_mem c in
      if rqst = 0 then (c, Inl EPERM)
      else if \<not> is_dev_init (nat_dev nm) then (c, Inl EPERM)
      else if rqst > MAX_ALLOC_NAT_SIZE (ipahal_nat_entry_size IPAHAL_NAT_IPV4) then (c, Inl EPERM)
      else if sram_compatible c \<and> rqst \<le> ram_nat_size c then
        if sram_in_use nm then (c, Inl EPERM)
        else
          let mld = (mem_loc nm IPA_NAT_MEM_IN_SRAM)
                \<lparr>mld_table_alloc_size := rqst, mld_phys_addr := sram_window c + ram_nat_ofst c,
                 mld_io_vaddr := ioremap_addr env\<rparr> in
          (case ioremap_addr env of
             None \<Rightarrow> (c\<lparr>nat_mem := set_loc IPA_NAT_MEM_IN_SRAM mld nm\<rparr>, Inl ENOMEM)
           | Some a \<Rightarrow>
               (c\<lparr>nat_mem := (set_loc IPA_NAT_MEM_IN_SRAM (mld\<lparr>mld_vaddr := Some a\<rparr>) nm)
                    \<lparr>sram_in_use := True, last_alloc_loc := IPA_NAT_MEM_IN_SRAM\<rparr>\<rparr>, Inr ()))
      else if ddr_in_use nm then (c, Inl EPERM)
      else
        let mld = (mem_loc nm IPA_NAT_MEM_IN_DDR)\<lparr>mld_table_alloc_size := rqst, mld_vaddr := alloc_table env\<rparr> in
        (case alloc_table env of
           None \<Rightarrow> (c\<lparr>nat_mem := set_loc IPA_NAT_MEM_IN_DDR mld nm\<rparr>, Inl ENOMEM)
         | Some a \<Rightarrow>
             ((dma_alloc_coherent (Some a) rqst c)
                \<lparr>nat_mem := (set_loc IPA_NAT_MEM_IN_DDR (mld\<lparr>mld_dma_handle := a\<rparr>) nm)
                   \<lparr>ddr_in_use := True, last_alloc_loc := IPA_NAT_MEM_IN_DDR\<rparr>\<rparr>, Inr ())))"

definition ipa3_ipv6ct_allocate_mem :: "drv_env \<Rightarrow> nat \<Rightarrow> ipa3_ctx \<Rightarrow> ipa3_ctx \<times> (errno + unit)" where
  "ipa3_ipv6ct_allocate_mem env rqst c =
     (let dev = ipv6ct_dev c in
      if rqst = 0 then (c, Inl EPERM)
      else if \<not> is_dev_init dev then (c, Inl EPERM)
      else if rqst > MAX_ALLOC_NAT_SIZE (ipahal_nat_entry_size IPAHAL_NAT_IPV6CT) then (c, Inl EPERM)
      else
        let dev1 = dev\<lparr>table_alloc_size := rqst, vaddr := alloc_table env\<rparr> in
        (case alloc_table env of
           None \<Rightarrow> (c\<lparr>ipv6ct_dev := dev1\<rparr>, Inl ENOMEM)
         | Some a \<Rightarrow>
             ((dma_alloc_coherent (Some a) rqst c)\<lparr>ipv6ct_dev := dev1\<lparr>dma_handle := a\<rparr>\<rparr>, Inr ())))"

text \<open>
  The allocations that processes ask for. The PDN table of the NAT device is allocated with its first table; when
  that fails, the table's memory is given back, but the device stays marked as in use.
\<close>

definition pdn_zero :: ipahal_nat_pdn_entry where
  "pdn_zero = \<lparr>pdn_public_ip = 0, pdn_src_metadata = 0, pdn_dst_metadata = 0\<rparr>"

definition fail_alloc_pdn :: "ipa3_ctx \<Rightarrow> ipa3_ctx" where
  "fail_alloc_pdn c =
     (let nm = nat_mem c; mt = last_alloc_loc nm; mld = mem_loc nm mt in
      case mt of
        IPA_NAT_MEM_IN_DDR \<Rightarrow>
          (case mld_vaddr mld of
             None \<Rightarrow> c
           | Some _ \<Rightarrow>
               (dma_free_coherent (mld_dma_handle mld) c)
                 \<lparr>nat_mem := set_loc mt (mld\<lparr>mld_vaddr := None\<rparr>) nm\<rparr>)
      | IPA_NAT_MEM_IN_SRAM \<Rightarrow>
          (case mld_io_vaddr mld of
             None \<Rightarrow> c
           | Some _ \<Rightarrow> c\<lparr>nat_mem := set_loc mt (mld\<lparr>mld_io_vaddr := None, mld_vaddr := None\<rparr>) nm\<rparr>))"

definition ipa3_allocate_nat_table :: "drv_env \<Rightarrow> nat \<Rightarrow> ipa3_ctx \<Rightarrow> ipa3_ctx \<times> (errno + unit)" where
  "ipa3_allocate_nat_table env rqst c =
     (case ipa3_nat_allocate_mem env rqst c of
        (c1, Inl err) \<Rightarrow> (c1, Inl err)
      | (c1, Inr _) \<Rightarrow>
          let nm = nat_mem c1 in
          if ipa_hw_type c1 \<ge> IPA_HW_v4_0 \<and> pdn_base (pdn_mem nm) = None
          then
            let sz = ipahal_nat_entry_size IPAHAL_NAT_IPV4_PDN * ipa3_get_max_pdn c1;
                buf = (pdn_mem nm)\<lparr>pdn_size := sz\<rparr>;
                c2 = c1\<lparr>nat_mem := nm\<lparr>pdn_mem := buf\<rparr>\<rparr> in
            if pdn_config_size c1 < sz then (fail_alloc_pdn c2, Inl ENOMEM)
            else
              (case alloc_pdn env of
                 None \<Rightarrow> (fail_alloc_pdn c2, Inl ENOMEM)
               | Some a \<Rightarrow>
                   ((dma_alloc_coherent (Some a) sz c2)
                      \<lparr>nat_mem := nm\<lparr>pdn_mem := buf\<lparr>pdn_base := Some a,
                          pdn_entries := replicate (ipa3_get_max_pdn c1) pdn_zero\<rparr>\<rparr>\<rparr>, Inr ()))
          else (c1, Inr ()))"

text \<open>The older request with the name of a device does the same.\<close>

definition ipa3_allocate_nat_device :: "drv_env \<Rightarrow> nat \<Rightarrow> ipa3_ctx \<Rightarrow> ipa3_ctx \<times> (errno + unit)" where
  "ipa3_allocate_nat_device env rqst c = ipa3_allocate_nat_table env rqst c"

definition ipa3_allocate_ipv6ct_table :: "drv_env \<Rightarrow> nat \<Rightarrow> ipa3_ctx \<Rightarrow> ipa3_ctx \<times> (errno + unit)" where
  "ipa3_allocate_ipv6ct_table env rqst c =
     (if ipa_hw_type c < IPA_HW_v4_0 then (c, Inl EPERM) else ipa3_ipv6ct_allocate_mem env rqst c)"

section \<open>Initialisation\<close>

text \<open>
  What the checks of a table's place need: the size of the memory that was asked for and the handle that
  offsets are added to, where there is one. The number of entries is a \<open>uint16_t\<close> parameter.
\<close>

definition ipa3_nat_ipv6ct_check_table_params ::
    "nat \<Rightarrow> nat option \<Rightarrow> nat \<Rightarrow> nat \<Rightarrow> ipahal_nat_type \<Rightarrow> errno + unit" where
  "ipa3_nat_ipv6ct_check_table_params orig_alloc_size handle ofs entries_num ty =
     (let table_size = ipahal_nat_entry_size ty * (entries_num mod 2 ^ 16) in
      if (case handle of None \<Rightarrow> False | Some h \<Rightarrow> ofs > sub64 UINT_MAX h) then Inl EPERM
      else if ofs > UINT_MAX - table_size then Inl EPERM
      else if ofs + table_size > orig_alloc_size then Inl EPERM
      else Inr ())"

definition nat_check_params ::
    "ipa3_ctx \<Rightarrow> ipa3_nat_mem_in \<Rightarrow> nat \<Rightarrow> nat \<Rightarrow> ipahal_nat_type \<Rightarrow> errno + unit" where
  "nat_check_params c mt ofs entries_num ty =
     (let mld = mem_loc (nat_mem c) mt in
      ipa3_nat_ipv6ct_check_table_params (mld_table_alloc_size mld)
        (if mt = IPA_NAT_MEM_IN_DDR then Some (mld_dma_handle mld) else None) ofs entries_num ty)"

definition ct_check_params :: "ipa3_ctx \<Rightarrow> nat \<Rightarrow> nat \<Rightarrow> errno + unit" where
  "ct_check_params c ofs entries_num =
     ipa3_nat_ipv6ct_check_table_params (table_alloc_size (ipv6ct_dev c)) (Some (dma_handle (ipv6ct_dev c)))
       ofs entries_num IPAHAL_NAT_IPV6CT"

definition ipa3_nat_ipv6ct_create_init_cmd ::
    "bool \<Rightarrow> nat \<Rightarrow> nat \<Rightarrow> nat \<Rightarrow> nat \<Rightarrow> nat \<Rightarrow> nat \<Rightarrow> ipahal_imm_cmd_nat_ipv6ct_init_common" where
  "ipa3_nat_ipv6ct_create_init_cmd is_shared base indx base_ofs expn_ofs entries expn_entries =
     \<lparr>ini_base_table_addr = base + base_ofs, ini_expansion_table_addr = base + expn_ofs,
      ini_base_table_addr_shared = is_shared, ini_expansion_table_addr_shared = is_shared,
      ini_size_base_table = entries, ini_size_expansion_table = expn_entries, ini_table_index = indx\<rparr>"

definition chk_sram_offset_alignment :: "nat \<Rightarrow> nat \<Rightarrow> bool" where
  "chk_sram_offset_alignment addr msk \<longleftrightarrow> addr AND msk = 0"

text \<open>
  Immediate commands: the closing of a coalescing frame where there is one, a barrier, and then the
  commands asked for. Each has to be built (there are at most \<open>max\<close> places for them) before the list is
  sent as a whole. \<open>late\<close> is the error when one of the latter cannot be built.
\<close>

definition imm_prefix :: "ipa3_ctx \<Rightarrow> imm_cmd list" where
  "imm_prefix c = (if coal_mapped c \<and> \<not> ulso_wa c then [IMM_REGISTER_WRITE] else []) @ [IMM_NOP]"

definition imm_build :: "drv_env \<Rightarrow> errno \<Rightarrow> imm_cmd list \<Rightarrow> imm_cmd list \<Rightarrow> errno + imm_cmd list" where
  "imm_build env late pre cmds =
     (if \<exists>k < length pre. \<not> imm_built env k then Inl ENOMEM
      else if \<exists>k < length cmds. \<not> imm_built env (length pre + k) then Inl late
      else Inr (pre @ cmds))"

definition ipa3_send_cmd :: "drv_env \<Rightarrow> imm_cmd list \<Rightarrow> ipa3_ctx \<Rightarrow> ipa3_ctx \<times> (errno + unit)" where
  "ipa3_send_cmd env cmds c =
     (case send_result env of Inl err \<Rightarrow> (c, Inl err) | Inr _ \<Rightarrow> (c\<lparr>sent := sent c @ cmds\<rparr>, Inr ()))"

text \<open>
  The copy of the PDN table to the processor, of the entries as they are when the command is built,
  which are also the ones it copies: the caller waits for it.
\<close>

definition ipa3_nat_create_modify_pdn_cmd ::
    "bool \<Rightarrow> ipa3_ctx \<Rightarrow> ipa3_ctx \<times> (errno + ipahal_imm_cmd_dma_shared_mem)" where
  "ipa3_nat_create_modify_pdn_cmd zero_mem c =
     (case pdn_base (pdn_mem (nat_mem c)) of
        None \<Rightarrow> (c, Inl EFAULT)
      | Some a \<Rightarrow>
          let n = ipa3_get_max_pdn c; buf = pdn_mem (nat_mem c);
              buf' = (if zero_mem then buf\<lparr>pdn_entries := replicate n pdn_zero\<rparr> else buf) in
          (c\<lparr>nat_mem := (nat_mem c)\<lparr>pdn_mem := buf'\<rparr>\<rparr>,
           Inr \<lparr>shm_system_addr = a, shm_size = ipahal_nat_entry_size IPAHAL_NAT_IPV4_PDN * n,
                shm_local_addr = smem_restricted_bytes c + pdn_config_ofst c, shm_entries = pdn_entries buf'\<rparr>))"

definition ipa3_nat_send_init_cmd ::
    "drv_env \<Rightarrow> ipahal_imm_cmd_ip_v4_nat_init \<Rightarrow> bool \<Rightarrow> ipa3_ctx \<Rightarrow> ipa3_ctx \<times> (errno + unit)" where
  "ipa3_nat_send_init_cmd env cmd zero_pdn_table c =
     (case imm_build env EPERM (imm_prefix c) [IMM_IP_V4_NAT_INIT cmd] of
        Inl err \<Rightarrow> (c, Inl err)
      | Inr cmds \<Rightarrow>
          if ipa_hw_type c \<ge> IPA_HW_v4_0
          then
            if length cmds \<ge> IPA_NAT_MAX_NUM_OF_INIT_CMD_DESC then (c, Inl ENOBUFS)
            else
              (case ipa3_nat_create_modify_pdn_cmd zero_pdn_table c of
                 (c1, Inl err) \<Rightarrow> (c1, Inl err)
               | (c1, Inr shm) \<Rightarrow>
                   (case imm_build env ENOMEM cmds [IMM_DMA_SHARED_MEM shm] of
                      Inl err \<Rightarrow> (c1, Inl err)
                    | Inr cmds' \<Rightarrow> ipa3_send_cmd env cmds' c1))
          else ipa3_send_cmd env cmds c)"

definition ipa3_ipv6ct_send_init_cmd ::
    "drv_env \<Rightarrow> ipahal_imm_cmd_nat_ipv6ct_init_common \<Rightarrow> ipa3_ctx \<Rightarrow> ipa3_ctx \<times> (errno + unit)" where
  "ipa3_ipv6ct_send_init_cmd env cmd c =
     (case imm_build env ENOMEM (imm_prefix c) [] of
        Inl err \<Rightarrow> (c, Inl err)
      | Inr pre \<Rightarrow>
          if length pre \<ge> IPA_IPV6CT_MAX_NUM_OF_INIT_CMD_DESC then (c, Inl ENOBUFS)
          else
            (case imm_build env EPERM pre [IMM_IP_V6_CT_INIT cmd] of
               Inl err \<Rightarrow> (c, Inl err)
             | Inr cmds \<Rightarrow> ipa3_send_cmd env cmds c))"

text \<open>What the driver notes of the tables, once the processor has them.\<close>

definition ct_init_device_structure ::
    "nat \<Rightarrow> nat \<Rightarrow> nat \<Rightarrow> nat \<Rightarrow> ipa3_nat_ipv6ct_common_mem \<Rightarrow> ipa3_nat_ipv6ct_common_mem" where
  "ct_init_device_structure base_ofs expn_ofs entries expn_entries dev =
     dev\<lparr>base_table_addr := map_option (\<lambda>a. a + base_ofs) (base_address dev),
         expansion_table_addr := map_option (\<lambda>a. a + expn_ofs) (base_address dev),
         dev_table_entries := entries, dev_expn_table_entries := expn_entries\<rparr>"

record ipa_ioc_v4_nat_init =
  v4_tbl_index :: nat
  v4_ipv4_rules_offset :: nat
  v4_expn_rules_offset :: nat
  v4_index_offset :: nat
  v4_index_expn_offset :: nat
  v4_table_entries :: nat
  v4_expn_table_entries :: nat
  v4_ip_addr :: u32
  v4_mem_type :: nat
  v4_focus_change :: nat

text \<open>An address is that of the mapping, which is set here: \<open>mld_is_mapped\<close> was checked.\<close>

definition nat_init_device_structure ::
    "ipa3_nat_mem_in \<Rightarrow> ipa_ioc_v4_nat_init \<Rightarrow> ipa3_nat_mem \<Rightarrow> ipa3_nat_mem \<times> (errno + unit)" where
  "nat_init_device_structure mt i nm =
     (let mld = mem_loc nm mt; base = (case mld_base_address mld of None \<Rightarrow> 0 | Some a \<Rightarrow> a);
          mld1 = mld\<lparr>mld_base_table_addr := Some (base + v4_ipv4_rules_offset i),
                     mld_expansion_table_addr := Some (base + v4_expn_rules_offset i),
                     mld_table_entries := v4_table_entries i, mld_expn_table_entries := v4_expn_table_entries i,
                     mld_index_table_addr := Some (base + v4_index_offset i),
                     mld_index_table_expansion_addr := Some (base + v4_index_expn_offset i)\<rparr>;
          nm1 = (set_loc mt mld1 nm)\<lparr>active_table := mt\<rparr>;
          focus = (v4_focus_change i \<noteq> 0) in
      case mt of
        IPA_NAT_MEM_IN_DDR \<Rightarrow>
          (if focus then nm1\<lparr>switch2ddr_cnt := switch2ddr_cnt nm1 + 1\<rparr> else nm1, Inr ())
      | IPA_NAT_MEM_IN_SRAM \<Rightarrow>
          if \<not> chk_sram_offset_alignment (base + v4_ipv4_rules_offset i) 31 \<or>
             \<not> chk_sram_offset_alignment (base + v4_expn_rules_offset i) 31 \<or>
             \<not> chk_sram_offset_alignment (base + v4_index_offset i) 3 \<or>
             \<not> chk_sram_offset_alignment (base + v4_index_expn_offset i) 3
          then (nm1, Inl ENODEV)
          else (if focus then nm1\<lparr>switch2sram_cnt := switch2sram_cnt nm1 + 1\<rparr> else nm1, Inr ()))"

definition ipa3_nat_create_init_cmd ::
    "ipa_ioc_v4_nat_init \<Rightarrow> bool \<Rightarrow> nat \<Rightarrow> ipa3_ctx \<Rightarrow> ipahal_imm_cmd_ip_v4_nat_init" where
  "ipa3_nat_create_init_cmd i is_shared base c =
     \<lparr>table_init = ipa3_nat_ipv6ct_create_init_cmd is_shared base (v4_tbl_index i) (v4_ipv4_rules_offset i)
        (v4_expn_rules_offset i) (v4_table_entries i) (v4_expn_table_entries i),
      ini_index_table_addr = base + v4_index_offset i,
      ini_index_table_expansion_addr = base + v4_index_expn_offset i,
      ini_index_table_addr_shared = is_shared, ini_index_table_expansion_addr_shared = is_shared,
      ini_public_addr_info = (if ipa_hw_type c \<ge> IPA_HW_v4_0 then of_nat (pdn_config_ofst c) else v4_ip_addr i)\<rparr>"

definition u16_max :: nat where "u16_max = 2 ^ 16 - 1"

text \<open>The end of an initialisation: the command is sent, then the driver's notes follow.\<close>

definition nat_init_post ::
    "drv_env \<Rightarrow> ipahal_imm_cmd_ip_v4_nat_init \<Rightarrow> ipa3_nat_mem_in \<Rightarrow> ipa_ioc_v4_nat_init \<Rightarrow> ipa3_ctx \<Rightarrow>
     ipa3_ctx \<times> (errno + unit)" where
  "nat_init_post env cmd mt i c =
     (case ipa3_nat_send_init_cmd env cmd False c of
        (c2, Inl err) \<Rightarrow> (c2, Inl err)
      | (c2, Inr _) \<Rightarrow>
          (case nat_init_device_structure mt i (nat_mem c2) of
             (nm, Inl err) \<Rightarrow> (c2\<lparr>nat_mem := nm\<rparr>, Inl err)
           | (nm, Inr _) \<Rightarrow>
               (c2\<lparr>nat_mem := nm\<lparr>public_ip_addr := v4_ip_addr i,
                     nat_dev := (nat_dev nm)\<lparr>is_hw_init := True\<rparr>\<rparr>\<rparr>, Inr ())))"

definition ipa3_nat_init_cmd :: "drv_env \<Rightarrow> ipa_ioc_v4_nat_init \<Rightarrow> ipa3_ctx \<Rightarrow> ipa3_ctx \<times> (errno + unit)" where
  "ipa3_nat_init_cmd env i0 c =
     (let i = (if sram_compatible c then i0 else i0\<lparr>v4_mem_type := 0, v4_focus_change := 0\<rparr>) in
      if \<not> IPA_VALID_TBL_INDEX (v4_tbl_index i) then (c, Inl EPERM)
      else if v4_table_entries i = 0 \<or> v4_table_entries i = u16_max then (c, Inl EPERM)
      else
        case mem_in_of (v4_mem_type i) of
          None \<Rightarrow> (c, Inl EPERM)
        | Some mt \<Rightarrow>
            let mld = mem_loc (nat_mem c) mt in
            if \<not> mld_is_mapped mld then (c, Inl EPERM)
            else
              case nat_check_params c mt (v4_ipv4_rules_offset i) (v4_table_entries i + 1) IPAHAL_NAT_IPV4 of
                Inl err \<Rightarrow> (c, Inl err)
              | Inr _ \<Rightarrow>
              case nat_check_params c mt (v4_expn_rules_offset i) (v4_expn_table_entries i) IPAHAL_NAT_IPV4 of
                Inl err \<Rightarrow> (c, Inl err)
              | Inr _ \<Rightarrow>
              case nat_check_params c mt (v4_index_offset i) (v4_table_entries i + 1) IPAHAL_NAT_IPV4_INDEX of
                Inl err \<Rightarrow> (c, Inl err)
              | Inr _ \<Rightarrow>
              case nat_check_params c mt (v4_index_expn_offset i) (v4_expn_table_entries i) IPAHAL_NAT_IPV4_INDEX of
                Inl err \<Rightarrow> (c, Inl err)
              | Inr _ \<Rightarrow>
                  let cmd = (case mt of
                               IPA_NAT_MEM_IN_DDR \<Rightarrow> ipa3_nat_create_init_cmd i False (mld_dma_handle mld) c
                             | IPA_NAT_MEM_IN_SRAM \<Rightarrow> ipa3_nat_create_init_cmd i True (ram_nat_ofst c) c);
                      buf = pdn_mem (nat_mem c);
                      c1 = (if ipa_hw_type c \<ge> IPA_HW_v4_0 \<and> pdn_base buf \<noteq> None \<and> v4_focus_change i = 0
                            then c\<lparr>nat_mem := (nat_mem c)\<lparr>pdn_mem := buf\<lparr>pdn_entries := (pdn_entries buf)[0 :=
                                   \<lparr>pdn_public_ip = v4_ip_addr i, pdn_src_metadata = 0, pdn_dst_metadata = 0\<rparr>]\<rparr>\<rparr>\<rparr>
                            else c) in
                  nat_init_post env cmd mt i c1)"

definition ipa3_ipv6ct_init_cmd :: "drv_env \<Rightarrow> ipa_ioc_ipv6ct_init \<Rightarrow> ipa3_ctx \<Rightarrow> ipa3_ctx \<times> (errno + unit)" where
  "ipa3_ipv6ct_init_cmd env i c =
     (let dev = ipv6ct_dev c in
      if ipa_hw_type c < IPA_HW_v4_0 then (c, Inl EPERM)
      else if \<not> IPA_VALID_TBL_INDEX (ini_tbl_index i) then (c, Inl EPERM)
      else if ini_table_entries i = 0 then (c, Inl EPERM)
      else if \<not> is_mapped dev then (c, Inl EPERM)
      else
        case ct_check_params c (ini_base_table_offset i) (ini_table_entries i + 1) of
          Inl err \<Rightarrow> (c, Inl err)
        | Inr _ \<Rightarrow>
        case ct_check_params c (ini_expn_table_offset i) (ini_expn_table_entries i) of
          Inl err \<Rightarrow> (c, Inl err)
        | Inr _ \<Rightarrow>
            (case ipa3_ipv6ct_send_init_cmd env
                    (ipa3_nat_ipv6ct_create_init_cmd False (dma_handle dev) (ini_tbl_index i)
                       (ini_base_table_offset i) (ini_expn_table_offset i) (ini_table_entries i) (ini_expn_table_entries i)) c of
               (c1, Inl err) \<Rightarrow> (c1, Inl err)
             | (c1, Inr _) \<Rightarrow>
                 (c1\<lparr>ipv6ct_dev := (ct_init_device_structure (ini_base_table_offset i) (ini_expn_table_offset i)
                        (ini_table_entries i) (ini_expn_table_entries i) (ipv6ct_dev c1))\<lparr>is_hw_init := True\<rparr>\<rparr>, Inr ())))"

section \<open>The PDN table\<close>

record ipa_ioc_nat_pdn_entry =
  ioc_pdn_index :: nat
  ioc_public_ip :: u32
  ioc_src_metadata :: u32
  ioc_dst_metadata :: u32

definition ipa3_nat_mdfy_pdn :: "drv_env \<Rightarrow> ipa_ioc_nat_pdn_entry \<Rightarrow> ipa3_ctx \<Rightarrow> ipa3_ctx \<times> (errno + unit)" where
  "ipa3_nat_mdfy_pdn env m c =
     (let buf = pdn_mem (nat_mem c) in
      if ipa_hw_type c < IPA_HW_v4_0 then (c, Inl EPERM)
      else if pdn_base buf = None then (c, Inl EPERM)
      else if int (ioc_pdn_index m) > int (ipa3_get_max_pdn c) - 1 then (c, Inl EPERM)
      else
        let src = (if ipa_hw_type c = IPA_HW_v4_1 then ioc_src_metadata m OR IPA_QMAP_TETH_BIT else ioc_src_metadata m);
            c1 = c\<lparr>nat_mem := (nat_mem c)\<lparr>pdn_mem := buf\<lparr>pdn_entries := (pdn_entries buf)[ioc_pdn_index m :=
                     \<lparr>pdn_public_ip = ioc_public_ip m, pdn_src_metadata = src,
                      pdn_dst_metadata = ioc_dst_metadata m\<rparr>]\<rparr>\<rparr>\<rparr> in
        case ipa3_nat_create_modify_pdn_cmd False c1 of
          (c2, Inl err) \<Rightarrow> (c2, Inl err)
        | (c2, Inr shm) \<Rightarrow>
            (case imm_build env ENOMEM [] [IMM_DMA_SHARED_MEM shm] of
               Inl err \<Rightarrow> (c2, Inl err)
             | Inr cmds \<Rightarrow> ipa3_send_cmd env cmds c2))"

section \<open>DMA commands\<close>

definition ipa3_nat_ipv6ct_calculate_table_size :: "ipa3_nat_mem_in \<Rightarrow> nat \<Rightarrow> ipa3_ctx \<Rightarrow> nat" where
  "ipa3_nat_ipv6ct_calculate_table_size mt base c =
     (let mld = mem_loc (nat_mem c) mt; dev = ipv6ct_dev c in
      if base = 0 then ipahal_nat_entry_size IPAHAL_NAT_IPV4 * (mld_table_entries mld + 1)
      else if base = 1 then ipahal_nat_entry_size IPAHAL_NAT_IPV4 * mld_expn_table_entries mld
      else if base = 2 then ipahal_nat_entry_size IPAHAL_NAT_IPV4_INDEX * (mld_table_entries mld + 1)
      else if base = 3 then ipahal_nat_entry_size IPAHAL_NAT_IPV4_INDEX * mld_expn_table_entries mld
      else if base = 4 then ipahal_nat_entry_size IPAHAL_NAT_IPV6CT * (dev_table_entries dev + 1)
      else if base = 5 then ipahal_nat_entry_size IPAHAL_NAT_IPV6CT * dev_expn_table_entries dev
      else 0)"

definition ipa3_table_validate_table_dma_one ::
    "ipa3_nat_mem_in \<Rightarrow> ipa_ioc_nat_dma_one \<Rightarrow> ipa3_ctx \<Rightarrow> errno + unit" where
  "ipa3_table_validate_table_dma_one mt d c =
     (if table_index d \<ge> 1 then Inl EPERM
      else if base_addr d \<le> 3 \<and> \<not> is_hw_init (nat_dev (nat_mem c)) then Inl EPERM
      else if base_addr d \<in> {4, 5} \<and> ipa_hw_type c < IPA_HW_v4_0 then Inl EPERM
      else if base_addr d \<in> {4, 5} \<and> \<not> is_hw_init (ipv6ct_dev c) then Inl EPERM
      else if base_addr d > 5 then Inl EPERM
      else
        let table_size = ipa3_nat_ipv6ct_calculate_table_size mt (base_addr d) c in
        if table_size = 0 then Inl EPERM
        else if dma_offset d \<ge> table_size then Inl EPERM
        else Inr ())"

text \<open>
  A command block of a process, with the byte that says which memory is meant. The descriptors are five;
  one is for the barrier, and one for closing the coalescing frame where that endpoint is mapped. The
  check and the sending are apart in the code too; no lock is held in between.
\<close>

definition table_dma_check :: "nat \<Rightarrow> ipa_ioc_nat_dma_cmd \<Rightarrow> ipa3_ctx \<Rightarrow> errno + unit" where
  "table_dma_check mem_type dma c =
     (let m = (if sram_compatible c then mem_type else 0);
          max_cmds = IPA_MAX_NUM_OF_TABLE_DMA_CMD_DESC - (if coal_mapped c then 1 else 0) in
      if \<not> is_dev_init (nat_dev (nat_mem c)) then Inl EPERM
      else
        case mem_in_of m of
          None \<Rightarrow> Inl EPERM
        | Some mt \<Rightarrow>
            if length dma = 0 \<or> length dma > max_cmds - 1 then Inl EPERM
            else if list_all (\<lambda>d. ipa3_table_validate_table_dma_one mt d c = Inr ()) dma then Inr ()
            else Inl EPERM)"

definition table_dma_send :: "drv_env \<Rightarrow> ipa_ioc_nat_dma_cmd \<Rightarrow> ipa3_ctx \<Rightarrow> ipa3_ctx \<times> (errno + unit)" where
  "table_dma_send env dma c =
     (case imm_build env ENOMEM (imm_prefix c)
             (map (if ipa_hw_type c \<ge> IPA_HW_v4_0 then IMM_TABLE_DMA else IMM_NAT_DMA) dma) of
        Inl err \<Rightarrow> (c, Inl err)
      | Inr cmds \<Rightarrow> ipa3_send_cmd env cmds c)"

definition ipa3_table_dma_cmd ::
    "drv_env \<Rightarrow> nat \<Rightarrow> ipa_ioc_nat_dma_cmd \<Rightarrow> ipa3_ctx \<Rightarrow> ipa3_ctx \<times> (errno + unit)" where
  "ipa3_table_dma_cmd env mem_type dma c =
     (case table_dma_check mem_type dma c of
        Inl err \<Rightarrow> (c, Inl err)
      | Inr _ \<Rightarrow> table_dma_send env dma c)"

section \<open>Deletion\<close>

definition mld_zero :: ipa3_nat_mem_loc_data where
  "mld_zero =
     \<lparr>mld_is_mapped = False, mld_io_vaddr = None, mld_vaddr = None, mld_dma_handle = 0, mld_phys_addr = 0,
      mld_table_alloc_size = 0, mld_table_entries = 0, mld_expn_table_entries = 0, mld_base_address = None,
      mld_base_table_addr = None, mld_expansion_table_addr = None, mld_index_table_addr = None,
      mld_index_table_expansion_addr = None\<rparr>"

text \<open>Both places of the NAT device are freed, and all that was noted of them is cleared.\<close>

definition nat_free_mem :: "ipa3_ctx \<Rightarrow> ipa3_ctx" where
  "nat_free_mem c =
     (let nm = nat_mem c; mld = mem_loc nm IPA_NAT_MEM_IN_DDR;
          c1 = (if ddr_in_use nm \<and> mld_vaddr mld \<noteq> None then dma_free_coherent (mld_dma_handle mld) c else c) in
      c1\<lparr>nat_mem := nm\<lparr>ddr_in_use := False, sram_in_use := False, mem_loc := (\<lambda>_. mld_zero),
           nat_dev := (nat_dev nm)\<lparr>is_hw_init := False, is_mapped := False\<rparr>\<rparr>\<rparr>)"

definition ct_free_mem :: "ipa3_ctx \<Rightarrow> ipa3_ctx" where
  "ct_free_mem c =
     (let dev = ipv6ct_dev c;
          c1 = (if vaddr dev \<noteq> None then dma_free_coherent (dma_handle dev) c else c) in
      c1\<lparr>ipv6ct_dev := dev\<lparr>vaddr := None, dma_handle := 0, table_alloc_size := 0, base_table_addr := None,
           expansion_table_addr := None, dev_table_entries := 0, dev_expn_table_entries := 0,
           is_hw_init := False, is_mapped := False\<rparr>\<rparr>)"

definition ipa3_nat_ipv6ct_create_del_table_cmd ::
    "nat \<Rightarrow> nat \<Rightarrow> ipa3_nat_ipv6ct_common_mem \<Rightarrow> errno + ipahal_imm_cmd_nat_ipv6ct_init_common" where
  "ipa3_nat_ipv6ct_create_del_table_cmd tbl_index base dev =
     (if \<not> IPA_VALID_TBL_INDEX tbl_index then Inl EPERM
      else
        let (shared, a) = (case tmp_mem dev of Some t \<Rightarrow> (False, t) | None \<Rightarrow> (True, base)) in
        Inr \<lparr>ini_base_table_addr = a, ini_expansion_table_addr = a, ini_base_table_addr_shared = shared,
             ini_expansion_table_addr_shared = shared, ini_size_base_table = 0, ini_size_expansion_table = 0,
             ini_table_index = tbl_index\<rparr>)"

definition ipa3_nat_send_del_table_cmd :: "drv_env \<Rightarrow> nat \<Rightarrow> ipa3_ctx \<Rightarrow> ipa3_ctx \<times> (errno + unit)" where
  "ipa3_nat_send_del_table_cmd env tbl_index c =
     (case ipa3_nat_ipv6ct_create_del_table_cmd tbl_index (ram_nat_ofst c) (nat_dev (nat_mem c)) of
        Inl err \<Rightarrow> (c, Inl err)
      | Inr ti \<Rightarrow>
          ipa3_nat_send_init_cmd env
            \<lparr>table_init = ti, ini_index_table_addr = ini_base_table_addr ti,
             ini_index_table_expansion_addr = ini_base_table_addr ti,
             ini_index_table_addr_shared = ini_base_table_addr_shared ti,
             ini_index_table_expansion_addr_shared = ini_base_table_addr_shared ti, ini_public_addr_info = 0\<rparr> True c)"

definition ipa3_ipv6ct_send_del_table_cmd :: "drv_env \<Rightarrow> nat \<Rightarrow> ipa3_ctx \<Rightarrow> ipa3_ctx \<times> (errno + unit)" where
  "ipa3_ipv6ct_send_del_table_cmd env tbl_index c =
     (case ipa3_nat_ipv6ct_create_del_table_cmd tbl_index 0 (ipv6ct_dev c) of
        Inl err \<Rightarrow> (c, Inl err)
      | Inr ti \<Rightarrow> ipa3_ipv6ct_send_init_cmd env ti c)"

definition ipa3_del_nat_table :: "drv_env \<Rightarrow> nat \<Rightarrow> nat \<Rightarrow> ipa3_ctx \<Rightarrow> ipa3_ctx \<times> (errno + unit)" where
  "ipa3_del_nat_table env tbl_index mem_type c =
     (let m = (if sram_compatible c then mem_type else 0) in
      if \<not> is_dev_init (nat_dev (nat_mem c)) then (c, Inl EPERM)
      else if \<not> IPA_VALID_TBL_INDEX tbl_index then (c, Inl EPERM)
      else
        case mem_in_of m of
          None \<Rightarrow> (c, Inl EPERM)
        | Some mt \<Rightarrow>
            (case (if is_hw_init (nat_dev (nat_mem c)) then ipa3_nat_send_del_table_cmd env tbl_index c
                   else (c, Inr ())) of
               (c1, Inl err) \<Rightarrow> (c1, Inl err)
             | (c1, Inr _) \<Rightarrow>
                 let nm = nat_mem c1; buf = pdn_mem nm;
                     free_pdn = (ipa_hw_type c1 \<ge> IPA_HW_v4_0 \<and> pdn_base buf \<noteq> None);
                     c2 = (if free_pdn then dma_free_coherent (the (pdn_base buf)) c1 else c1) in
                 (nat_free_mem
                    (c2\<lparr>nat_mem := nm\<lparr>public_ip_addr := 0,
                        pdn_mem := (if free_pdn then buf\<lparr>pdn_base := None\<rparr> else buf)\<rparr>\<rparr>), Inr ())))"

text \<open>
  The older request leaves the memory type of the request it makes unset: it is whatever byte the stack holds.
\<close>

definition ipa3_nat_del_cmd :: "drv_env \<Rightarrow> nat \<Rightarrow> nat \<Rightarrow> ipa3_ctx \<Rightarrow> ipa3_ctx \<times> (errno + unit)" where
  "ipa3_nat_del_cmd env stack_byte tbl_index c = ipa3_del_nat_table env tbl_index stack_byte c"

definition ipa3_del_ipv6ct_table :: "drv_env \<Rightarrow> nat \<Rightarrow> ipa3_ctx \<Rightarrow> ipa3_ctx \<times> (errno + unit)" where
  "ipa3_del_ipv6ct_table env tbl_index c =
     (if \<not> is_dev_init (ipv6ct_dev c) then (c, Inl EPERM)
      else if ipa_hw_type c < IPA_HW_v4_0 then (c, Inl EPERM)
      else
        (case (if is_hw_init (ipv6ct_dev c) then ipa3_ipv6ct_send_del_table_cmd env tbl_index c else (c, Inr ())) of
           (c1, Inl err) \<Rightarrow> (c1, Inl err)
         | (c1, Inr _) \<Rightarrow> (ct_free_mem c1, Inr ())))"

text \<open>
  Asking for the place in the SRAM is what marks the process's library as able to use it: the size, the
  offset in the mapping's first page and the size to map.
\<close>

definition ipa3_nat_get_sram_info :: "nat \<Rightarrow> ipa3_ctx \<Rightarrow> ipa3_ctx \<times> (errno + nat \<times> nat \<times> nat)" where
  "ipa3_nat_get_sram_info page_size c =
     (if \<not> is_dev_init (nat_dev (nat_mem c)) then (c, Inl EPERM)
      else
        let ofs = (sram_window c + ram_nat_ofst c) mod page_size in
        (c\<lparr>sram_compatible := True\<rparr>,
         Inr (ram_nat_size c, ofs, (ofs + ram_nat_size c + (page_size - 1)) div page_size * page_size)))"

section \<open>The requests\<close>

text \<open>
  What a process can ask of the driver about the tables, through \<open>ipa3_ioctl\<close> (\<open>ipa.c\<close>), or by mapping one
  of the devices. A request that cannot be copied from the process fails (with \<open>EFAULT\<close> here, also where
  the kernel has no memory for the copy), as does a command block whose number of entries changes between the
  two copies that are made. Every error becomes \<open>EFAULT\<close>. Some requests are copied back; when that fails
  their effect stays. A table's offset is copied back only where the process set it to something but 0.
\<close>

datatype ipa_req =
    IPA_IOC_ALLOC_NAT_MEM nat
  | IPA_IOC_ALLOC_NAT_TABLE nat
  | IPA_IOC_ALLOC_IPV6CT_TABLE nat
  | IPA_IOC_V4_INIT_NAT ipa_ioc_v4_nat_init
  | IPA_IOC_INIT_IPV6CT_TABLE ipa_ioc_ipv6ct_init
  | IPA_IOC_TABLE_DMA_CMD nat nat ipa_ioc_nat_dma_cmd
  | IPA_IOC_V4_DEL_NAT nat nat
  | IPA_IOC_DEL_NAT_TABLE nat nat
  | IPA_IOC_DEL_IPV6CT_TABLE nat
  | IPA_IOC_NAT_MODIFY_PDN ipa_ioc_nat_pdn_entry
  | IPA_IOC_GET_NAT_IN_SRAM_INFO nat
  | MMAP_NAT nat
  | MMAP_IPV6CT

definition efault :: "ipa3_ctx \<times> (errno + 'a) \<Rightarrow> ipa3_ctx \<times> (errno + unit)" where
  "efault = (\<lambda>(c, r). (c, case r of Inl _ \<Rightarrow> Inl EFAULT | Inr _ \<Rightarrow> Inr ()))"

fun no_copy_in :: "ipa_req \<Rightarrow> bool" where
  "no_copy_in (MMAP_NAT _) = True"
| "no_copy_in MMAP_IPV6CT = True"
| "no_copy_in (IPA_IOC_GET_NAT_IN_SRAM_INFO _) = True"
| "no_copy_in _ = False"

definition copied_back :: "drv_env \<Rightarrow> ipa3_ctx \<times> (errno + unit) \<Rightarrow> ipa3_ctx \<times> (errno + unit)" where
  "copied_back env = (\<lambda>(c, r). (c, if copy_back_ok env then r else Inl EFAULT))"

definition ipa3_ioctl :: "drv_env \<Rightarrow> bool \<Rightarrow> ipa_req \<Rightarrow> ipa3_ctx \<Rightarrow> ipa3_ctx \<times> (errno + unit)" where
  "ipa3_ioctl env copied req c =
     (if \<not> copied \<and> \<not> no_copy_in req then (c, Inl EFAULT)
      else
        case req of
          IPA_IOC_ALLOC_NAT_MEM sz \<Rightarrow> copied_back env (efault (ipa3_allocate_nat_device env sz c))
        | IPA_IOC_ALLOC_NAT_TABLE sz \<Rightarrow> copied_back env (efault (ipa3_allocate_nat_table env sz c))
        | IPA_IOC_ALLOC_IPV6CT_TABLE sz \<Rightarrow> copied_back env (efault (ipa3_allocate_ipv6ct_table env sz c))
        | IPA_IOC_V4_INIT_NAT i \<Rightarrow> efault (ipa3_nat_init_cmd env i c)
        | IPA_IOC_INIT_IPV6CT_TABLE i \<Rightarrow> efault (ipa3_ipv6ct_init_cmd env i c)
        | IPA_IOC_TABLE_DMA_CMD pre_entry mem_type dma \<Rightarrow>
            if length dma \<noteq> pre_entry then (c, Inl EFAULT) else efault (ipa3_table_dma_cmd env mem_type dma c)
        | IPA_IOC_V4_DEL_NAT stack_byte ti \<Rightarrow> efault (ipa3_nat_del_cmd env stack_byte ti c)
        | IPA_IOC_DEL_NAT_TABLE mem_type ti \<Rightarrow> efault (ipa3_del_nat_table env ti mem_type c)
        | IPA_IOC_DEL_IPV6CT_TABLE ti \<Rightarrow> efault (ipa3_del_ipv6ct_table env ti c)
        | IPA_IOC_NAT_MODIFY_PDN m \<Rightarrow> efault (ipa3_nat_mdfy_pdn env m c)
        | IPA_IOC_GET_NAT_IN_SRAM_INFO page_size \<Rightarrow> copied_back env (efault (ipa3_nat_get_sram_info page_size c))
        | MMAP_NAT vsize \<Rightarrow> ipa3_nat_mmap env vsize c
        | MMAP_IPV6CT \<Rightarrow> ipa3_ipv6ct_mmap env c)"

end
