(* ===== verification/Ipa_Nat_Drv_Correct.thy ===== *)
theory Ipa_Nat_Drv_Correct
  imports Ipa_Nat_Drv
begin

text \<open>
  What the checks of the driver are worth: whether a process can make the processor write outside the
  memory that was allocated for its connection tracking table.
\<close>

section \<open>What the processor knows\<close>

text \<open>The connection tracking table that the processor was last told of, and where a DMA command goes.\<close>

definition ct_hw :: "imm_cmd list \<Rightarrow> ipahal_imm_cmd_nat_ipv6ct_init_common option" where
  "ct_hw log = fold (\<lambda>x h. case x of IMM_IP_V6_CT_INIT i \<Rightarrow> Some i | _ \<Rightarrow> h) log None"

definition ct_target :: "ipahal_imm_cmd_nat_ipv6ct_init_common \<Rightarrow> ipa_ioc_nat_dma_one \<Rightarrow> nat" where
  "ct_target i d =
     (if base_addr d = dma_type_val IPA_IPV6CT_BASE_TBL then ini_base_table_addr i else ini_expansion_table_addr i)
       + dma_offset d"

definition is_ct_init :: "imm_cmd \<Rightarrow> bool" where
  "is_ct_init x = (case x of IMM_IP_V6_CT_INIT _ \<Rightarrow> True | _ \<Rightarrow> False)"

lemma ct_hw_other [simp]: "list_all (\<lambda>x. \<not> is_ct_init x) xs \<Longrightarrow> ct_hw (log @ xs) = ct_hw log"
proof (induction xs rule: rev_induct)
  case (snoc x xs)
  have "ct_hw (log @ xs @ [x]) = (case x of IMM_IP_V6_CT_INIT i \<Rightarrow> Some i | _ \<Rightarrow> ct_hw (log @ xs))"
    by (cases x) (simp_all add: ct_hw_def)
  then show ?case using snoc by (cases x) (auto simp: is_ct_init_def)
qed simp

lemma ct_hw_init [simp]: "ct_hw (log @ xs @ [IMM_IP_V6_CT_INIT i]) = Some i"
  by (simp add: ct_hw_def)

lemma imm_prefix_other [simp]: "list_all (\<lambda>x. \<not> is_ct_init x) (imm_prefix c)"
  by (simp add: imm_prefix_def is_ct_init_def)

lemma imm_build_Inr: "imm_build env late pre cmds = Inr xs \<Longrightarrow> xs = pre @ cmds"
  by (auto simp: imm_build_def split: if_splits)

lemma send_cases:
  "ipa3_send_cmd env cmds c = (c', r) \<Longrightarrow>
   (\<exists>err. r = Inl err \<and> c' = c) \<or> r = Inr () \<and> c' = c\<lparr>sent := sent c @ cmds\<rparr>"
  by (cases r; cases "send_result env") (simp_all add: ipa3_send_cmd_def)

text \<open>What an initialisation of the connection tracking table is, as a whole.\<close>

lemma ct_send_init_cases:
  assumes "ipa3_ipv6ct_send_init_cmd env i c = (c', r)"
  shows "(\<exists>err. r = Inl err \<and> c' = c) \<or>
    r = Inr () \<and> c' = c\<lparr>sent := sent c @ imm_prefix c @ [IMM_IP_V6_CT_INIT i]\<rparr>"
proof (cases "imm_build env ENOMEM (imm_prefix c) []")
  case (Inr pre)
  then have pre: "pre = imm_prefix c" using imm_build_Inr by fastforce
  show ?thesis
  proof (cases "imm_build env EPERM pre [IMM_IP_V6_CT_INIT i]")
    case b: (Inr cmds)
    then have "cmds = pre @ [IMM_IP_V6_CT_INIT i]" by (rule imm_build_Inr)
    then show ?thesis using assms Inr b pre send_cases [of env cmds c c' r]
      by (auto simp: ipa3_ipv6ct_send_init_cmd_def split: if_splits)
  qed (use assms Inr in \<open>auto simp: ipa3_ipv6ct_send_init_cmd_def split: if_splits\<close>)
qed (use assms in \<open>auto simp: ipa3_ipv6ct_send_init_cmd_def\<close>)

section \<open>The part of the context that matters\<close>

text \<open>What calls for the NAT device leave alone, but for the memory they allocate and free.\<close>

record drv_core =
  k_ct :: ipa3_nat_ipv6ct_common_mem
  k_live :: "nat \<rightharpoonup> nat"
  k_ddr :: "nat option"
  k_ddr_handle :: nat
  k_pdn :: "nat option"
  k_hw :: "ipahal_imm_cmd_nat_ipv6ct_init_common option"

definition core :: "ipa3_ctx \<Rightarrow> drv_core" where
  "core c = \<lparr>k_ct = ipv6ct_dev c, k_live = dma_live c,
             k_ddr = mld_vaddr (mem_loc (nat_mem c) IPA_NAT_MEM_IN_DDR),
             k_ddr_handle = mld_dma_handle (mem_loc (nat_mem c) IPA_NAT_MEM_IN_DDR),
             k_pdn = pdn_base (pdn_mem (nat_mem c)), k_hw = ct_hw (sent c)\<rparr>"

lemma modify_pdn_core:
  "ipa3_nat_create_modify_pdn_cmd z c = (c', r) \<Longrightarrow> core c' = core c \<and> imm_prefix c' = imm_prefix c"
  by (auto simp: ipa3_nat_create_modify_pdn_cmd_def core_def imm_prefix_def Let_def split: option.splits)

lemma nat_send_init_core:
  assumes "ipa3_nat_send_init_cmd env i z c = (c', r)"
  shows "core c' = core c"
proof (cases "imm_build env EPERM (imm_prefix c) [IMM_IP_V4_NAT_INIT i]")
  case (Inr cmds)
  then have cmds: "cmds = imm_prefix c @ [IMM_IP_V4_NAT_INIT i]" by (rule imm_build_Inr)
  have send: "core c'' = core c1" if "ipa3_send_cmd env xs c1 = (c'', r')" "list_all (\<lambda>x. \<not> is_ct_init x) xs"
    for xs c1 c'' r'
    using send_cases [OF that(1)] that(2) by (auto simp: core_def)
  have oth: "list_all (\<lambda>x. \<not> is_ct_init x) cmds" by (simp add: cmds) (simp add: is_ct_init_def)
  show ?thesis
  proof (cases "ipa_hw_type c \<ge> IPA_HW_v4_0 \<and> length cmds < IPA_NAT_MAX_NUM_OF_INIT_CMD_DESC")
    case True
    obtain c1 q where q: "ipa3_nat_create_modify_pdn_cmd z c = (c1, q)" by fastforce
    note k = modify_pdn_core [OF q]
    show ?thesis
    proof (cases q)
      case shm: (Inr shm)
      show ?thesis
      proof (cases "imm_build env ENOMEM cmds [IMM_DMA_SHARED_MEM shm]")
        case b: (Inr cmds')
        have "cmds' = cmds @ [IMM_DMA_SHARED_MEM shm]" using b by (rule imm_build_Inr)
        then have "list_all (\<lambda>x. \<not> is_ct_init x) cmds'" using oth by (simp add: is_ct_init_def)
        then show ?thesis using assms Inr True q shm b k send [of cmds' c1 c' r]
          by (simp add: ipa3_nat_send_init_cmd_def not_le)
      qed (use assms Inr True q shm k in \<open>simp add: ipa3_nat_send_init_cmd_def not_le\<close>)
    qed (use assms Inr True q k in \<open>simp add: ipa3_nat_send_init_cmd_def not_le\<close>)
  next
    case False
    then show ?thesis using assms Inr send [of cmds c c' r] oth
      by (auto simp: ipa3_nat_send_init_cmd_def split: if_splits)
  qed
qed (use assms in \<open>simp add: ipa3_nat_send_init_cmd_def\<close>)

lemma set_loc_core:
  "mld_vaddr m = mld_vaddr (mem_loc nm mt) \<Longrightarrow> mld_dma_handle m = mld_dma_handle (mem_loc nm mt) \<Longrightarrow>
   core (c\<lparr>nat_mem := set_loc mt m nm\<rparr>) = core (c\<lparr>nat_mem := nm\<rparr>)"
  by (simp add: core_def set_loc_def)

lemma core_nat_mem:
  "mem_loc nm' = mem_loc nm \<Longrightarrow> pdn_base (pdn_mem nm') = pdn_base (pdn_mem nm) \<Longrightarrow>
   core (c\<lparr>nat_mem := nm'\<rparr>) = core (c\<lparr>nat_mem := nm\<rparr>)"
  by (simp add: core_def)

lemma core_self [simp]: "core (c\<lparr>nat_mem := nat_mem c\<rparr>) = core c"
  by (simp add: core_def)

lemma nat_init_structure_core:
  assumes "nat_init_device_structure mt i (nat_mem c) = (nm, r)"
  shows "core (c\<lparr>nat_mem := nm\<rparr>) = core c \<and>
    core (c\<lparr>nat_mem := nm\<lparr>public_ip_addr := a, nat_dev := d\<rparr>\<rparr>) = core c"
  using assms
  by (cases mt) (auto simp: nat_init_device_structure_def core_def set_loc_def Let_def split: if_splits)

lemma nat_init_post_core:
  assumes "nat_init_post env cmd mt i c = (c', r)"
  shows "core c' = core c"
proof -
  obtain c2 q where q: "ipa3_nat_send_init_cmd env cmd False c = (c2, q)" by fastforce
  have k: "core c2 = core c" using nat_send_init_core [OF q] by simp
  show ?thesis
  proof (cases q)
    case (Inr u)
    obtain nm w where w: "nat_init_device_structure mt i (nat_mem c2) = (nm, w)" by fastforce
    show ?thesis using assms q Inr nat_init_structure_core [OF w] k w
      by (cases w) (auto simp: nat_init_post_def)
  qed (use assms q k in \<open>simp add: nat_init_post_def\<close>)
qed

lemma core_pdn_entries:
  "core (c\<lparr>nat_mem := (nat_mem c)\<lparr>pdn_mem := (pdn_mem (nat_mem c))\<lparr>pdn_entries := es\<rparr>\<rparr>\<rparr>) = core c"
  by (simp add: core_def)

lemma nat_init_core: "ipa3_nat_init_cmd env i0 c = (c', r) \<Longrightarrow> core c' = core c"
  unfolding ipa3_nat_init_cmd_def Let_def
  by (auto simp: core_pdn_entries dest!: nat_init_post_core split: if_splits option.splits sum.splits)

section \<open>The invariant\<close>

text \<open>
  The device's memory is what its notes say, and it has temporary memory once it is started; a mapping is of memory the device has; and a table that was given
  to the processor lies inside that memory. The NAT device, whose memory the same kernel hands out, has
  other buffers, and so has the temporary memory.
\<close>

definition inside :: "nat \<Rightarrow> nat \<Rightarrow> nat \<Rightarrow> nat \<Rightarrow> bool" where
  "inside a n b sz \<longleftrightarrow> b \<le> a \<and> a + n \<le> b + sz"

definition core_ok :: "drv_core \<Rightarrow> bool" where
  "core_ok k \<longleftrightarrow>
     (\<forall>h. vaddr (k_ct k) = Some h \<longrightarrow> dma_handle (k_ct k) = h \<and> k_live k h = Some (table_alloc_size (k_ct k))) \<and>
     (is_mapped (k_ct k) \<longrightarrow> vaddr (k_ct k) \<noteq> None) \<and>
     (is_hw_init (k_ct k) \<longrightarrow> vaddr (k_ct k) \<noteq> None \<and>
        (\<exists>i. k_hw k = Some i \<and>
           inside (ini_base_table_addr i) (64 * (dev_table_entries (k_ct k) + 1)) (dma_handle (k_ct k))
             (table_alloc_size (k_ct k)) \<and>
           inside (ini_expansion_table_addr i) (64 * dev_expn_table_entries (k_ct k)) (dma_handle (k_ct k))
             (table_alloc_size (k_ct k)))) \<and>
     (\<forall>a. k_ddr k = Some a \<longrightarrow> k_ddr_handle k = a \<and> a \<in> dom (k_live k) \<and> vaddr (k_ct k) \<noteq> Some a) \<and>
     (\<forall>a. k_pdn k = Some a \<longrightarrow> a \<in> dom (k_live k) \<and> vaddr (k_ct k) \<noteq> Some a \<and> k_ddr k \<noteq> Some a) \<and>
     (\<forall>a. tmp_mem (k_ct k) = Some a \<longrightarrow> k_live k a = Some IPA_NAT_IPV6CT_TEMP_MEM_SIZE \<and>
        vaddr (k_ct k) \<noteq> Some a \<and> k_ddr k \<noteq> Some a \<and> k_pdn k \<noteq> Some a) \<and>
     (is_dev_init (k_ct k) \<longrightarrow> tmp_mem (k_ct k) \<noteq> None)"

definition drv_ok :: "ipa3_ctx \<Rightarrow> bool" where
  "drv_ok c \<longleftrightarrow> core_ok (core c)"

text \<open>The kernel hands out memory that is not in use.\<close>

definition fresh_env :: "drv_env \<Rightarrow> ipa3_ctx \<Rightarrow> bool" where
  "fresh_env env c \<longleftrightarrow>
     (\<forall>a. alloc_table env = Some a \<longrightarrow> a \<notin> dom (dma_live c)) \<and>
     (\<forall>a. alloc_pdn env = Some a \<longrightarrow> a \<notin> dom (dma_live c) \<and> alloc_table env \<noteq> Some a)"

text \<open>
  Requests that keep to two rules the driver does not enforce: memory for the connection tracking table is only asked
  for when the device has none, and its size, less one, is not the largest number of 16 bits.
\<close>

definition ct_regular :: "ipa_req \<Rightarrow> ipa3_ctx \<Rightarrow> bool" where
  "ct_regular req c \<longleftrightarrow>
     (case req of
        IPA_IOC_ALLOC_IPV6CT_TABLE _ \<Rightarrow> vaddr (ipv6ct_dev c) = None
      | IPA_IOC_INIT_IPV6CT_TABLE i \<Rightarrow> ini_table_entries i < u16_max \<and> ini_expn_table_entries i < 2 ^ 16
      | _ \<Rightarrow> True)"

lemma check_params_inside:
  assumes "ct_check_params c ofs n = Inr ()" "n < 2 ^ 16"
  shows "inside (dma_handle (ipv6ct_dev c) + ofs) (64 * n) (dma_handle (ipv6ct_dev c)) (table_alloc_size (ipv6ct_dev c))"
  using assms by (auto simp: ct_check_params_def ipa3_nat_ipv6ct_check_table_params_def ipahal_nat_entry_size_def
      inside_def Let_def split: if_splits)

section \<open>Steps of the core\<close>

text \<open>
  What one request can do to the core, as small steps: the tracking table's memory is allocated, mapped,
  given to the processor and freed, and so are the NAT table's and the PDN table's.
\<close>

inductive core_step :: "drv_core \<Rightarrow> drv_core \<Rightarrow> bool" where
  ct_alloc: "core_step k (k\<lparr>k_ct := (k_ct k)\<lparr>table_alloc_size := n, vaddr := Some a, dma_handle := a\<rparr>,
                           k_live := (k_live k)(a \<mapsto> n)\<rparr>)"
    if "vaddr (k_ct k) = None" "a \<notin> dom (k_live k)"
| ct_no_memory: "core_step k (k\<lparr>k_ct := (k_ct k)\<lparr>table_alloc_size := n, vaddr := None\<rparr>\<rparr>)"
    if "vaddr (k_ct k) = None"
| ct_map: "core_step k (k\<lparr>k_ct := (k_ct k)\<lparr>base_address := b, is_mapped := True\<rparr>\<rparr>)"
    if "vaddr (k_ct k) \<noteq> None"
| ct_no_map: "core_step k (k\<lparr>k_ct := (k_ct k)\<lparr>base_address := b\<rparr>\<rparr>)"
| ct_give: "core_step k (k\<lparr>k_ct := (ct_init_device_structure bo xo n m (k_ct k))\<lparr>is_hw_init := True\<rparr>, k_hw := Some i\<rparr>)"
    if "vaddr (k_ct k) \<noteq> None"
      "inside (ini_base_table_addr i) (64 * (n + 1)) (dma_handle (k_ct k)) (table_alloc_size (k_ct k))"
      "inside (ini_expansion_table_addr i) (64 * m) (dma_handle (k_ct k)) (table_alloc_size (k_ct k))"
| ct_take: "core_step k (k\<lparr>k_ct := (k_ct k)\<lparr>vaddr := None, dma_handle := 0, table_alloc_size := 0, base_table_addr := None,
              expansion_table_addr := None, dev_table_entries := 0, dev_expn_table_entries := 0,
              is_hw_init := False, is_mapped := False\<rparr>,
            k_live := (case vaddr (k_ct k) of None \<Rightarrow> k_live k | Some a \<Rightarrow> (k_live k)(a := None)), k_hw := i\<rparr>)"
| ddr_alloc: "core_step k (k\<lparr>k_ddr := Some a, k_ddr_handle := a, k_live := (k_live k)(a \<mapsto> n)\<rparr>)"
    if "a \<notin> dom (k_live k)"
| ddr_forget: "core_step k (k\<lparr>k_ddr := None, k_ddr_handle := h\<rparr>)"
| ddr_free: "core_step k (k\<lparr>k_ddr := None, k_ddr_handle := h, k_live := (k_live k)(a := None)\<rparr>)"
    if "k_ddr k = Some a"
| pdn_alloc: "core_step k (k\<lparr>k_pdn := Some a, k_live := (k_live k)(a \<mapsto> n)\<rparr>)"
    if "a \<notin> dom (k_live k)"
| pdn_free: "core_step k (k\<lparr>k_pdn := None, k_live := (k_live k)(a := None)\<rparr>)"
    if "k_pdn k = Some a"

lemma core_okD:
  assumes "core_ok k"
  shows "vaddr (k_ct k) = Some h \<Longrightarrow> dma_handle (k_ct k) = h \<and> k_live k h = Some (table_alloc_size (k_ct k))"
    and "k_ddr k = Some a \<Longrightarrow> k_ddr_handle k = a \<and> a \<in> dom (k_live k) \<and> vaddr (k_ct k) \<noteq> Some a"
    and "k_pdn k = Some a \<Longrightarrow> a \<in> dom (k_live k) \<and> vaddr (k_ct k) \<noteq> Some a \<and> k_ddr k \<noteq> Some a"
    and "is_hw_init (k_ct k) \<Longrightarrow> vaddr (k_ct k) \<noteq> None" "is_mapped (k_ct k) \<Longrightarrow> vaddr (k_ct k) \<noteq> None"
  using assms by (simp_all add: core_ok_def)

lemma core_step_ok: "core_step k k' \<Longrightarrow> core_ok k \<Longrightarrow> core_ok k'"
proof (induction rule: core_step.induct)
  case (ct_alloc k a n)
  then have "\<not> is_hw_init (k_ct k)" "\<not> is_mapped (k_ct k)" using core_okD by blast+
  then show ?case using ct_alloc unfolding core_ok_def by (auto simp: domIff)
next
  case (ct_no_memory k n)
  then show ?case unfolding core_ok_def by auto
next
  case (ct_map k b)
  then show ?case unfolding core_ok_def by auto
next
  case (ct_no_map k b)
  then show ?case unfolding core_ok_def by auto
next
  case (ct_give k i n m bo xo)
  then show ?case unfolding core_ok_def by (auto simp: ct_init_device_structure_def)
next
  case (ct_take k i)
  then show ?case unfolding core_ok_def by (cases "vaddr (k_ct k)") (auto simp: domIff)
next
  case (ddr_alloc a k n)
  then show ?case unfolding core_ok_def by (auto simp: domIff)
next
  case (ddr_forget k h)
  then show ?case unfolding core_ok_def by auto
next
  case (ddr_free k a h)
  then show ?case unfolding core_ok_def by (auto simp: domIff)
next
  case (pdn_alloc a k n)
  then show ?case unfolding core_ok_def by (auto simp: domIff)
next
  case (pdn_free k a)
  then show ?case unfolding core_ok_def by (auto simp: domIff)
qed

lemma core_steps_ok: "core_step\<^sup>*\<^sup>* k k' \<Longrightarrow> core_ok k \<Longrightarrow> core_ok k'"
  by (induction rule: rtranclp_induct) (auto intro: core_step_ok)

lemma core_sel [simp]:
  "k_ct (core c) = ipv6ct_dev c" "k_live (core c) = dma_live c" "k_pdn (core c) = pdn_base (pdn_mem (nat_mem c))"
  "k_ddr (core c) = mld_vaddr (mem_loc (nat_mem c) IPA_NAT_MEM_IN_DDR)"
  "k_ddr_handle (core c) = mld_dma_handle (mem_loc (nat_mem c) IPA_NAT_MEM_IN_DDR)" "k_hw (core c) = ct_hw (sent c)"
  by (simp_all add: core_def)

lemma core_eqI:
  assumes "ipv6ct_dev c' = k_ct k" "dma_live c' = k_live k"
    "mld_vaddr (mem_loc (nat_mem c') IPA_NAT_MEM_IN_DDR) = k_ddr k"
    "mld_dma_handle (mem_loc (nat_mem c') IPA_NAT_MEM_IN_DDR) = k_ddr_handle k"
    "pdn_base (pdn_mem (nat_mem c')) = k_pdn k" "ct_hw (sent c') = k_hw k"
  shows "core c' = k"
  using assms by (simp add: core_def)

lemma step_to: "core_step (core c) k \<Longrightarrow> core c' = k \<Longrightarrow> core_step\<^sup>*\<^sup>* (core c) (core c')"
  by auto

lemma ct_alloc_steps:
  assumes "ipa3_allocate_ipv6ct_table env n c = (c', r)" "fresh_env env c" "vaddr (ipv6ct_dev c) = None"
  shows "core_step\<^sup>*\<^sup>* (core c) (core c')"
proof -
  have "c' = c \<or> c' = c\<lparr>ipv6ct_dev := (ipv6ct_dev c)\<lparr>table_alloc_size := n, vaddr := None\<rparr>\<rparr> \<or>
    (\<exists>a. alloc_table env = Some a \<and> c' = (dma_alloc_coherent (Some a) n c)
        \<lparr>ipv6ct_dev := (ipv6ct_dev c)\<lparr>table_alloc_size := n, vaddr := Some a, dma_handle := a\<rparr>\<rparr>)"
  proof (cases "ipa_hw_type c < IPA_HW_v4_0 \<or> n = 0 \<or> \<not> is_dev_init (ipv6ct_dev c) \<or>
      n > MAX_ALLOC_NAT_SIZE (ipahal_nat_entry_size IPAHAL_NAT_IPV6CT)")
    case True
    then show ?thesis using assms(1)
      by (elim disjE) (simp_all add: ipa3_allocate_ipv6ct_table_def ipa3_ipv6ct_allocate_mem_def Let_def split: if_split_asm)
  next
    case False
    then show ?thesis using assms(1) by (cases "alloc_table env")
      (simp_all add: ipa3_allocate_ipv6ct_table_def ipa3_ipv6ct_allocate_mem_def Let_def)
  qed
  then show ?thesis
  proof (elim disjE exE conjE)
    assume 2: "c' = c\<lparr>ipv6ct_dev := (ipv6ct_dev c)\<lparr>table_alloc_size := n, vaddr := None\<rparr>\<rparr>"
    show ?thesis
      by (rule step_to [OF core_step.ct_no_memory [where n = n]]) (use 2 assms(3) in \<open>simp_all add: core_def\<close>)
  next
    fix a
    assume 3: "alloc_table env = Some a" "c' = (dma_alloc_coherent (Some a) n c)
        \<lparr>ipv6ct_dev := (ipv6ct_dev c)\<lparr>table_alloc_size := n, vaddr := Some a, dma_handle := a\<rparr>\<rparr>"
    show ?thesis
      by (rule step_to [OF core_step.ct_alloc [where a = a and n = n]])
        (use 3 assms(2,3) in \<open>simp_all add: core_def fresh_env_def dma_alloc_coherent_def\<close>)
  qed simp
qed

lemma ct_mmap_steps:
  assumes "ipa3_ipv6ct_mmap env c = (c', r)"
  shows "core_step\<^sup>*\<^sup>* (core c) (core c')"
proof -
  have "c' = c \<or> c' = c\<lparr>ipv6ct_dev := (ipv6ct_dev c)\<lparr>base_address := None\<rparr>\<rparr> \<or>
    vaddr (ipv6ct_dev c) \<noteq> None \<and>
      c' = c\<lparr>ipv6ct_dev := (ipv6ct_dev c)\<lparr>base_address := vaddr (ipv6ct_dev c), is_mapped := True\<rparr>\<rparr>"
    using assms by (cases "mmap_result env") (auto simp: ipa3_ipv6ct_mmap_def Let_def split: if_splits)
  then show ?thesis
  proof (elim disjE exE conjE)
    assume 2: "c' = c\<lparr>ipv6ct_dev := (ipv6ct_dev c)\<lparr>base_address := None\<rparr>\<rparr>"
    show ?thesis by (rule step_to [OF core_step.ct_no_map [where b = None]]) (use 2 in \<open>simp add: core_def\<close>)
  next
    assume 3: "vaddr (ipv6ct_dev c) \<noteq> None"
      "c' = c\<lparr>ipv6ct_dev := (ipv6ct_dev c)\<lparr>base_address := vaddr (ipv6ct_dev c), is_mapped := True\<rparr>\<rparr>"
    show ?thesis
      by (rule step_to [OF core_step.ct_map [where b = "vaddr (ipv6ct_dev c)"]]) (use 3 in \<open>simp_all add: core_def\<close>)
  qed simp
qed

lemma ct_init_steps:
  assumes run: "ipa3_ipv6ct_init_cmd env i c = (c', r)" and ok: "core_ok (core c)"
    and reg: "ini_table_entries i < u16_max" "ini_expn_table_entries i < 2 ^ 16"
  shows "core_step\<^sup>*\<^sup>* (core c) (core c')"
proof (cases "c' = c")
  case False
  let ?d = "ipv6ct_dev c" and ?bo = "ini_base_table_offset i" and ?xo = "ini_expn_table_offset i"
  let ?n = "ini_table_entries i" and ?m = "ini_expn_table_entries i"
  let ?i = "ipa3_nat_ipv6ct_create_init_cmd False (dma_handle ?d) (ini_tbl_index i) ?bo ?xo ?n ?m"
  have g: "is_mapped ?d" "ct_check_params c ?bo (?n + 1) = Inr ()" "ct_check_params c ?xo ?m = Inr ()"
    using run False by (auto simp: ipa3_ipv6ct_init_cmd_def Let_def split: if_splits sum.splits)
  obtain c1 q where q: "ipa3_ipv6ct_send_init_cmd env ?i c = (c1, q)" by fastforce
  have c': "q = Inr () \<and> c1 = c\<lparr>sent := sent c @ imm_prefix c @ [IMM_IP_V6_CT_INIT ?i]\<rparr>
      \<and> c' = c1\<lparr>ipv6ct_dev := (ct_init_device_structure ?bo ?xo ?n ?m (ipv6ct_dev c1))\<lparr>is_hw_init := True\<rparr>\<rparr>"
    using run False g q ct_send_init_cases [OF q]
    by (auto simp: ipa3_ipv6ct_init_cmd_def Let_def split: if_splits)
  have "?n + 1 < 2 ^ 16" using reg(1) by (simp add: u16_max_def)
  from check_params_inside [OF g(2) this] check_params_inside [OF g(3) reg(2)]
  have ins: "inside (ini_base_table_addr ?i) (64 * (?n + 1)) (dma_handle ?d) (table_alloc_size ?d)"
    "inside (ini_expansion_table_addr ?i) (64 * ?m) (dma_handle ?d) (table_alloc_size ?d)"
    by (simp_all add: ipa3_nat_ipv6ct_create_init_cmd_def)
  show ?thesis
    by (rule step_to [OF core_step.ct_give [where n = ?n and m = ?m and i = ?i and bo = ?bo and xo = ?xo]])
      (use g(1) ok ins core_okD(5) [OF ok] c' in \<open>simp_all add: core_def\<close>)
qed simp

lemma ct_del_steps:
  assumes "ipa3_del_ipv6ct_table env ti c = (c', r)" and ok: "core_ok (core c)"
  shows "core_step\<^sup>*\<^sup>* (core c) (core c')"
proof (cases "c' = c")
  case False
  obtain c1 q where q: "(if is_hw_init (ipv6ct_dev c) then ipa3_ipv6ct_send_del_table_cmd env ti c else (c, Inr ())) = (c1, q)"
    by fastforce
  have c1: "c1 = c \<or> (\<exists>l. c1 = c\<lparr>sent := l\<rparr>)"
    using q by (auto simp: ipa3_ipv6ct_send_del_table_cmd_def split: if_splits sum.splits dest!: ct_send_init_cases)
  have c': "c' = c1 \<and> q \<noteq> Inr () \<or> c' = ct_free_mem c1"
    using assms(1) q False by (cases q) (auto simp: ipa3_del_ipv6ct_table_def split: if_splits)
  then show ?thesis
  proof
    assume "c' = c1 \<and> q \<noteq> Inr ()"
    moreover from this have "c1 = c"
      using q by (auto simp: ipa3_ipv6ct_send_del_table_cmd_def split: if_splits sum.splits dest!: ct_send_init_cases)
    ultimately show ?thesis by simp
  next
    assume c': "c' = ct_free_mem c1"
    have ds: "ipv6ct_dev c1 = ipv6ct_dev c" "dma_live c1 = dma_live c" "nat_mem c1 = nat_mem c" using c1 by auto
    have h: "vaddr (ipv6ct_dev c) = Some h \<Longrightarrow> dma_handle (ipv6ct_dev c) = h" for h
      using core_okD(1) [OF ok] by simp
    show ?thesis
      by (rule step_to [OF core_step.ct_take [where i = "ct_hw (sent c1)"]])
        (use h c' ds in \<open>simp add: ct_free_mem_def core_def dma_free_coherent_def Let_def split: option.split\<close>)
  qed
qed simp

lemma send_other_core:
  assumes "ipa3_send_cmd env xs c = (c', r)" "list_all (\<lambda>x. \<not> is_ct_init x) xs"
  shows "core c' = core c"
  using send_cases [OF assms(1)] assms(2) by (auto simp: core_def)

lemma dma_cmd_cases:
  assumes "ipa3_table_dma_cmd env mt dma c = (c', r)"
  shows "(\<exists>err. r = Inl err \<and> c' = c) \<or>
    r = Inr () \<and> table_dma_check mt dma c = Inr () \<and>
    c' = c\<lparr>sent := sent c @ imm_prefix c @ map (if ipa_hw_type c \<ge> IPA_HW_v4_0 then IMM_TABLE_DMA else IMM_NAT_DMA) dma\<rparr>"
proof (cases "table_dma_check mt dma c")
  case (Inr u)
  let ?cmds = "map (if ipa_hw_type c \<ge> IPA_HW_v4_0 then IMM_TABLE_DMA else IMM_NAT_DMA) dma"
  show ?thesis
  proof (cases "imm_build env ENOMEM (imm_prefix c) ?cmds")
    case b: (Inr cmds)
    have "cmds = imm_prefix c @ ?cmds" using b by (rule imm_build_Inr)
    then show ?thesis using assms Inr b send_cases [of env cmds c c' r]
      by (auto simp: ipa3_table_dma_cmd_def table_dma_send_def)
  qed (use assms Inr in \<open>auto simp: ipa3_table_dma_cmd_def table_dma_send_def\<close>)
next
  case (Inl err)
  then have "c' = c" "r = Inl err" using assms by (simp_all add: ipa3_table_dma_cmd_def)
  then show ?thesis by blast
qed

lemma dma_cmd_core: "ipa3_table_dma_cmd env mt dma c = (c', r) \<Longrightarrow> core c' = core c"
proof -
  have o: "list_all (\<lambda>x. \<not> is_ct_init x) (map (if b then IMM_TABLE_DMA else IMM_NAT_DMA) dma)" for b
    by (simp add: list_all_iff is_ct_init_def)
  assume "ipa3_table_dma_cmd env mt dma c = (c', r)"
  from dma_cmd_cases [OF this] show ?thesis by (auto simp: core_def o)
qed

lemma mdfy_pdn_core:
  assumes "ipa3_nat_mdfy_pdn env m c = (c', r)"
  shows "core c' = core c"
proof -
  have key: "core c'' = core c1"
    if "(case ipa3_nat_create_modify_pdn_cmd False c1 of
           (c2, Inl err) \<Rightarrow> (c2, Inl err)
         | (c2, Inr shm) \<Rightarrow>
             (case imm_build env ENOMEM [] [IMM_DMA_SHARED_MEM shm] of
                Inl err \<Rightarrow> (c2, Inl err)
              | Inr cmds \<Rightarrow> ipa3_send_cmd env cmds c2)) = (c'', r)" for c1 c''
  proof -
    obtain c2 q where q: "ipa3_nat_create_modify_pdn_cmd False c1 = (c2, q)" by fastforce
    note k = modify_pdn_core [OF q]
    show ?thesis
    proof (cases q)
      case (Inr shm)
      show ?thesis
      proof (cases "imm_build env ENOMEM [] [IMM_DMA_SHARED_MEM shm]")
        case b: (Inr cmds)
        have "cmds = [IMM_DMA_SHARED_MEM shm]" using imm_build_Inr [OF b] by simp
        then show ?thesis using that q Inr b k send_other_core [of env cmds c2 c'' r] by (simp add: is_ct_init_def)
      qed (use that q Inr k in simp)
    qed (use that q k in simp)
  qed
  show ?thesis
    using assms unfolding ipa3_nat_mdfy_pdn_def Let_def
    by (auto simp: core_pdn_entries dest!: key split: if_split_asm)
qed

lemma nat_mmap_core: "ipa3_nat_mmap env v c = (c', r) \<Longrightarrow> core c' = core c"
  by (cases "mmap_result env")
    (auto simp: ipa3_nat_mmap_def Let_def core_def set_loc_def split: if_splits)

lemma sram_info_core: "ipa3_nat_get_sram_info pg c = (c', r) \<Longrightarrow> core c' = core c"
  by (auto simp: ipa3_nat_get_sram_info_def Let_def core_def split: if_splits)

text \<open>The allocation for the NAT device.\<close>

lemma nat_allocate_mem_steps:
  assumes run: "ipa3_nat_allocate_mem env n c = (c', r)" and fr: "fresh_env env c"
  shows "core_step\<^sup>*\<^sup>* (core c) (core c') \<and> (\<forall>a. alloc_pdn env = Some a \<longrightarrow> a \<notin> dom (dma_live c')) \<and>
    (last_alloc_loc (nat_mem c') = IPA_NAT_MEM_IN_DDR \<longrightarrow> r = Inr () \<longrightarrow> mld_vaddr (mem_loc (nat_mem c') IPA_NAT_MEM_IN_DDR) =
       Some (mld_dma_handle (mem_loc (nat_mem c') IPA_NAT_MEM_IN_DDR)))"
proof -
  let ?ddr = "mem_loc (nat_mem c) IPA_NAT_MEM_IN_DDR"
  have "core c' = core c \<and> dma_live c' = dma_live c \<and> (r = Inr () \<longrightarrow> last_alloc_loc (nat_mem c') = IPA_NAT_MEM_IN_SRAM) \<or>
    core c' = (core c)\<lparr>k_ddr := None, k_ddr_handle := mld_dma_handle ?ddr\<rparr> \<and> dma_live c' = dma_live c \<and> r \<noteq> Inr () \<or>
    (\<exists>a. alloc_table env = Some a \<and> core c' = (core c)\<lparr>k_ddr := Some a, k_ddr_handle := a, k_live := (dma_live c)(a \<mapsto> n)\<rparr> \<and>
       dma_live c' = (dma_live c)(a \<mapsto> n))"
  proof (cases "n = 0 \<or> \<not> is_dev_init (nat_dev (nat_mem c)) \<or> n > MAX_ALLOC_NAT_SIZE (ipahal_nat_entry_size IPAHAL_NAT_IPV4)")
    case True
    then have "c' = c" "r = Inl EPERM" using run by (auto simp: ipa3_nat_allocate_mem_def Let_def split: if_split_asm)
    then show ?thesis by simp
  next
    case ok: False
    show ?thesis
    proof (cases "sram_compatible c \<and> n \<le> ram_nat_size c")
      case True
      then show ?thesis using run ok
        by (cases "sram_in_use (nat_mem c)"; cases "ioremap_addr env")
          (simp_all add: ipa3_nat_allocate_mem_def Let_def, (auto simp: core_def set_loc_def)+)
    next
      case False
      then have ns: "(sram_compatible c \<and> n \<le> ram_nat_size c) = False" by blast
      show ?thesis
      proof (cases "ddr_in_use (nat_mem c)")
        case True
        then have "c' = c" "r = Inl EPERM" using run ok by (simp_all add: ipa3_nat_allocate_mem_def Let_def ns)
        then show ?thesis by simp
      next
        case False
        note this [simp]
        show ?thesis
        proof (cases "alloc_table env")
          case None
          then have "c' = c\<lparr>nat_mem := set_loc IPA_NAT_MEM_IN_DDR (?ddr\<lparr>mld_table_alloc_size := n, mld_vaddr := None\<rparr>) (nat_mem c)\<rparr>
              \<and> r = Inl ENOMEM"
            using run ok by (simp add: ipa3_nat_allocate_mem_def Let_def ns)
          then show ?thesis by (simp add: core_def set_loc_def)
        next
          case (Some a)
          then have "c' = (dma_alloc_coherent (Some a) n c)\<lparr>nat_mem :=
               (set_loc IPA_NAT_MEM_IN_DDR (?ddr\<lparr>mld_table_alloc_size := n, mld_vaddr := Some a, mld_dma_handle := a\<rparr>) (nat_mem c))
                 \<lparr>ddr_in_use := True, last_alloc_loc := IPA_NAT_MEM_IN_DDR\<rparr>\<rparr>"
            using run ok by (simp add: ipa3_nat_allocate_mem_def Let_def ns)
          then show ?thesis using Some by (simp add: core_def set_loc_def dma_alloc_coherent_def)
        qed
      qed
    qed
  qed
  then show ?thesis
  proof (elim disjE exE conjE)
    fix a
    assume a: "alloc_table env = Some a" and k: "core c' = (core c)\<lparr>k_ddr := Some a, k_ddr_handle := a, k_live := (dma_live c)(a \<mapsto> n)\<rparr>"
      and l: "dma_live c' = (dma_live c)(a \<mapsto> n)"
    have "core_step\<^sup>*\<^sup>* (core c) (core c')"
      by (rule step_to [OF core_step.ddr_alloc [where a = a and n = n]]) (use fr a k in \<open>simp_all add: fresh_env_def\<close>)
    moreover have "k_ddr (core c') = Some a" "k_ddr_handle (core c') = a" by (simp_all add: k)
    ultimately show ?thesis using fr a l by (auto simp: fresh_env_def)
  next
    assume k: "core c' = (core c)\<lparr>k_ddr := None, k_ddr_handle := mld_dma_handle ?ddr\<rparr>" "dma_live c' = dma_live c" "r \<noteq> Inr ()"
    have "core_step\<^sup>*\<^sup>* (core c) (core c')"
      by (rule step_to [OF core_step.ddr_forget]) (use k in simp)
    then show ?thesis using fr k by (auto simp: fresh_env_def)
  qed (use fr in \<open>auto simp: fresh_env_def\<close>)
qed

lemma fail_alloc_pdn_steps:
  assumes "core_ok (core c)"
  shows "core_step\<^sup>*\<^sup>* (core c) (core (fail_alloc_pdn c))"
proof (cases "last_alloc_loc (nat_mem c)")
  case SRAM: IPA_NAT_MEM_IN_SRAM
  then have "core (fail_alloc_pdn c) = core c"
    by (simp add: fail_alloc_pdn_def Let_def core_def set_loc_def split: option.splits)
  then show ?thesis by simp
next
  case DDR: IPA_NAT_MEM_IN_DDR
  show ?thesis
  proof (cases "mld_vaddr (mem_loc (nat_mem c) IPA_NAT_MEM_IN_DDR)")
    case (Some a)
    have "mld_dma_handle (mem_loc (nat_mem c) IPA_NAT_MEM_IN_DDR) = a" using core_okD(2) [OF assms, of a] Some by simp
    then show ?thesis using Some DDR
      by (intro step_to [OF core_step.ddr_free [where a = a and h = a]])
        (simp_all add: fail_alloc_pdn_def Let_def core_def set_loc_def dma_free_coherent_def)
  qed (use DDR in \<open>simp add: fail_alloc_pdn_def Let_def\<close>)
qed

text \<open>The allocation with that of the PDN table.\<close>

lemma nat_alloc_steps:
  assumes run: "ipa3_allocate_nat_table env n c = (c', r)" and fr: "fresh_env env c" and ok: "core_ok (core c)"
  shows "core_step\<^sup>*\<^sup>* (core c) (core c')"
proof -
  obtain c1 q where q: "ipa3_nat_allocate_mem env n c = (c1, q)" by fastforce
  note s1 = nat_allocate_mem_steps [OF q fr]
  then have ok1: "core_ok (core c1)" using core_steps_ok ok by blast
  let ?pdn = "ipa_hw_type c1 \<ge> IPA_HW_v4_0 \<and> pdn_base (pdn_mem (nat_mem c1)) = None"
  show ?thesis
  proof (cases "q = Inr () \<and> ?pdn")
    case False
    then have "c' = c1" using run q by (auto simp: ipa3_allocate_nat_table_def split: sum.splits)
    then show ?thesis using s1 by simp
  next
    case True
    let ?sz = "ipahal_nat_entry_size IPAHAL_NAT_IPV4_PDN * ipa3_get_max_pdn c1"
    let ?c2 = "c1\<lparr>nat_mem := (nat_mem c1)\<lparr>pdn_mem := (pdn_mem (nat_mem c1))\<lparr>pdn_size := ?sz\<rparr>\<rparr>\<rparr>"
    have k2: "core ?c2 = core c1" by (simp add: core_def)
    show ?thesis
    proof (cases "pdn_config_size c1 < ?sz \<or> alloc_pdn env = None")
      case f: True
      then have "c' = fail_alloc_pdn ?c2"
        using run q True by (auto simp: ipa3_allocate_nat_table_def Let_def split: option.splits)
      then show ?thesis using fail_alloc_pdn_steps [of ?c2] s1 ok1 k2 by (metis rtranclp_trans)
    next
      case False
      then obtain a where a: "alloc_pdn env = Some a" by auto
      have "core c' = (core c1)\<lparr>k_pdn := Some a, k_live := (k_live (core c1))(a \<mapsto> ?sz)\<rparr>"
        using run q True a False
        by (auto simp: ipa3_allocate_nat_table_def Let_def core_def dma_alloc_coherent_def)
      then have "core_step\<^sup>*\<^sup>* (core c1) (core c')"
        by (intro step_to [OF core_step.pdn_alloc [where a = a and n = ?sz]]) (use s1 a in simp_all)
      then show ?thesis using s1 by (meson rtranclp_trans)
    qed
  qed
qed

lemma nat_free_steps:
  assumes "core_ok (core c)"
  shows "core_step\<^sup>*\<^sup>* (core c) (core (nat_free_mem c))"
proof (cases "ddr_in_use (nat_mem c) \<and> mld_vaddr (mem_loc (nat_mem c) IPA_NAT_MEM_IN_DDR) \<noteq> None")
  case True
  then obtain a where a: "mld_vaddr (mem_loc (nat_mem c) IPA_NAT_MEM_IN_DDR) = Some a" by auto
  have "mld_dma_handle (mem_loc (nat_mem c) IPA_NAT_MEM_IN_DDR) = a" using core_okD(2) [OF assms, of a] a by simp
  then show ?thesis using True a
    by (intro step_to [OF core_step.ddr_free [where a = a and h = 0]])
      (simp_all add: nat_free_mem_def Let_def core_def dma_free_coherent_def mld_zero_def)
next
  case False
  then have "core (nat_free_mem c) = (core c)\<lparr>k_ddr := None, k_ddr_handle := 0\<rparr>"
    by (auto simp: nat_free_mem_def Let_def core_def mld_zero_def)
  then show ?thesis using step_to [OF core_step.ddr_forget [where h = 0]] by blast
qed

lemma nat_del_steps:
  assumes run: "ipa3_del_nat_table env ti mt c = (c', r)" and ok: "core_ok (core c)"
  shows "core_step\<^sup>*\<^sup>* (core c) (core c')"
proof (cases "c' = c")
  case False
  obtain c1 q where q: "(if is_hw_init (nat_dev (nat_mem c)) then ipa3_nat_send_del_table_cmd env ti c else (c, Inr ())) = (c1, q)"
    by fastforce
  have k1: "core c1 = core c"
    using q by (auto simp: ipa3_nat_send_del_table_cmd_def dest!: nat_send_init_core split: if_splits sum.splits)
  let ?nm = "nat_mem c1" and ?buf = "pdn_mem (nat_mem c1)"
  let ?f = "ipa_hw_type c1 \<ge> IPA_HW_v4_0 \<and> pdn_base ?buf \<noteq> None"
  let ?c2 = "(if ?f then dma_free_coherent (the (pdn_base ?buf)) c1 else c1)
      \<lparr>nat_mem := ?nm\<lparr>public_ip_addr := 0, pdn_mem := (if ?f then ?buf\<lparr>pdn_base := None\<rparr> else ?buf)\<rparr>\<rparr>"
  have "q \<noteq> Inr () \<and> c' = c1 \<or> c' = nat_free_mem ?c2"
    using run q False
    by (cases q) (auto simp: ipa3_del_nat_table_def Let_def split: if_split_asm option.splits)
  then show ?thesis
  proof (elim disjE conjE)
    assume c': "c' = nat_free_mem ?c2"
    have s2: "core_step\<^sup>*\<^sup>* (core c1) (core ?c2)"
    proof (cases ?f)
      case True
      then obtain a where a: "pdn_base ?buf = Some a" by auto
      show ?thesis
        by (rule step_to [OF core_step.pdn_free [where a = a]]) (use True a in \<open>simp_all add: core_def dma_free_coherent_def\<close>)
    next
      case False
      then show ?thesis by (auto simp: core_def)
    qed
    then have "core_ok (core ?c2)" using core_steps_ok ok k1 by metis
    from nat_free_steps [OF this] show ?thesis using s2 k1 c' by (metis rtranclp_trans)
  qed (use k1 in simp)
qed simp

section \<open>Requests\<close>

lemma efaultD: "efault x = (c', r) \<Longrightarrow> \<exists>r'. x = (c', r')"
  by (cases x) (auto simp: efault_def)

lemma copied_backD: "copied_back env x = (c', r) \<Longrightarrow> \<exists>r'. x = (c', r')"
  by (cases x) (auto simp: copied_back_def)

lemma ioctl_steps:
  assumes run: "ipa3_ioctl env copied req c = (c', r)" and ok: "core_ok (core c)"
    and fr: "fresh_env env c" and reg: "ct_regular req c"
  shows "core_step\<^sup>*\<^sup>* (core c) (core c')"
proof (cases "copied \<or> no_copy_in req")
  case True
  show ?thesis
  proof (cases req)
    case (IPA_IOC_ALLOC_NAT_MEM n)
    then show ?thesis using run True nat_alloc_steps fr ok
      by (auto simp: ipa3_ioctl_def ipa3_allocate_nat_device_def dest!: copied_backD efaultD)
  next
    case (IPA_IOC_ALLOC_NAT_TABLE n)
    then show ?thesis using run True nat_alloc_steps fr ok by (auto simp: ipa3_ioctl_def dest!: copied_backD efaultD)
  next
    case (IPA_IOC_ALLOC_IPV6CT_TABLE n)
    then show ?thesis using run True ct_alloc_steps fr reg by (auto simp: ipa3_ioctl_def ct_regular_def dest!: copied_backD efaultD)
  next
    case (IPA_IOC_V4_INIT_NAT i)
    then show ?thesis using run True nat_init_core by (fastforce simp: ipa3_ioctl_def dest!: copied_backD efaultD)
  next
    case (IPA_IOC_INIT_IPV6CT_TABLE i)
    then show ?thesis using run True ct_init_steps ok reg by (auto simp: ipa3_ioctl_def ct_regular_def dest!: copied_backD efaultD)
  next
    case (IPA_IOC_TABLE_DMA_CMD k mt dma)
    then have "c' = c \<or> (\<exists>r'. ipa3_table_dma_cmd env mt dma c = (c', r'))"
      using run True by (auto simp: ipa3_ioctl_def dest!: copied_backD efaultD split: if_splits)
    then have "core c' = core c" using dma_cmd_core by auto
    then show ?thesis by simp
  next
    case (IPA_IOC_V4_DEL_NAT b ti)
    then show ?thesis using run True nat_del_steps ok by (auto simp: ipa3_ioctl_def ipa3_nat_del_cmd_def dest!: copied_backD efaultD)
  next
    case (IPA_IOC_DEL_NAT_TABLE mt ti)
    then show ?thesis using run True nat_del_steps ok by (auto simp: ipa3_ioctl_def dest!: copied_backD efaultD)
  next
    case (IPA_IOC_DEL_IPV6CT_TABLE ti)
    then show ?thesis using run True ct_del_steps ok by (auto simp: ipa3_ioctl_def dest!: copied_backD efaultD)
  next
    case (IPA_IOC_NAT_MODIFY_PDN m)
    then show ?thesis using run True mdfy_pdn_core by (fastforce simp: ipa3_ioctl_def dest!: copied_backD efaultD)
  next
    case (IPA_IOC_GET_NAT_IN_SRAM_INFO pg)
    then show ?thesis using run True sram_info_core by (fastforce simp: ipa3_ioctl_def dest!: copied_backD efaultD)
  next
    case (MMAP_NAT v)
    then have "core c' = core c" using run True nat_mmap_core by (auto simp: ipa3_ioctl_def)
    then show ?thesis by simp
  next
    case MMAP_IPV6CT
    then show ?thesis using run True ct_mmap_steps by (auto simp: ipa3_ioctl_def)
  qed
qed (use run in \<open>simp add: ipa3_ioctl_def\<close>)

end
