(* ===== verification/Ipa_Nat_Drv_Props.thy ===== *)
theory Ipa_Nat_Drv_Props
  imports Ipa_Nat_Drv_Correct
begin

text \<open>
  The contexts the driver reaches, and what its checks guarantee in them: a DMA command for the connection
  tracking table that is accepted stays inside the table's memory, as long as processes keep to the two
  rules of \<open>ct_regular\<close>; and what goes wrong otherwise.
\<close>

section \<open>Reachable contexts\<close>

text \<open>The context before the devices are started.\<close>

definition drv_blank :: "ipa3_ctx \<Rightarrow> bool" where
  "drv_blank c \<longleftrightarrow>
     (\<forall>d \<in> {ipv6ct_dev c, nat_dev (nat_mem c)}. dev_objects d = {} \<and> \<not> is_dev_init d \<and> \<not> is_hw_init d \<and> \<not> is_mapped d \<and>
        vaddr d = None \<and> tmp_mem d = None) \<and>
     mem_loc (nat_mem c) = (\<lambda>_. mld_zero) \<and> pdn_base (pdn_mem (nat_mem c)) = None \<and>
     \<not> is_tmp_mem_allocated (nat_mem c)"

definition fresh_tmp :: "dev_env \<Rightarrow> ipa3_ctx \<Rightarrow> bool" where
  "fresh_tmp de c \<longleftrightarrow> (\<forall>a. alloc_tmp de = Some a \<longrightarrow> a \<notin> dom (dma_live c))"

inductive drv_reach :: "ipa3_ctx \<Rightarrow> bool" where
  start: "drv_blank c \<Longrightarrow> fresh_tmp de c \<Longrightarrow> ipa3_nat_ipv6ct_init_devices de c = (c', Inr ()) \<Longrightarrow> drv_reach c'"
| request: "drv_reach c \<Longrightarrow> fresh_env env c \<Longrightarrow> ct_regular req c \<Longrightarrow>
    ipa3_ioctl env copied req c = (c', r) \<Longrightarrow> drv_reach c'"

lemmas init_device_defs = ipa3_nat_ipv6ct_init_device_def hold_def drop_obj_def Let_def

lemma init_device_cases:
  assumes "ipa3_nat_ipv6ct_init_device de b sz t dev = (dev', r)" "dev_objects dev = {}"
  shows "(r = Inl ENODEV \<and> (\<exists>x. \<not> object_ok de b x) \<and> dev_objects dev' = {} \<and> tmp_mem dev' = tmp_mem dev) \<or>
    (r = Inr () \<and> (\<forall>x. object_ok de b x) \<and> tmp_mem dev' = Some t \<and> is_dev_init dev')"
proof (cases "\<forall>x. object_ok de b x")
  case True
  then show ?thesis using assms by (auto simp: init_device_defs)
next
  case False
  then obtain x where "\<not> object_ok de b x" by blast
  then show ?thesis using assms by (cases x) (auto simp: init_device_defs split: if_splits)
qed

lemma init_device_rest:
  assumes "ipa3_nat_ipv6ct_init_device de b sz t dev = (dev', r)"
  shows "is_hw_init dev' = is_hw_init dev \<and> is_mapped dev' = is_mapped dev \<and> vaddr dev' = vaddr dev"
  using assms by (auto simp: init_device_defs split: if_splits)

lemma init_device_failed:
  "ipa3_nat_ipv6ct_init_device de b sz t dev = (dev', r) \<Longrightarrow> r \<noteq> Inr () \<Longrightarrow> is_dev_init dev' = is_dev_init dev"
  by (auto simp: init_device_defs split: if_splits)

lemma init_device_held:
  "ipa3_nat_ipv6ct_init_device de b sz t dev = (dev', r) \<Longrightarrow> r = Inr () \<Longrightarrow> dev_objects dev = {} \<Longrightarrow>
   dev_objects dev' = {DEV_CLASS, DEV_REGION, DEV_DEVICE, DEV_CDEV}"
  by (auto simp: init_device_defs split: if_splits)

text \<open>A start that succeeds.\<close>

lemma init_devices_ok:
  assumes b: "drv_blank c" and f: "fresh_tmp de c" and run: "ipa3_nat_ipv6ct_init_devices de c = (c', Inr ())"
  shows "drv_ok c'"
proof -
  obtain a where a: "alloc_tmp de = Some a" "kzalloc_ok de"
    using run by (cases "alloc_tmp de")
      (auto simp: ipa3_nat_ipv6ct_init_devices_def ipa3_nat_ipv6ct_allocate_tmp_memory_def dma_alloc_coherent_def split: if_splits)
  let ?live = "(dma_live c)(a \<mapsto> IPA_NAT_IPV6CT_TEMP_MEM_SIZE)"
  let ?c2 = "(dma_alloc_coherent (Some a) IPA_NAT_IPV6CT_TEMP_MEM_SIZE c)\<lparr>nat_mem := (nat_mem c)\<lparr>is_tmp_mem_allocated := True\<rparr>\<rparr>"
  obtain nd q where nd: "ipa3_nat_ipv6ct_init_device de False (ram_nat_size c) a (nat_dev (nat_mem c)) = (nd, q)" by fastforce
  obtain cd q' where cd: "ipa3_nat_ipv6ct_init_device de True IPA_RAM_IPV6CT_SIZE a (ipv6ct_dev c) = (cd, q')" by fastforce
  have "c' = ?c2\<lparr>nat_mem := (nat_mem ?c2)\<lparr>nat_dev := nd\<rparr>\<rparr> \<or>
      c' = ?c2\<lparr>nat_mem := (nat_mem ?c2)\<lparr>nat_dev := nd\<rparr>, ipv6ct_dev := cd\<rparr> \<and> q' = Inr ()"
    using run a nd cd
    by (auto simp: ipa3_nat_ipv6ct_init_devices_def ipa3_nat_ipv6ct_allocate_tmp_memory_def dma_alloc_coherent_def Let_def
        split: sum.splits if_splits)
  then show ?thesis
    using b f a(1) init_device_rest [OF cd] init_device_cases [OF cd]
    unfolding drv_ok_def core_ok_def drv_blank_def fresh_tmp_def
    by (auto simp: core_def dma_alloc_coherent_def mld_zero_def)
qed

lemma drv_reach_ok: "drv_reach c \<Longrightarrow> drv_ok c"
proof (induction rule: drv_reach.induct)
  case (request c env req copied c' r)
  then show ?case using ioctl_steps core_steps_ok unfolding drv_ok_def by blast
qed (rule init_devices_ok)

section \<open>Checks\<close>

lemma check_dma_one:
  assumes "table_dma_check mt dma c = Inr ()" "d \<in> set dma"
  obtains m where "mem_in_of (if sram_compatible c then mt else 0) = Some m"
    "ipa3_table_validate_table_dma_one m d c = Inr ()"
  using assms by (auto simp: table_dma_check_def Let_def list_all_iff split: if_splits option.splits)

lemma validate_ct:
  assumes "ipa3_table_validate_table_dma_one m d c = Inr ()" "base_addr d \<in> {4, 5}"
  shows "is_hw_init (ipv6ct_dev c) \<and> IPA_HW_v4_0 \<le> ipa_hw_type c \<and>
    dma_offset d < 64 * (if base_addr d = 4 then dev_table_entries (ipv6ct_dev c) + 1 else dev_expn_table_entries (ipv6ct_dev c))"
  using assms by (auto simp: ipa3_table_validate_table_dma_one_def ipa3_nat_ipv6ct_calculate_table_size_def
      ipahal_nat_entry_size_def Let_def split: if_splits)

lemma even_room: "a < 64 * k \<Longrightarrow> a + (if even a then 2 else 1) \<le> 64 * (k :: nat)"
  by presburger

text \<open>
  C3: In every context the driver reaches by requests that keep to the two rules of \<open>ct_regular\<close>, whatever
  the kernel's allocations and the sending of commands come to, a command for the connection tracking
  tables that the driver sends to the processor goes into a live buffer of DMA memory, at an
  address that is inside it; an even offset has the whole of its two bytes there.
\<close>

theorem drv_ct_dma_inside:
  assumes "drv_reach c" "ipa3_table_dma_cmd env mt dma c = (c', Inr ())" "d \<in> set dma"
    and "base_addr d = dma_type_val IPA_IPV6CT_BASE_TBL \<or> base_addr d = dma_type_val IPA_IPV6CT_EXPN_TBL"
  shows "\<exists>i h n. ct_hw (sent c) = Some i \<and> dma_live c h = Some n \<and> h \<le> ct_target i d \<and>
    ct_target i d + (if even (dma_offset d) then 2 else 1) \<le> h + n"
proof -
  let ?v = "ipv6ct_dev c"
  have b: "base_addr d \<in> {4, 5}" using assms(4) by simp
  from dma_cmd_cases [OF assms(2)] have "table_dma_check mt dma c = Inr ()" by auto
  from check_dma_one [OF this assms(3)] obtain m where "ipa3_table_validate_table_dma_one m d c = Inr ()" by blast
  from validate_ct [OF this b] have v: "is_hw_init ?v"
    "dma_offset d < 64 * (if base_addr d = 4 then dev_table_entries ?v + 1 else dev_expn_table_entries ?v)" by blast+
  have ok: "core_ok (core c)" using drv_reach_ok [OF assms(1)] by (simp add: drv_ok_def)
  then obtain i where i: "ct_hw (sent c) = Some i"
    "inside (ini_base_table_addr i) (64 * (dev_table_entries ?v + 1)) (dma_handle ?v) (table_alloc_size ?v)"
    "inside (ini_expansion_table_addr i) (64 * dev_expn_table_entries ?v) (dma_handle ?v) (table_alloc_size ?v)"
    using v(1) by (auto simp: core_ok_def)
  obtain h where h: "vaddr ?v = Some h" using core_okD(4) [OF ok] v(1) by auto
  have l: "dma_handle ?v = h" "dma_live c h = Some (table_alloc_size ?v)" using core_okD(1) [OF ok, of h] h by simp_all
  have "dma_offset d + (if even (dma_offset d) then 2 else 1)
      \<le> 64 * (if base_addr d = 4 then dev_table_entries ?v + 1 else dev_expn_table_entries ?v)"
    using v(2) by (rule even_room)
  then show ?thesis using i l b
    by (intro exI [of _ i] exI [of _ h] exI [of _ "table_alloc_size ?v"]) (auto simp: inside_def ct_target_def)
qed

section \<open>The start\<close>

text \<open>
  C30: A start that fails frees the temporary memory and gives back every object of both devices, but one:
  when all of the NAT device could be had and the tracking device could not, the NAT device's character
  device stays registered with the kernel.
\<close>

theorem drv_failed_start_undone:
  assumes "drv_blank c" "fresh_tmp de c" "ipa3_nat_ipv6ct_init_devices de c = (c', Inl err)"
  shows "dma_live c' = dma_live c \<and> \<not> is_tmp_mem_allocated (nat_mem c') \<and>
    \<not> is_dev_init (nat_dev (nat_mem c')) \<and> \<not> is_dev_init (ipv6ct_dev c') \<and> dev_objects (ipv6ct_dev c') = {} \<and>
    dev_objects (nat_dev (nat_mem c')) =
      (if kzalloc_ok de \<and> alloc_tmp de \<noteq> None \<and> (\<forall>x. object_ok de False x) then {DEV_CDEV} else {})"
proof (cases "kzalloc_ok de \<and> alloc_tmp de \<noteq> None")
  case False
  then have "ipa3_nat_ipv6ct_allocate_tmp_memory de c = (c, None)"
    by (auto simp: ipa3_nat_ipv6ct_allocate_tmp_memory_def dma_alloc_coherent_def)
  then have "c' = c" using assms(3) by (simp add: ipa3_nat_ipv6ct_init_devices_def)
  then show ?thesis using False assms(1) by (auto simp: drv_blank_def)
next
  case True
  then obtain a where a: "alloc_tmp de = Some a" "kzalloc_ok de" by auto
  have n: "dma_live c a = None" using assms(2) a by (auto simp: fresh_tmp_def)
  obtain nd q where nd: "ipa3_nat_ipv6ct_init_device de False (ram_nat_size c) a (nat_dev (nat_mem c)) = (nd, q)" by fastforce
  obtain cd q' where cd: "ipa3_nat_ipv6ct_init_device de True IPA_RAM_IPV6CT_SIZE a (ipv6ct_dev c) = (cd, q')" by fastforce
  have b: "dev_objects (nat_dev (nat_mem c)) = {}" "tmp_mem (nat_dev (nat_mem c)) = None" "\<not> is_dev_init (nat_dev (nat_mem c))"
    "dev_objects (ipv6ct_dev c) = {}" "\<not> is_dev_init (ipv6ct_dev c)"
    using assms(1) by (simp_all add: drv_blank_def)
  have nc: "(q = Inl ENODEV \<and> (\<exists>x. \<not> object_ok de False x) \<and> dev_objects nd = {} \<and> tmp_mem nd = None \<and> \<not> is_dev_init nd) \<or>
      (q = Inr () \<and> (\<forall>x. object_ok de False x) \<and> tmp_mem nd = Some a \<and> dev_objects nd = {DEV_CLASS, DEV_REGION, DEV_DEVICE, DEV_CDEV})"
    using init_device_cases [OF nd b(1)]
  proof
    assume r: "q = Inl ENODEV \<and> (\<exists>x. \<not> object_ok de False x) \<and> dev_objects nd = {} \<and> tmp_mem nd = tmp_mem (nat_dev (nat_mem c))"
    then show ?thesis using init_device_failed [OF nd] b by simp
  next
    assume "q = Inr () \<and> (\<forall>x. object_ok de False x) \<and> tmp_mem nd = Some a \<and> is_dev_init nd"
    then show ?thesis using init_device_held [OF nd _ b(1)] by simp
  qed
  have cc: "q' = Inl ENODEV \<and> dev_objects cd = {} \<and> \<not> is_dev_init cd \<or> q' = Inr ()"
    using init_device_cases [OF cd b(4)] init_device_failed [OF cd] b(5) by auto
  note run = assms(3) [unfolded ipa3_nat_ipv6ct_init_devices_def ipa3_nat_ipv6ct_allocate_tmp_memory_def]
  from nc show ?thesis
  proof (elim disjE conjE)
    assume q: "q = Inl ENODEV" "dev_objects nd = {}" "\<not> is_dev_init nd" and x: "\<exists>x. \<not> object_ok de False x"
    have "c' = (dma_free_coherent a (dma_alloc_coherent (Some a) IPA_NAT_IPV6CT_TEMP_MEM_SIZE c))
        \<lparr>nat_mem := (nat_mem c)\<lparr>nat_dev := nd, is_tmp_mem_allocated := False\<rparr>\<rparr>"
      using run a nd q(1) by (simp add: dma_alloc_coherent_def dma_free_coherent_def free_tmp_def Let_def)
    then show ?thesis using q x a n b by (auto simp: dma_alloc_coherent_def dma_free_coherent_def)
  next
    assume q: "q = Inr ()" "tmp_mem nd = Some a" "dev_objects nd = {DEV_CLASS, DEV_REGION, DEV_DEVICE, DEV_CDEV}"
      and x: "\<forall>x. object_ok de False x"
    have q': "q' = Inl ENODEV" "ipa_hw_type c \<ge> IPA_HW_v4_0"
      using run a nd cd q(1) cc by (auto simp: dma_alloc_coherent_def Let_def split: if_splits)
    then have "c' = c\<lparr>ipv6ct_dev := cd, dma_live := (dma_live c)(a := None),
        nat_mem := (nat_mem c)\<lparr>is_tmp_mem_allocated := False, nat_dev := destroy_dev nd\<rparr>\<rparr>"
      using run a nd cd q
      by (simp add: dma_alloc_coherent_def dma_free_coherent_def free_tmp_def nat_destroy_device_def Let_def)
    then show ?thesis using q q' x a n b cc
      by (auto simp: dma_alloc_coherent_def dma_free_coherent_def destroy_dev_def drop_obj_def)
  qed
qed

section \<open>Faults\<close>

text \<open>An environment in which the kernel refuses nothing.\<close>

definition willing :: "drv_env \<Rightarrow> bool" where
  "willing env \<longleftrightarrow> (\<forall>k. imm_built env k) \<and> send_result env = Inr () \<and> mmap_result env = Inr () \<and> copy_back_ok env"

lemma willing_build: "willing env \<Longrightarrow> imm_build env e pre cmds = Inr (pre @ cmds)"
  by (simp add: willing_def imm_build_def)

lemma willing_ct_init:
  "willing env \<Longrightarrow>
   ipa3_ipv6ct_send_init_cmd env i c = (c\<lparr>sent := sent c @ imm_prefix c @ [IMM_IP_V6_CT_INIT i]\<rparr>, Inr ())"
  by (simp add: ipa3_ipv6ct_send_init_cmd_def willing_build ipa3_send_cmd_def)
    (simp add: willing_def imm_prefix_def IPA_IPV6CT_MAX_NUM_OF_INIT_CMD_DESC_def)

lemma willing_dma:
  "willing env \<Longrightarrow> table_dma_send env dma c =
    (c\<lparr>sent := sent c @ imm_prefix c @ map (if ipa_hw_type c \<ge> IPA_HW_v4_0 then IMM_TABLE_DMA else IMM_NAT_DMA) dma\<rparr>, Inr ())"
  by (simp add: table_dma_send_def willing_build ipa3_send_cmd_def) (simp add: willing_def)

lemma max_cmds: "1 < IPA_MAX_NUM_OF_TABLE_DMA_CMD_DESC - (if b then 1 else 0) - 1"
  by (simp add: IPA_MAX_NUM_OF_TABLE_DMA_CMD_DESC_def)

text \<open>
  C23: The number of entries is a sixteen bit number, and one is added to it before the size is checked. A
  process with any memory mapped for its tracking table can initialise with 65535 entries: the checks see a
  table of size 0. From then on the driver takes commands at every offset below 4 MB, whatever size
  the memory has.
\<close>

theorem drv_ct_init_wraps:
  assumes dev: "is_mapped (ipv6ct_dev c)" "is_dev_init (nat_dev (nat_mem c))" "ipa_hw_type c \<ge> IPA_HW_v4_0"
    and env: "willing env"
  shows "\<exists>c'. ipa3_ipv6ct_init_cmd env
        \<lparr>ini_base_table_offset = 0, ini_expn_table_offset = 0, ini_table_entries = u16_max, ini_expn_table_entries = 0,
         ini_tbl_index = 0\<rparr> c = (c', Inr ()) \<and>
      dma_live c' = dma_live c \<and> table_alloc_size (ipv6ct_dev c') = table_alloc_size (ipv6ct_dev c) \<and>
      (\<exists>i. ct_hw (sent c') = Some i \<and> ini_base_table_addr i = dma_handle (ipv6ct_dev c)) \<and>
      (\<forall>ofs < 2 ^ 22. snd (ipa3_table_dma_cmd env 0 [\<lparr>table_index = 0, base_addr = dma_type_val IPA_IPV6CT_BASE_TBL,
         dma_offset = ofs, dma_data = 0\<rparr>] c') = Inr ())"
proof -
  let ?v = "ipv6ct_dev c"
  let ?i = "ipa3_nat_ipv6ct_create_init_cmd False (dma_handle ?v) 0 0 0 u16_max 0"
  let ?c1 = "c\<lparr>sent := sent c @ imm_prefix c @ [IMM_IP_V6_CT_INIT ?i]\<rparr>"
  let ?c' = "?c1\<lparr>ipv6ct_dev := (ct_init_device_structure 0 0 u16_max 0 ?v)\<lparr>is_hw_init := True\<rparr>\<rparr>"
  have chk: "ct_check_params c 0 (u16_max + 1) = Inr ()" "ct_check_params c 0 0 = Inr ()"
    by (simp_all add: ct_check_params_def ipa3_nat_ipv6ct_check_table_params_def u16_max_def)
  have "ipa3_ipv6ct_init_cmd env
      \<lparr>ini_base_table_offset = 0, ini_expn_table_offset = 0, ini_table_entries = u16_max, ini_expn_table_entries = 0,
       ini_tbl_index = 0\<rparr> c = (?c', Inr ())"
    using dev chk willing_ct_init [OF env, of ?i c]
    by (simp add: ipa3_ipv6ct_init_cmd_def Let_def IPA_VALID_TBL_INDEX_def) (simp add: u16_max_def)
  moreover have "snd (ipa3_table_dma_cmd env 0 [\<lparr>table_index = 0, base_addr = dma_type_val IPA_IPV6CT_BASE_TBL,
         dma_offset = ofs, dma_data = 0\<rparr>] ?c') = Inr ()" if "ofs < 2 ^ 22" for ofs
  proof -
    have "table_dma_check 0 [\<lparr>table_index = 0, base_addr = dma_type_val IPA_IPV6CT_BASE_TBL, dma_offset = ofs, dma_data = 0\<rparr>] ?c'
        = Inr ()"
      using dev that max_cmds [of "coal_mapped c"]
      by (simp add: table_dma_check_def Let_def ipa3_table_validate_table_dma_one_def ct_init_device_structure_def
          ipa3_nat_ipv6ct_calculate_table_size_def ipahal_nat_entry_size_def u16_max_def)
    then show ?thesis using willing_dma [OF env] by (simp add: ipa3_table_dma_cmd_def)
  qed
  ultimately show ?thesis
    by (intro exI [of _ ?c'] conjI exI [of _ ?i])
      (simp_all add: ct_init_device_structure_def ipa3_nat_ipv6ct_create_init_cmd_def)
qed

text \<open>What is left of a deletion: the processor has the temporary memory in the place of both tables.\<close>

lemma ct_del_told:
  assumes ok: "drv_ok c" and hw: "is_hw_init (ipv6ct_dev c)"
    and run: "ipa3_del_ipv6ct_table env ti c = (c', Inr ())"
  obtains t i where "tmp_mem (ipv6ct_dev c) = Some t" "ct_hw (sent c') = Some i" "ini_base_table_addr i = t"
    "ini_expansion_table_addr i = t" "dma_live c' t = Some IPA_NAT_IPV6CT_TEMP_MEM_SIZE" "ipa_hw_type c' = ipa_hw_type c"
proof -
  have k: "core_ok (core c)" using ok by (simp add: drv_ok_def)
  have "is_dev_init (ipv6ct_dev c)" using run by (auto simp: ipa3_del_ipv6ct_table_def split: if_splits)
  then obtain t where t: "tmp_mem (ipv6ct_dev c) = Some t" using k by (auto simp: core_ok_def)
  then have l: "dma_live c t = Some IPA_NAT_IPV6CT_TEMP_MEM_SIZE" "vaddr (ipv6ct_dev c) \<noteq> Some t"
    using k by (auto simp: core_ok_def)
  obtain c1 q where q: "ipa3_ipv6ct_send_del_table_cmd env ti c = (c1, q)" by fastforce
  have c': "q = Inr ()" "c' = ct_free_mem c1"
    using run hw q by (cases q; auto simp: ipa3_del_ipv6ct_table_def split: if_splits)+
  then obtain i where i: "c1 = c\<lparr>sent := sent c @ imm_prefix c @ [IMM_IP_V6_CT_INIT i]\<rparr>"
      "ini_base_table_addr i = t" "ini_expansion_table_addr i = t"
    using q t by (auto simp: ipa3_ipv6ct_send_del_table_cmd_def ipa3_nat_ipv6ct_create_del_table_cmd_def
        split: if_splits dest!: ct_send_init_cases)
  have "h = dma_handle (ipv6ct_dev c)" if "vaddr (ipv6ct_dev c) = Some h" for h
    using core_okD(1) [OF k, of h] that by simp
  then have "dma_live c' t = Some IPA_NAT_IPV6CT_TEMP_MEM_SIZE"
    using l c' i by (cases "vaddr (ipv6ct_dev c)") (auto simp: ct_free_mem_def Let_def dma_free_coherent_def)
  moreover have "sent c' = sent c @ imm_prefix c @ [IMM_IP_V6_CT_INIT i]" "ipa_hw_type c' = ipa_hw_type c"
    using c'(2) i(1) by (simp_all add: ct_free_mem_def Let_def dma_free_coherent_def)
  then have "ct_hw (sent c') = Some i" "ipa_hw_type c' = ipa_hw_type c" by simp_all
  ultimately show ?thesis using that t i by blast
qed

text \<open>
  C24: The check of a DMA command and the sending of it are not one step: the device's lock is not held. When
  another process deletes the tracking table in between, a command that passed the check goes to the
  temporary memory that the processor was given in the place of the table, and any offset from 128 on ends
  up behind it.
\<close>

theorem drv_ct_dma_races_delete:
  assumes "drv_reach c" "table_dma_check mt dma c = Inr ()" "d \<in> set dma"
    and "base_addr d = dma_type_val IPA_IPV6CT_BASE_TBL" "dma_offset d \<ge> IPA_NAT_IPV6CT_TEMP_MEM_SIZE"
    and "ipa3_del_ipv6ct_table env ti c = (c1, Inr ())" "table_dma_send env' dma c1 = (c2, Inr ())"
  shows "\<exists>i t. IMM_TABLE_DMA d \<in> set (drop (length (sent c1)) (sent c2)) \<and> ct_hw (sent c1) = Some i \<and>
    ini_base_table_addr i = t \<and> dma_live c1 t = Some IPA_NAT_IPV6CT_TEMP_MEM_SIZE \<and>
    ct_target i d \<ge> t + IPA_NAT_IPV6CT_TEMP_MEM_SIZE"
proof -
  have b: "base_addr d \<in> {4, 5}" using assms(4) by simp
  from check_dma_one [OF assms(2,3)] obtain m where "ipa3_table_validate_table_dma_one m d c = Inr ()" by blast
  from validate_ct [OF this b] have v: "is_hw_init (ipv6ct_dev c)" "IPA_HW_v4_0 \<le> ipa_hw_type c" by blast+
  obtain t i where t: "ct_hw (sent c1) = Some i" "ini_base_table_addr i = t"
      "dma_live c1 t = Some IPA_NAT_IPV6CT_TEMP_MEM_SIZE" "ipa_hw_type c1 = ipa_hw_type c"
    using ct_del_told [OF drv_reach_ok [OF assms(1)] v(1) assms(6)] by metis
  obtain cmds where "imm_build env' ENOMEM (imm_prefix c1) (map IMM_TABLE_DMA dma) = Inr cmds" "c2 = c1\<lparr>sent := sent c1 @ cmds\<rparr>"
    using assms(7) v(2) t(4) by (auto simp: table_dma_send_def ipa3_send_cmd_def split: sum.splits)
  then have "IMM_TABLE_DMA d \<in> set (drop (length (sent c1)) (sent c2))"
    using assms(3) imm_build_Inr by fastforce
  then show ?thesis using t assms(4,5) by (auto simp: ct_target_def)
qed

text \<open>A device that counts as in use without memory in DDR, and what requests leave of that.\<close>

definition nat_stuck :: "ipa3_ctx \<Rightarrow> bool" where
  "nat_stuck c \<longleftrightarrow> ddr_in_use (nat_mem c) \<and> mld_vaddr (mem_loc (nat_mem c) IPA_NAT_MEM_IN_DDR) = None"

fun is_nat_deletion :: "ipa_req \<Rightarrow> bool" where
  "is_nat_deletion (IPA_IOC_V4_DEL_NAT b ti) = True"
| "is_nat_deletion (IPA_IOC_DEL_NAT_TABLE mt ti) = True"
| "is_nat_deletion _ = False"

definition drv_requests :: "(drv_env \<times> bool \<times> ipa_req) list \<Rightarrow> ipa3_ctx \<Rightarrow> ipa3_ctx" where
  "drv_requests rs c = fold (\<lambda>(env, copied, req) c. fst (ipa3_ioctl env copied req c)) rs c"

lemma stuck_nat_mem: "nat_mem c' = nat_mem c \<Longrightarrow> nat_stuck c' = nat_stuck c"
  by (simp add: nat_stuck_def)

lemma stuck_refused:
  assumes "nat_stuck c" "\<not> (sram_compatible c \<and> k \<le> ram_nat_size c)"
  shows "ipa3_allocate_nat_table env k c = (c, Inl EPERM)"
proof -
  have ks: "(sram_compatible c \<and> k \<le> ram_nat_size c) = False" using assms(2) by blast
  have "ipa3_nat_allocate_mem env k c = (c, Inl EPERM)"
    unfolding ipa3_nat_allocate_mem_def Let_def ks using assms(1) by (simp add: nat_stuck_def)
  then show ?thesis by (simp add: ipa3_allocate_nat_table_def)
qed

lemma stuck_alloc:
  "nat_stuck c \<Longrightarrow> nat_stuck (fst (ipa3_allocate_nat_table env k c))"
proof (cases "sram_compatible c \<and> k \<le> ram_nat_size c")
  case False
  then show "nat_stuck c \<Longrightarrow> ?thesis" by (simp add: stuck_refused)
next
  case True
  show ?thesis if s: "nat_stuck c"
  proof -
    obtain c1 r where m: "ipa3_nat_allocate_mem env k c = (c1, r)" by fastforce
    then have c1: "nat_stuck c1" "r = Inr () \<Longrightarrow> last_alloc_loc (nat_mem c1) = IPA_NAT_MEM_IN_SRAM"
      using s True by (auto simp: ipa3_nat_allocate_mem_def Let_def nat_stuck_def set_loc_def split: if_splits option.splits)
    then show ?thesis
      by (cases r) (auto simp: ipa3_allocate_nat_table_def m Let_def fail_alloc_pdn_def nat_stuck_def set_loc_def
          dma_alloc_coherent_def split: option.splits)
  qed
qed

lemma stuck_nat_send: "nat_stuck c \<Longrightarrow> ipa3_nat_send_init_cmd env cmd z c = (c', r) \<Longrightarrow> nat_stuck c'"
  by (auto simp: ipa3_nat_send_init_cmd_def ipa3_send_cmd_def nat_stuck_def ipa3_nat_create_modify_pdn_cmd_def Let_def
      split: sum.splits if_splits option.splits)

lemma stuck_init_dev: "nat_stuck c \<Longrightarrow> nat_init_device_structure mt i (nat_mem c) = (nm, r) \<Longrightarrow> nat_stuck (c\<lparr>nat_mem := nm\<rparr>)"
  by (cases mt) (auto simp: nat_init_device_structure_def Let_def nat_stuck_def set_loc_def split: if_splits)

lemma stuck_init_post: "nat_stuck c \<Longrightarrow> nat_stuck (fst (nat_init_post env cmd mt i c))"
proof -
  assume s: "nat_stuck c"
  obtain c2 r where c2: "ipa3_nat_send_init_cmd env cmd False c = (c2, r)" by fastforce
  obtain nm r' where nm: "nat_init_device_structure mt i (nat_mem c2) = (nm, r')" by fastforce
  have "nat_stuck (c2\<lparr>nat_mem := nm\<rparr>)" "nat_stuck c2"
    using stuck_init_dev [OF stuck_nat_send [OF s c2] nm] stuck_nat_send [OF s c2] by blast+
  then show ?thesis by (cases r; cases r') (simp_all add: nat_init_post_def c2 nm nat_stuck_def)
qed

lemma stuck_init_run:
  "nat_stuck c \<Longrightarrow> ipa3_nat_init_cmd env i0 c = (c', r) \<Longrightarrow> nat_stuck c'"
proof -
  assume s: "nat_stuck c" and run: "ipa3_nat_init_cmd env i0 c = (c', r)"
  have pdn: "nat_stuck (c\<lparr>nat_mem := (nat_mem c)\<lparr>pdn_mem := b\<rparr>\<rparr>)" for b using s by (simp add: nat_stuck_def)
  have post: "nat_init_post env cmd mt i c1 = (c', r) \<Longrightarrow> nat_stuck c1 \<Longrightarrow> nat_stuck c'" for cmd mt i c1
    using stuck_init_post [of c1 env cmd mt i] by simp
  show ?thesis using run s unfolding ipa3_nat_init_cmd_def Let_def
    by (auto dest!: post simp: pdn split: if_splits option.splits sum.splits)
qed

lemma stuck_init: "nat_stuck c \<Longrightarrow> nat_stuck (fst (ipa3_nat_init_cmd env i c))"
  by (cases "ipa3_nat_init_cmd env i c") (simp add: stuck_init_run)

lemma stuck_ct:
  "nat_mem (fst (ipa3_ipv6ct_init_cmd env i c)) = nat_mem c" "nat_mem (fst (ipa3_allocate_ipv6ct_table env k c)) = nat_mem c"
  "nat_mem (fst (ipa3_ipv6ct_mmap env c)) = nat_mem c" "nat_mem (fst (ipa3_table_dma_cmd env mt dma c)) = nat_mem c"
  "nat_mem (fst (ipa3_del_ipv6ct_table env ti c)) = nat_mem c" "nat_mem (fst (ipa3_nat_get_sram_info p c)) = nat_mem c"
  by (simp_all add: ipa3_ipv6ct_init_cmd_def ipa3_allocate_ipv6ct_table_def ipa3_ipv6ct_allocate_mem_def Let_def
      ipa3_ipv6ct_mmap_def ipa3_table_dma_cmd_def table_dma_send_def ipa3_del_ipv6ct_table_def ct_free_mem_def
      ipa3_nat_get_sram_info_def ipa3_ipv6ct_send_del_table_cmd_def ipa3_ipv6ct_send_init_cmd_def ipa3_send_cmd_def
      dma_alloc_coherent_def dma_free_coherent_def split: sum.splits prod.splits option.splits)

lemma stuck_request:
  assumes s: "nat_stuck c" and q: "\<not> is_nat_deletion q"
  shows "nat_stuck (fst (ipa3_ioctl env copied q c))"
proof -
  have e: "fst (efault x) = fst x" for x :: "ipa3_ctx \<times> (errno + 'a)" by (cases x) (simp add: efault_def)
  have b: "fst (copied_back env x) = fst x" for x by (cases x) (simp add: copied_back_def)
  have m: "nat_stuck (fst (ipa3_nat_mmap env v c))" for v
    using s by (auto simp: ipa3_nat_mmap_def Let_def nat_stuck_def set_loc_def split: sum.splits)
  have p: "nat_stuck (fst (ipa3_nat_mdfy_pdn env p c))" for p
    using s by (auto simp: ipa3_nat_mdfy_pdn_def Let_def nat_stuck_def ipa3_nat_create_modify_pdn_cmd_def ipa3_send_cmd_def
        split: sum.splits option.splits)
  show ?thesis
    using q s m p by (cases q) (auto simp: ipa3_ioctl_def e b stuck_alloc ipa3_allocate_nat_device_def stuck_init
        stuck_nat_mem [OF stuck_ct(1)] stuck_nat_mem [OF stuck_ct(2)] stuck_nat_mem [OF stuck_ct(3)]
        stuck_nat_mem [OF stuck_ct(4)] stuck_nat_mem [OF stuck_ct(5)] stuck_nat_mem [OF stuck_ct(6)])
qed

lemma stuck_requests:
  "nat_stuck c \<Longrightarrow> \<forall>(env, copied, q) \<in> set rs. \<not> is_nat_deletion q \<Longrightarrow> nat_stuck (drv_requests rs c)"
  unfolding drv_requests_def
proof (induction rs arbitrary: c)
  case (Cons x rs)
  obtain env copied q where x: "x = (env, copied, q)" by (cases x) blast
  then have "nat_stuck (fst (ipa3_ioctl env copied q c))" using Cons.prems by (intro stuck_request) auto
  then show ?case using Cons x by simp
qed simp

lemma del_nat_free: "ipa3_del_nat_table env ti mt c = (c', Inr ()) \<Longrightarrow> \<not> ddr_in_use (nat_mem c')"
  by (auto simp: ipa3_del_nat_table_def nat_free_mem_def Let_def split: option.splits sum.splits prod.splits if_splits)

text \<open>
  C29: When the memory of the PDN table cannot be had, the allocation of the NAT table fails and its memory is given
  back; but the device stays marked as in use. Whatever requests follow, as long as none is a deletion of the NAT
  table, every request for memory outside the SRAM is refused although the device has none; a deletion that
  goes through ends this.
\<close>

theorem drv_pdn_failure_blocks_nat:
  assumes "is_dev_init (nat_dev (nat_mem c))" "\<not> ddr_in_use (nat_mem c)" "ipa_hw_type c \<ge> IPA_HW_v4_0"
    and "pdn_base (pdn_mem (nat_mem c)) = None" "0 < n" "n \<le> MAX_ALLOC_NAT_SIZE (ipahal_nat_entry_size IPAHAL_NAT_IPV4)"
    and "\<not> (sram_compatible c \<and> n \<le> ram_nat_size c)" "alloc_table env = Some a" "a \<notin> dom (dma_live c)" "alloc_pdn env = None"
  shows "\<exists>c'. ipa3_allocate_nat_table env n c = (c', Inl ENOMEM) \<and> dma_live c' = dma_live c \<and>
    sram_compatible c' = sram_compatible c \<and> ram_nat_size c' = ram_nat_size c \<and>
    (\<forall>rs. (\<forall>(env', copied, req) \<in> set rs. \<not> is_nat_deletion req) \<longrightarrow>
       (let c2 = drv_requests rs c' in
          mld_vaddr (mem_loc (nat_mem c2) IPA_NAT_MEM_IN_DDR) = None \<and>
          (\<forall>env' k. \<not> (sram_compatible c2 \<and> k \<le> ram_nat_size c2) \<longrightarrow> ipa3_allocate_nat_table env' k c2 = (c2, Inl EPERM)) \<and>
          (\<forall>env' ti mt c3. ipa3_del_nat_table env' ti mt c2 = (c3, Inr ()) \<longrightarrow> \<not> ddr_in_use (nat_mem c3))))"
proof -
  have ns: "(sram_compatible c \<and> n \<le> ram_nat_size c) = False" using assms(7) by blast
  let ?ddr = "mem_loc (nat_mem c) IPA_NAT_MEM_IN_DDR"
  let ?c1 = "(dma_alloc_coherent (Some a) n c)\<lparr>nat_mem :=
       (set_loc IPA_NAT_MEM_IN_DDR (?ddr\<lparr>mld_table_alloc_size := n, mld_vaddr := Some a, mld_dma_handle := a\<rparr>) (nat_mem c))
         \<lparr>ddr_in_use := True, last_alloc_loc := IPA_NAT_MEM_IN_DDR\<rparr>\<rparr>"
  have c1: "ipa3_nat_allocate_mem env n c = (?c1, Inr ())"
    using assms(1,2,5,6,8) by (simp add: ipa3_nat_allocate_mem_def Let_def ns)
  let ?sz = "ipahal_nat_entry_size IPAHAL_NAT_IPV4_PDN * ipa3_get_max_pdn c"
  let ?c2 = "?c1\<lparr>nat_mem := (nat_mem ?c1)\<lparr>pdn_mem := (pdn_mem (nat_mem c))\<lparr>pdn_size := ?sz\<rparr>\<rparr>\<rparr>"
  have run: "ipa3_allocate_nat_table env n c = (fail_alloc_pdn ?c2, Inl ENOMEM)"
    using assms(3,4,10) by (simp add: ipa3_allocate_nat_table_def c1 Let_def) (simp add: set_loc_def dma_alloc_coherent_def ipa3_get_max_pdn_def)
  let ?c' = "fail_alloc_pdn ?c2"
  have live: "dma_live ?c' = dma_live c" "mld_vaddr (mem_loc (nat_mem ?c') IPA_NAT_MEM_IN_DDR) = None"
    using assms(9) by (auto simp: fail_alloc_pdn_def Let_def set_loc_def dma_alloc_coherent_def dma_free_coherent_def domIff)
  have same: "sram_compatible ?c' = sram_compatible c" "ram_nat_size ?c' = ram_nat_size c"
    by (simp_all add: fail_alloc_pdn_def Let_def set_loc_def dma_alloc_coherent_def dma_free_coherent_def)
  have "nat_stuck ?c'"
    unfolding nat_stuck_def using live(2) by (simp add: fail_alloc_pdn_def Let_def set_loc_def dma_alloc_coherent_def dma_free_coherent_def)
  then have stuck: "nat_stuck (drv_requests rs ?c')" if "\<forall>(env', copied, req) \<in> set rs. \<not> is_nat_deletion req" for rs
    using stuck_requests that by blast
  then show ?thesis using run live(1) same stuck_refused del_nat_free unfolding Let_def nat_stuck_def
    by (intro exI [of _ ?c'] conjI allI impI) blast+
qed

text \<open>
  An allocation for the tracking table is not refused while the device has memory. One that fails leaves the new,
  larger size with the old memory's mapping and handle, so that an initialisation for a table of the new
  size is accepted: the processor is told of a table that ends behind the old memory.
\<close>

lemma drv_ct_failed_realloc:
  assumes dev: "is_mapped (ipv6ct_dev c)" "is_dev_init (ipv6ct_dev c)" "ipa_hw_type c \<ge> IPA_HW_v4_0"
    and te: "1 < te" "te \<le> drv_TABLE_MAX_ENTRIES" and fail: "alloc_table env' = None" and env: "willing env"
  shows "\<exists>c1 c2. ipa3_allocate_ipv6ct_table env' (64 * te) c = (c1, Inl ENOMEM) \<and>
    ipa3_ipv6ct_init_cmd env
      \<lparr>ini_base_table_offset = 0, ini_expn_table_offset = 0, ini_table_entries = te - 1, ini_expn_table_entries = 0,
       ini_tbl_index = 0\<rparr> c1 = (c2, Inr ()) \<and> dma_live c2 = dma_live c \<and>
    (\<exists>i. ct_hw (sent c2) = Some i \<and> ini_base_table_addr i = dma_handle (ipv6ct_dev c) \<and> ini_size_base_table i = te - 1)"
proof -
  let ?c1 = "c\<lparr>ipv6ct_dev := (ipv6ct_dev c)\<lparr>table_alloc_size := 64 * te, vaddr := None\<rparr>\<rparr>"
  have a: "ipa3_allocate_ipv6ct_table env' (64 * te) c = (?c1, Inl ENOMEM)"
    using dev te fail by (simp add: ipa3_allocate_ipv6ct_table_def ipa3_ipv6ct_allocate_mem_def Let_def MAX_ALLOC_NAT_SIZE_def
        ipahal_nat_entry_size_def)
  let ?i = "ipa3_nat_ipv6ct_create_init_cmd False (dma_handle (ipv6ct_dev c)) 0 0 0 (te - 1) 0"
  have chk: "ct_check_params ?c1 0 te = Inr ()" "ct_check_params ?c1 0 0 = Inr ()"
    using te by (simp_all add: ct_check_params_def ipa3_nat_ipv6ct_check_table_params_def drv_TABLE_MAX_ENTRIES_def
        ipahal_nat_entry_size_def UINT_MAX_def)
  let ?c2 = "?c1\<lparr>sent := sent ?c1 @ imm_prefix ?c1 @ [IMM_IP_V6_CT_INIT ?i],
      ipv6ct_dev := (ct_init_device_structure 0 0 (te - 1) 0 (ipv6ct_dev ?c1))\<lparr>is_hw_init := True\<rparr>\<rparr>"
  have "ipa3_ipv6ct_init_cmd env
      \<lparr>ini_base_table_offset = 0, ini_expn_table_offset = 0, ini_table_entries = te - 1, ini_expn_table_entries = 0,
       ini_tbl_index = 0\<rparr> ?c1 = (?c2, Inr ())"
    using dev te chk willing_ct_init [OF env, of ?i ?c1]
    by (simp add: ipa3_ipv6ct_init_cmd_def Let_def IPA_VALID_TBL_INDEX_def)
  then show ?thesis using a
    by (intro exI [of _ ?c1] exI [of _ ?c2] conjI exI [of _ ?i]) (simp_all add: ipa3_nat_ipv6ct_create_init_cmd_def)
qed

text \<open>
  A NAT command is checked against the size of the table in the memory that the process names, not of the one
  that is active: with the larger table in DDR and the smaller one in SRAM active, an offset behind the end of the
  active one passes.
\<close>

lemma drv_nat_dma_wrong_table:
  assumes "is_dev_init (nat_dev (nat_mem c))" "is_hw_init (nat_dev (nat_mem c))" "sram_compatible c"
    and "active_table (nat_mem c) = IPA_NAT_MEM_IN_SRAM"
    and "mld_table_entries (mem_loc (nat_mem c) IPA_NAT_MEM_IN_SRAM) < mld_table_entries (mem_loc (nat_mem c) IPA_NAT_MEM_IN_DDR)"
  shows "table_dma_check 0 [\<lparr>table_index = 0, base_addr = 0,
      dma_offset = 32 * (mld_table_entries (mem_loc (nat_mem c) (active_table (nat_mem c))) + 1), dma_data = 0\<rparr>] c = Inr ()"
  using assms max_cmds [of "coal_mapped c"]
  by (simp add: table_dma_check_def Let_def ipa3_table_validate_table_dma_one_def ipa3_nat_ipv6ct_calculate_table_size_def
      ipahal_nat_entry_size_def)

section \<open>A sample run\<close>

definition demo_nat_dev :: ipa3_nat_ipv6ct_common_mem where
  "demo_nat_dev =
     \<lparr>dev_objects = {}, is_nat_mem = False, is_ipv6ct_mem = False, is_dev_init = False, is_hw_init = False,
      is_mapped = False, phys_mem_size = 0, table_alloc_size = 0, vaddr = None, dma_handle = 0, base_address = None,
      base_table_addr = None, expansion_table_addr = None, dev_table_entries = 0, dev_expn_table_entries = 0, tmp_mem = None\<rparr>"

definition demo_ctx :: ipa3_ctx where
  "demo_ctx =
     \<lparr>ipa_hw_type = 20, sram_compatible = False, coal_mapped = True, ulso_wa = False, ram_nat_size = 0x1000,
      ram_nat_ofst = 0x2000, sram_window = 0, pdn_config_size = 64, pdn_config_ofst = 0x3000, smem_restricted_bytes = 0,
      nat_mem = \<lparr>nat_dev = demo_nat_dev, public_ip_addr = 0, pdn_mem = \<lparr>pdn_base = None, pdn_size = 0, pdn_entries = []\<rparr>,
        last_alloc_loc = IPA_NAT_MEM_IN_DDR, active_table = IPA_NAT_MEM_IN_DDR, switch2ddr_cnt = 0, switch2sram_cnt = 0,
        ddr_in_use = False, sram_in_use = False, mem_loc = (\<lambda>_. mld_zero), is_tmp_mem_allocated = False\<rparr>,
      ipv6ct_dev = demo_nat_dev, dma_live = Map.empty, sent = []\<rparr>"

definition demo_dev_env :: dev_env where
  "demo_dev_env = \<lparr>kzalloc_ok = True, alloc_tmp = Some 100, object_ok = (\<lambda>_ _. True)\<rparr>"

definition demo_env :: drv_env where
  "demo_env = \<lparr>alloc_table = Some 5000, alloc_pdn = None, ioremap_addr = None, mmap_result = Inr (),
               imm_built = (\<lambda>_. True), send_result = Inr (), copy_back_ok = True\<rparr>"

definition demo_init :: ipa_ioc_ipv6ct_init where
  "demo_init = \<lparr>ini_base_table_offset = 0, ini_expn_table_offset = 256, ini_table_entries = 3, ini_expn_table_entries = 2,
                ini_tbl_index = 0\<rparr>"

text \<open>Started; with memory; mapped; with a table.\<close>

definition demo_started :: ipa3_ctx where "demo_started = fst (ipa3_nat_ipv6ct_init_devices demo_dev_env demo_ctx)"
definition demo_allocated :: ipa3_ctx where
  "demo_allocated = fst (ipa3_ioctl demo_env True (IPA_IOC_ALLOC_IPV6CT_TABLE 384) demo_started)"
definition demo_mapped :: ipa3_ctx where "demo_mapped = fst (ipa3_ioctl demo_env True MMAP_IPV6CT demo_allocated)"
definition demo_serving :: ipa3_ctx where
  "demo_serving = fst (ipa3_ioctl demo_env True (IPA_IOC_INIT_IPV6CT_TABLE demo_init) demo_mapped)"

definition demo_dma :: ipa_ioc_nat_dma_one where
  "demo_dma = \<lparr>table_index = 0, base_addr = 4, dma_offset = 162, dma_data = 1\<rparr>"

lemma demo_willing [simp]: "willing demo_env"
  by (simp add: willing_def demo_env_def)

lemmas demo_defs = demo_nat_dev_def demo_ctx_def demo_dev_env_def demo_started_def demo_allocated_def
  demo_mapped_def demo_serving_def demo_dma_def demo_init_def

lemma demo_started_eq:
  "demo_started = (let d = demo_nat_dev\<lparr>dev_objects := {DEV_CLASS, DEV_REGION, DEV_DEVICE, DEV_CDEV}, is_dev_init := True,
       tmp_mem := Some 100\<rparr> in
     demo_ctx\<lparr>nat_mem := (nat_mem demo_ctx)\<lparr>nat_dev := d\<lparr>is_nat_mem := True, phys_mem_size := 0x1000\<rparr>,
        is_tmp_mem_allocated := True\<rparr>, ipv6ct_dev := d\<lparr>is_ipv6ct_mem := True\<rparr>, dma_live := [100 \<mapsto> 128]\<rparr>)"
  by (simp add: demo_defs ipa3_nat_ipv6ct_init_devices_def ipa3_nat_ipv6ct_allocate_tmp_memory_def dma_alloc_coherent_def
      init_device_defs IPA_HW_v4_0_def IPA_NAT_IPV6CT_TEMP_MEM_SIZE_def IPA_RAM_IPV6CT_SIZE_def insert_commute)

lemma demo_start_ok: "ipa3_nat_ipv6ct_init_devices demo_dev_env demo_ctx = (demo_started, Inr ())"
  by (simp add: demo_defs ipa3_nat_ipv6ct_init_devices_def ipa3_nat_ipv6ct_allocate_tmp_memory_def dma_alloc_coherent_def
      init_device_defs IPA_HW_v4_0_def)

lemma demo_allocated_eq:
  "ipa3_ioctl demo_env True (IPA_IOC_ALLOC_IPV6CT_TABLE 384) demo_started =
     (demo_started\<lparr>ipv6ct_dev := (ipv6ct_dev demo_started)\<lparr>table_alloc_size := 384, vaddr := Some 5000, dma_handle := 5000\<rparr>,
        dma_live := [100 \<mapsto> 128, 5000 \<mapsto> 384]\<rparr>, Inr ())"
  by (simp add: ipa3_ioctl_def efault_def copied_back_def ipa3_allocate_ipv6ct_table_def ipa3_ipv6ct_allocate_mem_def demo_started_eq Let_def
      demo_env_def IPA_HW_v4_0_def MAX_ALLOC_NAT_SIZE_def drv_TABLE_MAX_ENTRIES_def ipahal_nat_entry_size_def
      dma_alloc_coherent_def) (simp add: demo_ctx_def demo_nat_dev_def)

lemma demo_allocated_sel:
  "vaddr (ipv6ct_dev demo_allocated) = Some 5000" "\<not> is_mapped (ipv6ct_dev demo_allocated)"
  "is_dev_init (ipv6ct_dev demo_allocated)" "dma_live demo_allocated = [100 \<mapsto> 128, 5000 \<mapsto> 384]"
  unfolding demo_allocated_def demo_allocated_eq fst_conv
  by (simp_all add: demo_started_eq Let_def) (simp_all add: demo_nat_dev_def)

lemma demo_mapped_eq:
  "ipa3_ioctl demo_env True MMAP_IPV6CT demo_allocated =
     (demo_allocated\<lparr>ipv6ct_dev := (ipv6ct_dev demo_allocated)\<lparr>base_address := Some 5000, is_mapped := True\<rparr>\<rparr>, Inr ())"
  by (simp add: ipa3_ioctl_def ipa3_ipv6ct_mmap_def Let_def demo_allocated_sel)
     (simp add: demo_env_def demo_allocated_sel)

lemma demo_blank: "drv_blank demo_ctx" "fresh_tmp demo_dev_env demo_ctx"
  by (simp_all add: drv_blank_def fresh_tmp_def demo_ctx_def demo_nat_dev_def)

text \<open>What the mapped device and the context around it are.\<close>

lemma demo_mapped_sel:
  "vaddr (ipv6ct_dev demo_started) = None" "dma_live demo_started = [100 \<mapsto> 128]"
  "dma_live demo_allocated = [100 \<mapsto> 128, 5000 \<mapsto> 384]"
  "vaddr (ipv6ct_dev demo_mapped) = Some 5000" "dma_handle (ipv6ct_dev demo_mapped) = 5000" "is_mapped (ipv6ct_dev demo_mapped)"
  "table_alloc_size (ipv6ct_dev demo_mapped) = 384" "is_dev_init (ipv6ct_dev demo_mapped)"
  "is_dev_init (nat_dev (nat_mem demo_mapped))" "ipa_hw_type demo_mapped = 20" "coal_mapped demo_mapped" "\<not> sram_compatible demo_mapped"
  "tmp_mem (ipv6ct_dev demo_mapped) = Some 100" "dma_live demo_mapped = [100 \<mapsto> 128, 5000 \<mapsto> 384]"
  unfolding demo_mapped_def demo_mapped_eq fst_conv
  unfolding demo_allocated_def demo_allocated_eq fst_conv
  by (simp_all add: demo_started_eq Let_def demo_ctx_def demo_nat_dev_def)

lemma demo_serving_eq:
  "ipa3_ioctl demo_env True (IPA_IOC_INIT_IPV6CT_TABLE demo_init) demo_mapped =
     (demo_mapped\<lparr>sent := sent demo_mapped @ imm_prefix demo_mapped @
          [IMM_IP_V6_CT_INIT (ipa3_nat_ipv6ct_create_init_cmd False 5000 0 0 256 3 2)],
        ipv6ct_dev := (ct_init_device_structure 0 256 3 2 (ipv6ct_dev demo_mapped))\<lparr>is_hw_init := True\<rparr>\<rparr>, Inr ())"
  by (simp add: ipa3_ioctl_def efault_def ipa3_ipv6ct_init_cmd_def willing_ct_init demo_mapped_sel demo_init_def
      IPA_VALID_TBL_INDEX_def IPA_HW_v4_0_def ct_check_params_def ipa3_nat_ipv6ct_check_table_params_def
      ipahal_nat_entry_size_def UINT_MAX_def sub64_def)

lemma demo_serving_check:
  "table_dma_check 0 [demo_dma] demo_serving = Inr ()"
  unfolding demo_serving_def demo_serving_eq fst_conv
  by (simp add: table_dma_check_def Let_def ipa3_table_validate_table_dma_one_def ct_init_device_structure_def
      ipa3_nat_ipv6ct_calculate_table_size_def ipahal_nat_entry_size_def demo_mapped_sel demo_dma_def IPA_HW_v4_0_def
      IPA_MAX_NUM_OF_TABLE_DMA_CMD_DESC_def)

text \<open>Every stage is reached. Requests that allocate nothing are given no memory.\<close>

lemma demo_reach: "drv_reach demo_started" "drv_reach demo_allocated" "drv_reach demo_mapped" "drv_reach demo_serving"
proof -
  show s: "drv_reach demo_started" using drv_reach.start [OF demo_blank demo_start_ok] .
  have f: "fresh_env demo_env demo_started" by (simp add: fresh_env_def demo_env_def demo_mapped_sel)
  have "ct_regular (IPA_IOC_ALLOC_IPV6CT_TABLE 384) demo_started" by (simp add: ct_regular_def demo_mapped_sel)
  from drv_reach.request [OF s f this] show a: "drv_reach demo_allocated"
    unfolding demo_allocated_def by (metis prod.collapse)
  let ?e = "demo_env\<lparr>alloc_table := None\<rparr>"
  have q: "fresh_env ?e c" for c by (simp add: fresh_env_def demo_env_def)
  have "ipa3_ioctl ?e True MMAP_IPV6CT demo_allocated = (demo_mapped, Inr ())"
    unfolding demo_mapped_def demo_mapped_eq fst_conv
    by (simp add: ipa3_ioctl_def ipa3_ipv6ct_mmap_def Let_def demo_allocated_sel) (simp add: demo_env_def demo_allocated_sel)
  from drv_reach.request [OF a q _ this] show m: "drv_reach demo_mapped" by (simp add: ct_regular_def)
  have w: "willing ?e" by (simp add: willing_def demo_env_def)
  have "ipa3_ioctl ?e True (IPA_IOC_INIT_IPV6CT_TABLE demo_init) demo_mapped = (demo_serving, Inr ())"
    unfolding demo_serving_def demo_serving_eq fst_conv
    by (simp add: ipa3_ioctl_def efault_def ipa3_ipv6ct_init_cmd_def willing_ct_init [OF w] demo_mapped_sel demo_init_def
      IPA_VALID_TBL_INDEX_def IPA_HW_v4_0_def ct_check_params_def ipa3_nat_ipv6ct_check_table_params_def
      ipahal_nat_entry_size_def UINT_MAX_def sub64_def)
  from drv_reach.request [OF m q _ this] show "drv_reach demo_serving"
    by (simp add: ct_regular_def demo_init_def u16_max_def)
qed

lemma demo_dma_sent: "ipa3_table_dma_cmd demo_env 0 [demo_dma] demo_serving =
    (demo_serving\<lparr>sent := sent demo_serving @ imm_prefix demo_serving @
       map (if ipa_hw_type demo_serving \<ge> IPA_HW_v4_0 then IMM_TABLE_DMA else IMM_NAT_DMA) [demo_dma]\<rparr>, Inr ())"
  using demo_serving_check willing_dma [OF demo_willing] by (simp add: ipa3_table_dma_cmd_def)

text \<open>At byte 34 of the third entry, its flags: inside the memory of 384 bytes.\<close>

lemma drv_ct_dma_inside_witness:
  "drv_reach demo_serving \<and> ipa3_table_dma_cmd demo_env 0 [demo_dma] demo_serving = (fst (ipa3_table_dma_cmd demo_env 0 [demo_dma]
     demo_serving), Inr ()) \<and>
   (\<exists>i h n. ct_hw (sent demo_serving) = Some i \<and> dma_live demo_serving h = Some n \<and> h \<le> ct_target i demo_dma \<and>
     ct_target i demo_dma + 2 \<le> h + n)"
proof -
  have d: "demo_dma \<in> set [demo_dma]" by simp
  have b: "base_addr demo_dma = dma_type_val IPA_IPV6CT_BASE_TBL \<or> base_addr demo_dma = dma_type_val IPA_IPV6CT_EXPN_TBL"
    by (simp add: demo_dma_def)
  have e: "even (dma_offset demo_dma)" by (simp add: demo_dma_def)
  show ?thesis using drv_ct_dma_inside [OF demo_reach(4) demo_dma_sent d b] e demo_reach(4) by (simp add: demo_dma_sent)
qed

lemma drv_failed_start_undone_witness:
  "let de = demo_dev_env\<lparr>object_ok := (\<lambda>ct x. \<not> (ct \<and> x = DEV_DEVICE))\<rparr>;
       c' = fst (ipa3_nat_ipv6ct_init_devices de demo_ctx) in
   snd (ipa3_nat_ipv6ct_init_devices de demo_ctx) = Inl ENODEV \<and> dma_live c' = dma_live demo_ctx \<and>
   dev_objects (nat_dev (nat_mem c')) = {DEV_CDEV}"
proof -
  let ?de = "demo_dev_env\<lparr>object_ok := (\<lambda>ct x. \<not> (ct \<and> x = DEV_DEVICE))\<rparr>"
  have r: "snd (ipa3_nat_ipv6ct_init_devices ?de demo_ctx) = Inl ENODEV"
    by (simp add: demo_ctx_def demo_nat_dev_def demo_dev_env_def ipa3_nat_ipv6ct_init_devices_def
        ipa3_nat_ipv6ct_allocate_tmp_memory_def dma_alloc_coherent_def init_device_defs IPA_HW_v4_0_def)
  have f: "fresh_tmp ?de demo_ctx" using demo_blank(2) by (simp add: fresh_tmp_def)
  have p: "ipa3_nat_ipv6ct_init_devices ?de demo_ctx = (fst (ipa3_nat_ipv6ct_init_devices ?de demo_ctx), Inl ENODEV)"
    using r by (metis prod.collapse)
  show ?thesis using drv_failed_start_undone [OF demo_blank(1) f p] r
    by (simp add: Let_def) (simp add: demo_dev_env_def)
qed

lemma drv_ct_init_wraps_witness:
  "table_alloc_size (ipv6ct_dev demo_mapped) = 384 \<and>
   (\<exists>c'. table_alloc_size (ipv6ct_dev c') = 384 \<and>
      snd (ipa3_table_dma_cmd demo_env 0 [\<lparr>table_index = 0, base_addr = 4, dma_offset = 4000000, dma_data = 0\<rparr>] c') = Inr ())"
proof -
  have v: "ipa_hw_type demo_mapped \<ge> IPA_HW_v4_0" by (simp add: demo_mapped_sel IPA_HW_v4_0_def)
  have "(4000000 :: nat) < 2 ^ 22" by simp
  then show ?thesis
    using drv_ct_init_wraps [OF demo_mapped_sel(6,9) v demo_willing] by (auto simp: demo_mapped_sel)
qed

lemma drv_ct_dma_races_delete_witness:
  "let c1 = fst (ipa3_del_ipv6ct_table demo_env 0 demo_serving); c2 = fst (table_dma_send demo_env [demo_dma] c1) in
   table_dma_check 0 [demo_dma] demo_serving = Inr () \<and> IMM_TABLE_DMA demo_dma \<in> set (sent c2) \<and>
   (\<exists>i. ct_hw (sent c1) = Some i \<and> ct_target i demo_dma \<ge> ini_base_table_addr i + 128)"
proof -
  let ?c1 = "fst (ipa3_del_ipv6ct_table demo_env 0 demo_serving)"
  have i: "is_dev_init (ipv6ct_dev demo_serving)" "ipa_hw_type demo_serving = 20" "is_hw_init (ipv6ct_dev demo_serving)"
    unfolding demo_serving_def demo_serving_eq fst_conv by (simp_all add: ct_init_device_structure_def demo_mapped_sel)
  have "snd (ipa3_ipv6ct_send_del_table_cmd demo_env 0 demo_serving) = Inr ()"
    by (simp add: ipa3_ipv6ct_send_del_table_cmd_def ipa3_nat_ipv6ct_create_del_table_cmd_def IPA_VALID_TBL_INDEX_def
        willing_ct_init split: option.splits)
  then obtain x where "ipa3_ipv6ct_send_del_table_cmd demo_env 0 demo_serving = (x, Inr ())" by (metis prod.collapse)
  then have r: "ipa3_del_ipv6ct_table demo_env 0 demo_serving = (?c1, Inr ())"
    using i by (simp add: ipa3_del_ipv6ct_table_def IPA_HW_v4_0_def)
  have s: "table_dma_send demo_env [demo_dma] ?c1 = (fst (table_dma_send demo_env [demo_dma] ?c1), Inr ())"
    by (simp only: willing_dma [OF demo_willing] fst_conv)
  have d: "demo_dma \<in> set [demo_dma]" "base_addr demo_dma = dma_type_val IPA_IPV6CT_BASE_TBL"
    "dma_offset demo_dma \<ge> IPA_NAT_IPV6CT_TEMP_MEM_SIZE"
    by (simp_all add: demo_dma_def IPA_NAT_IPV6CT_TEMP_MEM_SIZE_def)
  from drv_ct_dma_races_delete [OF demo_reach(4) demo_serving_check d r s] show ?thesis
    using demo_serving_check in_set_dropD by (fastforce simp: Let_def IPA_NAT_IPV6CT_TEMP_MEM_SIZE_def)
qed

lemma drv_pdn_failure_blocks_nat_witness:
  "\<exists>c'. ipa3_allocate_nat_table demo_env 4096 demo_started = (c', Inl ENOMEM) \<and> dma_live c' = dma_live demo_started \<and>
    ipa3_allocate_nat_table demo_env 32 c' = (c', Inl EPERM) \<and>
    mld_vaddr (mem_loc (nat_mem (drv_requests [(demo_env, True, IPA_IOC_GET_NAT_IN_SRAM_INFO 4096), (demo_env, True, MMAP_NAT 4096)] c'))
      IPA_NAT_MEM_IN_DDR) = None"
proof -
  have st: "is_dev_init (nat_dev (nat_mem demo_started))" "\<not> ddr_in_use (nat_mem demo_started)" "ipa_hw_type demo_started = 20"
    "pdn_base (pdn_mem (nat_mem demo_started)) = None" "\<not> sram_compatible demo_started"
    by (simp_all add: demo_started_eq Let_def demo_ctx_def)
  have e: "alloc_table demo_env = Some 5000" "5000 \<notin> dom (dma_live demo_started)" "alloc_pdn demo_env = None"
    by (simp_all add: demo_env_def demo_mapped_sel)
  have n: "(4096::nat) \<le> MAX_ALLOC_NAT_SIZE (ipahal_nat_entry_size IPAHAL_NAT_IPV4)" "IPA_HW_v4_0 \<le> ipa_hw_type demo_started"
    "\<not> (sram_compatible demo_started \<and> 4096 \<le> ram_nat_size demo_started)"
    using st(3,5) by (simp_all add: IPA_HW_v4_0_def MAX_ALLOC_NAT_SIZE_def drv_TABLE_MAX_ENTRIES_def ipahal_nat_entry_size_def)
  obtain c' where c': "ipa3_allocate_nat_table demo_env 4096 demo_started = (c', Inl ENOMEM)" "dma_live c' = dma_live demo_started"
      "sram_compatible c' = sram_compatible demo_started"
    and later: "\<And>rs. \<forall>(env', copied, req) \<in> set rs. \<not> is_nat_deletion req \<Longrightarrow>
       (let c2 = drv_requests rs c' in
          mld_vaddr (mem_loc (nat_mem c2) IPA_NAT_MEM_IN_DDR) = None \<and>
          (\<forall>env' k. \<not> (sram_compatible c2 \<and> k \<le> ram_nat_size c2) \<longrightarrow> ipa3_allocate_nat_table env' k c2 = (c2, Inl EPERM)) \<and>
          (\<forall>env' ti mt c3. ipa3_del_nat_table env' ti mt c2 = (c3, Inr ()) \<longrightarrow> \<not> ddr_in_use (nat_mem c3)))"
    using drv_pdn_failure_blocks_nat [OF st(1,2) n(2) st(4) _ n(1,3) e] by auto
  have "ipa3_allocate_nat_table demo_env 32 c' = (c', Inl EPERM)"
    using later [of "[]"] c'(3) st(5) by (simp add: drv_requests_def)
  then show ?thesis
    using c'(1,2) later [of "[(demo_env, True, IPA_IOC_GET_NAT_IN_SRAM_INFO 4096), (demo_env, True, MMAP_NAT 4096)]"]
    by (simp add: Let_def)
qed

end
