(* ===== verification/Ipa_Ct_Drv.thy ===== *)
theory Ipa_Ct_Drv
  imports Ipa_Ipv6ct_Props Ipa_Nat_Drv_Props
begin

text \<open>
  The user library on top of the driver: the system calls of \<open>Ipa_Ipv6ct\<close> answered by the requests of
  \<open>Ipa_Nat_Drv\<close>. What the library asks for passes the driver's checks, so that its calls succeed exactly
  when they should.
\<close>

section \<open>The driver as the library's environment\<close>

text \<open>
  The requests of setting up a table, in order: the place in the SRAM, the memory, the mapping and the
  initialisation. The memory is zeroed when it is allocated. The size of a page plays no role here.
\<close>

definition drv_after_info :: "ipa3_ctx \<Rightarrow> ipa3_ctx" where
  "drv_after_info c = fst (ipa3_nat_get_sram_info 4096 c)"

definition drv_after_alloc :: "drv_env \<Rightarrow> nat \<Rightarrow> ipa3_ctx \<Rightarrow> ipa3_ctx" where
  "drv_after_alloc d sz c = fst (ipa3_ioctl d True (IPA_IOC_ALLOC_IPV6CT_TABLE sz) (drv_after_info c))"

definition drv_after_mmap :: "drv_env \<Rightarrow> nat \<Rightarrow> ipa3_ctx \<Rightarrow> ipa3_ctx" where
  "drv_after_mmap d sz c = fst (ipa3_ioctl d True MMAP_IPV6CT (drv_after_alloc d sz c))"

definition drv_after_init :: "drv_env \<Rightarrow> nat \<Rightarrow> ipa_ioc_ipv6ct_init \<Rightarrow> ipa3_ctx \<Rightarrow> ipa3_ctx" where
  "drv_after_init d sz i c = fst (ipa3_ioctl d True (IPA_IOC_INIT_IPV6CT_TABLE i) (drv_after_mmap d sz c))"

definition setup_env :: "drv_env \<Rightarrow> nat \<Rightarrow> ipa3_ctx \<Rightarrow> ipa_env \<Rightarrow> ipa_env" where
  "setup_env d sz c e = e\<lparr>
     ioctl_sram_info := (case snd (ipa3_nat_get_sram_info 4096 c) of Inl _ \<Rightarrow> None | Inr i \<Rightarrow> Some i),
     ioctl_alloc := (\<lambda>n. case snd (ipa3_ioctl d True (IPA_IOC_ALLOC_IPV6CT_TABLE n) (drv_after_info c)) of
                          Inl err \<Rightarrow> Inl err | Inr _ \<Rightarrow> Inr 0),
     mmap_mem := (\<lambda>n. if snd (ipa3_ioctl d True MMAP_IPV6CT (drv_after_alloc d sz c)) = Inr ()
                      then Some (replicate (Suc (n div ct_entry_size)) ct_zero_entry) else None),
     ioctl_init := (\<lambda>i. snd (ipa3_ioctl d True (IPA_IOC_INIT_IPV6CT_TABLE i) (drv_after_mmap d sz c)))\<rparr>"

text \<open>
  DMA commands: a block that the driver sends is executed by the processor, each command as a store of two
  bytes into the table it was given, whose base table has one entry more than it was told.
\<close>

definition dma_env :: "drv_env \<Rightarrow> ipa3_ctx \<Rightarrow> ipa_env \<Rightarrow> ipa_env" where
  "dma_env d c e = e\<lparr>ioctl_dma := (\<lambda>mt cmd mem.
     if snd (ipa3_ioctl d True (IPA_IOC_TABLE_DMA_CMD (length cmd) (nat_mem_in_val mt) cmd) c) = Inr ()
     then (True, fold (dma_store IPA_IPV6CT_EXPN_TBL (dev_table_entries (ipv6ct_dev c) + 1) ct_entry_size ct_store) cmd mem)
     else (False, mem))\<rparr>"

text \<open>A context in which the driver serves a table.\<close>

definition serves :: "ipa3_ctx \<Rightarrow> ct_table \<Rightarrow> bool" where
  "serves c t \<longleftrightarrow>
     is_dev_init (nat_dev (nat_mem c)) \<and> ipa_hw_type c \<ge> IPA_HW_v4_0 \<and> is_hw_init (ipv6ct_dev c) \<and>
     dev_table_entries (ipv6ct_dev c) + 1 = table_entries t \<and> dev_expn_table_entries (ipv6ct_dev c) = expn_table_entries t"

section \<open>DMA commands\<close>

lemma serves_block:
  assumes s: "serves c t" and b: "ct_block_ok t cmd"
  shows "table_dma_check 0 cmd c = Inr ()"
proof -
  have one: "ipa3_table_validate_table_dma_one IPA_NAT_MEM_IN_DDR d c = Inr ()" if "d \<in> set cmd" for d
    using s b that
    by (auto simp: serves_def ct_block_ok_def list_all_iff ipa3_table_validate_table_dma_one_def Let_def
        ipa3_nat_ipv6ct_calculate_table_size_def ipahal_nat_entry_size_def ct_entry_size_def)
  have "length cmd \<le> 2" "cmd \<noteq> []" using b by (simp_all add: ct_block_ok_def)
  then show ?thesis using s one
    by (auto simp: table_dma_check_def serves_def Let_def list_all_iff IPA_MAX_NUM_OF_TABLE_DMA_CMD_DESC_def)
qed

lemma dma_env_laws:
  assumes "serves c t" "willing d"
  shows "ct_dma_law (dma_env d c e) (table_entries t)" "ct_dma_accepts (dma_env d c e) t"
proof -
  show "ct_dma_law (dma_env d c e) (table_entries t)"
    using assms(1) by (simp add: ct_dma_law_def dma_env_def serves_def)
  have "snd (ipa3_ioctl d True (IPA_IOC_TABLE_DMA_CMD (length cmd) 0 cmd) c) = Inr ()" if "ct_block_ok t cmd" for cmd
    using serves_block [OF assms(1) that] willing_dma [OF assms(2)] by (simp add: ipa3_ioctl_def efault_def ipa3_table_dma_cmd_def)
  then show "ct_dma_accepts (dma_env d c e) t" by (simp add: ct_dma_accepts_def dma_env_def)
qed

text \<open>
  C6: Library and driver together insert rules. In every state the library reaches with a table that the
  driver serves, and as long as the commands get through to the processor, the driver's checks never stand in the
  way: a call fails, with the rules as before, exactly if the mutex cannot be had, the protocol is 0xFF, the direction
  is unknown or the table has no room. Otherwise the rule is in an entry that was free, the answer is a handle that
  leads to it (but -EPERM when the mutex cannot be released), and all other rules are as before. In every case the
  driver still serves the table.
\<close>

theorem ipa_ct_rule_through_driver:
  assumes "ct_reach s" "ct_valid s" "serves c (ct_tbl s)" "willing d"
  shows "\<exists>s' r. ipa_ipv6ct_add_rule (dma_env d c e) 1 u s = Some (s', r) \<and> serves c (ct_tbl s') \<and>
    (let taken = lock_ok e \<and> protocol u \<noteq> IPA_IPV6CT_INVALID_PROTO_FIELD_CMP \<and> ct_good u \<and> ct_room (ct_tbl s) u in
       \<not> taken \<and> (\<exists>err. r = Inl err) \<and> ct_rules (ct_tbl s') = ct_rules (ct_tbl s) \<or>
       taken \<and> (\<exists>i hdl. \<not> ct_used (ct_tbl s) i \<and> r = (if unlock_ok e then Inr hdl else Inl EPERM) \<and>
          ipa_table_get_entry (ct_tbl s') hdl = Inr i \<and>
          ct_rules (ct_tbl s') = (ct_rules (ct_tbl s))(i \<mapsto> ct_norm u)))"
proof -
  note law = dma_env_laws [OF assms(3,4), of e]
  have e: "lock_ok (dma_env d c e) = lock_ok e" "unlock_ok (dma_env d c e) = unlock_ok e" by (simp_all add: dma_env_def)
  from add_rule_run [OF reach_ok [OF assms(1)] assms(2) law(1), of u] obtain s' r where
    s': "ipa_ipv6ct_add_rule (dma_env d c e) 1 u s = Some (s', r)" "same_table (ct_tbl s) (ct_tbl s')"
    and post: "(\<exists>err. r = Inl err) \<and> ct_rules (ct_tbl s') = ct_rules (ct_tbl s) \<and>
       \<not> (lock_ok e \<and> ct_admissible u \<and> ct_good u \<and> ct_room (ct_tbl s) u)
     \<or> lock_ok e \<and> ct_admissible u \<and> ct_good u \<and> ct_room (ct_tbl s) u \<and>
       (\<exists>i. 0 < i \<and> i < tot_tbl_ents (ct_tbl s) \<and> \<not> ct_used (ct_tbl s) i \<and>
          r = (if unlock_ok e then Inr (MakeEntryHdl (ct_tbl s) i) else Inl EPERM) \<and>
          ct_rules (ct_tbl s') = (ct_rules (ct_tbl s))(i \<mapsto> ct_norm u))"
    unfolding unlocked_simps e using law(2) by blast
  have sv: "serves c (ct_tbl s')" using assms(3) s'(2) by (simp add: serves_def same_table_eqs)
  obtain ch where ch: "ct_table_ok (ct_tbl s) ch" using reach_tbl [OF assms(1,2)] by blast
  note okD = ct_table_okD [OF ch]
  have hdl: "ipa_table_get_entry (ct_tbl s') (MakeEntryHdl (ct_tbl s) i) = Inr i" if "i < tot_tbl_ents (ct_tbl s)" for i
  proof -
    have "MakeEntryHdl (ct_tbl s) i = MakeEntryHdl (ct_tbl s') i" using s'(2) by (simp add: MakeEntryHdl_def same_table_eqs)
    moreover have "table_shape (ct_tbl s')" using okD(3) ct.shape_same [OF s'(2)] by simp
    ultimately show ?thesis using get_entry_of_handle [of "ct_tbl s'" i] okD(5,6) that s'(2) by (simp add: same_table_eqs)
  qed
  then show ?thesis using s'(1) sv post unfolding ct_admissible_def Let_def by blast
qed

section \<open>Setting up a table\<close>

text \<open>What the driver needs for it: both devices started, and no memory for the table yet.\<close>

definition ready_for_table :: "drv_env \<Rightarrow> ipa3_ctx \<Rightarrow> bool" where
  "ready_for_table d c \<longleftrightarrow>
     is_dev_init (nat_dev (nat_mem c)) \<and> is_dev_init (ipv6ct_dev c) \<and> ipa_hw_type c \<ge> IPA_HW_v4_0 \<and>
     vaddr (ipv6ct_dev c) = None \<and> \<not> is_mapped (ipv6ct_dev c) \<and> willing d \<and>
     (\<exists>a. alloc_table d = Some a \<and> a + 64 * (4096 + 1024) \<le> UINT_MAX)"

text \<open>The library's initialisation request for tables of the given sizes.\<close>

definition init_request :: "nat \<Rightarrow> nat \<Rightarrow> ipa_ioc_ipv6ct_init" where
  "init_request te xe = \<lparr>ini_base_table_offset = 0, ini_expn_table_offset = te * 64, ini_table_entries = te - 1,
                         ini_expn_table_entries = xe, ini_tbl_index = 0\<rparr>"

lemma sub64_le:
  assumes "b \<le> a" "a < 2 ^ 64"
  shows "sub64 a b = a - b"
proof -
  have "a + (2 ^ 64 - b) = (a - b) + 2 ^ 64" using assms by simp
  moreover have "b mod 2 ^ 64 = b" "(a - b) mod 2 ^ 64 = a - b" using assms by simp_all
  ultimately show ?thesis by (simp only: sub64_def mod_add_self2)
qed

lemma drv_setup:
  assumes r: "ready_for_table d c" and te: "1 < te" "te \<le> 4096" and xe: "0 < xe" "xe \<le> 1024" and sz: "sz = (te + xe) * 64"
  shows "\<exists>i. ipa3_nat_get_sram_info 4096 c = (drv_after_info c, Inr i)"
    and "ipa3_ioctl d True (IPA_IOC_ALLOC_IPV6CT_TABLE sz) (drv_after_info c) = (drv_after_alloc d sz c, Inr ())"
    and "ipa3_ioctl d True MMAP_IPV6CT (drv_after_alloc d sz c) = (drv_after_mmap d sz c, Inr ())"
    and "ipa3_ioctl d True (IPA_IOC_INIT_IPV6CT_TABLE (init_request te xe)) (drv_after_mmap d sz c)
       = (drv_after_init d sz (init_request te xe) c, Inr ())"
    and "is_dev_init (nat_dev (nat_mem (drv_after_init d sz (init_request te xe) c)))"
    and "ipa_hw_type (drv_after_init d sz (init_request te xe) c) \<ge> IPA_HW_v4_0"
    and "is_hw_init (ipv6ct_dev (drv_after_init d sz (init_request te xe) c))"
    and "dev_table_entries (ipv6ct_dev (drv_after_init d sz (init_request te xe) c)) = te - 1"
    and "dev_expn_table_entries (ipv6ct_dev (drv_after_init d sz (init_request te xe) c)) = xe"
proof -
  obtain a where a: "alloc_table d = Some a" "a + 64 * (4096 + 1024) \<le> UINT_MAX" and w: "willing d"
    and c: "is_dev_init (nat_dev (nat_mem c))" "is_dev_init (ipv6ct_dev c)" "ipa_hw_type c \<ge> IPA_HW_v4_0"
      "vaddr (ipv6ct_dev c) = None" "\<not> is_mapped (ipv6ct_dev c)"
    using r by (auto simp: ready_for_table_def)
  have i: "drv_after_info c = c\<lparr>sram_compatible := True\<rparr>"
    using c by (simp add: drv_after_info_def ipa3_nat_get_sram_info_def Let_def)
  show "\<exists>i. ipa3_nat_get_sram_info 4096 c = (drv_after_info c, Inr i)"
    using c(1) by (simp add: i ipa3_nat_get_sram_info_def Let_def)
  let ?c2 = "(dma_alloc_coherent (Some a) sz (drv_after_info c))\<lparr>ipv6ct_dev := (ipv6ct_dev c)\<lparr>table_alloc_size := sz,
       vaddr := Some a, dma_handle := a\<rparr>\<rparr>"
  have "0 < sz" "sz \<le> MAX_ALLOC_NAT_SIZE (ipahal_nat_entry_size IPAHAL_NAT_IPV6CT)"
    using te xe sz by (simp_all add: MAX_ALLOC_NAT_SIZE_def drv_TABLE_MAX_ENTRIES_def ipahal_nat_entry_size_def)
  then have run2: "ipa3_ioctl d True (IPA_IOC_ALLOC_IPV6CT_TABLE sz) (drv_after_info c) = (?c2, Inr ())"
    using c a(1) w by (simp add: ipa3_ioctl_def efault_def copied_back_def willing_def ipa3_allocate_ipv6ct_table_def ipa3_ipv6ct_allocate_mem_def Let_def i)
  then have c2: "drv_after_alloc d sz c = ?c2" by (simp add: drv_after_alloc_def)
  show "ipa3_ioctl d True (IPA_IOC_ALLOC_IPV6CT_TABLE sz) (drv_after_info c) = (drv_after_alloc d sz c, Inr ())"
    using run2 c2 by simp
  let ?c3 = "?c2\<lparr>ipv6ct_dev := (ipv6ct_dev ?c2)\<lparr>base_address := Some a, is_mapped := True\<rparr>\<rparr>"
  have run3: "ipa3_ioctl d True MMAP_IPV6CT ?c2 = (?c3, Inr ())"
    using c w by (simp add: ipa3_ioctl_def ipa3_ipv6ct_mmap_def Let_def willing_def)
  then have c3: "drv_after_mmap d sz c = ?c3" by (simp add: drv_after_mmap_def c2)
  show "ipa3_ioctl d True MMAP_IPV6CT (drv_after_alloc d sz c) = (drv_after_mmap d sz c, Inr ())"
    using run3 c2 c3 by simp
  have k: "ct_check_params ?c3 0 te = Inr ()" "ct_check_params ?c3 (te * 64) xe = Inr ()"
    using te xe sz a(2)
    by (simp_all add: ct_check_params_def ipa3_nat_ipv6ct_check_table_params_def ipahal_nat_entry_size_def sub64_le UINT_MAX_def Let_def)
      arith
  let ?i = "ipa3_nat_ipv6ct_create_init_cmd False a 0 0 (te * 64) (te - 1) xe"
  let ?c4 = "?c3\<lparr>sent := sent ?c3 @ imm_prefix ?c3 @ [IMM_IP_V6_CT_INIT ?i],
      ipv6ct_dev := (ct_init_device_structure 0 (te * 64) (te - 1) xe (ipv6ct_dev ?c3))\<lparr>is_hw_init := True\<rparr>\<rparr>"
  have hw: "ipa_hw_type ?c3 \<ge> IPA_HW_v4_0" "dma_handle (ipv6ct_dev ?c3) = a" "is_mapped (ipv6ct_dev ?c3)"
    using c(3) by (simp_all add: dma_alloc_coherent_def i)
  have run4: "ipa3_ioctl d True (IPA_IOC_INIT_IPV6CT_TABLE (init_request te xe)) ?c3 = (?c4, Inr ())"
    using te k hw willing_ct_init [OF w, of ?i ?c3]
    by (simp add: ipa3_ioctl_def efault_def ipa3_ipv6ct_init_cmd_def Let_def init_request_def IPA_VALID_TBL_INDEX_def)
  then have c4: "drv_after_init d sz (init_request te xe) c = ?c4" by (simp add: drv_after_init_def c3)
  show "ipa3_ioctl d True (IPA_IOC_INIT_IPV6CT_TABLE (init_request te xe)) (drv_after_mmap d sz c)
       = (drv_after_init d sz (init_request te xe) c, Inr ())"
    using run4 c3 c4 by simp
  show "is_dev_init (nat_dev (nat_mem (drv_after_init d sz (init_request te xe) c)))"
    "ipa_hw_type (drv_after_init d sz (init_request te xe) c) \<ge> IPA_HW_v4_0"
    "is_hw_init (ipv6ct_dev (drv_after_init d sz (init_request te xe) c))"
    "dev_table_entries (ipv6ct_dev (drv_after_init d sz (init_request te xe) c)) = te - 1"
    "dev_expn_table_entries (ipv6ct_dev (drv_after_init d sz (init_request te xe) c)) = xe"
    unfolding c4 using c by (simp_all add: dma_alloc_coherent_def i ct_init_device_structure_def)
qed

text \<open>A set-up of the library whose requests succeed.\<close>

lemma add_tbl_run:
  assumes s: "ct_state_ok s" "table_cnt s = 0" and n: "0 < n" "n \<le> IPA_TABLE_MAX_ENTRIES" and law: "ct_mem_law env"
    and op: "ct_open (if ipa_desc s = None then open_desc env else ipa_desc s)"
    and sz: "ipa_table_calculate_entries_num (ipa_table_init IPA_NAT_MEM_IN_DDR ct_entry_size ct_zero_entry None ct_entry_interface) n
        IPA_NAT_MEM_IN_DDR = (t1, Inr ())"
    and env: "ioctl_alloc env (ipa_table_calculate_size t1) = Inr 0" "dev_open_ok env" "dev_close_ok env"
      "mmap_mem env (ipa_table_calculate_size t1) \<noteq> None"
      "ioctl_init env (init_request (table_entries t1) (expn_table_entries t1)) = Inr ()"
  shows "\<exists>s'. ipa_ipv6ct_add_tbl env n s = Some (s', Inr 1) \<and> ct_valid s' \<and> ct_rules (ct_tbl s') = Map.empty \<and>
    table_entries (ct_tbl s') = table_entries t1 \<and> expn_table_entries (ct_tbl s') = expn_table_entries t1"
proof -
  let ?t0 = "ipa_table_init IPA_NAT_MEM_IN_DDR ct_entry_size ct_zero_entry None ct_entry_interface :: ct_table"
  obtain mem where mem: "mmap_mem env (ipa_table_calculate_size t1) = Some mem" using env(4) by auto
  define s1 where "s1 = (if ipa_desc s = None then s\<lparr>ipa_desc := open_desc env\<rparr> else s)"
  have s1: "table_cnt s1 = 0" "ct_open (ipa_desc s1)" using s(2) op by (auto simp: s1_def split: if_splits)
  then obtain ver where ver: "ipa_desc s1 = Some ver" "\<not> ver < IPA_HW_v4_0" by (auto simp: ct_open_def not_less)
  let ?md = "ipa_mem_descriptor_init (ipa_table_calculate_size t1) 0 False (mem_desc (tables s1 0))"
  have "\<exists>md. ipa_mem_descriptor_allocate_memory env ?md = (md, Inr mem)"
    using env(1-3) mem
    by (cases "ioctl_sram_info env")
      (simp_all add: ipa_mem_descriptor_allocate_memory_def AllocateMemory_def MapMemory_def ipa_mem_descriptor_init_def Let_def)
  then obtain md where md: "ipa_mem_descriptor_allocate_memory env ?md = (md, Inr mem)" by blast
  obtain ct r where cr: "ipa_ipv6ct_create_table env (tables s1 0) n 0 = Some (ct, r)"
    and post: "case r of Inl _ \<Rightarrow> md_valid (mem_desc ct) \<longrightarrow> md_valid (mem_desc (tables s1 0))
       | Inr _ \<Rightarrow> n \<le> IPA_TABLE_MAX_ENTRIES \<and> ct_ok (table ct) \<and> ct_rules (table ct) = Map.empty \<and>
           md_valid (mem_desc ct) \<and> addr_offset (mem_desc ct) = 0"
    using ct_create_table_ok [OF law refl, of "tables s1 0" n] by blast
  have ct: "r = Inr ()" "table_entries (table ct) = table_entries t1" "expn_table_entries (table ct) = expn_table_entries t1"
    using cr sz md(1)
    by (auto simp: ipa_ipv6ct_create_table_def Let_def Option.bind_eq_Some_conv ipa_table_reset_def
        ipa_table_calculate_addresses_def ipa_ipv6ct_create_table_dma_cmd_helpers_def split: if_splits)
  have i: "ipa_ipv6ct_post_init_cmd env ct 0 = Inr ()"
    using env(5) post ct by (simp add: ipa_ipv6ct_post_init_cmd_def init_request_def ct_entry_size_def)
  have "ipa_ipv6ct_add_tbl env n s = Some ((set_ct_table 0 ct s1)\<lparr>table_cnt := 1\<rparr>, Inr 1)"
    unfolding ipa_ipv6ct_add_tbl_def s1_def [symmetric] Let_def
    using n s(2) s1(1) ver cr ct(1) i by (simp add: IPA_IPV6CT_MAX_TBLS_def) (simp add: set_ct_table_def)
  then show ?thesis using post ct by (auto simp: ct_valid_def ct_tbl_def set_ct_table_def)
qed

lemma setup_env_law: "ct_mem_law (setup_env d sz c e)"
  using dividend_less_div_times [of ct_entry_size]
  by (auto simp: ct_mem_law_def setup_env_def ct_entry_size_def add.commute less_imp_le split: sum.splits if_splits)

text \<open>A table without rules has no entry in use.\<close>

lemma no_rules_unused:
  assumes ok: "ct_table_ok t ch" and none: "ct_rules t = Map.empty"
  shows "\<not> ct_used t i"
proof
  assume u: "ct_used t i"
  let ?L = "links ct_link t"
  have i: "i < tot_tbl_ents t" "l_valid (?L i)" using u ct_used_link by (auto simp: ct_used_def)
  note wf = table_okD(2) [OF ct_table_okD(2) [OF ok]]
  have dead: "\<not> live (?L j)" if "j < tot_tbl_ents t" for j
    using that none ct_rules_at [of t j] by (simp split: if_splits)
  show False
  proof (cases "i < table_entries t")
    case True
    then have h: "head_ok ?L i (ch i)" using wf by (simp add: linked_def)
    then have "ch i \<noteq> []" using dead [OF i(1)] i(2) by (auto simp: head_ok_def live_def)
    then obtain j where "j \<in> set (ch i)" by (cases "ch i") auto
    then show False using linked_chain_valid [OF wf True] dead [of j] by (auto simp: live_def)
  next
    case False
    then show False using linked_position [OF wf _ i] dead [OF i(1)] i(2) by (auto simp: live_def)
  qed
qed

text \<open>
  C7: Library and driver together set up a table. Take a driver that is started on hardware of version 4 or later, has
  no memory for the tracking table yet, gets the memory at a DMA address that leaves the largest table below
  4 GiB, and whose mappings, copies and commands go through; and a library whose device files open and close. Then
  every size from 1 up to the library's bound of 5120 leads through the four requests (the place in the SRAM, the
  memory, the mapping, the initialisation): all of them pass the driver's checks, the call succeeds, the
  table has at least n - 1 entries for a request of n, none of them in use, and the driver serves exactly
  this table. (Entry 0 is one of them and is never given to a rule.)
\<close>

theorem ipa_ct_setup_through_driver:
  assumes "ct_reach s" "table_cnt s = 0" "0 < n" "n \<le> IPA_TABLE_MAX_ENTRIES" "ready_for_table d c"
    and "dev_open_ok e" "dev_close_ok e" "ct_open (if ipa_desc s = None then open_desc e else ipa_desc s)"
  shows "\<exists>s' te xe. let sz = (te + xe) * ct_entry_size in
    ipa_ipv6ct_add_tbl (setup_env d sz c e) n s = Some (s', Inr 1) \<and> ct_reach s' \<and> ct_valid s' \<and>
    ct_rules (ct_tbl s') = Map.empty \<and> n \<le> te + xe + 1 \<and>
    tot_tbl_ents (ct_tbl s') = te + xe \<and> (\<forall>i. \<not> ct_used (ct_tbl s') i) \<and>
    serves (drv_after_init d sz (init_request te xe) c) (ct_tbl s')"
proof -
  let ?t0 = "ipa_table_init IPA_NAT_MEM_IN_DDR ct_entry_size ct_zero_entry None ct_entry_interface :: ct_table"
  obtain te xe k where t: "ipa_table_calculate_entries_num ?t0 n IPA_NAT_MEM_IN_DDR
      = (?t0\<lparr>tot_tbl_ents := te + xe, table_entries := te, expn_table_entries := xe\<rparr>, Inr ())"
    and k: "te = 2 ^ k" "0 < k" "k \<le> 12" "2 \<le> xe" "xe \<le> 1024" "n \<le> te + xe + 1"
    using ddr_entries [OF assms(4), of ?t0] by auto
  let ?t1 = "?t0\<lparr>tot_tbl_ents := te + xe, table_entries := te, expn_table_entries := xe\<rparr>"
  have te: "1 < te" "te \<le> 4096" "0 < xe"
    using k one_less_power [of "2::nat" k] power_increasing [of k 12 "2::nat"] by auto
  let ?sz = "(te + xe) * ct_entry_size"
  have sz: "ipa_table_calculate_size ?t1 = ?sz" "?sz = (te + xe) * 64"
    by (simp_all add: ipa_table_calculate_size_def ipa_table_init_def ct_entry_size_def)
  note d = drv_setup [OF assms(5) te k(5) sz(2)]
  let ?env = "setup_env d ?sz c e"
  have s: "ct_state_ok s" using reach_ok [OF assms(1)] .
  have "\<exists>s'. ipa_ipv6ct_add_tbl ?env n s = Some (s', Inr 1) \<and> ct_valid s' \<and> ct_rules (ct_tbl s') = Map.empty \<and>
    table_entries (ct_tbl s') = table_entries ?t1 \<and> expn_table_entries (ct_tbl s') = expn_table_entries ?t1"
  proof (rule add_tbl_run [OF s assms(2-4) setup_env_law _ t])
    show "ioctl_alloc ?env (ipa_table_calculate_size ?t1) = Inr 0" using d(2) by (simp add: setup_env_def sz)
    show "mmap_mem ?env (ipa_table_calculate_size ?t1) \<noteq> None" using d(3) by (simp add: setup_env_def)
    show "ioctl_init ?env (init_request (table_entries ?t1) (expn_table_entries ?t1)) = Inr ()"
      using d(4) by (simp add: setup_env_def)
    show "ct_open (if ipa_desc s = None then open_desc ?env else ipa_desc s)"
      using assms(8) by (cases "ipa_desc s") (simp_all add: setup_env_def)
  qed (use assms(6,7) in \<open>simp_all add: setup_env_def\<close>)
  then obtain s' where s': "ipa_ipv6ct_add_tbl ?env n s = Some (s', Inr 1)" "ct_valid s'" "ct_rules (ct_tbl s') = Map.empty"
    "table_entries (ct_tbl s') = te" "expn_table_entries (ct_tbl s') = xe"
    by auto
  have "ct_reach s'" using ct_reach.reach_add_tbl [OF assms(1) setup_env_law s'(1)] .
  moreover have "serves (drv_after_init d ?sz (init_request te xe) c) (ct_tbl s')"
    using d(5-9) te s'(4,5) by (simp add: serves_def)
  moreover obtain ch where ch: "ct_table_ok (ct_tbl s') ch" using reach_tbl [OF \<open>ct_reach s'\<close> s'(2)] by blast
  moreover have "tot_tbl_ents (ct_tbl s') = te + xe"
    using ct_table_okD(3) [OF ch] s'(4,5) by (auto simp: table_shape_def)
  ultimately show ?thesis using s' k(6) no_rules_unused [OF ch] unfolding Let_def by blast
qed

text \<open>Both together, from the driver's sample run: a table for five rules, and a rule in it.\<close>

lemma demo_ready: "ready_for_table demo_env demo_started"
proof -
  have "is_dev_init (nat_dev (nat_mem demo_started))" "is_dev_init (ipv6ct_dev demo_started)" "ipa_hw_type demo_started = 20"
    "\<not> is_mapped (ipv6ct_dev demo_started)"
    by (simp_all add: demo_started_eq Let_def demo_ctx_def demo_nat_dev_def)
  moreover have "alloc_table demo_env = Some 5000" by (simp add: demo_env_def)
  ultimately show ?thesis by (simp add: ready_for_table_def demo_mapped_sel IPA_HW_v4_0_def UINT_MAX_def)
qed

lemma sample_env_sel: "dev_open_ok sample_env" "dev_close_ok sample_env" "lock_ok sample_env" "unlock_ok sample_env"
  "ct_open (if ipa_desc ct_initial = None then open_desc sample_env else ipa_desc ct_initial)"
  by (simp_all add: sample_env_def ct_initial_def ct_open_def IPA_HW_v4_0_def)

lemma ipa_ct_setup_through_driver_witness:
  "\<exists>s' te xe. let sz = (te + xe) * ct_entry_size in
    ipa_ipv6ct_add_tbl (setup_env demo_env sz demo_started sample_env) 5 ct_initial = Some (s', Inr 1) \<and> ct_reach s' \<and> ct_valid s' \<and>
    ct_rules (ct_tbl s') = Map.empty \<and> 5 \<le> te + xe + 1 \<and>
    tot_tbl_ents (ct_tbl s') = te + xe \<and> (\<forall>i. \<not> ct_used (ct_tbl s') i) \<and>
    serves (drv_after_init demo_env sz (init_request te xe) demo_started) (ct_tbl s')"
  by (rule ipa_ct_setup_through_driver [OF ct_reach.reach_start _ _ _ demo_ready sample_env_sel(1,2,5)])
    (simp_all add: ct_initial_def IPA_TABLE_MAX_ENTRIES_def)

lemma demo_serves: "serves demo_serving (ct_tbl (sample_state ns))"
proof -
  note s = sample_state_ok [of ns]
  obtain ch where "ct_table_ok (ct_tbl (sample_state ns)) ch" using reach_tbl s by blast
  then have "expn_table_entries (ct_tbl (sample_state ns)) = 2" using s ct_table_okD(3) by (fastforce simp: table_shape_def)
  then show ?thesis using s unfolding serves_def demo_serving_def demo_serving_eq fst_conv
    by (simp add: demo_mapped_sel ct_init_device_structure_def IPA_HW_v4_0_def)
qed

lemma ipa_ct_rule_through_driver_witness:
  "\<exists>s' r. ipa_ipv6ct_add_rule (dma_env demo_env demo_serving sample_env) 1 (sample_rule 3) (sample_state []) = Some (s', r) \<and>
    serves demo_serving (ct_tbl s')"
proof -
  have s: "ct_reach (sample_state [])" "ct_valid (sample_state [])" using sample_state_ok by blast+
  show ?thesis
    using ipa_ct_rule_through_driver [OF s demo_serves demo_willing, of sample_env "sample_rule 3"] by blast
qed

end
