(* ===== verification/Spec2Isabelle.thy ===== *)
theory Spec2Isabelle
  imports Qdf_Ini_Props Qdf_Parse_Correct Vidc_Queue_Correct Sm_Engine_Correct Crm_Handles_Correct Cam_Sync_Props
    Cam_Dma_Fence_Props Ipa_Ct_Drv
begin

text \<open>
  Verification of core logic of the Qualcomm out-of-tree kernel modules.

  The repository holds the drivers of one phone platform that are built outside the kernel: WLAN, video,
  camera, display, graphics, IPA, audio and smaller ones. Most of its lines are generated register maps
  and code that programs hardware. This development takes the parts whose correctness is a matter of
  the program alone: parsers, queues, tables of handles, fences and packet rules, and a state machine engine. Paths
  below are under \<open>src/qcom/opensource\<close>.

  Parts and theories:

  \<^item> \<open>Kernel_Prelude\<close>: word types, error numbers, status codes, C strings, memory copies, lemmas on rings and
    bitmaps that several components share.
  \<^item> \<open>Qdf_Parse\<close>, \<open>Qdf_Parse_Correct\<close>: the string parsers of the WLAN driver,
    \<open>wlan/qca-wifi-host-cmn/qdf/src/qdf_types.c\<close>. A cursor is a position in a string. Round trips with
    printed forms, exact ranges, array bounds, and the inputs that are accepted although they should
    not be (an overflow that wraps to a larger value, a trailing colon, truncated elements).
  \<^item> \<open>Qdf_Ini\<close>, \<open>Qdf_Ini_Correct\<close>, \<open>Qdf_Ini_Props\<close>: the ini parser of the WLAN driver,
    \<open>wlan/qca-wifi-host-cmn/qdf/src/qdf_parse.c\<close>, on the buffer that it writes terminators into.
    \<open>Qdf_Ini_Correct\<close> proves that a call reads the text behind its cursor as the function \<open>ini_next\<close> on strings says,
    whatever earlier calls left in the buffer, and that the three parsers are functions of the list of things in a file;
    \<open>Qdf_Ini_Props\<close> has the round trip with written files and the texts that are read as something else.
  \<^item> \<open>Vidc_Queue\<close>, \<open>Vidc_Queue_Correct\<close>: the ring buffers between video driver and firmware,
    \<open>video-driver/driver/vidc/src/venus_hfi_queue.c\<close>. The state is the queue header and the array of words;
    the firmware may write the indices, so every operation is total and a memory access out of bounds is
    the result \<open>None\<close>. The driver's write and read refine the first-in first-out interface \<open>fifo\<close> of
    \<open>Fifo_Spec\<close> (interpretation \<open>vq\<close>); reads are memory safe for any header, writes only for a sane one.
    Tear-down leaves queues that refuse every operation and can be set up again.
  \<^item> \<open>Sm_Engine\<close>, \<open>Sm_Engine_Correct\<close>: the state machine engine of the WLAN driver,
    \<open>wlan/qca-wifi-host-cmn/umac/cmn_services/sm_engine\<close>. Entry and exit routines are parameters that may
    do anything to the machine. Transitions run exit and entry routines along the hierarchy; the exit
    loop ends for every table that creation accepts, the entry loop need not; the history is a ring.
  \<^item> \<open>Crm_Handles\<close>, \<open>Crm_Handles_Correct\<close>: the handle table of the camera request manager,
    \<open>camera-kernel/drivers/cam_req_mgr/cam_req_mgr_util.c\<close>. The table implements the interface
    \<open>slot_table\<close> of \<open>Slot_Spec\<close> (interpretation \<open>hs\<close>); its invariant over all request sequences gives the
    decoding and uniqueness of active handles.
  \<^item> \<open>Cam_Sync_Monitor\<close>, \<open>Cam_Sync\<close>, \<open>Cam_Sync_Correct\<close>, \<open>Cam_Sync_Props\<close>: the camera fence table,
    \<open>camera-kernel/drivers/cam_sync/cam_sync.c\<close> and \<open>cam_sync_util.c\<close>, with its monitor rings. The device is
    one record with the rows, the row locks, the bitmap and what the outside sees. \<open>Cam_Sync_Correct\<close>
    computes what each operation does when no lock is held and the monitor is off, and proves for each how it keeps the
    invariant \<open>sync_wf\<close>, which is stated up to the children that a group counts too many: none as long as no fence
    is destroyed that a group waits for, and a fixed debt of a group after that. \<open>Cam_Sync_Props\<close> has the properties
    over all devices that requests lead to (\<open>sync_reach\<close>: the kernel's and the users' entry points, creations
    associated with a DMA fence or a synx object, the DMA fence's callback and the work queue; memory never short, the
    monitor off, no close) and the uses that break them. The index bitmap is a \<open>slot_table\<close> too
    (interpretation \<open>sync_slots\<close>).
  \<^item> \<open>Cam_Dma_Fence\<close>, \<open>Cam_Dma_Fence_Correct\<close>, \<open>Cam_Dma_Fence_Run\<close>, \<open>Cam_Dma_Fence_Props\<close>: the table of DMA fences that
    fences of the former are associated with, \<open>camera-kernel/drivers/cam_sync/cam_sync_dma_fence.c\<close>. The fences are objects of the
    kernel: what is asked of them is recorded, and what they answer is a record of functions of these calls,
    \<open>fence_env\<close>, with their documented behaviour as the law \<open>fence_law\<close>, which an environment is shown to keep. Invariant \<open>dma_sound\<close>,
    over all request sequences (\<open>dma_reach\<close>); who is told of a signal, how often and with what status; and the
    release that leaves a callback behind. The rows are a third \<open>slot_table\<close> (interpretation \<open>dma_slots\<close>).
  \<^item> \<open>Ipa_Table\<close>, \<open>Ipa_Ipv6ct\<close>: the hash tables of the IPA user library, \<open>dataipa/ipanat/src/ipa_table.c\<close>, and
    their client for IPv6 connection tracking, \<open>ipa_ipv6ct.c\<close> with \<open>ipa_mem_descriptor.c\<close>. A table is the list of
    its entries, links are fields of the entries, and some of the stores are left to the packet processor as
    DMA commands. \<open>Chain_Spec\<close> describes such tables as disjoint doubly linked chains (\<open>linked\<close>) and what
    cutting and joining does to them. \<open>Ipa_Table_Correct\<close> proves each operation in the locale
    \<open>chained_table\<close>, over what the table's callbacks promise; \<open>Ipa_Ipv6ct_Correct\<close> interprets it on the
    library's callbacks (\<open>ct\<close>), and \<open>Ipa_Ipv6ct_Props\<close> has the properties over all states that calls lead
    to (\<open>ct_reach\<close>): the table is a map from entries to rules. How the system answers is a record of
    outcomes, \<open>ipa_env\<close>; that a DMA command block is executed as a whole or not at all is the assumption
    \<open>ct_dma_law\<close>.
  \<^item> \<open>Ipa_Nat_Drv\<close>, \<open>Ipa_Nat_Drv_Correct\<close>, \<open>Ipa_Nat_Drv_Props\<close>: the kernel's side of these tables,
    \<open>dataipa/drivers/platform/msm/ipa/ipa_v3/ipa_nat.c\<close> and the cases of \<open>ipa3_ioctl\<close> that call it. The context
    holds the devices, the live DMA buffers and the commands that the processor has executed. What a request
    does to the part of the context that matters for safety is a sequence of \<open>core_step\<close>s, which keep \<open>core_ok\<close>;
    over all reachable contexts (\<open>drv_reach\<close>) DMA commands stay inside the table's memory, if processes
    follow two rules that the driver does not enforce. What happens when they do not are properties too, and
    so is what a failed allocation leaves for all requests that follow.
  \<^item> \<open>Ipa_Ct_Drv\<close>: library and driver together. The driver's requests answer the library's system calls,
    which proves \<open>ct_dma_law\<close> for them and that the driver's checks accept all that the library asks for.

  How they interact: the parsers, the engine and the tables are libraries of their drivers; each entry point
  runs under one lock from beginning to end, or takes several locks in an order the model keeps (the row
  locks of the fence table), so one call is one step. Effects on the outside (callbacks queued, events
  sent, calls into the DMA fence code) are recorded in lists in the order they happen.

  Bounds and fuel: no model uses fuel. Loops over lists are primitive recursive; loops over cursors and over a file's buffer have a
  measure; the loops of the state machine engine and the walks along the links of a hash table, which need not
  end, are \<open>partial_function (option)\<close>.
  Sizes are those of the code (2048 fences, 256 handles, 30 monitor entries, 15 history entries).
  Memory allocations take their outcome from an argument or a list of outcomes.

  Not modelled: code that programs registers, generated headers, debug output, media controller,
  debugfs and probe glue; for the fence table the forwarding to synx (a configuration option) and the batch ioctls
  that combine fences with DMA fences and synx objects; for the IPA tables the address translation of
  \<open>ipa_nat_drvi.c\<close>, the second client of the hash tables, with the state machine that moves its tables between
  DDR and SRAM (the driver's side of it is modelled), and the effect of immediate commands on the processor beyond the
  stores of DMA commands. The
  other drivers of the repository (graphics, display, audio, most of WLAN and camera) are mostly calls into
  kernel services and firmware that are not part of it.
\<close>

end
